(* ===== verification/Prelude.thy ===== *)
theory Prelude
  imports Main "HOL-Library.Word"
begin

text \<open>
  Shared vocabulary of the development: the machine integers of the Go sources, byte strings,
  errors as values, named fact collections, and the generic list and word lemmas that the
  component theories rely on.
\<close>

unbundle bit_operations_syntax

named_theorems go_defs "definitions of the modelled operations that proofs may unfold freely"
named_theorems go_inv "inversion rules for successful results"

section \<open>Machine types\<close>

text \<open>
  Go's unsigned integers are words; \<open>int\<close> and \<open>int64\<close> are both 64 bits wide and are
  mathematical integers here, with \<open>wrap64\<close> written where the code's arithmetic can wrap.
\<close>

type_synonym byte = "8 word"
type_synonym bytes = "byte list"
type_synonym u32 = "32 word"
type_synonym u64 = "64 word"
type_synonym digest = bytes

definition wrap64 :: "int \<Rightarrow> int" where
  "wrap64 x = (x + 2 ^ 63) mod 2 ^ 64 - 2 ^ 63"

definition fits64 :: "int \<Rightarrow> bool" where
  "fits64 x \<longleftrightarrow> - (2 ^ 63) \<le> x \<and> x < 2 ^ 63"

lemma wrap64_id [simp]: "fits64 x \<Longrightarrow> wrap64 x = x"
  by (simp add: wrap64_def fits64_def)

lemma fits64_wrap64 [simp]: "fits64 (wrap64 x)"
proof -
  have "0 \<le> (x + 2 ^ 63) mod 2 ^ 64" and "(x + 2 ^ 63) mod 2 ^ 64 < (2::int) ^ 64"
    by (rule pos_mod_sign, simp, rule pos_mod_bound, simp)
  then show ?thesis by (simp add: wrap64_def fits64_def)
qed

text \<open>The conversion \<open>int64(x)\<close> of a \<open>uint64\<close>: the two's complement reading.\<close>

definition i64_of_u64 :: "u64 \<Rightarrow> int" where
  "i64_of_u64 w = sint w"

lemma fits64_i64_of_u64 [simp]: "fits64 (i64_of_u64 w)"
  using sint_greater_eq [of w] sint_less [of w] by (simp add: i64_of_u64_def fits64_def)

lemma i64_of_u64_small: "unat w < 2 ^ 63 \<Longrightarrow> i64_of_u64 w = int (unat w)"
proof -
  assume "unat w < 2 ^ 63"
  then have "int (unat w) < 2 ^ 63" by (simp only: of_nat_less_numeral_power_cancel_iff)
  then have "uint w < 2 ^ 63" by (simp only: uint_nat)
  then have "signed_take_bit 63 (uint w) = uint w"
    by (intro signed_take_bit_int_eq_self) (use uint_ge_0 [of w] in linarith, simp)
  moreover have "sint w = signed_take_bit 63 (uint w)" by (simp add: sint_uint)
  ultimately have "sint w = uint w" by (rule trans [rotated])
  then show ?thesis unfolding i64_of_u64_def by (simp only: uint_nat)
qed

lemma unat_of_nat_small: "n < 2 ^ LENGTH('a) \<Longrightarrow> unat (word_of_nat n :: 'a::len word) = n"
  by (simp add: unsigned_of_nat take_bit_nat_eq_self)

lemma unat_drop_bit_1: "unat (drop_bit 1 w) = unat w div 2"
proof -
  have "unat (drop_bit 1 w) = drop_bit 1 (unat w)" by (rule unat_drop_bit_eq)
  then show ?thesis by (simp only: drop_bit_eq_div power_one_right)
qed

section \<open>Errors\<close>

text \<open>
  A Go \<open>error\<close> is a value. \<open>Msg f\<close> is an error made by \<open>fmt.Errorf\<close> or \<open>errors.New\<close>,
  identified by its format string (the interpolated values are not kept); \<open>Wrap f e\<close> is
  \<open>fmt.Errorf\<close> with \<open>%w\<close>; \<open>NotExist\<close> stands for the errors \<open>os.IsNotExist\<close> accepts;
  \<open>Unstable\<close> is the engine's \<open>unstableError\<close>.
\<close>

datatype goerr =
    EOF
  | UnexpectedEOF
  | NotExist
  | Canceled
  | DeadlineExceeded
  | Msg string
  | Wrap string goerr
  | Unstable goerr

type_synonym 'a res = "goerr + 'a"

lemma res_cases_Inr [go_inv]:
  "(case r of Inl e \<Rightarrow> Inl e | Inr x \<Rightarrow> f x) = Inr y \<longleftrightarrow> (\<exists>x. r = Inr x \<and> f x = Inr y)"
  by (cases r) auto

section \<open>Byte order\<close>

text \<open>\<open>encoding/binary\<close>: little- and big-endian layouts of fixed-width words.\<close>

definition put_le :: "nat \<Rightarrow> 'a::len word \<Rightarrow> bytes" where
  "put_le n w = map (\<lambda>i. ucast (drop_bit (8 * i) w)) [0..<n]"

definition put_be :: "nat \<Rightarrow> 'a::len word \<Rightarrow> bytes" where
  "put_be n w = rev (put_le n w)"

fun get_le :: "bytes \<Rightarrow> 'a::len word" where
  "get_le [] = 0"
| "get_le (b # bs) = ucast b OR push_bit 8 (get_le bs)"

definition get_be :: "bytes \<Rightarrow> 'a::len word" where
  "get_be bs = get_le (rev bs)"

lemma length_put_le [simp]: "length (put_le n w) = n"
  by (simp add: put_le_def)

lemma length_put_be [simp]: "length (put_be n w) = n"
  by (simp add: put_be_def)

lemma put_le_Suc: "put_le (Suc n) w = ucast w # put_le n (drop_bit 8 w)"
proof -
  have "put_le (Suc n) w = ucast w # map (\<lambda>i. ucast (drop_bit (8 * i) w)) [1..<Suc n]"
    by (simp add: put_le_def upt_conv_Cons del: upt_Suc)
  moreover have "map (\<lambda>i. ucast (drop_bit (8 * i) w) :: byte) [1..<Suc n]
      = map (\<lambda>i. ucast (drop_bit (8 * i) (drop_bit 8 w))) [0..<n]"
    by (rule nth_equalityI) (auto simp: ac_simps nth_upt simp del: upt_Suc)
  ultimately show ?thesis by (simp add: put_le_def)
qed

lemma get_put_le_aux: "bit (get_le (put_le n w) :: 'a::len word) i \<longleftrightarrow> i < 8 * n \<and> bit (w :: 'a word) i"
proof (induction n arbitrary: w i)
  case 0
  then show ?case by (simp add: put_le_def)
next
  case (Suc n)
  have "bit (get_le (put_le (Suc n) w) :: 'a word) i
      \<longleftrightarrow> (i < 8 \<and> i < LENGTH('a) \<and> bit w i) \<or> (8 \<le> i \<and> i < LENGTH('a) \<and> i - 8 < 8 * n \<and> bit (drop_bit 8 w) (i - 8))"
    by (auto simp: put_le_Suc bit_simps Suc.IH)
  also have "\<dots> \<longleftrightarrow> i < 8 * Suc n \<and> bit w i"
    by (auto simp: bit_simps dest: bit_imp_le_length)
  finally show ?case .
qed

lemma get_put_le: "LENGTH('a) \<le> 8 * n \<Longrightarrow> get_le (put_le n w) = (w :: 'a::len word)"
  by (rule bit_word_eqI) (simp add: get_put_le_aux)

lemma get_put_be: "LENGTH('a) \<le> 8 * n \<Longrightarrow> get_be (put_be n w) = (w :: 'a::len word)"
  by (simp add: get_be_def put_be_def get_put_le)

lemma put_le_inject:
  "LENGTH('a) \<le> 8 * n \<Longrightarrow> put_le n v = put_le n w \<longleftrightarrow> v = (w :: 'a::len word)"
  by (metis get_put_le)

end
