(* ===== verification/GoIO.thy ===== *)
theory GoIO
  imports Prelude
begin

text \<open>
  The parts of Go's \<open>io\<close> package the sources use. A reader is the script of what its \<open>Read\<close> calls
  deliver: \<open>Rd b None\<close> makes the bytes \<open>b\<close> available, \<open>Rd b (Some e)\<close> delivers \<open>b\<close> and then returns
  the error \<open>e\<close> with its last piece, and an exhausted script is at end of file. A script can be cut
  anywhere, so a theorem about every script covers every fragmentation of a stream. An error is
  final: every later read returns it again.
\<close>

datatype rd_event = Rd bytes "goerr option"

type_synonym reader = "rd_event list"

text \<open>\<open>r.Read(buf)\<close> with \<open>k = len(buf)\<close>: the bytes delivered, the error, the rest of the script.\<close>

fun rd_read :: "reader \<Rightarrow> nat \<Rightarrow> bytes \<times> goerr option \<times> reader" where
  "rd_read [] k = ([], Some EOF, [])"
| "rd_read (Rd b e # r) k =
     (if length b \<le> k then (b, e, case e of None \<Rightarrow> r | Some _ \<Rightarrow> [Rd [] e])
      else (take k b, None, Rd (drop k b) e # r))"

text \<open>The bytes before the first error of a script, and that error.\<close>

fun rd_content :: "reader \<Rightarrow> bytes" where
  "rd_content [] = []"
| "rd_content (Rd b e # r) = b @ (case e of None \<Rightarrow> rd_content r | Some _ \<Rightarrow> [])"

fun rd_error :: "reader \<Rightarrow> goerr" where
  "rd_error [] = EOF"
| "rd_error (Rd b e # r) = (case e of None \<Rightarrow> rd_error r | Some x \<Rightarrow> x)"

text \<open>A well-behaved source: it makes progress with every successful read and ends in \<open>EOF\<close>.\<close>

fun rd_ok :: "reader \<Rightarrow> bool" where
  "rd_ok [] = True"
| "rd_ok (Rd b None # r) = (b \<noteq> [] \<and> rd_ok r)"
| "rd_ok (Rd b (Some e) # r) = (e = EOF)"

fun rd_size :: "reader \<Rightarrow> nat" where
  "rd_size [] = 0"
| "rd_size (Rd b e # r) = Suc (length b) + rd_size r"

lemma rd_read_size:
  "rd_read r k = (b, None, r') \<Longrightarrow> 0 < k \<Longrightarrow> rd_size r' < rd_size r"
  by (cases "(r, k)" rule: rd_read.cases) (auto split: if_splits)

lemma rd_read_length: "rd_read r k = (b, e, r') \<Longrightarrow> length b \<le> k"
  by (cases "(r, k)" rule: rd_read.cases) (auto split: if_splits)

lemma rd_read_content:
  "rd_read r k = (b, None, r') \<Longrightarrow> rd_content r = b @ rd_content r' \<and> rd_error r = rd_error r'"
  by (cases "(r, k)" rule: rd_read.cases) (auto split: if_splits)

lemma rd_read_content_err:
  "rd_read r k = (b, Some e, r') \<Longrightarrow> rd_content r = b \<and> rd_error r = e"
  by (cases "(r, k)" rule: rd_read.cases) (auto split: if_splits)

lemma rd_ok_error: "rd_ok r \<Longrightarrow> rd_error r = EOF"
  by (induction r rule: rd_ok.induct) auto

section \<open>\<open>io.ReadFull\<close>, \<open>io.ReadAll\<close> and \<open>io.LimitReader\<close>\<close>

function read_at_least :: "reader \<Rightarrow> nat \<Rightarrow> bytes \<times> goerr option \<times> reader" where
  "read_at_least r k =
     (if k = 0 then ([], None, r)
      else case rd_read r k of
        (b, Some e, r') \<Rightarrow> (b, Some e, r')
      | (b, None, r') \<Rightarrow>
          (case read_at_least r' (k - length b) of (b', e', r'') \<Rightarrow> (b @ b', e', r'')))"
  by pat_completeness auto
termination
proof (relation "measure (\<lambda>(r, k). rd_size r)", goal_cases)
  case (2 r k x y e r2)
  then show ?case using rd_read_size [of r k x r2] by auto
qed simp

declare read_at_least.simps [simp del]

text \<open>
  \<open>io.ReadFull(r, buf)\<close>: all \<open>k\<close> bytes, or the error, where an end of file after at least one byte
  is \<open>ErrUnexpectedEOF\<close>.
\<close>

definition read_full :: "reader \<Rightarrow> nat \<Rightarrow> bytes \<times> goerr option \<times> reader" where
  "read_full r k =
     (case read_at_least r k of (b, e, r') \<Rightarrow>
        if k \<le> length b then (b, None, r')
        else if b \<noteq> [] \<and> e = Some EOF then (b, Some UnexpectedEOF, r')
        else (b, e, r'))"

lemma read_at_least_spec:
  "read_at_least r k = (b, e, r') \<Longrightarrow>
     length b \<le> k \<and>
     (e = None \<longrightarrow> length b = k \<and> rd_content r = b @ rd_content r' \<and> rd_error r' = rd_error r) \<and>
     (\<forall>x. e = Some x \<longrightarrow> rd_content r = b \<and> rd_error r = x)"
proof (induction r k arbitrary: b e r' rule: read_at_least.induct)
  case (1 r k)
  show ?case
  proof (cases "k = 0")
    case True
    with "1.prems" show ?thesis by (simp add: read_at_least.simps)
  next
    case False
    obtain d f s where rd: "rd_read r k = (d, f, s)" by (cases "rd_read r k") auto
    show ?thesis
    proof (cases f)
      case (Some x)
      with "1.prems" False rd show ?thesis
        by (auto simp: read_at_least.simps [of r k] dest: rd_read_content_err rd_read_length)
    next
      case None
      obtain d' f' s' where rest: "read_at_least s (k - length d) = (d', f', s')"
        by (cases "read_at_least s (k - length d)") auto
      from "1.prems" False rd None rest have "b = d @ d'" "e = f'" "r' = s'"
        by (auto simp: read_at_least.simps [of r k])
      have ih: "length d' \<le> k - length d \<and>
          (f' = None \<longrightarrow> length d' = k - length d \<and> rd_content s = d' @ rd_content s' \<and> rd_error s' = rd_error s) \<and>
          (\<forall>x. f' = Some x \<longrightarrow> rd_content s = d' \<and> rd_error s = x)"
        using "1.IH" [OF False rd [symmetric] refl] None rest by simp
      from rd None have "length d \<le> k" "rd_content r = d @ rd_content s" "rd_error r = rd_error s"
        using rd_read_length rd_read_content by blast+
      moreover have "length d + length d' \<le> k" using ih \<open>length d \<le> k\<close> by linarith
      ultimately show ?thesis using ih \<open>b = d @ d'\<close> \<open>e = f'\<close> \<open>r' = s'\<close> by simp
    qed
  qed
qed

text \<open>A plain file that holds \<open>d\<close>.\<close>

definition file_reader :: "bytes \<Rightarrow> reader" where
  "file_reader d = (if d = [] then [] else [Rd d None])"

lemma file_reader [simp]: "rd_ok (file_reader d)" "rd_content (file_reader d) = d"
  by (simp_all add: file_reader_def)

fun read_all :: "reader \<Rightarrow> bytes \<times> goerr option" where
  "read_all [] = ([], None)"
| "read_all (Rd b None # r) = (case read_all r of (d, e) \<Rightarrow> (b @ d, e))"
| "read_all (Rd b (Some e) # r) = (b, if e = EOF then None else Some e)"

lemma read_all_eq: "read_all r = (rd_content r, if rd_error r = EOF then None else Some (rd_error r))"
  by (induction r rule: read_all.induct) auto

lemma read_all_file [simp]: "read_all (file_reader d) = (d, None)"
  by (simp add: read_all_eq rd_ok_error)

fun rd_limit :: "nat \<Rightarrow> reader \<Rightarrow> reader" where
  "rd_limit n [] = []"
| "rd_limit n (Rd b e # r) =
     (if n = 0 then []
      else if length b \<le> n
      then Rd b e # (case e of None \<Rightarrow> rd_limit (n - length b) r | Some _ \<Rightarrow> [])
      else [Rd (take n b) None])"

lemma rd_limit_content: "rd_content (rd_limit n r) = take n (rd_content r)"
  by (induction n r rule: rd_limit.induct) (auto split: option.splits)

section \<open>Positional writes\<close>

text \<open>
  \<open>File.WriteAt(b, off)\<close> on a regular file: a write past the end leaves a hole that reads as zeros,
  and an empty write changes nothing.
\<close>

definition write_at :: "bytes \<Rightarrow> nat \<Rightarrow> bytes \<Rightarrow> bytes" where
  "write_at f off b =
     (if b = [] then f
      else let f' = f @ replicate (off - length f) 0
           in take off f' @ b @ drop (off + length b) f')"

lemma length_write_at:
  "length (write_at f off b) = (if b = [] then length f else max (length f) (off + length b))"
  by (auto simp: write_at_def Let_def max_def)

lemma nth_write_at:
  "i < length (write_at f off b) \<Longrightarrow>
   write_at f off b ! i =
     (if off \<le> i \<and> i < off + length b then b ! (i - off) else if i < length f then f ! i else 0)"
  by (auto simp: write_at_def Let_def nth_append min_def not_less split: if_splits)

text \<open>A sequence of writes, each of which writes a part of the file \<open>s\<close> at its place.\<close>

definition assemble :: "bytes \<Rightarrow> (nat \<times> bytes) list \<Rightarrow> bytes" where
  "assemble f ws = foldl (\<lambda>f (off, b). write_at f off b) f ws"

definition part_of :: "bytes \<Rightarrow> nat \<times> bytes \<Rightarrow> bool" where
  "part_of s w \<longleftrightarrow> fst w + length (snd w) \<le> length s \<and> take (length (snd w)) (drop (fst w) s) = snd w"

definition covers :: "nat \<times> bytes \<Rightarrow> nat \<Rightarrow> bool" where
  "covers w i \<longleftrightarrow> fst w \<le> i \<and> i < fst w + length (snd w)"

lemma part_of_nth: "part_of s w \<Longrightarrow> covers w i \<Longrightarrow> snd w ! (i - fst w) = s ! i"
proof -
  assume a: "part_of s w" "covers w i"
  then have "snd w ! (i - fst w) = take (length (snd w)) (drop (fst w) s) ! (i - fst w)"
    by (simp add: part_of_def)
  also have "\<dots> = drop (fst w) s ! (i - fst w)"
    using a(2) by (intro nth_take) (auto simp: covers_def)
  also have "\<dots> = s ! i" using a by (auto simp: part_of_def covers_def)
  finally show ?thesis .
qed

lemma write_at_part:
  assumes "part_of s w" and "length f \<le> length s"
  shows "length (write_at f (fst w) (snd w)) \<le> length s"
    and "covers w i \<or> (i < length f \<and> f ! i = s ! i) \<Longrightarrow>
      i < length (write_at f (fst w) (snd w)) \<and> write_at f (fst w) (snd w) ! i = s ! i"
proof -
  show "length (write_at f (fst w) (snd w)) \<le> length s"
    using assms by (auto simp: length_write_at part_of_def)
  assume c: "covers w i \<or> (i < length f \<and> f ! i = s ! i)"
  then have l: "i < length (write_at f (fst w) (snd w))"
    by (auto simp: length_write_at covers_def)
  with c part_of_nth [OF assms(1)] show
    "i < length (write_at f (fst w) (snd w)) \<and> write_at f (fst w) (snd w) ! i = s ! i"
    by (auto simp: nth_write_at covers_def)
qed

lemma assemble_agrees:
  "length f \<le> length s \<Longrightarrow> \<forall>w \<in> set ws. part_of s w \<Longrightarrow>
   length (assemble f ws) \<le> length s \<and>
   (\<forall>i. (\<exists>w \<in> set ws. covers w i) \<or> (i < length f \<and> f ! i = s ! i) \<longrightarrow>
        i < length (assemble f ws) \<and> assemble f ws ! i = s ! i)"
proof (induction ws arbitrary: f)
  case (Cons w ws)
  let ?f = "write_at f (fst w) (snd w)"
  have "part_of s w" using Cons.prems by simp
  note wp = write_at_part [OF this Cons.prems(1)]
  have "assemble f (w # ws) = assemble ?f ws" by (simp add: assemble_def split: prod.split)
  with Cons.IH [OF wp(1)] Cons.prems wp(2) show ?case by (metis set_ConsD list.set_intros(2))
qed (simp add: assemble_def)

lemma assemble_complete:
  assumes "length f \<le> length s" and "\<forall>w \<in> set ws. part_of s w"
    and "\<forall>i < length s. \<exists>w \<in> set ws. covers w i"
  shows "assemble f ws = s"
proof (rule nth_equalityI)
  note a = assemble_agrees [OF assms(1,2)]
  show "length (assemble f ws) = length s"
  proof (rule antisym)
    show "length s \<le> length (assemble f ws)"
      using a assms(3) by (metis le_less_linear less_irrefl)
  qed (use a in blast)
  then show "\<And>i. i < length (assemble f ws) \<Longrightarrow> assemble f ws ! i = s ! i"
    using a assms(3) by metis
qed

section \<open>Writers\<close>

text \<open>
  A writer collects what was written; its script says how each \<open>Write\<close> ends: \<open>Some (n, e)\<close> is a write
  that stores \<open>n\<close> bytes and fails with \<open>e\<close>, and an exhausted script means success.
\<close>

record writer =
  w_out :: bytes
  w_script :: "(nat \<times> goerr) option list"

definition w_write :: "writer \<Rightarrow> bytes \<Rightarrow> writer \<times> goerr option" where
  "w_write w b =
     (case w_script w of
        Some (n, e) # s \<Rightarrow> (w\<lparr>w_out := w_out w @ take n b, w_script := s\<rparr>, Some e)
      | None # s \<Rightarrow> (w\<lparr>w_out := w_out w @ b, w_script := s\<rparr>, None)
      | [] \<Rightarrow> (w\<lparr>w_out := w_out w @ b\<rparr>, None))"

lemma w_write_out: "w_write w b = (w', e) \<Longrightarrow> \<exists>n. w_out w' = w_out w @ take n b \<and> (e = None \<longrightarrow> w_out w' = w_out w @ b)"
  by (auto simp: w_write_def split: list.splits option.splits prod.splits intro: exI [of _ "length b"])

lemma w_write_healthy [simp]: "w_script w = [] \<Longrightarrow> w_write w b = (w\<lparr>w_out := w_out w @ b\<rparr>, None)"
  by (simp add: w_write_def)

section \<open>Full reads of well-behaved readers\<close>

lemma read_at_least_ok:
  "read_at_least r k = (b, None, r') \<Longrightarrow> rd_ok r \<Longrightarrow> rd_ok r'"
proof (induction r k arbitrary: b r' rule: read_at_least.induct)
  case (1 r k)
  show ?case
  proof (cases "k = 0")
    case True
    with "1.prems" show ?thesis by (simp add: read_at_least.simps)
  next
    case False
    obtain d f s where rd: "rd_read r k = (d, f, s)" by (cases "rd_read r k") auto
    with "1.prems"(1) False have f: "f = None"
      by (cases f) (simp_all add: read_at_least.simps [of r k])
    obtain d' s' where "read_at_least s (k - length d) = (d', None, s')" "r' = s'"
      using "1.prems"(1) False rd f
      by (cases "read_at_least s (k - length d)") (auto simp: read_at_least.simps [of r k])
    moreover have "rd_ok s"
      using rd f "1.prems"(2) by (cases "(r, k)" rule: rd_read.cases) (auto split: if_splits option.splits elim: rd_ok.elims)
    ultimately show ?thesis using "1.IH" [OF False rd [symmetric] refl f] by blast
  qed
qed

lemma rd_read_err: "rd_read r k = (b, Some e, r') \<Longrightarrow> r' = [Rd [] (Some e)] \<or> r' = []"
  by (cases "(r, k)" rule: rd_read.cases) (auto split: if_splits option.splits)

lemma read_at_least_err: "read_at_least r k = (b, Some e, r') \<Longrightarrow> r' = [Rd [] (Some e)] \<or> r' = []"
proof (induction r k arbitrary: b r' rule: read_at_least.induct)
  case (1 r k)
  show ?case
  proof (cases "k = 0")
    case True
    with "1.prems" show ?thesis by (simp add: read_at_least.simps)
  next
    case False
    obtain d f s where rd: "rd_read r k = (d, f, s)" by (cases "rd_read r k") auto
    show ?thesis
    proof (cases f)
      case None
      with 1 False rd show ?thesis
        by (cases "read_at_least s (k - length d)") (auto simp: read_at_least.simps [of r k])
    next
      case (Some x)
      with rd "1.prems" False rd_read_err [of r k d x s] show ?thesis
        by (auto simp: read_at_least.simps [of r k])
    qed
  qed
qed

text \<open>\<open>ReadFull\<close> on a well-behaved source: the outcome depends on its content alone.\<close>


lemma read_full_ok:
  assumes "rd_ok r"
  shows "(k \<le> length (rd_content r) \<longrightarrow>
      (\<exists>r'. read_full r k = (take k (rd_content r), None, r') \<and> rd_ok r' \<and> rd_content r' = drop k (rd_content r)))
    \<and> (length (rd_content r) < k \<longrightarrow>
      (\<exists>r'. read_full r k = (rd_content r, Some (if rd_content r = [] then EOF else UnexpectedEOF), r')))"
proof -
  obtain b e r' where rl: "read_at_least r k = (b, e, r')" by (cases "read_at_least r k") auto
  note sp = read_at_least_spec [OF rl]
  show ?thesis
  proof (cases e)
    case None
    with sp have "length b = k" "rd_content r = b @ rd_content r'" by auto
    then show ?thesis using rl None read_at_least_ok [of r k b r'] assms by (simp add: read_full_def)
  next
    case (Some x)
    with sp have x: "rd_content r = b" "rd_error r = x" by auto
    with rd_ok_error [OF assms] have "x = EOF" by simp
    with sp x rl Some show ?thesis
    proof (cases "length b = k")
      case True
      then have "read_full r k = (b, None, r')" using rl by (simp add: read_full_def)
      moreover have "r' = [Rd [] (Some EOF)] \<or> r' = []"
        using rl Some \<open>x = EOF\<close> by (auto dest: read_at_least_err)
      ultimately show ?thesis using x(1) True by auto
    qed (auto simp: read_full_def)
  qed
qed

end
