(* ===== verification/Chunk.thy ===== *)
theory Chunk
  imports GoIO
begin

text \<open>
  Content-defined chunking (\<open>internal/chunk/chunk.go\<close>): options, the gear table, the cut finder,
  the streaming chunker over an \<open>io.Reader\<close>, whole-file hashing and signature serialisation.
  BLAKE3 is third-party code: it is the parameter \<open>H\<close> of the definitions that hash.
\<close>

section \<open>Data\<close>

record chunk =
  c_offset :: u64
  c_length :: u32
  c_digest :: digest
  c_data :: "bytes option"

record signature =
  s_size :: int
  s_digest :: digest
  s_chunks :: "chunk list"

definition zero_digest :: digest where
  "zero_digest = replicate 32 0"

text \<open>The zero value \<open>FileSignature{}\<close>, which stands for a missing file.\<close>

definition empty_signature :: signature where
  "empty_signature = \<lparr>s_size = 0, s_digest = zero_digest, s_chunks = []\<rparr>"

text \<open>\<open>Digest.String\<close>: lower-case hexadecimal, two characters per byte.\<close>

definition hexdigits :: string where
  "hexdigits = ''0123456789abcdef''"

definition digest_string :: "digest \<Rightarrow> string" where
  "digest_string d =
     concat (map (\<lambda>v. [hexdigits ! unat (drop_bit 4 v), hexdigits ! unat (v AND 0xF)]) d)"

section \<open>Options\<close>

definition DefaultAvgSize :: u32 where "DefaultAvgSize = 64 * 1024"
definition DefaultMinSize :: u32 where "DefaultMinSize = 16 * 1024"
definition DefaultMaxSize :: u32 where "DefaultMaxSize = 256 * 1024"

record options =
  o_avg :: u32
  o_min :: u32
  o_max :: u32
  o_keep :: bool

definition normalized :: "options \<Rightarrow> options" where
  "normalized o1 =
     (let o2 = (if o_avg o1 = 0 then o1\<lparr>o_avg := DefaultAvgSize\<rparr> else o1);
          o3 = (if o_min o2 = 0 then o2\<lparr>o_min := DefaultMinSize\<rparr> else o2);
          o4 = (if o_max o3 = 0 then o3\<lparr>o_max := DefaultMaxSize\<rparr> else o3);
          o5 = (if o_min o4 > o_avg o4
                then (let o' = o4\<lparr>o_min := o_avg o4 div 4\<rparr>
                      in if o_min o' < 1024 then o'\<lparr>o_min := 1024\<rparr> else o')
                else o4)
      in if o_max o5 < o_avg o5 then o5\<lparr>o_max := o_avg o5 * 4\<rparr> else o5)"

text \<open>
  \<open>maskForAvg\<close>: the loop counts how often the average can be halved before it reaches one.
\<close>

function mask_bits :: "u32 \<Rightarrow> u32 \<Rightarrow> u32" where
  "mask_bits avg bits = (if avg > 1 then mask_bits (drop_bit 1 avg) (bits + 1) else bits)"
  by pat_completeness auto
termination
proof (relation "measure (\<lambda>(avg, bits). unat avg)", goal_cases)
  case (2 avg bits)
  then have "0 < unat avg" by (simp add: word_less_nat_alt)
  then have "unat avg div 2 < unat avg" by arith
  then show ?case by (simp only: in_measure prod.case unat_drop_bit_1)
qed simp

declare mask_bits.simps [simp del]

definition maskForAvg :: "u32 \<Rightarrow> u32" where
  "maskForAvg avg =
     (let bits = mask_bits avg 0; bits' = (if bits < 8 then 8 else bits)
      in push_bit (unat bits') 1 - 1)"

section \<open>The cut finder\<close>

definition gear :: "u32 list" where
  "gear = [
    0xBB8E34A1, 0xA200F054, 0x2BA662B3, 0xEF9D9D7B, 0x2769DE9B, 0x3832B448, 0xAD8DF925, 0x03E5B964,
    0x229366E8, 0x4E6A60C3, 0x109641FA, 0x00A69779, 0x6722B952, 0x1164E797, 0x933224ED, 0xF244A9EC,
    0x72DEC1CC, 0xD0625D3B, 0x9A53E66C, 0x149C89BB, 0x86CB5BD7, 0x60D5DFA1, 0xFB231B07, 0xB7AE3FEC,
    0x41676CD0, 0x1F0FD959, 0x7B7C8F3B, 0x7E95C817, 0x875C5795, 0x90120259, 0xC626A85F, 0x2FE66F80,
    0x3860AB39, 0xE3C57454, 0xD35BD002, 0xAB5FC099, 0x2695D97D, 0xE1FAC10B, 0xDB8805BE, 0x917396DA,
    0xCF270C0F, 0x3C16C260, 0x899FBF95, 0x028676C5, 0x9E8E2D47, 0xB046EA8C, 0xF44E6563, 0xAB7FB150,
    0xAC2D7F43, 0xE1D1C71E, 0x809BA9D8, 0x0A43D02C, 0xB6D442E6, 0x1E6001C2, 0x3FCF699E, 0x3B546F0B,
    0x9D4822AF, 0x453DD6EB, 0x138B3B9F, 0x0C8CB4E8, 0x6528AF6A, 0xDBAD3DA0, 0x2B679C31, 0xA357A9A6,
    0xD94935E5, 0xF9E86834, 0xD50906C8, 0x3AAD28C0, 0xDD69B654, 0x8127F859, 0x429762F1, 0xD4F384C0,
    0x39F9EF3F, 0x79A64861, 0xFE643D51, 0x1E28C1B3, 0x91FC04AC, 0xF19C8CFB, 0x1C65B773, 0x32ECE709,
    0x1A43DCB7, 0x34CB3C75, 0xF587B390, 0xD5620B24, 0x6C45878B, 0xF4B5321B, 0x982C4C0A, 0xCC93334F,
    0xD182DAB2, 0x105F3488, 0xD477E03A, 0x5FB9C0D2, 0x3512DB73, 0xD2CA1FA6, 0xE36D9C58, 0x206B5D5D,
    0x020B74EA, 0x0D4820FF, 0xD38E490E, 0x38EBFFF6, 0x5D56E952, 0xFD614A24, 0xB2FC2D28, 0x34093E5A,
    0x4B3E11C6, 0xE90B3290, 0x426FC25D, 0x030F3327, 0x65119FA5, 0xBF12A8DB, 0xA856424C, 0x39D4774B,
    0xE4BEA883, 0x9C3FD215, 0x136C07BA, 0x487B39AC, 0xABECE936, 0xB394C4B0, 0x0D51D099, 0xBB9CE049,
    0x2B62850F, 0x7432B2A1, 0xCC5358EE, 0xFC7F4D39, 0x63D1968E, 0xE5726DCF, 0xA09F77B3, 0x5C72614D,
    0x684BB98C, 0xC8E00F52, 0xBF3D0B2D, 0xE961EA79, 0x94A25221, 0x64213098, 0x772CE0B3, 0x94ECAA2D,
    0x7CBA1E58, 0x1C3EA01F, 0x296FB884, 0x1F161744, 0xE35786FD, 0x3C74AF53, 0x5ABD15D7, 0x55F18289,
    0x99C9B892, 0xCC313485, 0x98263F86, 0x983D0D05, 0x3CBFC20A, 0x28CAF4F5, 0x581DEBC4, 0x2229428D,
    0x3DEFA6CE, 0x0A2E3D99, 0x09403DD9, 0x1BF7654F, 0xEB417ABB, 0x02667C98, 0xEB50B0A9, 0xF1619752,
    0x546A4D22, 0xD086573E, 0xA089F7D3, 0xADAD55AF, 0x6F4AE05F, 0xCF2413B8, 0x9D67D830, 0xD8AE1EA5,
    0x63C0E5E6, 0x14024D04, 0xDFF2A31E, 0xC50A1669, 0xD8DC5501, 0xC26ABDCB, 0x93B8DB1C, 0x3A934FAE,
    0x9C0FA13D, 0x998985A8, 0x5CB693D9, 0x32953FD4, 0x08A6590B, 0x18E0E1D0, 0x76DADEF1, 0x2A33F4F1,
    0x6FAFD012, 0x0E3982E9, 0x4CAF4D69, 0x4C8650EF, 0x894EDEF9, 0x6B38C484, 0x70F9F251, 0xF7AE8D1E,
    0x790F23F1, 0x66EF4F52, 0xF61F3859, 0xD6FFD990, 0xC09E064E, 0xB06725CB, 0xD41B33FA, 0x84ECFF77,
    0x55087BF0, 0xF186C309, 0xC21F50B9, 0xACC1C4FB, 0xC9F6532A, 0x44AAEEF1, 0x733BAF98, 0x6D26A577,
    0x169D8024, 0xA14444D1, 0x8615FA8E, 0xFEFDC7FA, 0xB6251A2D, 0x10EF51AC, 0xB83EF75B, 0x098E4D48,
    0x242F4703, 0x44BFC166, 0x33B809FC, 0x318102B4, 0x017C2220, 0x1629E44E, 0xAF382A59, 0x2CC4EF05,
    0x8597020F, 0x15D9A848, 0x8E3BC7CA, 0x6F040521, 0xC111AE25, 0xD331B3A9, 0x7001A392, 0x14B0AE9D,
    0x82E33892, 0xB31C9CDD, 0x39F59CFF, 0x2F6E0C46, 0xBD2B5D15, 0x4409F71C, 0x4BF0FBAF, 0xE68AACEE,
    0xFEEB6C69, 0xD7D1BBFD, 0x313CCFFA, 0x74A20BD6, 0xD470971C, 0xC541B41A, 0xAFFC20B6, 0x022EF48A,
    0x4DACFDB9, 0x2158677B, 0xEEE940B8, 0x440E03FE, 0x2D0C302B, 0x8C0163CB, 0xEF345F85, 0x41BEF157]"

text \<open>
  \<open>findCut\<close>: the rolling gear hash from position \<open>min\<close> to \<open>n\<close>. \<open>cut_scan\<close> is the loop: it returns the
  cut position \<open>i + 1\<close> of the first hash whose masked bits are zero, and 0 when it runs to the end.
\<close>

function cut_scan :: "bytes \<Rightarrow> nat \<Rightarrow> nat \<Rightarrow> u32 \<Rightarrow> u32 \<Rightarrow> nat" where
  "cut_scan data i n hash msk =
     (if i < n
      then (let hash' = push_bit 1 hash + gear ! unat (data ! i)
            in if hash' AND msk = 0 then i + 1 else cut_scan data (i + 1) n hash' msk)
      else 0)"
  by pat_completeness auto
termination
  by (relation "measure (\<lambda>(data, i, n, hash, msk). n - i)") auto

declare cut_scan.simps [simp del]

definition findCut :: "bytes \<Rightarrow> u32 \<Rightarrow> u32 \<Rightarrow> u32 \<Rightarrow> nat" where
  "findCut data mn mx msk =
     (let n = length data in
      if (word_of_nat n :: u32) \<le> mn then 0
      else let n' = (if (word_of_nat n :: u32) > mx then unat mx else n);
               cut = cut_scan data (unat mn) n' 0 msk
           in if cut \<noteq> 0 then cut
              else if (word_of_nat (length data) :: u32) \<ge> mx then unat mx
              else 0)"

section \<open>Streaming\<close>

text \<open>\<open>readFill\<close>: read until the buffer is full; a read that delivers nothing is an error.\<close>

function readFill :: "reader \<Rightarrow> nat \<Rightarrow> bytes \<times> goerr option \<times> reader" where
  "readFill r k =
     (if k = 0 then ([], None, r)
      else case rd_read r k of
        (b, Some e, r') \<Rightarrow> (b, Some e, r')
      | (b, None, r') \<Rightarrow>
          if b = [] then ([], Some (Msg ''read: no progress''), r')
          else (case readFill r' (k - length b) of (b', e', r'') \<Rightarrow> (b @ b', e', r'')))"
  by pat_completeness auto
termination
proof (relation "measure (\<lambda>(r, k). rd_size r)", goal_cases)
  case (2 r k x y e r2)
  then show ?case using rd_read_size [of r k x r2] by auto
qed simp

declare readFill.simps [simp del]

text \<open>
  The callback \<open>fn\<close> is a Go closure: it updates the state it captures and may return an error.
  \<open>cutLoop\<close> is the inner loop of \<open>streamChunks\<close> over the buffered \<open>data\<close>; \<open>final\<close> is the condition
  \<open>err == io.EOF || err == nil && n == 0\<close> under which the rest becomes the last chunk.
  It returns the callback's error, the carry, the offset, the chunk count and the state.
\<close>

type_synonym 's callback = "'s \<Rightarrow> chunk \<Rightarrow> 's \<times> goerr option"

function cutLoop ::
  "(bytes \<Rightarrow> digest) \<Rightarrow> options \<Rightarrow> bool \<Rightarrow> 's callback \<Rightarrow> bool \<Rightarrow> bytes \<Rightarrow> u64 \<Rightarrow> nat \<Rightarrow> 's
     \<Rightarrow> goerr option \<times> bytes \<times> u64 \<times> nat \<times> 's" where
  "cutLoop H opt copyData fn final data offset nChunks st =
     (if data = [] then (None, [], offset, nChunks, st)
      else let cut0 = findCut data (o_min opt) (o_max opt) (maskForAvg (o_avg opt)) in
        if cut0 = 0 \<and> \<not> final then (None, data, offset, nChunks, st)
        else let cut = (if cut0 = 0 then length data else cut0);
                 piece = take cut data;
                 c = \<lparr>c_offset = offset, c_length = word_of_nat (length piece), c_digest = H piece,
                      c_data = (if copyData then Some piece else None)\<rparr>
             in case fn st c of
                  (st', Some e) \<Rightarrow> (Some e, drop cut data, offset, nChunks, st')
                | (st', None) \<Rightarrow>
                    cutLoop H opt copyData fn final (drop cut data)
                      (offset + word_of_nat (length piece)) (nChunks + 1) st')"
  by pat_completeness auto
termination
  by (relation "measure (\<lambda>(H, opt, copyData, fn, final, data, offset, nChunks, st). length data)")
    auto

declare cutLoop.simps [simp del]

text \<open>
  The outer loop may run forever (it does when the buffer is empty), so it is a partial function:
  \<open>None\<close> is "does not return". \<open>hashed\<close> collects what the \<open>TeeReader\<close> has written to the hasher.
\<close>

partial_function (option) streamLoop ::
  "(bytes \<Rightarrow> digest) \<Rightarrow> options \<Rightarrow> bool \<Rightarrow> 's callback \<Rightarrow> reader \<Rightarrow> bytes \<Rightarrow> bytes \<Rightarrow> u64 \<Rightarrow> nat \<Rightarrow> 's
     \<Rightarrow> ('s \<times> (u64 \<times> bytes \<times> nat) res) option" where
  "streamLoop H opt copyData fn r hashed carry offset nChunks st =
     (case readFill r (unat (o_max opt) - length carry) of (b, err, r') \<Rightarrow>
        let data = carry @ b; hashed' = hashed @ b in
        if data = [] then
          (case err of
             Some e \<Rightarrow> if e = EOF then Some (st, Inr (offset, hashed', nChunks)) else Some (st, Inl e)
           | None \<Rightarrow> streamLoop H opt copyData fn r' hashed' [] offset nChunks st)
        else
          (case cutLoop H opt copyData fn (err = Some EOF \<or> err = None \<and> b = []) data offset nChunks st of
             (Some e, _, _, _, st') \<Rightarrow> Some (st', Inl e)
           | (None, carry', offset', nChunks', st') \<Rightarrow>
               (case err of
                  Some e \<Rightarrow> if e = EOF then Some (st', Inr (offset', hashed', nChunks')) else Some (st', Inl e)
                | None \<Rightarrow> streamLoop H opt copyData fn r' hashed' carry' offset' nChunks' st')))"

definition streamChunks ::
  "(bytes \<Rightarrow> digest) \<Rightarrow> reader \<Rightarrow> int \<Rightarrow> options \<Rightarrow> bool \<Rightarrow> 's callback \<Rightarrow> 's
     \<Rightarrow> ('s \<times> signature res) option" where
  "streamChunks H r sizeHint opt0 copyData fn st =
     (let opt = normalized opt0 in
      case streamLoop H opt copyData fn r [] [] 0 0 st of
        None \<Rightarrow> None
      | Some (st', Inl e) \<Rightarrow> Some (st', Inl e)
      | Some (st', Inr (offset, hashed, nChunks)) \<Rightarrow>
          let total = i64_of_u64 offset in
          if sizeHint > 0 \<and> sizeHint \<noteq> total
          then Some (st', Inl (Msg ''size mismatch: read %d bytes, hint %d''))
          else Some (st', Inr \<lparr>s_size = total, s_digest = H hashed, s_chunks = []\<rparr>))"

definition append_chunk :: "chunk list callback" where
  "append_chunk chunks c = (chunks @ [c], None)"

definition ChunkReader ::
  "(bytes \<Rightarrow> digest) \<Rightarrow> reader \<Rightarrow> int \<Rightarrow> options \<Rightarrow> signature res option" where
  "ChunkReader H r sizeHint opt =
     (case streamChunks H r sizeHint opt (o_keep opt) append_chunk [] of
        None \<Rightarrow> None
      | Some (chunks, Inl e) \<Rightarrow> Some (Inl e)
      | Some (chunks, Inr sig) \<Rightarrow> Some (Inr (sig\<lparr>s_chunks := chunks\<rparr>)))"

definition StreamChunks ::
  "(bytes \<Rightarrow> digest) \<Rightarrow> reader \<Rightarrow> int \<Rightarrow> options \<Rightarrow> 's callback \<Rightarrow> 's
     \<Rightarrow> ('s \<times> signature res) option" where
  "StreamChunks H r sizeHint opt fn st = streamChunks H r sizeHint opt True fn st"

definition HashFile :: "(bytes \<Rightarrow> digest) \<Rightarrow> reader \<Rightarrow> (digest \<times> int) res" where
  "HashFile H r =
     (case read_all r of
        (b, Some e) \<Rightarrow> Inl e
      | (b, None) \<Rightarrow> Inr (H b, int (length b)))"

text \<open>\<open>SerializeSignature\<close>: size, digest, chunk count, then offset and digest of every chunk.\<close>

definition serialize_chunk :: "chunk \<Rightarrow> bytes" where
  "serialize_chunk c = put_le 8 (c_offset c) @ c_digest c"

definition SerializeSignature :: "signature \<Rightarrow> bytes" where
  "SerializeSignature sig =
     put_le 8 (word_of_int (s_size sig) :: u64) @ s_digest sig
     @ put_le 4 (word_of_nat (length (s_chunks sig)) :: u32)
     @ concat (map serialize_chunk (s_chunks sig))"

section \<open>Reading into the buffer\<close>

lemma rd_read_ok: "rd_read r k = (b, None, r') \<Longrightarrow> rd_ok r \<Longrightarrow> 0 < k \<Longrightarrow> b \<noteq> [] \<and> rd_ok r'"
proof (cases r)
  case (Cons x xs)
  obtain c f where "x = Rd c f" by (cases x)
  moreover assume "rd_read r k = (b, None, r')" "rd_ok r" "0 < k"
  ultimately show ?thesis using Cons by (cases f) (auto split: if_splits)
qed auto

lemma readFill_spec:
  "readFill r k = (b, e, r') \<Longrightarrow> rd_ok r \<Longrightarrow>
     length b \<le> k \<and>
     (e = None \<longrightarrow> length b = k \<and> rd_content r = b @ rd_content r' \<and> rd_ok r') \<and>
     (\<forall>x. e = Some x \<longrightarrow> x = EOF \<and> rd_content r = b)"
proof (induction r k arbitrary: b e r' rule: readFill.induct)
  case (1 r k)
  show ?case
  proof (cases "k = 0")
    case True
    with "1.prems" show ?thesis by (simp add: readFill.simps)
  next
    case False
    obtain d f s where rd: "rd_read r k = (d, f, s)" by (cases "rd_read r k") auto
    show ?thesis
    proof (cases f)
      case (Some x)
      with rd "1.prems"(2) have "x = EOF" using rd_ok_error rd_read_content_err by metis
      with "1.prems" False rd Some show ?thesis
        by (auto simp: readFill.simps [of r k] dest: rd_read_content_err rd_read_length)
    next
      case None
      from rd None "1.prems"(2) False have d: "d \<noteq> []" "rd_ok s"
        by (auto dest: rd_read_ok)
      obtain d' f' s' where rest: "readFill s (k - length d) = (d', f', s')"
        by (cases "readFill s (k - length d)") auto
      from "1.prems"(1) False rd None d rest have eq: "b = d @ d'" "e = f'" "r' = s'"
        by (auto simp: readFill.simps [of r k])
      from "1.IH" [OF False rd [symmetric] refl None d(1) rest d(2)]
      have ih: "length d' \<le> k - length d"
        "f' = None \<longrightarrow> length d' = k - length d \<and> rd_content s = d' @ rd_content s' \<and> rd_ok s'"
        "\<forall>x. f' = Some x \<longrightarrow> x = EOF \<and> rd_content s = d'" by blast+
      from rd None have "length d \<le> k" "rd_content r = d @ rd_content s"
        using rd_read_length rd_read_content by blast+
      with ih eq show ?thesis by auto
    qed
  qed
qed

section \<open>Cuts and the reference pieces\<close>

lemma cut_scan_bounds: "cut_scan d i n h m \<noteq> 0 \<Longrightarrow> i < cut_scan d i n h m \<and> cut_scan d i n h m \<le> n"
proof (induction d i n h m rule: cut_scan.induct)
  case (1 d i n h m)
  then show ?case
    by (auto simp: cut_scan.simps [of d i n h m] Let_def split: if_splits)
qed

text \<open>The scan reads only the bytes before the cut it returns.\<close>

lemma cut_scan_prefix:
  "cut_scan d i n h m \<noteq> 0 \<Longrightarrow> n \<le> n' \<Longrightarrow> n \<le> length d \<Longrightarrow>
     cut_scan (d @ x) i n' h m = cut_scan d i n h m"
proof (induction d i n h m rule: cut_scan.induct)
  case (1 d i n h m)
  from "1.prems"(1) have "i < n" by (simp add: cut_scan.simps [of d i n h m] split: if_splits)
  with "1.prems" have "(d @ x) ! i = d ! i" "i < n'" by (simp_all add: nth_append)
  with "1" \<open>i < n\<close> show ?case
    by (simp add: cut_scan.simps [of d i n h m] cut_scan.simps [of "d @ x" i n' h m] Let_def split: if_splits)
qed

lemma cut_scan_append:
  "n \<le> length d \<Longrightarrow> cut_scan (d @ x) i n h m = cut_scan d i n h m"
proof (induction d i n h m rule: cut_scan.induct)
  case (1 d i n h m)
  show ?case
  proof (cases "i < n")
    case True
    with "1.prems" have "(d @ x) ! i = d ! i" by (simp add: nth_append)
    with "1" True show ?thesis
      by (simp add: cut_scan.simps [of d i n h m] cut_scan.simps [of "d @ x" i n h m] Let_def)
  qed (simp add: cut_scan.simps)
qed

text \<open>On at most \<open>max\<close> bytes, which is all the code ever passes, the 32-bit conversions are exact.\<close>

lemma findCut_eq:
  assumes "length d \<le> unat mx"
  shows "findCut d mn mx msk =
    (if length d \<le> unat mn then 0
     else let cut = cut_scan d (unat mn) (length d) 0 msk
          in if cut \<noteq> 0 then cut else if length d = unat mx then unat mx else 0)"
proof -
  have "unat mx < 2 ^ LENGTH(32)" by (rule unsigned_less)
  with assms have "length d < 2 ^ LENGTH(32)" by (rule le_less_trans)
  then have u: "unat (word_of_nat (length d) :: u32) = length d" by (rule unat_of_nat_small)
  show ?thesis
    using assms unfolding findCut_def Let_def word_le_nat_alt word_less_nat_alt u by auto
qed

lemma findCut_bounds:
  assumes "length d \<le> unat mx" and "findCut d mn mx msk \<noteq> 0"
  shows "unat mn < findCut d mn mx msk" and "findCut d mn mx msk \<le> length d"
  using assms cut_scan_bounds [of d "unat mn" "length d" 0 msk]
  by (auto simp: findCut_eq Let_def split: if_splits)

lemma findCut_full:
  assumes "length d = unat mx" and "unat mn < unat mx"
  shows "findCut d mn mx msk \<noteq> 0"
  using assms by (auto simp: findCut_eq Let_def)

lemma findCut_prefix:
  assumes "length (d @ x) \<le> unat mx" and "findCut d mn mx msk \<noteq> 0"
  shows "findCut (d @ x) mn mx msk = findCut d mn mx msk"
proof (cases "x = []")
  case False
  with assms(1) have len: "length d \<le> unat mx" "length d \<noteq> unat mx" by auto
  with assms(2) have "cut_scan d (unat mn) (length d) 0 msk \<noteq> 0" "unat mn < length d"
    by (auto simp: findCut_eq Let_def split: if_splits)
  then show ?thesis
    using assms(1) len cut_scan_prefix [of d "unat mn" "length d" 0 msk "length (d @ x)" x]
    by (simp add: findCut_eq Let_def)
qed simp

text \<open>
  The reference: what the pieces of a byte string are, with no buffer and no reader. Each cut is
  found in the first \<open>max\<close> bytes that remain.
\<close>

function pieces :: "u32 \<Rightarrow> u32 \<Rightarrow> u32 \<Rightarrow> bytes \<Rightarrow> bytes list" where
  "pieces mn mx msk data =
     (if data = [] then []
      else let cut0 = findCut (take (unat mx) data) mn mx msk;
               cut = (if cut0 = 0 then length data else cut0)
           in take cut data # pieces mn mx msk (drop cut data))"
  by pat_completeness auto
termination
  by (relation "measure (\<lambda>(mn, mx, msk, data). length data)") auto

declare pieces.simps [simp del]

lemma concat_pieces: "concat (pieces mn mx msk data) = data"
  by (induction mn mx msk data rule: pieces.induct) (simp add: pieces.simps Let_def)

lemma pieces_nonempty: "p \<in> set (pieces mn mx msk data) \<Longrightarrow> p \<noteq> []"
proof (induction mn mx msk data rule: pieces.induct)
  case (1 mn mx msk data)
  then show ?case
    by (subst (asm) (2) pieces.simps) (auto simp: Let_def split: if_splits)
qed

text \<open>Running the callback over a list of chunks, stopping at its first error.\<close>

fun run_cb :: "'s callback \<Rightarrow> chunk list \<Rightarrow> 's \<Rightarrow> 's \<times> goerr option" where
  "run_cb fn [] st = (st, None)"
| "run_cb fn (c # cs) st =
     (case fn st c of (st', Some e) \<Rightarrow> (st', Some e) | (st', None) \<Rightarrow> run_cb fn cs st')"

fun mk_chunks :: "(bytes \<Rightarrow> digest) \<Rightarrow> bool \<Rightarrow> u64 \<Rightarrow> bytes list \<Rightarrow> chunk list" where
  "mk_chunks H keep off [] = []"
| "mk_chunks H keep off (p # ps) =
     \<lparr>c_offset = off, c_length = word_of_nat (length p), c_digest = H p,
      c_data = (if keep then Some p else None)\<rparr> # mk_chunks H keep (off + word_of_nat (length p)) ps"

lemma run_cb_append:
  "run_cb fn (cs @ ds) st =
     (case run_cb fn cs st of (st', Some e) \<Rightarrow> (st', Some e) | (st', None) \<Rightarrow> run_cb fn ds st')"
  by (induction cs arbitrary: st) (auto split: prod.split option.split)

lemma mk_chunks_append:
  "mk_chunks H keep off (ps @ qs) =
     mk_chunks H keep off ps @ mk_chunks H keep (off + word_of_nat (length (concat ps))) qs"
  by (induction ps arbitrary: off) (auto simp: add.assoc)

abbreviation opt_pieces :: "options \<Rightarrow> bytes \<Rightarrow> bytes list" where
  "opt_pieces opt \<equiv> pieces (o_min opt) (o_max opt) (maskForAvg (o_avg opt))"

lemma pieces_step:
  assumes "length d \<le> unat (o_max opt)" and "d \<noteq> []"
    and "c = findCut d (o_min opt) (o_max opt) (maskForAvg (o_avg opt))" and "c \<noteq> 0"
  shows "opt_pieces opt (d @ x) = take c d # opt_pieces opt (drop c d @ x)"
proof -
  let ?mx = "unat (o_max opt)"
  have tk: "take ?mx (d @ x) = d @ take (?mx - length d) x" using assms(1) by simp
  have "length (take ?mx (d @ x)) \<le> ?mx" by simp
  then have "findCut (take ?mx (d @ x)) (o_min opt) (o_max opt) (maskForAvg (o_avg opt)) = c"
    unfolding tk assms(3) using assms(3,4) by (intro findCut_prefix) simp_all
  moreover have "c \<le> length d" using assms findCut_bounds(2) by blast
  ultimately show ?thesis
    using assms(2,4) by (subst pieces.simps) (simp add: Let_def)
qed

lemma cutLoop_step:
  assumes "data \<noteq> []" and "c = findCut data (o_min opt) (o_max opt) (maskForAvg (o_avg opt))"
    and "c \<noteq> 0 \<or> final" and "k = (if c = 0 then length data else c)"
  shows "cutLoop H opt keep fn final data off n st =
    (case fn st \<lparr>c_offset = off, c_length = word_of_nat (length (take k data)), c_digest = H (take k data),
                 c_data = (if keep then Some (take k data) else None)\<rparr> of
       (st', Some e) \<Rightarrow> (Some e, drop k data, off, n, st')
     | (st', None) \<Rightarrow> cutLoop H opt keep fn final (drop k data)
                      (off + word_of_nat (length (take k data))) (n + 1) st')"
  unfolding cutLoop.simps [of H opt keep fn final data] Let_def assms(2) [symmetric] assms(4) [symmetric]
  using assms(1,3) by auto

text \<open>A pass that is not the last one: the pieces it emits are pieces of any continuation.\<close>

lemma cutLoop_partial:
  "cutLoop H opt keep fn final data off n st = (e, carry, off', n', st') \<Longrightarrow> \<not> final \<Longrightarrow>
   length data \<le> unat (o_max opt) \<Longrightarrow>
   \<exists>ps. (\<forall>x. \<exists>q. opt_pieces opt (data @ x) = ps @ q \<and> (e = None \<longrightarrow> q = opt_pieces opt (carry @ x))) \<and>
        run_cb fn (mk_chunks H keep off ps) st = (st', e) \<and>
        (e = None \<longrightarrow> data = concat ps @ carry \<and> off' = off + word_of_nat (length (concat ps)) \<and>
                      n' = n + length ps \<and>
                      (carry = [] \<or> findCut carry (o_min opt) (o_max opt) (maskForAvg (o_avg opt)) = 0))"
proof (induction data arbitrary: off n st e carry off' n' st' rule: measure_induct_rule [where f = length])
  case (less data)
  define c where "c = findCut data (o_min opt) (o_max opt) (maskForAvg (o_avg opt))"
  show ?case
  proof (cases "data = [] \<or> c = 0")
    case True
    with less.prems have "e = None" "carry = data" "off' = off" "n' = n" "st' = st"
      by (auto simp: cutLoop.simps [of H opt keep fn False data] c_def Let_def split: if_splits)
    with True show ?thesis by (intro exI [of _ "[]"]) (auto simp: c_def)
  next
    case False
    let ?ch = "\<lparr>c_offset = off, c_length = word_of_nat (length (take c data)), c_digest = H (take c data),
                 c_data = (if keep then Some (take c data) else None)\<rparr>"
    from False less.prems(3) have cl: "c \<le> length data"
      using findCut_bounds(2) by (simp add: c_def)
    have step: "\<And>x. opt_pieces opt (data @ x) = take c data # opt_pieces opt (drop c data @ x)"
      using False less.prems(3) by (intro pieces_step) (auto simp: c_def)
    obtain s1 e1 where cb: "fn st ?ch = (s1, e1)" by (cases "fn st ?ch")
    have unf: "cutLoop H opt keep fn final data off n st =
        (case fn st ?ch of
           (st', Some e) \<Rightarrow> (Some e, drop c data, off, n, st')
         | (st', None) \<Rightarrow> cutLoop H opt keep fn final (drop c data)
                          (off + word_of_nat (length (take c data))) (n + 1) st')"
      using False by (intro cutLoop_step) (auto simp: c_def)
    show ?thesis
    proof (cases e1)
      case (Some x)
      with cb less.prems(1) have "e = Some x" "st' = s1"
        unfolding unf by auto
      with cb Some step show ?thesis by (intro exI [of _ "[take c data]"]) auto
    next
      case None
      with cb less.prems(1) have rec:
        "cutLoop H opt keep fn final (drop c data) (off + word_of_nat (length (take c data))) (n + 1) s1
           = (e, carry, off', n', st')"
        unfolding unf by auto
      have "length (drop c data) < length data" using False by simp
      moreover have "length (drop c data) \<le> unat (o_max opt)" using less.prems(3) by simp
      ultimately
      obtain ps where ps: "\<And>x. \<exists>q. opt_pieces opt (drop c data @ x) = ps @ q \<and>
            (e = None \<longrightarrow> q = opt_pieces opt (carry @ x))"
        "run_cb fn (mk_chunks H keep (off + word_of_nat (length (take c data))) ps) s1 = (st', e)"
        "e = None \<longrightarrow> drop c data = concat ps @ carry \<and>
           off' = off + word_of_nat (length (take c data)) + word_of_nat (length (concat ps)) \<and>
           n' = n + 1 + length ps \<and>
           (carry = [] \<or> findCut carry (o_min opt) (o_max opt) (maskForAvg (o_avg opt)) = 0)"
        using less.IH [OF _ rec less.prems(2)] by blast
      have "e = None \<longrightarrow> data = concat (take c data # ps) @ carry"
        using ps(3) by (metis append_take_drop_id concat.simps(2) append.assoc)
      with ps cb None step show ?thesis
        by (intro exI [of _ "take c data # ps"]) (auto simp: add.assoc)
    qed
  qed
qed

text \<open>The last pass: every piece of the buffered data is emitted.\<close>

lemma cutLoop_final:
  "cutLoop H opt keep fn final data off n st = (e, carry, off', n', st') \<Longrightarrow> final \<Longrightarrow>
   length data \<le> unat (o_max opt) \<Longrightarrow>
   run_cb fn (mk_chunks H keep off (opt_pieces opt data)) st = (st', e) \<and>
   (e = None \<longrightarrow> off' = off + word_of_nat (length data) \<and> n' = n + length (opt_pieces opt data))"
proof (induction data arbitrary: off n st e carry off' n' st' rule: measure_induct_rule [where f = length])
  case (less data)
  define c where "c = findCut data (o_min opt) (o_max opt) (maskForAvg (o_avg opt))"
  define k where "k = (if c = 0 then length data else c)"
  show ?case
  proof (cases "data = []")
    case True
    with less.prems show ?thesis
      by (auto simp: cutLoop.simps [of H opt keep fn True "[]"] pieces.simps [of _ _ _ "[]"])
  next
    case False
    let ?ch = "\<lparr>c_offset = off, c_length = word_of_nat (length (take k data)), c_digest = H (take k data),
                 c_data = (if keep then Some (take k data) else None)\<rparr>"
    have kl: "0 < k" "k \<le> length data"
      using False less.prems(3) findCut_bounds(2) [of data "o_max opt"] by (auto simp: k_def c_def)
    have step: "opt_pieces opt data = take k data # opt_pieces opt (drop k data)"
      using False less.prems(3) by (subst pieces.simps) (simp add: Let_def k_def c_def)
    have unf: "cutLoop H opt keep fn final data off n st =
        (case fn st ?ch of
           (st', Some e) \<Rightarrow> (Some e, drop k data, off, n, st')
         | (st', None) \<Rightarrow> cutLoop H opt keep fn final (drop k data)
                          (off + word_of_nat (length (take k data))) (n + 1) st')"
      using False less.prems(2) by (intro cutLoop_step) (auto simp: c_def k_def)
    obtain s1 e1 where cb: "fn st ?ch = (s1, e1)" by (cases "fn st ?ch")
    show ?thesis
    proof (cases e1)
      case (Some x)
      with cb less.prems(1) have "e = Some x" "st' = s1" unfolding unf by auto
      with cb Some step show ?thesis by simp
    next
      case None
      with cb less.prems(1) have rec:
        "cutLoop H opt keep fn final (drop k data) (off + word_of_nat (length (take k data))) (n + 1) s1
           = (e, carry, off', n', st')"
        unfolding unf by auto
      have "length (drop k data) < length data" using kl False by simp
      moreover have "length (drop k data) \<le> unat (o_max opt)" using less.prems(3) by simp
      ultimately have ih:
        "run_cb fn (mk_chunks H keep (off + word_of_nat (length (take k data))) (opt_pieces opt (drop k data))) s1
           = (st', e)"
        "e = None \<longrightarrow> off' = off + word_of_nat (length (take k data)) + word_of_nat (length (drop k data)) \<and>
           n' = n + 1 + length (opt_pieces opt (drop k data))"
        using less.IH [OF _ rec less.prems(2)] by blast+
      have "word_of_nat (length (take k data)) + word_of_nat (length (drop k data))
          = (word_of_nat (length data) :: u64)"
        using kl(2) by (simp flip: of_nat_add)
      with ih cb None step show ?thesis by (auto simp: add.assoc simp del: length_take length_drop)
    qed
  qed
qed

text \<open>
  The streaming chunker equals the reference, for every well-behaved reader however it is
  fragmented and for every callback.
\<close>

lemma streamLoop_spec:
  assumes "unat (o_min opt) < unat (o_max opt)"
  shows "rd_ok r \<Longrightarrow> length carry < unat (o_max opt) \<Longrightarrow>
    streamLoop H opt keep fn r hashed carry off n st =
      (let ps = opt_pieces opt (carry @ rd_content r) in
       case run_cb fn (mk_chunks H keep off ps) st of
         (st', Some e) \<Rightarrow> Some (st', Inl e)
       | (st', None) \<Rightarrow> Some (st', Inr (off + word_of_nat (length (carry @ rd_content r)),
                                       hashed @ rd_content r, n + length ps)))"
proof (induction "length (rd_content r)" arbitrary: r hashed carry off n st rule: less_induct)
  case less
  let ?mx = "unat (o_max opt)"
  obtain b err r' where rf: "readFill r (?mx - length carry) = (b, err, r')"
    by (cases "readFill r (?mx - length carry)") auto
  note sp = readFill_spec [OF rf less.prems(1)]
  from sp have "length b \<le> ?mx - length carry" by blast
  with less.prems(2) have dl: "length (carry @ b) \<le> ?mx" unfolding length_append by linarith
  show ?case
  proof (cases err)
    case None
    with sp have b0: "length b = ?mx - length carry"
      "rd_content r = b @ rd_content r'" "rd_ok r'" by blast+
    with less.prems(2) have "length b \<noteq> 0" by linarith
    then have "b \<noteq> []" by (simp only: length_0_conv not_False_eq_True)
    with b0 have b: "length b = ?mx - length carry" "b \<noteq> []"
      "rd_content r = b @ rd_content r'" "rd_ok r'" by simp_all
    have full: "length (carry @ b) = ?mx" using b(1) less.prems(2) unfolding length_append by linarith
    obtain e carry' off' n' st' where cl:
      "cutLoop H opt keep fn (err = Some EOF \<or> err = None \<and> b = []) (carry @ b) off n st
         = (e, carry', off', n', st')"
      by (cases "cutLoop H opt keep fn (err = Some EOF \<or> err = None \<and> b = []) (carry @ b) off n st") auto
    from cutLoop_partial [OF cl _ dl] None b(2) obtain ps where ps:
      "\<And>x. \<exists>q. opt_pieces opt ((carry @ b) @ x) = ps @ q \<and> (e = None \<longrightarrow> q = opt_pieces opt (carry' @ x))"
      "run_cb fn (mk_chunks H keep off ps) st = (st', e)"
      "e = None \<Longrightarrow> carry @ b = concat ps @ carry' \<and> off' = off + word_of_nat (length (concat ps)) \<and>
                      n' = n + length ps \<and>
                      (carry' = [] \<or> findCut carry' (o_min opt) (o_max opt) (maskForAvg (o_avg opt)) = 0)"
      by blast
    from ps(1) [of "rd_content r'"] b(3) obtain q where
      q: "opt_pieces opt (carry @ rd_content r) = ps @ q" "e = None \<longrightarrow> q = opt_pieces opt (carry' @ rd_content r')"
      by auto
    have unf: "streamLoop H opt keep fn r hashed carry off n st =
        (case e of Some x \<Rightarrow> Some (st', Inl x)
         | None \<Rightarrow> streamLoop H opt keep fn r' (hashed @ b) carry' off' n' st')"
      using rf None b(2) cl by (subst streamLoop.simps) (simp add: Let_def split: option.split)
    show ?thesis
    proof (cases e)
      case (Some x)
      then show ?thesis unfolding unf using ps(2) q(1)
        by (simp add: mk_chunks_append run_cb_append Let_def)
    next
      case None2: None
      note p3 = ps(3) [OF None2]
      have "length carry' \<le> ?mx" using p3 full by (metis length_append le_add2)
      moreover have "length carry' \<noteq> ?mx"
      proof
        assume eq: "length carry' = ?mx"
        with assms have "carry' \<noteq> []" by auto
        with p3 findCut_full [OF eq assms] show False by blast
      qed
      ultimately have "length carry' < ?mx" by simp
      moreover have "length (rd_content r') < length (rd_content r)" using b(2) unfolding b(3) by simp
      ultimately have ih: "streamLoop H opt keep fn r' (hashed @ b) carry' off' n' st' =
        (let ps = opt_pieces opt (carry' @ rd_content r') in
         case run_cb fn (mk_chunks H keep off' ps) st' of
           (st', Some e) \<Rightarrow> Some (st', Inl e)
         | (st', None) \<Rightarrow> Some (st', Inr (off' + word_of_nat (length (carry' @ rd_content r')),
                                         (hashed @ b) @ rd_content r', n' + length ps)))"
        using less.hyps b(4) by blast
      have len: "length (carry @ rd_content r) = length (concat ps) + length (carry' @ rd_content r')"
        using p3 b(3) by (metis append.assoc length_append)
      have "(word_of_nat (length (carry @ rd_content r)) :: u64)
          = word_of_nat (length (concat ps)) + word_of_nat (length (carry' @ rd_content r'))"
        by (simp only: len of_nat_add)
      then show ?thesis unfolding unf using None2 ps(2) q p3 b(3) ih
        by (simp add: mk_chunks_append run_cb_append Let_def add.assoc length_append [of ps]
            del: length_append
            split: prod.split option.split)
    qed
  next
    case (Some x)
    with sp have x: "x = EOF" "rd_content r = b" by auto
    show ?thesis
    proof (cases "carry @ b = []")
      case True
      then show ?thesis using rf Some x
        by (subst streamLoop.simps) (simp add: Let_def pieces.simps [of _ _ _ "[]"])
    next
      case False
      obtain e carry' off' n' st' where cl:
        "cutLoop H opt keep fn (err = Some EOF \<or> err = None \<and> b = []) (carry @ b) off n st
           = (e, carry', off', n', st')"
        by (cases "cutLoop H opt keep fn (err = Some EOF \<or> err = None \<and> b = []) (carry @ b) off n st") auto
      from cutLoop_final [OF cl _ dl] Some x(1) have f:
        "run_cb fn (mk_chunks H keep off (opt_pieces opt (carry @ b))) st = (st', e)"
        "e = None \<longrightarrow> off' = off + word_of_nat (length (carry @ b)) \<and> n' = n + length (opt_pieces opt (carry @ b))"
        by auto
      then show ?thesis using rf Some x False cl
        by (subst streamLoop.simps) (auto simp add: Let_def split: option.split)
    qed
  qed
qed

lemma pieces_le_max:
  "unat mn < unat mx \<Longrightarrow> p \<in> set (pieces mn mx msk data) \<Longrightarrow> length p \<le> unat mx"
proof (induction mn mx msk data rule: pieces.induct)
  case (1 mn mx msk data)
  define c where "c = findCut (take (unat mx) data) mn mx msk"
  have ne: "data \<noteq> []" using "1.prems"(2) by (auto simp: pieces.simps [of mn mx msk data])
  have eq: "pieces mn mx msk data = (let cut = (if c = 0 then length data else c)
      in take cut data # pieces mn mx msk (drop cut data))"
    using ne by (simp add: pieces.simps [of mn mx msk data] c_def Let_def)
  show ?case
  proof (cases "c = 0")
    case True
    have "length (take (unat mx) data) \<noteq> unat mx"
    proof
      assume "length (take (unat mx) data) = unat mx"
      from findCut_full [OF this "1.prems"(1)] True show False unfolding c_def by blast
    qed
    then have "length data < unat mx" by (simp split: if_splits)
    with True "1.prems" show ?thesis
      unfolding eq by (auto simp: pieces.simps [of mn mx msk "[]"])
  next
    case False
    then have "c \<le> unat mx" using findCut_bounds(2) [of "take (unat mx) data" mx mn msk] by (simp add: c_def)
    with False "1.prems" "1.IH" [OF ne c_def, of c] show ?thesis
      unfolding eq by auto
  qed
qed

lemma streamChunks_spec:
  assumes "rd_ok r" and "unat (o_min (normalized opt)) < unat (o_max (normalized opt))"
  shows "streamChunks H r hint opt keep fn st =
    (let d = rd_content r; cs = mk_chunks H keep 0 (opt_pieces (normalized opt) d) in
     case run_cb fn cs st of
       (st', Some e) \<Rightarrow> Some (st', Inl e)
     | (st', None) \<Rightarrow>
         let total = i64_of_u64 (word_of_nat (length d)) in
         Some (st', if hint > 0 \<and> hint \<noteq> total
                    then Inl (Msg ''size mismatch: read %d bytes, hint %d'')
                    else Inr \<lparr>s_size = total, s_digest = H d, s_chunks = []\<rparr>))"
proof -
  have "length ([]::bytes) < unat (o_max (normalized opt))" using assms(2) by auto
  note sl = streamLoop_spec [OF assms(2) assms(1) this, of H keep fn "[]" 0 0 st]
  show ?thesis
    unfolding streamChunks_def Let_def sl
    by (cases "run_cb fn (mk_chunks H keep 0 (opt_pieces (normalized opt) (rd_content r))) st")
      (auto simp: Let_def split: option.split)
qed

lemma run_append_chunk: "run_cb append_chunk cs acc = (acc @ cs, None)"
  by (induction cs arbitrary: acc) (auto simp: append_chunk_def)

lemma i64_len: "length d < 2 ^ 63 \<Longrightarrow> i64_of_u64 (word_of_nat (length d)) = int (length d)"
proof -
  assume a: "length d < 2 ^ 63"
  then have "unat (word_of_nat (length d) :: u64) = length d"
    by (intro unat_of_nat_small) (simp add: less_trans)
  with a show ?thesis by (simp only: i64_of_u64_small)
qed

lemma streamLoop_empty_buffer:
  assumes "o_max opt = 0"
  shows "streamLoop H opt keep fn r hashed [] off n st = None"
proof (rule ccontr)
  assume "\<not> ?thesis"
  then obtain y where y: "streamLoop H opt keep fn r hashed [] off n st = Some y" by blast
  have "\<not> (o_max opt = 0 \<and> ([]::bytes) = [])"
  proof (rule streamLoop.raw_induct [where P = "\<lambda>H opt keep fn r hashed carry off n st y. \<not> (o_max opt = 0 \<and> carry = [])", OF _ y], goal_cases)
    case (1 f H opt keep fn r hashed carry off n st y)
    show ?case
    proof
      assume a: "o_max opt = 0 \<and> carry = []"
      then have "readFill r (unat (o_max opt) - length carry) = ([], None, r)"
        by (simp add: readFill.simps)
      with 1(2) a have "f H opt keep fn r hashed [] off n st = Some y" by (simp add: Let_def)
      with 1(1) a show False by blast
    qed
  qed
  with assms show False by simp
qed

lemma normalized_small:
  assumes "o_min opt = 0" and "o_max opt = 0" and "unat (o_avg opt) < 2 ^ 30"
  shows "1024 \<le> o_min (normalized opt)" and "o_min (normalized opt) < o_max (normalized opt)"
    and "o_avg (normalized opt) \<le> o_max (normalized opt)"
proof -
  define a where "a = (if o_avg opt = 0 then DefaultAvgSize else o_avg opt)"
  have a: "unat a < 2 ^ 30" "0 < unat a"
    using assms(3) by (auto simp: a_def DefaultAvgSize_def unat_gt_0)
  have a4: "unat (a * 4) = 4 * unat a"
    using a(1) by (simp add: unat_word_ariths)
  have mn: "o_min (normalized opt) = (if a < 16384 then (if a div 4 < 1024 then 1024 else a div 4) else 16384)"
    and mx: "o_max (normalized opt) = (if 262144 < a then a * 4 else 262144)"
    and av: "o_avg (normalized opt) = a"
    using assms(1,2)
    by (simp_all add: normalized_def Let_def a_def DefaultAvgSize_def DefaultMinSize_def DefaultMaxSize_def)
  show "1024 \<le> o_min (normalized opt)" unfolding mn by auto
  show "o_min (normalized opt) < o_max (normalized opt)"
    unfolding mn mx using a a4 by (auto simp: word_less_nat_alt unat_div)
  show "o_avg (normalized opt) \<le> o_max (normalized opt)"
    unfolding av mx using a a4 by (auto simp: word_le_nat_alt word_less_nat_alt)
qed

text \<open>The bytes of a file that a chunk stands for.\<close>

definition chunk_slice :: "bytes \<Rightarrow> chunk \<Rightarrow> bytes" where
  "chunk_slice d c = take (unat (c_length c)) (drop (unat (c_offset c)) d)"

lemma mk_chunks_slices:
  "length (pre @ concat ps @ suf) < 2 ^ 64 \<Longrightarrow> \<forall>p \<in> set ps. length p < 2 ^ 32 \<Longrightarrow>
   map (chunk_slice (pre @ concat ps @ suf)) (mk_chunks H keep (word_of_nat (length pre)) ps) = ps"
proof (induction ps arbitrary: pre)
  case (Cons p ps)
  have u: "unat (word_of_nat (length pre) :: u64) = length pre"
    using Cons.prems(1) by (intro unat_of_nat_small) simp
  have v: "unat (word_of_nat (length p) :: u32) = length p"
    using Cons.prems(2) by (intro unat_of_nat_small) simp
  have "map (chunk_slice ((pre @ p) @ concat ps @ suf))
          (mk_chunks H keep (word_of_nat (length (pre @ p))) ps) = ps"
    using Cons.prems by (intro Cons.IH) auto
  then have tl: "map (chunk_slice (pre @ concat (p # ps) @ suf))
          (mk_chunks H keep (word_of_nat (length pre) + word_of_nat (length p)) ps) = ps"
    by (simp only: concat.simps append.assoc length_append of_nat_add)
  have hd: "chunk_slice (pre @ concat (p # ps) @ suf)
      \<lparr>c_offset = word_of_nat (length pre), c_length = word_of_nat (length p), c_digest = H p,
       c_data = (if keep then Some p else None)\<rparr> = p"
    by (simp add: chunk_slice_def u v)
  show ?case by (simp only: mk_chunks.simps list.map hd tl)
qed simp

lemma mk_chunks_digests:
  "map c_digest (mk_chunks H keep off ps) = map H ps"
  "map c_data (mk_chunks H keep off ps) = map (\<lambda>p. if keep then Some p else None) ps"
  "length (mk_chunks H keep off ps) = length ps"
  by (induction ps arbitrary: off) auto

lemma ChunkReader_eq:
  assumes "rd_ok r" and "unat (o_min (normalized opt)) < unat (o_max (normalized opt))"
    and "length (rd_content r) < 2 ^ 63" and "hint \<le> 0 \<or> hint = int (length (rd_content r))"
  shows "ChunkReader H r hint opt = Some (Inr
    \<lparr>s_size = int (length (rd_content r)), s_digest = H (rd_content r),
     s_chunks = mk_chunks H (o_keep opt) 0 (opt_pieces (normalized opt) (rd_content r))\<rparr>)"
proof -
  have "\<not> (hint > 0 \<and> hint \<noteq> int (length (rd_content r)))" using assms(4) by auto
  then show ?thesis
    using assms(3)
    by (simp add: ChunkReader_def streamChunks_spec [OF assms(1,2)] run_append_chunk i64_len Let_def)
qed

lemma serialize_chunk_inject:
  "map serialize_chunk cs = map serialize_chunk ds \<Longrightarrow>
   map (\<lambda>c. (c_offset c, c_digest c)) cs = map (\<lambda>c. (c_offset c, c_digest c)) ds"
  by (induction cs ds rule: list_induct2')
    (auto simp: serialize_chunk_def put_le_inject append_eq_append_conv)

lemma pieces_gt_min:
  "p \<in> set (butlast (pieces mn mx msk data)) \<Longrightarrow> unat mn < length p"
proof (induction mn mx msk data rule: pieces.induct)
  case (1 mn mx msk data)
  define c where "c = findCut (take (unat mx) data) mn mx msk"
  have ne: "data \<noteq> []" using "1.prems" by (auto simp: pieces.simps [of mn mx msk data])
  have eq: "pieces mn mx msk data = (let cut = (if c = 0 then length data else c)
      in take cut data # pieces mn mx msk (drop cut data))"
    using ne by (simp add: pieces.simps [of mn mx msk data] c_def Let_def)
  have "c \<noteq> 0"
  proof
    assume "c = 0"
    with "1.prems" show False unfolding eq by (simp add: Let_def pieces.simps [of mn mx msk "[]"])
  qed
  moreover from this have "unat mn < c" "c \<le> length (take (unat mx) data)"
    using findCut_bounds [of "take (unat mx) data" mx mn msk] by (simp_all add: c_def)
  ultimately show ?case
    using "1.prems" "1.IH" [OF ne c_def, of c] unfolding eq
    by (auto split: if_splits)
qed

lemma concat_same_length:
  assumes "concat xs = concat ys" and "length xs = length ys"
    and "\<And>x. x \<in> set xs \<Longrightarrow> length x = k" and "\<And>y. y \<in> set ys \<Longrightarrow> length y = k"
  shows "xs = ys"
  using assms(2,1,3,4) by (induction xs ys rule: list_induct2) (auto simp: append_eq_append_conv)

lemma hexdigits_inject: "i < 16 \<Longrightarrow> j < 16 \<Longrightarrow> hexdigits ! i = hexdigits ! j \<longleftrightarrow> i = j"
proof -
  have "distinct hexdigits" "length hexdigits = 16" by (simp_all add: hexdigits_def)
  then show "i < 16 \<Longrightarrow> j < 16 \<Longrightarrow> ?thesis" by (simp add: nth_eq_iff_index_eq)
qed

lemma nibbles:
  "unat (v AND 0xF :: byte) < 16" "unat (drop_bit 4 v :: byte) < 16"
  "unat (v AND 0xF :: byte) = unat v mod 16" "unat (drop_bit 4 v :: byte) = unat v div 16"
proof -
  have m: "v AND 0xF = take_bit 4 v" by (simp add: take_bit_eq_mask mask_eq_exp_minus_1)
  show 1: "unat (v AND 0xF :: byte) = unat v mod 16"
    unfolding m unsigned_take_bit_eq by (simp add: take_bit_eq_mod)
  show 2: "unat (drop_bit 4 v :: byte) = unat v div 16"
    unfolding unat_drop_bit_eq by (simp add: drop_bit_eq_div)
  show "unat (v AND 0xF :: byte) < 16" unfolding 1 by simp
  show "unat (drop_bit 4 v :: byte) < 16" unfolding 2 using unsigned_less [of v, where ?'a = nat] by simp
qed

lemma digest_string_inject: "digest_string d = digest_string d' \<longleftrightarrow> d = d'"
proof
  let ?f = "\<lambda>v. [hexdigits ! unat (drop_bit 4 v :: byte), hexdigits ! unat (v AND 0xF)]"
  assume a: "digest_string d = digest_string d'"
  have l: "\<And>d. length (digest_string d) = 2 * length d"
    by (simp add: digest_string_def length_concat comp_def sum_list_triv)
  have "map ?f d = map ?f d'"
    by (rule concat_same_length [where k = 2])
      (use a l [of d] l [of d'] in \<open>auto simp: digest_string_def\<close>)
  moreover have "inj ?f"
  proof (rule injI)
    fix v w :: byte assume "?f v = ?f w"
    then have "unat v div 16 = unat w div 16" "unat v mod 16 = unat w mod 16"
      using hexdigits_inject nibbles by auto
    then have "unat v = unat w" by (metis div_mult_mod_eq)
    then show "v = w" by (simp only: word_unat_eq_iff)
  qed
  ultimately show "d = d'" by (simp add: inj_map_eq_map)
qed simp

text \<open>The shape of every signature the code builds: BLAKE3 digests are 32 bytes long.\<close>

definition sig_wf :: "signature \<Rightarrow> bool" where
  "sig_wf s \<longleftrightarrow> fits64 (s_size s) \<and> length (s_digest s) = 32 \<and> length (s_chunks s) < 2 ^ 32
     \<and> (\<forall>c \<in> set (s_chunks s). length (c_digest c) = 32)"

lemma word_of_int_fits64_inject:
  assumes "fits64 x" "fits64 y" "(word_of_int x :: u64) = word_of_int y"
  shows "x = y"
proof -
  have "x mod 2 ^ 64 = y mod 2 ^ 64" using assms(3) by (simp only: word_of_int_eq_iff take_bit_eq_mod) simp
  then have "(x + 2 ^ 63) mod 2 ^ 64 = (y + 2 ^ 63) mod 2 ^ 64" by (rule mod_add_cong) simp
  then have "wrap64 x = wrap64 y" by (simp add: wrap64_def)
  then show ?thesis using assms(1,2) by simp
qed

lemma length_serialize_chunk: "length (serialize_chunk c) = 8 + length (c_digest c)"
  by (simp add: serialize_chunk_def)


lemma StreamChunks_digest:
  assumes "rd_ok r" and "unat avg < 2 ^ 30"
    and "StreamChunks H r n \<lparr>o_avg = avg, o_min = 0, o_max = 0, o_keep = False\<rparr> fn st = Some (st', Inr sg)"
  shows "s_digest sg = H (rd_content r)"
proof -
  let ?o = "\<lparr>o_avg = avg, o_min = 0, o_max = 0, o_keep = False\<rparr>"
  have b: "unat (o_min (normalized ?o)) < unat (o_max (normalized ?o))"
    using normalized_small(2) [of ?o] assms(2) by (simp add: word_less_nat_alt)
  show ?thesis
    using assms(3) unfolding StreamChunks_def streamChunks_spec [OF assms(1) b]
    by (auto simp: Let_def split: prod.splits option.splits if_splits)
qed

lemma ChunkReader_digest:
  assumes "rd_ok r" and "unat avg < 2 ^ 30"
    and "ChunkReader H r n \<lparr>o_avg = avg, o_min = 0, o_max = 0, o_keep = False\<rparr> = Some (Inr sg)"
  shows "s_digest sg = H (rd_content r)"
proof -
  let ?o = "\<lparr>o_avg = avg, o_min = 0, o_max = 0, o_keep = False\<rparr>"
  have b: "unat (o_min (normalized ?o)) < unat (o_max (normalized ?o))"
    using normalized_small(2) [of ?o] assms(2) by (simp add: word_less_nat_alt)
  show ?thesis
    using assms(3) unfolding ChunkReader_def streamChunks_spec [OF assms(1) b]
    by (auto simp: Let_def split: prod.splits option.splits if_splits)
qed

text \<open>Streaming a readable file is running the callback over some chunks.\<close>

lemma StreamChunks_run:
  assumes "rd_ok r" and "unat avg < 2 ^ 30"
    and "StreamChunks H r n \<lparr>o_avg = avg, o_min = 0, o_max = 0, o_keep = False\<rparr> fn st = Some (st', res)"
  shows "\<exists>cs e. run_cb fn cs st = (st', e)"
proof -
  let ?o = "\<lparr>o_avg = avg, o_min = 0, o_max = 0, o_keep = False\<rparr>"
  have b: "unat (o_min (normalized ?o)) < unat (o_max (normalized ?o))"
    using normalized_small(2) [of ?o] assms(2) by (simp add: word_less_nat_alt)
  show ?thesis
    using assms(3) unfolding StreamChunks_def streamChunks_spec [OF assms(1) b]
    by (auto simp: Let_def split: prod.splits option.splits if_splits)
qed

section \<open>Properties\<close>

text \<open>
  C1. Chunking a well-behaved reader of any fragmentation, with the options every caller uses (an
  average below 2^30, default bounds), returns; the chunks are consecutive, non-empty slices no
  longer than the maximum, all but the last longer than the minimum, which together are exactly the
  file's bytes; each digest is that of its slice and size and digest are those of the file.
\<close>
theorem ChunkReader_reconstructs:
  assumes "rd_ok r" and "o_min opt = 0" and "o_max opt = 0" and "unat (o_avg opt) < 2 ^ 30"
    and "length (rd_content r) < 2 ^ 63" and "hint \<le> 0 \<or> hint = int (length (rd_content r))"
  shows "\<exists>sig. ChunkReader H r hint opt = Some (Inr sig)
    \<and> s_size sig = int (length (rd_content r)) \<and> s_digest sig = H (rd_content r)
    \<and> concat (map (chunk_slice (rd_content r)) (s_chunks sig)) = rd_content r
    \<and> (\<forall>c \<in> set (s_chunks sig). c_digest c = H (chunk_slice (rd_content r) c)
          \<and> 0 < length (chunk_slice (rd_content r) c)
          \<and> length (chunk_slice (rd_content r) c) \<le> unat (o_max (normalized opt)))
    \<and> (\<forall>c \<in> set (butlast (s_chunks sig)).
          unat (o_min (normalized opt)) < length (chunk_slice (rd_content r) c))"
proof -
  let ?n = "normalized opt" and ?d = "rd_content r"
  let ?ps = "opt_pieces ?n ?d"
  have mm: "unat (o_min ?n) < unat (o_max ?n)"
    using normalized_small(2) [OF assms(2-4)] by (simp add: word_less_nat_alt)
  have bounds: "\<forall>p \<in> set ?ps. 0 < length p \<and> length p \<le> unat (o_max ?n)"
    using pieces_le_max [OF mm] pieces_nonempty by blast
  moreover have "unat (o_max ?n) < 2 ^ 32"
    using unsigned_less [of "o_max ?n", where ?'a = nat] by simp
  ultimately have small: "\<forall>p \<in> set ?ps. length p < 2 ^ 32" by (meson le_less_trans)
  have len: "length ([] @ concat ?ps @ []) < 2 ^ 64"
    using assms(5) by (simp add: concat_pieces)
  let ?cs = "mk_chunks H (o_keep opt) 0 ?ps"
  have sl: "map (chunk_slice ?d) ?cs = ?ps"
    using mk_chunks_slices [OF len small, of H "o_keep opt"] by (simp add: concat_pieces)
  have dg: "\<And>c. c \<in> set ?cs \<Longrightarrow> c_digest c = H (chunk_slice ?d c)"
  proof -
    have "map c_digest ?cs = map (\<lambda>c. H (chunk_slice ?d c)) ?cs"
      using arg_cong [OF sl, of "map H"] by (simp add: mk_chunks_digests comp_def)
    then show "\<And>c. c \<in> set ?cs \<Longrightarrow> c_digest c = H (chunk_slice ?d c)" by simp
  qed
  have "\<forall>c \<in> set ?cs. chunk_slice ?d c \<in> set ?ps" using sl by (metis image_eqI list.set_map)
  with bounds dg have props: "\<forall>c \<in> set ?cs. c_digest c = H (chunk_slice ?d c)
      \<and> 0 < length (chunk_slice ?d c) \<and> length (chunk_slice ?d c) \<le> unat (o_max ?n)" by blast
  have "map (chunk_slice ?d) (butlast ?cs) = butlast ?ps" by (simp only: map_butlast sl)
  then have "\<forall>c \<in> set (butlast ?cs). chunk_slice ?d c \<in> set (butlast ?ps)"
    by (metis image_eqI list.set_map)
  then have last: "\<forall>c \<in> set (butlast ?cs). unat (o_min ?n) < length (chunk_slice ?d c)"
    using pieces_gt_min by blast
  have "concat (map (chunk_slice ?d) ?cs) = ?d" unfolding sl by (rule concat_pieces)
  note whole = this
  define sig where "sig = \<lparr>s_size = int (length ?d), s_digest = H ?d, s_chunks = ?cs\<rparr>"
  have "ChunkReader H r hint opt = Some (Inr sig)"
    unfolding sig_def by (rule ChunkReader_eq [OF assms(1) mm assms(5,6)])
  moreover have "s_size sig = int (length ?d)" "s_digest sig = H ?d" "s_chunks sig = ?cs"
    by (simp_all add: sig_def)
  ultimately show ?thesis
    using props last whole by (intro exI [of _ sig]) (simp only: simp_thms)
qed

theorem ChunkReader_reconstructs_witness:
  "\<exists>sig. ChunkReader (\<lambda>b. replicate 32 (word_of_nat (length b))) [Rd [1, 2] None, Rd [3] None] 3
        \<lparr>o_avg = 0, o_min = 0, o_max = 0, o_keep = False\<rparr> = Some (Inr sig)
    \<and> s_size sig = 3 \<and> concat (map (chunk_slice [1, 2, 3]) (s_chunks sig)) = [1, 2, 3]"
  using ChunkReader_reconstructs [of "[Rd [1, 2] None, Rd [3] None]"
      "\<lparr>o_avg = 0, o_min = 0, o_max = 0, o_keep = False\<rparr>" 3]
  by fastforce

text \<open>
  C2. What a streaming client sees (its final state, the error or the signature) depends only on the
  bytes of the stream, not on how the reads cut them, for every callback, including one that fails;
  and the call returns.
\<close>
theorem StreamChunks_fragmentation:
  assumes "rd_ok r" and "rd_ok r'" and "rd_content r = rd_content r'"
    and "o_min opt = 0" and "o_max opt = 0" and "unat (o_avg opt) < 2 ^ 30"
  shows "StreamChunks H r hint opt fn st = StreamChunks H r' hint opt fn st
    \<and> (\<exists>res. StreamChunks H r hint opt fn st = Some res)"
proof -
  have "unat (o_min (normalized opt)) < unat (o_max (normalized opt))"
    using normalized_small(2) [OF assms(4-6)] by (simp add: word_less_nat_alt)
  then show ?thesis
    using assms(1-3)
    by (cases "run_cb fn (mk_chunks H True 0 (opt_pieces (normalized opt) (rd_content r))) st")
      (simp add: StreamChunks_def streamChunks_spec Let_def split: option.split)
qed

theorem StreamChunks_fragmentation_witness:
  "StreamChunks (\<lambda>b. b) [Rd [7, 8, 9] None] 0 \<lparr>o_avg = 65536, o_min = 0, o_max = 0, o_keep = False\<rparr>
     append_chunk [] =
   StreamChunks (\<lambda>b. b) [Rd [7] None, Rd [8, 9] (Some EOF)] 0
     \<lparr>o_avg = 65536, o_min = 0, o_max = 0, o_keep = False\<rparr> append_chunk []"
  using StreamChunks_fragmentation [of "[Rd [7, 8, 9] None]" "[Rd [7] None, Rd [8, 9] (Some EOF)]"
      "\<lparr>o_avg = 65536, o_min = 0, o_max = 0, o_keep = False\<rparr>" "\<lambda>b. b" 0 append_chunk "[]"]
  by simp

text \<open>
  C3. With an average of exactly 2^30 the default maximum is computed as 4 * 2^30, which wraps to 0;
  the buffer is then empty and neither entry point ever returns, for any reader and callback.
\<close>
theorem ChunkReader_hangs:
  assumes "o_min opt = 0" and "o_max opt = 0" and "o_avg opt = 2 ^ 30"
  shows "ChunkReader H r hint opt = None \<and> StreamChunks H r hint opt fn st = None"
proof -
  have mx: "o_max (normalized opt) = 0"
    using assms by (simp add: normalized_def Let_def DefaultMinSize_def DefaultMaxSize_def)
  show ?thesis
    by (simp add: ChunkReader_def StreamChunks_def streamChunks_def streamLoop_empty_buffer [OF mx] Let_def)
qed

theorem ChunkReader_hangs_witness:
  "ChunkReader (\<lambda>b. b) [Rd [1] None] 1 \<lparr>o_avg = 2 ^ 30, o_min = 0, o_max = 0, o_keep = False\<rparr> = None"
  by (rule ChunkReader_hangs [THEN conjunct1]) simp_all

text \<open>
  The serialised signature determines the size, the file digest and every chunk's offset and
  digest, so two signatures with different content are never serialised alike.
\<close>
theorem SerializeSignature_inject:
  assumes "sig_wf a" and "sig_wf b" and "SerializeSignature a = SerializeSignature b"
  shows "s_size a = s_size b \<and> s_digest a = s_digest b
    \<and> map (\<lambda>c. (c_offset c, c_digest c)) (s_chunks a) = map (\<lambda>c. (c_offset c, c_digest c)) (s_chunks b)"
proof -
  from assms have eqs: "put_le 8 (word_of_int (s_size a) :: u64) = put_le 8 (word_of_int (s_size b) :: u64)"
    "s_digest a = s_digest b"
    "put_le 4 (word_of_nat (length (s_chunks a)) :: u32) = put_le 4 (word_of_nat (length (s_chunks b)) :: u32)"
    "concat (map serialize_chunk (s_chunks a)) = concat (map serialize_chunk (s_chunks b))"
    by (auto simp: SerializeSignature_def sig_wf_def append_eq_append_conv)
  from eqs(1) have "s_size a = s_size b"
    using assms(1,2) by (auto simp: put_le_inject sig_wf_def dest: word_of_int_fits64_inject)
  moreover
  have "unat (word_of_nat (length (s_chunks a)) :: u32) = unat (word_of_nat (length (s_chunks b)) :: u32)"
    using eqs(3) by (simp add: put_le_inject)
  then have "length (s_chunks a) = length (s_chunks b)"
    using assms(1,2) by (simp add: sig_wf_def unat_of_nat_small)
  then have "map serialize_chunk (s_chunks a) = map serialize_chunk (s_chunks b)"
    using assms(1,2) eqs(4)
    by (intro concat_same_length [where k = 40]) (auto simp: sig_wf_def length_serialize_chunk)
  ultimately show ?thesis using eqs(2) serialize_chunk_inject by blast
qed

theorem SerializeSignature_inject_witness:
  "let a = \<lparr>s_size = 3, s_digest = zero_digest, s_chunks =
       [\<lparr>c_offset = 0, c_length = 3, c_digest = zero_digest, c_data = None\<rparr>]\<rparr>;
       b = \<lparr>s_size = 3, s_digest = zero_digest, s_chunks =
       [\<lparr>c_offset = 0, c_length = 3, c_digest = zero_digest, c_data = Some [1, 2, 3]\<rparr>]\<rparr>
   in SerializeSignature a = SerializeSignature b \<and> s_size a = s_size b \<and> s_digest a = s_digest b"
proof -
  let ?a = "\<lparr>s_size = 3, s_digest = zero_digest, s_chunks =
       [\<lparr>c_offset = 0, c_length = 3, c_digest = zero_digest, c_data = None\<rparr>]\<rparr>"
  let ?b = "\<lparr>s_size = 3, s_digest = zero_digest, s_chunks =
       [\<lparr>c_offset = 0, c_length = 3, c_digest = zero_digest, c_data = Some [1, 2, 3]\<rparr>]\<rparr>"
  have "SerializeSignature ?a = SerializeSignature ?b"
    by (simp add: SerializeSignature_def serialize_chunk_def)
  then show ?thesis
    using SerializeSignature_inject [of ?a ?b]
    by (simp add: Let_def sig_wf_def fits64_def zero_digest_def)
qed

end
