(* ===== verification/Delta.thy ===== *)
theory Delta
  imports Chunk
begin

text \<open>
  The delta plan (\<open>internal/delta/delta.go\<close>): which source chunks must be sent and which are copied
  from the old destination file, and the decision whether a transfer is needed at all.
\<close>

section \<open>Plans\<close>

record reuse_entry =
  re_new :: u64
  re_old :: u64
  re_digest :: digest
  re_length :: int

record plan =
  p_missing :: "chunk list"
  p_reuse :: "reuse_entry list"

text \<open>The map \<open>have\<close>: the location of the first destination chunk with a digest.\<close>

fun have_map :: "(digest \<rightharpoonup> u64 \<times> u32) \<Rightarrow> chunk list \<Rightarrow> (digest \<rightharpoonup> u64 \<times> u32)" where
  "have_map m [] = m"
| "have_map m (c # cs) =
     (case m (c_digest c) of
        Some _ \<Rightarrow> have_map m cs
      | None \<Rightarrow> have_map (m(c_digest c \<mapsto> (c_offset c, c_length c))) cs)"

fun diff_loop :: "(digest \<rightharpoonup> u64 \<times> u32) \<Rightarrow> chunk list \<Rightarrow> chunk list \<Rightarrow> reuse_entry list \<Rightarrow> plan" where
  "diff_loop m [] missing reuse = \<lparr>p_missing = missing, p_reuse = reuse\<rparr>"
| "diff_loop m (c # cs) missing reuse =
     (case m (c_digest c) of
        Some (off, len) \<Rightarrow>
          if len = c_length c
          then diff_loop m cs missing (reuse @ [\<lparr>re_new = c_offset c, re_old = off,
                 re_digest = c_digest c, re_length = int (unat (c_length c))\<rparr>])
          else diff_loop m cs (missing @ [c]) reuse
      | None \<Rightarrow> diff_loop m cs (missing @ [c]) reuse)"

definition Diff :: "signature \<Rightarrow> signature \<Rightarrow> plan" where
  "Diff src dest = diff_loop (have_map Map.empty (s_chunks dest)) (s_chunks src) [] []"

definition NeedsTransfer :: "signature \<Rightarrow> signature \<Rightarrow> bool \<Rightarrow> bool" where
  "NeedsTransfer src dest checksum =
     (if s_size dest = 0 \<and> s_chunks dest = [] \<and> s_size src > 0 then True
      else if s_size src \<noteq> s_size dest then True
      else if checksum \<or> s_digest src \<noteq> zero_digest then s_digest src \<noteq> s_digest dest
      else True)"

text \<open>\<open>reuseByNew [offset]\<close>: the last entry for the offset, or the zero entry.\<close>

definition reuse_at :: "reuse_entry list \<Rightarrow> u64 \<Rightarrow> reuse_entry" where
  "reuse_at rs off =
     (case find (\<lambda>r. re_new r = off) (rev rs) of
        Some r \<Rightarrow> r | None \<Rightarrow> \<lparr>re_new = 0, re_old = 0, re_digest = zero_digest, re_length = 0\<rparr>)"

section \<open>What the loops compute\<close>

definition first_loc :: "chunk list \<Rightarrow> digest \<Rightarrow> (u64 \<times> u32) option" where
  "first_loc cs d = map_option (\<lambda>c. (c_offset c, c_length c)) (List.find (\<lambda>c. c_digest c = d) cs)"

lemma have_map_eq: "have_map m cs d = (case m d of Some x \<Rightarrow> Some x | None \<Rightarrow> first_loc cs d)"
  by (induction cs arbitrary: m) (auto simp: first_loc_def split: option.splits)

definition reusable :: "(digest \<rightharpoonup> u64 \<times> u32) \<Rightarrow> chunk \<Rightarrow> bool" where
  "reusable m c \<longleftrightarrow> (\<exists>off. m (c_digest c) = Some (off, c_length c))"

definition reuse_of :: "(digest \<rightharpoonup> u64 \<times> u32) \<Rightarrow> chunk \<Rightarrow> reuse_entry" where
  "reuse_of m c = \<lparr>re_new = c_offset c, re_old = fst (the (m (c_digest c))),
     re_digest = c_digest c, re_length = int (unat (c_length c))\<rparr>"

lemma diff_loop_eq:
  "diff_loop m cs missing reuse =
     \<lparr>p_missing = missing @ filter (\<lambda>c. \<not> reusable m c) cs,
      p_reuse = reuse @ map (reuse_of m) (filter (reusable m) cs)\<rparr>"
  by (induction m cs missing reuse rule: diff_loop.induct)
    (auto simp: reusable_def reuse_of_def split: option.splits)

lemma first_loc_SomeD:
  "first_loc cs d = Some (off, len) \<Longrightarrow> \<exists>c \<in> set cs. c_digest c = d \<and> c_offset c = off \<and> c_length c = len"
  by (auto simp: first_loc_def find_Some_iff intro: nth_mem)

section \<open>Assembling the new file\<close>

text \<open>
  A signature of the content \<open>d\<close>: its chunks are consecutive pieces of \<open>d\<close>. Every successful
  \<open>ChunkReader\<close> returns one.
\<close>

definition sig_of :: "(bytes \<Rightarrow> digest) \<Rightarrow> bytes \<Rightarrow> signature \<Rightarrow> bool" where
  "sig_of H d sig \<longleftrightarrow> length d < 2 ^ 63 \<and> s_size sig = int (length d) \<and> s_digest sig = H d \<and>
     (\<exists>keep ps. concat ps = d \<and> s_chunks sig = mk_chunks H keep 0 ps \<and>
        (\<forall>p \<in> set ps. 0 < length p \<and> length p < 2 ^ 32))"

lemma ChunkReader_sig_of:
  assumes "rd_ok r" and "unat (o_min (normalized opt)) < unat (o_max (normalized opt))"
    and "length (rd_content r) < 2 ^ 63" and "hint \<le> 0 \<or> hint = int (length (rd_content r))"
  shows "\<exists>sig. ChunkReader H r hint opt = Some (Inr sig) \<and> sig_of H (rd_content r) sig"
proof -
  let ?ps = "opt_pieces (normalized opt) (rd_content r)"
  have "\<forall>p \<in> set ?ps. 0 < length p \<and> length p \<le> unat (o_max (normalized opt))"
    using pieces_le_max [OF assms(2)] pieces_nonempty by blast
  moreover have "unat (o_max (normalized opt)) < 2 ^ 32"
    using unsigned_less [of "o_max (normalized opt)", where ?'a = nat] by simp
  ultimately have "\<forall>p \<in> set ?ps. 0 < length p \<and> length p < 2 ^ 32" by (meson le_less_trans)
  then show ?thesis
    using assms(3) concat_pieces
    by (intro exI [of _ "\<lparr>s_size = int (length (rd_content r)), s_digest = H (rd_content r),
          s_chunks = mk_chunks H (o_keep opt) 0 ?ps\<rparr>"])
      (auto simp: ChunkReader_eq [OF assms] sig_of_def intro!: exI [of _ "o_keep opt"] exI [of _ ?ps])
qed

lemma sig_of_slices:
  assumes "sig_of H d sig"
  shows "\<exists>ps. concat ps = d \<and> map (chunk_slice d) (s_chunks sig) = ps"
    and "\<And>c. c \<in> set (s_chunks sig) \<Longrightarrow> c_digest c = H (chunk_slice d c)"
    and "\<And>c. c \<in> set (s_chunks sig) \<Longrightarrow> length (chunk_slice d c) = unat (c_length c)"
proof -
  obtain keep ps where ps: "concat ps = d" "s_chunks sig = mk_chunks H keep 0 ps"
    "\<forall>p \<in> set ps. 0 < length p \<and> length p < 2 ^ 32" and ld: "length d < 2 ^ 63"
    using assms unfolding sig_of_def by blast
  from ld have "length ([] @ concat ps @ []) < 2 ^ 64" by (simp add: ps(1))
  from mk_chunks_slices [OF this, of H keep] ps
  have sl: "map (chunk_slice d) (s_chunks sig) = ps" by auto
  then show "\<exists>ps. concat ps = d \<and> map (chunk_slice d) (s_chunks sig) = ps" using ps(1) by blast
  have "map c_digest (s_chunks sig) = map (\<lambda>c. H (chunk_slice d c)) (s_chunks sig)"
    using arg_cong [OF sl, of "map H"] by (simp add: ps(2) mk_chunks_digests comp_def)
  then show "\<And>c. c \<in> set (s_chunks sig) \<Longrightarrow> c_digest c = H (chunk_slice d c)" by simp
  have "map (\<lambda>c. unat (c_length c)) (mk_chunks H keep off qs) = map length qs"
    if "\<forall>p \<in> set qs. length p < 2 ^ 32" for off qs
    using that by (induction qs arbitrary: off) (auto simp: unat_of_nat_small)
  then have "map (\<lambda>c. unat (c_length c)) (s_chunks sig) = map (\<lambda>c. length (chunk_slice d c)) (s_chunks sig)"
    using arg_cong [OF sl, of "map length"] ps(2,3) by (simp add: comp_def)
  then show "\<And>c. c \<in> set (s_chunks sig) \<Longrightarrow> length (chunk_slice d c) = unat (c_length c)" by simp
qed


lemma mk_chunks_cover:
  "length (pre @ concat ps) < 2 ^ 64 \<Longrightarrow> \<forall>p \<in> set ps. length p < 2 ^ 32 \<Longrightarrow>
   length pre \<le> i \<Longrightarrow> i < length (pre @ concat ps) \<Longrightarrow>
   \<exists>c \<in> set (mk_chunks H keep (word_of_nat (length pre)) ps).
     unat (c_offset c) \<le> i \<and> i < unat (c_offset c) + unat (c_length c)"
proof (induction ps arbitrary: pre)
  case (Cons p ps)
  have u: "unat (word_of_nat (length pre) :: u64) = length pre"
    using Cons.prems(1) by (intro unat_of_nat_small) simp
  have v: "unat (word_of_nat (length p) :: u32) = length p"
    using Cons.prems(2) by (intro unat_of_nat_small) simp
  show ?case
  proof (cases "i < length pre + length p")
    case True
    then show ?thesis using Cons.prems(3) by (simp add: u v)
  next
    case False
    with Cons.prems have "\<exists>c \<in> set (mk_chunks H keep (word_of_nat (length (pre @ p))) ps).
        unat (c_offset c) \<le> i \<and> i < unat (c_offset c) + unat (c_length c)"
      by (intro Cons.IH) auto
    then show ?thesis by simp
  qed
qed simp

lemma sig_of_chunk:
  assumes "sig_of H d sig" and "c \<in> set (s_chunks sig)"
  shows "part_of d (unat (c_offset c), chunk_slice d c)" and "0 < unat (c_length c)"
proof -
  obtain keep ps where ps: "s_chunks sig = mk_chunks H keep 0 ps"
    "\<forall>p \<in> set ps. 0 < length p \<and> length p < 2 ^ 32"
    using assms unfolding sig_of_def by blast
  have "\<forall>c \<in> set (mk_chunks H keep off qs). 0 < unat (c_length c)"
    if "\<forall>p \<in> set qs. 0 < length p \<and> length p < 2 ^ 32" for off qs
    using that by (induction qs arbitrary: off) (auto simp: unat_of_nat_small)
  then show pos: "0 < unat (c_length c)" using ps assms(2) by auto
  have "length (chunk_slice d c) = unat (c_length c)" by (rule sig_of_slices(3) [OF assms])
  with pos show "part_of d (unat (c_offset c), chunk_slice d c)"
    by (auto simp: part_of_def chunk_slice_def)
qed

lemma sig_of_cover:
  assumes "sig_of H d sig" and "i < length d"
  shows "\<exists>c \<in> set (s_chunks sig). covers (unat (c_offset c), chunk_slice d c) i"
proof -
  obtain keep ps where ps: "concat ps = d" "s_chunks sig = mk_chunks H keep 0 ps"
    "\<forall>p \<in> set ps. 0 < length p \<and> length p < 2 ^ 32" and "length d < 2 ^ 63"
    using assms unfolding sig_of_def by blast
  then have "\<exists>c \<in> set (mk_chunks H keep (word_of_nat (length ([]::bytes))) ps).
      unat (c_offset c) \<le> i \<and> i < unat (c_offset c) + unat (c_length c)"
    using assms(2) by (intro mk_chunks_cover) auto
  then show ?thesis using sig_of_slices(3) [OF assms(1)] ps(2) by (auto simp: covers_def)
qed

text \<open>
  The writes a plan asks for: the bytes of the missing chunks come from the source \<open>s\<close>, those of the
  reused ones from the old destination \<open>d\<close>.
\<close>

definition missing_writes :: "bytes \<Rightarrow> plan \<Rightarrow> (nat \<times> bytes) list" where
  "missing_writes s p = map (\<lambda>c. (unat (c_offset c), chunk_slice s c)) (p_missing p)"

definition reuse_bytes :: "bytes \<Rightarrow> reuse_entry \<Rightarrow> bytes" where
  "reuse_bytes d r = take (nat (re_length r)) (drop (unat (re_old r)) d)"

definition reuse_writes :: "bytes \<Rightarrow> plan \<Rightarrow> (nat \<times> bytes) list" where
  "reuse_writes d p = map (\<lambda>r. (unat (re_new r), reuse_bytes d r)) (p_reuse p)"

lemma Diff_eq:
  "Diff src dest = (let m = first_loc (s_chunks dest) in
     \<lparr>p_missing = filter (\<lambda>c. \<not> reusable m c) (s_chunks src),
      p_reuse = map (reuse_of m) (filter (reusable m) (s_chunks src))\<rparr>)"
proof -
  have "have_map Map.empty (s_chunks dest) = first_loc (s_chunks dest)"
    by (rule ext) (simp add: have_map_eq)
  then show ?thesis by (simp add: Diff_def diff_loop_eq Let_def)
qed

lemma reuse_of_slice:
  assumes "sig_of H s src" and "sig_of H d dest"
    and "inj_on H (chunk_slice s ` set (s_chunks src) \<union> chunk_slice d ` set (s_chunks dest))"
    and "c \<in> set (s_chunks src)" and "reusable (first_loc (s_chunks dest)) c"
  shows "reuse_bytes d (reuse_of (first_loc (s_chunks dest)) c) = chunk_slice s c"
    and "unat (re_old (reuse_of (first_loc (s_chunks dest)) c)) + unat (c_length c) \<le> length d"
proof -
  obtain off where loc: "first_loc (s_chunks dest) (c_digest c) = Some (off, c_length c)"
    using assms(5) by (auto simp: reusable_def)
  then obtain e where e: "e \<in> set (s_chunks dest)" "c_digest e = c_digest c" "c_offset e = off"
    "c_length e = c_length c" by (blast dest: first_loc_SomeD)
  have "H (chunk_slice d e) = H (chunk_slice s c)"
    using sig_of_slices(2) [OF assms(1,4)] sig_of_slices(2) [OF assms(2) e(1)] e(2) by simp
  then have eq: "chunk_slice d e = chunk_slice s c"
    using assms(3,4) e(1) by (auto dest: inj_onD)
  then show "reuse_bytes d (reuse_of (first_loc (s_chunks dest)) c) = chunk_slice s c"
    using loc e by (simp add: reuse_bytes_def reuse_of_def chunk_slice_def)
  show "unat (re_old (reuse_of (first_loc (s_chunks dest)) c)) + unat (c_length c) \<le> length d"
    using sig_of_chunk(1) [OF assms(2) e(1)] sig_of_slices(3) [OF assms(2) e(1)] loc e
    by (simp add: part_of_def reuse_of_def)
qed

lemma plan_assembles:
  assumes "sig_of H s src" and "sig_of H d dest"
    and "inj_on H (chunk_slice s ` set (s_chunks src) \<union> chunk_slice d ` set (s_chunks dest))"
    and "length f \<le> length s"
    and "set ws = set (missing_writes s (Diff src dest)) \<union> set (reuse_writes d (Diff src dest))"
  shows "assemble f ws = s"
proof -
  let ?m = "first_loc (s_chunks dest)"
  have set_ws: "set ws = (\<lambda>c. (unat (c_offset c), chunk_slice s c)) ` set (s_chunks src)"
  proof -
    have "set (missing_writes s (Diff src dest)) =
        (\<lambda>c. (unat (c_offset c), chunk_slice s c)) ` {c \<in> set (s_chunks src). \<not> reusable ?m c}"
      by (auto simp: missing_writes_def Diff_eq Let_def)
    moreover have "set (reuse_writes d (Diff src dest)) =
        (\<lambda>c. (unat (c_offset c), chunk_slice s c)) ` {c \<in> set (s_chunks src). reusable ?m c}"
      using reuse_of_slice(1) [OF assms(1-3)]
      by (auto simp: reuse_writes_def Diff_eq Let_def image_iff reuse_of_def)
    ultimately show ?thesis unfolding assms(5) by blast
  qed
  show ?thesis
  proof (rule assemble_complete)
    show "\<forall>w \<in> set ws. part_of s w" unfolding set_ws using sig_of_chunk(1) [OF assms(1)] by blast
    show "\<forall>i < length s. \<exists>w \<in> set ws. covers w i" unfolding set_ws using sig_of_cover [OF assms(1)] by blast
  qed (rule assms(4))
qed

section \<open>Properties\<close>

text \<open>
  C4. When the digest does not collide on the chunks involved, writing the missing chunks (from the
  source) and the reused ranges (from the old destination) of the plan, in any order and any number
  of times, over any staging file no longer than the source, yields exactly the source's bytes; every
  reused range lies inside the old file.
\<close>
theorem Diff_reconstructs:
  assumes "sig_of H s src" and "sig_of H d dest"
    and "inj_on H (chunk_slice s ` set (s_chunks src) \<union> chunk_slice d ` set (s_chunks dest))"
    and "length f \<le> length s"
    and "set ws = set (missing_writes s (Diff src dest)) \<union> set (reuse_writes d (Diff src dest))"
  shows "assemble f ws = s
    \<and> (\<forall>r \<in> set (p_reuse (Diff src dest)). 0 < re_length r \<and> int (unat (re_old r)) + re_length r \<le> int (length d))"
proof -
  let ?m = "first_loc (s_chunks dest)"
  have "assemble f ws = s" by (rule plan_assembles [OF assms])
  moreover have "\<forall>r \<in> set (p_reuse (Diff src dest)). 0 < re_length r \<and> int (unat (re_old r)) + re_length r \<le> int (length d)"
  proof
    fix r assume "r \<in> set (p_reuse (Diff src dest))"
    then obtain c where c: "c \<in> set (s_chunks src)" "reusable ?m c" "r = reuse_of ?m c"
      by (auto simp: Diff_eq Let_def)
    have "re_length r = int (unat (c_length c))" by (simp add: c(3) reuse_of_def)
    moreover have "unat (re_old r) + unat (c_length c) \<le> length d"
      using reuse_of_slice(2) [OF assms(1-3) c(1,2)] by (simp only: c(3))
    moreover have "0 < unat (c_length c)" by (rule sig_of_chunk(2) [OF assms(1) c(1)])
    ultimately show "0 < re_length r \<and> int (unat (re_old r)) + re_length r \<le> int (length d)" by linarith
  qed
  ultimately show ?thesis by blast
qed

theorem Diff_reconstructs_witness:
  "let H = (\<lambda>b. b);
       src = \<lparr>s_size = 3, s_digest = [1, 2, 3], s_chunks =
         [\<lparr>c_offset = 0, c_length = 2, c_digest = [1, 2], c_data = None\<rparr>,
          \<lparr>c_offset = 2, c_length = 1, c_digest = [3], c_data = None\<rparr>]\<rparr>;
       dest = \<lparr>s_size = 3, s_digest = [9, 1, 2], s_chunks =
         [\<lparr>c_offset = 0, c_length = 1, c_digest = [9], c_data = None\<rparr>,
          \<lparr>c_offset = 1, c_length = 2, c_digest = [1, 2], c_data = None\<rparr>]\<rparr>
   in map re_old (p_reuse (Diff src dest)) = [1] \<and> map c_offset (p_missing (Diff src dest)) = [2]
      \<and> assemble [0, 0, 0] (missing_writes [1, 2, 3] (Diff src dest) @ reuse_writes [9, 1, 2] (Diff src dest))
          = [1, 2, 3]"
proof -
  let ?src = "\<lparr>s_size = 3, s_digest = [1, 2, 3], s_chunks =
         [\<lparr>c_offset = 0, c_length = 2, c_digest = [1, 2], c_data = None\<rparr>,
          \<lparr>c_offset = 2, c_length = 1, c_digest = [3], c_data = None\<rparr>]\<rparr>"
  let ?dest = "\<lparr>s_size = 3, s_digest = [9, 1, 2], s_chunks =
         [\<lparr>c_offset = 0, c_length = 1, c_digest = [9], c_data = None\<rparr>,
          \<lparr>c_offset = 1, c_length = 2, c_digest = [1, 2], c_data = None\<rparr>]\<rparr>"
  have s: "sig_of (\<lambda>b. b) [1, 2, 3] ?src"
    unfolding sig_of_def by (auto intro!: exI [of _ False] exI [of _ "[[1, 2], [3]]"])
  have d: "sig_of (\<lambda>b. b) [9, 1, 2] ?dest"
    unfolding sig_of_def by (auto intro!: exI [of _ False] exI [of _ "[[9], [1, 2]]"])
  show ?thesis
    using Diff_reconstructs [OF s d, of "[0, 0, 0]"
        "missing_writes [1, 2, 3] (Diff ?src ?dest) @ reuse_writes [9, 1, 2] (Diff ?src ?dest)"]
    by (simp add: Let_def Diff_def)
qed

text \<open>
  On signatures of real contents whose digests do not collide, a transfer is skipped exactly when
  the contents are equal, whether or not a checksum was asked for (the all-zero digest, which marks
  an unknown one, aside).
\<close>
theorem NeedsTransfer_iff:
  assumes "sig_of H s src" and "sig_of H d dest" and "inj_on H {s, d}"
    and "checksum \<or> H s \<noteq> zero_digest"
  shows "NeedsTransfer src dest checksum \<longleftrightarrow> s \<noteq> d"
proof -
  have "s = d" if "H s = H d" using that assms(3) by (auto dest: inj_onD)
  then show ?thesis
    using assms by (auto simp: NeedsTransfer_def sig_of_def)
qed

theorem NeedsTransfer_iff_witness:
  "\<not> NeedsTransfer \<lparr>s_size = 1, s_digest = [7], s_chunks = [\<lparr>c_offset = 0, c_length = 1, c_digest = [7], c_data = None\<rparr>]\<rparr>
      \<lparr>s_size = 1, s_digest = [7], s_chunks = [\<lparr>c_offset = 0, c_length = 1, c_digest = [7], c_data = None\<rparr>]\<rparr> False"
proof -
  have "sig_of (\<lambda>b. b) [7] \<lparr>s_size = 1, s_digest = [7], s_chunks = [\<lparr>c_offset = 0, c_length = 1, c_digest = [7], c_data = None\<rparr>]\<rparr>"
    unfolding sig_of_def by (auto intro!: exI [of _ False] exI [of _ "[[7]]"])
  moreover have "[7] \<noteq> zero_digest"
    by (rule notI, drule arg_cong [where f = length]) (simp add: zero_digest_def)
  ultimately show ?thesis using NeedsTransfer_iff [of "\<lambda>b. b" "[7]" _ "[7]" _ False] by blast
qed

end
