(* ===== verification/ReuseRange.thy ===== *)
theory ReuseRange
  imports Chunk
begin

text \<open>
  The range checks of staged writes (\<open>internal/transport/reuse.go\<close>). Offsets arrive as \<open>uint64\<close> and
  are converted to \<open>int64\<close> before the bound is computed, so both the conversion and the sum can wrap.
\<close>

definition ValidateReuseRange :: "u64 \<Rightarrow> int \<Rightarrow> int \<Rightarrow> unit res" where
  "ValidateReuseRange oldOffset len oldSize =
     (if len \<le> 0 then Inl (Msg ''reuse: invalid length %d'')
      else if len > int (unat DefaultMaxSize) then Inl (Msg ''reuse: length %d exceeds max chunk size %d'')
      else if oldSize \<ge> 0
      then (let end = wrap64 (i64_of_u64 oldOffset + len)
            in if end < 0 \<or> end > oldSize then Inl (Msg ''reuse: old range out of bounds'') else Inr ())
      else Inr ())"

definition ValidateWriteRange :: "u64 \<Rightarrow> int \<Rightarrow> int \<Rightarrow> unit res" where
  "ValidateWriteRange offset len sessionSize =
     (if len < 0 then Inl (Msg ''write: invalid length %d'')
      else if sessionSize < 0 then Inr ()
      else let end = wrap64 (i64_of_u64 offset + len)
           in if end < 0 \<or> end > sessionSize then Inl (Msg ''write: range out of bounds'') else Inr ())"

lemma wrap64_sum:
  assumes "0 \<le> a" "a < 2 ^ 63" "0 \<le> b" "b < 2 ^ 63"
  shows "wrap64 (a + b) = (if a + b < 2 ^ 63 then a + b else a + b - 2 ^ 64)"
proof (cases "a + b < 2 ^ 63")
  case True
  with assms have "fits64 (a + b)" by (simp add: fits64_def)
  with True show ?thesis by simp
next
  case False
  have "(a + b + 2 ^ 63) mod 2 ^ 64 = ((a + b + 2 ^ 63 - 2 ^ 64) + 2 ^ 64) mod 2 ^ 64"
    by (rule arg_cong [where f = "\<lambda>x. x mod 2 ^ 64"]) linarith
  also have "\<dots> = (a + b + 2 ^ 63 - 2 ^ 64) mod 2 ^ 64" by (rule mod_add_self2)
  also have "\<dots> = a + b + 2 ^ 63 - 2 ^ 64" using False assms by (intro mod_pos_pos_trivial) auto
  finally show ?thesis using False by (simp add: wrap64_def)
qed

lemma range_end_ok:
  assumes "unat off < 2 ^ 63" "0 \<le> len" "len < 2 ^ 63" "sz < 2 ^ 63"
  shows "(let end = wrap64 (i64_of_u64 off + len) in end < 0 \<or> end > sz) \<longleftrightarrow> int (unat off) + len > sz"
proof -
  define n where "n = int (unat off)"
  have "0 \<le> n" unfolding n_def by (rule of_nat_0_le_iff)
  moreover have "n < 2 ^ 63"
    unfolding n_def using assms(1) by (simp only: of_nat_less_numeral_power_cancel_iff)
  moreover
  have i: "i64_of_u64 off = n" unfolding n_def by (rule i64_of_u64_small [OF assms(1)])
  ultimately show ?thesis
    unfolding Let_def i n_def [symmetric] using assms(2-4) wrap64_sum [of n len] by auto
qed

text \<open>
  C7. For offsets an \<open>int64\<close> can hold the write check is exact: it accepts precisely the ranges that
  lie inside the declared session size, also where the sum overflows.
\<close>
theorem ValidateWriteRange_exact:
  assumes "unat off < 2 ^ 63" and "0 \<le> len" and "len < 2 ^ 63" and "0 \<le> sz" and "sz < 2 ^ 63"
  shows "ValidateWriteRange off len sz = Inr () \<longleftrightarrow> int (unat off) + len \<le> sz"
  using range_end_ok [OF assms(1-3,5)] assms(2,4) by (auto simp: ValidateWriteRange_def Let_def)

theorem ValidateWriteRange_exact_witness:
  "ValidateWriteRange 10 5 15 = Inr () \<and> ValidateWriteRange 11 5 15 \<noteq> Inr ()"
  using ValidateWriteRange_exact [of 10 5 15] ValidateWriteRange_exact [of 11 5 15] by simp

text \<open>
  Offsets from 2^63 on are converted to negative numbers, so a range that starts up to its own
  length before 2^64, far outside the file, passes both checks.
\<close>
theorem range_checks_wrap:
  assumes "0 < k" and "int k \<le> len" and "len \<le> int (unat DefaultMaxSize)" and "len - int k \<le> sz"
  shows "ValidateWriteRange (- word_of_nat k) len sz = Inr ()
    \<and> ValidateReuseRange (- word_of_nat k) len sz = Inr ()
    \<and> 2 ^ 63 \<le> unat (- word_of_nat k :: u64)"
proof -
  have k: "k \<le> 262144" using assms(2,3) by (simp add: DefaultMaxSize_def)
  have w: "(- word_of_nat k :: u64) = word_of_int (- int k)" by simp
  have s: "i64_of_u64 (- word_of_nat k) = - int k"
    unfolding w i64_of_u64_def using k assms(1)
    by (simp only: sint_sbintrunc') (intro signed_take_bit_int_eq_self, simp_all)
  have "uint (- word_of_nat k :: u64) = (- int k) mod 2 ^ 64"
    unfolding w by (simp only: uint_word_of_int) simp
  also have "\<dots> = (- int k + 2 ^ 64) mod 2 ^ 64" by (simp only: mod_add_self2)
  also have "\<dots> = 2 ^ 64 - int k" using k assms(1) by (subst mod_pos_pos_trivial) auto
  finally have u: "uint (- word_of_nat k :: u64) = 2 ^ 64 - int k" .
  have m: "unat (- word_of_nat k :: u64) = 2 ^ 64 - k"
    unfolding unat_eq_nat_uint u by (subst nat_diff_distrib) (use k in simp_all)
  have "fits64 (len - int k)" using assms k by (simp add: fits64_def DefaultMaxSize_def)
  then show ?thesis
    using assms k m s by (auto simp: ValidateWriteRange_def ValidateReuseRange_def Let_def)
qed

theorem range_checks_wrap_witness:
  "ValidateWriteRange (- 1) 1 0 = Inr () \<and> ValidateReuseRange (- 1) 1 0 = Inr ()"
  using range_checks_wrap [of 1 1 0] by (simp add: DefaultMaxSize_def)

end
