(* ===== verification/GoPath.thy ===== *)
theory GoPath
  imports GoStr
begin

text \<open>
  \<open>path/filepath\<close> on Unix: \<open>Clean\<close>, \<open>Join\<close>, \<open>Abs\<close>, \<open>Rel\<close>, \<open>Base\<close> and \<open>Dir\<close>, computed on the list of a
  path's components, and the lemmas about clean absolute paths that the path checks rest on.
\<close>

section \<open>Operations\<close>

definition IsAbs :: "string \<Rightarrow> bool" where
  "IsAbs p \<longleftrightarrow> HasPrefix p ''/''"

text \<open>\<open>Clean\<close>: \<open>out\<close> is the reversed list of the components kept so far.\<close>

fun clean_comps :: "bool \<Rightarrow> string list \<Rightarrow> string list \<Rightarrow> string list" where
  "clean_comps rooted out [] = rev out"
| "clean_comps rooted out (p # ps) =
     (if p = '''' \<or> p = ''.'' then clean_comps rooted out ps
      else if p = ''..'' then
        (case out of
           [] \<Rightarrow> clean_comps rooted (if rooted then [] else [''..'']) ps
         | q # qs \<Rightarrow> if q = ''..'' then clean_comps rooted (''..'' # out) ps else clean_comps rooted qs ps)
      else clean_comps rooted (p # out) ps)"

definition Clean :: "string \<Rightarrow> string" where
  "Clean p =
     (let body = join_with ''/'' (clean_comps (IsAbs p) [] (split_on CHR ''/'' p))
      in if IsAbs p then CHR ''/'' # body else if body = '''' then ''.'' else body)"

definition PathJoin :: "string list \<Rightarrow> string" where
  "PathJoin elems =
     (case dropWhile (\<lambda>e. e = '''') elems of [] \<Rightarrow> '''' | es \<Rightarrow> Clean (join_with ''/'' es))"

text \<open>\<open>Abs\<close> asks the system for the working directory, which may fail.\<close>

definition AbsPath :: "string res \<Rightarrow> string \<Rightarrow> string res" where
  "AbsPath cwd p =
     (if IsAbs p then Inr (Clean p)
      else (case cwd of Inl e \<Rightarrow> Inl e | Inr d \<Rightarrow> Inr (PathJoin [d, p])))"

fun strip_common :: "string list \<Rightarrow> string list \<Rightarrow> string list \<times> string list" where
  "strip_common (x # xs) (y # ys) = (if x = y then strip_common xs ys else (x # xs, y # ys))"
| "strip_common xs ys = (xs, ys)"

definition path_comps :: "string \<Rightarrow> string list" where
  "path_comps p = filter (\<lambda>c. c \<noteq> '''') (split_on CHR ''/'' p)"

definition RelPath :: "string \<Rightarrow> string \<Rightarrow> string res" where
  "RelPath basepath targpath =
     (let base = Clean basepath; targ = Clean targpath in
      if targ = base then Inr ''.''
      else let base' = (if base = ''.'' then '''' else base) in
        if IsAbs base' \<noteq> IsAbs targ then Inl (Msg ''Rel: can't make '')
        else (case strip_common (path_comps base') (path_comps targ) of
          (b, t) \<Rightarrow>
            if t \<noteq> [] \<and> b \<noteq> [] \<and> hd b = ''..'' then Inl (Msg ''Rel: can't make '')
            else Inr (join_with ''/'' (replicate (length b) ''..'' @ t))))"

definition BasePath :: "string \<Rightarrow> string" where
  "BasePath p =
     (if p = '''' then ''.''
      else (let q = trim_right CHR ''/'' p in
            if q = '''' then ''/'' else last (split_on CHR ''/'' q)))"

definition DirPath :: "string \<Rightarrow> string" where
  "DirPath p = Clean (case last_index p CHR ''/'' of None \<Rightarrow> '''' | Some i \<Rightarrow> take (Suc i) p)"

section \<open>Clean absolute paths\<close>

text \<open>A file name, as a component of a path, and the absolute path with given components.\<close>

definition is_name :: "string \<Rightarrow> bool" where
  "is_name n \<longleftrightarrow> n \<noteq> '''' \<and> n \<noteq> ''.'' \<and> n \<noteq> ''..'' \<and> CHR ''/'' \<notin> set n"

definition abs_of :: "string list \<Rightarrow> string" where
  "abs_of cs = CHR ''/'' # join_with ''/'' cs"

definition names :: "string list \<Rightarrow> bool" where
  "names cs \<longleftrightarrow> (\<forall>c \<in> set cs. is_name c)"

lemma names_simps [simp]:
  "names []" "names (c # cs) \<longleftrightarrow> is_name c \<and> names cs" "names (xs @ ys) \<longleftrightarrow> names xs \<and> names ys"
  "names (rev xs) \<longleftrightarrow> names xs"
  by (auto simp: names_def)

lemma IsAbs_abs_of [simp]: "IsAbs (abs_of cs)"
  by (simp add: IsAbs_def HasPrefix_def abs_of_def)

lemma IsAbs_Cons: "IsAbs p \<longleftrightarrow> (\<exists>q. p = CHR ''/'' # q)"
  by (cases p) (auto simp: IsAbs_def HasPrefix_def)

lemma clean_comps_names:
  "names out \<Longrightarrow> \<forall>p \<in> set ps. CHR ''/'' \<notin> set p \<Longrightarrow> names (clean_comps True out ps)"
  by (induction "True" out ps rule: clean_comps.induct) (auto simp: is_name_def split: list.splits)

lemma clean_comps_id: "names ps \<Longrightarrow> clean_comps r out ps = rev out @ ps"
  by (induction ps arbitrary: out) (auto simp: is_name_def)

lemma clean_comps_append:
  "names out \<Longrightarrow> names xs \<Longrightarrow> clean_comps r out (xs @ ys) = clean_comps r (rev xs @ out) ys"
  by (induction xs arbitrary: out) (auto simp: is_name_def)

lemma Clean_rooted: "IsAbs p \<Longrightarrow> Clean p = abs_of (clean_comps True [] (split_on CHR ''/'' p))"
  by (simp add: Clean_def abs_of_def Let_def)

lemma Clean_abs: "IsAbs p \<Longrightarrow> \<exists>cs. names cs \<and> Clean p = abs_of cs"
  using clean_comps_names [of "[]" "split_on CHR ''/'' p"] split_on_no_sep Clean_rooted by fastforce

lemma split_abs_of: "names cs \<Longrightarrow> split_on CHR ''/'' (abs_of cs) = '''' # (if cs = [] then [''''] else cs)"
proof -
  assume "names cs"
  then have "cs \<noteq> [] \<Longrightarrow> split_on CHR ''/'' (join_with ''/'' cs) = cs"
    by (intro split_join) (auto simp: names_def is_name_def)
  then show ?thesis by (auto simp: abs_of_def)
qed

lemma Clean_abs_of [simp]: "names cs \<Longrightarrow> Clean (abs_of cs) = abs_of cs"
  by (simp add: Clean_rooted split_abs_of clean_comps_id)

lemma path_comps_abs_of [simp]: "names cs \<Longrightarrow> path_comps (abs_of cs) = cs"
  by (auto simp: path_comps_def split_abs_of names_def is_name_def filter_id_conv)

lemma abs_of_inject [simp]: "names as \<Longrightarrow> names bs \<Longrightarrow> abs_of as = abs_of bs \<longleftrightarrow> as = bs"
  by (metis path_comps_abs_of)

lemma abs_of_not_Nil [simp]: "abs_of cs \<noteq> []" "abs_of cs \<noteq> ''.''"
  by (simp_all add: abs_of_def)

lemma split_abs_of_slash:
  "names cs \<Longrightarrow> split_on CHR ''/'' (abs_of cs @ CHR ''/'' # s) =
     split_on CHR ''/'' (abs_of cs) @ split_on CHR ''/'' s"
  by (rule split_on_append_gen)

text \<open>Joining below a clean absolute directory.\<close>

lemma PathJoin_abs_of:
  assumes "names cs"
  shows "PathJoin [abs_of cs, s] = abs_of (clean_comps True (rev cs) (split_on CHR ''/'' s))"
proof -
  have "split_on CHR ''/'' (abs_of cs @ CHR ''/'' # s) = split_on CHR ''/'' (abs_of cs) @ split_on CHR ''/'' s"
    using assms by (rule split_abs_of_slash)
  moreover have "IsAbs (abs_of cs @ CHR ''/'' # s)" by (simp add: IsAbs_Cons abs_of_def)
  ultimately show ?thesis
    using assms clean_comps_append [of "[]" cs]
    by (simp add: PathJoin_def Clean_rooted split_abs_of)
qed

lemma PathJoin_abs_of_names:
  assumes "names cs" and "names ds" and "ds \<noteq> []"
  shows "PathJoin [abs_of cs, join_with ''/'' ds] = abs_of (cs @ ds)"
proof -
  have "split_on CHR ''/'' (join_with ''/'' ds) = ds"
    using assms(2,3) by (intro split_join) (auto simp: names_def is_name_def)
  then show ?thesis using assms by (simp add: PathJoin_abs_of clean_comps_id)
qed

lemma PathJoin_abs_of_name: "names cs \<Longrightarrow> is_name n \<Longrightarrow> PathJoin [abs_of cs, n] = abs_of (cs @ [n])"
  using PathJoin_abs_of_names [of cs "[n]"] by simp

lemma strip_common_prefix: "fst (strip_common xs ys) = [] \<longleftrightarrow> (\<exists>zs. ys = xs @ zs)"
  by (induction xs ys rule: strip_common.induct) auto

lemma strip_common_split:
  "strip_common xs ys = (a, b) \<Longrightarrow> \<exists>c. xs = c @ a \<and> ys = c @ b"
  by (induction xs ys rule: strip_common.induct) (auto split: if_splits intro: exI [of _ "[]"] dest: Cons_eq_appendI)

end
