(* ===== verification/SafePath.thy ===== *)
theory SafePath
  imports GoPath
begin

text \<open>
  Confinement of relative paths below a root (\<open>internal/transport/safepath.go\<close>,
  \<open>open_confined.go\<close>, \<open>open_confined_unix.go\<close>). The operating system is a parameter: the working
  directory, \<open>Lstat\<close> (whether a path is a symbolic link), \<open>EvalSymlinks\<close> and the \<open>openat\<close> family.
\<close>

section \<open>Lexical joins\<close>

definition mustUnder :: "string \<Rightarrow> string \<Rightarrow> unit res" where
  "mustUnder absRoot absPath =
     (case RelPath absRoot absPath of
        Inl e \<Rightarrow> Inl e
      | Inr r \<Rightarrow> if r = ''..'' \<or> HasPrefix r ''../'' then Inl (Msg ''path escapes root'') else Inr ())"

definition safeJoinClean :: "string res \<Rightarrow> string \<Rightarrow> string \<Rightarrow> string res" where
  "safeJoinClean cwd root rel =
     (if HasPrefix rel ''/'' \<or> IsAbs rel then Inl (Msg ''absolute path rejected: %q'')
      else if length rel \<ge> 2 \<and> rel ! 1 = CHR '':'' then Inl (Msg ''absolute path rejected: %q'')
      else let cleaned = Clean rel in
        if cleaned = ''..'' \<or> HasPrefix cleaned ''../'' then Inl (Msg ''path escapes root: %q'')
        else if cleaned = ''.'' then Inl (Msg ''empty path rejected: %q'')
        else let full = PathJoin [root, cleaned] in
          case AbsPath cwd root of
            Inl e \<Rightarrow> Inl e
          | Inr absRoot \<Rightarrow>
              (case AbsPath cwd full of
                 Inl e \<Rightarrow> Inl e
               | Inr absFull \<Rightarrow>
                   (case mustUnder absRoot absFull of
                      Inl _ \<Rightarrow> Inl (Msg ''path escapes root: %q'')
                    | Inr _ \<Rightarrow> Inr absFull)))"

definition SafeJoin :: "string res \<Rightarrow> string \<Rightarrow> string \<Rightarrow> string res" where
  "SafeJoin cwd root rel =
     (if rel = '''' \<or> rel = ''.'' then AbsPath cwd root else safeJoinClean cwd root rel)"

definition SafeJoinFile :: "string res \<Rightarrow> string \<Rightarrow> string \<Rightarrow> string res" where
  "SafeJoinFile cwd root rel =
     (if rel = '''' \<or> rel = ''.'' then Inl (Msg ''empty path rejected'')
      else case safeJoinClean cwd root rel of
        Inl e \<Rightarrow> Inl e
      | Inr full \<Rightarrow>
          (case AbsPath cwd root of
             Inl e \<Rightarrow> Inl e
           | Inr absRoot \<Rightarrow> if full = absRoot then Inl (Msg ''empty path rejected: %q'') else Inr full))"

section \<open>Resolving symbolic links\<close>

text \<open>\<open>lstat p\<close> is \<open>Inr True\<close> for a symbolic link; a missing file is the error \<open>NotExist\<close>.\<close>

fun confine_loop ::
  "(string \<Rightarrow> bool res) \<Rightarrow> (string \<Rightarrow> string res) \<Rightarrow> string \<Rightarrow> string \<Rightarrow> string list \<Rightarrow> string res" where
  "confine_loop lstat evalsym absRoot cur [] = Inr cur"
| "confine_loop lstat evalsym absRoot cur (p # ps) =
     (if p = '''' \<or> p = ''.'' then confine_loop lstat evalsym absRoot cur ps
      else let nxt = PathJoin [cur, p] in
        case lstat nxt of
          Inl e \<Rightarrow>
            if e = NotExist
            then (let out = PathJoin [cur, PathJoin (p # ps)]
                  in case mustUnder absRoot cur of
                       Inl _ \<Rightarrow> Inl (Msg ''path escapes root: %q'') | Inr _ \<Rightarrow> Inr out)
            else Inl e
        | Inr True \<Rightarrow>
            (case evalsym nxt of
               Inl e \<Rightarrow> Inl e
             | Inr resolved \<Rightarrow>
                 (case mustUnder absRoot resolved of
                    Inl _ \<Rightarrow> Inl (Msg ''symlink escapes root: %q'')
                  | Inr _ \<Rightarrow> confine_loop lstat evalsym absRoot resolved ps))
        | Inr False \<Rightarrow>
            (case mustUnder absRoot nxt of
               Inl _ \<Rightarrow> Inl (Msg ''path escapes root: %q'')
             | Inr _ \<Rightarrow> confine_loop lstat evalsym absRoot nxt ps))"

definition resolve_root :: "(string \<Rightarrow> string res) \<Rightarrow> string \<Rightarrow> string" where
  "resolve_root evalsym absRoot = (case evalsym absRoot of Inr r \<Rightarrow> r | Inl _ \<Rightarrow> absRoot)"

definition Confine ::
  "(string \<Rightarrow> bool res) \<Rightarrow> (string \<Rightarrow> string res) \<Rightarrow> string res \<Rightarrow> string \<Rightarrow> string \<Rightarrow> string res" where
  "Confine lstat evalsym cwd root rel =
     (case SafeJoinFile cwd root rel of
        Inl e \<Rightarrow> Inl e
      | Inr _ \<Rightarrow>
          (case AbsPath cwd root of
             Inl e \<Rightarrow> Inl e
           | Inr absRoot \<Rightarrow>
               let absRoot' = resolve_root evalsym absRoot
               in confine_loop lstat evalsym absRoot' absRoot' (split_on CHR ''/'' (Clean rel))))"

section \<open>Lemmas: lexical confinement\<close>

lemma mustUnder_abs_of:
  assumes "names a" and "names b"
  shows "mustUnder (abs_of a) (abs_of b) = Inr () \<longleftrightarrow> (\<exists>x. b = a @ x)"
proof (cases "a = b")
  case True
  then show ?thesis using assms by (simp add: mustUnder_def RelPath_def Let_def HasPrefix_def)
next
  case False
  obtain u v where sc: "strip_common a b = (u, v)" by force
  then obtain c where c: "a = c @ u" "b = c @ v" using strip_common_split by blast
  with assms have n: "names u" "names v" by auto
  then have hd: "u \<noteq> [] \<longrightarrow> hd u \<noteq> ''..''" by (cases u) (auto simp: is_name_def)
  have rel: "RelPath (abs_of a) (abs_of b) = Inr (join_with ''/'' (replicate (length u) ''..'' @ v))"
    using False assms sc hd by (auto simp: RelPath_def Let_def)
  show ?thesis
  proof (cases "u = []")
    case True
    with c False have "v \<noteq> []" by auto
    then obtain w ws where v: "v = w # ws" by (cases v) auto
    with n have w: "is_name w" by simp
    have "\<not> HasPrefix (join_with ''/'' v) ''../''"
    proof
      assume "HasPrefix (join_with ''/'' v) ''../''"
      then obtain r where r: "join_with ''/'' v = ''..'' @ CHR ''/'' # r"
        by (auto simp: HasPrefix_iff)
      have "split_on CHR ''/'' (join_with ''/'' v) = v"
        using n v by (intro split_join) (auto simp: names_def is_name_def)
      moreover have "split_on CHR ''/'' (''..'' @ CHR ''/'' # r) = ''..'' # split_on CHR ''/'' r"
        by (rule split_on_append) simp
      ultimately have "hd v = ''..''" using r by (metis list.sel(1))
      with v w show False by (simp add: is_name_def)
    qed
    moreover have "join_with ''/'' v \<noteq> ''..''"
    proof
      assume e: "join_with ''/'' v = ''..''"
      have "split_on CHR ''/'' (join_with ''/'' v) = v"
        using n v by (intro split_join) (auto simp: names_def is_name_def)
      with e have "v = [''..'']" by simp
      with v w show False by (simp add: is_name_def)
    qed
    moreover have "\<exists>x. b = a @ x" using c True by auto
    ultimately show ?thesis using rel True by (simp add: mustUnder_def)
  next
    case False
    then obtain k where k: "length u = Suc k" by (cases u) auto
    have "join_with ''/'' (replicate (length u) ''..'' @ v) = ''..'' \<or>
        HasPrefix (join_with ''/'' (replicate (length u) ''..'' @ v)) ''../''"
      unfolding k by (cases "replicate k ''..'' @ v") (auto simp: HasPrefix_def)
    moreover have "\<not> (\<exists>x. b = a @ x)"
      using sc False strip_common_prefix [of a b] by auto
    ultimately show ?thesis using rel by (auto simp: mustUnder_def)
  qed
qed

lemma clean_comps_append_gen:
  "clean_comps r out (xs @ ys) = clean_comps r (rev (clean_comps r out xs)) ys"
  by (induction r out xs rule: clean_comps.induct) (auto split: list.splits)

text \<open>The components a relative path cleans to: some \<open>..\<close>, then names.\<close>

fun dots_names :: "string list \<Rightarrow> bool" where
  "dots_names [] = True"
| "dots_names (p # ps) \<longleftrightarrow> (p = ''..'' \<and> dots_names ps) \<or> (is_name p \<and> names ps)"

lemma dots_names_snoc:
  "dots_names ps \<Longrightarrow> is_name n \<Longrightarrow> dots_names (ps @ [n])"
  "dots_names ps \<Longrightarrow> ps = [] \<or> last ps = ''..'' \<Longrightarrow> dots_names (ps @ [''..''])"
proof -
  show "dots_names ps \<Longrightarrow> is_name n \<Longrightarrow> dots_names (ps @ [n])" by (induction ps) auto
  show "dots_names ps \<Longrightarrow> ps = [] \<or> last ps = ''..'' \<Longrightarrow> dots_names (ps @ [''..''])"
  proof (induction ps)
    case (Cons p ps)
    show ?case
    proof (cases "ps = []")
      case True
      with Cons.prems show ?thesis by (auto simp: is_name_def)
    next
      case False
      then have "names ps \<Longrightarrow> last ps \<noteq> ''..''"
        by (auto simp: names_def is_name_def dest!: last_in_set)
      with False Cons show ?thesis by auto
    qed
  qed simp
qed

lemma dots_names_butlast: "dots_names ps \<Longrightarrow> dots_names (butlast ps)"
  by (induction ps) (auto simp: names_def dest: in_set_butlastD)

lemma clean_comps_dots:
  "dots_names (rev out) \<Longrightarrow> \<forall>p \<in> set ps. CHR ''/'' \<notin> set p \<Longrightarrow> dots_names (clean_comps False out ps)"
proof (induction "False" out ps rule: clean_comps.induct)
  case (2 out p ps)
  show ?case
  proof (cases out)
    case (Cons q qs)
    have "dots_names (rev qs)" using dots_names_butlast [OF "2.prems"(1)] Cons by simp
    with 2 Cons show ?thesis
      using dots_names_snoc [OF "2.prems"(1)] by (auto simp: is_name_def)
  qed (use 2 in \<open>auto simp: is_name_def\<close>)
qed simp

text \<open>Cleaning first and resolving against a directory afterwards is the same as resolving at once.\<close>

lemma clean_comps_True_False:
  "dots_names (rev out) \<Longrightarrow> \<forall>p \<in> set ps. CHR ''/'' \<notin> set p \<Longrightarrow>
     clean_comps True w (clean_comps False out ps) = clean_comps True w (rev out @ ps)"
proof (induction "False" out ps rule: clean_comps.induct)
  case (2 out p ps)
  show ?case
  proof (cases "p = ''..'' \<and> out \<noteq> [] \<and> hd out \<noteq> ''..''")
    case True
    then obtain q qs where o: "out = q # qs" "q \<noteq> ''..''" by (cases out) auto
    have d: "dots_names (rev qs)" using dots_names_butlast [OF "2.prems"(1)] o by simp
    have q: "is_name q"
    proof -
      have "dots_names xs \<Longrightarrow> y \<in> set xs \<Longrightarrow> y = ''..'' \<or> is_name y" for xs y
        by (induction xs) (auto simp: names_def)
      from this [OF "2.prems"(1)] o show ?thesis by auto
    qed
    have "clean_comps True w (clean_comps False out (p # ps)) = clean_comps True w (rev qs @ ps)"
      using True o "2.hyps"(4) [OF _ _ o(1)] d "2.prems"(2) by simp
    also have "\<dots> = clean_comps True w (rev qs @ (q # ''..'' # ps))"
      using q by (simp add: clean_comps_append_gen is_name_def)
    finally show ?thesis using True o by simp
  next
    case False
    then show ?thesis
      using 2 dots_names_snoc [OF "2.prems"(1)]
      by (cases out) (auto simp: is_name_def clean_comps_append_gen split: list.splits)
  qed
qed simp

definition rel_comps :: "string \<Rightarrow> string list" where
  "rel_comps rel = clean_comps False [] (split_on CHR ''/'' rel)"

definition root_comps :: "string list \<Rightarrow> string \<Rightarrow> string list" where
  "root_comps w root = clean_comps True (if IsAbs root then [] else rev w) (split_on CHR ''/'' root)"

lemma dots_rel_comps: "dots_names (rel_comps rel)"
  unfolding rel_comps_def using split_on_no_sep by (intro clean_comps_dots) auto

lemma names_rel_comps:
  "rel_comps rel \<noteq> [] \<Longrightarrow> hd (rel_comps rel) \<noteq> ''..'' \<Longrightarrow> names (rel_comps rel)"
  using dots_rel_comps [of rel] by (cases "rel_comps rel") auto

lemma no_slash_rel_comps: "c \<in> set (rel_comps rel) \<Longrightarrow> c \<noteq> '''' \<and> CHR ''/'' \<notin> set c"
proof -
  have "dots_names xs \<Longrightarrow> c \<in> set xs \<Longrightarrow> c \<noteq> '''' \<and> CHR ''/'' \<notin> set c" for xs
    by (induction xs) (auto simp: names_def is_name_def)
  then show "c \<in> set (rel_comps rel) \<Longrightarrow> ?thesis" using dots_rel_comps by blast
qed

lemma split_rel_comps:
  "rel_comps rel \<noteq> [] \<Longrightarrow> split_on CHR ''/'' (join_with ''/'' (rel_comps rel)) = rel_comps rel"
  using no_slash_rel_comps by (intro split_join) auto

lemma Clean_rel:
  assumes "\<not> IsAbs rel"
  shows "Clean rel = (if rel_comps rel = [] then ''.'' else join_with ''/'' (rel_comps rel))"
proof -
  have "join_with ''/'' (rel_comps rel) \<noteq> ''''" if "rel_comps rel \<noteq> []"
    using split_rel_comps [OF that] no_slash_rel_comps [of "hd (rel_comps rel)" rel] that
    by (metis list.sel(1) list.set_sel(1) split_on.simps(1))
  then show ?thesis using assms by (auto simp: Clean_def rel_comps_def Let_def)
qed

lemma Clean_rel_tests:
  assumes "\<not> IsAbs rel"
  shows "Clean rel = ''..'' \<or> HasPrefix (Clean rel) ''../'' \<longleftrightarrow> rel_comps rel \<noteq> [] \<and> hd (rel_comps rel) = ''..''"
    and "Clean rel = ''.'' \<longleftrightarrow> rel_comps rel = []"
proof -
  let ?c = "rel_comps rel"
  have sp: "?c \<noteq> [] \<Longrightarrow> split_on CHR ''/'' (Clean rel) = ?c"
    using split_rel_comps Clean_rel [OF assms] by simp
  have "Clean rel = ''..'' \<Longrightarrow> ?c = [''..'']"
    using Clean_rel [OF assms] sp by (cases "?c = []") auto
  moreover have "?c \<noteq> [] \<and> hd ?c = ''..''" if pre: "HasPrefix (Clean rel) ''../''"
  proof -
    from pre obtain r where r: "Clean rel = ''..'' @ CHR ''/'' # r" by (auto simp: HasPrefix_iff)
    then have "?c \<noteq> []" using Clean_rel [OF assms] by auto
    moreover have "split_on CHR ''/'' (''..'' @ CHR ''/'' # r) = ''..'' # split_on CHR ''/'' r"
      by (rule split_on_append) simp
    ultimately show ?thesis using sp r by (metis list.sel(1))
  qed
  moreover have "Clean rel = ''..'' \<or> HasPrefix (Clean rel) ''../''" if "?c \<noteq> []" "hd ?c = ''..''"
    using that Clean_rel [OF assms] by (cases ?c; cases "tl ?c") (auto simp: HasPrefix_def)
  ultimately show "Clean rel = ''..'' \<or> HasPrefix (Clean rel) ''../'' \<longleftrightarrow> ?c \<noteq> [] \<and> hd ?c = ''..''"
    by auto
  have "?c \<noteq> [] \<Longrightarrow> Clean rel \<noteq> ''.''"
  proof
    assume "?c \<noteq> []" "Clean rel = ''.''"
    with sp have "?c = [''.'']" by simp
    then show False using dots_rel_comps [of rel] by (simp add: is_name_def)
  qed
  then show "Clean rel = ''.'' \<longleftrightarrow> ?c = []" using Clean_rel [OF assms] by auto
qed

lemma names_root_comps: "names w \<Longrightarrow> names (root_comps w root)"
  unfolding root_comps_def using split_on_no_sep by (intro clean_comps_names) auto

lemma AbsPath_root: "names w \<Longrightarrow> AbsPath (Inr (abs_of w)) root = Inr (abs_of (root_comps w root))"
  by (simp add: AbsPath_def root_comps_def Clean_rooted PathJoin_abs_of)

lemma root_comps_join:
  assumes "names w" and "names cs" and "cs \<noteq> []"
  shows "root_comps w (PathJoin [root, join_with ''/'' cs]) = root_comps w root @ cs"
proof -
  have sp: "split_on CHR ''/'' (join_with ''/'' cs) = cs"
    using assms(2,3) by (intro split_join) (auto simp: names_def is_name_def)
  have ne: "join_with ''/'' cs \<noteq> ''''" using sp assms(2,3) by (auto simp: is_name_def)
  have nb: "names (root_comps w root)" by (rule names_root_comps [OF assms(1)])
  have hd: "\<not> IsAbs (join_with ''/'' cs)"
  proof
    assume "IsAbs (join_with ''/'' cs)"
    then obtain q where "join_with ''/'' cs = CHR ''/'' # q" using IsAbs_Cons by blast
    with sp have "hd cs = ''''" by (metis list.sel(1) split_on.simps(2))
    with assms(2,3) show False by (cases cs) (auto simp: is_name_def)
  qed
  show ?thesis
  proof (cases "root = ''''")
    case True
    have "Clean (join_with ''/'' cs) = join_with ''/'' cs"
      using hd assms sp by (simp add: Clean_def clean_comps_id ne Let_def)
    then have "PathJoin [root, join_with ''/'' cs] = join_with ''/'' cs"
      using True ne by (simp add: PathJoin_def)
    then show ?thesis
      using True hd assms sp by (simp add: root_comps_def clean_comps_id IsAbs_def HasPrefix_def)
  next
    case False
    define full where "full = root @ CHR ''/'' # join_with ''/'' cs"
    have sf: "split_on CHR ''/'' full = split_on CHR ''/'' root @ cs"
      unfolding full_def by (simp add: split_on_append_gen sp)
    have ab: "IsAbs full \<longleftrightarrow> IsAbs root"
      unfolding full_def using False by (cases root) (auto simp: IsAbs_Cons)
    have pj: "PathJoin [root, join_with ''/'' cs] = Clean full"
      using False by (simp add: PathJoin_def full_def)
    show ?thesis
    proof (cases "IsAbs root")
      case True
      then have "Clean full = abs_of (root_comps w root @ cs)"
        using ab sf assms(2) nb by (simp add: Clean_rooted root_comps_def clean_comps_append_gen clean_comps_id)
      moreover have "clean_comps True [] (split_on CHR ''/'' (abs_of (root_comps w root @ cs))) = root_comps w root @ cs"
        using nb assms(2,3) by (simp add: split_abs_of clean_comps_id)
      ultimately show ?thesis using pj by (simp add: root_comps_def)
    next
      case False
      have "rel_comps full \<noteq> []"
        unfolding rel_comps_def sf clean_comps_append_gen using assms(2,3) by (simp add: clean_comps_id)
      then have cf: "split_on CHR ''/'' (Clean full) = rel_comps full"
        using False ab Clean_rel split_rel_comps by simp
      have "\<not> IsAbs (Clean full)"
      proof
        assume "IsAbs (Clean full)"
        then obtain q where "Clean full = CHR ''/'' # q" using IsAbs_Cons by blast
        with cf have "'''' \<in> set (rel_comps full)" by (metis list.set_intros(1) split_on.simps(2))
        then show False using no_slash_rel_comps by blast
      qed
      then have "root_comps w (Clean full) = clean_comps True (rev w) (rel_comps full)"
        by (simp add: root_comps_def cf)
      also have "\<dots> = clean_comps True (rev w) (split_on CHR ''/'' full)"
        unfolding rel_comps_def using split_on_no_sep by (subst clean_comps_True_False) auto
      also have "\<dots> = root_comps w root @ cs"
        unfolding sf clean_comps_append_gen using False assms(2) by (simp add: root_comps_def clean_comps_id)
      finally show ?thesis using pj by simp
    qed
  qed
qed

lemma safeJoinClean_eq:
  assumes "names w"
  shows "safeJoinClean (Inr (abs_of w)) root rel = Inr p \<longleftrightarrow>
     \<not> IsAbs rel \<and> \<not> (2 \<le> length rel \<and> rel ! 1 = CHR '':'') \<and>
     rel_comps rel \<noteq> [] \<and> hd (rel_comps rel) \<noteq> ''..'' \<and> p = abs_of (root_comps w root @ rel_comps rel)"
proof (cases "IsAbs rel \<or> (2 \<le> length rel \<and> rel ! 1 = CHR '':'') \<or> rel_comps rel = [] \<or> hd (rel_comps rel) = ''..''")
  case True
  then show ?thesis by (auto simp: safeJoinClean_def Clean_rel_tests Let_def)
next
  case False
  then have n: "names (rel_comps rel)" using names_rel_comps by blast
  have cl: "Clean rel = join_with ''/'' (rel_comps rel)" using False Clean_rel by simp
  have "AbsPath (Inr (abs_of w)) (PathJoin [root, Clean rel]) = Inr (abs_of (root_comps w root @ rel_comps rel))"
    unfolding cl using AbsPath_root [OF assms] root_comps_join [OF assms n] False by simp
  moreover have "mustUnder (abs_of (root_comps w root)) (abs_of (root_comps w root @ rel_comps rel)) = Inr ()"
    using n names_root_comps [OF assms] by (simp add: mustUnder_abs_of)
  ultimately show ?thesis
    using False AbsPath_root [OF assms] by (auto simp: safeJoinClean_def Let_def Clean_rel_tests IsAbs_def [symmetric])
qed

section \<open>Opening below the root\<close>

text \<open>
  \<open>openConfinedPath\<close> walks the components with \<open>openat\<close> and \<open>O_NOFOLLOW\<close>. A descriptor is a value of
  type \<open>'fd\<close>; the third result counts the descriptors opened and not closed.
\<close>

datatype errno = ELOOP | ENOTDIR | Errno goerr

record 'fd os =
  os_cwd :: "string res"
  os_lstat :: "string \<Rightarrow> bool res"
  os_evalsym :: "string \<Rightarrow> string res"
  os_openat :: "'fd \<Rightarrow> string \<Rightarrow> bool \<Rightarrow> errno + 'fd"
  os_readlinkat :: "'fd \<Rightarrow> string \<Rightarrow> string res"
  os_open_dir :: "string \<Rightarrow> 'fd res"
  os_open :: "string \<Rightarrow> 'fd res"

fun errno_err :: "errno \<Rightarrow> goerr" where
  "errno_err ELOOP = Msg ''too many levels of symbolic links''"
| "errno_err ENOTDIR = Msg ''not a directory''"
| "errno_err (Errno e) = e"

definition link_target :: "'fd os \<Rightarrow> string \<Rightarrow> string \<Rightarrow> string" where
  "link_target sys logical target =
     (let resolved = (if IsAbs target then Clean target else Clean (PathJoin [logical, target]))
      in case os_evalsym sys resolved of Inr r \<Rightarrow> r | Inl _ \<Rightarrow> resolved)"

fun open_walk ::
  "'fd os \<Rightarrow> string \<Rightarrow> string \<Rightarrow> 'fd \<Rightarrow> bool \<Rightarrow> string \<Rightarrow> int \<Rightarrow> string list
     \<Rightarrow> ('fd \<times> string) res \<times> int" where
  "open_walk sys absRoot cleanedRel curFD closeCur logical n [] =
     (Inr (curFD, PathJoin [absRoot, cleanedRel]), n)"
| "open_walk sys absRoot cleanedRel curFD closeCur logical n (name # rest) =
     (let n' = (if closeCur then n - 1 else n) in
      case os_openat sys curFD name (rest \<noteq> []) of
        Inr fd \<Rightarrow> open_walk sys absRoot cleanedRel fd True (PathJoin [logical, name]) (n' + 1) rest
      | Inl e \<Rightarrow>
          if e \<noteq> ELOOP \<and> e \<noteq> ENOTDIR then (Inl (errno_err e), n')
          else (case os_readlinkat sys curFD name of
                  Inl e \<Rightarrow> (Inl e, n')
                | Inr target \<Rightarrow>
                    let resolved = link_target sys logical target in
                    (case mustUnder absRoot resolved of
                       Inl _ \<Rightarrow> (Inl (Msg ''symlink escapes root: %q''), n')
                     | Inr _ \<Rightarrow>
                         if rest = []
                         then (case os_open sys resolved of
                                 Inl e \<Rightarrow> (Inl e, n')
                               | Inr fd \<Rightarrow> (Inr (fd, resolved), n' + 1))
                         else (case os_open_dir sys resolved of
                                 Inl e \<Rightarrow> (Inl e, n')
                               | Inr fd \<Rightarrow> open_walk sys absRoot cleanedRel fd True resolved (n' + 1) rest))))"

text \<open>The deferred close of the root descriptor is the \<open>- 1\<close> of the result.\<close>

definition openConfinedPath :: "'fd os \<Rightarrow> string \<Rightarrow> string \<Rightarrow> ('fd \<times> string) res \<times> int" where
  "openConfinedPath sys absRoot cleanedRel =
     (case os_open_dir sys absRoot of
        Inl e \<Rightarrow> (Inl e, 0)
      | Inr rootFD \<Rightarrow>
          let comps = filter (\<lambda>p. p \<noteq> '''' \<and> p \<noteq> ''.'') (split_on CHR ''/'' cleanedRel) in
          case (if comps = []
                then (case os_openat sys rootFD ''.'' False of
                        Inl e \<Rightarrow> (Inl (errno_err e), 1)
                      | Inr fd \<Rightarrow> (Inr (fd, absRoot), 2))
                else open_walk sys absRoot cleanedRel rootFD False absRoot 1 comps)
          of (r, n) \<Rightarrow> (r, n - 1))"

definition openedPath :: "'fd os \<Rightarrow> string \<Rightarrow> string res" where
  "openedPath sys name =
     (if name = '''' then Inl (Msg ''empty file name'')
      else case AbsPath (os_cwd sys) name of
        Inl e \<Rightarrow> Inl e
      | Inr p \<Rightarrow> (case os_evalsym sys p of Inr r \<Rightarrow> Inr r | Inl _ \<Rightarrow> Inr p))"

definition OpenConfined :: "'fd os \<Rightarrow> string \<Rightarrow> string \<Rightarrow> 'fd res \<times> int" where
  "OpenConfined sys root rel =
     (case AbsPath (os_cwd sys) root of
        Inl e \<Rightarrow> (Inl e, 0)
      | Inr absRoot \<Rightarrow>
          let absRoot' = resolve_root (os_evalsym sys) absRoot in
          (case Confine (os_lstat sys) (os_evalsym sys) (os_cwd sys) root rel of
             Inl e \<Rightarrow> (Inl e, 0)
           | Inr _ \<Rightarrow>
               (case openConfinedPath sys absRoot' (Clean rel) of
                  (Inl e, n) \<Rightarrow> (Inl e, n)
                | (Inr (fd, name), n) \<Rightarrow>
                    (case openedPath sys name of
                       Inl e \<Rightarrow> (Inl e, n - 1)
                     | Inr resolved \<Rightarrow>
                         let resolved' = (case os_evalsym sys resolved of Inr r \<Rightarrow> r | Inl _ \<Rightarrow> resolved) in
                         (case mustUnder absRoot' resolved' of
                            Inl _ \<Rightarrow> (Inl (Msg ''symlink escapes root: %q''), n - 1)
                          | Inr _ \<Rightarrow> (Inr fd, n))))))"

section \<open>Lemmas: links\<close>

text \<open>No component of the path after the first \<open>k\<close> is a symbolic link.\<close>

definition link_free :: "(string \<Rightarrow> bool res) \<Rightarrow> nat \<Rightarrow> string list \<Rightarrow> bool" where
  "link_free lstat n cs \<longleftrightarrow> (\<forall>k. n < k \<and> k \<le> length cs \<longrightarrow> lstat (abs_of (take k cs)) \<noteq> Inr True)"

text \<open>What \<open>EvalSymlinks\<close> and \<open>Lstat\<close> promise: a resolved path is clean, absolute and free of links, and
  nothing exists below a path that does not exist.\<close>

definition evalsym_ok :: "(string \<Rightarrow> bool res) \<Rightarrow> (string \<Rightarrow> string res) \<Rightarrow> bool" where
  "evalsym_ok lstat evalsym \<longleftrightarrow>
     (\<forall>p q. evalsym p = Inr q \<longrightarrow> (\<exists>cs. names cs \<and> q = abs_of cs \<and> link_free lstat 0 cs))"

definition lstat_ok :: "(string \<Rightarrow> bool res) \<Rightarrow> bool" where
  "lstat_ok lstat \<longleftrightarrow>
     (\<forall>a b. names a \<and> names b \<and> lstat (abs_of a) = Inl NotExist \<longrightarrow> lstat (abs_of (a @ b)) \<noteq> Inr True)"

lemma PathJoin_names: "names ds \<Longrightarrow> ds \<noteq> [] \<Longrightarrow> PathJoin ds = join_with ''/'' ds"
proof -
  assume n: "names ds" "ds \<noteq> []"
  then obtain d es where d: "ds = d # es" "is_name d" by (cases ds) auto
  have sp: "split_on CHR ''/'' (join_with ''/'' ds) = ds"
    using n by (intro split_join) (auto simp: names_def is_name_def)
  have "\<not> IsAbs (join_with ''/'' ds)"
  proof
    assume "IsAbs (join_with ''/'' ds)"
    then obtain q where "join_with ''/'' ds = CHR ''/'' # q" using IsAbs_Cons by blast
    with sp d show False by (auto simp: is_name_def)
  qed
  moreover have "join_with ''/'' ds \<noteq> ''''" using sp d by (auto simp: is_name_def)
  ultimately have "Clean (join_with ''/'' ds) = join_with ''/'' ds"
    using n sp by (simp add: Clean_def clean_comps_id Let_def)
  then show ?thesis using d by (simp add: PathJoin_def is_name_def)
qed

lemma confine_loop_safe:
  assumes "evalsym_ok lstat evalsym" and "lstat_ok lstat" and "names r"
  shows "confine_loop lstat evalsym (abs_of r) (abs_of c) ps = Inr p \<Longrightarrow>
    names c \<Longrightarrow> \<exists>x. c = r @ x \<Longrightarrow> link_free lstat (length r) c \<Longrightarrow> names ps \<Longrightarrow>
    \<exists>y. p = abs_of (r @ y) \<and> names y \<and> link_free lstat (length r) (r @ y)"
proof (induction ps arbitrary: c)
  case Nil
  then show ?case by auto
next
  case (Cons q ps)
  have q: "is_name q" "names ps" using Cons.prems(5) by auto
  have nx: "PathJoin [abs_of c, q] = abs_of (c @ [q])" "names (c @ [q])"
    using PathJoin_abs_of_name Cons.prems(2) q by auto
  have q': "q \<noteq> ''''" "q \<noteq> ''.''" using q by (auto simp: is_name_def)
  show ?case
  proof (cases "lstat (abs_of (c @ [q]))")
    case (Inl e)
    have "PathJoin [abs_of c, PathJoin (q # ps)] = abs_of (c @ q # ps)"
      unfolding PathJoin_names [OF Cons.prems(5) list.distinct(2)]
      by (rule PathJoin_abs_of_names [OF Cons.prems(2,5)]) simp
    with Cons.prems(1) Inl q' nx have e: "e = NotExist" and p: "p = abs_of (c @ q # ps)"
      by (auto simp: Let_def split: if_splits sum.splits)
    have "link_free lstat (length r) (c @ q # ps)"
      unfolding link_free_def
    proof (intro allI impI)
      fix k assume k: "length r < k \<and> k \<le> length (c @ q # ps)"
      show "lstat (abs_of (take k (c @ q # ps))) \<noteq> Inr True"
      proof (cases "k \<le> length c")
        case True
        then show ?thesis using Cons.prems(4) k by (simp add: link_free_def)
      next
        case False
        then obtain m where m: "k = length c + Suc m" by (metis add_Suc_right less_imp_Suc_add not_le)
        have "names (take m ps)" using q(2) by (auto simp: names_def dest: in_set_takeD)
        then have "lstat (abs_of ((c @ [q]) @ take m ps)) \<noteq> Inr True"
          using assms(2) nx(2) Inl e unfolding lstat_ok_def by blast
        then show ?thesis by (simp add: m)
      qed
    qed
    with p Cons.prems(3,5) Cons.prems(2) show ?thesis by auto
  next
    case (Inr b)
    show ?thesis
    proof (cases b)
      case True
      with Cons.prems(1) Inr q' nx obtain s where s: "evalsym (abs_of (c @ [q])) = Inr s"
        "mustUnder (abs_of r) s = Inr ()" "confine_loop lstat evalsym (abs_of r) s ps = Inr p"
        by (auto simp: Let_def split: sum.splits)
      then obtain cs where cs: "names cs" "s = abs_of cs" "link_free lstat 0 cs"
        using assms(1) unfolding evalsym_ok_def by blast
      have "\<exists>x. cs = r @ x" using s(2) cs assms(3) by (simp add: mustUnder_abs_of)
      moreover have "link_free lstat (length r) cs" using cs(3) by (auto simp: link_free_def)
      ultimately show ?thesis using Cons.IH [of cs] s(3) cs q(2) by blast
    next
      case False
      with Cons.prems(1) Inr q' nx have "confine_loop lstat evalsym (abs_of r) (abs_of (c @ [q])) ps = Inr p"
        by (auto simp: Let_def split: sum.splits)
      moreover have "link_free lstat (length r) (c @ [q])"
        using Cons.prems(4) Inr False by (auto simp: link_free_def le_Suc_eq)
      moreover have "\<exists>x. c @ [q] = r @ x" using Cons.prems(3) by auto
      ultimately show ?thesis using Cons.IH [of "c @ [q]"] nx(2) q(2) by blast
    qed
  qed
qed

lemma resolve_root_names:
  "evalsym_ok lstat evalsym \<Longrightarrow> names r0 \<Longrightarrow> \<exists>r. resolve_root evalsym (abs_of r0) = abs_of r \<and> names r"
  by (auto simp: resolve_root_def evalsym_ok_def split: sum.split)

lemma SafeJoinFile_eq:
  assumes "names w"
  shows "SafeJoinFile (Inr (abs_of w)) root rel = Inr p \<longleftrightarrow>
     \<not> IsAbs rel \<and> \<not> (2 \<le> length rel \<and> rel ! 1 = CHR '':'') \<and>
     rel_comps rel \<noteq> [] \<and> hd (rel_comps rel) \<noteq> ''..'' \<and> p = abs_of (root_comps w root @ rel_comps rel)"
proof -
  define C where "C \<longleftrightarrow> \<not> IsAbs rel \<and> \<not> (2 \<le> length rel \<and> rel ! 1 = CHR '':'') \<and>
     rel_comps rel \<noteq> [] \<and> hd (rel_comps rel) \<noteq> ''..''"
  define q where "q = abs_of (root_comps w root @ rel_comps rel)"
  have eq: "safeJoinClean (Inr (abs_of w)) root rel = Inr p \<longleftrightarrow> C \<and> p = q" for p
    unfolding safeJoinClean_eq [OF assms] C_def q_def by blast
  have "rel_comps '''' = []" "rel_comps ''.'' = []" by (simp_all add: rel_comps_def)
  then have nt: "C \<Longrightarrow> rel \<noteq> '''' \<and> rel \<noteq> ''.''" unfolding C_def by metis
  have nq: "C \<Longrightarrow> q \<noteq> abs_of (root_comps w root)"
    unfolding C_def q_def using names_rel_comps names_root_comps [OF assms] by simp
  have "SafeJoinFile (Inr (abs_of w)) root rel = Inr p \<longleftrightarrow> C \<and> p = q"
  proof (cases "safeJoinClean (Inr (abs_of w)) root rel")
    case (Inl e)
    with eq [of q] show ?thesis by (simp add: SafeJoinFile_def)
  next
    case (Inr x)
    with eq [of x] have "C" "x = q" by blast+
    with nt nq Inr show ?thesis by (auto simp: SafeJoinFile_def AbsPath_root [OF assms])
  qed
  then show ?thesis unfolding C_def q_def by blast
qed

lemma Confine_split:
  assumes "names w" and "SafeJoinFile (Inr (abs_of w)) root rel = Inr p"
  shows "split_on CHR ''/'' (Clean rel) = rel_comps rel" and "names (rel_comps rel)" and "rel_comps rel \<noteq> []"
proof -
  have *: "\<not> IsAbs rel" "rel_comps rel \<noteq> []" "hd (rel_comps rel) \<noteq> ''..''"
    using assms(2) SafeJoinFile_eq [OF assms(1)] by blast+
  show "split_on CHR ''/'' (Clean rel) = rel_comps rel" using * Clean_rel split_rel_comps by simp
  show "names (rel_comps rel)" "rel_comps rel \<noteq> []" using * names_rel_comps by blast+
qed

section \<open>Lemmas: descriptors\<close>

text \<open>
  The operating system in a moment when no other process changes the tree: \<open>at\<close> gives the real path
  a descriptor stands for. \<open>openat\<close> with \<open>O_NOFOLLOW\<close> goes to the named entry and nowhere else, and
  opening a path reaches the file \<open>EvalSymlinks\<close> names.
\<close>

definition os_ok :: "'fd os \<Rightarrow> ('fd \<Rightarrow> string list) \<Rightarrow> bool" where
  "os_ok sys at \<longleftrightarrow>
     evalsym_ok (os_lstat sys) (os_evalsym sys) \<and> lstat_ok (os_lstat sys) \<and>
     (\<forall>p q. os_evalsym sys p = Inr q \<longrightarrow> os_evalsym sys q = Inr q) \<and>
     (\<forall>fd n d fd'. os_openat sys fd n d = Inr fd' \<longrightarrow> is_name n \<longrightarrow> at fd' = at fd @ [n]) \<and>
     (\<forall>p fd. os_open sys p = Inr fd \<longrightarrow> os_evalsym sys p = Inr (abs_of (at fd)) \<and> names (at fd)) \<and>
     (\<forall>p fd. os_open_dir sys p = Inr fd \<longrightarrow> os_evalsym sys p = Inr (abs_of (at fd)) \<and> names (at fd))"

lemma os_okD:
  assumes "os_ok sys at"
  shows "evalsym_ok (os_lstat sys) (os_evalsym sys)" "lstat_ok (os_lstat sys)"
    and "os_evalsym sys p = Inr q \<Longrightarrow> os_evalsym sys q = Inr q"
    and "os_openat sys fd n d = Inr fd' \<Longrightarrow> is_name n \<Longrightarrow> at fd' = at fd @ [n]"
    and "os_open sys p = Inr fd \<Longrightarrow> os_evalsym sys p = Inr (abs_of (at fd)) \<and> names (at fd)"
    and "os_open_dir sys p = Inr fd \<Longrightarrow> os_evalsym sys p = Inr (abs_of (at fd)) \<and> names (at fd)"
  using assms unfolding os_ok_def by blast+

text \<open>A link that passes the check is opened inside the root.\<close>

lemma link_target_under:
  assumes "os_ok sys at" and "names r" and "mustUnder (abs_of r) (link_target sys l t) = Inr ()"
    and "os_evalsym sys (link_target sys l t) = Inr (abs_of q)" and "names q"
  shows "\<exists>x. q = r @ x"
proof -
  let ?t = "if IsAbs t then Clean t else Clean (PathJoin [l, t])"
  have lt: "link_target sys l t = (case os_evalsym sys ?t of Inr r \<Rightarrow> r | Inl _ \<Rightarrow> ?t)"
    by (simp only: link_target_def Let_def)
  show ?thesis
  proof (cases "os_evalsym sys ?t")
    case (Inl e)
    then have "link_target sys l t = ?t" by (simp only: lt sum.case)
    with assms(4) Inl have False by simp
    then show ?thesis ..
  next
    case (Inr s)
    then have "link_target sys l t = s" by (simp only: lt sum.case)
    moreover from Inr have "os_evalsym sys s = Inr s" by (rule os_okD(3) [OF assms(1)])
    ultimately have "link_target sys l t = abs_of q" using assms(4) by simp
    then show ?thesis using assms(2,3,5) by (simp add: mustUnder_abs_of)
  qed
qed

lemma open_walk_safe:
  assumes "os_ok sys at" and "names r"
  shows "open_walk sys (abs_of r) cleaned cur cl logical n ps = (res, m) \<Longrightarrow> names ps \<Longrightarrow>
    names (at cur) \<Longrightarrow> \<exists>x. at cur = r @ x \<Longrightarrow> n = (if cl then 2 else 1) \<Longrightarrow> cl \<or> ps \<noteq> [] \<Longrightarrow>
    (case res of Inl _ \<Rightarrow> m = 1 | Inr (fd, name) \<Rightarrow> m = 2 \<and> (\<exists>x. at fd = r @ x))"
proof (induction ps arbitrary: cur cl logical n)
  case Nil
  then show ?case by auto
next
  case (Cons p ps)
  have n': "(if cl then n - 1 else n) = 1" using Cons.prems(5) by simp
  show ?case
  proof (cases "os_openat sys cur p (ps \<noteq> [])")
    case (Inr fd)
    have at: "at fd = at cur @ [p]" using os_okD(4) [OF assms(1) Inr] Cons.prems(2) by simp
    from Cons.prems(1) Inr n' have
      "open_walk sys (abs_of r) cleaned fd True (PathJoin [logical, p]) 2 ps = (res, m)" by (simp add: Let_def)
    then show ?thesis
      by (rule Cons.IH) (use Cons.prems at in auto)
  next
    case (Inl e)
    show ?thesis
    proof (cases "e \<noteq> ELOOP \<and> e \<noteq> ENOTDIR")
      case True
      with Cons.prems(1) Inl n' show ?thesis by (auto simp: Let_def)
    next
      case False
      show ?thesis
      proof (cases "os_readlinkat sys cur p")
        case (Inl e')
        with Cons.prems(1) \<open>os_openat sys cur p (ps \<noteq> []) = Inl e\<close> False n' show ?thesis by (auto simp: Let_def)
      next
        case (Inr target)
        define t where "t = link_target sys logical target"
        have unf: "open_walk sys (abs_of r) cleaned cur cl logical n (p # ps) =
            (case mustUnder (abs_of r) t of
               Inl _ \<Rightarrow> (Inl (Msg ''symlink escapes root: %q''), 1)
             | Inr _ \<Rightarrow>
                 if ps = []
                 then (case os_open sys t of Inl e \<Rightarrow> (Inl e, 1) | Inr fd \<Rightarrow> (Inr (fd, t), 2))
                 else (case os_open_dir sys t of
                         Inl e \<Rightarrow> (Inl e, 1)
                       | Inr fd \<Rightarrow> open_walk sys (abs_of r) cleaned fd True t 2 ps))"
          using \<open>os_openat sys cur p (ps \<noteq> []) = Inl e\<close> False Inr n'
          by (cases e) (simp_all add: Let_def t_def cong: sum.case_cong if_cong)
        show ?thesis
        proof (cases "mustUnder (abs_of r) t")
          case (Inl e')
          with Cons.prems(1) show ?thesis unfolding unf by auto
        next
          case (Inr u)
          then have mu: "mustUnder (abs_of r) (link_target sys logical target) = Inr ()" by (simp add: t_def)
          show ?thesis
          proof (cases "ps = []")
            case True
            with Cons.prems(1) Inr show ?thesis
              unfolding unf using os_okD(5) [OF assms(1)] link_target_under [OF assms mu]
              by (cases "os_open sys t") (auto simp: t_def)
          next
            case False
            show ?thesis
            proof (cases "os_open_dir sys t")
              case (Inr fd)
              from os_okD(6) [OF assms(1) this] have a: "\<exists>x. at fd = r @ x" "names (at fd)"
                using link_target_under [OF assms mu] by (auto simp: t_def)
              from Cons.prems(1) \<open>mustUnder (abs_of r) t = Inr u\<close> False Inr
              have "open_walk sys (abs_of r) cleaned fd True t 2 ps = (res, m)" unfolding unf by simp
              then show ?thesis by (rule Cons.IH) (use Cons.prems a in auto)
            qed (use Cons.prems(1) Inr False in \<open>unfold unf, auto\<close>)
          qed
        qed
      qed
    qed
  qed
qed

section \<open>Properties\<close>

lemma Confine_names:
  assumes "names w" and "evalsym_ok lstat evalsym" and "lstat_ok lstat"
    and "Confine lstat evalsym (Inr (abs_of w)) root rel = Inr p"
  shows "\<exists>r y. resolve_root evalsym (abs_of (root_comps w root)) = abs_of r \<and> names r \<and>
    p = abs_of (r @ y) \<and> names y \<and> link_free lstat (length r) (r @ y)"
proof -
  obtain q where q: "SafeJoinFile (Inr (abs_of w)) root rel = Inr q"
    using assms(4) by (auto simp: Confine_def split: sum.splits)
  note sp = Confine_split [OF assms(1) q]
  obtain r where r: "resolve_root evalsym (abs_of (root_comps w root)) = abs_of r" "names r"
    using resolve_root_names [OF assms(2) names_root_comps [OF assms(1)]] by blast
  have "confine_loop lstat evalsym (abs_of r) (abs_of r) (rel_comps rel) = Inr p"
    using assms(4) q by (simp add: Confine_def AbsPath_root [OF assms(1)] r(1) sp(1) Let_def)
  moreover have "\<exists>x. r = r @ x" "link_free lstat (length r) r" by (auto simp: link_free_def)
  ultimately have "\<exists>y. p = abs_of (r @ y) \<and> names y \<and> link_free lstat (length r) (r @ y)"
    using confine_loop_safe [OF assms(2,3) r(2) _ r(2) _ _ sp(2)] by blast
  with r show ?thesis by blast
qed

text \<open>
  \<open>SafeJoinFile\<close> is exact: it accepts precisely the relative paths that are not absolute, carry no
  drive letter, do not name the root itself and do not climb out of it, and then returns the root's
  absolute path followed by the path's own components.
\<close>
theorem SafeJoinFile_exact:
  assumes "names w"
  shows "SafeJoinFile (Inr (abs_of w)) root rel = Inr p \<longleftrightarrow>
     \<not> IsAbs rel \<and> \<not> (2 \<le> length rel \<and> rel ! 1 = CHR '':'') \<and>
     (\<exists>y. y \<noteq> [] \<and> names y \<and> rel_comps rel = y \<and> p = abs_of (root_comps w root @ y))"
proof -
  have "rel_comps rel \<noteq> [] \<and> hd (rel_comps rel) \<noteq> ''..'' \<longleftrightarrow> rel_comps rel \<noteq> [] \<and> names (rel_comps rel)"
  proof -
    have "names xs \<Longrightarrow> xs \<noteq> [] \<Longrightarrow> hd xs \<noteq> ''..''" for xs by (cases xs) (auto simp: is_name_def)
    then show ?thesis using names_rel_comps [of rel] by blast
  qed
  then show ?thesis using SafeJoinFile_eq [OF assms, of root rel p] by auto
qed

theorem SafeJoinFile_exact_witness:
  "SafeJoinFile (Inr ''/srv'') ''data'' ''a/./b/../c'' = Inr ''/srv/data/a/c''
   \<and> (\<forall>p. SafeJoinFile (Inr ''/srv'') ''data'' ''a/../../x'' \<noteq> Inr p)"
proof -
  have w: "abs_of [''srv''] = ''/srv''" "names [''srv'']" by (simp_all add: abs_of_def is_name_def)
  have 1: "rel_comps ''a/./b/../c'' = [''a'', ''c'']" by (simp add: rel_comps_def)
  have 2: "rel_comps ''a/../../x'' = [''..'', ''x'']" by (simp add: rel_comps_def)
  have 3: "root_comps [''srv''] ''data'' = [''srv'', ''data'']"
    by (simp add: root_comps_def IsAbs_def HasPrefix_def)
  note ex = SafeJoinFile_exact [OF w(2), unfolded w(1)]
  have "SafeJoinFile (Inr ''/srv'') ''data'' ''a/./b/../c'' = Inr ''/srv/data/a/c''"
    unfolding ex 1 3 by (simp add: IsAbs_def HasPrefix_def abs_of_def is_name_def)
  moreover have "SafeJoinFile (Inr ''/srv'') ''data'' ''a/../../x'' \<noteq> Inr p" for p
    unfolding ex 2 by (auto simp: is_name_def)
  ultimately show ?thesis by blast
qed

text \<open>
  C5. Whatever links the tree holds, a path \<open>Confine\<close> returns lies below the resolved root, and no
  component of it below the root is a symbolic link: links that lead outside are refused and links
  that stay inside are replaced by their target.
\<close>
theorem Confine_safe:
  assumes "names w" and "evalsym_ok lstat evalsym" and "lstat_ok lstat"
    and "Confine lstat evalsym (Inr (abs_of w)) root rel = Inr p"
  shows "\<exists>r y. resolve_root evalsym (abs_of (root_comps w root)) = abs_of r \<and> p = abs_of (r @ y) \<and>
    (\<forall>k. length r < k \<and> k \<le> length (r @ y) \<longrightarrow> lstat (abs_of (take k (r @ y))) \<noteq> Inr True)"
  using Confine_names [OF assms] unfolding link_free_def by blast

text \<open>A tree with a file \<open>/r/a/f\<close> and a link \<open>/r/l\<close> to \<open>/r/a\<close>, and a link \<open>/r/x\<close> to \<open>/etc\<close>.\<close>

definition demo_lstat :: "string \<Rightarrow> bool res" where
  "demo_lstat p =
     (if p = ''/r/l'' \<or> p = ''/r/x'' then Inr True
      else if p = ''/'' \<or> p = ''/r'' \<or> p = ''/r/a'' \<or> p = ''/r/a/f'' \<or> p = ''/etc'' then Inr False
      else Inl NotExist)"

definition demo_evalsym :: "string \<Rightarrow> string res" where
  "demo_evalsym p =
     (if p = ''/r/l'' then Inr ''/r/a'' else if p = ''/r/x'' then Inr ''/etc''
      else if p = ''/r'' \<or> p = ''/r/a'' \<or> p = ''/r/a/f'' \<or> p = ''/etc'' then Inr p else Inl NotExist)"

lemma demo_paths:
  "abs_of [''r''] = ''/r''" "abs_of [''etc''] = ''/etc''" "abs_of [''r'', ''a''] = ''/r/a''"
  "abs_of [''r'', ''a'', ''f''] = ''/r/a/f''" "abs_of [] = ''/''"
  "abs_of [''r'', ''l''] = ''/r/l''" "abs_of [''r'', ''x''] = ''/r/x''"
  "names [''r'', ''a'', ''f'']" "names [''etc'']" "names [''r'', ''l'']" "names [''r'', ''x'']"
  by (simp_all add: abs_of_def is_name_def)

lemma demo_evalsym_ok: "evalsym_ok demo_lstat demo_evalsym"
proof -
  have lf: "link_free demo_lstat 0 [''r'']" "link_free demo_lstat 0 [''etc'']" "link_free demo_lstat 0 [''r'', ''a'']"
    "link_free demo_lstat 0 [''r'', ''a'', ''f'']"
    by (auto simp: link_free_def demo_lstat_def demo_paths less_Suc_eq le_Suc_eq)
  have n: "names [''r'']" "names [''etc'']" "names [''r'', ''a'']" "names [''r'', ''a'', ''f'']"
    by (simp_all add: is_name_def)
  show ?thesis
    unfolding evalsym_ok_def
  proof (intro allI impI)
    fix p q assume "demo_evalsym p = Inr q"
    then have "q \<in> abs_of ` {[''r''], [''etc''], [''r'', ''a''], [''r'', ''a'', ''f'']}"
      by (auto simp: demo_evalsym_def demo_paths split: if_splits)
    then show "\<exists>cs. names cs \<and> q = abs_of cs \<and> link_free demo_lstat 0 cs" using lf n by blast
  qed
qed

lemma demo_lstat_ok: "lstat_ok demo_lstat"
  unfolding lstat_ok_def
proof (intro allI impI, elim conjE)
  fix a b assume n: "names a" "names b" and ne: "demo_lstat (abs_of a) = Inl NotExist"
  show "demo_lstat (abs_of (a @ b)) \<noteq> Inr True"
  proof
    assume "demo_lstat (abs_of (a @ b)) = Inr True"
    then have "abs_of (a @ b) = abs_of [''r'', ''l''] \<or> abs_of (a @ b) = abs_of [''r'', ''x'']"
      by (auto simp: demo_lstat_def demo_paths split: if_splits)
    then have "a @ b = [''r'', ''l''] \<or> a @ b = [''r'', ''x'']"
      using n demo_paths(10,11) abs_of_inject names_simps(3) by blast
    then have "a = [] \<or> a = [''r''] \<or> a = [''r'', ''l''] \<or> a = [''r'', ''x'']"
      by (auto simp: append_eq_Cons_conv)
    with ne show False by (auto simp: demo_lstat_def demo_paths)
  qed
qed

theorem Confine_safe_witness:
  "Confine demo_lstat demo_evalsym (Inr ''/'') ''/r'' ''l/f'' = Inr ''/r/a/f'' \<and>
   (\<exists>r y. resolve_root demo_evalsym (abs_of (root_comps [] ''/r'')) = abs_of r \<and> ''/r/a/f'' = abs_of (r @ y)) \<and>
   (\<forall>p. Confine demo_lstat demo_evalsym (Inr ''/'') ''/r'' ''x/passwd'' \<noteq> Inr p)"
proof -
  have c: "Confine demo_lstat demo_evalsym (Inr ''/'') ''/r'' ''l/f'' = Inr ''/r/a/f''"
    by code_simp
  moreover have "Confine demo_lstat demo_evalsym (Inr ''/'') ''/r'' ''x/passwd'' = Inl (Msg ''symlink escapes root: %q'')"
    by code_simp
  moreover have "\<exists>r y. resolve_root demo_evalsym (abs_of (root_comps [] ''/r'')) = abs_of r \<and> ''/r/a/f'' = abs_of (r @ y)"
    using Confine_safe [of "[]" demo_lstat demo_evalsym "''/r''" "''l/f''" "''/r/a/f''"] demo_evalsym_ok demo_lstat_ok c
    by (auto simp: demo_paths)
  ultimately show ?thesis by simp
qed

lemma openConfinedPath_safe:
  assumes "os_ok sys at" and "names r" and "names cs" and "cs \<noteq> []"
    and "split_on CHR ''/'' cleaned = cs" and "resolve_root (os_evalsym sys) p = abs_of r"
    and "openConfinedPath sys (abs_of r) cleaned = (res, n)"
  shows "case res of Inl _ \<Rightarrow> n = 0 | Inr (fd, name) \<Rightarrow> n = 1 \<and> (\<exists>x. at fd = r @ x)"
proof (cases "os_open_dir sys (abs_of r)")
  case (Inl e)
  with assms(7) show ?thesis by (auto simp: openConfinedPath_def)
next
  case (Inr root)
  from os_okD(6) [OF assms(1) this] have ev: "os_evalsym sys (abs_of r) = Inr (abs_of (at root))"
    and n: "names (at root)" by auto
  have "at root = r"
  proof (cases "os_evalsym sys p")
    case (Inr q)
    with assms(6) os_okD(3) [OF assms(1) Inr] ev n assms(2) show ?thesis by (simp add: resolve_root_def)
  qed (use assms(6) ev in \<open>simp add: resolve_root_def\<close>)
  have f: "filter (\<lambda>p. p \<noteq> '''' \<and> p \<noteq> ''.'') cs = cs"
    using assms(3) by (auto simp: names_def is_name_def filter_id_conv)
  obtain res' m where ow: "open_walk sys (abs_of r) cleaned root False (abs_of r) 1 cs = (res', m)"
    by force
  with assms(4,7) Inr f have "res = res'" "n = m - 1" unfolding openConfinedPath_def assms(5) by auto
  moreover have "case res' of Inl _ \<Rightarrow> m = 1 | Inr (fd, name) \<Rightarrow> m = 2 \<and> (\<exists>x. at fd = r @ x)"
    by (rule open_walk_safe [OF assms(1,2) ow assms(3)]) (use n \<open>at root = r\<close> assms(4) in auto)
  ultimately show ?thesis by (auto split: sum.splits)
qed

text \<open>
  C6. On a tree that does not change during the call, \<open>OpenConfined\<close> opens only files whose real path
  lies below the resolved root, whatever links the path goes through; and on every path through the
  function each descriptor it opened is closed again, the returned one aside.
\<close>
theorem OpenConfined_safe:
  assumes "names w" and "os_cwd sys = Inr (abs_of w)" and "os_ok sys at"
    and "OpenConfined sys root rel = (res, n)"
  shows "case res of Inl _ \<Rightarrow> n = 0
    | Inr fd \<Rightarrow> n = 1 \<and> (\<exists>r x. resolve_root (os_evalsym sys) (abs_of (root_comps w root)) = abs_of r \<and> at fd = r @ x)"
proof -
  note ap = AbsPath_root [OF assms(1), of root]
  obtain r where r: "resolve_root (os_evalsym sys) (abs_of (root_comps w root)) = abs_of r" "names r"
    using resolve_root_names [OF os_okD(1) [OF assms(3)] names_root_comps [OF assms(1)]] by blast
  show ?thesis
  proof (cases "Confine (os_lstat sys) (os_evalsym sys) (os_cwd sys) root rel")
    case (Inl e)
    with assms(2,4) ap show ?thesis by (auto simp: OpenConfined_def Let_def)
  next
    case (Inr p)
    then obtain q where "SafeJoinFile (Inr (abs_of w)) root rel = Inr q"
      using assms(2) by (auto simp: Confine_def split: sum.splits)
    note sp = Confine_split [OF assms(1) this]
    obtain res' m where oc: "openConfinedPath sys (abs_of r) (Clean rel) = (res', m)" by force
    note safe = openConfinedPath_safe [OF assms(3) r(2) sp(2,3,1) r(1) oc]
    have unf: "OpenConfined sys root rel =
       (case res' of Inl e \<Rightarrow> (Inl e, m)
        | Inr (fd, name) \<Rightarrow>
            (case openedPath sys name of
               Inl e \<Rightarrow> (Inl e, m - 1)
             | Inr resolved \<Rightarrow>
                 (case mustUnder (abs_of r) (case os_evalsym sys resolved of Inr r \<Rightarrow> r | Inl _ \<Rightarrow> resolved) of
                    Inl _ \<Rightarrow> (Inl (Msg ''symlink escapes root: %q''), m - 1)
                  | Inr _ \<Rightarrow> (Inr fd, m))))"
      using Inr assms(2) ap r(1) oc by (auto simp: OpenConfined_def Let_def split: sum.split prod.split)
    show ?thesis
      using assms(4) safe r(1) unfolding unf by (auto split: sum.splits prod.splits)
  qed
qed

text \<open>Descriptors that are the real paths themselves, on the tree above.\<close>

definition demo_os :: "string list os" where
  "demo_os = \<lparr>os_cwd = Inr ''/'', os_lstat = demo_lstat, os_evalsym = demo_evalsym,
     os_openat = (\<lambda>fd n d. case demo_lstat (abs_of (fd @ [n])) of
        Inr True \<Rightarrow> Inl ELOOP | Inr False \<Rightarrow> Inr (fd @ [n]) | Inl e \<Rightarrow> Inl (Errno e)),
     os_readlinkat = (\<lambda>fd n. demo_evalsym (abs_of (fd @ [n]))),
     os_open_dir = (\<lambda>p. map_sum id path_comps (demo_evalsym p)),
     os_open = (\<lambda>p. map_sum id path_comps (demo_evalsym p))\<rparr>"

theorem OpenConfined_safe_witness:
  "OpenConfined demo_os ''/r'' ''l/f'' = (Inr [''r'', ''a'', ''f''], 1) \<and>
   (case Inr [''r'', ''a'', ''f''] of Inl _ \<Rightarrow> (1::int) = 0 | Inr fd \<Rightarrow> (1::int) = 1 \<and>
      (\<exists>r x. resolve_root (os_evalsym demo_os) (abs_of (root_comps [] ''/r'')) = abs_of r \<and> fd = r @ x))"
proof -
  have pc: "demo_evalsym p = Inr q \<Longrightarrow> abs_of (path_comps q) = q \<and> names (path_comps q) \<and> demo_evalsym q = Inr q" for p q
    by (auto simp: demo_evalsym_def demo_paths path_comps_def is_name_def split: if_splits)
  have op: "map_sum id path_comps (demo_evalsym p) = Inr fd \<Longrightarrow> demo_evalsym p = Inr (abs_of fd) \<and> names fd" for p fd
    using pc [of p] by (cases "demo_evalsym p") auto
  have "os_ok demo_os (\<lambda>fd. fd)"
    unfolding os_ok_def demo_os_def os.simps
  proof (intro conjI allI impI)
    fix fd n fd' assume "(case demo_lstat (abs_of (fd @ [n])) of Inl e \<Rightarrow> Inl (Errno e)
      | Inr True \<Rightarrow> Inl ELOOP | Inr False \<Rightarrow> Inr (fd @ [n])) = Inr fd'"
    then show "fd' = fd @ [n]" by (auto split: sum.splits bool.splits)
  qed (use demo_evalsym_ok demo_lstat_ok pc op in blast)+
  moreover have c: "OpenConfined demo_os ''/r'' ''l/f'' = (Inr [''r'', ''a'', ''f''], 1)"
    by code_simp
  moreover have "os_cwd demo_os = Inr (abs_of [])" by (simp add: demo_os_def demo_paths)
  ultimately show ?thesis
    using OpenConfined_safe [of "[]" demo_os "\<lambda>fd. fd" "''/r''" "''l/f''"] by simp
qed

end
