(* ===== verification/Compress.thy ===== *)
theory Compress
  imports Complex_Main GoIO GoStr
begin

text \<open>
  Chunk compression (\<open>internal/compress/compress.go\<close>). The lz4 and zstd libraries are third-party code:
  a record of functions, the compressors from bytes to bytes and the decompressors from bytes to the
  reader of the decompressed stream.
\<close>

section \<open>Codecs\<close>

type_synonym codec = "8 word"

definition CodecNone :: codec where "CodecNone = 0"
definition CodecLZ4 :: codec where "CodecLZ4 = 1"
definition CodecZstd :: codec where "CodecZstd = 2"
definition CodecAuto :: codec where "CodecAuto = 3"

lemmas codec_defs = CodecNone_def CodecLZ4_def CodecZstd_def CodecAuto_def

definition MaxUncompressedChunk :: nat where "MaxUncompressedChunk = 67108864"

definition codec_string :: "codec \<Rightarrow> string" where
  "codec_string c =
     (if c = CodecNone then ''none'' else if c = CodecLZ4 then ''lz4''
      else if c = CodecZstd then ''zstd'' else if c = CodecAuto then ''auto''
      else ''codec('' @ nat_digits (unat c) @ '')'')"

definition parse_codec :: "string \<Rightarrow> codec res" where
  "parse_codec s =
     (if s = ''none'' \<or> s = '''' then Inr CodecNone else if s = ''lz4'' then Inr CodecLZ4
      else if s = ''zstd'' then Inr CodecZstd else if s = ''auto'' then Inr CodecAuto
      else Inl (Msg ''unknown codec %q''))"

lemma parse_codec_string: "parse_codec (codec_string c) = Inr c \<longleftrightarrow> c < 4"
proof -
  have "c < 4 \<longleftrightarrow> c \<in> {0, 1, 2, 3}" by (auto simp: word_less_nat_alt word_unat_eq_iff)
  then show ?thesis by (auto simp: parse_codec_def codec_string_def codec_defs)
qed

lemma codec_string_parse: "parse_codec s = Inr c \<Longrightarrow> s \<noteq> '''' \<Longrightarrow> codec_string c = s"
  by (auto simp: parse_codec_def codec_string_def codec_defs split: if_splits)

section \<open>Encoding and decoding\<close>

record codec_lib =
  lz4_compress :: "bytes \<Rightarrow> bytes res"
  lz4_reader :: "bytes \<Rightarrow> reader"
  zstd_compress :: "bytes \<Rightarrow> bytes res"
  zstd_reader :: "bytes \<Rightarrow> reader res"
  zstd_available :: bool

definition finish_encode :: "codec \<Rightarrow> bytes \<Rightarrow> bytes res \<Rightarrow> (codec \<times> bytes) res" where
  "finish_encode codec data r =
     (case r of
        Inl e \<Rightarrow> Inl e
      | Inr out \<Rightarrow> if length out \<ge> length data then Inr (CodecNone, data) else Inr (codec, out))"

definition Encode :: "codec_lib \<Rightarrow> codec \<Rightarrow> bytes \<Rightarrow> (codec \<times> bytes) res" where
  "Encode L codec data =
     (if codec = CodecNone \<or> codec = CodecAuto \<or> length data < 64 then Inr (CodecNone, data)
      else if codec = CodecLZ4 then finish_encode codec data (lz4_compress L data)
      else if codec = CodecZstd then finish_encode codec data (zstd_compress L data)
      else Inr (CodecNone, data))"

definition readCapped :: "reader \<Rightarrow> nat \<Rightarrow> int \<Rightarrow> bytes res" where
  "readCapped r maxOut uncompressedLen =
     (case read_all (rd_limit (maxOut + 1) r) of
        (out, Some e) \<Rightarrow> Inl e
      | (out, None) \<Rightarrow>
          if length out > maxOut then Inl (Msg ''decompressed size exceeds cap %d'')
          else if uncompressedLen > 0 \<and> int (length out) \<noteq> uncompressedLen
          then Inl (Msg ''decompressed size %d != expected %d'')
          else Inr out)"

definition Decode :: "codec_lib \<Rightarrow> codec \<Rightarrow> bytes \<Rightarrow> int \<Rightarrow> bytes res" where
  "Decode L codec data uncompressedLen =
     (if codec = CodecAuto then Inl (Msg ''codec auto is encode-only'')
      else if codec = CodecNone then Inr data
      else if uncompressedLen < 0 then Inl (Msg ''negative uncompressed length'')
      else if uncompressedLen > int MaxUncompressedChunk
      then Inl (Msg ''uncompressed length %d exceeds max %d'')
      else let maxOut = (if uncompressedLen > 0 then nat uncompressedLen else MaxUncompressedChunk) in
        if codec = CodecLZ4 then readCapped (lz4_reader L data) maxOut uncompressedLen
        else if codec = CodecZstd then
          (if \<not> zstd_available L then Inl (Msg ''zstd decoder unavailable'')
           else case zstd_reader L data of
             Inl e \<Rightarrow> Inl e
           | Inr r \<Rightarrow> readCapped r maxOut uncompressedLen)
        else Inl (Msg ''unknown codec %d''))"

text \<open>\<open>SampleRatio\<close>, with the quotient of the two lengths exact instead of a 64-bit float.\<close>

definition SampleRatio :: "codec_lib \<Rightarrow> codec \<Rightarrow> bytes \<Rightarrow> rat" where
  "SampleRatio L codec sample =
     (if sample = [] then 1
      else case Encode L codec sample of
        Inl e \<Rightarrow> 1
      | Inr (used, out) \<Rightarrow>
          if used = CodecNone then 1 else of_nat (length sample) / of_nat (length out))"

section \<open>Lemmas\<close>

text \<open>The libraries' own contract: decompressing what was compressed gives the data back.\<close>

definition codec_lib_ok :: "codec_lib \<Rightarrow> bool" where
  "codec_lib_ok L \<longleftrightarrow> zstd_available L \<and>
     (\<forall>d z. lz4_compress L d = Inr z \<longrightarrow> rd_ok (lz4_reader L z) \<and> rd_content (lz4_reader L z) = d) \<and>
     (\<forall>d z. zstd_compress L d = Inr z \<longrightarrow>
        (\<exists>r. zstd_reader L z = Inr r \<and> rd_ok r \<and> rd_content r = d))"

lemma rd_limit_error: "rd_ok r \<Longrightarrow> rd_error (rd_limit n r) = EOF"
proof (induction n r rule: rd_limit.induct)
  case (2 n b e r)
  then show ?case by (cases e) auto
qed simp

lemma readCapped_ok:
  "rd_ok r \<Longrightarrow> length (rd_content r) \<le> maxOut \<Longrightarrow> n \<le> 0 \<or> n = int (length (rd_content r)) \<Longrightarrow>
   readCapped r maxOut n = Inr (rd_content r)"
  by (auto simp: readCapped_def read_all_eq rd_limit_content rd_limit_error)

lemma readCapped_bound:
  "readCapped r maxOut n = Inr out \<Longrightarrow>
   length out \<le> maxOut \<and> (n > 0 \<longrightarrow> int (length out) = n)"
  by (auto simp: readCapped_def read_all_eq rd_limit_content split: if_splits)

lemma finish_encode_cases:
  "finish_encode c data r = Inr (used, out) \<Longrightarrow>
   (used = CodecNone \<and> out = data) \<or> (used = c \<and> r = Inr out \<and> length out < length data)"
  by (auto simp: finish_encode_def split: sum.splits if_splits)

lemma Encode_cases:
  "Encode L c data = Inr (used, out) \<Longrightarrow>
   (used = CodecNone \<and> out = data) \<or>
   (used = c \<and> length out < length data \<and>
     (c = CodecLZ4 \<and> lz4_compress L data = Inr out \<or> c = CodecZstd \<and> zstd_compress L data = Inr out))"
  by (auto simp: Encode_def split: if_splits dest!: finish_encode_cases)

section \<open>Properties\<close>

text \<open>
  C8. What \<open>Encode\<close> produces, \<open>Decode\<close> restores: for data up to the 64 MiB cap, with the codec that was
  really used and the true or an unknown (0) length, decoding gives back exactly the data; and the
  encoded form is never longer than the data.
\<close>
theorem Encode_Decode:
  assumes "codec_lib_ok L" and "Encode L c data = Inr (used, out)"
    and "length data \<le> MaxUncompressedChunk" and "n = 0 \<or> n = int (length data)"
  shows "Decode L used out n = Inr data \<and> length out \<le> length data \<and> (used = CodecNone \<or> used = c)"
proof -
  have len: "\<not> n < 0" "\<not> n > int MaxUncompressedChunk" using assms(3,4) by auto
  have "length data \<le> (if n > 0 then nat n else MaxUncompressedChunk)" using assms(3,4) by auto
  then have cap: "rd_ok r \<Longrightarrow> rd_content r = data \<Longrightarrow>
      readCapped r (if n > 0 then nat n else MaxUncompressedChunk) n = Inr data" for r
    using readCapped_ok [of r _ n] assms(4) by fastforce
  from Encode_cases [OF assms(2)] show ?thesis
  proof (elim disjE conjE)
    assume "used = CodecNone" "out = data"
    then show ?thesis by (simp add: Decode_def codec_defs)
  next
    assume "used = c" "c = CodecLZ4" "lz4_compress L data = Inr out" "length out < length data"
    then show ?thesis
      using assms(1) len cap unfolding codec_lib_ok_def by (simp add: Decode_def codec_defs Let_def)
  next
    assume a: "used = c" "c = CodecZstd" "zstd_compress L data = Inr out" "length out < length data"
    then obtain r where "zstd_reader L out = Inr r" "rd_ok r" "rd_content r = data" "zstd_available L"
      using assms(1) unfolding codec_lib_ok_def by blast
    with a show ?thesis using len cap [of r] by (simp add: Decode_def codec_defs Let_def)
  qed
qed

text \<open>A library that drops a run of zeros: the compressed form is the data without its leading zeros.\<close>

definition demo_lib :: codec_lib where
  "demo_lib = \<lparr>lz4_compress = (\<lambda>d. if d = replicate 100 0 then Inr [9] else Inl (Msg ''x'')),
     lz4_reader = (\<lambda>z. if z = [9] then [Rd (replicate 100 0) None] else []),
     zstd_compress = (\<lambda>d. Inl (Msg ''x'')), zstd_reader = (\<lambda>z. Inl (Msg ''x'')), zstd_available = True\<rparr>"

theorem Encode_Decode_witness:
  "Encode demo_lib CodecLZ4 (replicate 100 0) = Inr (CodecLZ4, [9]) \<and>
   Decode demo_lib CodecLZ4 [9] 100 = Inr (replicate 100 0)"
proof -
  have "replicate 100 (0::byte) \<noteq> []" by simp
  then have "codec_lib_ok demo_lib"
    unfolding codec_lib_ok_def demo_lib_def by auto
  moreover have e: "Encode demo_lib CodecLZ4 (replicate 100 0) = Inr (CodecLZ4, [9])"
    by (simp add: Encode_def finish_encode_def demo_lib_def codec_defs)
  ultimately show ?thesis
    using Encode_Decode [OF _ e, of 100] by (simp add: MaxUncompressedChunk_def)
qed

text \<open>
  Whatever a decoder produces (a decompression bomb included), a compressed chunk decodes to at most
  64 MiB, and to exactly the announced length when one is announced; an uncompressed chunk is passed
  through whatever its length.
\<close>
theorem Decode_bounded:
  assumes "Decode L c data n = Inr out"
  shows "(c = CodecNone \<and> out = data) \<or>
    ((c = CodecLZ4 \<or> c = CodecZstd) \<and> length out \<le> MaxUncompressedChunk \<and> 0 \<le> n \<and>
     (0 < n \<longrightarrow> int (length out) = n))"
proof (cases "c = CodecNone")
  case True
  with assms show ?thesis by (simp add: Decode_def codec_defs)
next
  case False
  let ?m = "if n > 0 then nat n else MaxUncompressedChunk"
  from assms False obtain r where r: "readCapped r ?m n = Inr out" "c = CodecLZ4 \<or> c = CodecZstd"
    "0 \<le> n" "n \<le> int MaxUncompressedChunk"
    by (auto simp: Decode_def Let_def split: if_splits sum.splits)
  from readCapped_bound [OF r(1)] r(2-4) show ?thesis by (auto split: if_splits)
qed

theorem Decode_bounded_witness:
  "length (replicate 100 (0::byte)) \<le> MaxUncompressedChunk \<and> Decode demo_lib CodecLZ4 [9] 0 = Inr (replicate 100 0)"
proof -
  have d: "Decode demo_lib CodecLZ4 [9] 0 = Inr (replicate 100 0)"
    by (simp add: Decode_def readCapped_def read_all_eq rd_limit_content rd_limit_error demo_lib_def codec_defs
        MaxUncompressedChunk_def Let_def)
  have "CodecLZ4 \<noteq> CodecNone" by (simp add: codec_defs)
  with Decode_bounded [OF d] d show ?thesis by blast
qed

end
