(* ===== verification/Protocol.thy ===== *)
theory Protocol
  imports Compress
begin

text \<open>
  The wire protocol (\<open>internal/protocol/protocol.go\<close>): message types, the framing of messages on a
  stream, the version check and the payload types. The JSON text of a payload is the business of
  \<open>encoding/json\<close>; a payload is a byte string here and the typed messages are records.
\<close>

section \<open>Messages\<close>

type_synonym msg_type = "8 word"

definition MsgHello :: msg_type where "MsgHello = 1"
definition MsgHelloOK :: msg_type where "MsgHelloOK = 2"
definition MsgWalk :: msg_type where "MsgWalk = 3"
definition MsgWalkOK :: msg_type where "MsgWalkOK = 4"
definition MsgStat :: msg_type where "MsgStat = 5"
definition MsgStatOK :: msg_type where "MsgStatOK = 6"
definition MsgOpenRead :: msg_type where "MsgOpenRead = 7"
definition MsgReadData :: msg_type where "MsgReadData = 8"
definition MsgBeginWrite :: msg_type where "MsgBeginWrite = 9"
definition MsgWriteChunk :: msg_type where "MsgWriteChunk = 10"
definition MsgCommit :: msg_type where "MsgCommit = 11"
definition MsgAbort :: msg_type where "MsgAbort = 12"
definition MsgGetSig :: msg_type where "MsgGetSig = 13"
definition MsgSigOK :: msg_type where "MsgSigOK = 14"
definition MsgRemove :: msg_type where "MsgRemove = 15"
definition MsgMkdir :: msg_type where "MsgMkdir = 16"
definition MsgOK :: msg_type where "MsgOK = 17"
definition MsgErr :: msg_type where "MsgErr = 18"
definition MsgPeerStats :: msg_type where "MsgPeerStats = 19"
definition MsgTuneOffer :: msg_type where "MsgTuneOffer = 20"
definition MsgTuneApply :: msg_type where "MsgTuneApply = 21"
definition MsgBye :: msg_type where "MsgBye = 22"
definition MsgReuseChunk :: msg_type where "MsgReuseChunk = 23"
definition MsgRelayNotify :: msg_type where "MsgRelayNotify = 24"
definition MsgRelayWait :: msg_type where "MsgRelayWait = 25"
definition MsgRelayWaitOK :: msg_type where "MsgRelayWaitOK = 26"

lemmas msg_defs = MsgHello_def MsgHelloOK_def MsgWalk_def MsgWalkOK_def MsgStat_def MsgStatOK_def
  MsgOpenRead_def MsgReadData_def MsgBeginWrite_def MsgWriteChunk_def MsgCommit_def MsgAbort_def
  MsgGetSig_def MsgSigOK_def MsgRemove_def MsgMkdir_def MsgOK_def MsgErr_def MsgPeerStats_def
  MsgTuneOffer_def MsgTuneApply_def MsgBye_def MsgReuseChunk_def MsgRelayNotify_def MsgRelayWait_def
  MsgRelayWaitOK_def

definition ProtocolVersion :: string where "ProtocolVersion = ''2''"

definition CheckPeerVersion :: "string \<Rightarrow> unit res" where
  "CheckPeerVersion v =
     (if v = '''' \<or> v = ''1'' \<or> v = ProtocolVersion then Inr ()
      else Inl (Msg ''unsupported protocol version %q''))"

record caps =
  SupportsDelta :: bool
  SupportsMultiplex :: bool
  SupportsResume :: bool
  SupportsReuseChunk :: bool

definition DefaultCaps :: caps where
  "DefaultCaps = \<lparr>SupportsDelta = True, SupportsMultiplex = False, SupportsResume = True,
     SupportsReuseChunk = True\<rparr>"

record hello =
  hello_version :: string
  hello_root :: string
  hello_token :: string

record hello_ok =
  hok_version :: string
  hok_root :: string
  hok_caps :: caps

record file_meta_msg =
  fmm_rel :: string
  fmm_size :: int
  fmm_nano :: int
  fmm_mode :: u32

record write_chunk_req =
  wc_offset :: u64
  wc_codec :: codec
  wc_len :: int
  wc_data :: bytes

record reuse_chunk_req =
  rc_new :: u64
  rc_old :: u64
  rc_digest :: bytes
  rc_length :: int

record commit_req =
  cr_digest :: bytes
  cr_mode :: u32
  cr_nano :: int

record relay_notify =
  rn_job :: string
  rn_via :: string
  rn_generation :: int

section \<open>Framing\<close>

definition maxMessageBytes :: nat where "maxMessageBytes = 67108864"

definition frame_header :: "msg_type \<Rightarrow> bytes \<Rightarrow> bytes" where
  "frame_header typ payload = typ # put_be 4 (word_of_nat (length payload) :: u32)"

definition WriteMsg :: "writer \<Rightarrow> msg_type \<Rightarrow> bytes \<Rightarrow> writer \<times> goerr option" where
  "WriteMsg w typ payload =
     (if length payload > maxMessageBytes then (w, Some (Msg ''message too large: %d''))
      else case w_write w (frame_header typ payload) of
        (w', Some e) \<Rightarrow> (w', Some e)
      | (w', None) \<Rightarrow> if payload = [] then (w', None) else w_write w' payload)"

definition ReadMsg :: "reader \<Rightarrow> (msg_type \<times> bytes) res \<times> reader" where
  "ReadMsg r =
     (case read_full r 5 of
        (hdr, Some e, r') \<Rightarrow> (Inl e, r')
      | (hdr, None, r') \<Rightarrow>
          let typ = hd hdr; n = (get_be (tl hdr) :: u32) in
          if unat n > maxMessageBytes then (Inl (Msg ''message too large: %d''), r')
          else if unat n > 0
          then (case read_full r' (unat n) of
                  (buf, Some e, r'') \<Rightarrow> (Inl e, r'')
                | (buf, None, r'') \<Rightarrow> (Inr (typ, buf), r''))
          else (Inr (typ, []), r'))"

text \<open>\<open>WriteJSON\<close>, for a given \<open>json.Marshal\<close>.\<close>

definition WriteJSON :: "('v \<Rightarrow> bytes res) \<Rightarrow> writer \<Rightarrow> msg_type \<Rightarrow> 'v \<Rightarrow> writer \<times> goerr option" where
  "WriteJSON marshal w typ v =
     (case marshal v of Inl e \<Rightarrow> (w, Some e) | Inr b \<Rightarrow> WriteMsg w typ b)"

section \<open>Lemmas\<close>

definition frame :: "msg_type \<times> bytes \<Rightarrow> bytes" where
  "frame m = frame_header (fst m) (snd m) @ snd m"

lemma frame_pair: "frame (t, p) = frame_header t p @ p"
  by (simp add: frame_def)

lemma length_frame_header [simp]: "length (frame_header t p) = 5"
  by (simp add: frame_header_def)

lemma unat_len: "length p \<le> maxMessageBytes \<Longrightarrow> unat (word_of_nat (length p) :: u32) = length p"
  by (intro unat_of_nat_small) (simp add: maxMessageBytes_def)

lemma frame_header_get:
  "hd (frame_header t p) = t" "get_be (tl (frame_header t p)) = (word_of_nat (length p) :: u32)"
  by (simp_all add: frame_header_def get_put_be)

lemma WriteMsg_healthy:
  "w_script w = [] \<Longrightarrow> length p \<le> maxMessageBytes \<Longrightarrow>
   WriteMsg w t p = (w\<lparr>w_out := w_out w @ frame (t, p)\<rparr>, None)"
  by (simp add: WriteMsg_def frame_def)

lemma ReadMsg_short:
  assumes "rd_ok r" and "length (rd_content r) < 5"
  shows "\<exists>r'. ReadMsg r = (Inl (if rd_content r = [] then EOF else UnexpectedEOF), r')"
  using read_full_ok [OF assms(1), of 5] assms(2) by (auto simp: ReadMsg_def)

text \<open>What a reader makes of a header and whatever follows it.\<close>

lemma ReadMsg_header:
  assumes "rd_ok r" and "rd_content r = frame_header t p @ rest" and "length p \<le> maxMessageBytes"
  shows "length p \<le> length rest \<Longrightarrow>
      \<exists>r'. ReadMsg r = (Inr (t, take (length p) rest), r') \<and> rd_ok r' \<and> rd_content r' = drop (length p) rest"
    and "length rest < length p \<Longrightarrow>
      \<exists>r'. ReadMsg r = (Inl (if rest = [] then EOF else UnexpectedEOF), r')"
proof -
  obtain r1 where r1: "read_full r 5 = (frame_header t p, None, r1)" "rd_ok r1" "rd_content r1 = rest"
    using read_full_ok [OF assms(1), of 5] assms(2) by auto
  have unf: "ReadMsg r =
      (if length p > 0
       then (case read_full r1 (length p) of
               (buf, Some e, r'') \<Rightarrow> (Inl e, r'') | (buf, None, r'') \<Rightarrow> (Inr (t, buf), r''))
       else (Inr (t, []), r1))"
    using r1(1) assms(3) by (simp add: ReadMsg_def Let_def frame_header_get unat_len)
  note rf = read_full_ok [OF r1(2), of "length p", unfolded r1(3)]
  show "\<exists>r'. ReadMsg r = (Inr (t, take (length p) rest), r') \<and> rd_ok r' \<and> rd_content r' = drop (length p) rest"
    if "length p \<le> length rest"
    using rf that r1(2,3) unfolding unf by (cases "p = []") auto
  show "\<exists>r'. ReadMsg r = (Inl (if rest = [] then EOF else UnexpectedEOF), r')"
    if "length rest < length p"
    using rf that unfolding unf by auto
qed

fun write_msgs :: "writer \<Rightarrow> (msg_type \<times> bytes) list \<Rightarrow> writer" where
  "write_msgs w [] = w"
| "write_msgs w (m # ms) = write_msgs (fst (WriteMsg w (fst m) (snd m))) ms"

fun read_msgs :: "nat \<Rightarrow> reader \<Rightarrow> (msg_type \<times> bytes) list \<times> goerr option" where
  "read_msgs 0 r = ([], None)"
| "read_msgs (Suc n) r =
     (case ReadMsg r of
        (Inl e, r') \<Rightarrow> ([], Some e)
      | (Inr m, r') \<Rightarrow> (case read_msgs n r' of (ms, e) \<Rightarrow> (m # ms, e)))"

lemma write_msgs_out:
  "w_script w = [] \<Longrightarrow> \<forall>m \<in> set ms. length (snd m) \<le> maxMessageBytes \<Longrightarrow>
   w_out (write_msgs w ms) = w_out w @ concat (map frame ms)"
  by (induction ms arbitrary: w) (auto simp: WriteMsg_healthy)

lemma read_msgs_frames:
  "rd_ok r \<Longrightarrow> rd_content r = concat (map frame ms) @ rest \<Longrightarrow>
   \<forall>m \<in> set ms. length (snd m) \<le> maxMessageBytes \<Longrightarrow>
   \<exists>r'. rd_ok r' \<and> rd_content r' = rest \<and>
     read_msgs (length ms + k) r = (case read_msgs k r' of (ms', e) \<Rightarrow> (ms @ ms', e))"
proof (induction ms arbitrary: r)
  case (Cons m ms)
  obtain t p where m: "m = (t, p)" by force
  have "rd_content r = frame_header t p @ p @ concat (map frame ms) @ rest"
    using Cons.prems(2) by (simp add: m frame_pair)
  from ReadMsg_header(1) [OF Cons.prems(1) this] Cons.prems(3) m
  obtain r1 where r1: "ReadMsg r = (Inr (t, p), r1)" "rd_ok r1" "rd_content r1 = concat (map frame ms) @ rest"
    by auto
  from Cons.IH [OF r1(2,3)] Cons.prems(3) r1(1) m show ?case
    by (auto split: prod.split)
qed (auto split: prod.split)

section \<open>Properties\<close>

text \<open>
  C9. Messages written one after the other are read back in order, with their types and payloads,
  however the transport fragments the stream, and the end of the stream is then a clean \<open>EOF\<close>.
\<close>
theorem framing_roundtrip:
  assumes "\<forall>m \<in> set ms. length (snd m) \<le> maxMessageBytes"
    and "rd_ok r" and "rd_content r = w_out (write_msgs \<lparr>w_out = [], w_script = []\<rparr> ms)"
  shows "read_msgs (length ms + 1) r = (ms, Some EOF)"
proof -
  have "rd_content r = concat (map frame ms) @ []"
    using assms(1,3) by (simp add: write_msgs_out)
  from read_msgs_frames [OF assms(2) this assms(1), of 1]
  obtain r' where r': "rd_ok r'" "rd_content r' = []"
    "read_msgs (length ms + 1) r = (case read_msgs 1 r' of (ms', e) \<Rightarrow> (ms @ ms', e))" by blast
  obtain s where "ReadMsg r' = (Inl EOF, s)" using ReadMsg_short [OF r'(1)] r'(2) by auto
  with r'(3) show ?thesis by simp
qed

theorem framing_roundtrip_witness:
  "read_msgs 3 [Rd [1, 0, 0, 0] None, Rd [2, 7, 8, 17, 0, 0, 0] None, Rd [0] None]
     = ([(MsgHello, [7, 8]), (MsgOK, [])], Some EOF)"
proof -
  have be: "put_be 4 (2 :: u32) = [0, 0, 0, 2]" "put_be 4 (0 :: u32) = [0, 0, 0, 0]"
    by (simp_all add: put_be_def put_le_def upt_conv_Cons numeral_eq_Suc)
  let ?ms = "[(MsgHello, [7, 8]), (MsgOK, [])] :: (msg_type \<times> bytes) list"
  have "read_msgs (length ?ms + 1) [Rd [1, 0, 0, 0] None, Rd [2, 7, 8, 17, 0, 0, 0] None, Rd [0] None]
      = (?ms, Some EOF)"
  proof (rule framing_roundtrip)
    have small: "\<forall>m \<in> set ?ms. length (snd m) \<le> maxMessageBytes" by (simp add: maxMessageBytes_def)
    then show "\<forall>m \<in> set ?ms. length (snd m) \<le> maxMessageBytes" .
    show "rd_content [Rd [1, 0, 0, 0] None, Rd [2, 7, 8, 17, 0, 0, 0] None, Rd [0] None]
        = w_out (write_msgs \<lparr>w_out = [], w_script = []\<rparr> ?ms)"
      by (subst write_msgs_out [OF _ small]) (simp_all add: frame_def frame_header_def be msg_defs)
  qed simp
  moreover have "length ?ms + 1 = 3" by simp
  ultimately show ?thesis by (simp only:)
qed

text \<open>
  A frame that is cut short anywhere is never taken for a message: reading it is an error,
  \<open>ErrUnexpectedEOF\<close> except where the cut falls on the border of the header or before it. A header that
  announces more than 64 MiB is refused before any of its payload is read.
\<close>
theorem truncated_frame_error:
  assumes "length p \<le> maxMessageBytes" and "frame (t, p) = got @ lost" and "lost \<noteq> []"
    and "rd_ok r" and "rd_content r = got"
  shows "\<exists>r'. ReadMsg r = (Inl (if got = [] \<or> got = frame_header t p then EOF else UnexpectedEOF), r')"
proof (cases "length got < 5")
  case True
  then have "got \<noteq> frame_header t p" by (metis length_frame_header less_irrefl)
  then show ?thesis using ReadMsg_short [OF assms(4)] True assms(5) by auto
next
  case False
  then have "take 5 got = frame_header t p"
    using arg_cong [OF assms(2), of "take 5"] by (simp add: frame_pair)
  then have got: "got = frame_header t p @ drop 5 got" by (metis append_take_drop_id)
  then obtain rest where rest: "got = frame_header t p @ rest" by blast
  then have p: "p = rest @ lost" using assms(2) by (simp add: frame_pair)
  note rest = rest p
  with assms(3) have "length rest < length p" by simp
  from ReadMsg_header(2) [OF assms(4) assms(5)[unfolded rest(1)] assms(1) this]
  show ?thesis using rest(1) by (cases rest) (auto simp: frame_header_def)
qed

theorem truncated_frame_error_witness:
  "\<exists>r'. ReadMsg [Rd [1, 0] None, Rd [0, 0, 2, 7] None] = (Inl UnexpectedEOF, r')"
proof -
  have be: "put_be 4 (2 :: u32) = [0, 0, 0, 2]"
    by (simp_all add: put_be_def put_le_def upt_conv_Cons numeral_eq_Suc)
  show ?thesis
    using truncated_frame_error [of "[7, 8]" 1 "[1, 0, 0, 0, 2, 7]" "[8]" "[Rd [1, 0] None, Rd [0, 0, 2, 7] None]"]
    by (simp add: frame_def frame_header_def be maxMessageBytes_def)
qed

end
