(* ===== verification/Journal.thy ===== *)
theory Journal
  imports GoIO GoPath
begin

text \<open>
  The resume journal (\<open>internal/journal/journal.go\<close>): an append-only file with one JSON object per
  line and the map of the last entry per path. The JSON text of an entry is given by the parameters
  \<open>enc\<close> and \<open>dec\<close>; the outcomes of the system calls of an append are a fault value per call of \<open>Put\<close>.
\<close>

section \<open>Sanitised names\<close>

text \<open>
  The contract of the functions that turn an identifier into a file name: what they accept becomes,
  with the extension, one path component, so the file lies directly in its directory.
\<close>

locale safe_name =
  fixes sanitize :: "string \<Rightarrow> string res" and ext :: string
  assumes name: "sanitize s = Inr t \<Longrightarrow> is_name (t @ ext)"
begin

lemma in_dir:
  "sanitize s = Inr t \<Longrightarrow> names d \<Longrightarrow> PathJoin [abs_of d, t @ ext] = abs_of (d @ [t @ ext])"
  using name by (simp add: PathJoin_abs_of_name)

lemma no_escape:
  "sanitize s = Inr t \<Longrightarrow> names d \<Longrightarrow> names (d @ [t @ ext]) \<and> butlast (path_comps (PathJoin [abs_of d, t @ ext])) = d"
  using name in_dir by simp

end

definition job_char :: "char \<Rightarrow> bool" where
  "job_char c \<longleftrightarrow> is_lower c \<or> is_upper c \<or> is_digit c \<or> c = CHR ''-'' \<or> c = CHR ''_'' \<or> c = CHR ''.''"

definition SanitizeJobID :: "string \<Rightarrow> string res" where
  "SanitizeJobID jobID =
     (let j = (if jobID = '''' then ''default'' else jobID) in
      if Contains j ''..'' \<or> ContainsAny j [CHR ''/'', CHR 0x5C] then Inl (Msg ''invalid job id %q'')
      else let b = map (\<lambda>c. if job_char c then c else CHR ''_'') j in
        if b = [] then Inl (Msg ''invalid job id %q'') else Inr b)"

lemma job_char_not_slash: "job_char c \<Longrightarrow> c \<noteq> CHR ''/''"
  by (auto simp: job_char_def is_lower_def is_upper_def is_digit_def)

lemma SanitizeJobID_chars: "SanitizeJobID s = Inr t \<Longrightarrow> t \<noteq> [] \<and> (\<forall>c \<in> set t. job_char c)"
proof -
  have "job_char CHR ''_''" by (simp add: job_char_def)
  then show "SanitizeJobID s = Inr t \<Longrightarrow> ?thesis" by (auto simp: SanitizeJobID_def Let_def split: if_splits)
qed

interpretation journal_name: safe_name SanitizeJobID "''.jsonl''"
proof
  fix s t assume "SanitizeJobID s = Inr t"
  from SanitizeJobID_chars [OF this] show "is_name (t @ ''.jsonl'')"
    using job_char_not_slash by (auto simp: is_name_def append_eq_Cons_conv)
qed

section \<open>Entries and the file\<close>

definition StatusPending :: string where "StatusPending = ''pending''"
definition StatusInProgress :: string where "StatusInProgress = ''in_progress''"
definition StatusComplete :: string where "StatusComplete = ''complete''"
definition StatusFailed :: string where "StatusFailed = ''failed''"

record entry =
  e_job :: string
  e_rel :: string
  e_digest :: string
  e_size :: int
  e_mod :: int
  e_chunks :: int
  e_attempts :: int
  e_status :: string
  e_error :: string
  e_updated :: int

record journal =
  jn_path :: string
  jn_by :: "string \<rightharpoonup> entry"
  jn_corrupt :: nat

text \<open>
  \<open>bufio.Scanner\<close> with \<open>ScanLines\<close> and a buffer of 1 MiB: lines end at a newline or at the end of the
  file, a trailing carriage return is dropped, and a line that does not fit the buffer stops the scan.
\<close>

fun scan_lines :: "bytes \<Rightarrow> bytes \<Rightarrow> bytes list" where
  "scan_lines acc [] = (if acc = [] then [] else [acc])"
| "scan_lines acc (b # bs) = (if b = 10 then acc # scan_lines [] bs else scan_lines (acc @ [b]) bs)"

definition drop_cr :: "bytes \<Rightarrow> bytes" where
  "drop_cr l = (if l \<noteq> [] \<and> last l = 13 then butlast l else l)"

definition max_line :: nat where "max_line = 1048576"

fun load_lines :: "(bytes \<Rightarrow> entry option) \<Rightarrow> bytes list \<Rightarrow> journal \<Rightarrow> journal \<times> goerr option" where
  "load_lines dec [] j = (j, None)"
| "load_lines dec (l # ls) j =
     (if length l \<ge> max_line then (j, Some (Msg ''bufio.Scanner: token too long''))
      else case dec (drop_cr l) of
        None \<Rightarrow> load_lines dec ls (j\<lparr>jn_corrupt := jn_corrupt j + 1\<rparr>)
      | Some e \<Rightarrow> load_lines dec ls (j\<lparr>jn_by := (jn_by j)(e_rel e \<mapsto> e)\<rparr>))"

definition journal_load :: "(bytes \<Rightarrow> entry option) \<Rightarrow> bytes res \<Rightarrow> journal \<Rightarrow> journal res" where
  "journal_load dec file j =
     (case file of
        Inl e \<Rightarrow> if e = NotExist then Inr j else Inl e
      | Inr content \<Rightarrow>
          (case load_lines dec (scan_lines [] content) j of
             (j', Some e) \<Rightarrow> Inl e
           | (j', None) \<Rightarrow>
               if jn_corrupt j' > 0 \<and> jn_by j' = Map.empty then Inl (Msg ''journal corrupt'') else Inr j'))"

definition journal_path :: "string \<Rightarrow> string \<Rightarrow> string" where
  "journal_path destRoot safe = PathJoin [PathJoin [destRoot, ''.quiksync'', ''journal''], safe @ ''.jsonl'']"

text \<open>\<open>Open\<close>: \<open>mkdir\<close> and \<open>file\<close> are the outcomes of creating the directory and of reading the file.\<close>

definition journal_open ::
  "(bytes \<Rightarrow> entry option) \<Rightarrow> goerr option \<Rightarrow> (string \<Rightarrow> bytes res) \<Rightarrow> string \<Rightarrow> string \<Rightarrow> journal res" where
  "journal_open dec mkdir file destRoot jobID =
     (case SanitizeJobID jobID of
        Inl e \<Rightarrow> Inl e
      | Inr safe \<Rightarrow>
          (case mkdir of
             Some e \<Rightarrow> Inl e
           | None \<Rightarrow>
               let path = journal_path destRoot safe
               in journal_load dec (file path) \<lparr>jn_path = path, jn_by = Map.empty, jn_corrupt = 0\<rparr>))"

definition journal_get :: "journal \<Rightarrow> string \<Rightarrow> entry option" where
  "journal_get j rel = jn_by j rel"

definition journal_completed :: "journal \<Rightarrow> string \<Rightarrow> bool" where
  "journal_completed j rel = (case journal_get j rel of Some e \<Rightarrow> e_status e = StatusComplete | None \<Rightarrow> False)"

text \<open>How the system calls of one \<open>Put\<close> end; \<open>PutTorn n e\<close> is a write that stored \<open>n\<close> bytes.\<close>

datatype put_fault = PutFine | PutNoOpen goerr | PutTorn nat goerr | PutNoSync goerr | PutNoClose goerr

definition journal_put ::
  "(entry \<Rightarrow> bytes) \<Rightarrow> put_fault \<Rightarrow> int \<Rightarrow> entry \<Rightarrow> journal \<times> bytes \<Rightarrow> (journal \<times> bytes) \<times> goerr option" where
  "journal_put enc fault now e0 jf =
     (let (j, file) = jf;
          e = e0\<lparr>e_updated := now\<rparr>;
          line = enc e @ [10]
      in case fault of
           PutNoOpen x \<Rightarrow> ((j, file), Some x)
         | PutTorn n x \<Rightarrow> ((j, file @ take n line), Some x)
         | PutNoSync x \<Rightarrow> ((j, file @ line), Some x)
         | PutNoClose x \<Rightarrow> ((j, file @ line), Some x)
         | PutFine \<Rightarrow> ((j\<lparr>jn_by := (jn_by j)(e_rel e \<mapsto> e)\<rparr>, file @ line), None))"

section \<open>Lemmas\<close>

text \<open>The JSON encoder's contract for an entry: one line, short enough for the scanner, that decodes to it.\<close>

definition line_ok :: "(entry \<Rightarrow> bytes) \<Rightarrow> (bytes \<Rightarrow> entry option) \<Rightarrow> entry \<Rightarrow> bool" where
  "line_ok enc dec e \<longleftrightarrow> dec (enc e) = Some e \<and> 10 \<notin> set (enc e) \<and> enc e \<noteq> [] \<and> last (enc e) \<noteq> 13
     \<and> length (enc e) < max_line"

lemma scan_lines_line: "10 \<notin> set l \<Longrightarrow> scan_lines acc (l @ 10 # rest) = (acc @ l) # scan_lines [] rest"
  by (induction l arbitrary: acc) auto

lemma scan_lines_append:
  "scan_lines acc (f @ 10 # rest) = scan_lines acc (f @ [10]) @ scan_lines [] rest"
  by (induction f arbitrary: acc) auto

text \<open>A file of complete lines.\<close>

definition whole_lines :: "bytes \<Rightarrow> bool" where
  "whole_lines f \<longleftrightarrow> f = [] \<or> last f = 10"

lemma scan_whole_lines: "whole_lines f \<Longrightarrow> scan_lines [] (f @ g) = scan_lines [] f @ scan_lines [] g"
proof (cases "f = []")
  case False
  moreover assume "whole_lines f"
  ultimately have "f = butlast f @ [10]" unfolding whole_lines_def by (metis append_butlast_last_id)
  then show ?thesis using scan_lines_append [of "[]" "butlast f" g]
    by (metis append.assoc append_Cons append_Nil)
qed simp

lemma load_lines_append:
  "load_lines dec (ls @ ms) j =
     (case load_lines dec ls j of (j', Some e) \<Rightarrow> (j', Some e) | (j', None) \<Rightarrow> load_lines dec ms j')"
  by (induction ls arbitrary: j) (auto split: option.split)

lemma drop_cr_enc: "line_ok enc dec e \<Longrightarrow> drop_cr (enc e) = enc e"
  by (simp add: drop_cr_def line_ok_def)

lemma load_line:
  "line_ok enc dec e \<Longrightarrow>
   load_lines dec [enc e] j = (j\<lparr>jn_by := (jn_by j)(e_rel e \<mapsto> e)\<rparr>, None)"
  by (simp add: drop_cr_enc) (simp add: line_ok_def)

text \<open>Appending one complete entry to a file of complete lines updates what a reload sees.\<close>

lemma load_append_entry:
  assumes "line_ok enc dec e" and "whole_lines f"
    and "load_lines dec (scan_lines [] f) j0 = (j, None)"
  shows "load_lines dec (scan_lines [] (f @ enc e @ [10])) j0 = (j\<lparr>jn_by := (jn_by j)(e_rel e \<mapsto> e)\<rparr>, None)"
proof -
  have "10 \<notin> set (enc e)" using assms(1) by (simp add: line_ok_def)
  from scan_lines_line [OF this, of "[]" "[]"] have "scan_lines [] (enc e @ [10]) = [enc e]" by simp
  then have "scan_lines [] (f @ enc e @ [10]) = scan_lines [] f @ [enc e]"
    using scan_whole_lines [OF assms(2)] by simp
  then show ?thesis using assms(3) load_line [OF assms(1)] by (simp add: load_lines_append)
qed

text \<open>A run of \<open>Put\<close>s, each with its outcome and time.\<close>

fun run_puts ::
  "(entry \<Rightarrow> bytes) \<Rightarrow> (put_fault \<times> int \<times> entry) list \<Rightarrow> journal \<times> bytes \<Rightarrow> journal \<times> bytes" where
  "run_puts enc [] jf = jf"
| "run_puts enc ((ft, now, e) # ps) jf = run_puts enc ps (fst (journal_put enc ft now e jf))"

definition stamped :: "put_fault \<times> int \<times> entry \<Rightarrow> entry" where
  "stamped p = (snd (snd p))\<lparr>e_updated := fst (snd p)\<rparr>"

fun appended :: "put_fault \<Rightarrow> bool" where
  "appended (PutNoOpen x) = False"
| "appended (PutTorn n x) = False"
| "appended _ = True"

fun not_torn :: "put_fault \<Rightarrow> bool" where
  "not_torn (PutTorn n x) = (n = 0)"
| "not_torn _ = True"

fun put_map :: "(put_fault \<Rightarrow> bool) \<Rightarrow> (put_fault \<times> int \<times> entry) list \<Rightarrow> (string \<rightharpoonup> entry) \<Rightarrow> (string \<rightharpoonup> entry)" where
  "put_map P [] m = m"
| "put_map P (p # ps) m =
     put_map P ps (if P (fst p) then m(e_rel (stamped p) \<mapsto> stamped p) else m)"

lemma run_puts_inv:
  "\<forall>p \<in> set ps. not_torn (fst p) \<and> line_ok enc dec (stamped p) \<Longrightarrow>
    whole_lines f \<Longrightarrow> load_lines dec (scan_lines [] f) j0 = (jl, None) \<Longrightarrow>
    run_puts enc ps (j, f) = (j', f') \<Longrightarrow>
    whole_lines f' \<and> jn_by j' = put_map (\<lambda>t. t = PutFine) ps (jn_by j) \<and> jn_path j' = jn_path j \<and>
    (\<exists>jl'. load_lines dec (scan_lines [] f') j0 = (jl', None) \<and> jn_by jl' = put_map appended ps (jn_by jl)
       \<and> jn_corrupt jl' = jn_corrupt jl)"
proof (induction ps arbitrary: j f jl)
  case (Cons p ps)
  obtain ft now e where p: "p = (ft, now, e)" by (cases p) auto
  let ?e = "e\<lparr>e_updated := now\<rparr>"
  have lok: "line_ok enc dec ?e" using Cons.prems(1) by (simp add: p stamped_def)
  note ap = load_append_entry [OF lok Cons.prems(2,3)]
  have w: "whole_lines (f @ enc ?e @ [10])" by (simp add: whole_lines_def)
  have rest: "\<forall>q \<in> set ps. not_torn (fst q) \<and> line_ok enc dec (stamped q)" using Cons.prems(1) by simp
  note IH = Cons.IH [OF rest]
  show ?case
  proof (cases ft)
    case PutFine
    then show ?thesis
      using Cons.prems(4) IH [OF w ap] by (fastforce simp: p journal_put_def stamped_def Let_def)
  next
    case (PutNoOpen x)
    then show ?thesis
      using Cons.prems(4) IH [OF Cons.prems(2,3)] by (simp add: p journal_put_def Let_def)
  next
    case (PutTorn n x)
    then show ?thesis
      using Cons.prems(1,4) IH [OF Cons.prems(2,3)] by (simp add: p journal_put_def Let_def)
  next
    case (PutNoSync x)
    then show ?thesis
      using Cons.prems(4) IH [OF w ap] by (fastforce simp: p journal_put_def stamped_def Let_def)
  next
    case (PutNoClose x)
    then show ?thesis
      using Cons.prems(4) IH [OF w ap] by (fastforce simp: p journal_put_def stamped_def Let_def)
  qed
qed simp

lemma put_map_empty: "put_map P ps m = Map.empty \<Longrightarrow> m = Map.empty"
proof (induction ps arbitrary: m)
  case (Cons p ps)
  from Cons.IH [OF Cons.prems [unfolded put_map.simps]] show ?case
    by (auto split: if_splits dest: fun_cong [where x = "e_rel (stamped p)"])
qed simp

lemma put_map_append: "put_map P (ps @ qs) m = put_map P qs (put_map P ps m)"
  by (induction ps arbitrary: m) auto

lemma put_map_other: "\<forall>p \<in> set ps. e_rel (stamped p) \<noteq> k \<Longrightarrow> put_map P ps m k = m k"
  by (induction ps arbitrary: m) auto

lemma put_map_all: "\<forall>p \<in> set ps. P (fst p) = Q (fst p) \<Longrightarrow> put_map P ps m = put_map Q ps m"
  by (induction ps arbitrary: m) auto

section \<open>Properties\<close>

text \<open>
  C10. A journal survives a restart: after any run of \<open>Put\<close>s in which calls may fail to open, sync or
  close but no write is cut short, loading the file succeeds and knows every acknowledged entry that no
  later call for the same path replaced; when every call was acknowledged it knows exactly what the
  running process knew.
\<close>
theorem journal_survives_restart:
  assumes "whole_lines f" and "journal_load dec (Inr f) j0 = Inr jl"
    and "\<forall>p \<in> set ps. not_torn (fst p) \<and> line_ok enc dec (stamped p)"
    and "run_puts enc ps (jl, f) = (j', f')"
  shows "\<exists>j''. journal_load dec (Inr f') j0 = Inr j''
    \<and> (\<forall>a now e b. ps = a @ (PutFine, now, e) # b \<and> (\<forall>p \<in> set b. e_rel (stamped p) \<noteq> e_rel e)
          \<longrightarrow> journal_get j'' (e_rel e) = Some (e\<lparr>e_updated := now\<rparr>))
    \<and> ((\<forall>p \<in> set ps. fst p = PutFine) \<longrightarrow> jn_by j'' = jn_by j')"
proof -
  from assms(2) have l: "load_lines dec (scan_lines [] f) j0 = (jl, None)"
    and nc: "\<not> (jn_corrupt jl > 0 \<and> jn_by jl = Map.empty)"
    by (auto simp: journal_load_def split: prod.splits option.splits if_splits)
  from run_puts_inv [OF assms(3,1) l assms(4)] obtain j'' where
    j: "load_lines dec (scan_lines [] f') j0 = (j'', None)" "jn_by j'' = put_map appended ps (jn_by jl)"
    "jn_corrupt j'' = jn_corrupt jl" "jn_by j' = put_map (\<lambda>t. t = PutFine) ps (jn_by jl)" by blast
  have "\<not> (jn_corrupt j'' > 0 \<and> jn_by j'' = Map.empty)"
    using nc j(2,3) put_map_empty by metis
  then have load: "journal_load dec (Inr f') j0 = Inr j''" using j(1) by (simp add: journal_load_def)
  have "journal_get j'' (e_rel e) = Some (e\<lparr>e_updated := now\<rparr>)"
    if "ps = a @ (PutFine, now, e) # b" "\<forall>p \<in> set b. e_rel (stamped p) \<noteq> e_rel e" for a now e b
    using that j(2) by (simp add: journal_get_def put_map_append put_map_other) (simp add: stamped_def)
  moreover have "jn_by j'' = jn_by j'" if "\<forall>p \<in> set ps. fst p = PutFine"
    unfolding j(2,4) by (rule put_map_all) (use that in auto)
  ultimately show ?thesis using load by blast
qed

definition demo_entry :: "string \<Rightarrow> entry" where
  "demo_entry rel = \<lparr>e_job = [], e_rel = rel, e_digest = [], e_size = 1, e_mod = 2, e_chunks = 1,
     e_attempts = 0, e_status = StatusComplete, e_error = [], e_updated = 5\<rparr>"

text \<open>A line format for the two entries \<open>a\<close> and \<open>b\<close>.\<close>

definition demo_enc :: "entry \<Rightarrow> bytes" where
  "demo_enc e = (if e_rel e = ''a'' then [123, 1, 125] else [123, 2, 125])"

definition demo_dec :: "bytes \<Rightarrow> entry option" where
  "demo_dec l = (if l = [123, 1, 125] then Some (demo_entry ''a'')
     else if l = [123, 2, 125] then Some (demo_entry ''b'') else None)"

lemma demo_line_ok: "line_ok demo_enc demo_dec (demo_entry ''a'')" "line_ok demo_enc demo_dec (demo_entry ''b'')"
  by (simp_all add: line_ok_def demo_enc_def demo_dec_def max_line_def) (simp_all add: demo_entry_def)

theorem journal_survives_restart_witness:
  "\<exists>j''. journal_load demo_dec (Inr [123, 1, 125, 10, 123, 2, 125, 10]) \<lparr>jn_path = [], jn_by = Map.empty, jn_corrupt = 0\<rparr>
       = Inr j'' \<and> journal_get j'' ''a'' = Some (demo_entry ''a'')"
proof -
  let ?j0 = "\<lparr>jn_path = [], jn_by = Map.empty, jn_corrupt = 0\<rparr>"
  let ?ps = "[(PutFine, 5, demo_entry ''a''), (PutNoSync EOF, 5, demo_entry ''b'')]"
  have st: "(demo_entry r)\<lparr>e_updated := 5\<rparr> = demo_entry r" "e_rel (demo_entry r) = r" for r
    by (simp_all add: demo_entry_def)
  have w: "whole_lines []" by (simp add: whole_lines_def)
  have l: "journal_load demo_dec (Inr []) ?j0 = Inr ?j0" by (simp add: journal_load_def)
  have ok: "\<forall>p \<in> set ?ps. not_torn (fst p) \<and> line_ok demo_enc demo_dec (stamped p)"
    by (simp add: stamped_def st demo_line_ok)
  have run: "run_puts demo_enc ?ps (?j0, []) =
      (?j0\<lparr>jn_by := [''a'' \<mapsto> demo_entry ''a'']\<rparr>, [123, 1, 125, 10, 123, 2, 125, 10])"
    by (simp add: journal_put_def st demo_enc_def)
  have "?ps = [] @ (PutFine, 5, demo_entry ''a'') # [(PutNoSync EOF, 5, demo_entry ''b'')]
      \<and> (\<forall>p \<in> set [(PutNoSync EOF, 5, demo_entry ''b'')]. e_rel (stamped p) \<noteq> e_rel (demo_entry ''a''))"
    by (simp add: stamped_def st)
  with journal_survives_restart [OF w l ok run] show ?thesis using st by metis
qed

text \<open>
  C11. A write that is cut short loses more than its own entry: the next entry is appended to the torn
  line, and when the merged line does not decode, that entry is forgotten by a restart although its own
  \<open>Put\<close> was synced and acknowledged.
\<close>
theorem journal_torn_write_loses_next:
  assumes "line_ok enc dec (e1\<lparr>e_updated := t1\<rparr>)" and "whole_lines f"
    and "journal_load dec (Inr f) j0 = Inr jl" and "line_ok enc dec (e2\<lparr>e_updated := t2\<rparr>)"
    and "torn = take n (enc (e1\<lparr>e_updated := t1\<rparr>))" and "torn \<noteq> []"
    and "dec (torn @ enc (e2\<lparr>e_updated := t2\<rparr>)) = None"
    and "length (torn @ enc (e2\<lparr>e_updated := t2\<rparr>)) < max_line" and "jn_by jl \<noteq> Map.empty"
    and "n \<le> length (enc (e1\<lparr>e_updated := t1\<rparr>))"
  shows "\<exists>j1 f1 j2 f2 j3. journal_put enc (PutTorn n x) t1 e1 (jl, f) = ((j1, f1), Some x)
    \<and> journal_put enc PutFine t2 e2 (j1, f1) = ((j2, f2), None)
    \<and> journal_get j2 (e_rel e2) = Some (e2\<lparr>e_updated := t2\<rparr>)
    \<and> journal_load dec (Inr f2) j0 = Inr j3 \<and> jn_by j3 = jn_by jl"
proof -
  let ?e2 = "e2\<lparr>e_updated := t2\<rparr>"
  have l: "load_lines dec (scan_lines [] f) j0 = (jl, None)"
    using assms(3) by (auto simp: journal_load_def split: prod.splits option.splits if_splits)
  have nn: "10 \<notin> set (torn @ enc ?e2)"
    using assms(1,4,5) by (auto simp: line_ok_def dest: in_set_takeD)
  have ne: "enc ?e2 \<noteq> []" "last (enc ?e2) \<noteq> 13" using assms(4) by (auto simp: line_ok_def)
  have t: "take n (enc (e1\<lparr>e_updated := t1\<rparr>) @ [10]) = torn" using assms(5,10) by simp
  have sl: "scan_lines [] (f @ (torn @ enc ?e2) @ [10]) = scan_lines [] f @ [torn @ enc ?e2]"
    using scan_whole_lines [OF assms(2), of "(torn @ enc ?e2) @ [10]"] scan_lines_line [OF nn, of "[]" "[]"] by simp
  have "drop_cr (torn @ enc ?e2) = torn @ enc ?e2" using ne by (simp add: drop_cr_def)
  then have "load_lines dec [torn @ enc ?e2] jl = (jl\<lparr>jn_corrupt := jn_corrupt jl + 1\<rparr>, None)"
    using assms(7,8) by simp
  then have "load_lines dec (scan_lines [] (f @ (torn @ enc ?e2) @ [10])) j0 = (jl\<lparr>jn_corrupt := jn_corrupt jl + 1\<rparr>, None)"
    unfolding sl using l by (simp add: load_lines_append)
  then have "journal_load dec (Inr (f @ torn @ enc ?e2 @ [10])) j0 = Inr (jl\<lparr>jn_corrupt := jn_corrupt jl + 1\<rparr>)"
    using assms(9) by (simp add: journal_load_def)
  then show ?thesis
    by (simp add: journal_put_def Let_def t journal_get_def del: take_append)
qed

theorem journal_torn_write_loses_next_witness:
  "\<exists>j1 f1 j2 f2 j3.
     journal_put demo_enc (PutTorn 1 EOF) 5 (demo_entry ''a'')
       (\<lparr>jn_path = [], jn_by = [''a'' \<mapsto> demo_entry ''a''], jn_corrupt = 0\<rparr>, [123, 1, 125, 10]) = ((j1, f1), Some EOF)
     \<and> journal_put demo_enc PutFine 5 (demo_entry ''b'') (j1, f1) = ((j2, f2), None)
     \<and> journal_load demo_dec (Inr f2) \<lparr>jn_path = [], jn_by = Map.empty, jn_corrupt = 0\<rparr> = Inr j3
     \<and> jn_by j3 = [''a'' \<mapsto> demo_entry ''a'']"
proof -
  let ?j0 = "\<lparr>jn_path = [], jn_by = Map.empty, jn_corrupt = 0\<rparr>"
  have st: "(demo_entry r)\<lparr>e_updated := 5\<rparr> = demo_entry r" "e_rel (demo_entry r) = r" for r
    by (simp_all add: demo_entry_def)
  have l: "journal_load demo_dec (Inr [123, 1, 125, 10]) ?j0 = Inr (?j0\<lparr>jn_by := [''a'' \<mapsto> demo_entry ''a'']\<rparr>)"
    by (simp add: journal_load_def demo_dec_def drop_cr_def max_line_def st)
  show ?thesis
    using journal_torn_write_loses_next [where enc = demo_enc and dec = demo_dec and ?e1.0 = "demo_entry ''a''"
        and ?t1.0 = 5 and ?e2.0 = "demo_entry ''b''" and ?t2.0 = 5 and torn = "[123]" and n = 1 and x = EOF, OF _ _ l]
    by (simp add: st demo_line_ok whole_lines_def)
      (force simp: demo_enc_def demo_dec_def max_line_def st)
qed

end
