(* ===== verification/IndexCache.thy ===== *)
theory IndexCache
  imports SafePath Chunk
begin

text \<open>
  The signature cache (\<open>internal/index/cache.go\<close>): one JSON file per path below
  \<open>dest/.quiksync/index\<close>. The files are a map from path to content; the JSON text of a record is given
  by the parameters \<open>enc\<close> and \<open>dec\<close>, and each operation takes the outcome of its system calls.
\<close>

section \<open>Operations\<close>

record cached_chunk =
  cc_offset :: u64
  cc_length :: u32
  cc_digest :: digest

record cached_sig =
  cs_size :: int
  cs_mod :: int
  cs_digest :: digest
  cs_avg :: u32
  cs_chunks :: "cached_chunk list"

record cache =
  ca_dir :: string
  ca_files :: "string \<rightharpoonup> bytes"

definition index_open :: "goerr option \<Rightarrow> string \<Rightarrow> (string \<rightharpoonup> bytes) \<Rightarrow> cache res" where
  "index_open mkdir destRoot files =
     (case mkdir of
        Some e \<Rightarrow> Inl e
      | None \<Rightarrow> Inr \<lparr>ca_dir = PathJoin [destRoot, ''.quiksync'', ''index''], ca_files = files\<rparr>)"

definition pathFor :: "string res \<Rightarrow> cache \<Rightarrow> string \<Rightarrow> string res" where
  "pathFor cwd c rel =
     (if Contains rel ''..'' then Inl (Msg ''invalid index path: %q'')
      else SafeJoin cwd (ca_dir c) (rel @ ''.json''))"

definition index_get ::
  "(bytes \<Rightarrow> cached_sig option) \<Rightarrow> string res \<Rightarrow> cache \<Rightarrow> string \<Rightarrow> int \<Rightarrow> int \<Rightarrow> u32 \<Rightarrow> signature option" where
  "index_get dec cwd c rel sz modNano avgSize =
     (case pathFor cwd c rel of
        Inl e \<Rightarrow> None
      | Inr path \<Rightarrow>
          (case ca_files c path of
             None \<Rightarrow> None
           | Some b \<Rightarrow>
               (case dec b of
                  None \<Rightarrow> None
                | Some cs \<Rightarrow>
                    if cs_size cs \<noteq> sz \<or> cs_mod cs \<noteq> modNano then None
                    else if avgSize \<noteq> 0 \<and> cs_avg cs \<noteq> avgSize then None
                    else Some \<lparr>s_size = cs_size cs, s_digest = cs_digest cs,
                           s_chunks = map (\<lambda>ch. \<lparr>c_offset = cc_offset ch, c_length = cc_length ch,
                                                c_digest = cc_digest ch, c_data = None\<rparr>) (cs_chunks cs)\<rparr>)))"

text \<open>How the calls of a \<open>Put\<close> end: \<open>IxTorn n e\<close> is a \<open>WriteFile\<close> that stored \<open>n\<close> bytes.\<close>

datatype index_fault = IxFine | IxNoDir goerr | IxNoMarshal goerr | IxNoOpen goerr | IxTorn nat goerr

definition cached_of :: "int \<Rightarrow> int \<Rightarrow> u32 \<Rightarrow> signature \<Rightarrow> cached_sig" where
  "cached_of sz modNano avgSize sig =
     \<lparr>cs_size = sz, cs_mod = modNano, cs_digest = s_digest sig, cs_avg = avgSize,
      cs_chunks = map (\<lambda>ch. \<lparr>cc_offset = c_offset ch, cc_length = c_length ch, cc_digest = c_digest ch\<rparr>)
                    (s_chunks sig)\<rparr>"

definition index_put ::
  "(cached_sig \<Rightarrow> bytes) \<Rightarrow> index_fault \<Rightarrow> string res \<Rightarrow> string \<Rightarrow> int \<Rightarrow> int \<Rightarrow> u32 \<Rightarrow> signature \<Rightarrow> cache
     \<Rightarrow> cache \<times> goerr option" where
  "index_put enc fault cwd rel sz modNano avgSize sig c =
     (let cs = cached_of sz modNano avgSize sig
      in case pathFor cwd c rel of
           Inl e \<Rightarrow> (c, Some e)
         | Inr path \<Rightarrow>
             (case fault of
                IxNoDir e \<Rightarrow> (c, Some e)
              | IxNoMarshal e \<Rightarrow> (c, Some e)
              | IxNoOpen e \<Rightarrow> (c, Some e)
              | IxTorn n e \<Rightarrow> (c\<lparr>ca_files := (ca_files c)(path \<mapsto> take n (enc cs))\<rparr>, Some e)
              | IxFine \<Rightarrow> (c\<lparr>ca_files := (ca_files c)(path \<mapsto> enc cs)\<rparr>, None)))"

definition index_delete :: "goerr option \<Rightarrow> string res \<Rightarrow> string \<Rightarrow> cache \<Rightarrow> cache \<times> goerr option" where
  "index_delete fault cwd rel c =
     (case pathFor cwd c rel of
        Inl e \<Rightarrow> (c, Some e)
      | Inr path \<Rightarrow>
          (case fault of
             None \<Rightarrow> (c\<lparr>ca_files := (ca_files c)(path := None)\<rparr>, None)
           | Some e \<Rightarrow> if e = NotExist then (c, None) else (c, Some e)))"

section \<open>Lemmas\<close>

definition strip_data :: "signature \<Rightarrow> signature" where
  "strip_data sig = sig\<lparr>s_chunks := map (\<lambda>c. c\<lparr>c_data := None\<rparr>) (s_chunks sig)\<rparr>"

lemma pathFor_dir: "ca_dir c' = ca_dir c \<Longrightarrow> pathFor cwd c' rel = pathFor cwd c rel"
  by (simp add: pathFor_def)

lemma index_put_dir: "index_put enc ft cwd rel sz m a sig c = (c', e) \<Longrightarrow> ca_dir c' = ca_dir c"
  by (auto simp: index_put_def Let_def split: sum.splits index_fault.splits)

lemma index_get_other:
  assumes "ca_dir c' = ca_dir c" and "pathFor cwd c rel \<noteq> pathFor cwd c rel'"
    and "\<And>p. pathFor cwd c rel = Inr p \<Longrightarrow> \<forall>q. q \<noteq> p \<longrightarrow> ca_files c' q = ca_files c q"
    and "\<exists>p. pathFor cwd c rel = Inr p"
  shows "index_get dec cwd c' rel' sz m a = index_get dec cwd c rel' sz m a"
  using assms by (auto simp: index_get_def pathFor_dir [OF assms(1)] split: sum.splits)

text \<open>Two normal relative paths have different cache files.\<close>

lemma join_snoc_ext:
  "cs \<noteq> [] \<Longrightarrow> join_with sep cs @ ext = join_with sep (butlast cs @ [last cs @ ext])"
proof (induction sep cs rule: join_with.induct)
  case (3 sep x y ys)
  have "butlast (y # ys) @ [last (y # ys) @ ext] \<noteq> []" by simp
  with 3 show ?case by (simp add: join_with_Cons)
qed auto

definition rel_ok :: "string list \<Rightarrow> bool" where
  "rel_ok cs \<longleftrightarrow> names cs \<and> cs \<noteq> [] \<and> \<not> Contains (join_with ''/'' cs) ''..'' \<and>
     (2 \<le> length (join_with ''/'' cs @ ''.json'') \<longrightarrow> (join_with ''/'' cs @ ''.json'') ! 1 \<noteq> CHR '':'')"

definition json_file :: "string list \<Rightarrow> string list" where
  "json_file cs = butlast cs @ [last cs @ ''.json'']"

lemma names_butlast_last: "names cs \<Longrightarrow> cs \<noteq> [] \<Longrightarrow> names (butlast cs) \<and> is_name (last cs)"
  using names_simps(3) [of "butlast cs" "[last cs]"] by simp

lemma names_json_file: "names cs \<Longrightarrow> cs \<noteq> [] \<Longrightarrow> names (json_file cs)"
  using names_butlast_last [of cs] by (auto simp: json_file_def is_name_def append_eq_Cons_conv)

lemma json_file_inject: "cs \<noteq> [] \<Longrightarrow> ds \<noteq> [] \<Longrightarrow> json_file cs = json_file ds \<longleftrightarrow> cs = ds"
proof -
  assume ne: "cs \<noteq> []" "ds \<noteq> []"
  have "json_file cs = json_file ds \<longleftrightarrow> butlast cs = butlast ds \<and> last cs = last ds"
    by (simp add: json_file_def)
  then show "json_file cs = json_file ds \<longleftrightarrow> cs = ds" using ne by (metis append_butlast_last_id)
qed

lemma pathFor_names:
  assumes "names w" and "rel_ok cs"
  shows "pathFor (Inr (abs_of w)) c (join_with ''/'' cs) = Inr (abs_of (root_comps w (ca_dir c) @ json_file cs))"
proof -
  have n: "names cs" "cs \<noteq> []" using assms(2) by (auto simp: rel_ok_def)
  have j: "join_with ''/'' cs @ ''.json'' = join_with ''/'' (json_file cs)"
    unfolding json_file_def by (rule join_snoc_ext [OF n(2)])
  have nj: "names (json_file cs)" "json_file cs \<noteq> []"
    using names_json_file [OF n] by (auto simp: json_file_def)
  have sp: "split_on CHR ''/'' (join_with ''/'' (json_file cs)) = json_file cs"
    using nj by (intro split_join) (auto simp: names_def is_name_def)
  have rc: "rel_comps (join_with ''/'' (json_file cs)) = json_file cs"
    using nj by (simp add: rel_comps_def sp clean_comps_id)
  have hd: "hd (json_file cs) \<noteq> ''..'' \<and> hd (json_file cs) \<noteq> ''''"
    using nj by (cases "json_file cs") (auto simp: is_name_def)
  have na: "\<not> IsAbs (join_with ''/'' (json_file cs))"
  proof
    assume "IsAbs (join_with ''/'' (json_file cs))"
    then obtain q where "join_with ''/'' (json_file cs) = CHR ''/'' # q" using IsAbs_Cons by blast
    with sp have "hd (json_file cs) = ''''" by (metis list.sel(1) split_on.simps(2))
    with hd show False by simp
  qed
  have "safeJoinClean (Inr (abs_of w)) (ca_dir c) (join_with ''/'' (json_file cs))
      = Inr (abs_of (root_comps w (ca_dir c) @ json_file cs))"
    unfolding safeJoinClean_eq [OF assms(1)] rc using na nj hd assms(2) j by (simp add: rel_ok_def)
  moreover have "join_with ''/'' (json_file cs) \<noteq> '''' \<and> join_with ''/'' (json_file cs) \<noteq> ''.''"
  proof -
    have "join_with ''/'' (json_file cs) = x \<Longrightarrow> rel_comps x = json_file cs" for x using rc by simp
    then show ?thesis using nj(2) by (force simp: rel_comps_def)
  qed
  ultimately show ?thesis
    using assms(2) by (simp add: pathFor_def SafeJoin_def j rel_ok_def)
qed

section \<open>Properties\<close>

text \<open>
  After a successful \<open>Put\<close> the cache answers for that path exactly the queries with the stored size,
  modification time and (unless the caller gives none) chunk average, with the stored signature without
  chunk data; every other path answers as before. A damaged record is a miss, never a wrong signature.
\<close>
theorem index_put_get:
  assumes "names w" and "rel_ok cs" and "rel_ok ds"
    and "dec (enc (cached_of sz m avg sig)) = Some (cached_of sz m avg sig)"
    and "index_put enc IxFine (Inr (abs_of w)) (join_with ''/'' cs) sz m avg sig c = (c', None)"
  shows "index_get dec (Inr (abs_of w)) c' (join_with ''/'' ds) sz' m' avg' =
    (if ds = cs
     then (if sz' = sz \<and> m' = m \<and> (avg' = 0 \<or> avg' = avg) then Some ((strip_data sig)\<lparr>s_size := sz\<rparr>) else None)
     else index_get dec (Inr (abs_of w)) c (join_with ''/'' ds) sz' m' avg')"
proof -
  let ?p = "\<lambda>cs. abs_of (root_comps w (ca_dir c) @ json_file cs)"
  note pc = pathFor_names [OF assms(1,2), of c] and pd = pathFor_names [OF assms(1,3), of c]
  have ne: "cs \<noteq> []" "ds \<noteq> []" "names cs" "names ds" using assms(2,3) by (auto simp: rel_ok_def)
  have inj: "?p ds = ?p cs \<longleftrightarrow> ds = cs"
    using names_root_comps [OF assms(1)] names_json_file ne json_file_inject by simp
  from assms(5) have c': "c' = c\<lparr>ca_files := (ca_files c)(?p cs \<mapsto> enc (cached_of sz m avg sig))\<rparr>"
    by (simp add: index_put_def Let_def pc)
  have pd': "pathFor (Inr (abs_of w)) c' (join_with ''/'' ds) = Inr (?p ds)"
    unfolding pd [symmetric] by (rule pathFor_dir) (simp add: c')
  show ?thesis
  proof (cases "ds = cs")
    case True
    have "strip_data sig\<lparr>s_size := sz\<rparr> = \<lparr>s_size = sz, s_digest = s_digest sig,
        s_chunks = map (\<lambda>ch. \<lparr>c_offset = c_offset ch, c_length = c_length ch, c_digest = c_digest ch, c_data = None\<rparr>) (s_chunks sig)\<rparr>"
      by (simp add: strip_data_def)
    then show ?thesis
      using True pd' assms(4) by (simp add: index_get_def c') (simp add: cached_of_def comp_def)
  next
    case False
    then show ?thesis using inj pd pd' by (simp add: index_get_def c')
  qed
qed

theorem index_put_get_witness:
  "index_get (\<lambda>b. if b = [1] then Some (cached_of 1 2 65536 empty_signature) else None) (Inr ''/'')
     (fst (index_put (\<lambda>x. [1]) IxFine (Inr ''/'') ''d/f'' 1 2 65536 empty_signature
        \<lparr>ca_dir = ''/r'', ca_files = Map.empty\<rparr>)) ''d/f'' 1 2 0
   = Some \<lparr>s_size = 1, s_digest = zero_digest, s_chunks = []\<rparr>"
proof -
  have r: "abs_of [] = ''/''" "join_with ''/'' [''d'', ''f''] = ''d/f''" by (simp_all add: abs_of_def)
  have ok: "rel_ok [''d'', ''f'']" by (simp add: rel_ok_def is_name_def Contains_def HasPrefix_def)
  obtain c' where "index_put (\<lambda>x. [1]) IxFine (Inr (abs_of [])) (join_with ''/'' [''d'', ''f'']) 1 2 65536 empty_signature
      \<lparr>ca_dir = ''/r'', ca_files = Map.empty\<rparr> = (c', None)"
    using pathFor_names [OF _ ok, of "[]"] by (auto simp: index_put_def Let_def)
  with index_put_get [of "[]" "[''d'', ''f'']" "[''d'', ''f'']"
      "\<lambda>b. if b = [1] then Some (cached_of 1 2 65536 empty_signature) else None" "\<lambda>x. [1]" 1 2 65536 empty_signature
      "\<lparr>ca_dir = ''/r'', ca_files = Map.empty\<rparr>" c' 1 2 0] ok
  show ?thesis by (simp add: r) (simp add: strip_data_def empty_signature_def)
qed

end

