(* ===== verification/Progress.thy ===== *)
theory Progress
  imports GoIO GoPath Journal
begin

text \<open>
  The job log (\<open>internal/progress/progress.go\<close>): logfmt lines, their quoting, the reporter with its
  files, and the log path. A time stamp is its RFC 3339 text. Files are writers, and each event takes
  the outcomes of the two \<open>Sync\<close> calls.
\<close>

section \<open>Fields and lines\<close>

record log_field =
  f_key :: string
  f_value :: string

definition fStr :: "string \<Rightarrow> string \<Rightarrow> log_field" where
  "fStr key v = \<lparr>f_key = key, f_value = v\<rparr>"

definition fInt :: "string \<Rightarrow> int \<Rightarrow> log_field" where
  "fInt key v = \<lparr>f_key = key, f_value = format_int v\<rparr>"

definition fBool :: "string \<Rightarrow> bool \<Rightarrow> log_field" where
  "fBool key v = \<lparr>f_key = key, f_value = (if v then ''true'' else ''false'')\<rparr>"

text \<open>\<open>ErrField\<close>: \<open>text\<close> is \<open>err.Error()\<close>.\<close>

definition fErr :: "string option \<Rightarrow> log_field" where
  "fErr err = \<lparr>f_key = ''err'', f_value = (case err of None \<Rightarrow> '''' | Some text \<Rightarrow> text)\<rparr>"

definition needs_quote :: "string \<Rightarrow> bool" where
  "needs_quote v = ContainsAny v [CHR '' '', CHR 0x09, CHR 0x22, CHR 0x27, CHR 0x5C, CHR ''='', CHR 0x0A, CHR 0x0D]"

definition quote :: "string \<Rightarrow> string" where
  "quote v =
     (if v = '''' then [CHR 0x22, CHR 0x22]
      else if \<not> needs_quote v then v
      else let e1 = replace_char CHR 0x5C [CHR 0x5C, CHR 0x5C] v;
               e2 = replace_char CHR 0x22 [CHR 0x5C, CHR 0x22] e1;
               e3 = replace_char CHR 0x0A [CHR 0x5C, CHR ''n''] e2;
               e4 = replace_char CHR 0x0D [CHR 0x5C, CHR ''r''] e3
           in [CHR 0x22] @ e4 @ [CHR 0x22])"

fun format_fields :: "log_field list \<Rightarrow> string" where
  "format_fields [] = []"
| "format_fields (f # fs) =
     (if f_key f = '''' then format_fields fs
      else CHR '' '' # f_key f @ CHR ''='' # quote (f_value f) @ format_fields fs)"

definition formatLine :: "string \<Rightarrow> string \<Rightarrow> log_field list \<Rightarrow> string" where
  "formatLine ts event fs = ts @ '' '' @ ''event='' @ event @ format_fields fs @ [CHR 0x0A]"

section \<open>The reporter\<close>

record reporter =
  r_f :: "writer option"
  r_latest :: "writer option"
  r_stderr :: "writer option"
  r_mirror :: bool
  r_progress :: bool
  r_path :: string
  r_lastErr :: "goerr option"

definition str_bytes :: "string \<Rightarrow> bytes" where
  "str_bytes s = map of_char s"

definition recordError :: "goerr \<Rightarrow> reporter \<Rightarrow> reporter" where
  "recordError e r = (if r_lastErr r = None then r\<lparr>r_lastErr := Some e\<rparr> else r)"

text \<open>Writing a line to a file and syncing it: the file and the error, if any.\<close>

definition write_sync :: "writer \<Rightarrow> string \<Rightarrow> goerr option \<Rightarrow> writer \<times> goerr option" where
  "write_sync w line sync =
     (case w_write w (str_bytes line) of (w', Some e) \<Rightarrow> (w', Some e) | (w', None) \<Rightarrow> (w', sync))"

definition note_error :: "goerr option \<Rightarrow> reporter \<Rightarrow> reporter" where
  "note_error e r = (case e of None \<Rightarrow> r | Some x \<Rightarrow> recordError x r)"

definition Event :: "string \<Rightarrow> goerr option \<times> goerr option \<Rightarrow> string \<Rightarrow> log_field list \<Rightarrow> reporter \<Rightarrow> reporter" where
  "Event ts syncs event fs r =
     (let line = formatLine ts event fs in
      case r_f r of
        None \<Rightarrow> r
      | Some w \<Rightarrow>
          let (w', e) = write_sync w line (fst syncs);
              r1 = note_error e (r\<lparr>r_f := Some w'\<rparr>);
              r2 = (case r_latest r1 of
                      None \<Rightarrow> r1
                    | Some l \<Rightarrow> let (l', e2) = write_sync l line (snd syncs)
                               in note_error e2 (r1\<lparr>r_latest := Some l'\<rparr>))
          in case r_stderr r2 of
               None \<Rightarrow> r2
             | Some s \<Rightarrow>
                 if (if event = ''progress'' then r_progress r2 else r_mirror r2)
                 then r2\<lparr>r_stderr := Some (fst (w_write s (str_bytes line)))\<rparr>
                 else r2)"

text \<open>\<open>Close\<close>, given how closing the two files ends (latest first).\<close>

definition Close :: "goerr option \<times> goerr option \<Rightarrow> reporter \<Rightarrow> reporter \<times> goerr option" where
  "Close closes r =
     (let err0 = r_lastErr r;
          err1 = (if r_latest r \<noteq> None \<and> err0 = None then fst closes else err0);
          err2 = (if r_f r \<noteq> None \<and> err1 = None then snd closes else err1)
      in (r\<lparr>r_latest := None, r_f := None\<rparr>, err2))"

text \<open>
  \<open>Open\<close>: \<open>lc_create\<close> creates or truncates a file, and gives the writer that it then is. When the mirror cannot be opened the log is closed.
\<close>

record log_options =
  lo_latest :: bool
  lo_stderr :: "writer option"
  lo_mirror :: bool
  lo_progress :: bool

record log_calls =
  lc_mkdir :: "string \<Rightarrow> goerr option"
  lc_create :: "string \<Rightarrow> writer res"

definition OpenLog :: "log_calls \<Rightarrow> string \<Rightarrow> log_options \<Rightarrow> reporter res" where
  "OpenLog K path opts =
     (if path = '''' then Inl (Msg ''empty log path'')
      else case lc_mkdir K (DirPath path) of
        Some e \<Rightarrow> Inl e
      | None \<Rightarrow>
          (case lc_create K path of
             Inl e \<Rightarrow> Inl e
           | Inr f \<Rightarrow>
               let r = \<lparr>r_f = Some f, r_latest = None, r_stderr = lo_stderr opts, r_mirror = lo_mirror opts,
                        r_progress = lo_progress opts, r_path = path, r_lastErr = None\<rparr> in
               if lo_latest opts
               then (case lc_create K (PathJoin [DirPath path, ''latest.log'']) of
                       Inl e \<Rightarrow> Inl e
                     | Inr l \<Rightarrow> Inr (r\<lparr>r_latest := Some l\<rparr>))
               else Inr r))"

definition LogPath :: "reporter option \<Rightarrow> string" where
  "LogPath r = (case r of None \<Rightarrow> '''' | Some x \<Rightarrow> r_path x)"

definition JobStart where
  "JobStart ts sy jobID src dest mode streams =
     Event ts sy ''job_start'' [fStr ''job'' jobID, fStr ''src'' src, fStr ''dest'' dest, fStr ''mode'' mode,
       fInt ''streams'' streams]"

definition ProbeEvent where
  "ProbeEvent ts sy streams compress (frame :: u32) (cdc :: u32) =
     Event ts sy ''probe'' [fInt ''streams'' streams, fStr ''compress'' compress, fInt ''frame'' (uint frame),
       fInt ''cdc'' (uint cdc)]"

definition FileOK where
  "FileOK ts sy path bytes wired reused sent elapsedMs =
     Event ts sy ''file_ok'' [fStr ''path'' path, fInt ''bytes'' bytes, fInt ''wired'' wired,
       fInt ''elapsed_ms'' elapsedMs, fInt ''reused'' reused, fInt ''sent'' sent]"

definition FileSkip where
  "FileSkip ts sy path = Event ts sy ''file_skip'' [fStr ''path'' path]"

definition FileFail where
  "FileFail ts sy path err attempts =
     Event ts sy ''file_fail'' [fStr ''path'' path, fErr err, fInt ''attempts'' attempts]"

definition ProgressEvent where
  "ProgressEvent ts sy filesDone filesTotal copied skipped failed bytes rateBps =
     Event ts sy ''progress'' [fInt ''files_done'' filesDone, fInt ''files_total'' filesTotal, fInt ''copied'' copied,
       fInt ''skipped'' skipped, fInt ''failed'' failed, fInt ''bytes'' bytes, fInt ''rate_bps'' rateBps]"

definition DeleteEvent where
  "DeleteEvent ts sy path = Event ts sy ''delete'' [fStr ''path'' path]"

definition DeleteSummary where
  "DeleteSummary ts sy n = Event ts sy ''delete_done'' [fInt ''deleted'' n]"

definition JobEnd where
  "JobEnd ts sy ok copied skipped failed deleted bytes elapsedMs =
     Event ts sy ''job_end'' [fBool ''ok'' ok, fInt ''copied'' copied, fInt ''skipped'' skipped, fInt ''failed'' failed,
       fInt ''deleted'' deleted, fInt ''bytes'' bytes, fInt ''elapsed_ms'' elapsedMs]"

definition WarnEvent where
  "WarnEvent ts sy msg fs = Event ts sy ''warn'' (fStr ''msg'' msg # fs)"

section \<open>The log path\<close>

definition log_sanitize :: "string \<Rightarrow> string" where
  "log_sanitize s =
     (let b = map (\<lambda>c. if job_char c then c else CHR ''_'') s in if b = [] then ''default'' else b)"

definition DefaultLogPath :: "string \<Rightarrow> string \<Rightarrow> string \<Rightarrow> string \<Rightarrow> string" where
  "DefaultLogPath destScheme destRoot jobID configDir =
     (let safe = log_sanitize (if jobID = '''' then ''default'' else jobID) in
      if destScheme = ''file'' \<and> destRoot \<noteq> ''''
      then PathJoin [destRoot, ''.quiksync'', ''logs'', safe @ ''.log'']
      else PathJoin [if configDir = '''' then ''.'' else configDir, ''logs'', safe @ ''.log''])"

interpretation log_name: safe_name "\<lambda>s. Inr (log_sanitize s)" "''.log''"
proof
  fix s t assume "Inr (log_sanitize s) = (Inr t :: string res)"
  then have t: "t = log_sanitize s" by simp
  have "job_char CHR ''_''" "\<forall>c \<in> set ''default''. job_char c"
    by (simp_all add: job_char_def is_lower_def)
  then have "t \<noteq> []" "\<forall>c \<in> set t. job_char c" unfolding t log_sanitize_def by (auto simp: Let_def)
  then show "is_name (t @ ''.log'')"
    using job_char_not_slash by (auto simp: is_name_def append_eq_Cons_conv)
qed

section \<open>Reading a line back\<close>

text \<open>The escapes, one character at a time.\<close>

definition esc :: "char \<Rightarrow> string" where
  "esc c = (if c = CHR 0x5C then [CHR 0x5C, CHR 0x5C] else if c = CHR 0x22 then [CHR 0x5C, CHR 0x22]
     else if c = CHR 0x0A then [CHR 0x5C, CHR ''n''] else if c = CHR 0x0D then [CHR 0x5C, CHR ''r''] else [c])"

lemma quote_eq:
  "quote v = (if v = '''' then [CHR 0x22, CHR 0x22] else if \<not> needs_quote v then v
     else [CHR 0x22] @ concat (map esc v) @ [CHR 0x22])"
proof -
  have "replace_char CHR 0x0D [CHR 0x5C, CHR ''r''] (replace_char CHR 0x0A [CHR 0x5C, CHR ''n'']
      (replace_char CHR 0x22 [CHR 0x5C, CHR 0x22] (replace_char CHR 0x5C [CHR 0x5C, CHR 0x5C] v))) = concat (map esc v)"
    by (induction v) (auto simp: replace_char_def esc_def)
  then show ?thesis by (simp add: quote_def Let_def)
qed

text \<open>A reader of logfmt: a quoted value up to its closing quote, or a bare one up to white space.\<close>

fun unquote :: "string \<Rightarrow> (string \<times> string) option" where
  "unquote [] = None"
| "unquote (c # s) =
     (if c = CHR 0x22 then Some ([], s)
      else if c = CHR 0x5C then
        (case s of [] \<Rightarrow> None
         | d # s' \<Rightarrow> map_option (\<lambda>(v, r). ((if d = CHR ''n'' then CHR 0x0A else if d = CHR ''r'' then CHR 0x0D else d) # v, r))
                      (unquote s'))
      else map_option (\<lambda>(v, r). (c # v, r)) (unquote s))"

definition bare_end :: "char \<Rightarrow> bool" where
  "bare_end c \<longleftrightarrow> c = CHR '' '' \<or> c = CHR 0x0A"

definition read_value :: "string \<Rightarrow> (string \<times> string) option" where
  "read_value s =
     (if s \<noteq> [] \<and> hd s = CHR 0x22 then unquote (tl s)
      else Some (takeWhile (\<lambda>c. \<not> bare_end c) s, dropWhile (\<lambda>c. \<not> bare_end c) s))"

lemma unquote_esc: "unquote (concat (map esc v) @ CHR 0x22 # s) = Some (v, s)"
  by (induction v) (auto simp: esc_def)

lemma takeWhile_stop:
  "\<forall>c \<in> set v. P c \<Longrightarrow> s \<noteq> [] \<Longrightarrow> \<not> P (hd s) \<Longrightarrow> takeWhile P (v @ s) = v \<and> dropWhile P (v @ s) = s"
  by (induction v) (cases s; auto)+

lemma read_quote:
  assumes "s \<noteq> []" and "bare_end (hd s)"
  shows "read_value (quote v @ s) = Some (v, s)"
proof -
  consider "v = ''''" | "v \<noteq> ''''" "needs_quote v" | "v \<noteq> ''''" "\<not> needs_quote v" by blast
  then show ?thesis
  proof cases
    case 2
    then show ?thesis by (simp add: quote_eq read_value_def unquote_esc)
  next
    case 3
    then have v: "\<forall>c \<in> set v. \<not> bare_end c" "hd v \<noteq> CHR 0x22"
      by (auto simp: needs_quote_def ContainsAny_def bare_end_def)
    from takeWhile_stop [OF v(1) assms(1)] assms(2) v(2) 3 show ?thesis
      by (simp add: quote_eq read_value_def)
  qed (simp add: quote_eq read_value_def)
qed

definition key_ok :: "string \<Rightarrow> bool" where
  "key_ok k \<longleftrightarrow> k \<noteq> '''' \<and> (\<forall>c \<in> set k. c \<noteq> CHR ''='' \<and> c \<noteq> CHR '' '' \<and> c \<noteq> CHR 0x0A)"

fun read_fields :: "nat \<Rightarrow> string \<Rightarrow> log_field list option" where
  "read_fields 0 s = None"
| "read_fields (Suc n) s =
     (if s = [CHR 0x0A] then Some []
      else if s = [] \<or> hd s \<noteq> CHR '' '' then None
      else let k = takeWhile (\<lambda>c. c \<noteq> CHR ''='') (tl s); r = dropWhile (\<lambda>c. c \<noteq> CHR ''='') (tl s) in
        if r = [] then None
        else (case read_value (tl r) of
                None \<Rightarrow> None
              | Some (v, r') \<Rightarrow> map_option (\<lambda>fs. \<lparr>f_key = k, f_value = v\<rparr> # fs) (read_fields n r')))"

lemma format_fields_hd: "\<forall>f \<in> set fs. key_ok (f_key f) \<Longrightarrow> bare_end (hd (format_fields fs @ [CHR 0x0A]))"
  by (cases fs) (auto simp: key_ok_def bare_end_def)

lemma read_format_fields:
  "\<forall>f \<in> set fs. key_ok (f_key f) \<Longrightarrow> length fs < n \<Longrightarrow>
   read_fields n (format_fields fs @ [CHR 0x0A]) = Some fs"
proof (induction fs arbitrary: n)
  case Nil
  then show ?case by (cases n) auto
next
  case (Cons f fs)
  then obtain m where n: "n = Suc m" "length fs < m" by (cases n) auto
  have k: "f_key f \<noteq> ''''" "\<forall>c \<in> set (f_key f). c \<noteq> CHR ''=''" using Cons.prems(1) by (auto simp: key_ok_def)
  let ?rest = "format_fields fs @ [CHR 0x0A]"
  have s: "format_fields (f # fs) @ [CHR 0x0A] = CHR '' '' # f_key f @ CHR ''='' # quote (f_value f) @ ?rest"
    using k by simp
  have tw: "takeWhile (\<lambda>c. c \<noteq> CHR ''='') (f_key f @ CHR ''='' # quote (f_value f) @ ?rest) = f_key f"
    "dropWhile (\<lambda>c. c \<noteq> CHR ''='') (f_key f @ CHR ''='' # quote (f_value f) @ ?rest) = CHR ''='' # quote (f_value f) @ ?rest"
    using takeWhile_stop [OF k(2), of "CHR ''='' # quote (f_value f) @ ?rest"] by auto
  have "read_value (quote (f_value f) @ ?rest) = Some (f_value f, ?rest)"
    using Cons.prems(1) format_fields_hd [of fs] by (intro read_quote) auto
  moreover have "read_fields m ?rest = Some fs" using Cons.prems(1) n(2) by (intro Cons.IH) auto
  ultimately show ?case unfolding n(1) s by (simp add: tw Let_def)
qed

lemma format_fields_no_newline:
  "\<forall>f \<in> set fs. key_ok (f_key f) \<Longrightarrow> CHR 0x0A \<notin> set (format_fields fs)"
proof (induction fs)
  case (Cons f fs)
  have "CHR 0x0A \<notin> set (concat (map esc v))" for v by (induction v) (auto simp: esc_def)
  then have "CHR 0x0A \<notin> set (quote (f_value f))"
    by (auto simp: quote_eq needs_quote_def ContainsAny_def)
  with Cons show ?case by (auto simp: key_ok_def)
qed simp

section \<open>Lemmas on the reporter\<close>

text \<open>The first error recorded stays, and \<open>Close\<close> returns it.\<close>

lemma note_error_lastErr: "r_lastErr (note_error e r) = (case r_lastErr r of Some x \<Rightarrow> Some x | None \<Rightarrow> e)"
  by (auto simp: note_error_def recordError_def split: option.splits)

lemma Event_keeps_error: "r_lastErr r = Some e \<Longrightarrow> r_lastErr (Event ts sy ev fs r) = Some e"
  by (auto simp: Event_def Let_def note_error_lastErr split: option.splits prod.splits)

lemma Event_records_error:
  "r_f r = Some w \<Longrightarrow> snd (write_sync w (formatLine ts ev fs) (fst sy)) = Some e \<Longrightarrow>
   r_lastErr (Event ts sy ev fs r) \<noteq> None"
  by (auto simp: Event_def Let_def note_error_lastErr split: option.splits prod.splits)

lemma Close_returns_error: "r_lastErr r = Some e \<Longrightarrow> snd (Close cl r) = Some e"
  by (simp add: Close_def Let_def)

text \<open>A log that is opened and whose file takes what it is given holds the lines of its events in their order, and nothing else.\<close>

lemma OpenLog_cases:
  assumes "OpenLog K path opts = Inr r"
  shows "path \<noteq> '''' \<and> lc_mkdir K (DirPath path) = None \<and> r_path r = path \<and> r_lastErr r = None \<and>
    (\<exists>f. lc_create K path = Inr f \<and> r_f r = Some f) \<and> (r_latest r \<noteq> None \<longleftrightarrow> lo_latest opts)"
  using assms by (auto simp: OpenLog_def Let_def split: if_splits option.splits sum.splits)

lemma Event_appends:
  assumes "r_f r = Some w" and "w_script w = []"
  shows "r_f (Event ts sy ev fs r) = Some (w\<lparr>w_out := w_out w @ str_bytes (formatLine ts ev fs)\<rparr>)"
proof -
  have n: "r_f (note_error e q) = r_f q" for e q by (simp add: note_error_def recordError_def split: option.splits)
  show ?thesis
    using assms by (auto simp: Event_def Let_def write_sync_def w_write_healthy n split: option.splits prod.splits)
qed

definition log_events :: "(string \<times> (goerr option \<times> goerr option) \<times> string \<times> log_field list) list \<Rightarrow> reporter \<Rightarrow> reporter" where
  "log_events evs = fold (\<lambda>(ts, sy, ev, fs). Event ts sy ev fs) evs"

lemma log_events_lines:
  "r_f r = Some w \<Longrightarrow> w_script w = [] \<Longrightarrow>
    r_f (log_events evs r) = Some (w\<lparr>w_out := w_out w @ str_bytes (concat (map (\<lambda>(ts, sy, ev, fs). formatLine ts ev fs) evs))\<rparr>)"
proof (induction evs arbitrary: r w)
  case (Cons x evs)
  obtain ts sy ev fs where x: "x = (ts, sy, ev, fs)" by (cases x)
  from Cons.IH [OF Event_appends [OF Cons.prems, of ts sy ev fs]] Cons.prems(2) show ?case
    by (simp add: x log_events_def str_bytes_def)
qed (simp add: log_events_def str_bytes_def)

lemma OpenLog_lines:
  assumes "OpenLog K path opts = Inr r" and "lc_create K path = Inr \<lparr>w_out = [], w_script = []\<rparr>"
  shows "map_option w_out (r_f (log_events evs r)) = Some (str_bytes (concat (map (\<lambda>(ts, sy, ev, fs). formatLine ts ev fs) evs)))"
proof -
  from OpenLog_cases [OF assms(1)] assms(2) have "r_f r = Some \<lparr>w_out = [], w_script = []\<rparr>" by auto
  from log_events_lines [OF this] show ?thesis by simp
qed

section \<open>Properties\<close>

text \<open>
  A log event is one line, whatever its values contain (spaces, quotes, backslashes, line breaks): no
  value can end the line or forge a further field, and a logfmt reader recovers every field exactly.
\<close>
theorem log_line_roundtrip:
  assumes "\<forall>f \<in> set fs. key_ok (f_key f)" and "CHR 0x0A \<notin> set ts" and "CHR 0x0A \<notin> set event"
  shows "\<exists>body. formatLine ts event fs = body @ [CHR 0x0A] \<and> CHR 0x0A \<notin> set body
    \<and> read_fields (length fs + 1) (drop (length (ts @ '' event='' @ event)) (formatLine ts event fs)) = Some fs"
proof -
  define pre where "pre = ts @ '' event='' @ event"
  have line: "formatLine ts event fs = pre @ format_fields fs @ [CHR 0x0A]"
    by (simp add: formatLine_def pre_def)
  have "CHR 0x0A \<notin> set (pre @ format_fields fs)"
    using assms format_fields_no_newline by (simp add: pre_def)
  moreover have "drop (length pre) (formatLine ts event fs) = format_fields fs @ [CHR 0x0A]"
    unfolding line by simp
  moreover have "read_fields (length fs + 1) (format_fields fs @ [CHR 0x0A]) = Some fs"
    by (rule read_format_fields [OF assms(1)]) simp
  ultimately show ?thesis
    unfolding pre_def [symmetric] by (intro exI [of _ "pre @ format_fields fs"]) (simp only: line append.assoc simp_thms)
qed

theorem log_line_roundtrip_witness:
  "\<exists>body. formatLine ''T'' ''file_fail'' [fStr ''path'' [CHR ''a'', CHR '' '', CHR 0x22, CHR 0x0A], fInt ''attempts'' 3]
     = body @ [CHR 0x0A] \<and> CHR 0x0A \<notin> set body"
  using log_line_roundtrip [of "[fStr ''path'' [CHR ''a'', CHR '' '', CHR 0x22, CHR 0x0A], fInt ''attempts'' 3]"
      "''T''" "''file_fail''"]
  by (auto simp: fStr_def fInt_def key_ok_def)

end
