(* ===== verification/FsMeta.thy ===== *)
theory FsMeta
  imports GoPath
begin

text \<open>
  Listing a directory tree (\<open>internal/fsmeta/walk.go\<close>): the exclude globs, the walk with its skips and
  error exits, and the change-detection helpers. The tree on disk is a value; what \<open>WalkDir\<close> and
  \<open>filepath.Match\<close> do with it is written out.
\<close>

section \<open>Globs\<close>

text \<open>
  \<open>filepath.Match\<close>. \<open>DecodeRune\<close> is \<open>utf8.DecodeRuneInString\<close>: the first rune of a string and its length in bytes; a byte that begins no
  rune is \<open>RuneError\<close> of length 1.
\<close>

definition RuneError :: nat where "RuneError = 0xFFFD"

definition rune_tail :: "nat \<Rightarrow> nat \<Rightarrow> nat \<Rightarrow> string \<Rightarrow> bool" where
  "rune_tail k lo hi s \<longleftrightarrow> k \<le> length s \<and> lo \<le> of_char (s ! 0) \<and> of_char (s ! 0) \<le> hi \<and>
     list_all (\<lambda>c. 0x80 \<le> (of_char c :: nat) \<and> of_char c \<le> (0xBF :: nat)) (take (k - 1) (tl s))"

definition rune_value :: "nat \<Rightarrow> string \<Rightarrow> nat" where
  "rune_value x s = foldl (\<lambda>r c. r * 64 + of_char c mod 64) x s"

definition DecodeRune :: "string \<Rightarrow> nat \<times> nat" where
  "DecodeRune s =
     (case s of
        [] \<Rightarrow> (RuneError, 0)
      | c # r \<Rightarrow>
          let b = of_char c :: nat in
          if b < 0x80 then (b, 1)
          else if 0xC2 \<le> b \<and> b \<le> 0xDF \<and> rune_tail 1 0x80 0xBF r then (rune_value (b mod 32) (take 1 r), 2)
          else if 0xE0 \<le> b \<and> b \<le> 0xEF \<and> rune_tail 2 (if b = 0xE0 then 0xA0 else 0x80) (if b = 0xED then 0x9F else 0xBF) r
          then (rune_value (b mod 16) (take 2 r), 3)
          else if 0xF0 \<le> b \<and> b \<le> 0xF4 \<and> rune_tail 3 (if b = 0xF0 then 0x90 else 0x80) (if b = 0xF4 then 0x8F else 0xBF) r
          then (rune_value (b mod 8) (take 3 r), 4)
          else (RuneError, 1))"

lemma DecodeRune_length: "s \<noteq> [] \<Longrightarrow> 1 \<le> snd (DecodeRune s)"
  by (cases s) (auto simp: DecodeRune_def Let_def)

text \<open>\<open>getEsc\<close>: one character of a bracket class, which must not be the last of the pattern.\<close>

definition getEsc :: "string \<Rightarrow> (nat \<times> string) option" where
  "getEsc s =
     (if s = [] \<or> hd s = CHR ''-'' \<or> hd s = CHR '']'' then None
      else let s1 = (if hd s = CHR 0x5C then tl s else s) in
        if s1 = [] then None
        else case DecodeRune s1 of
          (r, n) \<Rightarrow> if r = RuneError \<and> n = 1 \<or> drop n s1 = [] then None else Some (r, drop n s1))"

lemma getEsc_length:
  assumes "getEsc s = Some (c, s')"
  shows "length s' < length s"
proof -
  define s1 where "s1 = (if hd s = CHR 0x5C then tl s else s)"
  have "s1 \<noteq> []" "s' = drop (snd (DecodeRune s1)) s1"
    using assms unfolding getEsc_def s1_def [symmetric] by (auto simp: Let_def split: if_splits prod.splits)
  moreover have "length s1 \<le> length s" by (simp add: s1_def)
  ultimately show ?thesis using DecodeRune_length [of s1] by (cases s1) auto
qed

text \<open>The ranges of a bracket class after the optional \<open>^\<close>, and the pattern after its \<open>]\<close>.\<close>

function class_items :: "bool \<Rightarrow> string \<Rightarrow> ((nat \<times> nat) list \<times> string) option" where
  "class_items some s =
     (if s \<noteq> [] \<and> hd s = CHR '']'' \<and> some then Some ([], tl s)
      else case getEsc s of
        None \<Rightarrow> None
      | Some (lo, s1) \<Rightarrow>
          if hd s1 = CHR ''-''
          then (case getEsc (tl s1) of
                  None \<Rightarrow> None
                | Some (hi, s2) \<Rightarrow> map_option (\<lambda>(its, r). ((lo, hi) # its, r)) (class_items True s2))
          else map_option (\<lambda>(its, r). ((lo, lo) # its, r)) (class_items True s1))"
  by pat_completeness auto
termination
proof (relation "measure (\<lambda>(b, s). length s)", goal_cases)
  case (2 some s x lo s1 y hi s2)
  have "length s1 < length s" "length s2 < length (tl s1)"
    using 2 getEsc_length [of s lo s1] getEsc_length [of "tl s1" hi s2] by auto
  then show ?case by simp
next
  case (3 some s x lo s1)
  then show ?case by (auto dest: getEsc_length)
qed simp

declare class_items.simps [simp del]

lemma class_items_length: "class_items b s = Some (its, r) \<Longrightarrow> length r < length s"
proof (induction b s arbitrary: its r rule: class_items.induct)
  case (1 b s)
  show ?case
  proof (cases "s \<noteq> [] \<and> hd s = CHR '']'' \<and> b")
    case True
    with "1.prems" show ?thesis by (subst (asm) class_items.simps) (cases s; auto)
  next
    case False
    with "1.prems" obtain lo s1 where s1: "getEsc s = Some (lo, s1)"
      by (auto simp: class_items.simps [of b s] split: option.splits)
    note l1 = getEsc_length [OF s1]
    show ?thesis
    proof (cases "hd s1 = CHR ''-''")
      case True
      with "1.prems" False s1 obtain hi s2 where s2: "getEsc (tl s1) = Some (hi, s2)"
        by (auto simp: class_items.simps [of b s] split: option.splits)
      with "1.prems" False s1 True obtain its' where r: "class_items True s2 = Some (its', r)"
        by (auto simp: class_items.simps [of b s])
      have "length s2 < length (tl s1)" by (rule getEsc_length [OF s2])
      moreover have "length r < length s2" using "1.IH"(1) [OF False s1 refl True s2 refl r] .
      ultimately show ?thesis using l1 by (cases s1) auto
    next
      case no: False
      with "1.prems" False s1 obtain its' where r: "class_items True s1 = Some (its', r)"
        by (auto simp: class_items.simps [of b s])
      have "length r < length s1" using "1.IH"(2) [OF False s1 refl no r] .
      then show ?thesis using l1 by simp
    qed
  qed
qed

definition in_class :: "(nat \<times> nat) list \<Rightarrow> nat \<Rightarrow> bool" where
  "in_class its c \<longleftrightarrow> list_ex (\<lambda>(lo, hi). lo \<le> c \<and> c \<le> hi) its"

text \<open>\<open>matchChunk\<close>: what is left of the name after the chunk. A malformed chunk matches nothing.\<close>

function matchChunk :: "string \<Rightarrow> string \<Rightarrow> string option" where
  "matchChunk [] n = Some n"
| "matchChunk (c # p) n =
     (if n = [] then None
      else if c = CHR ''['' then
        (let neg = (p \<noteq> [] \<and> hd p = CHR ''^''); (r, k) = DecodeRune n in
         case class_items False (if neg then tl p else p) of
           None \<Rightarrow> None
         | Some (its, p') \<Rightarrow> if in_class its r = neg then None else matchChunk p' (drop k n))
      else if c = CHR ''?'' then (if hd n = CHR ''/'' then None else matchChunk p (drop (snd (DecodeRune n)) n))
      else if c = CHR 0x5C then (if p = [] \<or> hd n \<noteq> hd p then None else matchChunk (tl p) (tl n))
      else if hd n \<noteq> c then None else matchChunk p (tl n))"
  by pat_completeness auto
termination
proof (relation "measure (\<lambda>(p, n). length p)", goal_cases)
  case (2 c p n neg x r k y its p')
  then have "class_items False (if neg then tl p else p) = Some (its, p')" by simp
  then have "length p' < length (if neg then tl p else p)" by (rule class_items_length)
  also have "\<dots> \<le> length p" by simp
  finally show ?case by simp
qed auto

declare matchChunk.simps(2) [simp del]

text \<open>\<open>scanChunk\<close>: the pattern up to the next star outside a class, and from there.\<close>

fun scan_on :: "bool \<Rightarrow> string \<Rightarrow> string \<times> string" where
  "scan_on inrange [] = ([], [])"
| "scan_on inrange (c # s) =
     (if c = CHR 0x5C \<and> s \<noteq> [] then (case scan_on inrange (tl s) of (a, b) \<Rightarrow> (c # hd s # a, b))
      else if c = CHR ''*'' \<and> \<not> inrange then ([], c # s)
      else case scan_on (if c = CHR ''['' then True else if c = CHR '']'' then False else inrange) s of (a, b) \<Rightarrow> (c # a, b))"

definition scanChunk :: "string \<Rightarrow> bool \<times> string \<times> string" where
  "scanChunk p = (p \<noteq> [] \<and> hd p = CHR ''*'', scan_on False (dropWhile (\<lambda>c. c = CHR ''*'') p))"

declare scan_on.simps(2) [simp del]

lemma scan_on_length: "length (snd (scan_on i s)) \<le> length s"
proof (induction i s rule: scan_on.induct)
  case (2 i c s)
  consider "c = CHR 0x5C \<and> s \<noteq> []" | "\<not> (c = CHR 0x5C \<and> s \<noteq> [])" "c = CHR ''*'' \<and> \<not> i"
    | "\<not> (c = CHR 0x5C \<and> s \<noteq> [])" "\<not> (c = CHR ''*'' \<and> \<not> i)" by blast
  then show ?case
  proof cases
    case 1
    then show ?thesis using "2.IH"(1) by (simp add: scan_on.simps(2) case_prod_beta)
  next
    case 2
    show ?thesis unfolding scan_on.simps(2) if_not_P [OF 2(1)] if_P [OF 2(2)] by simp
  next
    case 3
    then show ?thesis using "2.IH"(2) by (simp only: scan_on.simps(2) if_False case_prod_beta snd_conv) simp
  qed
qed simp

lemma scan_on_shorter: "s \<noteq> [] \<Longrightarrow> hd s \<noteq> CHR ''*'' \<Longrightarrow> length (snd (scan_on i s)) < length s"
proof (cases s)
  case (Cons c r)
  assume h: "hd s \<noteq> CHR ''*''"
  show ?thesis
  proof (cases "c = CHR 0x5C \<and> r \<noteq> []")
    case True
    then show ?thesis using Cons scan_on_length [of i "tl r"] by (simp add: scan_on.simps(2) case_prod_beta)
  next
    case False
    then have "snd (scan_on i s) = snd (scan_on (if c = CHR ''['' then True else if c = CHR '']'' then False else i) r)"
      using Cons h by (simp only: scan_on.simps(2) if_False case_prod_beta snd_conv list.sel simp_thms)
    then show ?thesis using Cons scan_on_length [of _ r] by (simp add: le_imp_less_Suc)
  qed
qed simp

lemma scanChunk_shorter:
  assumes "scanChunk p = (star, chunk, p')" and "p \<noteq> []"
  shows "length p' < length p"
proof -
  let ?r = "dropWhile (\<lambda>c. c = CHR ''*'') p"
  have p': "p' = snd (scan_on False ?r)" using assms(1) by (auto simp: scanChunk_def)
  show ?thesis
  proof (cases "hd p = CHR ''*''")
    case True
    then have "length ?r < length p" using assms(2) length_dropWhile_le [of "\<lambda>c. c = CHR ''*''" "tl p"]
      by (cases p) auto
    then show ?thesis using scan_on_length [of False ?r] by (simp add: p')
  next
    case False
    then have "?r = p" using assms(2) by (cases p) auto
    then show ?thesis using scan_on_shorter [OF assms(2) False] by (simp add: p')
  qed
qed

text \<open>A star skips bytes up to a slash; the last chunk must end the name.\<close>

fun skip_match :: "string \<Rightarrow> bool \<Rightarrow> string \<Rightarrow> string option" where
  "skip_match chunk final [] = None"
| "skip_match chunk final (c # n) =
     (if c = CHR ''/'' then None
      else case matchChunk chunk n of
        Some t \<Rightarrow> if final \<and> t \<noteq> [] then skip_match chunk final n else Some t
      | None \<Rightarrow> skip_match chunk final n)"

function glob_match :: "string \<Rightarrow> string \<Rightarrow> bool" where
  "glob_match p n =
     (if p = [] then n = []
      else case scanChunk p of
        (star, chunk, p') \<Rightarrow>
          if star \<and> chunk = [] then CHR ''/'' \<notin> set n
          else (case (case matchChunk chunk n of
                        Some t \<Rightarrow> if t = [] \<or> p' \<noteq> [] then Some t else if star then skip_match chunk (p' = []) n else None
                      | None \<Rightarrow> if star then skip_match chunk (p' = []) n else None) of
                  Some t \<Rightarrow> glob_match p' t
                | None \<Rightarrow> False))"
  by pat_completeness auto
termination
  by (relation "measure (\<lambda>(p, n). length p)") (auto dest: scanChunk_shorter [OF sym])

declare glob_match.simps [simp del]

text \<open>A pattern without special characters matches itself only; a star matches every name without a slash.\<close>

definition glob_plain :: "string \<Rightarrow> bool" where
  "glob_plain p \<longleftrightarrow> list_all (\<lambda>c. c \<notin> set [CHR ''*'', CHR ''?'', CHR ''['', CHR 0x5C]) p"

lemma glob_literal:
  assumes "glob_plain p"
  shows "glob_match p n \<longleftrightarrow> p = n"
proof -
  have s: "scan_on False q = (q, [])" if "glob_plain q" for q
    using that by (induction q) (auto simp: glob_plain_def scan_on.simps(2))
  have m: "matchChunk q n = (if take (length q) n = q then Some (drop (length q) n) else None)" if "glob_plain q" for q n
    using that
  proof (induction q arbitrary: n)
    case (Cons c q)
    then show ?case by (cases n) (auto simp: glob_plain_def matchChunk.simps)
  qed simp
  have "scanChunk p = (False, p, [])" using s [OF assms] assms by (cases p) (auto simp: scanChunk_def glob_plain_def)
  then show ?thesis using m [OF assms, of n]
    by (cases "p = []") (auto simp: glob_match.simps [of p] glob_match.simps [of "[]"] take_all_iff)
qed

lemma glob_star: "glob_match ''*'' n \<longleftrightarrow> CHR ''/'' \<notin> set n"
  by (simp add: glob_match.simps [of "''*''"] scanChunk_def scan_on.simps)

definition to_slash :: "string \<Rightarrow> string" where
  "to_slash s = replace_char CHR 0x5C ''/'' s"

fun matchExclude :: "string \<Rightarrow> string list \<Rightarrow> bool" where
  "matchExclude rel [] = False"
| "matchExclude rel (p0 # ps) =
     (let r = to_slash rel; p = to_slash p0 in
      if glob_match p r then True
      else if glob_match p (BasePath r) then True
      else if HasSuffix p ''/*'' \<and> (let pre = TrimSuffix p ''/*'' in r = pre \<or> HasPrefix r (pre @ ''/'')) then True
      else matchExclude rel ps)"

definition MatchExclude :: "string \<Rightarrow> string list \<Rightarrow> bool" where
  "MatchExclude rel patterns = matchExclude rel patterns"

section \<open>The walk\<close>

datatype fkind = KRegular | KDir | KSymlink | KOther

record stat =
  st_size :: int
  st_mod :: int
  st_mode :: u32

text \<open>
  A directory entry: its kind, what \<open>Info\<close> returns, the error of reading it as a directory, if any, and
  its children in \<open>ReadDir\<close>'s order.
\<close>

datatype tree = Tree fkind "stat res" "goerr option" "(string \<times> tree) list"

record file_info =
  fi_rel :: string
  fi_abs :: string
  fi_size :: int
  fi_mod :: int
  fi_mode :: u32
  fi_dir :: bool
  fi_link :: bool

definition internal_name :: "string \<Rightarrow> bool" where
  "internal_name p \<longleftrightarrow> p = ''.quiksync'' \<or> p = ''.quiksync.tmp''"

datatype visit = Skip | Stop goerr | Emit file_info | Pass

text \<open>The callback for an entry other than the root; \<open>Skip\<close> leaves out a directory's children as well.\<close>

definition walk_fn :: "string \<Rightarrow> string list \<Rightarrow> string list \<Rightarrow> fkind \<Rightarrow> stat res \<Rightarrow> visit" where
  "walk_fn root exclude comps k info =
     (let rel = join_with ''/'' comps in
      if (\<exists>p \<in> set comps. internal_name p) then Skip
      else if matchExclude rel exclude then Skip
      else case info of
        Inl e \<Rightarrow> Stop e
      | Inr st \<Rightarrow>
          if k \<noteq> KDir \<and> k \<noteq> KSymlink \<and> k \<noteq> KRegular then Pass
          else Emit \<lparr>fi_rel = rel, fi_abs = PathJoin [root, rel], fi_size = st_size st, fi_mod = st_mod st,
                 fi_mode = st_mode st, fi_dir = (k = KDir), fi_link = (k = KSymlink)\<rparr>)"

fun walk_node :: "string \<Rightarrow> string list \<Rightarrow> string list \<Rightarrow> tree \<Rightarrow> file_info list \<times> goerr option"
and walk_list :: "string \<Rightarrow> string list \<Rightarrow> string list \<Rightarrow> (string \<times> tree) list \<Rightarrow> file_info list \<times> goerr option" where
  "walk_node root exclude comps (Tree k info derr children) =
     (let v = (if comps = [] then Pass else walk_fn root exclude comps k info) in
      case v of
        Stop e \<Rightarrow> ([], Some e)
      | Skip \<Rightarrow> ([], None)
      | _ \<Rightarrow>
          let here = (case v of Emit fi \<Rightarrow> [fi] | _ \<Rightarrow> []) in
          if k \<noteq> KDir then (here, None)
          else (case derr of
                  Some e \<Rightarrow> (here, Some e)
                | None \<Rightarrow> (case walk_list root exclude comps children of (fs, e) \<Rightarrow> (here @ fs, e))))"
| "walk_list root exclude comps [] = ([], None)"
| "walk_list root exclude comps ((n, t) # ts) =
     (case walk_node root exclude (comps @ [n]) t of
        (fs, Some e) \<Rightarrow> (fs, Some e)
      | (fs, None) \<Rightarrow> (case walk_list root exclude comps ts of (gs, e) \<Rightarrow> (fs @ gs, e)))"

text \<open>\<open>Walk\<close>: a root that cannot be read is reported through the callback as well.\<close>

definition Walk :: "string \<Rightarrow> string list \<Rightarrow> tree res \<Rightarrow> file_info list \<times> goerr option" where
  "Walk root exclude t =
     (case t of Inl e \<Rightarrow> ([], Some e) | Inr tr \<Rightarrow> walk_node (Clean root) exclude [] tr)"

section \<open>Change detection\<close>

record generation =
  g_size :: int
  g_mod :: int

definition GenOf :: "file_info \<Rightarrow> generation" where
  "GenOf fi = \<lparr>g_size = fi_size fi, g_mod = fi_mod fi\<rparr>"

definition StatGeneration :: "stat res \<Rightarrow> generation res" where
  "StatGeneration r = (case r of Inl e \<Rightarrow> Inl e | Inr st \<Rightarrow> Inr \<lparr>g_size = st_size st, g_mod = st_mod st\<rparr>)"

definition UnchangedFor :: "int \<Rightarrow> file_info \<Rightarrow> int \<Rightarrow> bool" where
  "UnchangedFor now fi window = (window \<le> 0 \<or> now - fi_mod fi \<ge> window)"

section \<open>Lemmas\<close>

text \<open>\<open>at_path t comps s\<close>: \<open>s\<close> is the entry of \<open>t\<close> reached through directories along \<open>comps\<close>.\<close>

inductive at_path :: "tree \<Rightarrow> string list \<Rightarrow> tree \<Rightarrow> bool" where
  here: "at_path t [] t"
| down: "(n, c) \<in> set children \<Longrightarrow> at_path c ps s \<Longrightarrow> at_path (Tree KDir info derr children) (n # ps) s"

inductive_simps at_path_Nil: "at_path t [] s"
inductive_simps at_path_Cons: "at_path (Tree k info derr children) (n # ps) s"

definition passes :: "string list \<Rightarrow> string list \<Rightarrow> bool" where
  "passes exclude comps \<longleftrightarrow> (\<forall>p \<in> set comps. \<not> internal_name p) \<and> \<not> matchExclude (join_with ''/'' comps) exclude"

text \<open>No step of the path below \<open>pre\<close> is internal or excluded.\<close>

fun visible :: "string list \<Rightarrow> string list \<Rightarrow> string list \<Rightarrow> bool" where
  "visible exclude pre [] \<longleftrightarrow> pre = [] \<or> passes exclude pre"
| "visible exclude pre (n # ps) \<longleftrightarrow> (pre = [] \<or> passes exclude pre) \<and> visible exclude (pre @ [n]) ps"

definition info_of :: "string \<Rightarrow> string list \<Rightarrow> fkind \<Rightarrow> stat \<Rightarrow> file_info" where
  "info_of root comps k st =
     \<lparr>fi_rel = join_with ''/'' comps, fi_abs = PathJoin [root, join_with ''/'' comps], fi_size = st_size st,
      fi_mod = st_mod st, fi_mode = st_mode st, fi_dir = (k = KDir), fi_link = (k = KSymlink)\<rparr>"

definition wanted :: "string \<Rightarrow> string list \<Rightarrow> string list \<Rightarrow> tree \<Rightarrow> file_info \<Rightarrow> bool" where
  "wanted root exclude pre t fi \<longleftrightarrow>
     (\<exists>comps k st derr ch. at_path t comps (Tree k (Inr st) derr ch) \<and> pre @ comps \<noteq> [] \<and> k \<noteq> KOther \<and>
        visible exclude pre comps \<and> fi = info_of root (pre @ comps) k st)"

lemma walk_fn_eq:
  "walk_fn root exclude comps k info =
     (if \<not> passes exclude comps then Skip
      else case info of Inl e \<Rightarrow> Stop e
      | Inr st \<Rightarrow> if k = KOther then Pass else Emit (info_of root comps k st))"
  by (cases k) (auto simp: walk_fn_def passes_def info_of_def Let_def split: sum.split)

lemma wanted_node:
  "wanted root exclude pre (Tree k info derr ch) fi \<longleftrightarrow>
     (pre = [] \<or> passes exclude pre) \<and>
     ((pre \<noteq> [] \<and> k \<noteq> KOther \<and> (case info of Inl e \<Rightarrow> False | Inr st \<Rightarrow> fi = info_of root pre k st)) \<or>
      (k = KDir \<and> (\<exists>(n, t) \<in> set ch. wanted root exclude (pre @ [n]) t fi)))"
  (is "?l \<longleftrightarrow> ?r")
proof
  assume ?l
  then obtain comps k' st d c where w: "at_path (Tree k info derr ch) comps (Tree k' (Inr st) d c)"
    "pre @ comps \<noteq> []" "k' \<noteq> KOther" "visible exclude pre comps" "fi = info_of root (pre @ comps) k' st"
    unfolding wanted_def by blast
  show ?r
  proof (cases comps)
    case Nil
    with w show ?thesis by (auto simp: at_path_Nil)
  next
    case (Cons n ps)
    with w(1) obtain t where t: "k = KDir" "(n, t) \<in> set ch" "at_path t ps (Tree k' (Inr st) d c)"
      by (auto simp: at_path_Cons)
    with w Cons have "wanted root exclude (pre @ [n]) t fi"
      unfolding wanted_def by (intro exI [of _ ps] exI [of _ k'] exI [of _ st] exI [of _ d] exI [of _ c]) simp
    with t w(4) Cons show ?thesis by auto
  qed
next
  assume r: ?r
  then consider st where "pre \<noteq> []" "k \<noteq> KOther" "info = Inr st" "fi = info_of root pre k st" "passes exclude pre"
    | n t where "k = KDir" "(n, t) \<in> set ch" "wanted root exclude (pre @ [n]) t fi" "pre = [] \<or> passes exclude pre"
    by (cases info) auto
  then show ?l
  proof cases
    case 1
    then show ?thesis
      unfolding wanted_def by (intro exI [of _ "[]"] exI [of _ k] exI [of _ st]) (auto simp: at_path_Nil)
  next
    case 2
    then obtain ps k' st d c where w: "at_path t ps (Tree k' (Inr st) d c)" "k' \<noteq> KOther"
      "visible exclude (pre @ [n]) ps" "fi = info_of root ((pre @ [n]) @ ps) k' st"
      unfolding wanted_def by blast
    with 2 show ?thesis
      unfolding wanted_def
      by (intro exI [of _ "n # ps"] exI [of _ k'] exI [of _ st] exI [of _ d] exI [of _ c]) (auto simp: at_path_Cons)
  qed
qed

lemma set_opt:
  "x \<in> set (if P then (case info of Inr st \<Rightarrow> [f st] | Inl e \<Rightarrow> []) else []) \<longleftrightarrow>
     P \<and> (case info of Inl e \<Rightarrow> False | Inr st \<Rightarrow> x = f st)"
  by (cases info; cases P) simp_all

lemma walk_node_correct:
  "walk_node root exclude comps t = (out, None) \<Longrightarrow> fi \<in> set out \<longleftrightarrow> wanted root exclude comps t fi"
  "walk_list root exclude comps ts = (out, None) \<Longrightarrow>
     fi \<in> set out \<longleftrightarrow> (\<exists>(n, t) \<in> set ts. wanted root exclude (comps @ [n]) t fi)"
proof (induction root exclude comps t and root exclude comps ts arbitrary: out and out
    rule: walk_node_walk_list.induct)
  case (1 root exclude comps k info derr children)
  show ?case
  proof (cases "comps \<noteq> [] \<and> \<not> passes exclude comps")
    case True
    with "1.prems" show ?thesis by (simp add: walk_fn_eq wanted_node)
  next
    case False
    then have ok: "comps = [] \<or> passes exclude comps" by blast
    define here where "here = (if comps \<noteq> [] \<and> k \<noteq> KOther then (case info of Inr st \<Rightarrow> [info_of root comps k st] | Inl _ \<Rightarrow> []) else [])"
    have no: "comps = [] \<or> (\<exists>st. info = Inr st)"
    proof (rule ccontr)
      assume "\<not> ?thesis"
      with "1.prems" ok show False by (cases info) (auto simp: walk_fn_eq Let_def)
    qed
    have unf: "walk_node root exclude comps (Tree k info derr children) =
        (if k \<noteq> KDir then (here, None)
         else (case derr of Some e \<Rightarrow> (here, Some e)
               | None \<Rightarrow> (case walk_list root exclude comps children of (fs, e) \<Rightarrow> (here @ fs, e))))"
      using no ok by (auto simp: walk_fn_eq here_def Let_def split: sum.splits option.split prod.split)
    have h: "fi \<in> set here \<longleftrightarrow>
        comps \<noteq> [] \<and> k \<noteq> KOther \<and> (case info of Inl e \<Rightarrow> False | Inr st \<Rightarrow> fi = info_of root comps k st)"
      unfolding here_def set_opt by (rule conj_assoc)
    show ?thesis
    proof (cases "k = KDir")
      case False
      with "1.prems" have "out = here" unfolding unf by simp
      with False ok show ?thesis by (simp only: wanted_node h) blast
    next
      case True
      with "1.prems" obtain fs where fs: "derr = None" "walk_list root exclude comps children = (fs, None)" "out = here @ fs"
        unfolding unf by (auto split: option.splits prod.splits)
      have "fi \<in> set fs \<longleftrightarrow> (\<exists>(n, t) \<in> set children. wanted root exclude (comps @ [n]) t fi)"
      proof (cases "comps = []")
        case c: True
        show ?thesis using "1.IH"(2) [OF refl _ refl _ fs(1,2)] True c by simp
      next
        case c: False
        with ok no obtain st where st: "info = Inr st" "passes exclude comps" by blast
        have "k \<noteq> KOther" using True by simp
        with st c have "(if comps = [] then Pass else walk_fn root exclude comps k info) = Emit (info_of root comps k st)"
          by (simp add: walk_fn_eq)
        then show ?thesis using "1.IH"(1) [OF refl _ refl _ fs(1,2)] True by blast
      qed
      then show ?thesis using True fs(3) by (auto simp: wanted_node ok h)
    qed
  qed
next
  case (3 root exclude comps n t ts)
  from "3.prems" obtain fs gs where r: "walk_node root exclude (comps @ [n]) t = (fs, None)"
    "walk_list root exclude comps ts = (gs, None)" "out = fs @ gs"
    by (auto split: prod.splits option.splits)
  from "3.IH"(1) [OF r(1)] "3.IH"(2) [OF r(1) [symmetric] refl r(2)] r(3) show ?case by auto
qed simp

section \<open>Properties\<close>

text \<open>
  C12. A walk that ends without an error lists exactly the regular files, directories and symbolic links
  below the root that are reached without passing an internal directory or an excluded path, each with
  its own metadata; nothing inside an excluded directory is listed.
\<close>
theorem Walk_lists_exactly:
  assumes "Walk root exclude (Inr t) = (out, None)"
  shows "fi \<in> set out \<longleftrightarrow>
    (\<exists>comps k st derr ch. comps \<noteq> [] \<and> at_path t comps (Tree k (Inr st) derr ch) \<and> k \<noteq> KOther
      \<and> (\<forall>i. 0 < i \<and> i \<le> length comps \<longrightarrow> passes exclude (take i comps))
      \<and> fi = info_of (Clean root) comps k st)"
proof -
  have le_Suc: "(\<forall>i \<le> Suc n. P i) \<longleftrightarrow> P 0 \<and> (\<forall>i \<le> n. P (Suc i))" for P n
    by (metis Suc_le_mono le0 not0_implies_Suc)
  have vis: "visible exclude pre ps \<longleftrightarrow> (\<forall>i \<le> length ps. pre @ take i ps = [] \<or> passes exclude (pre @ take i ps))" for pre ps
  proof (induction ps arbitrary: pre)
    case (Cons n ps)
    have "(\<forall>i \<le> length (n # ps). pre @ take i (n # ps) = [] \<or> passes exclude (pre @ take i (n # ps))) \<longleftrightarrow>
        (pre = [] \<or> passes exclude pre) \<and>
        (\<forall>i \<le> length ps. (pre @ [n]) @ take i ps = [] \<or> passes exclude ((pre @ [n]) @ take i ps))"
      by (simp add: le_Suc)
    then show ?case using Cons.IH [of "pre @ [n]"] by simp
  qed simp
  have vis2: "visible exclude [] comps \<longleftrightarrow> (\<forall>i. 0 < i \<and> i \<le> length comps \<longrightarrow> passes exclude (take i comps))" for comps
  proof -
    have "i \<le> length comps \<Longrightarrow> take i comps = [] \<longleftrightarrow> i = 0" for i by (cases i; cases comps) auto
    then show ?thesis unfolding vis by auto
  qed
  have w: "fi \<in> set out \<longleftrightarrow> wanted (Clean root) exclude [] t fi"
    by (rule walk_node_correct(1)) (use assms in \<open>simp add: Walk_def\<close>)
  show ?thesis unfolding w wanted_def vis2 by (simp only: append_Nil) blast
qed

text \<open>A tree with a file \<open>a\<close>, an excluded \<open>b.o\<close> and a directory \<open>d\<close> with staging and a file \<open>f\<close>.\<close>

definition demo_tree :: tree where
  "demo_tree = (let st = \<lparr>st_size = 1, st_mod = 2, st_mode = 420\<rparr> in
     Tree KDir (Inr st) None
       [(''a'', Tree KRegular (Inr st) None []), (''b.o'', Tree KRegular (Inr st) None []),
        (''d'', Tree KDir (Inr st) None
           [(''.quiksync.tmp'', Tree KDir (Inr st) None [(''x'', Tree KRegular (Inr st) None [])]),
            (''f'', Tree KRegular (Inr st) None [])])])"

theorem Walk_lists_exactly_witness:
  "\<exists>out. Walk ''/r'' [''*.o''] (Inr demo_tree) = (out, None) \<and> map fi_rel out = [''a'', ''d'', ''d/f''] \<and>
     (\<forall>fi. fi \<in> set out \<longrightarrow> (\<exists>comps k st derr ch. at_path demo_tree comps (Tree k (Inr st) derr ch)
        \<and> fi = info_of (Clean ''/r'') comps k st))"
proof -
  obtain out e where w: "Walk ''/r'' [''*.o''] (Inr demo_tree) = (out, e)" by force
  have "(case Walk ''/r'' [''*.o''] (Inr demo_tree) of (out, e) \<Rightarrow> e = None \<and> map fi_rel out = [''a'', ''d'', ''d/f''])"
    by code_simp
  with w have "e = None" "map fi_rel out = [''a'', ''d'', ''d/f'']" by simp_all
  then have w': "Walk ''/r'' [''*.o''] (Inr demo_tree) = (out, None)" using w by simp
  have "\<forall>fi. fi \<in> set out \<longrightarrow> (\<exists>comps k st derr ch. at_path demo_tree comps (Tree k (Inr st) derr ch)
      \<and> fi = info_of (Clean ''/r'') comps k st)"
  proof (intro allI impI)
    fix fi assume "fi \<in> set out"
    from iffD1 [OF Walk_lists_exactly [OF w'] this]
    show "\<exists>comps k st derr ch. at_path demo_tree comps (Tree k (Inr st) derr ch) \<and> fi = info_of (Clean ''/r'') comps k st"
      by (elim exE conjE) (intro exI conjI)
  qed
  with w' \<open>map fi_rel out = [''a'', ''d'', ''d/f'']\<close> show ?thesis by (intro exI [of _ out] conjI)
qed

end
