(* ===== verification/WriteSession.thy ===== *)
theory WriteSession
  imports Compress Delta ReuseRange
begin

text \<open>
  The contract of a staged write (\<open>WriteSession\<close> in \<open>internal/transport/transport.go\<close>): its operations as
  data, and the locales that say what a backend promises. What the destination shows changes only by a
  commit, and then to content with the digest the caller expects; in the stronger contract, only by a
  commit that succeeds.
\<close>

datatype session_op =
    SWrite u64 codec int bytes
  | SReuse u64 u64 digest int
  | SCommit digest u32 "int option"
  | SAbort

fun commits :: "session_op \<Rightarrow> digest option" where
  "commits (SCommit d m t) = Some d"
| "commits _ = None"

text \<open>The operations that add to what is staged.\<close>

fun writes :: "session_op \<Rightarrow> bool" where
  "writes (SWrite off c n b) \<longleftrightarrow> True"
| "writes (SReuse new old d n) \<longleftrightarrow> True"
| "writes a \<longleftrightarrow> False"

lemma writes_commits [simp]: "writes a \<Longrightarrow> commits a = None"
  by (cases a) auto

text \<open>A sequence of operations with the error each of them returned.\<close>

fun run_ops :: "('o \<Rightarrow> 's \<Rightarrow> 's \<times> goerr option) \<Rightarrow> 'o list \<Rightarrow> 's \<Rightarrow> 's \<times> goerr option list" where
  "run_ops step [] s = (s, [])"
| "run_ops step (a # as) s =
     (case step a s of (s1, e) \<Rightarrow> (case run_ops step as s1 of (s', es) \<Rightarrow> (s', e # es)))"

lemma run_ops_append:
  "run_ops f (as @ bs) s = (case run_ops f as s of (s1, es) \<Rightarrow> (case run_ops f bs s1 of (s2, fs) \<Rightarrow> (s2, es @ fs)))"
  by (induction as arbitrary: s) (auto split: prod.splits)

locale staged_write =
  fixes step :: "session_op \<Rightarrow> 's \<Rightarrow> 's \<times> goerr option"
    and ok :: "'s \<Rightarrow> bool"
    and shown :: "'s \<Rightarrow> bytes option"
    and H :: "bytes \<Rightarrow> digest"
  assumes step_ok: "ok s \<Longrightarrow> step a s = (s', e) \<Longrightarrow> ok s'"
    and quiet: "ok s \<Longrightarrow> step a s = (s', e) \<Longrightarrow> commits a = None \<Longrightarrow> shown s' = shown s"
    and commit: "ok s \<Longrightarrow> step a s = (s', e) \<Longrightarrow> commits a = Some d \<Longrightarrow>
      shown s' = shown s \<or> (\<exists>c. shown s' = Some c \<and> H c = d)"
begin

lemma run_ok: "ok s \<Longrightarrow> run_ops step as s = (s', es) \<Longrightarrow> ok s'"
  by (induction as arbitrary: s es) (auto split: prod.splits dest: step_ok)

lemma never_partial:
  "ok s \<Longrightarrow> run_ops step as s = (s', es) \<Longrightarrow>
   shown s' = shown s \<or> (\<exists>a \<in> set as. \<exists>d c. commits a = Some d \<and> shown s' = Some c \<and> H c = d)"
proof (induction as arbitrary: s es)
  case (Cons a as)
  obtain s1 e es' where st: "step a s = (s1, e)" "run_ops step as s1 = (s', es')"
    using Cons.prems(2) by (auto split: prod.splits)
  have "ok s1" using step_ok [OF Cons.prems(1) st(1)] .
  from Cons.IH [OF this st(2)] show ?case
  proof
    assume "shown s' = shown s1"
    with quiet [OF Cons.prems(1) st(1)] commit [OF Cons.prems(1) st(1)] show ?case
      by (cases "commits a") auto
  qed auto
qed simp

end

text \<open>The stronger contract: a call that returns an error has changed nothing that is shown.\<close>

locale write_session = staged_write +
  assumes failed: "ok s \<Longrightarrow> step a s = (s', Some x) \<Longrightarrow> shown s' = shown s"
begin

lemma all_or_nothing:
  "ok s \<Longrightarrow> run_ops step as s = (s', es) \<Longrightarrow>
   shown s' = shown s \<or>
   (\<exists>i < length as. \<exists>d c. commits (as ! i) = Some d \<and> es ! i = None \<and> shown s' = Some c \<and> H c = d)"
proof (induction as arbitrary: s es)
  case (Cons a as)
  obtain s1 e es' where st: "step a s = (s1, e)" "run_ops step as s1 = (s', es')" "es = e # es'"
    using Cons.prems(2) by (auto split: prod.splits)
  have "ok s1" using step_ok [OF Cons.prems(1) st(1)] .
  from Cons.IH [OF this st(2)]
  consider "shown s' = shown s1"
    | i d c where "i < length as" "commits (as ! i) = Some d" "es' ! i = None" "shown s' = Some c" "H c = d"
    by blast
  then show ?case
  proof cases
    case 1
    show ?thesis
    proof (cases "commits a = None \<or> e \<noteq> None")
      case True
      with 1 quiet [OF Cons.prems(1) st(1)] failed [OF Cons.prems(1), of a s1] st(1) show ?thesis by auto
    next
      case False
      then obtain d where "commits a = Some d" "e = None" by auto
      with commit [OF Cons.prems(1) st(1)] 1 st(3) show ?thesis by fastforce
    qed
  next
    case 2
    then show ?thesis using st(3) by (intro disjI2 exI [of _ "Suc i"]) auto
  qed
qed simp

end

end
