(* ===== verification/Local.thy ===== *)
theory Local
  imports WriteSession SafePath FsMeta Protocol
begin

text \<open>
  The local backend (\<open>internal/transport/local/local.go\<close>): path operations, staging directories and the
  staged write session. The disk is a map from absolute paths to inodes; a descriptor is an inode. Every
  system call takes its outcome from a script in the state, so each may fail: \<open>Some (n, e)\<close> is the error
  \<open>e\<close> after \<open>n\<close> bytes of a write or copy.
\<close>

section \<open>The disk\<close>

record inode =
  i_data :: bytes
  i_mod :: int
  i_mode :: u32
  i_kind :: fkind

record disk =
  d_inode :: "nat \<Rightarrow> inode"
  d_dir :: "string \<rightharpoonup> nat"
  d_next :: nat
  d_script :: "(nat \<times> goerr) option list"

definition sys :: "disk \<Rightarrow> (nat \<times> goerr) option \<times> disk" where
  "sys w = (case d_script w of [] \<Rightarrow> (None, w) | s # ss \<Rightarrow> (s, w\<lparr>d_script := ss\<rparr>))"

definition err_EXDEV :: goerr where "err_EXDEV = Msg ''invalid cross-device link''"
definition err_invalid :: goerr where "err_invalid = Msg ''invalid argument''"

definition upd_inode :: "nat \<Rightarrow> (inode \<Rightarrow> inode) \<Rightarrow> disk \<Rightarrow> disk" where
  "upd_inode i f w = w\<lparr>d_inode := (d_inode w)(i := f (d_inode w i))\<rparr>"

definition new_inode :: "string \<Rightarrow> inode \<Rightarrow> disk \<Rightarrow> disk" where
  "new_inode p x w = w\<lparr>d_inode := (d_inode w)(d_next w := x), d_dir := (d_dir w)(p \<mapsto> d_next w), d_next := d_next w + 1\<rparr>"

definition lookup :: "disk \<Rightarrow> string \<Rightarrow> inode option" where
  "lookup w p = map_option (d_inode w) (d_dir w p)"

text \<open>\<open>Lstat\<close> and \<open>Stat\<close> of a path whose links \<open>Confine\<close> has resolved.\<close>

definition stat_path :: "string \<Rightarrow> disk \<Rightarrow> inode res \<times> disk" where
  "stat_path p w =
     (case sys w of
        (Some (n, e), w') \<Rightarrow> (Inl e, w')
      | (None, w') \<Rightarrow> ((case lookup w' p of None \<Rightarrow> Inl NotExist | Some x \<Rightarrow> Inr x), w'))"

fun mkdir_list :: "string list \<Rightarrow> disk \<Rightarrow> goerr option \<times> disk" where
  "mkdir_list [] w = (None, w)"
| "mkdir_list (p # ps) w =
     (case lookup w p of
        Some x \<Rightarrow> if i_kind x = KDir then mkdir_list ps w else (Some (Msg ''not a directory''), w)
      | None \<Rightarrow> mkdir_list ps (new_inode p \<lparr>i_data = [], i_mod = 0, i_mode = 493, i_kind = KDir\<rparr> w))"

definition path_prefixes :: "string \<Rightarrow> string list" where
  "path_prefixes p = (let cs = path_comps p in map (\<lambda>k. abs_of (take k cs)) [1..<length cs + 1])"

definition mkdir_all :: "string \<Rightarrow> disk \<Rightarrow> goerr option \<times> disk" where
  "mkdir_all p w =
     (case sys w of (Some (n, e), w') \<Rightarrow> (Some e, w') | (None, w') \<Rightarrow> mkdir_list (path_prefixes p) w')"

section \<open>Staging\<close>

definition ensureStagingDir :: "string \<Rightarrow> disk \<Rightarrow> goerr option \<times> disk" where
  "ensureStagingDir tmpDir w =
     (case stat_path tmpDir w of
        (Inl e, w') \<Rightarrow> if e = NotExist then mkdir_all tmpDir w' else (Some e, w')
      | (Inr fi, w') \<Rightarrow>
          if i_kind fi = KSymlink then (Some (Msg ''staging dir is a symlink: %s''), w')
          else if i_kind fi \<noteq> KDir then (Some (Msg ''staging path is not a directory: %s''), w')
          else (None, w'))"

text \<open>
  \<open>gcStaging\<close> removes stale partial files of the directory; \<open>rm\<close> says for which of them the removal (whose
  error is ignored) succeeds. Times are in nanoseconds.
\<close>

definition day_nano :: int where "day_nano = 24 * 3600 * 1000000000"

definition stale_partial :: "int \<Rightarrow> string \<Rightarrow> inode \<Rightarrow> bool" where
  "stale_partial now name x \<longleftrightarrow>
     \<not> (i_kind x = KDir \<or> \<not> HasPrefix name ''qs-'' \<or> \<not> HasSuffix name ''.partial'') \<and> i_mod x < now - day_nano"

definition gcStaging :: "(string \<Rightarrow> bool) \<Rightarrow> int \<Rightarrow> string \<Rightarrow> disk \<Rightarrow> goerr option \<times> disk" where
  "gcStaging rm now tmpDir w =
     (case sys w of
        (Some (n, e), w') \<Rightarrow> (if e = NotExist then None else Some e, w')
      | (None, w') \<Rightarrow>
          (None, w'\<lparr>d_dir := (\<lambda>p. case lookup w' p of
             None \<Rightarrow> None
           | Some x \<Rightarrow> if DirPath p = tmpDir \<and> stale_partial now (BasePath p) x \<and> rm p then None else d_dir w' p)\<rparr>))"

section \<open>The transport\<close>

record local_transport =
  lt_root :: string
  lt_nfs :: bool

text \<open>
  \<open>isNFS\<close> on Linux, macOS and elsewhere; \<open>statfs\<close> gives the type of the file system at a path, on macOS as the text of the 16 bytes of a name.
\<close>

definition isNFS_linux :: "(string \<Rightarrow> int res) \<Rightarrow> string \<Rightarrow> bool" where
  "isNFS_linux statfs path = (case statfs path of Inl _ \<Rightarrow> False | Inr magic \<Rightarrow> magic = 26985)"

definition isNFS_darwin :: "(string \<Rightarrow> string res) \<Rightarrow> string \<Rightarrow> bool" where
  "isNFS_darwin statfs path =
     (case statfs path of
        Inl _ \<Rightarrow> False
      | Inr fstype \<Rightarrow>
          let c = takeWhile (\<lambda>x. x \<noteq> CHR 0x00) (take 16 fstype);
              name = c @ replicate (16 - length c) CHR 0x00
          in HasPrefix (rev (dropWhile (\<lambda>x. x = CHR 0x00) (rev name))) ''nfs'')"

definition isNFS_other :: "string \<Rightarrow> bool" where "isNFS_other path = False"

text \<open>\<open>open\<close>: \<open>cwd\<close> and \<open>onNFS\<close> are what \<open>Abs\<close> and \<open>isNFS\<close> ask the system.\<close>

definition local_open ::
  "string res \<Rightarrow> (string \<Rightarrow> bool) \<Rightarrow> (string \<Rightarrow> bool) \<Rightarrow> int \<Rightarrow> string \<Rightarrow> bool \<Rightarrow> disk \<Rightarrow> local_transport res \<times> disk" where
  "local_open cwd onNFS rm now rt create w =
     (case AbsPath cwd rt of
        Inl e \<Rightarrow> (Inl e, w)
      | Inr p \<Rightarrow>
          let finish = (\<lambda>w. (Inr \<lparr>lt_root = p, lt_nfs = onNFS p\<rparr>,
                             snd (gcStaging rm now (PathJoin [p, ''.quiksync.tmp'']) w))) in
          if create
          then (case mkdir_all p w of (Some e, w') \<Rightarrow> (Inl e, w') | (None, w') \<Rightarrow> finish w')
          else (case stat_path p w of
                  (Inl e, w') \<Rightarrow> (Inl e, w')
                | (Inr st, w') \<Rightarrow>
                    if i_kind st \<noteq> KDir then (Inl (Msg ''local rt is not a directory: %s''), w') else finish w'))"

text \<open>What is kept of the name is what stands before its first zero byte.\<close>

lemma isNFS_darwin_name:
  assumes "statfs path = Inr fstype"
  shows "isNFS_darwin statfs path \<longleftrightarrow> HasPrefix (takeWhile (\<lambda>x. x \<noteq> CHR 0x00) (take 16 fstype)) ''nfs''"
proof -
  let ?c = "takeWhile (\<lambda>x. x \<noteq> CHR 0x00) (take 16 fstype)"
  have z: "dropWhile (\<lambda>x. x = CHR 0x00) (replicate n CHR 0x00 @ xs) = dropWhile (\<lambda>x. x = CHR 0x00) xs" for n xs
    by (induction n) auto
  have "\<forall>x \<in> set (rev ?c). x \<noteq> CHR 0x00" by (auto dest: set_takeWhileD)
  then have "dropWhile (\<lambda>x. x = CHR 0x00) (rev ?c) = rev ?c" by (cases "rev ?c") auto
  then show ?thesis using assms by (simp add: isNFS_darwin_def Let_def z)
qed

definition local_new where "local_new cwd onNFS rm now rt = local_open cwd onNFS rm now rt True"
definition local_existing where "local_existing cwd onNFS rm now rt = local_open cwd onNFS rm now rt False"

definition local_caps :: caps where
  "local_caps = \<lparr>SupportsDelta = True, SupportsMultiplex = True, SupportsResume = True, SupportsReuseChunk = True\<rparr>"

definition local_abs :: "nat os \<Rightarrow> local_transport \<Rightarrow> string \<Rightarrow> string res" where
  "local_abs S t rel = Confine (os_lstat S) (os_evalsym S) (os_cwd S) (lt_root t) rel"

definition local_stat :: "nat os \<Rightarrow> local_transport \<Rightarrow> string \<Rightarrow> disk \<Rightarrow> (string \<times> inode) res \<times> disk" where
  "local_stat S t rel w =
     (case local_abs S t rel of
        Inl e \<Rightarrow> (Inl e, w)
      | Inr p \<Rightarrow> (case stat_path p w of (Inl e, w') \<Rightarrow> (Inl e, w') | (Inr x, w') \<Rightarrow> (Inr (rel, x), w')))"

definition local_walk :: "local_transport \<Rightarrow> string list \<Rightarrow> tree res \<Rightarrow> (string \<times> int \<times> int \<times> u32) list res" where
  "local_walk t exclude tree =
     (case Walk (lt_root t) exclude tree of
        (files, Some e) \<Rightarrow> Inl e
      | (files, None) \<Rightarrow> Inr (map (\<lambda>f. (fi_rel f, fi_size f, fi_mod f, fi_mode f)) files))"

definition local_remove :: "nat os \<Rightarrow> local_transport \<Rightarrow> string \<Rightarrow> disk \<Rightarrow> goerr option \<times> disk" where
  "local_remove S t rel w =
     (case local_abs S t rel of
        Inl e \<Rightarrow> (Some e, w)
      | Inr p \<Rightarrow>
          (case sys w of
             (Some (n, e), w') \<Rightarrow> (Some e, w')
           | (None, w') \<Rightarrow> if d_dir w' p = None then (Some NotExist, w') else (None, w'\<lparr>d_dir := (d_dir w')(p := None)\<rparr>)))"

definition local_mkdir :: "nat os \<Rightarrow> local_transport \<Rightarrow> string \<Rightarrow> disk \<Rightarrow> goerr option \<times> disk" where
  "local_mkdir S t rel w =
     (case local_abs S t rel of Inl e \<Rightarrow> (Some e, w) | Inr p \<Rightarrow> mkdir_all p w)"

text \<open>\<open>mode &^ os.ModeType\<close> on Go's mode bits.\<close>

definition ModeType :: u32 where "ModeType = 0x8F280000"

definition perm_bits :: "u32 \<Rightarrow> u32" where "perm_bits mode = mode AND NOT ModeType"

definition chmod_path :: "string \<Rightarrow> u32 \<Rightarrow> disk \<Rightarrow> goerr option \<times> disk" where
  "chmod_path p mode w =
     (case sys w of
        (Some (n, e), w') \<Rightarrow> (Some e, w')
      | (None, w') \<Rightarrow>
          (case d_dir w' p of
             None \<Rightarrow> (Some NotExist, w')
           | Some i \<Rightarrow> (None, upd_inode i (\<lambda>x. x\<lparr>i_mode := perm_bits mode\<rparr>) w')))"

definition chtimes_path :: "string \<Rightarrow> int \<Rightarrow> disk \<Rightarrow> goerr option \<times> disk" where
  "chtimes_path p t w =
     (case sys w of
        (Some (n, e), w') \<Rightarrow> (Some e, w')
      | (None, w') \<Rightarrow>
          (case d_dir w' p of
             None \<Rightarrow> (Some NotExist, w')
           | Some i \<Rightarrow> (None, upd_inode i (\<lambda>x. x\<lparr>i_mod := t\<rparr>) w')))"

definition local_chmod :: "nat os \<Rightarrow> local_transport \<Rightarrow> string \<Rightarrow> u32 \<Rightarrow> disk \<Rightarrow> goerr option \<times> disk" where
  "local_chmod S t rel mode w =
     (case local_abs S t rel of Inl e \<Rightarrow> (Some e, w) | Inr p \<Rightarrow> chmod_path p mode w)"

definition absNoFollow :: "nat os \<Rightarrow> local_transport \<Rightarrow> string \<Rightarrow> string res" where
  "absNoFollow S t rel =
     (case SafeJoinFile (os_cwd S) (lt_root t) rel of
        Inl e \<Rightarrow> Inl e
      | Inr _ \<Rightarrow>
          let parent = DirPath rel in
          if parent = ''.'' then Inr (PathJoin [lt_root t, BasePath rel])
          else (case local_abs S t parent of Inl e \<Rightarrow> Inl e | Inr p \<Rightarrow> Inr (PathJoin [p, BasePath rel])))"

definition local_signature ::
  "(bytes \<Rightarrow> digest) \<Rightarrow> nat os \<Rightarrow> local_transport \<Rightarrow> string \<Rightarrow> disk \<Rightarrow> signature res option \<times> disk" where
  "local_signature H S t rel w =
     (case fst (OpenConfined S (lt_root t) rel) of
        Inl e \<Rightarrow> (Some (if e = NotExist then Inr empty_signature else Inl e), w)
      | Inr i \<Rightarrow>
          (case sys w of
             (Some (n, e), w') \<Rightarrow> (Some (Inl e), w')
           | (None, w') \<Rightarrow>
               let d = i_data (d_inode w' i) in
               (ChunkReader H (file_reader d) (int (length d)) \<lparr>o_avg = 0, o_min = 0, o_max = 0, o_keep = False\<rparr>, w')))"

section \<open>The write session\<close>

record session =
  ws_dest :: string
  ws_temp :: string
  ws_f :: "nat option"
  ws_old :: "nat option"
  ws_oldSize :: int
  ws_oldMod :: int
  ws_size :: int
  ws_committed :: bool

text \<open>
  \<open>BeginWrite\<close>: \<open>rnd\<close> is the random part of the staging name. The old file is opened through
  \<open>OpenConfined\<close>; its failure only means that there is nothing to reuse.
\<close>

definition staging_dir :: "local_transport \<Rightarrow> string \<Rightarrow> disk \<Rightarrow> string res \<times> disk" where
  "staging_dir t dest w =
     (let tmp1 = PathJoin [DirPath dest, ''.quiksync.tmp''] in
      case ensureStagingDir tmp1 w of
        (None, w1) \<Rightarrow> (Inr tmp1, w1)
      | (Some _, w1) \<Rightarrow>
          let tmp2 = PathJoin [lt_root t, ''.quiksync.tmp''] in
          (case ensureStagingDir tmp2 w1 of (None, w2) \<Rightarrow> (Inr tmp2, w2) | (Some e, w2) \<Rightarrow> (Inl e, w2)))"

definition create_temp :: "string \<Rightarrow> string \<Rightarrow> int \<Rightarrow> disk \<Rightarrow> (string \<times> nat) res \<times> disk" where
  "create_temp tmpDir rnd now w =
     (case sys w of
        (Some (n, e), w') \<Rightarrow> (Inl e, w')
      | (None, w') \<Rightarrow>
          let name = PathJoin [tmpDir, ''qs-'' @ rnd @ ''.partial''] in
          if d_dir w' name \<noteq> None then (Inl (Msg ''file exists''), w')
          else (Inr (name, d_next w'),
                new_inode name \<lparr>i_data = [], i_mod = now, i_mode = 384, i_kind = KRegular\<rparr> w'))"

definition open_old :: "nat os \<Rightarrow> local_transport \<Rightarrow> string \<Rightarrow> session \<Rightarrow> disk \<Rightarrow> session \<times> disk" where
  "open_old S t rel ws w =
     (case stat_path (ws_dest ws) w of
        (Inl e, w1) \<Rightarrow> (ws, w1)
      | (Inr st, w1) \<Rightarrow>
          if i_kind st \<noteq> KRegular then (ws, w1)
          else (case fst (OpenConfined S (lt_root t) rel) of
                  Inl e \<Rightarrow> (ws, w1)
                | Inr old \<Rightarrow>
                    let ws1 = ws\<lparr>ws_old := Some old, ws_oldSize := int (length (i_data st))\<rparr> in
                    (case stat_path (ws_dest ws) w1 of
                       (Inl e, w2) \<Rightarrow> (ws1, w2)
                     | (Inr st2, w2) \<Rightarrow>
                         (ws1\<lparr>ws_oldMod := i_mod st2, ws_oldSize := int (length (i_data st2))\<rparr>, w2))))"

definition BeginWrite ::
  "nat os \<Rightarrow> (string \<Rightarrow> bool) \<Rightarrow> int \<Rightarrow> string \<Rightarrow> local_transport \<Rightarrow> string \<Rightarrow> int \<Rightarrow> disk \<Rightarrow> session res \<times> disk" where
  "BeginWrite S rm now rnd t rel sz w =
     (case local_abs S t rel of
        Inl e \<Rightarrow> (Inl e, w)
      | Inr dest \<Rightarrow>
          (case staging_dir t dest w of
             (Inl e, w1) \<Rightarrow> (Inl e, w1)
           | (Inr tmpDir, w1) \<Rightarrow>
               let w2 = snd (gcStaging rm now tmpDir w1) in
               (case mkdir_all (DirPath dest) w2 of
                  (Some e, w3) \<Rightarrow> (Inl e, w3)
                | (None, w3) \<Rightarrow>
                    (case create_temp tmpDir rnd now w3 of
                       (Inl e, w4) \<Rightarrow> (Inl e, w4)
                     | (Inr (tmp, i), w4) \<Rightarrow>
                         let ws = \<lparr>ws_dest = dest, ws_temp = tmp, ws_f = Some i, ws_old = None, ws_oldSize = 0,
                                   ws_oldMod = 0, ws_size = sz, ws_committed = False\<rparr> in
                         if sz > 0
                         then (case sys w4 of
                                 (Some (n, e), w5) \<Rightarrow> (Inl e, w5\<lparr>d_dir := (d_dir w5)(tmp := None)\<rparr>)
                               | (None, w5) \<Rightarrow>
                                   (case open_old S t rel ws (upd_inode i (\<lambda>x. x\<lparr>i_data := replicate (nat sz) 0\<rparr>) w5) of
                                      (ws', w6) \<Rightarrow> (Inr ws', w6)))
                         else (case open_old S t rel ws w4 of (ws', w5) \<Rightarrow> (Inr ws', w5))))))"

text \<open>\<open>File.WriteAt\<close> on a handle; a closed file is an error.\<close>

definition handle_write :: "nat option \<Rightarrow> u64 \<Rightarrow> bytes \<Rightarrow> disk \<Rightarrow> goerr option \<times> disk" where
  "handle_write f offset b w =
     (case f of
        None \<Rightarrow> (Some err_invalid, w)
      | Some i \<Rightarrow>
          let off = i64_of_u64 offset in
          if off < 0 then (Some (Msg ''negative offset''), w)
          else (case sys w of
                  (Some (n, e), w') \<Rightarrow>
                    (Some e, upd_inode i (\<lambda>x. x\<lparr>i_data := write_at (i_data x) (nat off) (take n b)\<rparr>) w')
                | (None, w') \<Rightarrow> (None, upd_inode i (\<lambda>x. x\<lparr>i_data := write_at (i_data x) (nat off) b\<rparr>) w')))"

definition WriteChunk :: "codec_lib \<Rightarrow> u64 \<Rightarrow> codec \<Rightarrow> int \<Rightarrow> bytes \<Rightarrow> session \<times> disk \<Rightarrow> (session \<times> disk) \<times> goerr option" where
  "WriteChunk L offset cdc uncompressedLen data sw =
     (let (s, w) = sw in
      if ws_committed s then ((s, w), Some (Msg ''write after commit''))
      else case Decode L cdc data uncompressedLen of
        Inl e \<Rightarrow> ((s, w), Some e)
      | Inr raw \<Rightarrow>
          (case ValidateWriteRange offset (int (length raw)) (ws_size s) of
             Inl e \<Rightarrow> ((s, w), Some e)
           | Inr _ \<Rightarrow> (case handle_write (ws_f s) offset raw w of (e, w') \<Rightarrow> ((s, w'), e))))"

definition checkOldUnchanged :: "session \<Rightarrow> disk \<Rightarrow> goerr option \<times> disk" where
  "checkOldUnchanged s w =
     (case stat_path (ws_dest s) w of
        (Inl e, w') \<Rightarrow> (Some (Wrap ''reuse TOCTOU: dest changed: %w'' e), w')
      | (Inr st, w') \<Rightarrow>
          if int (length (i_data st)) \<noteq> ws_oldSize s \<or> i_mod st \<noteq> ws_oldMod s
          then (Some (Msg ''reuse TOCTOU: dest size/mtime changed during write''), w')
          else (None, w'))"

text \<open>\<open>File.ReadAt\<close>: the bytes read, and the error that is not the end of the file.\<close>

definition handle_read :: "nat \<Rightarrow> u64 \<Rightarrow> nat \<Rightarrow> disk \<Rightarrow> bytes res \<times> disk" where
  "handle_read i offset len w =
     (let off = i64_of_u64 offset in
      if off < 0 then (Inl (Msg ''negative offset''), w)
      else (case sys w of
              (Some (n, e), w') \<Rightarrow> (Inl e, w')
            | (None, w') \<Rightarrow> (Inr (take len (drop (nat off) (i_data (d_inode w' i)))), w')))"

definition ReuseChunk ::
  "(bytes \<Rightarrow> digest) \<Rightarrow> u64 \<Rightarrow> u64 \<Rightarrow> digest \<Rightarrow> int \<Rightarrow> session \<times> disk \<Rightarrow> (session \<times> disk) \<times> goerr option" where
  "ReuseChunk H newOffset oldOffset dg len sw =
     (let (s, w) = sw in
      if ws_committed s then ((s, w), Some (Msg ''reuse after commit''))
      else case ws_old s of
        None \<Rightarrow> ((s, w), Some (Msg ''reuse chunk: no existing destination file''))
      | Some old \<Rightarrow>
          (case checkOldUnchanged s w of
             (Some e, w1) \<Rightarrow> ((s, w1), Some e)
           | (None, w1) \<Rightarrow>
               (case ValidateReuseRange oldOffset len (ws_oldSize s) of
                  Inl e \<Rightarrow> ((s, w1), Some e)
                | Inr _ \<Rightarrow>
                    (case ValidateWriteRange newOffset len (ws_size s) of
                       Inl e \<Rightarrow> ((s, w1), Some e)
                     | Inr _ \<Rightarrow>
                         (case handle_read old oldOffset (nat len) w1 of
                            (Inl e, w2) \<Rightarrow> ((s, w2), Some (Wrap ''reuse read: %w'' e))
                          | (Inr buf, w2) \<Rightarrow>
                              if int (length buf) \<noteq> len
                              then ((s, w2), Some (Msg ''reuse read: short read %d want %d''))
                              else if H buf \<noteq> dg
                              then ((s, w2), Some (Msg ''reuse digest mismatch at old_offset=%d''))
                              else (case handle_write (ws_f s) newOffset buf w2 of (e, w3) \<Rightarrow> ((s, w3), e)))))))"

definition copyAcrossDevices :: "string \<Rightarrow> string \<Rightarrow> u32 \<Rightarrow> int option \<Rightarrow> int \<Rightarrow> disk \<Rightarrow> goerr option \<times> disk" where
  "copyAcrossDevices src dst mode modTime now w =
     (case stat_path src w of
        (Inl e, w1) \<Rightarrow> (Some e, w1)
      | (Inr x, w1) \<Rightarrow>
          (case sys w1 of
             (Some (n, e), w2) \<Rightarrow> (Some e, w2)
           | (None, w2) \<Rightarrow>
               let w3 = (case d_dir w2 dst of
                           Some i \<Rightarrow> upd_inode i (\<lambda>y. y\<lparr>i_data := [], i_mod := now\<rparr>) w2
                         | None \<Rightarrow> new_inode dst \<lparr>i_data = [], i_mod = now, i_mode = perm_bits mode, i_kind = KRegular\<rparr> w2);
                   i = the (d_dir w3 dst);
                   put = (\<lambda>b. upd_inode i (\<lambda>y. y\<lparr>i_data := b\<rparr>))
               in case sys w3 of
                    (Some (n, e), w4) \<Rightarrow> (Some e, put (take n (i_data x)) w4)
                  | (None, w4) \<Rightarrow>
                      (case sys (put (i_data x) w4) of
                         (Some (n, e), w5) \<Rightarrow> (Some e, w5)
                       | (None, w5) \<Rightarrow>
                           (case sys w5 of
                              (Some (n, e), w6) \<Rightarrow> (Some e, w6)
                            | (None, w6) \<Rightarrow>
                                (case (if mode \<noteq> 0 then chmod_path dst mode w6 else (None, w6)) of
                                   (Some e, w7) \<Rightarrow> (Some e, w7)
                                 | (None, w7) \<Rightarrow>
                                     (case modTime of None \<Rightarrow> (None, w7) | Some t \<Rightarrow> chtimes_path dst t w7))))))"

definition remove_path :: "string \<Rightarrow> disk \<Rightarrow> goerr option \<times> disk" where
  "remove_path p w =
     (case sys w of
        (Some (n, e), w') \<Rightarrow> (Some e, w')
      | (None, w') \<Rightarrow> if d_dir w' p = None then (Some NotExist, w') else (None, w'\<lparr>d_dir := (d_dir w')(p := None)\<rparr>))"

definition rename_path :: "string \<Rightarrow> string \<Rightarrow> disk \<Rightarrow> goerr option \<times> disk" where
  "rename_path src dst w =
     (case sys w of
        (Some (n, e), w') \<Rightarrow> (Some e, w')
      | (None, w') \<Rightarrow>
          (case d_dir w' src of
             None \<Rightarrow> (Some NotExist, w')
           | Some i \<Rightarrow> (None, w'\<lparr>d_dir := (d_dir w')(src := None, dst \<mapsto> i)\<rparr>)))"

text \<open>The renaming step of \<open>Commit\<close>, with the copy for a destination on another device.\<close>

definition publish :: "session \<Rightarrow> u32 \<Rightarrow> int option \<Rightarrow> int \<Rightarrow> disk \<Rightarrow> goerr option \<times> disk" where
  "publish s mode modTime now w =
     (case rename_path (ws_temp s) (ws_dest s) w of
        (None, w1) \<Rightarrow> (None, w1)
      | (Some e, w1) \<Rightarrow>
          if e \<noteq> err_EXDEV then (Some e, w1)
          else (case copyAcrossDevices (ws_temp s) (ws_dest s) mode modTime now w1 of
                  (Some e, w2) \<Rightarrow> (Some e, w2)
                | (None, w2) \<Rightarrow> remove_path (ws_temp s) w2))"

text \<open>Mode and times are set on the staging file, by path, before it is published.\<close>

definition set_attrs :: "string \<Rightarrow> u32 \<Rightarrow> int option \<Rightarrow> disk \<Rightarrow> goerr option \<times> disk" where
  "set_attrs p mode modTime w =
     (case (if mode \<noteq> 0 then chmod_path p mode w else (None, w)) of
        (Some e, w1) \<Rightarrow> (Some (Wrap ''chmod: %w'' e), w1)
      | (None, w1) \<Rightarrow>
          (case modTime of
             None \<Rightarrow> (None, w1)
           | Some t \<Rightarrow> (case chtimes_path p t w1 of
                           (Some e, w2) \<Rightarrow> (Some (Wrap ''chtimes: %w'' e), w2)
                         | (None, w2) \<Rightarrow> (None, w2))))"

text \<open>Seeking to the start and hashing what the staging handle holds.\<close>

definition hash_handle :: "(bytes \<Rightarrow> digest) \<Rightarrow> nat option \<Rightarrow> disk \<Rightarrow> digest res \<times> disk" where
  "hash_handle H f w =
     (case f of
        None \<Rightarrow> (Inl err_invalid, w)
      | Some i \<Rightarrow>
          (case sys w of
             (Some (n, e), w1) \<Rightarrow> (Inl e, w1)
           | (None, w1) \<Rightarrow>
               (case sys w1 of
                  (Some (n, e), w2) \<Rightarrow> (Inl e, w2)
                | (None, w2) \<Rightarrow>
                    (case HashFile H (file_reader (i_data (d_inode w2 i))) of
                       Inl e \<Rightarrow> (Inl e, w2) | Inr (d, n) \<Rightarrow> (Inr d, w2)))))"

text \<open>A failed \<open>Close\<close> leaves a handle on which every later call fails, as on no handle at all.\<close>

definition sync_close :: "session \<Rightarrow> disk \<Rightarrow> (session \<times> disk) \<times> goerr option" where
  "sync_close s w =
     (case sys w of
        (Some (n, e), w1) \<Rightarrow> ((s, w1), Some e)
      | (None, w1) \<Rightarrow>
          (case sys w1 of
             (Some (n, e), w2) \<Rightarrow> ((s\<lparr>ws_f := None\<rparr>, w2), Some e)
           | (None, w2) \<Rightarrow> ((s\<lparr>ws_f := None, ws_old := None\<rparr>, w2), None)))"

definition Commit ::
  "(bytes \<Rightarrow> digest) \<Rightarrow> int \<Rightarrow> digest \<Rightarrow> u32 \<Rightarrow> int option \<Rightarrow> session \<times> disk \<Rightarrow> (session \<times> disk) \<times> goerr option" where
  "Commit H now expected mode modTime sw =
     (let (s, w) = sw in
      if ws_committed s then ((s, w), None)
      else case hash_handle H (ws_f s) w of
        (Inl e, w1) \<Rightarrow> ((s, w1), Some e)
      | (Inr got, w1) \<Rightarrow>
          if got \<noteq> expected then ((s, w1), Some (Msg ''digest mismatch: got %s want %s''))
          else (case sync_close s w1 of
                  ((s1, w2), Some e) \<Rightarrow> ((s1, w2), Some e)
                | ((s1, w2), None) \<Rightarrow>
                    (case set_attrs (ws_temp s) mode modTime w2 of
                       (Some e, w3) \<Rightarrow> ((s1, w3), Some e)
                     | (None, w3) \<Rightarrow>
                         (case publish s mode modTime now w3 of
                            (Some e, w4) \<Rightarrow> ((s1, w4), Some e)
                          | (None, w4) \<Rightarrow> ((s1\<lparr>ws_committed := True\<rparr>, w4), None)))))"

definition Abort :: "session \<times> disk \<Rightarrow> (session \<times> disk) \<times> goerr option" where
  "Abort sw =
     (let (s, w) = sw in
      if ws_committed s then ((s, w), None)
      else case remove_path (ws_temp s) w of
        (e, w1) \<Rightarrow> ((s\<lparr>ws_f := None, ws_old := None\<rparr>, w1), if e = Some NotExist then None else e))"

section \<open>Symbolic links\<close>

text \<open>The content of a link's inode is its target.\<close>

definition local_readlink :: "nat os \<Rightarrow> local_transport \<Rightarrow> string \<Rightarrow> disk \<Rightarrow> bytes res \<times> disk" where
  "local_readlink S t rel w =
     (case absNoFollow S t rel of
        Inl e \<Rightarrow> (Inl e, w)
      | Inr p \<Rightarrow>
          (case stat_path p w of
             (Inl e, w1) \<Rightarrow> (Inl e, w1)
           | (Inr x, w1) \<Rightarrow> (if i_kind x = KSymlink then Inr (i_data x) else Inl err_invalid, w1)))"

definition remove_tree :: "string \<Rightarrow> disk \<Rightarrow> goerr option \<times> disk" where
  "remove_tree p w =
     (case sys w of
        (Some (n, e), w') \<Rightarrow> (Some e, w')
      | (None, w') \<Rightarrow>
          (None, w'\<lparr>d_dir := (\<lambda>q. if q = p \<or> HasPrefix q (p @ ''/'') then None else d_dir w' q)\<rparr>))"

definition local_symlink :: "nat os \<Rightarrow> int \<Rightarrow> local_transport \<Rightarrow> bytes \<Rightarrow> string \<Rightarrow> disk \<Rightarrow> goerr option \<times> disk" where
  "local_symlink S now t target rel w =
     (case absNoFollow S t rel of
        Inl e \<Rightarrow> (Some e, w)
      | Inr p \<Rightarrow>
          (case mkdir_all (DirPath p) w of
             (Some e, w1) \<Rightarrow> (Some e, w1)
           | (None, w1) \<Rightarrow>
               (case (case stat_path p w1 of
                        (Inr x, w2) \<Rightarrow> remove_tree p w2
                      | (Inl e, w2) \<Rightarrow> (if e \<noteq> NotExist then Some e else None, w2)) of
                  (Some e, w3) \<Rightarrow> (Some e, w3)
                | (None, w3) \<Rightarrow>
                    (case sys w3 of
                       (Some (n, e), w4) \<Rightarrow> (Some e, w4)
                     | (None, w4) \<Rightarrow>
                         if d_dir w4 p \<noteq> None then (Some (Msg ''file exists''), w4)
                         else (None, new_inode p \<lparr>i_data = target, i_mod = now, i_mode = 511, i_kind = KSymlink\<rparr> w4)))))"

section \<open>The session as a whole\<close>

definition local_step :: "(bytes \<Rightarrow> digest) \<Rightarrow> codec_lib \<Rightarrow> int \<Rightarrow> session_op \<Rightarrow> session \<times> disk \<Rightarrow> (session \<times> disk) \<times> goerr option" where
  "local_step H L now a sw =
     (case a of
        SWrite off cdc len data \<Rightarrow> WriteChunk L off cdc len data sw
      | SReuse new old dg len \<Rightarrow> ReuseChunk H new old dg len sw
      | SCommit d mode t \<Rightarrow> Commit H now d mode t sw
      | SAbort \<Rightarrow> Abort sw)"

definition local_shown :: "session \<times> disk \<Rightarrow> bytes option" where
  "local_shown sw = map_option i_data (lookup (snd sw) (ws_dest (fst sw)))"

section \<open>Lemmas: what the system calls may change\<close>

lemma sys_effect:
  "sys w = (r, w') \<Longrightarrow> d_dir w' = d_dir w \<and> d_inode w' = d_inode w \<and> d_next w' = d_next w
     \<and> set (d_script w') \<subseteq> set (d_script w) \<and> (\<forall>x. r = Some x \<longrightarrow> Some x \<in> set (d_script w))"
  by (auto simp: sys_def split: list.splits)

text \<open>Only the inode of the handle \<open>f\<close> changes.\<close>

definition only :: "nat option \<Rightarrow> disk \<Rightarrow> disk \<Rightarrow> bool" where
  "only f w w' \<longleftrightarrow> d_dir w' = d_dir w \<and> (\<forall>j. f \<noteq> Some j \<longrightarrow> d_inode w' j = d_inode w j)
     \<and> set (d_script w') \<subseteq> set (d_script w)"

text \<open>No directory entry and no file content changes.\<close>

definition no_data :: "disk \<Rightarrow> disk \<Rightarrow> bool" where
  "no_data w w' \<longleftrightarrow> d_dir w' = d_dir w \<and> (\<forall>j. i_data (d_inode w' j) = i_data (d_inode w j))
     \<and> set (d_script w') \<subseteq> set (d_script w)"

lemma only_refl [simp]: "only f w w" by (simp add: only_def)
lemma only_trans: "only f w w1 \<Longrightarrow> only f w1 w2 \<Longrightarrow> only f w w2" unfolding only_def by (metis order_trans)
lemma only_weaken: "only None w w' \<Longrightarrow> only f w w'" by (simp add: only_def)
lemma no_data_refl [simp]: "no_data w w" by (simp add: no_data_def)
lemma no_data_trans: "no_data w w1 \<Longrightarrow> no_data w1 w2 \<Longrightarrow> no_data w w2" unfolding no_data_def by (metis order_trans)
lemma only_no_data: "only None w w' \<Longrightarrow> no_data w w'" by (simp add: only_def no_data_def)

lemma sys_only: "sys w = (r, w') \<Longrightarrow> only None w w'"
  using sys_effect by (fastforce simp: only_def)

lemma stat_path_only: "stat_path p w = (r, w') \<Longrightarrow> only None w w'"
  by (auto simp: stat_path_def split: prod.splits option.splits dest: sys_only)

lemma handle_write_only: "handle_write f off b w = (e, w') \<Longrightarrow> only f w w'"
  by (auto simp: handle_write_def Let_def only_def upd_inode_def split: option.splits if_splits prod.splits
      dest!: sys_effect)

lemma handle_read_only: "handle_read i off n w = (r, w') \<Longrightarrow> only None w w'"
  by (auto simp: handle_read_def Let_def split: if_splits prod.splits option.splits dest: sys_only)

lemma checkOld_only: "checkOldUnchanged s w = (e, w') \<Longrightarrow> only None w w'"
  by (auto simp: checkOldUnchanged_def split: prod.splits sum.splits if_splits dest: stat_path_only)

lemma WriteChunk_only:
  "WriteChunk L off cdc n data (s, w) = ((s', w'), e) \<Longrightarrow> s' = s \<and> only (ws_f s) w w'"
  by (auto simp: WriteChunk_def Let_def split: if_splits sum.splits prod.splits dest: handle_write_only)

lemma ReuseChunk_only:
  "ReuseChunk H new old dg n (s, w) = ((s', w'), e) \<Longrightarrow> s' = s \<and> only (ws_f s) w w'"
  by (auto simp: ReuseChunk_def Let_def split: if_splits sum.splits prod.splits option.splits
      dest!: handle_write_only checkOld_only handle_read_only intro: only_weaken) (meson only_trans only_weaken)+

lemma hash_handle_only:
  "hash_handle H f w = (r, w') \<Longrightarrow> only None w w' \<and>
     (\<forall>d. r = Inr d \<longrightarrow> (\<exists>i. f = Some i \<and> d = H (i_data (d_inode w i))))"
  by (auto simp: hash_handle_def HashFile_def only_def split: option.splits prod.splits sum.splits dest!: sys_effect)

lemma sync_close_only:
  "sync_close s w = ((s1, w'), e) \<Longrightarrow> only None w w' \<and>
    (if e = None then s1 = s\<lparr>ws_f := None, ws_old := None\<rparr> else s1 = s \<or> s1 = s\<lparr>ws_f := None\<rparr>)"
  by (auto simp: sync_close_def only_def split: prod.splits option.splits dest!: sys_effect)

lemma chmod_no_data: "chmod_path p m w = (e, w') \<Longrightarrow> no_data w w'"
  by (auto simp: chmod_path_def no_data_def upd_inode_def split: prod.splits option.splits dest!: sys_effect)

lemma chtimes_no_data: "chtimes_path p t w = (e, w') \<Longrightarrow> no_data w w'"
  by (auto simp: chtimes_path_def no_data_def upd_inode_def split: prod.splits option.splits dest!: sys_effect)

lemma set_attrs_no_data: "set_attrs p m t w = (e, w') \<Longrightarrow> no_data w w'"
  by (auto simp: set_attrs_def split: prod.splits option.splits if_splits
      dest!: chmod_no_data chtimes_no_data intro: no_data_trans)

lemma remove_path_effect:
  "remove_path p w = (e, w') \<Longrightarrow> d_inode w' = d_inode w \<and> set (d_script w') \<subseteq> set (d_script w)
     \<and> (d_dir w' = d_dir w \<or> d_dir w' = (d_dir w)(p := None))"
  by (auto simp: remove_path_def split: prod.splits option.splits if_splits dest!: sys_effect)

lemma rename_path_effect:
  "rename_path src dst w = (e, w') \<Longrightarrow> d_inode w' = d_inode w \<and> set (d_script w') \<subseteq> set (d_script w)
     \<and> (case e of None \<Rightarrow> (\<exists>i. d_dir w src = Some i \<and> d_dir w' = (d_dir w)(src := None, dst \<mapsto> i))
        | Some x \<Rightarrow> d_dir w' = d_dir w \<and> (x = NotExist \<or> (\<exists>n. Some (n, x) \<in> set (d_script w))))"
  by (auto simp: rename_path_def split: prod.splits option.splits if_splits dest!: sys_effect)

section \<open>The contract\<close>

text \<open>No call fails with the cross-device error.\<close>

definition same_device :: "disk \<Rightarrow> bool" where
  "same_device w \<longleftrightarrow> (\<forall>n. Some (n, err_EXDEV) \<notin> set (d_script w))"

text \<open>The staging handle stands for the file at the staging path, which is not the destination.\<close>

definition session_ok :: "session \<times> disk \<Rightarrow> bool" where
  "session_ok sw \<longleftrightarrow> (case sw of (s, w) \<Rightarrow>
     ws_temp s \<noteq> ws_dest s \<and> same_device w \<and>
     (\<forall>i. ws_f s = Some i \<longrightarrow> d_dir w (ws_temp s) = Some i \<and> d_dir w (ws_dest s) \<noteq> Some i) \<and>
     (ws_committed s \<longrightarrow> ws_f s = None))"

lemma same_device_mono: "same_device w \<Longrightarrow> set (d_script w') \<subseteq> set (d_script w) \<Longrightarrow> same_device w'"
  by (auto simp: same_device_def)

lemma only_ok:
  assumes "session_ok (s, w)" and "only (ws_f s) w w'"
  shows "session_ok (s, w')" and "local_shown (s, w') = local_shown (s, w)"
proof -
  show "session_ok (s, w')"
    using assms same_device_mono [of w w'] by (auto simp: session_ok_def only_def)
  show "local_shown (s, w') = local_shown (s, w)"
    using assms by (cases "d_dir w (ws_dest s)") (auto simp: session_ok_def only_def local_shown_def lookup_def)
qed

lemma no_data_ok:
  assumes "session_ok (s, w)" and "no_data w w'"
  shows "session_ok (s, w')" and "local_shown (s, w') = local_shown (s, w)"
proof -
  show "session_ok (s, w')"
    using assms same_device_mono [of w w'] by (auto simp: session_ok_def no_data_def)
  show "local_shown (s, w') = local_shown (s, w)"
    using assms by (auto simp: no_data_def local_shown_def lookup_def option.map_comp comp_def)
qed

text \<open>Dropping the handles keeps the session sound and shows the same.\<close>

lemma drop_handles_ok:
  "session_ok (s, w) \<Longrightarrow> session_ok (s\<lparr>ws_f := None, ws_old := None\<rparr>, w)"
  "local_shown (s\<lparr>ws_f := None, ws_old := None\<rparr>, w) = local_shown (s, w)"
  "session_ok (s, w) \<Longrightarrow> session_ok (s\<lparr>ws_f := None\<rparr>, w)"
  "local_shown (s\<lparr>ws_f := None\<rparr>, w) = local_shown (s, w)"
  by (auto simp: session_ok_def local_shown_def)

lemma publish_effect:
  assumes "publish s m t now w = (e, w')" and "same_device w" and "ws_temp s \<noteq> ws_dest s"
  shows "d_inode w' = d_inode w \<and> set (d_script w') \<subseteq> set (d_script w) \<and>
    (case e of None \<Rightarrow> (\<exists>i. d_dir w (ws_temp s) = Some i \<and> d_dir w' = (d_dir w)(ws_temp s := None, ws_dest s \<mapsto> i))
     | Some x \<Rightarrow> d_dir w' = d_dir w)"
proof -
  obtain e1 w1 where r: "rename_path (ws_temp s) (ws_dest s) w = (e1, w1)" by force
  note eff = rename_path_effect [OF r]
  have "e1 \<noteq> Some err_EXDEV"
  proof
    assume "e1 = Some err_EXDEV"
    with eff assms(2) show False by (auto simp: same_device_def err_EXDEV_def)
  qed
  then have "e = e1" "w' = w1" using assms(1) r by (auto simp: publish_def split: option.splits if_splits)
  with eff show ?thesis by (auto split: option.splits)
qed

lemma Commit_cases:
  assumes "session_ok (s, w)" and "Commit H now d m t (s, w) = ((s', w'), e)"
  shows "session_ok (s', w') \<and>
    (if e = None \<and> \<not> ws_committed s
     then \<exists>c. local_shown (s', w') = Some c \<and> H c = d
     else local_shown (s', w') = local_shown (s, w))"
proof (cases "ws_committed s")
  case True
  with assms show ?thesis by (simp add: Commit_def)
next
  case nc: False
  obtain r w1 where h: "hash_handle H (ws_f s) w = (r, w1)" by force
  note h1 = conjunct1 [OF hash_handle_only [OF h], THEN only_weaken [of w w1 "ws_f s"]]
  note ok1 = only_ok [OF assms(1) h1]
  show ?thesis
  proof (cases r)
    case (Inl x)
    with assms(2) nc h ok1 show ?thesis by (auto simp: Commit_def)
  next
    case (Inr got)
    with h obtain i where i: "ws_f s = Some i" "got = H (i_data (d_inode w i))" using hash_handle_only by blast
    show ?thesis
    proof (cases "got = d")
      case False
      with assms(2) nc h ok1 Inr show ?thesis by (auto simp: Commit_def)
    next
      case True
      obtain s2 w2 e2 where sc: "sync_close s w1 = ((s2, w2), e2)" by (metis prod.exhaust)
      note o2 = conjunct1 [OF sync_close_only [OF sc]] and s2 = conjunct2 [OF sync_close_only [OF sc]]
      note ok2 = only_ok [OF ok1(1) only_weaken [OF o2]]
      show ?thesis
      proof (cases e2)
        case (Some x)
        with assms(2) nc h Inr True sc have "s' = s2" "w' = w2" "e = Some x" by (auto simp: Commit_def)
        moreover have "s2 = s \<or> s2 = s\<lparr>ws_f := None\<rparr>" using s2 Some by simp
        ultimately show ?thesis using ok1 ok2 drop_handles_ok(3) [OF ok2(1)] drop_handles_ok(4) [of s w2] by auto
      next
        case e2: None
        let ?s1 = "s\<lparr>ws_f := None, ws_old := None\<rparr>"
        have s2: "s2 = ?s1" using s2 e2 by simp
        obtain e3 w3 where sa: "set_attrs (ws_temp s) m t w2 = (e3, w3)" by force
        note n3 = set_attrs_no_data [OF sa]
        note ok3 = no_data_ok [OF ok2(1) n3]
        note ok3' = drop_handles_ok(1) [OF ok3(1)] drop_handles_ok(2) [of s w3]
        show ?thesis
        proof (cases e3)
          case (Some x)
          with assms(2) nc h Inr True sc e2 s2 sa have "s' = ?s1" "w' = w3" "e = Some x"
            by (auto simp: Commit_def)
          with ok1(2) ok2(2) ok3(2) ok3' show ?thesis by simp
        next
          case e3: None
          obtain e4 w4 where pb: "publish s m t now w3 = (e4, w4)" by force
          have sd: "same_device w3" "ws_temp s \<noteq> ws_dest s" using ok3(1) by (auto simp: session_ok_def)
          note eff = publish_effect [OF pb sd]
          show ?thesis
          proof (cases e4)
            case (Some x)
            with assms(2) nc h Inr True sc e2 s2 sa e3 pb have "s' = ?s1" "w' = w4" "e = Some x"
              by (auto simp: Commit_def)
            moreover have "no_data w3 w4" using eff Some by (simp add: no_data_def)
            note no_data_ok [OF ok3'(1) this]
            ultimately show ?thesis using ok1(2) ok2(2) ok3(2) ok3'(2) by simp
          next
            case None
            with assms(2) nc h Inr True sc e2 s2 sa e3 pb
            have r: "s' = ?s1\<lparr>ws_committed := True\<rparr>" "w' = w4" "e = None" by (auto simp: Commit_def)
            have tmp: "d_dir w3 (ws_temp s) = Some i"
              using ok3(1) i(1) by (auto simp: session_ok_def)
            have "i_data (d_inode w4 i) = i_data (d_inode w i)"
              using eff n3 o2 conjunct1 [OF hash_handle_only [OF h]] by (simp add: no_data_def only_def)
            moreover have "d_dir w4 (ws_dest s) = Some i" using eff None tmp by auto
            ultimately have "local_shown (s', w') = Some (i_data (d_inode w i))"
              by (simp add: r local_shown_def lookup_def)
            moreover have "session_ok (s', w')"
              using sd eff same_device_mono [OF sd(1)] by (auto simp: session_ok_def r)
            ultimately show ?thesis using r(3) nc i(2) True by simp
          qed
        qed
      qed
    qed
  qed
qed

lemma Abort_ok:
  assumes "session_ok (s, w)" and "Abort (s, w) = ((s', w'), e)"
  shows "session_ok (s', w') \<and> local_shown (s', w') = local_shown (s, w)"
proof (cases "ws_committed s")
  case True
  with assms show ?thesis by (simp add: Abort_def)
next
  case False
  obtain e1 w1 where r: "remove_path (ws_temp s) w = (e1, w1)" by force
  with assms(2) False have "s' = s\<lparr>ws_f := None, ws_old := None\<rparr>" "w' = w1" by (auto simp: Abort_def)
  moreover note remove_path_effect [OF r]
  ultimately show ?thesis
    using assms(1) same_device_mono [of w w1] by (auto simp: session_ok_def local_shown_def lookup_def)
qed

text \<open>The local backend keeps the contract of a staged write.\<close>

interpretation local_session: write_session "local_step H L now" session_ok local_shown H
  for H L now
proof
  fix sw a sw' e
  assume ok: "session_ok sw" and st: "local_step H L now a sw = (sw', e)"
  obtain s w s' w' where sw: "sw = (s, w)" "sw' = (s', w')" by (cases sw, cases sw') auto
  have "session_ok sw' \<and> (e = None \<and> commits a \<noteq> None \<and> \<not> ws_committed s \<or> local_shown sw' = local_shown sw)"
  proof (cases a)
    case (SWrite off c n d)
    with st sw WriteChunk_only [of L off c n d s w s' w' e] only_ok [of s w w'] ok
    show ?thesis by (simp add: local_step_def)
  next
    case (SReuse new old dg n)
    with st sw ReuseChunk_only [of H new old dg n s w s' w' e] only_ok [of s w w'] ok
    show ?thesis by (simp add: local_step_def)
  next
    case (SCommit d m t)
    with st sw Commit_cases [of s w H now d m t s' w' e] ok show ?thesis
      by (auto simp: local_step_def split: if_splits)
  next
    case SAbort
    with st sw Abort_ok [of s w s' w' e] ok show ?thesis by (simp add: local_step_def)
  qed
  then show "session_ok sw'" and "commits a = None \<Longrightarrow> local_shown sw' = local_shown sw" by auto
next
  fix sw a sw' e d
  assume ok: "session_ok sw" and st: "local_step H L now a sw = (sw', e)" and c: "commits a = Some d"
  obtain s w s' w' where sw: "sw = (s, w)" "sw' = (s', w')" by (cases sw, cases sw') auto
  from c obtain m t where "a = SCommit d m t" by (cases a) auto
  with st sw Commit_cases [of s w H now d m t s' w' e] ok
  show "local_shown sw' = local_shown sw \<or> (\<exists>c. local_shown sw' = Some c \<and> H c = d)"
    by (auto simp: local_step_def split: if_splits)
next
  fix sw a sw' x
  assume ok: "session_ok sw" and st: "local_step H L now a sw = (sw', Some x)"
  obtain s w s' w' where sw: "sw = (s, w)" "sw' = (s', w')" by (cases sw, cases sw') auto
  show "local_shown sw' = local_shown sw"
  proof (cases a)
    case (SCommit d m t)
    with st sw Commit_cases [of s w H now d m t s' w' "Some x"] ok show ?thesis
      by (auto simp: local_step_def)
  next
    case (SWrite off c n d)
    with st sw WriteChunk_only [of L off c n d s w s' w' "Some x"] only_ok(2) [of s w w'] ok
    show ?thesis by (simp add: local_step_def)
  next
    case (SReuse new old dg n)
    with st sw ReuseChunk_only [of H new old dg n s w s' w' "Some x"] only_ok(2) [of s w w'] ok
    show ?thesis by (simp add: local_step_def)
  next
    case SAbort
    with st sw Abort_ok [of s w s' w' "Some x"] ok show ?thesis by (simp add: local_step_def)
  qed
qed

text \<open>What \<open>BeginWrite\<close> returns is a sound session.\<close>

lemma no_script:
  "d_script w = [] \<Longrightarrow> sys w = (None, w)"
  by (simp add: sys_def)

definition fresh_ok :: "disk \<Rightarrow> bool" where
  "fresh_ok w \<longleftrightarrow> (\<forall>p i. d_dir w p = Some i \<longrightarrow> i < d_next w)"

lemma fresh_new: "fresh_ok w \<Longrightarrow> fresh_ok (new_inode p x w)"
  by (auto simp: fresh_ok_def new_inode_def less_Suc_eq)

lemma sys_fresh: "sys w = (r, w') \<Longrightarrow> fresh_ok w \<Longrightarrow> fresh_ok w' \<and> (same_device w \<longrightarrow> same_device w')"
  using sys_effect [of w r w'] by (auto simp: fresh_ok_def same_device_def)

lemma stat_fresh: "stat_path p w = (r, w') \<Longrightarrow> fresh_ok w \<Longrightarrow> fresh_ok w' \<and> (same_device w \<longrightarrow> same_device w')"
  by (auto simp: stat_path_def split: prod.splits option.splits dest: sys_fresh)

lemma mkdir_list_fresh:
  "mkdir_list ps w = (e, w') \<Longrightarrow> fresh_ok w \<Longrightarrow> fresh_ok w' \<and> (same_device w \<longrightarrow> same_device w')"
proof (induction ps arbitrary: w)
  case (Cons p ps)
  show ?case
  proof (cases "lookup w p")
    case None
    with Cons.prems(1) have "mkdir_list ps (new_inode p \<lparr>i_data = [], i_mod = 0, i_mode = 493, i_kind = KDir\<rparr> w) = (e, w')"
      by simp
    from Cons.IH [OF this fresh_new [OF Cons.prems(2)]] show ?thesis
      by (simp add: same_device_def new_inode_def)
  qed (use Cons in \<open>auto split: if_splits\<close>)
qed simp

lemma mkdir_all_fresh: "mkdir_all p w = (e, w') \<Longrightarrow> fresh_ok w \<Longrightarrow> fresh_ok w' \<and> (same_device w \<longrightarrow> same_device w')"
  by (auto simp: mkdir_all_def split: prod.splits option.splits dest: mkdir_list_fresh sys_fresh)

lemma ensure_fresh: "ensureStagingDir p w = (e, w') \<Longrightarrow> fresh_ok w \<Longrightarrow> fresh_ok w' \<and> (same_device w \<longrightarrow> same_device w')"
  by (auto simp: ensureStagingDir_def split: prod.splits sum.splits if_splits dest!: stat_fresh mkdir_all_fresh)

lemma staging_dir_fresh: "staging_dir t d w = (r, w') \<Longrightarrow> fresh_ok w \<Longrightarrow> fresh_ok w' \<and> (same_device w \<longrightarrow> same_device w')"
  by (auto simp: staging_dir_def Let_def split: prod.splits option.splits dest!: ensure_fresh)

lemma gc_fresh: "gcStaging rm now d w = (e, w') \<Longrightarrow> fresh_ok w \<Longrightarrow> fresh_ok w' \<and> (same_device w \<longrightarrow> same_device w')"
  by (auto simp: gcStaging_def fresh_ok_def same_device_def lookup_def split: prod.splits option.splits if_splits
      dest!: sys_effect)

lemma create_temp_ok:
  assumes "create_temp d rnd now w = (Inr (tmp, i), w')" and "fresh_ok w" and "same_device w"
  shows "fresh_ok w'" "same_device w'" "d_dir w' tmp = Some i" "\<forall>p. p \<noteq> tmp \<longrightarrow> d_dir w' p \<noteq> Some i"
    and "i_data (d_inode w' i) = []"
proof -
  from assms(1) obtain w1 where s: "sys w = (None, w1)" "i = d_next w1"
    "w' = new_inode tmp \<lparr>i_data = [], i_mod = now, i_mode = 384, i_kind = KRegular\<rparr> w1"
    by (auto simp: create_temp_def Let_def split: prod.splits option.splits if_splits)
  note f = sys_fresh [OF s(1) assms(2)]
  show "fresh_ok w'" using f fresh_new s(3) by simp
  show "same_device w'" using f assms(3) s(3) by (simp add: same_device_def new_inode_def)
  show "d_dir w' tmp = Some i" "i_data (d_inode w' i) = []" by (simp_all add: s new_inode_def)
  show "\<forall>p. p \<noteq> tmp \<longrightarrow> d_dir w' p \<noteq> Some i"
    using f by (auto simp: s new_inode_def fresh_ok_def)
qed

lemma open_old_only:
  "open_old S t rel s w = (s', w') \<Longrightarrow> only None w w' \<and> ws_dest s' = ws_dest s \<and> ws_temp s' = ws_temp s
     \<and> ws_f s' = ws_f s \<and> ws_size s' = ws_size s \<and> ws_committed s' = ws_committed s"
  by (auto simp: open_old_def Let_def split: prod.splits sum.splits if_splits dest!: stat_path_only intro: only_trans)

lemma BeginWrite_ok:
  assumes "BeginWrite S rm now rnd t rel sz w = (Inr s, w')" and "fresh_ok w" and "same_device w"
    and "ws_temp s \<noteq> ws_dest s"
  shows "session_ok (s, w')" and "ws_size s = sz" and "\<not> ws_committed s"
    and "\<exists>i. ws_f s = Some i \<and> i_data (d_inode w' i) = replicate (nat sz) 0"
proof -
  from assms(1) obtain dest tmpDir w1 w3 tmp i w4 where b: "local_abs S t rel = Inr dest"
    "staging_dir t dest w = (Inr tmpDir, w1)" "mkdir_all (DirPath dest) (snd (gcStaging rm now tmpDir w1)) = (None, w3)"
    "create_temp tmpDir rnd now w3 = (Inr (tmp, i), w4)"
    by (auto simp: BeginWrite_def Let_def split: sum.splits prod.splits option.splits)
  let ?ws = "\<lparr>ws_dest = dest, ws_temp = tmp, ws_f = Some i, ws_old = None, ws_oldSize = 0,
              ws_oldMod = 0, ws_size = sz, ws_committed = False\<rparr>"
  have f1: "fresh_ok w1 \<and> same_device w1" using staging_dir_fresh [OF b(2) assms(2)] assms(3) by blast
  obtain eg wg where g: "gcStaging rm now tmpDir w1 = (eg, wg)" by force
  have f2: "fresh_ok wg \<and> same_device wg" using gc_fresh [OF g] f1 by blast
  have f3: "fresh_ok w3 \<and> same_device w3" using mkdir_all_fresh [OF b(3)] f2 g by simp
  note ct = create_temp_ok [OF b(4) conjunct1 [OF f3] conjunct2 [OF f3]]
  have "\<exists>w5. open_old S t rel ?ws w5 = (s, w') \<and> fresh_ok w5 \<and> same_device w5 \<and> d_dir w5 = d_dir w4
      \<and> i_data (d_inode w5 i) = replicate (nat sz) 0"
  proof (cases "sz > 0")
    case False
    with assms(1) b ct show ?thesis by (auto simp: BeginWrite_def Let_def split: prod.splits)
  next
    case True
    then obtain w5 where s5: "sys w4 = (None, w5)"
      "open_old S t rel ?ws (upd_inode i (\<lambda>x. x\<lparr>i_data := replicate (nat sz) 0\<rparr>) w5) = (s, w')"
      using assms(1) b by (auto simp: BeginWrite_def Let_def split: prod.splits option.splits)
    with sys_fresh [OF s5(1) ct(1)] sys_effect [OF s5(1)] ct(2) show ?thesis
      by (intro exI [of _ "upd_inode i (\<lambda>x. x\<lparr>i_data := replicate (nat sz) 0\<rparr>) w5"])
        (auto simp: upd_inode_def fresh_ok_def same_device_def)
  qed
  then obtain w5 where w5: "open_old S t rel ?ws w5 = (s, w')" "same_device w5" "d_dir w5 = d_dir w4"
    "i_data (d_inode w5 i) = replicate (nat sz) 0" by blast
  note oo = open_old_only [OF w5(1)]
  then have s: "ws_dest s = dest" "ws_temp s = tmp" "ws_f s = Some i" "ws_size s = sz" "\<not> ws_committed s" by auto
  have d: "d_dir w' = d_dir w4" using oo w5(3) by (simp add: only_def)
  show "session_ok (s, w')"
    using assms(4) s ct(3,4) d same_device_mono [OF w5(2)] oo by (auto simp: session_ok_def only_def)
  show "ws_size s = sz" "\<not> ws_committed s" by (rule s)+
  show "\<exists>i. ws_f s = Some i \<and> i_data (d_inode w' i) = replicate (nat sz) 0"
    using s(3) oo w5(4) by (auto simp: only_def)
qed

section \<open>Executing a plan\<close>

text \<open>The calls the engine makes for a plan: missing chunks are sent as they are, the others reused.\<close>

definition plan_ops :: "bytes \<Rightarrow> plan \<Rightarrow> session_op list" where
  "plan_ops s p =
     map (\<lambda>c. SWrite (c_offset c) CodecNone (int (unat (c_length c))) (chunk_slice s c)) (p_missing p) @
     map (\<lambda>r. SReuse (re_new r) (re_old r) (re_digest r) (re_length r)) (p_reuse p)"

fun op_write :: "bytes \<Rightarrow> session_op \<Rightarrow> nat \<times> bytes" where
  "op_write d (SWrite off c n b) = (unat off, b)"
| "op_write d (SReuse new old dg n) = (unat new, take (nat n) (drop (unat old) d))"
| "op_write d _ = (0, [])"

text \<open>A session in the middle of a transfer without failures.\<close>

definition in_transfer :: "session \<Rightarrow> nat \<Rightarrow> bytes \<Rightarrow> disk \<Rightarrow> bool" where
  "in_transfer s i d w \<longleftrightarrow> session_ok (s, w) \<and> d_script w = [] \<and> ws_f s = Some i \<and> \<not> ws_committed s \<and>
     (\<forall>old. ws_old s = Some old \<longrightarrow>
        (\<exists>x. lookup w (ws_dest s) = Some x \<and> i_data x = d \<and> i_mod x = ws_oldMod s \<and> ws_oldSize s = int (length d)) \<and>
        old \<noteq> i \<and> i_data (d_inode w old) = d)"

fun good_op :: "(bytes \<Rightarrow> digest) \<Rightarrow> bytes \<Rightarrow> bytes \<Rightarrow> bool \<Rightarrow> session_op \<Rightarrow> bool" where
  "good_op H s d has_old (SWrite off c n b) \<longleftrightarrow> c = CodecNone \<and> part_of s (unat off, b)"
| "good_op H s d has_old (SReuse new old dg n) \<longleftrightarrow> has_old \<and> 0 < n \<and> n \<le> int (unat DefaultMaxSize) \<and>
     unat old + nat n \<le> length d \<and> H (take (nat n) (drop (unat old) d)) = dg \<and>
     part_of s (unat new, take (nat n) (drop (unat old) d))"
| "good_op H s d has_old _ \<longleftrightarrow> False"

lemma handle_write_good:
  assumes "d_script w = []" and "unat off < 2 ^ 63"
  shows "handle_write (Some i) off b w =
    (None, upd_inode i (\<lambda>x. x\<lparr>i_data := write_at (i_data x) (unat off) b\<rparr>) w)"
  using assms by (simp add: handle_write_def i64_of_u64_small sys_def Let_def)

lemma in_transfer_write:
  assumes "in_transfer s i d w"
  shows "in_transfer s i d (upd_inode i (\<lambda>x. x\<lparr>i_data := b\<rparr>) w)"
proof -
  let ?w = "upd_inode i (\<lambda>x. x\<lparr>i_data := b\<rparr>) w"
  have t: "session_ok (s, w)" "d_script w = []" "ws_f s = Some i" "\<not> ws_committed s"
    using assms by (simp_all add: in_transfer_def)
  have "only (ws_f s) w ?w" using t(3) by (auto simp: only_def upd_inode_def)
  from only_ok(1) [OF t(1) this] have "session_ok (s, ?w)" .
  moreover have "d_dir w (ws_dest s) \<noteq> Some i" using t(1,3) by (simp add: session_ok_def)
  then have "lookup ?w (ws_dest s) = lookup w (ws_dest s)"
    by (cases "d_dir w (ws_dest s)") (auto simp: lookup_def upd_inode_def)
  moreover have "d_script ?w = []" using t(2) by (simp add: upd_inode_def)
  moreover have "i_data (d_inode ?w j) = i_data (d_inode w j)" if "j \<noteq> i" for j
    using that by (simp add: upd_inode_def)
  ultimately show ?thesis using assms unfolding in_transfer_def by metis
qed

lemma write_range_ok:
  assumes "part_of s (unat off, b)" and "length s < 2 ^ 63"
  shows "ValidateWriteRange off (int (length b)) (int (length s)) = Inr ()" and "unat off < 2 ^ 63"
proof -
  have le: "unat off + length b \<le> length s" using assms(1) by (simp add: part_of_def)
  then show u: "unat off < 2 ^ 63" using assms(2) by linarith
  have i: "int (length b) < 2 ^ 63" "int (length s) < 2 ^ 63"
    using le assms(2) by (simp_all only: of_nat_less_numeral_power_cancel_iff)
  have "int (unat off) + int (length b) \<le> int (length s)" using le by (simp only: of_nat_add [symmetric] of_nat_le_iff)
  then show "ValidateWriteRange off (int (length b)) (int (length s)) = Inr ()"
    using range_end_ok [OF u _ i] by (simp add: ValidateWriteRange_def Let_def)
qed

lemma good_step:
  assumes "in_transfer s i d w" and "good_op H src d (ws_old s \<noteq> None) a" and "ws_size s = int (length src)"
    and "length src < 2 ^ 63" and "length d < 2 ^ 63"
  shows "local_step H L now a (s, w) =
    ((s, upd_inode i (\<lambda>x. x\<lparr>i_data := write_at (i_data x) (fst (op_write d a)) (snd (op_write d a))\<rparr>) w), None)"
proof -
  have t: "d_script w = []" "ws_f s = Some i" "\<not> ws_committed s" using assms(1) by (auto simp: in_transfer_def)
  show ?thesis
  proof (cases a)
    case (SWrite off c n b)
    with assms(2) have p: "c = CodecNone" "part_of src (unat off, b)" by auto
    note r = write_range_ok [OF p(2) assms(4)]
    show ?thesis
      using SWrite p(1) r(1) t assms(3) handle_write_good [OF t(1) r(2)]
      by (simp add: local_step_def WriteChunk_def Decode_def codec_defs)
  next
    case (SReuse new old dg n)
    let ?b = "take (nat n) (drop (unat old) d)"
    from SReuse assms(2) have g: "0 < n" "n \<le> int (unat DefaultMaxSize)" "unat old + nat n \<le> length d"
      "H ?b = dg" "part_of src (unat new, ?b)" and "ws_old s \<noteq> None" by auto
    then obtain o' where o: "ws_old s = Some o'" by blast
    with assms(1) obtain x where x: "lookup w (ws_dest s) = Some x" "i_data x = d" "i_mod x = ws_oldMod s"
      "ws_oldSize s = int (length d)" "i_data (d_inode w o') = d" by (auto simp: in_transfer_def)
    have lb: "length ?b = nat n" using g(3) by simp
    note r = write_range_ok [OF g(5) assms(4)]
    have uo: "unat old < 2 ^ 63" using g(3) assms(5) by linarith
    have rr: "ValidateReuseRange old n (int (length d)) = Inr ()"
    proof -
      have n63: "n < 2 ^ 63" using g(2) by (simp add: DefaultMaxSize_def)
      have l63: "int (length d) < 2 ^ 63" using assms(5) by (simp only: of_nat_less_numeral_power_cancel_iff)
      have "int (unat old) + n \<le> int (length d)" using g(1,3) by linarith
      then show ?thesis
        using range_end_ok [OF uo _ n63 l63] g(1,2) by (simp add: ValidateReuseRange_def Let_def)
    qed
    have ck: "checkOldUnchanged s w = (None, w)"
      using x t(1) by (simp add: checkOldUnchanged_def stat_path_def sys_def)
    have rd: "handle_read o' old (nat n) w = (Inr ?b, w)"
      using t(1) x(5) uo by (simp add: handle_read_def i64_of_u64_small sys_def Let_def)
    have n: "int (length ?b) = n" using lb g(1) by simp
    show ?thesis
      unfolding SReuse local_step_def ReuseChunk_def
      using o t ck rr rd n g(4) r(1) assms(3) x(4) handle_write_good [OF t(1) r(2), of i ?b]
      by (simp add: Let_def)
  qed (use assms(2) in auto)
qed

lemma run_good:
  "in_transfer s i d w \<Longrightarrow> \<forall>a \<in> set as. good_op H src d (ws_old s \<noteq> None) a \<Longrightarrow>
   ws_size s = int (length src) \<Longrightarrow> length src < 2 ^ 63 \<Longrightarrow> length d < 2 ^ 63 \<Longrightarrow>
   \<exists>w'. run_ops (local_step H L now) as (s, w) = ((s, w'), replicate (length as) None) \<and> in_transfer s i d w' \<and>
     i_data (d_inode w' i) = assemble (i_data (d_inode w i)) (map (op_write d) as)"
proof (induction as arbitrary: w)
  case Nil
  then show ?case by (simp add: assemble_def)
next
  case (Cons a as)
  obtain o1 b1 where op: "op_write d a = (o1, b1)" by force
  let ?w = "upd_inode i (\<lambda>x. x\<lparr>i_data := write_at (i_data x) o1 b1\<rparr>) w"
  have st: "local_step H L now a (s, w) = ((s, ?w), None)"
    using good_step [OF Cons.prems(1) _ Cons.prems(3-5), of H a L now] Cons.prems(2) op by simp
  have "?w = upd_inode i (\<lambda>x. x\<lparr>i_data := write_at (i_data (d_inode w i)) o1 b1\<rparr>) w"
    by (simp add: upd_inode_def)
  then have "in_transfer s i d ?w" using in_transfer_write [OF Cons.prems(1)] by simp
  moreover have "\<forall>a \<in> set as. good_op H src d (ws_old s \<noteq> None) a" using Cons.prems(2) by simp
  ultimately obtain w' where w': "run_ops (local_step H L now) as (s, ?w) = ((s, w'), replicate (length as) None)"
    "in_transfer s i d w'" "i_data (d_inode w' i) = assemble (i_data (d_inode ?w i)) (map (op_write d) as)"
    using Cons.IH [of ?w] Cons.prems(3-5) by blast
  moreover have "i_data (d_inode ?w i) = write_at (i_data (d_inode w i)) o1 b1" by (simp add: upd_inode_def)
  ultimately show ?case using st op by (intro exI [of _ w']) (simp add: assemble_def)
qed

lemma chmod_good:
  "d_script w = [] \<Longrightarrow> d_dir w p = Some i \<Longrightarrow> \<exists>w'. chmod_path p m w = (None, w') \<and> d_script w' = [] \<and>
   d_dir w' = d_dir w \<and> (\<forall>j. i_data (d_inode w' j) = i_data (d_inode w j))"
  by (simp add: chmod_path_def sys_def upd_inode_def)

lemma chtimes_good:
  "d_script w = [] \<Longrightarrow> d_dir w p = Some i \<Longrightarrow> \<exists>w'. chtimes_path p t w = (None, w') \<and> d_script w' = [] \<and>
   d_dir w' = d_dir w \<and> (\<forall>j. i_data (d_inode w' j) = i_data (d_inode w j))"
  by (simp add: chtimes_path_def sys_def upd_inode_def)

lemma set_attrs_good:
  assumes "d_script w = []" and "d_dir w p = Some i"
  shows "\<exists>w'. set_attrs p m t w = (None, w') \<and> d_script w' = [] \<and>
   d_dir w' = d_dir w \<and> (\<forall>j. i_data (d_inode w' j) = i_data (d_inode w j))"
proof -
  obtain w1 where w1: "(if m \<noteq> 0 then chmod_path p m w else (None, w)) = (None, w1)" "d_script w1 = []"
    "d_dir w1 = d_dir w" "\<forall>j. i_data (d_inode w1 j) = i_data (d_inode w j)"
    using chmod_good [OF assms, of m] assms(1) by (cases "m = 0") auto
  show ?thesis
  proof (cases t)
    case None
    with w1 show ?thesis by (simp add: set_attrs_def)
  next
    case (Some x)
    from chtimes_good [OF w1(2), of p i x] w1(3) assms(2) obtain w2 where
      "chtimes_path p x w1 = (None, w2)" "d_script w2 = []" "d_dir w2 = d_dir w1"
      "\<forall>j. i_data (d_inode w2 j) = i_data (d_inode w1 j)" by auto
    with w1 Some show ?thesis unfolding set_attrs_def by simp
  qed
qed

lemma Commit_good:
  assumes "in_transfer s i d w" and "i_data (d_inode w i) = src"
  shows "\<exists>s' w'. Commit H now (H src) m t (s, w) = ((s', w'), None) \<and> local_shown (s', w') = Some src"
proof -
  have t: "d_script w = []" "ws_f s = Some i" "\<not> ws_committed s" "d_dir w (ws_temp s) = Some i"
    "ws_temp s \<noteq> ws_dest s" using assms(1) by (auto simp: in_transfer_def session_ok_def)
  have sys: "sys w = (None, w)" if "d_script w = []" for w using that by (simp add: sys_def)
  obtain w3 where sa: "set_attrs (ws_temp s) m t w = (None, w3)" "d_script w3 = []" "d_dir w3 = d_dir w"
    "\<forall>j. i_data (d_inode w3 j) = i_data (d_inode w j)" using set_attrs_good [OF t(1,4)] by blast
  have "publish s m t now w3 = (None, w3\<lparr>d_dir := (d_dir w3)(ws_temp s := None, ws_dest s \<mapsto> i)\<rparr>)"
    using sa t by (simp add: publish_def rename_path_def sys)
  then show ?thesis
    using t sa assms(2) by (simp add: Commit_def hash_handle_def HashFile_def sync_close_def sys local_shown_def lookup_def)
qed

lemma in_transfer_ops:
  assumes "sig_of H s src" and "sig_of H d dest"
    and "inj_on H (chunk_slice s ` set (s_chunks src) \<union> chunk_slice d ` set (s_chunks dest))"
    and "\<forall>r \<in> set (p_reuse (Diff src dest)). re_length r \<le> int (unat DefaultMaxSize)"
    and "p_reuse (Diff src dest) \<noteq> [] \<longrightarrow> has_old"
  shows "\<forall>a \<in> set (plan_ops s (Diff src dest)). good_op H s d has_old a"
    and "set (map (op_write d) (plan_ops s (Diff src dest))) =
      set (missing_writes s (Diff src dest)) \<union> set (reuse_writes d (Diff src dest))"
proof -
  let ?m = "first_loc (s_chunks dest)"
  have D: "p_missing (Diff src dest) = filter (\<lambda>c. \<not> reusable ?m c) (s_chunks src)"
    "p_reuse (Diff src dest) = map (reuse_of ?m) (filter (reusable ?m) (s_chunks src))"
    by (simp_all add: Diff_eq Let_def)
  have r: "good_op H s d has_old (SReuse (re_new r) (re_old r) (re_digest r) (re_length r))"
    if "r \<in> set (p_reuse (Diff src dest))" for r
  proof -
    from that D obtain c where c: "c \<in> set (s_chunks src)" "reusable ?m c" "r = reuse_of ?m c" by auto
    note rs = reuse_of_slice [OF assms(1-3) c(1,2)]
    have "has_old" using that assms(5) by auto
    moreover have r3: "re_length r = int (unat (c_length c))" "re_new r = c_offset c" "re_digest r = c_digest c"
      by (simp_all add: c(3) reuse_of_def)
    moreover have "take (unat (c_length c)) (drop (unat (re_old r)) d) = chunk_slice s c"
      using rs(1) c(3) by (simp add: reuse_bytes_def reuse_of_def)
    moreover have le: "int (unat (c_length c)) \<le> int (unat DefaultMaxSize)"
      using bspec [OF assms(4) that] unfolding r3(1) .
    ultimately show ?thesis
      using rs(2) c(3) sig_of_chunk [OF assms(1) c(1)] sig_of_slices(2) [OF assms(1) c(1)] le
      by (simp del: of_nat_unat)
  qed
  show "\<forall>a \<in> set (plan_ops s (Diff src dest)). good_op H s d has_old a"
  proof
    fix a assume "a \<in> set (plan_ops s (Diff src dest))"
    then consider (m) c where "c \<in> set (p_missing (Diff src dest))"
        "a = SWrite (c_offset c) CodecNone (int (unat (c_length c))) (chunk_slice s c)"
      | (re) r where "r \<in> set (p_reuse (Diff src dest))" "a = SReuse (re_new r) (re_old r) (re_digest r) (re_length r)"
      unfolding plan_ops_def by auto
    then show "good_op H s d has_old a"
    proof cases
      case m
      then show ?thesis using sig_of_chunk(1) [OF assms(1), of c] by (simp add: D)
    next
      case re
      then show ?thesis using r [of r] by simp
    qed
  qed
  show "set (map (op_write d) (plan_ops s (Diff src dest))) =
      set (missing_writes s (Diff src dest)) \<union> set (reuse_writes d (Diff src dest))"
    by (auto simp: plan_ops_def missing_writes_def reuse_writes_def reuse_bytes_def image_iff)
qed

text \<open>The disk after \<open>BeginWrite\<close> holds \<open>d\<close> at the destination (nothing for the empty file).\<close>

definition dest_holds :: "nat os \<Rightarrow> local_transport \<Rightarrow> string \<Rightarrow> session \<Rightarrow> disk \<Rightarrow> bytes \<Rightarrow> bool" where
  "dest_holds S t rel s w d \<longleftrightarrow>
     (case d_dir w (ws_dest s) of
        None \<Rightarrow> d = []
      | Some old \<Rightarrow> i_kind (d_inode w old) = KRegular \<and> i_data (d_inode w old) = d \<and>
          fst (OpenConfined S (lt_root t) rel) = Inr old)"

lemma open_old_good:
  assumes "open_old S t rel ws w = (s, w')" and "d_script w = []" and "dest_holds S t rel ws w d"
    and "ws_old ws = None"
  shows "w' = w" and "ws_old s = d_dir w (ws_dest ws)"
    and "\<forall>old. ws_old s = Some old \<longrightarrow> ws_oldMod s = i_mod (d_inode w old) \<and> ws_oldSize s = int (length d)"
proof -
  have st: "stat_path p w = ((case lookup w p of None \<Rightarrow> Inl NotExist | Some x \<Rightarrow> Inr x), w)" for p
    using assms(2) by (simp add: stat_path_def sys_def)
  have "w' = w \<and> ws_old s = d_dir w (ws_dest ws) \<and>
    (\<forall>old. ws_old s = Some old \<longrightarrow> ws_oldMod s = i_mod (d_inode w old) \<and> ws_oldSize s = int (length d))"
    using assms by (cases "d_dir w (ws_dest ws)")
      (auto simp: open_old_def st lookup_def dest_holds_def Let_def)
  then show "w' = w" "ws_old s = d_dir w (ws_dest ws)"
    "\<forall>old. ws_old s = Some old \<longrightarrow> ws_oldMod s = i_mod (d_inode w old) \<and> ws_oldSize s = int (length d)" by auto
qed

lemma sys_none: "d_script w = [] \<Longrightarrow> sys w = (None, w)"
  by (simp add: sys_def)

lemma only_script: "only f w w' \<Longrightarrow> d_script w = [] \<Longrightarrow> d_script w' = []"
  by (simp add: only_def)

lemma mkdir_list_script: "mkdir_list ps w = (e, w') \<Longrightarrow> d_script w' = d_script w"
  by (induction ps arbitrary: w) (auto simp: new_inode_def split: option.splits if_splits)

lemma mkdir_all_script: "mkdir_all p w = (e, w') \<Longrightarrow> d_script w = [] \<Longrightarrow> d_script w' = []"
  by (auto simp: mkdir_all_def sys_none dest: mkdir_list_script)

lemma staging_script: "staging_dir t dest w = (r, w') \<Longrightarrow> d_script w = [] \<Longrightarrow> d_script w' = []"
  by (auto simp: staging_dir_def ensureStagingDir_def stat_path_def sys_none Let_def
      split: prod.splits sum.splits option.splits if_splits dest!: mkdir_all_script)

lemma BeginWrite_good:
  assumes "BeginWrite S rm now rnd t rel sz w = (Inr s, w')" and "fresh_ok w" and "d_script w = []"
    and "ws_temp s \<noteq> ws_dest s" and "dest_holds S t rel s w' d"
  shows "\<exists>i. in_transfer s i d w' \<and> i_data (d_inode w' i) = replicate (nat sz) 0 \<and> ws_size s = sz \<and>
    ws_old s = d_dir w' (ws_dest s)"
proof -
  have sd: "same_device w" using assms(3) by (simp add: same_device_def)
  note ok = BeginWrite_ok [OF assms(1,2) sd assms(4)]
  from ok(4) obtain i where i: "ws_f s = Some i" "i_data (d_inode w' i) = replicate (nat sz) 0" by blast
  from assms(1) obtain dest tmpDir w1 w3 tmp i0 w4 where b: "local_abs S t rel = Inr dest"
    "staging_dir t dest w = (Inr tmpDir, w1)" "mkdir_all (DirPath dest) (snd (gcStaging rm now tmpDir w1)) = (None, w3)"
    "create_temp tmpDir rnd now w3 = (Inr (tmp, i0), w4)"
    by (auto simp: BeginWrite_def Let_def split: sum.splits prod.splits option.splits)
  let ?ws = "\<lparr>ws_dest = dest, ws_temp = tmp, ws_f = Some i0, ws_old = None, ws_oldSize = 0,
              ws_oldMod = 0, ws_size = sz, ws_committed = False\<rparr>"
  have "d_script w1 = []" using staging_script [OF b(2) assms(3)] .
  then have "d_script (snd (gcStaging rm now tmpDir w1)) = []" by (simp add: gcStaging_def sys_none)
  then have "d_script w3 = []" using mkdir_all_script [OF b(3)] by simp
  then have s4: "d_script w4 = []" using b(4)
    by (auto simp: create_temp_def sys_none new_inode_def Let_def split: if_splits)
  have "\<exists>w5. open_old S t rel ?ws w5 = (s, w') \<and> d_script w5 = []"
  proof (cases "sz > 0")
    case False
    with assms(1) b s4 show ?thesis by (auto simp: BeginWrite_def Let_def split: prod.splits)
  next
    case True
    then have "open_old S t rel ?ws (upd_inode i0 (\<lambda>x. x\<lparr>i_data := replicate (nat sz) 0\<rparr>) w4) = (s, w')"
      using assms(1) b sys_none [OF s4] by (auto simp: BeginWrite_def Let_def split: prod.splits option.splits)
    then show ?thesis using s4 by (auto simp: upd_inode_def)
  qed
  then obtain w5 where w5: "open_old S t rel ?ws w5 = (s, w')" "d_script w5 = []" by blast
  note oo = open_old_only [OF w5(1)]
  have eq: "d_dir w' = d_dir w5" "d_inode w' = d_inode w5" using oo by (auto simp: only_def)
  have dd: "ws_dest s = dest" using oo by simp
  have "dest_holds S t rel ?ws w5 d" using assms(5) unfolding dest_holds_def eq dd by simp
  note g = open_old_good [OF w5(1,2) this]
  have o: "ws_old s = d_dir w' (ws_dest s)" using g(2) dd eq by simp
  have "in_transfer s i d w'"
    unfolding in_transfer_def
  proof (intro conjI allI impI)
    show "session_ok (s, w')" "\<not> ws_committed s" "ws_f s = Some i" by (fact ok(1) ok(3) i(1))+
    show "d_script w' = []" using g(1) w5(2) by simp
    fix old assume old: "ws_old s = Some old"
    then have dir: "d_dir w' (ws_dest s) = Some old" using o by simp
    with assms(5) have d: "i_data (d_inode w' old) = d" by (simp add: dest_holds_def)
    then show "i_data (d_inode w' old) = d" .
    show "old \<noteq> i" using ok(1) i(1) dir by (auto simp: session_ok_def)
    show "\<exists>x. lookup w' (ws_dest s) = Some x \<and> i_data x = d \<and> i_mod x = ws_oldMod s \<and> ws_oldSize s = int (length d)"
      using dir d g(3) old eq by (simp add: lookup_def)
  qed
  with i ok(2) o show ?thesis by blast
qed

lemma sig_of_empty: "sig_of H [] sig \<Longrightarrow> s_chunks sig = []"
  by (cases "s_chunks sig") (auto simp: sig_of_def dest: arg_cong [where f = set])

lemma Diff_no_dest: "s_chunks dest = [] \<Longrightarrow> p_reuse (Diff src dest) = []"
  by (auto simp: Diff_eq Let_def reusable_def filter_empty_conv dest!: first_loc_SomeD)

text \<open>A reuse that is longer than the default maximum is refused in every state of the session.\<close>

lemma ReuseChunk_too_long: "int (unat DefaultMaxSize) < len \<Longrightarrow> snd (ReuseChunk H new old dg len sw) \<noteq> None"
  by (auto simp: ReuseChunk_def ValidateReuseRange_def split: prod.splits option.splits)

lemma run_ops_fails:
  assumes "a \<in> set as" and "\<And>s. snd (step a s) \<noteq> None" and "run_ops step as s = (s', es)"
  shows "\<exists>e \<in> set es. e \<noteq> None"
  using assms(1,3)
proof (induction as arbitrary: s es)
  case Nil
  then show ?case by simp
next
  case (Cons b bs)
  obtain s1 e where b: "step b s = (s1, e)" by (cases "step b s")
  obtain es1 where es: "run_ops step bs s1 = (s', es1)" "es = e # es1" using Cons.prems(2) b by (auto split: prod.splits)
  show ?case
  proof (cases "a = b")
    case True
    then show ?thesis using assms(2) [of s] b es(2) by simp
  next
    case False
    then show ?thesis using Cons.IH [OF _ es(1)] Cons.prems(1) es(2) by auto
  qed
qed

text \<open>A directory with one file, seen through the system calls and as a disk.\<close>

definition demo_fs :: "nat os" where
  "demo_fs = \<lparr>os_cwd = Inr ''/'',
     os_lstat = (\<lambda>p. if p = ''/r'' \<or> p = ''/r/f'' then Inr False else Inl NotExist),
     os_evalsym = (\<lambda>p. if p = ''/r'' \<or> p = ''/r/f'' then Inr p else Inl NotExist),
     os_openat = (\<lambda>fd n d. if fd = 0 \<and> n = ''f'' then Inr 1 else Inl (Errno NotExist)),
     os_readlinkat = (\<lambda>fd n. if fd = 1 then Inr ''/r/f'' else Inr ''/r''),
     os_open_dir = (\<lambda>p. if p = ''/r'' then Inr 0 else Inl NotExist),
     os_open = (\<lambda>p. if p = ''/r/f'' then Inr 1 else Inl NotExist)\<rparr>"

definition demo_disk :: disk where
  "demo_disk = \<lparr>d_inode = (\<lambda>i. if i = 1 then \<lparr>i_data = [9, 1, 2], i_mod = 5, i_mode = 420, i_kind = KRegular\<rparr>
                                else \<lparr>i_data = [], i_mod = 0, i_mode = 493, i_kind = KDir\<rparr>),
     d_dir = [''/r'' \<mapsto> 0, ''/r/f'' \<mapsto> 1], d_next = 2, d_script = []\<rparr>"

definition demo_begin :: "session \<times> disk" where
  "demo_begin = (case BeginWrite demo_fs (\<lambda>p. True) 7 ''x'' \<lparr>lt_root = ''/r'', lt_nfs = False\<rparr> ''f'' 3 demo_disk of
     (r, w) \<Rightarrow> (projr r, w))"

lemma demo_begin_ok:
  "BeginWrite demo_fs (\<lambda>p. True) 7 ''x'' \<lparr>lt_root = ''/r'', lt_nfs = False\<rparr> ''f'' 3 demo_disk
     = (Inr (fst demo_begin), snd demo_begin)"
proof -
  have "isl (fst (BeginWrite demo_fs (\<lambda>p. True) 7 ''x'' \<lparr>lt_root = ''/r'', lt_nfs = False\<rparr> ''f'' 3 demo_disk)) = False"
    by code_simp
  then show ?thesis
    by (cases "BeginWrite demo_fs (\<lambda>p. True) 7 ''x'' \<lparr>lt_root = ''/r'', lt_nfs = False\<rparr> ''f'' 3 demo_disk")
      (auto simp: demo_begin_def isl_def)
qed

lemma demo_facts:
  "ws_dest (fst demo_begin) = ''/r/f''" "ws_temp (fst demo_begin) = ''/r/.quiksync.tmp/qs-x.partial''"
  "d_dir (snd demo_begin) ''/r/f'' = Some 1" "ws_f (fst demo_begin) = Some 3" "\<not> ws_committed (fst demo_begin)"
  "d_inode (snd demo_begin) 1 = \<lparr>i_data = [9, 1, 2], i_mod = 5, i_mode = 420, i_kind = KRegular\<rparr>"
  "fst (OpenConfined demo_fs ''/r'' ''f'') = Inr 1"
  by code_simp+

lemma demo_disk_ok: "fresh_ok demo_disk" "same_device demo_disk" "d_script demo_disk = []"
  by (auto simp: demo_disk_def fresh_ok_def same_device_def split: if_splits)

definition demo_ssig :: signature where
  "demo_ssig = \<lparr>s_size = 3, s_digest = [1, 2, 3], s_chunks =
     [\<lparr>c_offset = 0, c_length = 2, c_digest = [1, 2], c_data = None\<rparr>,
      \<lparr>c_offset = 2, c_length = 1, c_digest = [3], c_data = None\<rparr>]\<rparr>"

definition demo_dsig :: signature where
  "demo_dsig = \<lparr>s_size = 3, s_digest = [9, 1, 2], s_chunks =
     [\<lparr>c_offset = 0, c_length = 1, c_digest = [9], c_data = None\<rparr>,
      \<lparr>c_offset = 1, c_length = 2, c_digest = [1, 2], c_data = None\<rparr>]\<rparr>"

section \<open>Properties\<close>

text \<open>
  C13. A write through the local backend is all or nothing: whatever calls follow \<open>BeginWrite\<close>, in
  whatever order and with whatever system errors (short of a rename across devices), the destination shows
  what it showed, or content whose digest is the one a successful \<open>Commit\<close> was given.
\<close>
theorem local_write_atomic:
  assumes "BeginWrite S rm now rnd t rel sz w = (Inr s, w1)" and "fresh_ok w" and "same_device w"
    and "ws_temp s \<noteq> ws_dest s"
    and "run_ops (local_step H L now') ops (s, w1) = (sw, es)"
  shows "local_shown sw = local_shown (s, w1) \<or>
    (\<exists>i < length ops. \<exists>d c. commits (ops ! i) = Some d \<and> es ! i = None \<and> local_shown sw = Some c \<and> H c = d)"
  by (rule local_session.all_or_nothing [OF BeginWrite_ok(1) [OF assms(1-4)] assms(5)])

theorem local_write_atomic_witness:
  "let ops = [SWrite 0 CodecNone 2 [1, 2], SCommit [7] 0 None, SWrite 2 CodecNone 1 [3], SCommit [1, 2, 3] 0 None];
       r = run_ops (local_step (\<lambda>b. b) demo_lib 7) ops demo_begin
   in snd r = [None, Some (Msg ''digest mismatch: got %s want %s''), None, None] \<and>
      (local_shown (fst r) = local_shown demo_begin \<or>
       (\<exists>i < length ops. \<exists>d c. commits (ops ! i) = Some d \<and> snd r ! i = None \<and> local_shown (fst r) = Some c \<and> c = d)) \<and>
      local_shown demo_begin = Some [9, 1, 2] \<and> local_shown (fst r) = Some [1, 2, 3]"
proof -
  let ?ops = "[SWrite 0 CodecNone 2 [1, 2], SCommit [7] 0 None, SWrite 2 CodecNone 1 [3], SCommit [1, 2, 3] 0 None]"
  let ?r = "run_ops (local_step (\<lambda>b. b) demo_lib 7) ?ops demo_begin"
  have "snd ?r = [None, Some (Msg ''digest mismatch: got %s want %s''), None, None]"
    and "local_shown demo_begin = Some [9, 1, 2] \<and> local_shown (fst ?r) = Some [1, 2, 3]"
    by code_simp+
  moreover have t: "ws_temp (fst demo_begin) \<noteq> ws_dest (fst demo_begin)" by (simp add: demo_facts)
  have r: "run_ops (local_step (\<lambda>b. b) demo_lib 7) ?ops (fst demo_begin, snd demo_begin) = (fst ?r, snd ?r)"
    by (simp only: prod.collapse)
  note local_write_atomic [OF demo_begin_ok demo_disk_ok(1,2) t r]
  ultimately show ?thesis unfolding Let_def prod.collapse by blast
qed

text \<open>
  C14. On a disk where no call fails, sending the missing chunks of a plan and reusing the others through
  the session returns no error at all, and the commit publishes exactly the source's bytes, as long as no reused
  chunk is longer than the default maximum of a chunk (256 KiB); when one is, its reuse is refused and the file fails.
\<close>
theorem local_plan_executes:
  assumes "sig_of H src ssig" and "sig_of H d dsig"
    and "inj_on H (chunk_slice src ` set (s_chunks ssig) \<union> chunk_slice d ` set (s_chunks dsig))"
    and "BeginWrite S rm now rnd t rel (int (length src)) w = (Inr s, w1)" and "fresh_ok w" and "d_script w = []"
    and "ws_temp s \<noteq> ws_dest s" and "dest_holds S t rel s w1 d"
  shows "\<exists>sw es. run_ops (local_step H L now') (plan_ops src (Diff ssig dsig)) (s, w1) = (sw, es) \<and>
    (if \<forall>r \<in> set (p_reuse (Diff ssig dsig)). re_length r \<le> int (unat DefaultMaxSize)
     then es = replicate (length (plan_ops src (Diff ssig dsig))) None \<and>
       (\<exists>sw'. local_step H L now' (SCommit (H src) mode mtime) sw = (sw', None) \<and> local_shown sw' = Some src)
     else \<exists>e \<in> set es. e \<noteq> None)"
proof (cases "\<forall>r \<in> set (p_reuse (Diff ssig dsig)). re_length r \<le> int (unat DefaultMaxSize)")
  case True
  from BeginWrite_good [OF assms(4-8)] obtain i where i: "in_transfer s i d w1"
    "i_data (d_inode w1 i) = replicate (length src) 0" "ws_size s = int (length src)" "ws_old s = d_dir w1 (ws_dest s)"
    by auto
  have has_old: "p_reuse (Diff ssig dsig) \<noteq> [] \<longrightarrow> ws_old s \<noteq> None"
    using assms(2,8) i(4) sig_of_empty [of H dsig] Diff_no_dest [of dsig ssig]
    by (auto simp: dest_holds_def split: option.splits)
  have len: "length src < 2 ^ 63" "length d < 2 ^ 63" using assms(1,2) by (simp_all add: sig_of_def)
  note ops = in_transfer_ops [OF assms(1-3) True has_old]
  from run_good [OF i(1) ops(1) i(3) len, of L now'] obtain w2 where
    w2: "run_ops (local_step H L now') (plan_ops src (Diff ssig dsig)) (s, w1) =
         ((s, w2), replicate (length (plan_ops src (Diff ssig dsig))) None)"
      "in_transfer s i d w2"
      "i_data (d_inode w2 i) = assemble (i_data (d_inode w1 i)) (map (op_write d) (plan_ops src (Diff ssig dsig)))"
    by blast
  have "i_data (d_inode w2 i) = src"
    unfolding w2(3) i(2) by (rule plan_assembles [OF assms(1-3) _ ops(2)]) simp
  from Commit_good [OF w2(2) this, of H now' mode mtime] w2(1) True show ?thesis
    by (auto simp: local_step_def)
next
  case False
  then obtain r where r: "r \<in> set (p_reuse (Diff ssig dsig))" "int (unat DefaultMaxSize) < re_length r"
    by (auto simp: not_le)
  let ?a = "SReuse (re_new r) (re_old r) (re_digest r) (re_length r)"
  have "?a \<in> set (plan_ops src (Diff ssig dsig))" using r(1) by (auto simp: plan_ops_def)
  moreover have "snd (local_step H L now' ?a sw) \<noteq> None" for sw
    using ReuseChunk_too_long [OF r(2)] by (simp add: local_step_def split: prod.split)
  moreover obtain sw es where run: "run_ops (local_step H L now') (plan_ops src (Diff ssig dsig)) (s, w1) = (sw, es)"
    by (cases "run_ops (local_step H L now') (plan_ops src (Diff ssig dsig)) (s, w1)")
  ultimately have "\<exists>e \<in> set es. e \<noteq> None" by (rule run_ops_fails)
  with run show ?thesis unfolding if_not_P [OF False] by blast
qed

theorem local_plan_executes_witness:
  "let ops = plan_ops [1, 2, 3] (Diff demo_ssig demo_dsig)
   in length ops = 2 \<and>
     (\<exists>sw. run_ops (local_step (\<lambda>b. b) demo_lib 7) ops demo_begin = (sw, [None, None]) \<and>
       (\<exists>sw'. local_step (\<lambda>b. b) demo_lib 7 (SCommit [1, 2, 3] 420 (Some 9)) sw = (sw', None) \<and> local_shown sw' = Some [1, 2, 3]))"
proof -
  have s: "sig_of (\<lambda>b. b) [1, 2, 3] demo_ssig"
    unfolding sig_of_def demo_ssig_def by (auto intro!: exI [of _ False] exI [of _ "[[1, 2], [3]]"])
  have d: "sig_of (\<lambda>b. b) [9, 1, 2] demo_dsig"
    unfolding sig_of_def demo_dsig_def by (auto intro!: exI [of _ False] exI [of _ "[[9], [1, 2]]"])
  have "\<forall>r \<in> set (p_reuse (Diff demo_ssig demo_dsig)). re_length r = 2" by code_simp
  then have m: "\<forall>r \<in> set (p_reuse (Diff demo_ssig demo_dsig)). re_length r \<le> int (unat DefaultMaxSize)"
    by (simp add: DefaultMaxSize_def)
  have t: "ws_temp (fst demo_begin) \<noteq> ws_dest (fst demo_begin)" by (simp add: demo_facts)
  have h: "dest_holds demo_fs \<lparr>lt_root = ''/r'', lt_nfs = False\<rparr> ''f'' (fst demo_begin) (snd demo_begin) [9, 1, 2]"
    by (simp add: dest_holds_def demo_facts demo_facts [unfolded One_nat_def])
  have b: "BeginWrite demo_fs (\<lambda>p. True) 7 ''x'' \<lparr>lt_root = ''/r'', lt_nfs = False\<rparr> ''f'' (int (length [1, 2, 3::byte]))
      demo_disk = (Inr (fst demo_begin), snd demo_begin)"
    using demo_begin_ok by simp
  have l: "length (plan_ops [1, 2, 3] (Diff demo_ssig demo_dsig)) = 2" by code_simp
  let ?ops = "plan_ops [1, 2, 3] (Diff demo_ssig demo_dsig)"
  obtain sw es where r: "run_ops (local_step (\<lambda>b. b) demo_lib 7) ?ops (fst demo_begin, snd demo_begin) = (sw, es)"
    "es = replicate (length ?ops) None"
    "\<exists>sw'. local_step (\<lambda>b. b) demo_lib 7 (SCommit [1, 2, 3] 420 (Some 9)) sw = (sw', None) \<and> local_shown sw' = Some [1, 2, 3]"
    using local_plan_executes [OF s d inj_on_id2 b demo_disk_ok(1,3) t h, of demo_lib 7 420 "Some 9"]
    unfolding if_P [OF m] by blast
  have "run_ops (local_step (\<lambda>b. b) demo_lib 7) ?ops demo_begin = (sw, [None, None])"
    using r(1) unfolding r(2) l prod.collapse by (simp only: numeral_2_eq_2 replicate.simps)
  with l r(3) show ?thesis unfolding Let_def by blast
qed

text \<open>
  When the staging area is on another device, \<open>Commit\<close> copies over the destination in place: a
  failure in the middle of that copy returns an error and leaves the destination with a part of the new
  content, its old content lost.
\<close>
theorem local_commit_cross_device:
  assumes "session_ok (s, w\<lparr>d_script := []\<rparr>)" and "ws_f s = Some i" and "\<not> ws_committed s"
    and "d_dir w (ws_dest s) = Some j" and "i_data (d_inode w i) = src"
    and "d_script w = [None, None, None, None, Some (0, err_EXDEV), None, None, Some (n, e)]"
  shows "\<exists>sw. local_step H L now (SCommit (H src) 0 None) (s, w) = (sw, Some e) \<and>
    local_shown (s, w) = Some (i_data (d_inode w j)) \<and> local_shown sw = Some (take n src)"
proof -
  have t: "d_dir w (ws_temp s) = Some i" "j \<noteq> i" "ws_temp s \<noteq> ws_dest s"
    using assms(1,2,4) by (auto simp: session_ok_def)
  have h: "hash_handle H (Some i) w = (Inr (H src), w\<lparr>d_script := drop 2 (d_script w)\<rparr>)"
    using assms(5,6) by (simp add: hash_handle_def sys_def HashFile_def)
  have st: "stat_path (ws_temp s) (w\<lparr>d_script := [None, None, Some (n, e)]\<rparr>) =
    (Inr (d_inode w i), w\<lparr>d_script := [None, Some (n, e)]\<rparr>)"
    using t(1) by (simp add: stat_path_def sys_def lookup_def)
  have rn: "rename_path (ws_temp s) (ws_dest s) (w\<lparr>d_script := [Some (0, err_EXDEV), None, None, Some (n, e)]\<rparr>) =
    (Some err_EXDEV, w\<lparr>d_script := [None, None, Some (n, e)]\<rparr>)"
    by (simp add: rename_path_def sys_def)
  have cp: "copyAcrossDevices (ws_temp s) (ws_dest s) 0 None now (w\<lparr>d_script := [None, None, Some (n, e)]\<rparr>) =
    (Some e, upd_inode j (\<lambda>y. y\<lparr>i_data := take n src\<rparr>)
       (upd_inode j (\<lambda>y. y\<lparr>i_data := [], i_mod := now\<rparr>) (w\<lparr>d_script := []\<rparr>)))"
    unfolding copyAcrossDevices_def st using assms(4,5) by (simp add: sys_def upd_inode_def Let_def)
  show ?thesis
    using assms(2-6) t
    by (simp add: local_step_def Commit_def h sync_close_def sys_def set_attrs_def publish_def rn cp
        local_shown_def lookup_def upd_inode_def)
qed
theorem local_commit_cross_device_witness:
  "\<exists>sw. local_step (\<lambda>b. b) demo_lib 7 (SCommit [0, 0, 0] 0 None)
      (fst demo_begin, (snd demo_begin)\<lparr>d_script := [None, None, None, None, Some (0, err_EXDEV), None, None,
         Some (1, Msg ''no space left on device'')]\<rparr>) = (sw, Some (Msg ''no space left on device'')) \<and>
    local_shown demo_begin = Some [9, 1, 2] \<and> local_shown sw = Some [0]"
proof -
  let ?sc = "[None, None, None, None, Some (0, err_EXDEV), None, None, Some (1, Msg ''no space left on device'')]"
  have b: "session_ok (fst demo_begin, snd demo_begin)"
    by (rule BeginWrite_ok(1) [OF demo_begin_ok demo_disk_ok(1,2)]) (simp add: demo_facts)
  moreover have "d_script (snd demo_begin) = []" by code_simp
  then have "(snd demo_begin)\<lparr>d_script := []\<rparr> = snd demo_begin" by (cases "snd demo_begin") simp
  ultimately have ok: "session_ok (fst demo_begin, (snd demo_begin)\<lparr>d_script := ?sc\<rparr>\<lparr>d_script := []\<rparr>)"
    by simp
  have i: "i_data (d_inode ((snd demo_begin)\<lparr>d_script := ?sc\<rparr>) 3) = [0, 0, 0]" by code_simp
  have j: "d_dir ((snd demo_begin)\<lparr>d_script := ?sc\<rparr>) (ws_dest (fst demo_begin)) = Some 1" by (simp add: demo_facts)
  have sh: "local_shown demo_begin = Some [9, 1, 2]" by code_simp
  show ?thesis
    using local_commit_cross_device [OF ok demo_facts(4,5) j i, of 1 "Msg ''no space left on device''" "\<lambda>b. b" demo_lib 7] sh
    by auto
qed

end
