(* ===== verification/Transport.thy ===== *)
theory Transport
  imports WriteSession FsMeta Protocol
begin

text \<open>
  The interface of every backend (\<open>internal/transport/transport.go\<close>) as a record of operations over the
  backend's state, what a client reads off an error's text, and the locale \<open>store\<close>: the laws that
  the relay and the engine rely on.
\<close>

section \<open>Error texts\<close>

text \<open>\<open>err.Error()\<close>. The text of a wrapped error stands where the format has \<open>%w\<close>.\<close>

fun err_text :: "goerr \<Rightarrow> string" where
  "err_text EOF = ''EOF''"
| "err_text UnexpectedEOF = ''unexpected EOF''"
| "err_text NotExist = ''no such file or directory''"
| "err_text Canceled = ''context canceled''"
| "err_text DeadlineExceeded = ''context deadline exceeded''"
| "err_text (Msg s) = s"
| "err_text (Wrap f e) =
     (case str_index f ''%w'' of None \<Rightarrow> f | Some i \<Rightarrow> take i f @ err_text e @ drop (i + 2) f)"
| "err_text (Unstable e) = err_text e"

fun err_is :: "goerr \<Rightarrow> goerr \<Rightarrow> bool" where
  "err_is (Wrap f e) x \<longleftrightarrow> Wrap f e = x \<or> err_is e x"
| "err_is e x \<longleftrightarrow> e = x"

section \<open>The backend interface\<close>

record file_meta =
  fm_rel :: string
  fm_size :: int
  fm_mod :: int
  fm_mode :: u32

text \<open>\<open>UnixNano\<close> of the zero time.\<close>

definition zero_time :: int where "zero_time = - 6795364578871345152"

record ('t, 'w) backend =
  tr_caps :: caps
  tr_root :: string
  tr_walk :: "string list \<Rightarrow> 't \<Rightarrow> file_meta list res \<times> 't"
  tr_stat :: "string \<Rightarrow> 't \<Rightarrow> file_meta res \<times> 't"
  tr_open :: "string \<Rightarrow> 't \<Rightarrow> reader res \<times> 't"
  tr_remove :: "string \<Rightarrow> 't \<Rightarrow> goerr option \<times> 't"
  tr_mkdir :: "string \<Rightarrow> 't \<Rightarrow> goerr option \<times> 't"
  tr_begin :: "string \<Rightarrow> int \<Rightarrow> 't \<Rightarrow> 'w res \<times> 't"
  tr_step :: "session_op \<Rightarrow> 'w \<times> 't \<Rightarrow> ('w \<times> 't) \<times> goerr option"
  tr_sig :: "string \<Rightarrow> 't \<Rightarrow> signature res \<times> 't"

text \<open>\<open>Abort\<close>, whose error is ignored wherever it is called here.\<close>

definition aborted :: "('t, 'w) backend \<Rightarrow> 'w \<times> 't \<Rightarrow> 't" where
  "aborted B st = snd (fst (tr_step B SAbort st))"

text \<open>
  The laws of a store: \<open>cnt t k\<close> is the content of the file with identity \<open>k\<close>, \<open>nm\<close> maps a relative path to
  the identity it stands for, and \<open>usr\<close> are the identities a client may use (a backend keeps others for
  itself). Reading operations change no content, a removal changes at most its file, and a session opened
  for \<open>rel\<close> changes at most \<open>nm rel\<close>, by a commit; a first commit that succeeds has published content with
  the digest it was given.
\<close>

locale store =
  fixes B :: "('t, 'w) backend"
    and cnt :: "'t \<Rightarrow> string \<Rightarrow> bytes option"
    and nm :: "string \<Rightarrow> string"
    and usr :: "string \<Rightarrow> bool"
    and open_for :: "'w \<times> 't \<Rightarrow> string \<Rightarrow> bool"
    and H :: "bytes \<Rightarrow> digest"
  assumes walk: "tr_walk B ex t = (r, t') \<Longrightarrow> cnt t' = cnt t"
    and stat: "tr_stat B rel t = (st, t') \<Longrightarrow> cnt t' = cnt t"
    and open_keeps: "tr_open B rel t = (rd, t') \<Longrightarrow> cnt t' = cnt t"
    and remove: "tr_remove B rel t = (e, t') \<Longrightarrow> k \<noteq> nm rel \<Longrightarrow> cnt t' k = cnt t k"
    and mkdir: "tr_mkdir B rel t = (e, t') \<Longrightarrow> cnt t' = cnt t"
    and begin_keeps: "tr_begin B rel n t = (w, t') \<Longrightarrow> cnt t' = cnt t"
    and begin_for: "tr_begin B rel n t = (Inr s, t') \<Longrightarrow> open_for (s, t') (nm rel)"
    and step: "open_for (s, t) k \<Longrightarrow> usr k \<Longrightarrow> tr_step B a (s, t) = ((s', t'), e) \<Longrightarrow>
      open_for (s', t') k \<and> (\<forall>j. j \<noteq> k \<longrightarrow> cnt t' j = cnt t j) \<and> (commits a = None \<longrightarrow> cnt t' = cnt t)"
    and sig: "tr_sig B rel t = (g, t') \<Longrightarrow> cnt t' = cnt t"
    and fresh_commit: "tr_begin B rel n t = (Inr s, t1) \<Longrightarrow> usr (nm rel) \<Longrightarrow>
      \<forall>a \<in> set as. writes a \<Longrightarrow> run_ops (tr_step B) as (s, t1) = (st2, es) \<Longrightarrow>
      tr_step B (SCommit d m mt) st2 = ((s', t'), None) \<Longrightarrow> \<exists>c. cnt t' (nm rel) = Some c \<and> H c = d"
    and whole_write: "tr_begin B rel (int (length b)) t = (Inr s, t1) \<Longrightarrow> usr (nm rel) \<Longrightarrow>
      tr_step B (SWrite 0 CodecNone (int (length b)) b) (s, t1) = ((s2, t2), None) \<Longrightarrow>
      tr_step B (SCommit d m mt) (s2, t2) = ((s', t'), None) \<Longrightarrow> cnt t' (nm rel) = Some b"

text \<open>
  A store whose sessions do not depend on its state: they stay open for their file through any other call,
  and aborting one publishes nothing.
\<close>

locale detached_store = store +
  assumes open_any: "open_for (s, t) k \<Longrightarrow> open_for (s, t') k"
    and abort_quiet: "tr_step B SAbort (s, t) = ((s', t'), e) \<Longrightarrow> cnt t' = cnt t"

text \<open>A store whose files can be read to their end, and whose reader ends only where the file does.\<close>

locale readable_store = store +
  assumes open_ok: "tr_open B rel t = (Inr x, t') \<Longrightarrow> rd_ok x"
    and open_reads: "tr_open B rel t = (Inr x, t') \<Longrightarrow> usr (nm rel) \<Longrightarrow> rd_ok x \<Longrightarrow> cnt t (nm rel) = Some (rd_content x)"

context store
begin

lemma aborted_keeps: "open_for (s, t) k \<Longrightarrow> usr k \<Longrightarrow> cnt (aborted B (s, t)) = cnt t"
  using step [of s t k SAbort] by (cases "tr_step B SAbort (s, t)") (auto simp: aborted_def)

end

end
