(* ===== verification/S3.thy ===== *)
theory S3
  imports Transport "HOL-Library.AList"
begin

text \<open>
  The S3 backend (\<open>internal/transport/s3/s3.go\<close>) over the five calls of the \<open>API\<close> interface, and the
  in-process object store \<open>Memory\<close> (\<open>memory.go\<close>), on which the laws of the interface are proved. The
  AWS client is code outside the repository: every operation takes the calls as a record of functions.
  SHA-256 (\<open>sha\<close>) and the JSON text of a signature (\<open>enc\<close>, \<open>dec\<close>) are parameters.
\<close>

section \<open>The object store interface\<close>

type_synonym meta = "string \<rightharpoonup> string"

record head_out =
  ho_len :: int
  ho_mod :: "int option"
  ho_meta :: meta
  ho_etag :: string

record list_obj =
  lo_key :: string
  lo_size :: int
  lo_mod :: "int option"

record list_page =
  lp_objs :: "list_obj list"
  lp_truncated :: bool
  lp_next :: "string option"

record 'b s3_api =
  api_list :: "string \<Rightarrow> string \<Rightarrow> string option \<Rightarrow> 'b \<Rightarrow> list_page res \<times> 'b"
  api_head :: "string \<Rightarrow> string \<Rightarrow> 'b \<Rightarrow> head_out res \<times> 'b"
  api_get :: "string \<Rightarrow> string \<Rightarrow> (u64 \<times> u64) option \<Rightarrow> 'b \<Rightarrow> reader res \<times> 'b"
  api_put :: "string \<Rightarrow> string \<Rightarrow> bytes \<Rightarrow> meta \<Rightarrow> 'b \<Rightarrow> goerr option \<times> 'b"
  api_delete :: "string \<Rightarrow> string \<Rightarrow> 'b \<Rightarrow> goerr option \<times> 'b"

text \<open>
  What the backend relies on, for the objects of one bucket. A failed \<open>put\<close> or \<open>delete\<close> may have been
  applied; a body that breaks off is not a well-behaved reader and says nothing.
\<close>

locale s3_store =
  fixes A :: "'b s3_api" and bucket :: string and obj :: "'b \<Rightarrow> string \<Rightarrow> (bytes \<times> meta) option"
  assumes list_keeps: "api_list A bucket p tok x = (l, x') \<Longrightarrow> obj x' = obj x"
    and head_keeps: "api_head A bucket k x = (hr, x') \<Longrightarrow> obj x' = obj x"
    and head_reads: "api_head A bucket k x = (Inr h, x') \<Longrightarrow>
      \<exists>b m. obj x k = Some (b, m) \<and> ho_len h = int (length b) \<and> ho_meta h = m"
    and get_keeps: "api_get A bucket k rg x = (g, x') \<Longrightarrow> obj x' = obj x"
    and get_reads: "api_get A bucket k None x = (Inr r, x') \<Longrightarrow> rd_ok r \<Longrightarrow> \<exists>m. obj x k = Some (rd_content r, m)"
    and put_ok: "api_put A bucket k b m x = (None, x') \<Longrightarrow> obj x' = (obj x)(k \<mapsto> (b, m))"
    and put_failed: "api_put A bucket k b m x = (Some e, x') \<Longrightarrow> obj x' = obj x \<or> obj x' = (obj x)(k \<mapsto> (b, m))"
    and delete_keeps: "api_delete A bucket k x = (de, x') \<Longrightarrow> (\<forall>j. j \<noteq> k \<longrightarrow> obj x' j = obj x j)"

section \<open>The transport\<close>

definition metaBlake3 :: string where "metaBlake3 = ''quiksync-blake3''"
definition metaMode :: string where "metaMode = ''quiksync-mode''"
definition metaMod :: string where "metaMod = ''quiksync-mod-nano''"

record s3_transport =
  st_bucket :: string
  st_prefix :: string
  st_staging :: string
  st_reuse :: bool

text \<open>The staging directory: the option, or a directory below \<open>QUIKSYNC_CONFIG\<close>, the user's or the temporary one.\<close>

definition s3_staging_dir :: "string \<Rightarrow> string \<Rightarrow> string res \<Rightarrow> string \<Rightarrow> string" where
  "s3_staging_dir opt envConfig userDir tempDir =
     (if opt \<noteq> '''' then opt
      else if envConfig \<noteq> '''' then PathJoin [envConfig, ''s3-staging'']
      else case userDir of
        Inr h \<Rightarrow> PathJoin [h, ''quiksync'', ''s3-staging'']
      | Inl _ \<Rightarrow> PathJoin [tempDir, ''quiksync-s3-staging''])"

text \<open>\<open>New\<close>: \<open>mkdir\<close> and \<open>client\<close> are the outcomes of \<open>MkdirAll\<close> and of the client's construction.\<close>

definition s3_new ::
  "string \<Rightarrow> string \<Rightarrow> string \<Rightarrow> goerr option \<Rightarrow> goerr option \<Rightarrow> s3_transport res" where
  "s3_new host path staging mkdir client =
     (if host = '''' then Inl (Msg ''s3: missing bucket'')
      else case mkdir of
        Some e \<Rightarrow> Inl e
      | None \<Rightarrow>
          (case client of
             Some e \<Rightarrow> Inl (Wrap ''s3 config: %w'' e)
           | None \<Rightarrow> Inr \<lparr>st_bucket = host, st_prefix = trim_both CHR ''/'' path, st_staging = staging, st_reuse = True\<rparr>))"

definition s3_caps :: "s3_transport \<Rightarrow> caps" where
  "s3_caps t = \<lparr>SupportsDelta = True, SupportsMultiplex = True, SupportsResume = True, SupportsReuseChunk = st_reuse t\<rparr>"

definition s3_root :: "s3_transport \<Rightarrow> string" where
  "s3_root t = (if st_prefix t = '''' then ''s3://'' @ st_bucket t else ''s3://'' @ st_bucket t @ ''/'' @ st_prefix t)"

definition s3_key :: "s3_transport \<Rightarrow> string \<Rightarrow> string" where
  "s3_key t rel0 =
     (let rel = TrimPrefix (Clean (CHR ''/'' # rel0)) ''/'' in
      if st_prefix t = '''' then rel
      else if rel = '''' \<or> rel = ''.'' then st_prefix t
      else st_prefix t @ ''/'' @ rel)"

definition sigKey :: "(string \<Rightarrow> bytes) \<Rightarrow> s3_transport \<Rightarrow> string \<Rightarrow> string" where
  "sigKey sha t rel =
     (let name = digest_string (take 16 (sha rel)) @ ''.json'' in
      if st_prefix t = '''' then ''.quiksync/sigs/'' @ name else st_prefix t @ ''/.quiksync/sigs/'' @ name)"

section \<open>Listing\<close>

fun s3_matchExclude :: "string \<Rightarrow> string list \<Rightarrow> bool" where
  "s3_matchExclude rel [] = False"
| "s3_matchExclude rel (p # ps) = (glob_match p rel \<or> glob_match p (BasePath rel) \<or> s3_matchExclude rel ps)"

definition s3_entry :: "s3_transport \<Rightarrow> string list \<Rightarrow> list_obj \<Rightarrow> file_meta option" where
  "s3_entry t exclude ob =
     (let k = lo_key ob in
      if Contains k ''/.quiksync.tmp/'' \<or> Contains k ''/.quiksync/'' \<or> HasPrefix k ''.quiksync.tmp/''
         \<or> HasPrefix k ''.quiksync/'' then None
      else
        let rel = (if st_prefix t \<noteq> '''' then TrimPrefix k (st_prefix t @ ''/'') else k) in
        if rel = '''' \<or> HasSuffix k ''/'' then None
        else if s3_matchExclude rel exclude then None
        else Some \<lparr>fm_rel = rel, fm_size = lo_size ob, fm_mod = (case lo_mod ob of None \<Rightarrow> zero_time | Some m \<Rightarrow> m),
                   fm_mode = 420\<rparr>)"

text \<open>The pages of a listing may go on for ever.\<close>

partial_function (option) s3_walk_loop ::
  "'b s3_api \<Rightarrow> s3_transport \<Rightarrow> string list \<Rightarrow> string \<Rightarrow> string option \<Rightarrow> file_meta list \<Rightarrow> 'b
     \<Rightarrow> (file_meta list res \<times> 'b) option" where
  "s3_walk_loop A t exclude prefix token out x =
     (case api_list A (st_bucket t) prefix token x of
        (Inl e, x') \<Rightarrow> Some (Inl e, x')
      | (Inr pg, x') \<Rightarrow>
          let out' = out @ List.map_filter (s3_entry t exclude) (lp_objs pg) in
          if \<not> lp_truncated pg then Some (Inr out', x')
          else s3_walk_loop A t exclude prefix (lp_next pg) out' x')"

definition s3_walk :: "'b s3_api \<Rightarrow> s3_transport \<Rightarrow> string list \<Rightarrow> 'b \<Rightarrow> (file_meta list res \<times> 'b) option" where
  "s3_walk A t exclude x =
     (let p = st_prefix t; prefix = (if p \<noteq> '''' \<and> \<not> HasSuffix p ''/'' then p @ ''/'' else p)
      in s3_walk_loop A t exclude prefix None [] x)"

section \<open>Single objects\<close>

text \<open>\<open>Sscanf\<close> with \<open>%d\<close>: white space, a sign and the digits that follow; the rest is ignored.\<close>

definition scan_int :: "string \<Rightarrow> int option" where
  "scan_int s0 =
     (let s = dropWhile (\<lambda>c. c \<in> set space_chars) s0;
          neg = HasPrefix s ''-'';
          s' = (if neg \<or> HasPrefix s ''+'' then tl s else s);
          ds = takeWhile is_digit s';
          v = (if neg then - digits_val 0 ds else digits_val 0 ds)
      in if ds = [] then None else if fits64 v then Some v else None)"

definition scan_u32 :: "string \<Rightarrow> u32 option" where
  "scan_u32 s0 =
     (let s = dropWhile (\<lambda>c. c \<in> set space_chars) s0; ds = takeWhile is_digit s; v = digits_val 0 ds
      in if ds = [] then None else if v < 2 ^ 32 then Some (word_of_int v) else None)"

definition s3_stat :: "'b s3_api \<Rightarrow> s3_transport \<Rightarrow> string \<Rightarrow> 'b \<Rightarrow> file_meta res \<times> 'b" where
  "s3_stat A t rel x =
     (case api_head A (st_bucket t) (s3_key t rel) x of
        (Inl e, x') \<Rightarrow> (Inl e, x')
      | (Inr h, x') \<Rightarrow>
          let mt0 = (case ho_mod h of None \<Rightarrow> zero_time | Some m \<Rightarrow> m);
              mt = (case ho_meta h metaMod of None \<Rightarrow> mt0
                    | Some v \<Rightarrow> (case scan_int v of None \<Rightarrow> mt0 | Some n \<Rightarrow> n));
              mode = (case ho_meta h metaMode of None \<Rightarrow> 420
                      | Some v \<Rightarrow> (case scan_u32 v of None \<Rightarrow> 420 | Some m \<Rightarrow> m))
          in (Inr \<lparr>fm_rel = rel, fm_size = ho_len h, fm_mod = mt, fm_mode = mode\<rparr>, x'))"

definition s3_open :: "'b s3_api \<Rightarrow> s3_transport \<Rightarrow> string \<Rightarrow> 'b \<Rightarrow> reader res \<times> 'b" where
  "s3_open A t rel x = api_get A (st_bucket t) (s3_key t rel) None x"

definition isNotFound :: "goerr \<Rightarrow> bool" where
  "isNotFound e =
     (let msg = ToLower (err_text e) in
      Contains msg ''notfound'' \<or> Contains msg ''not found'' \<or> Contains msg ''nosuchkey''
      \<or> Contains msg ''no such key'' \<or> Contains msg ''404'')"

definition s3_remove :: "(string \<Rightarrow> bytes) \<Rightarrow> 'b s3_api \<Rightarrow> s3_transport \<Rightarrow> string \<Rightarrow> 'b \<Rightarrow> goerr option \<times> 'b" where
  "s3_remove sha A t rel x =
     (case api_delete A (st_bucket t) (s3_key t rel) x of
        (Some e, x1) \<Rightarrow> (Some e, x1)
      | (None, x1) \<Rightarrow>
          (case api_delete A (st_bucket t) (sigKey sha t rel) x1 of
             (Some e, x2) \<Rightarrow> (if isNotFound e then None else Some (Wrap ''delete signature sidecar: %w'' e), x2)
           | (None, x2) \<Rightarrow> (None, x2)))"

definition s3_mkdir :: "string \<Rightarrow> 'b \<Rightarrow> goerr option \<times> 'b" where
  "s3_mkdir rel x = (None, x)"

section \<open>Signatures\<close>

definition default_options :: options where
  "default_options = \<lparr>o_avg = 0, o_min = 0, o_max = 0, o_keep = False\<rparr>"

definition sidecarBoundToObject ::
  "'b s3_api \<Rightarrow> s3_transport \<Rightarrow> string \<Rightarrow> signature \<Rightarrow> 'b \<Rightarrow> bool \<times> 'b" where
  "sidecarBoundToObject A t rel sg x =
     (case api_head A (st_bucket t) (s3_key t rel) x of
        (Inl e, x') \<Rightarrow> (False, x')
      | (Inr h, x') \<Rightarrow>
          if ho_len h \<noteq> s_size sg then (False, x')
          else (ho_meta h metaBlake3 = Some (digest_string (s_digest sg)) \<or>
                ho_meta h (ToLower metaBlake3) = Some (digest_string (s_digest sg)), x'))"

text \<open>Hashing the object itself.\<close>

definition s3_rehash ::
  "(bytes \<Rightarrow> digest) \<Rightarrow> 'b s3_api \<Rightarrow> s3_transport \<Rightarrow> string \<Rightarrow> 'b \<Rightarrow> signature res option \<times> 'b" where
  "s3_rehash H A t rel x =
     (case s3_open A t rel x of
        (Inl e, x1) \<Rightarrow> (Some (if isNotFound e then Inr empty_signature else Inl e), x1)
      | (Inr r, x1) \<Rightarrow>
          (case s3_stat A t rel x1 of
             (Inl e, x2) \<Rightarrow> (Some (Inl e), x2)
           | (Inr st, x2) \<Rightarrow> (ChunkReader H r (fm_size st) default_options, x2)))"

definition s3_signature ::
  "(bytes \<Rightarrow> digest) \<Rightarrow> (string \<Rightarrow> bytes) \<Rightarrow> (bytes \<Rightarrow> signature option) \<Rightarrow> 'b s3_api \<Rightarrow> s3_transport \<Rightarrow> string \<Rightarrow> 'b
     \<Rightarrow> signature res option \<times> 'b" where
  "s3_signature H sha dec A t rel x =
     (case api_get A (st_bucket t) (sigKey sha t rel) None x of
        (Inl e, x1) \<Rightarrow> s3_rehash H A t rel x1
      | (Inr r, x1) \<Rightarrow>
          (case dec (rd_content r) of
             None \<Rightarrow> s3_rehash H A t rel x1
           | Some sg \<Rightarrow>
               if s_chunks sg = [] then s3_rehash H A t rel x1
               else (case sidecarBoundToObject A t rel sg x1 of
                       (True, x2) \<Rightarrow> (Some (Inr sg), x2)
                     | (False, x2) \<Rightarrow> s3_rehash H A t rel x2)))"

section \<open>The write session\<close>

text \<open>
  The staging file is reachable only through the session, so its content is kept there. Its system calls
  take their outcomes from a script, as those of the local backend do.
\<close>

record s3_session =
  sw_rel :: string
  sw_key :: string
  sw_size :: int
  sw_f :: "bytes option"
  sw_committed :: bool
  sw_hasOld :: bool
  sw_oldSize :: int
  sw_oldETag :: string

record 'b s3_world =
  sx_api :: 'b
  sx_script :: "(nat \<times> goerr) option list"

definition s3_sys :: "'b s3_world \<Rightarrow> (nat \<times> goerr) option \<times> 'b s3_world" where
  "s3_sys w = (case sx_script w of [] \<Rightarrow> (None, w) | s # ss \<Rightarrow> (s, w\<lparr>sx_script := ss\<rparr>))"

definition s3_call :: "('b \<Rightarrow> 'r \<times> 'b) \<Rightarrow> 'b s3_world \<Rightarrow> 'r \<times> 'b s3_world" where
  "s3_call f w = (case f (sx_api w) of (r, x) \<Rightarrow> (r, w\<lparr>sx_api := x\<rparr>))"

definition s3_begin :: "'b s3_api \<Rightarrow> s3_transport \<Rightarrow> string \<Rightarrow> int \<Rightarrow> 'b s3_world \<Rightarrow> s3_session res \<times> 'b s3_world" where
  "s3_begin A t rel sz w =
     (case s3_sys w of
        (Some (n, e), w1) \<Rightarrow> (Inl e, w1)
      | (None, w1) \<Rightarrow>
          (case (if sz > 0 then s3_sys w1 else (None, w1)) of
             (Some (n, e), w2) \<Rightarrow> (Inl e, w2)
           | (None, w2) \<Rightarrow>
               let ws = \<lparr>sw_rel = rel, sw_key = s3_key t rel, sw_size = sz, sw_f = Some (replicate (nat sz) 0),
                         sw_committed = False, sw_hasOld = False, sw_oldSize = 0, sw_oldETag = ''''\<rparr> in
               (case s3_call (api_head A (st_bucket t) (sw_key ws)) w2 of
                  (Inr h, w3) \<Rightarrow> (Inr (ws\<lparr>sw_hasOld := True, sw_oldSize := ho_len h, sw_oldETag := ho_etag h\<rparr>), w3)
                | (Inl e, w3) \<Rightarrow> (Inr ws, w3))))"

definition s3_write_at :: "u64 \<Rightarrow> bytes \<Rightarrow> s3_session \<times> 'b s3_world \<Rightarrow> (s3_session \<times> 'b s3_world) \<times> goerr option" where
  "s3_write_at offset b sw =
     (let (s, w) = sw in
      case sw_f s of
        None \<Rightarrow> ((s, w), Some (Msg ''invalid argument''))
      | Some d \<Rightarrow>
          let off = i64_of_u64 offset in
          if off < 0 then ((s, w), Some (Msg ''negative offset''))
          else (case s3_sys w of
                  (Some (n, e), w') \<Rightarrow> ((s\<lparr>sw_f := Some (write_at d (nat off) (take n b))\<rparr>, w'), Some e)
                | (None, w') \<Rightarrow> ((s\<lparr>sw_f := Some (write_at d (nat off) b)\<rparr>, w'), None)))"

definition s3_WriteChunk ::
  "codec_lib \<Rightarrow> u64 \<Rightarrow> codec \<Rightarrow> int \<Rightarrow> bytes \<Rightarrow> s3_session \<times> 'b s3_world \<Rightarrow> (s3_session \<times> 'b s3_world) \<times> goerr option" where
  "s3_WriteChunk L offset cdc uncompressedLen data sw =
     (let (s, w) = sw in
      if sw_committed s then ((s, w), Some (Msg ''write after commit''))
      else case Decode L cdc data uncompressedLen of
        Inl e \<Rightarrow> ((s, w), Some e)
      | Inr raw \<Rightarrow>
          (case ValidateWriteRange offset (int (length raw)) (sw_size s) of
             Inl e \<Rightarrow> ((s, w), Some e)
           | Inr _ \<Rightarrow> s3_write_at offset raw (s, w)))"

definition s3_checkOld :: "'b s3_api \<Rightarrow> s3_transport \<Rightarrow> s3_session \<Rightarrow> 'b s3_world \<Rightarrow> goerr option \<times> 'b s3_world" where
  "s3_checkOld A t s w =
     (if \<not> sw_hasOld s then (Some (Msg ''s3 reuse: no existing object''), w)
      else case s3_call (api_head A (st_bucket t) (sw_key s)) w of
        (Inl e, w') \<Rightarrow> (Some (Wrap ''s3 reuse TOCTOU: %w'' e), w')
      | (Inr h, w') \<Rightarrow>
          if ho_len h \<noteq> sw_oldSize s \<or> ho_etag h \<noteq> sw_oldETag s
          then (Some (Msg ''s3 reuse TOCTOU: object changed during write''), w')
          else (None, w'))"

definition s3_ReuseChunk ::
  "(bytes \<Rightarrow> digest) \<Rightarrow> 'b s3_api \<Rightarrow> s3_transport \<Rightarrow> u64 \<Rightarrow> u64 \<Rightarrow> digest \<Rightarrow> int \<Rightarrow> s3_session \<times> 'b s3_world
     \<Rightarrow> (s3_session \<times> 'b s3_world) \<times> goerr option" where
  "s3_ReuseChunk H A t newOffset oldOffset dg len sw =
     (let (s, w) = sw in
      if sw_committed s then ((s, w), Some (Msg ''reuse after commit''))
      else if \<not> st_reuse t then ((s, w), Some (Msg ''s3 reuse not enabled''))
      else case ValidateReuseRange oldOffset len (if sw_hasOld s then sw_oldSize s else -1) of
        Inl e \<Rightarrow> ((s, w), Some e)
      | Inr _ \<Rightarrow>
          (case ValidateWriteRange newOffset len (sw_size s) of
             Inl e \<Rightarrow> ((s, w), Some e)
           | Inr _ \<Rightarrow>
               (case s3_checkOld A t s w of
                  (Some e, w1) \<Rightarrow> ((s, w1), Some e)
                | (None, w1) \<Rightarrow>
                    (case s3_call (api_get A (st_bucket t) (sw_key s)
                                     (Some (oldOffset, oldOffset + word_of_int len - 1))) w1 of
                       (Inl e, w2) \<Rightarrow> ((s, w2), Some (Wrap ''s3 reuse get: %w'' e))
                     | (Inr r, w2) \<Rightarrow>
                         (case read_full r (nat len) of
                            (buf, Some e, _) \<Rightarrow> ((s, w2), Some e)
                          | (buf, None, _) \<Rightarrow>
                              if H buf \<noteq> dg then ((s, w2), Some (Msg ''s3 reuse digest mismatch''))
                              else s3_write_at newOffset buf (s, w2))))))"

definition s3_metadata :: "digest \<Rightarrow> u32 \<Rightarrow> int option \<Rightarrow> meta" where
  "s3_metadata expected mode modTime =
     (let m = [metaBlake3 \<mapsto> digest_string expected, metaMode \<mapsto> format_int (uint mode)]
      in case modTime of None \<Rightarrow> m | Some n \<Rightarrow> m(metaMod \<mapsto> format_int n))"

text \<open>The staging file is a plain file: its reader never fails, and with default options chunking it returns.\<close>

definition staged_signature :: "(bytes \<Rightarrow> digest) \<Rightarrow> bytes \<Rightarrow> int \<Rightarrow> signature res" where
  "staged_signature H d n = the (ChunkReader H (file_reader d) n default_options)"

definition s3_Commit ::
  "(bytes \<Rightarrow> digest) \<Rightarrow> (string \<Rightarrow> bytes) \<Rightarrow> (signature \<Rightarrow> bytes res) \<Rightarrow> 'b s3_api \<Rightarrow> s3_transport \<Rightarrow> digest \<Rightarrow> u32
     \<Rightarrow> int option \<Rightarrow> s3_session \<times> 'b s3_world \<Rightarrow> (s3_session \<times> 'b s3_world) \<times> goerr option" where
  "s3_Commit H sha enc A t expected mode modTime sw =
     (let (s, w) = sw in
      if sw_committed s then ((s, w), None)
      else case sw_f s of
        None \<Rightarrow> ((s, w), Some (Msg ''invalid argument''))
      | Some d \<Rightarrow>
          (case s3_sys w of
             (Some (n, e), w1) \<Rightarrow> ((s, w1), Some e)
           | (None, w1) \<Rightarrow>
               (case staged_signature H d (sw_size s) of
                  Inl e \<Rightarrow> ((s, w1), Some e)
                | Inr sg \<Rightarrow>
                    if s_digest sg \<noteq> expected then ((s, w1), Some (Msg ''digest mismatch: got %s want %s''))
                    else
                      let sg' = sg\<lparr>s_chunks := map (\<lambda>c. c\<lparr>c_data := None\<rparr>) (s_chunks sg)\<rparr> in
                      (case s3_sys w1 of
                         (Some (n, e), w2) \<Rightarrow> ((s, w2), Some e)
                       | (None, w2) \<Rightarrow>
                           (case s3_call (api_put A (st_bucket t) (sw_key s) d (s3_metadata expected mode modTime)) w2 of
                              (Some e, w3) \<Rightarrow> ((s, w3), Some e)
                            | (None, w3) \<Rightarrow>
                                let s1 = s\<lparr>sw_f := None\<rparr> in
                                (case enc sg' of
                                   Inl e \<Rightarrow> ((s1, w3), Some (Wrap ''signature sidecar: %w'' e))
                                 | Inr body \<Rightarrow>
                                     (case s3_call (api_put A (st_bucket t) (sigKey sha t (sw_rel s)) body Map.empty) w3 of
                                        (Some e, w4) \<Rightarrow> ((s1, w4), Some (Wrap ''signature sidecar: %w'' e))
                                      | (None, w4) \<Rightarrow> ((s1\<lparr>sw_committed := True\<rparr>, w4), None)))))))) "

definition s3_Abort :: "s3_session \<times> 'b s3_world \<Rightarrow> (s3_session \<times> 'b s3_world) \<times> goerr option" where
  "s3_Abort sw = (let (s, w) = sw in if sw_committed s then ((s, w), None) else ((s\<lparr>sw_f := None\<rparr>, w), None))"

definition s3_step ::
  "(bytes \<Rightarrow> digest) \<Rightarrow> codec_lib \<Rightarrow> (string \<Rightarrow> bytes) \<Rightarrow> (signature \<Rightarrow> bytes res) \<Rightarrow> 'b s3_api \<Rightarrow> s3_transport \<Rightarrow> session_op
     \<Rightarrow> s3_session \<times> 'b s3_world \<Rightarrow> (s3_session \<times> 'b s3_world) \<times> goerr option" where
  "s3_step H L sha enc A t a sw =
     (case a of
        SWrite off cdc len data \<Rightarrow> s3_WriteChunk L off cdc len data sw
      | SReuse new old dg len \<Rightarrow> s3_ReuseChunk H A t new old dg len sw
      | SCommit d mode mt \<Rightarrow> s3_Commit H sha enc A t d mode mt sw
      | SAbort \<Rightarrow> s3_Abort sw)"

section \<open>\<open>Memory\<close>\<close>

text \<open>The objects in the (unspecified) order in which the map is iterated, and the clock.\<close>

record mem_obj =
  mo_body :: bytes
  mo_meta :: meta
  mo_mod :: int

record memory =
  me_data :: "(string \<times> mem_obj) list"
  me_now :: int

definition NewMemory :: "int \<Rightarrow> memory" where
  "NewMemory now = \<lparr>me_data = [], me_now = now\<rparr>"

definition mem_key :: "string \<Rightarrow> string \<Rightarrow> string" where
  "mem_key bucket k = bucket @ CHR 0x00 # k"

definition mem_find :: "memory \<Rightarrow> string \<Rightarrow> string \<Rightarrow> mem_obj option" where
  "mem_find m bucket k = map_of (me_data m) (mem_key bucket k)"

text \<open>\<open>SplitN (k, NUL, 2)\<close>.\<close>

definition split2 :: "string \<Rightarrow> (string \<times> string) option" where
  "split2 k = (case str_index k [CHR 0x00] of None \<Rightarrow> None | Some i \<Rightarrow> Some (take i k, drop (i + 1) k))"

definition mem_list :: "string \<Rightarrow> string \<Rightarrow> string option \<Rightarrow> memory \<Rightarrow> list_page res \<times> memory" where
  "mem_list bucket prefix token m =
     (Inr \<lparr>lp_objs = List.map_filter (\<lambda>(k, v).
          case split2 k of
            None \<Rightarrow> None
          | Some (b, key) \<Rightarrow>
              if b \<noteq> bucket then None
              else if prefix \<noteq> '''' \<and> \<not> HasPrefix key prefix then None
              else Some \<lparr>lo_key = key, lo_size = int (length (mo_body v)), lo_mod = Some (mo_mod v)\<rparr>) (me_data m),
        lp_truncated = False, lp_next = None\<rparr>, m)"

text \<open>The text of the error names the key.\<close>

definition mem_not_found :: "string \<Rightarrow> goerr" where
  "mem_not_found key = Msg (''NotFound: '' @ key)"

definition mem_etag :: "bytes \<Rightarrow> string" where
  "mem_etag b = [CHR 0x22] @ format_int (int (length b)) @ ''-'' @ digest_string (take 16 b) @ [CHR 0x22]"

definition mem_head :: "string \<Rightarrow> string \<Rightarrow> memory \<Rightarrow> head_out res \<times> memory" where
  "mem_head bucket key m =
     (case mem_find m bucket key of
        None \<Rightarrow> (Inl (mem_not_found key), m)
      | Some ob \<Rightarrow> (Inr \<lparr>ho_len = int (length (mo_body ob)), ho_mod = Some (mo_mod ob), ho_meta = mo_meta ob,
                         ho_etag = mem_etag (mo_body ob)\<rparr>, m))"

text \<open>The bounds of a range are scanned as \<open>int64\<close>; bounds that are not make the range be ignored.\<close>

definition mem_get :: "string \<Rightarrow> string \<Rightarrow> (u64 \<times> u64) option \<Rightarrow> memory \<Rightarrow> reader res \<times> memory" where
  "mem_get bucket key rg m =
     (case mem_find m bucket key of
        None \<Rightarrow> (Inl (mem_not_found key), m)
      | Some ob \<Rightarrow>
          (case rg of
             None \<Rightarrow> (Inr (file_reader (mo_body ob)), m)
           | Some (st, en) \<Rightarrow>
               if 2 ^ 63 \<le> unat st \<or> 2 ^ 63 \<le> unat en then (Inr (file_reader (mo_body ob)), m)
               else if unat en \<ge> length (mo_body ob) \<or> unat st > unat en then (Inl (Msg ''invalid range''), m)
               else (Inr (file_reader (take (unat en + 1 - unat st) (drop (unat st) (mo_body ob)))), m)))"

definition mem_put :: "string \<Rightarrow> string \<Rightarrow> bytes \<Rightarrow> meta \<Rightarrow> memory \<Rightarrow> goerr option \<times> memory" where
  "mem_put bucket key body mt m =
     (None, m\<lparr>me_data := AList.update (mem_key bucket key) \<lparr>mo_body = body, mo_meta = mt, mo_mod = me_now m\<rparr> (me_data m)\<rparr>)"

definition mem_delete :: "string \<Rightarrow> string \<Rightarrow> memory \<Rightarrow> goerr option \<times> memory" where
  "mem_delete bucket key m = (None, m\<lparr>me_data := AList.delete (mem_key bucket key) (me_data m)\<rparr>)"

text \<open>\<open>CopyObject\<close>, which the transport does not use.\<close>

definition mem_copy :: "string \<Rightarrow> string \<Rightarrow> string \<Rightarrow> memory \<Rightarrow> goerr option \<times> memory" where
  "mem_copy bucket key src m =
     (case str_index src ''/'' of
        None \<Rightarrow> (Some (Msg ''bad copy source''), m)
      | Some i \<Rightarrow>
          (case mem_find m (take i src) (drop (i + 1) src) of
             None \<Rightarrow> (Some (Msg ''NotFound''), m)
           | Some ob \<Rightarrow>
               (None, m\<lparr>me_data := AList.update (mem_key bucket key) (ob\<lparr>mo_mod := me_now m\<rparr>) (me_data m)\<rparr>)))"

definition mem_api :: "memory s3_api" where
  "mem_api = \<lparr>api_list = mem_list, api_head = mem_head, api_get = mem_get, api_put = mem_put, api_delete = mem_delete\<rparr>"

section \<open>Lemmas\<close>

lemma default_bounds: "unat (o_min (normalized default_options)) < unat (o_max (normalized default_options))"
  by (simp add: default_options_def normalized_def Let_def DefaultAvgSize_def DefaultMinSize_def DefaultMaxSize_def)

lemma chunk_default:
  assumes "rd_ok r"
  shows "\<exists>x. ChunkReader H r n default_options = Some x \<and> (\<forall>sg. x = Inr sg \<longrightarrow> s_digest sg = H (rd_content r))"
  by (auto simp: ChunkReader_def streamChunks_spec [OF assms default_bounds] run_append_chunk Let_def)

lemma staged_signature_digest: "staged_signature H d n = Inr sg \<Longrightarrow> s_digest sg = H d"
  using chunk_default [of "file_reader d" H n] by (auto simp: staged_signature_def)

lemma staged_signature_sig_of:
  assumes "length d < 2 ^ 63" and "n \<le> 0 \<or> n = int (length d)"
  shows "\<exists>sg. staged_signature H d n = Inr sg \<and> sig_of H d sg"
  using ChunkReader_sig_of [of "file_reader d" default_options n H] default_bounds assms
  by (auto simp: staged_signature_def)

definition s3_shown :: "('b \<Rightarrow> string \<Rightarrow> (bytes \<times> meta) option) \<Rightarrow> s3_session \<times> 'b s3_world \<Rightarrow> bytes option" where
  "s3_shown obj sw = map_option fst (obj (sx_api (snd sw)) (sw_key (fst sw)))"

text \<open>A session whose object is not its own sidecar.\<close>

definition s3_ok :: "(string \<Rightarrow> bytes) \<Rightarrow> s3_transport \<Rightarrow> string \<Rightarrow> s3_session \<times> 'b s3_world \<Rightarrow> bool" where
  "s3_ok sha t bucket sw \<longleftrightarrow> st_bucket t = bucket \<and> sigKey sha t (sw_rel (fst sw)) \<noteq> sw_key (fst sw)"

lemma s3_sys_api [simp]: "s3_sys w = (r, w') \<Longrightarrow> sx_api w' = sx_api w"
  by (auto simp: s3_sys_def split: list.splits)

lemma s3_write_at_keeps:
  "s3_write_at off b (s, w) = ((s', w'), e) \<Longrightarrow>
   sx_api w' = sx_api w \<and> sw_key s' = sw_key s \<and> sw_rel s' = sw_rel s \<and> sw_size s' = sw_size s \<and> sw_committed s' = sw_committed s"
  by (auto simp: s3_write_at_def Let_def split: option.splits if_splits prod.splits dest: s3_sys_api)

lemma s3_WriteChunk_keeps:
  "s3_WriteChunk L off c n b (s, w) = ((s', w'), e) \<Longrightarrow>
   sx_api w' = sx_api w \<and> sw_key s' = sw_key s \<and> sw_rel s' = sw_rel s \<and> sw_size s' = sw_size s \<and> sw_committed s' = sw_committed s"
  by (auto simp: s3_WriteChunk_def Let_def split: if_splits sum.splits dest: s3_write_at_keeps)

context s3_store
begin

lemma call_head: "s3_call (api_head A bucket k) w = (r, w') \<Longrightarrow> obj (sx_api w') = obj (sx_api w)"
  by (auto simp: s3_call_def split: prod.splits dest: head_keeps)

lemma call_get: "s3_call (api_get A bucket k rg) w = (r, w') \<Longrightarrow> obj (sx_api w') = obj (sx_api w)"
  by (auto simp: s3_call_def split: prod.splits dest: get_keeps)

lemma call_put:
  "s3_call (api_put A bucket k b m) w = (e, w') \<Longrightarrow>
   obj (sx_api w') = (obj (sx_api w))(k \<mapsto> (b, m)) \<or> e \<noteq> None \<and> obj (sx_api w') = obj (sx_api w)"
  by (cases e) (auto simp: s3_call_def split: prod.splits dest: put_ok put_failed)

lemma checkOld_keeps:
  assumes b: "st_bucket t = bucket" and "s3_checkOld A t s w = (e, w')"
  shows "obj (sx_api w') = obj (sx_api w)"
  using assms(2) unfolding s3_checkOld_def b
  by (auto split: if_splits sum.splits prod.splits dest!: call_head)

lemma ReuseChunk_keeps:
  assumes b: "st_bucket t = bucket" and "s3_ReuseChunk H A t new old dg n (s, w) = ((s', w'), e)"
  shows "obj (sx_api w') = obj (sx_api w) \<and> sw_key s' = sw_key s \<and> sw_rel s' = sw_rel s \<and> sw_size s' = sw_size s
   \<and> sw_committed s' = sw_committed s"
  using assms(2) unfolding s3_ReuseChunk_def b
  by (auto simp: Let_def split: if_splits sum.splits prod.splits option.splits
      dest!: s3_write_at_keeps checkOld_keeps [OF b] call_get)

lemma Commit_effect:
  assumes "s3_Commit H sha enc A t d0 mode mt (s, w) = ((s', w'), e)" and "s3_ok sha t bucket (s, w)"
  shows "sw_key s' = sw_key s \<and> sw_rel s' = sw_rel s \<and> sw_size s' = sw_size s \<and>
    (\<forall>k. k \<noteq> sw_key s \<and> k \<noteq> sigKey sha t (sw_rel s) \<longrightarrow> obj (sx_api w') k = obj (sx_api w) k) \<and>
    (obj (sx_api w') (sw_key s) = obj (sx_api w) (sw_key s) \<and> (e = None \<longrightarrow> sw_committed s) \<or>
     (\<exists>c. sw_f s = Some c \<and> H c = d0 \<and> obj (sx_api w') (sw_key s) = Some (c, s3_metadata d0 mode mt)))"
proof -
  have b: "st_bucket t = bucket" and ne: "sigKey sha t (sw_rel s) \<noteq> sw_key s" using assms(2) by (auto simp: s3_ok_def)
  consider "sw_committed s" | "\<not> sw_committed s" "sw_f s = None" | c where "\<not> sw_committed s" "sw_f s = Some c" by blast
  then show ?thesis
  proof cases
    case 3
    note nc = 3(1) and f = 3(2)
    obtain r1 w1 where s1: "s3_sys w = (r1, w1)" by force
    note a1 = s3_sys_api [OF s1]
    show ?thesis
    proof (cases "r1 = None \<and> (\<exists>sg. staged_signature H c (sw_size s) = Inr sg \<and> s_digest sg = d0)")
      case False
      with assms(1) nc f s1 a1 show ?thesis
        by (auto simp: s3_Commit_def Let_def split: option.splits prod.splits sum.splits if_splits)
    next
      case True
      then obtain sg where sg: "staged_signature H c (sw_size s) = Inr sg" "s_digest sg = d0" and r1: "r1 = None" by blast
      have Hc: "H c = d0" using staged_signature_digest [OF sg(1)] sg(2) by simp
      obtain r2 w2 where s2: "s3_sys w1 = (r2, w2)" by force
      note a2 = s3_sys_api [OF s2]
      show ?thesis
      proof (cases r2)
        case (Some x)
        with assms(1) nc f s1 r1 sg s2 a1 a2 show ?thesis by (cases x) (auto simp: s3_Commit_def Let_def)
      next
        case r2: None
        obtain e3 w3 where p3: "s3_call (api_put A bucket (sw_key s) c (s3_metadata d0 mode mt)) w2 = (e3, w3)" by force
        note o3 = call_put [OF p3]
        show ?thesis
        proof (cases e3)
          case (Some x)
          with assms(1) nc f s1 r1 sg s2 r2 p3 b have "s' = s" "w' = w3" "e = Some x" by (auto simp: s3_Commit_def Let_def)
          with o3 a1 a2 f Hc show ?thesis by auto
        next
          case e3: None
          let ?sg = "sg\<lparr>s_chunks := map (\<lambda>c. c\<lparr>c_data := None\<rparr>) (s_chunks sg)\<rparr>"
          from o3 e3 a1 a2 have o: "obj (sx_api w3) = (obj (sx_api w))(sw_key s \<mapsto> (c, s3_metadata d0 mode mt))" by simp
          show ?thesis
          proof (cases "enc ?sg")
            case (Inl x)
            with assms(1) nc f s1 r1 sg s2 r2 p3 e3 b have "s' = s\<lparr>sw_f := None\<rparr>" "w' = w3" by (auto simp: s3_Commit_def Let_def)
            with o f Hc show ?thesis by auto
          next
            case (Inr body)
            obtain e4 w4 where p4: "s3_call (api_put A bucket (sigKey sha t (sw_rel s)) body Map.empty) w3 = (e4, w4)" by force
            note o4 = call_put [OF p4]
            from assms(1) nc f s1 r1 sg s2 r2 p3 e3 b Inr p4
            have "sw_key s' = sw_key s" "sw_rel s' = sw_rel s" "sw_size s' = sw_size s" "w' = w4"
              by (auto simp: s3_Commit_def Let_def split: option.splits)
            with o o4 f Hc ne show ?thesis by auto
          qed
        qed
      qed
    qed
  qed (use assms(1) in \<open>auto simp: s3_Commit_def\<close>)
qed

end

text \<open>
  The session keeps the weaker contract only: a commit may fail after it has published the object.
\<close>

sublocale s3_store \<subseteq> s3_staged: staged_write "s3_step H L sha enc A t" "s3_ok sha t bucket" "s3_shown obj" H
  for H L sha enc t
proof
  fix sw a sw' e
  assume ok: "s3_ok sha t bucket sw" and st: "s3_step H L sha enc A t a sw = (sw', e)"
  obtain s w s' w' where sw: "sw = (s, w)" "sw' = (s', w')" by (cases sw, cases sw') auto
  have b: "st_bucket t = bucket" using ok by (simp add: s3_ok_def)
  have "sw_key s' = sw_key s \<and> sw_rel s' = sw_rel s \<and> (commits a = None \<longrightarrow> obj (sx_api w') = obj (sx_api w)) \<and>
    (\<forall>d. commits a = Some d \<longrightarrow> obj (sx_api w') (sw_key s) = obj (sx_api w) (sw_key s) \<or>
       (\<exists>c m. H c = d \<and> obj (sx_api w') (sw_key s) = Some (c, m)))"
  proof (cases a)
    case (SWrite off c n d)
    with st sw s3_WriteChunk_keeps [of L off c n d s w s' w' e] show ?thesis by (simp add: s3_step_def)
  next
    case (SReuse new old dg n)
    with st sw ReuseChunk_keeps [OF b, of H new old dg n s w s' w' e] show ?thesis by (simp add: s3_step_def)
  next
    case (SCommit d m mt)
    with st sw ok Commit_effect [of H sha enc t d m mt s w s' w' e] show ?thesis by (auto simp: s3_step_def)
  next
    case SAbort
    with st sw show ?thesis by (auto simp: s3_step_def s3_Abort_def split: if_splits)
  qed
  then show "s3_ok sha t bucket sw'"
    and "commits a = None \<Longrightarrow> s3_shown obj sw' = s3_shown obj sw"
    and "\<And>d. commits a = Some d \<Longrightarrow> s3_shown obj sw' = s3_shown obj sw \<or> (\<exists>c. s3_shown obj sw' = Some c \<and> H c = d)"
    using ok sw by (auto simp: s3_ok_def s3_shown_def)
qed

section \<open>\<open>Memory\<close> keeps the laws\<close>

definition mem_obj_of :: "string \<Rightarrow> memory \<Rightarrow> string \<Rightarrow> (bytes \<times> meta) option" where
  "mem_obj_of bucket m k = map_option (\<lambda>ob. (mo_body ob, mo_meta ob)) (mem_find m bucket k)"

lemma mem_key_inject [simp]: "mem_key b j = mem_key b k \<longleftrightarrow> j = k"
  by (simp add: mem_key_def)

interpretation mem: s3_store mem_api bucket "mem_obj_of bucket" for bucket
proof
  fix k b m and x x' :: memory
  assume "api_put mem_api bucket k b m x = (None, x')"
  then show "mem_obj_of bucket x' = (mem_obj_of bucket x)(k \<mapsto> (b, m))"
    by (auto simp: mem_api_def mem_put_def mem_obj_of_def mem_find_def update_conv' fun_eq_iff)
next
  fix k and x x' :: memory and e
  assume "api_delete mem_api bucket k x = (e, x')"
  then show "\<forall>j. j \<noteq> k \<longrightarrow> mem_obj_of bucket x' j = mem_obj_of bucket x j"
    by (auto simp: mem_api_def mem_delete_def mem_obj_of_def mem_find_def delete_conv')
next
  fix k and x x' :: memory and h
  assume "api_head mem_api bucket k x = (Inr h, x')"
  then show "\<exists>b m. mem_obj_of bucket x k = Some (b, m) \<and> ho_len h = int (length b) \<and> ho_meta h = m"
    by (auto simp: mem_api_def mem_head_def mem_obj_of_def split: option.splits)
next
  fix k and x x' :: memory and r
  assume "api_get mem_api bucket k None x = (Inr r, x')"
  then show "\<exists>m. mem_obj_of bucket x k = Some (rd_content r, m)"
    by (auto simp: mem_api_def mem_get_def mem_obj_of_def split: option.splits)
qed (auto simp: mem_api_def mem_list_def mem_head_def mem_get_def mem_put_def split: option.splits if_splits)

lemma s3_begin_session:
  "s3_begin A t rel n w = (Inr s, w') \<Longrightarrow> sw_rel s = rel \<and> sw_key s = s3_key t rel \<and> sw_size s = n \<and>
   \<not> sw_committed s \<and> sw_f s = Some (replicate (nat n) 0)"
  by (auto simp: s3_begin_def Let_def split: prod.splits option.splits sum.splits if_splits)

lemma strip_mk_chunks: "map (\<lambda>c. c\<lparr>c_data := None\<rparr>) (mk_chunks H k off ps) = mk_chunks H False off ps"
  by (induction ps arbitrary: off) auto

lemma sig_of_strip:
  assumes "sig_of H d sg"
  shows "sig_of H d (sg\<lparr>s_chunks := map (\<lambda>c. c\<lparr>c_data := None\<rparr>) (s_chunks sg)\<rparr>)"
proof -
  from assms obtain k ps where "concat ps = d" "s_chunks sg = mk_chunks H k 0 ps" "\<forall>p \<in> set ps. 0 < length p \<and> length p < 2 ^ 32"
    unfolding sig_of_def by blast
  then have "\<exists>keep qs. concat qs = d \<and> map (\<lambda>c. c\<lparr>c_data := None\<rparr>) (s_chunks sg) = mk_chunks H keep 0 qs \<and>
      (\<forall>p \<in> set qs. 0 < length p \<and> length p < 2 ^ 32)"
    by (intro exI [of _ False] exI [of _ ps]) (simp add: strip_mk_chunks)
  then show ?thesis using assms by (simp add: sig_of_def)
qed

context s3_store
begin

lemma write_never_partial:
  "s3_ok sha t bucket (s, w) \<Longrightarrow> run_ops (s3_step H L sha enc A t) ops (s, w) = (sw, es) \<Longrightarrow>
   s3_shown obj sw = s3_shown obj (s, w) \<or>
    (\<exists>a \<in> set ops. \<exists>d c. commits a = Some d \<and> s3_shown obj sw = Some c \<and> H c = d)"
  by (rule s3_staged.never_partial)

end

lemma mem_rehash:
  assumes "mem_find m (st_bucket t) (s3_key t rel) = Some ob" and "length (mo_body ob) < 2 ^ 63"
  shows "\<exists>sg m'. s3_rehash H mem_api t rel m = (Some (Inr sg), m') \<and> sig_of H (mo_body ob) sg"
  using assms ChunkReader_sig_of [of "file_reader (mo_body ob)" default_options "int (length (mo_body ob))" H] default_bounds
  by (auto simp: s3_rehash_def s3_open_def s3_stat_def mem_api_def mem_get_def mem_head_def Let_def)

text \<open>A file no longer than the minimum is one chunk, which is what evaluation needs to know.\<close>

lemma pieces_small:
  assumes "length d \<le> unat mn" and "unat mn \<le> unat mx" and "d \<noteq> []"
  shows "pieces mn mx msk d = [d]"
proof -
  have "length d < 2 ^ LENGTH(32)" using assms(1) unsigned_less [of mn, where ?'a = nat] by simp
  then have "unat (word_of_nat (length d) :: u32) = length d" by (rule unat_of_nat_small)
  then have "(word_of_nat (length d) :: u32) \<le> mn" using assms(1) by (simp add: word_le_nat_alt)
  then have "findCut (take (unat mx) d) mn mx msk = 0"
    using assms(1,2) by (simp add: findCut_def Let_def)
  then show ?thesis using assms(3) by (simp add: pieces.simps [of mn mx msk d] pieces.simps [of mn mx msk "[]"] Let_def)
qed

lemma staged_signature_code [code]:
  "staged_signature H d n =
     (if int (length d) \<le> 16384 \<and> n = int (length d)
      then Inr \<lparr>s_size = n, s_digest = H d, s_chunks = (if d = [] then []
             else [\<lparr>c_offset = 0, c_length = word_of_nat (length d), c_digest = H d, c_data = None\<rparr>])\<rparr>
      else the (ChunkReader H (file_reader d) n default_options))"
proof (cases "int (length d) \<le> 16384 \<and> n = int (length d)")
  case True
  have mn: "unat (o_min (normalized default_options)) = 16384" "unat (o_max (normalized default_options)) = 262144"
    by (simp_all add: default_options_def normalized_def Let_def DefaultAvgSize_def DefaultMinSize_def DefaultMaxSize_def)
  have "opt_pieces (normalized default_options) d = (if d = [] then [] else [d])"
    using True mn pieces_small [of d "o_min (normalized default_options)" "o_max (normalized default_options)"]
    by (auto simp: pieces.simps [of _ _ _ "[]"])
  moreover have "o_keep default_options = False" by (simp add: default_options_def)
  ultimately show ?thesis
    using True ChunkReader_eq [of "file_reader d" default_options n H] default_bounds
    by (auto simp: staged_signature_def)
next
  case False
  then show ?thesis unfolding staged_signature_def by argo
qed

text \<open>A bucket with one object, and a session on it.\<close>

definition demo_s3 :: s3_transport where
  "demo_s3 = \<lparr>st_bucket = ''b'', st_prefix = ''p'', st_staging = ''/tmp'', st_reuse = True\<rparr>"

definition demo_sha :: "string \<Rightarrow> bytes" where "demo_sha = (\<lambda>x. replicate 32 7)"

definition demo_mem :: "memory s3_world" where
  "demo_mem = \<lparr>sx_api = snd (mem_put ''b'' ''p/f'' [9] Map.empty (NewMemory 5)), sx_script = []\<rparr>"

definition demo_s3_begin :: "s3_session \<times> memory s3_world" where
  "demo_s3_begin = (case s3_begin mem_api demo_s3 ''f'' 2 demo_mem of (r, w) \<Rightarrow> (projr r, w))"

lemma demo_s3_begin_ok: "s3_begin mem_api demo_s3 ''f'' 2 demo_mem = (Inr (fst demo_s3_begin), snd demo_s3_begin)"
proof -
  have "\<not> isl (fst (s3_begin mem_api demo_s3 ''f'' 2 demo_mem))" by code_simp
  then show ?thesis
    by (cases "s3_begin mem_api demo_s3 ''f'' 2 demo_mem") (auto simp: demo_s3_begin_def isl_def)
qed

lemma demo_s3_keys: "sigKey demo_sha demo_s3 ''f'' \<noteq> s3_key demo_s3 ''f''" "sw_key (fst demo_s3_begin) = s3_key demo_s3 ''f''"
  "sw_rel (fst demo_s3_begin) = ''f''" "\<not> sw_committed (fst demo_s3_begin)" "sw_f (fst demo_s3_begin) = Some [0, 0]"
  "sw_size (fst demo_s3_begin) = 2" "sx_script (snd demo_s3_begin) = []"
  by code_simp+

definition demo_sig2 :: signature where
  "demo_sig2 = \<lparr>s_size = 2, s_digest = [0, 0], s_chunks = [\<lparr>c_offset = 0, c_length = 2, c_digest = [0, 0], c_data = None\<rparr>]\<rparr>"

text \<open>The store with a bucket policy that denies writes of sidecars.\<close>

definition deny_sidecar :: "memory s3_api" where
  "deny_sidecar = mem_api\<lparr>api_put := (\<lambda>b k d m x. if Contains k ''.quiksync/sigs'' then (Some (Msg ''AccessDenied''), x) else mem_put b k d m x)\<rparr>"

lemma deny_sidecar_store: "s3_store deny_sidecar bucket (mem_obj_of bucket)"
proof -
  have api: "api_list deny_sidecar = api_list mem_api" "api_head deny_sidecar = api_head mem_api"
    "api_get deny_sidecar = api_get mem_api" "api_delete deny_sidecar = api_delete mem_api"
    by (simp_all add: deny_sidecar_def)
  have put: "api_put deny_sidecar b k d m x = (e, x') \<Longrightarrow>
      (e \<noteq> None \<and> x' = x) \<or> api_put mem_api b k d m x = (e, x')" for b k d m x e x'
    by (auto simp: deny_sidecar_def mem_api_def split: if_splits)
  show ?thesis
  proof (intro s3_store.intro, unfold api)
    fix k b m x x' assume "api_put deny_sidecar bucket k b m x = (None, x')"
    then have "api_put mem_api bucket k b m x = (None, x')" using put by blast
    then show "mem_obj_of bucket x' = (mem_obj_of bucket x)(k \<mapsto> (b, m))" by (rule mem.put_ok)
  next
    fix k b m x x' e assume "api_put deny_sidecar bucket k b m x = (Some e, x')"
    from put [OF this] show "mem_obj_of bucket x' = mem_obj_of bucket x \<or> mem_obj_of bucket x' = (mem_obj_of bucket x)(k \<mapsto> (b, m))"
      using mem.put_failed by blast
  qed (fact mem.list_keeps mem.head_keeps mem.head_reads mem.get_keeps mem.get_reads mem.delete_keeps)+
qed

section \<open>Properties\<close>

text \<open>
  C15. Over any object store that keeps the laws, a write never shows a mixture: after any sequence of
  session calls, failed ones included, the object is the one it was or content whose digest a commit
  of the sequence was asked for.
\<close>
theorem s3_write_never_partial:
  assumes "s3_store A (st_bucket t) obj" and "s3_begin A t rel n w = (Inr s, w1)" and "sigKey sha t rel \<noteq> s3_key t rel"
    and "run_ops (s3_step H L sha enc A t) ops (s, w1) = (sw, es)"
  shows "s3_shown obj sw = s3_shown obj (s, w1) \<or>
    (\<exists>a \<in> set ops. \<exists>d c. commits a = Some d \<and> s3_shown obj sw = Some c \<and> H c = d)"
proof -
  have "s3_ok sha t (st_bucket t) (s, w1)"
    using s3_begin_session [OF assms(2)] assms(3) by (simp add: s3_ok_def)
  then show ?thesis by (rule s3_store.write_never_partial [OF assms(1) _ assms(4)])
qed

theorem s3_write_never_partial_witness:
  "let ops = [SWrite 0 CodecNone 2 [1, 2], SCommit [7] 0 None, SCommit [1, 2] 0 None];
       r = run_ops (s3_step (\<lambda>b. b) demo_lib demo_sha (\<lambda>sg. Inr [3]) mem_api demo_s3) ops demo_s3_begin
   in snd r = [None, Some (Msg ''digest mismatch: got %s want %s''), None] \<and>
      s3_shown (mem_obj_of ''b'') demo_s3_begin = Some [9] \<and> s3_shown (mem_obj_of ''b'') (fst r) = Some [1, 2] \<and>
      (s3_shown (mem_obj_of ''b'') (fst r) = s3_shown (mem_obj_of ''b'') demo_s3_begin \<or>
       (\<exists>a \<in> set ops. \<exists>d c. commits a = Some d \<and> s3_shown (mem_obj_of ''b'') (fst r) = Some c \<and> c = d))"
proof -
  let ?ops = "[SWrite 0 CodecNone 2 [1, 2], SCommit [7] 0 None, SCommit [1, 2] 0 None]"
  let ?r = "run_ops (s3_step (\<lambda>b. b) demo_lib demo_sha (\<lambda>sg. Inr [3]) mem_api demo_s3) ?ops demo_s3_begin"
  have "(case ?r of (sw, es) \<Rightarrow> es = [None, Some (Msg ''digest mismatch: got %s want %s''), None]
      \<and> s3_shown (mem_obj_of ''b'') sw = Some [1, 2])"
    by code_simp
  then have "snd ?r = [None, Some (Msg ''digest mismatch: got %s want %s''), None]"
    "s3_shown (mem_obj_of ''b'') (fst ?r) = Some [1, 2]"
    unfolding split_beta by (rule conjunct1, rule conjunct2)
  moreover have "s3_shown (mem_obj_of ''b'') demo_s3_begin = Some [9]" by code_simp
  moreover have r: "run_ops (s3_step (\<lambda>b. b) demo_lib demo_sha (\<lambda>sg. Inr [3]) mem_api demo_s3) ?ops
      (fst demo_s3_begin, snd demo_s3_begin) = (fst ?r, snd ?r)" by (simp only: prod.collapse)
  have b: "st_bucket demo_s3 = ''b''" by (simp add: demo_s3_def)
  note s3_write_never_partial [OF mem.s3_store_axioms demo_s3_begin_ok demo_s3_keys(1) r, unfolded b]
  ultimately show ?thesis unfolding Let_def prod.collapse by blast
qed

text \<open>
  When the object has been put and only its signature sidecar cannot be, \<open>Commit\<close> returns an error
  although the new content is what the store shows, and repeating the commit fails.
\<close>
theorem s3_commit_error_after_publish:
  assumes "s3_store A (st_bucket t) obj" and "\<not> sw_committed s" and "sw_f s = Some d" and "sw_size s = int (length d)"
    and "length d < 2 ^ 63" and "sx_script w = []" and "sigKey sha t (sw_rel s) \<noteq> sw_key s"
    and "\<And>sg. enc sg = Inr (f sg)"
    and "api_put A (st_bucket t) (sw_key s) d (s3_metadata (H d) mode mt) (sx_api w) = (None, x1)"
    and "\<And>b. api_put A (st_bucket t) (sigKey sha t (sw_rel s)) b Map.empty x1 = (Some e, x1)"
  shows "\<exists>sw. s3_step H L sha enc A t (SCommit (H d) mode mt) (s, w) = (sw, Some (Wrap ''signature sidecar: %w'' e)) \<and>
    s3_shown obj sw = Some d \<and> snd (s3_step H L sha enc A t (SCommit (H d) mode mt) sw) = Some (Msg ''invalid argument'')"
proof -
  obtain sg where sg: "staged_signature H d (sw_size s) = Inr sg" "sig_of H d sg"
    using staged_signature_sig_of [OF assms(5), of "sw_size s" H] assms(4) by auto
  have "s_digest sg = H d" using sg(2) by (simp add: sig_of_def)
  then have c: "s3_step H L sha enc A t (SCommit (H d) mode mt) (s, w) =
      ((s\<lparr>sw_f := None\<rparr>, w\<lparr>sx_api := x1\<rparr>), Some (Wrap ''signature sidecar: %w'' e))"
    using assms(2,3,6,8,9,10) sg(1) by (simp add: s3_step_def s3_Commit_def s3_sys_def s3_call_def Let_def)
  have "obj x1 = (obj (sx_api w))(sw_key s \<mapsto> (d, s3_metadata (H d) mode mt))"
    by (rule s3_store.put_ok [OF assms(1,9)])
  with c show ?thesis using assms(2)
    by (auto simp: s3_shown_def s3_step_def s3_Commit_def)
qed

theorem s3_commit_error_after_publish_witness:
  "\<exists>sw. s3_step (\<lambda>b. b) demo_lib demo_sha (\<lambda>sg. Inr [3]) deny_sidecar demo_s3 (SCommit [0, 0] 0 None) demo_s3_begin
      = (sw, Some (Wrap ''signature sidecar: %w'' (Msg ''AccessDenied''))) \<and>
    s3_shown (mem_obj_of ''b'') sw = Some [0, 0]"
proof -
  have b: "st_bucket demo_s3 = ''b''" by (simp add: demo_s3_def)
  have k: "Contains (sigKey demo_sha demo_s3 ''f'') ''.quiksync/sigs''" "\<not> Contains (s3_key demo_s3 ''f'') ''.quiksync/sigs''"
    by code_simp+
  have p1: "api_put deny_sidecar (st_bucket demo_s3) (sw_key (fst demo_s3_begin)) [0, 0] (s3_metadata [0, 0] 0 None)
      (sx_api (snd demo_s3_begin)) =
    (None, snd (mem_put ''b'' (s3_key demo_s3 ''f'') [0, 0] (s3_metadata [0, 0] 0 None) (sx_api (snd demo_s3_begin))))"
    using k(2) by (simp add: deny_sidecar_def demo_s3_keys b mem_put_def)
  have p2: "api_put deny_sidecar (st_bucket demo_s3) (sigKey demo_sha demo_s3 (sw_rel (fst demo_s3_begin))) d Map.empty x =
      (Some (Msg ''AccessDenied''), x)" for d x
    using k(1) by (simp add: deny_sidecar_def demo_s3_keys)
  show ?thesis
    using s3_commit_error_after_publish [of deny_sidecar demo_s3 "mem_obj_of ''b''" "fst demo_s3_begin" "[0, 0]"
        "snd demo_s3_begin" demo_sha "\<lambda>sg. Inr [3]" "\<lambda>sg. [3]" "\<lambda>b. b" 0 None _ "Msg ''AccessDenied''" demo_lib, OF _ _ _ _ _ _ _ _ p1 p2]
      deny_sidecar_store [of "''b''"] by (auto simp: b demo_s3_keys)
qed

text \<open>
  After a successful commit of \<open>c\<close> the backend reports a signature of exactly \<open>c\<close>: the sidecar just
  written is accepted as bound to the object, and for the empty file, which has none, the object is hashed.
\<close>
theorem s3_signature_after_commit:
  assumes "s3_step H L sha enc mem_api t (SCommit d mode mt) (s, w) = ((s', w'), None)"
    and "\<not> sw_committed s" and "sw_f s = Some c" and "sw_size s = int (length c)" and "length c < 2 ^ 63"
    and "sw_key s = s3_key t (sw_rel s)" and "sigKey sha t (sw_rel s) \<noteq> sw_key s"
    and "\<And>sg b. enc sg = Inr b \<Longrightarrow> dec b = Some sg"
  shows "\<exists>sg. fst (s3_signature H sha dec mem_api t (sw_rel s) (sx_api w')) = Some (Inr sg) \<and> sig_of H c sg \<and> d = H c"
proof -
  obtain sg where sg: "staged_signature H c (sw_size s) = Inr sg" "sig_of H c sg"
    using staged_signature_sig_of [OF assms(5), of "sw_size s" H] assms(4) by auto
  have dg: "s_digest sg = H c" "s_size sg = int (length c)" using sg(2) by (simp_all add: sig_of_def)
  let ?sg = "sg\<lparr>s_chunks := map (\<lambda>c. c\<lparr>c_data := None\<rparr>) (s_chunks sg)\<rparr>"
  let ?put = "\<lambda>k b m y. y\<lparr>me_data := AList.update (mem_key (st_bucket t) k) \<lparr>mo_body = b, mo_meta = m, mo_mod = me_now y\<rparr> (me_data y)\<rparr>"
  obtain w1 w2 where s12: "s3_sys w = (None, w1)" "s3_sys w1 = (None, w2)"
    using assms(1-3) sg(1) by (auto simp: s3_step_def s3_Commit_def Let_def split: prod.splits option.splits if_splits)
  have d: "d = H c" using assms(1-3) sg(1) s12 dg(1) by (auto simp: s3_step_def s3_Commit_def Let_def split: if_splits)
  obtain b where b: "enc ?sg = Inr b"
    using assms(1-3) sg(1) s12 dg(1) d
    by (cases "enc ?sg") (auto simp: s3_step_def s3_Commit_def s3_call_def mem_api_def mem_put_def Let_def)
  let ?m = "?put (sigKey sha t (sw_rel s)) b Map.empty (?put (sw_key s) c (s3_metadata d mode mt) (sx_api w))"
  have w': "sx_api w' = ?m"
    using assms(1-3) sg(1) s12 dg(1) d b s3_sys_api [OF s12(1)] s3_sys_api [OF s12(2)]
    by (auto simp: s3_step_def s3_Commit_def s3_call_def mem_api_def mem_put_def Let_def)
  have side: "mem_find ?m (st_bucket t) (sigKey sha t (sw_rel s)) = Some \<lparr>mo_body = b, mo_meta = Map.empty, mo_mod = me_now (sx_api w)\<rparr>"
    by (simp add: mem_find_def update_conv')
  have main: "mem_find ?m (st_bucket t) (s3_key t (sw_rel s)) =
      Some \<lparr>mo_body = c, mo_meta = s3_metadata d mode mt, mo_mod = me_now (sx_api w)\<rparr>"
    using assms(6,7) by (simp add: mem_find_def update_conv')
  show ?thesis
  proof (cases "s_chunks sg = []")
    case True
    have "length (mo_body \<lparr>mo_body = c, mo_meta = s3_metadata d mode mt, mo_mod = me_now (sx_api w)\<rparr>) < 2 ^ 63"
      using assms(5) by simp
    from mem_rehash [OF main this, of H] obtain sg' m' where
      r: "s3_rehash H mem_api t (sw_rel s) ?m = (Some (Inr sg'), m')" "sig_of H c sg'" by auto
    have "api_get mem_api (st_bucket t) (sigKey sha t (sw_rel s)) None ?m = (Inr (file_reader b), ?m)"
      using side by (simp add: mem_api_def mem_get_def)
    then have "s3_signature H sha dec mem_api t (sw_rel s) ?m = (Some (Inr sg'), m')"
      unfolding s3_signature_def using True assms(8) [OF b] r(1) by simp
    with r(2) d w' show ?thesis by simp
  next
    case False
    have "sidecarBoundToObject mem_api t (sw_rel s) ?sg ?m = (True, ?m)"
      using main dg d by (simp add: sidecarBoundToObject_def mem_api_def mem_head_def s3_metadata_def metaBlake3_def metaMode_def metaMod_def
          Let_def split: option.split)
    moreover have "api_get mem_api (st_bucket t) (sigKey sha t (sw_rel s)) None ?m = (Inr (file_reader b), ?m)"
      using side by (simp add: mem_api_def mem_get_def)
    ultimately have "s3_signature H sha dec mem_api t (sw_rel s) ?m = (Some (Inr ?sg), ?m)"
      unfolding s3_signature_def using False assms(8) [OF b] by simp
    with sig_of_strip [OF sg(2)] d w' show ?thesis by simp
  qed
qed

theorem s3_signature_after_commit_witness:
  "let r = s3_step (\<lambda>b. b) demo_lib demo_sha (\<lambda>sg. if sg = demo_sig2 then Inr [3] else Inl EOF) mem_api demo_s3
             (SCommit [0, 0] 0 None) demo_s3_begin
   in \<exists>sg. fst (s3_signature (\<lambda>b. b) demo_sha (\<lambda>b. if b = [3] then Some demo_sig2 else None) mem_api demo_s3 ''f''
              (sx_api (snd (fst r)))) = Some (Inr sg) \<and> sig_of (\<lambda>b. b) [0, 0] sg"
proof -
  let ?enc = "\<lambda>sg. if sg = demo_sig2 then Inr [3] else Inl EOF"
  let ?r = "s3_step (\<lambda>b. b) demo_lib demo_sha ?enc mem_api demo_s3 (SCommit [0, 0] 0 None) demo_s3_begin"
  have n: "snd ?r = None" by code_simp
  then have st: "s3_step (\<lambda>b. b) demo_lib demo_sha ?enc mem_api demo_s3 (SCommit [0, 0] 0 None)
      (fst demo_s3_begin, snd demo_s3_begin) = ((fst (fst ?r), snd (fst ?r)), None)"
    unfolding prod.collapse by (metis prod.collapse)
  have d: "?enc sg = Inr b \<Longrightarrow> (\<lambda>b. if b = [3] then Some demo_sig2 else None) b = Some sg" for sg b
    by (simp split: if_splits)
  show ?thesis
    using s3_signature_after_commit [OF st, of "[0, 0]" "\<lambda>b. if b = [3] then Some demo_sig2 else None"] d demo_s3_keys
    unfolding Let_def by auto
qed

text \<open>
  Every relative path is mapped below the prefix of the endpoint: the key is the prefix followed by
  proper names, those of the cleaned path, whatever \<open>..\<close> the path holds.
\<close>
theorem s3_key_confined:
  assumes "st_prefix t \<noteq> ''''"
  shows "\<exists>cs. names cs \<and> Clean (CHR ''/'' # rel) = abs_of cs \<and>
    s3_key t rel = (if cs = [] then st_prefix t else st_prefix t @ abs_of cs)"
proof -
  obtain cs where cs: "names cs" "Clean (CHR ''/'' # rel) = abs_of cs"
    using Clean_abs [of "CHR ''/'' # rel"] by (auto simp: IsAbs_Cons)
  have tp: "TrimPrefix (abs_of cs) ''/'' = join_with ''/'' cs"
    by (simp add: TrimPrefix_def HasPrefix_def abs_of_def)
  have "s3_key t rel = (if cs = [] then st_prefix t else st_prefix t @ abs_of cs)"
  proof (cases cs)
    case Nil
    then show ?thesis using assms tp by (simp add: s3_key_def cs(2) Let_def)
  next
    case (Cons c rest)
    have "join_with ''/'' cs \<noteq> '''' \<and> join_with ''/'' cs \<noteq> ''.''"
    proof (cases rest)
      case Nil
      with Cons cs(1) show ?thesis by (simp add: is_name_def)
    next
      case (Cons d ds)
      with \<open>cs = c # rest\<close> cs(1) show ?thesis by (auto simp: is_name_def append_eq_Cons_conv)
    qed
    then show ?thesis using assms Cons unfolding s3_key_def cs(2) tp Let_def by (simp add: abs_of_def)
  qed
  with cs show ?thesis by blast
qed

theorem s3_key_confined_witness:
  "st_prefix demo_s3 \<noteq> '''' \<and> s3_key demo_s3 ''../../etc//passwd'' = ''p/etc/passwd'' \<and>
   (\<exists>cs. names cs \<and> Clean (CHR ''/'' # ''../../etc//passwd'') = abs_of cs \<and>
     s3_key demo_s3 ''../../etc//passwd'' = (if cs = [] then st_prefix demo_s3 else st_prefix demo_s3 @ abs_of cs))"
proof -
  have "st_prefix demo_s3 \<noteq> ''''" by (simp add: demo_s3_def)
  moreover have "s3_key demo_s3 ''../../etc//passwd'' = ''p/etc/passwd''" by code_simp
  ultimately show ?thesis using s3_key_confined [of demo_s3 "''../../etc//passwd''"] by metis
qed

end
