(* ===== verification/S3Store.thy ===== *)
theory S3Store
  imports S3
begin

text \<open>
  The S3 backend as an instance of the backend interface, and the laws of a store for it on the in-process
  object store. Contents are those of the objects that are not signature sidecars.
\<close>

definition s3_do_walk :: "'b s3_api \<Rightarrow> s3_transport \<Rightarrow> string list \<Rightarrow> 'b s3_world \<Rightarrow> file_meta list res \<times> 'b s3_world" where
  "s3_do_walk A t ex = s3_call (\<lambda>x. case s3_walk A t ex x of Some r \<Rightarrow> r | None \<Rightarrow> (Inl (Msg ''no result''), x))"

definition s3_do_stat :: "'b s3_api \<Rightarrow> s3_transport \<Rightarrow> string \<Rightarrow> 'b s3_world \<Rightarrow> file_meta res \<times> 'b s3_world" where
  "s3_do_stat A t rel = s3_call (s3_stat A t rel)"

definition s3_do_open :: "'b s3_api \<Rightarrow> s3_transport \<Rightarrow> string \<Rightarrow> 'b s3_world \<Rightarrow> reader res \<times> 'b s3_world" where
  "s3_do_open A t rel = s3_call (s3_open A t rel)"

definition s3_do_remove :: "(string \<Rightarrow> bytes) \<Rightarrow> 'b s3_api \<Rightarrow> s3_transport \<Rightarrow> string \<Rightarrow> 'b s3_world \<Rightarrow> goerr option \<times> 'b s3_world" where
  "s3_do_remove sha A t rel = s3_call (s3_remove sha A t rel)"

definition s3_do_mkdir :: "string \<Rightarrow> 'b s3_world \<Rightarrow> goerr option \<times> 'b s3_world" where
  "s3_do_mkdir rel = s3_call (s3_mkdir rel)"

definition s3_do_sig ::
  "(bytes \<Rightarrow> digest) \<Rightarrow> (string \<Rightarrow> bytes) \<Rightarrow> (bytes \<Rightarrow> signature option) \<Rightarrow> 'b s3_api \<Rightarrow> s3_transport \<Rightarrow> string
     \<Rightarrow> 'b s3_world \<Rightarrow> signature res \<times> 'b s3_world" where
  "s3_do_sig H sha dec A t rel = s3_call (\<lambda>x. case s3_signature H sha dec A t rel x of
     (Some r, x') \<Rightarrow> (r, x') | (None, x') \<Rightarrow> (Inl (Msg ''no result''), x'))"

definition s3_backend ::
  "(bytes \<Rightarrow> digest) \<Rightarrow> codec_lib \<Rightarrow> (string \<Rightarrow> bytes) \<Rightarrow> (signature \<Rightarrow> bytes res) \<Rightarrow> (bytes \<Rightarrow> signature option)
     \<Rightarrow> 'b s3_api \<Rightarrow> s3_transport \<Rightarrow> ('b s3_world, s3_session) backend" where
  "s3_backend H L sha enc dec A t =
     \<lparr>tr_caps = s3_caps t, tr_root = s3_root t, tr_walk = s3_do_walk A t, tr_stat = s3_do_stat A t,
      tr_open = s3_do_open A t, tr_remove = s3_do_remove sha A t, tr_mkdir = s3_do_mkdir,
      tr_begin = s3_begin A t, tr_step = s3_step H L sha enc A t, tr_sig = s3_do_sig H sha dec A t\<rparr>"

lemmas s3_backend_ops = s3_backend_def s3_do_walk_def s3_do_stat_def s3_do_open_def s3_do_remove_def s3_do_mkdir_def s3_do_sig_def

definition sidecar_prefix :: "s3_transport \<Rightarrow> string" where
  "sidecar_prefix t = (if st_prefix t = '''' then ''.quiksync/sigs/'' else st_prefix t @ ''/.quiksync/sigs/'')"

definition s3_usr :: "s3_transport \<Rightarrow> string \<Rightarrow> bool" where
  "s3_usr t k \<longleftrightarrow> \<not> HasPrefix k (sidecar_prefix t)"

definition s3_cnt :: "s3_transport \<Rightarrow> memory s3_world \<Rightarrow> string \<Rightarrow> bytes option" where
  "s3_cnt t w k = (if s3_usr t k then map_option fst (mem_obj_of (st_bucket t) (sx_api w) k) else None)"

lemma sigKey_not_usr [simp]: "\<not> s3_usr t (sigKey sha t rel)"
  by (simp add: s3_usr_def sidecar_prefix_def sigKey_def Let_def HasPrefix_iff)

lemma s3_cnt_cong: "mem_obj_of (st_bucket t) (sx_api w') = mem_obj_of (st_bucket t) (sx_api w) \<Longrightarrow> s3_cnt t w' = s3_cnt t w"
  by (simp add: s3_cnt_def fun_eq_iff)

lemma write_at_whole: "length d = length b \<Longrightarrow> write_at d 0 b = b"
  by (cases b) (simp_all add: write_at_def)

lemma mem_read_only:
  "mem_list b p tok x = (l, x') \<Longrightarrow> x' = x" "mem_head b k x = (hr, x') \<Longrightarrow> x' = x" "mem_get b k rg x = (g, x') \<Longrightarrow> x' = x"
  by (auto simp: mem_list_def mem_head_def mem_get_def split: option.splits if_splits)

lemma mem_walk: "s3_walk mem_api t ex x = Some (r, x') \<Longrightarrow> x' = x"
  by (auto simp: s3_walk_def s3_walk_loop.simps mem_api_def mem_list_def Let_def)

lemma mem_rehash_only: "s3_rehash H mem_api t rel x = (g, x') \<Longrightarrow> x' = x"
  by (auto simp: s3_rehash_def s3_open_def s3_stat_def mem_api_def Let_def split: prod.splits sum.splits
      dest!: mem_read_only)

lemma mem_sidecar_only: "sidecarBoundToObject mem_api t rel sg x = (b, x') \<Longrightarrow> x' = x"
  by (auto simp: sidecarBoundToObject_def mem_api_def split: prod.splits sum.splits if_splits dest!: mem_read_only)

lemma mem_signature: "s3_signature H sha dec mem_api t rel x = (g, x') \<Longrightarrow> x' = x"
  by (auto simp: s3_signature_def split: prod.splits sum.splits option.splits if_splits bool.splits
      dest!: mem_rehash_only mem_sidecar_only) (auto simp: mem_api_def dest!: mem_read_only)

lemma s3_step_committed:
  "s3_step H L sha enc A t a (s, w) = ((s', w'), e) \<Longrightarrow> commits a = None \<Longrightarrow> sw_committed s' = sw_committed s"
  by (cases a) (auto simp: s3_step_def s3_Abort_def s3_ReuseChunk_def s3_WriteChunk_def Let_def
      split: if_splits sum.splits prod.splits option.splits dest: s3_write_at_keeps)

lemma s3_run_committed:
  "run_ops (s3_step H L sha enc A t) as (s, w) = ((s', w'), es) \<Longrightarrow> \<forall>a \<in> set as. commits a = None \<Longrightarrow>
   sw_committed s' = sw_committed s"
proof (induction as arbitrary: s w es)
  case (Cons a as)
  obtain s1 w1 e es' where st: "s3_step H L sha enc A t a (s, w) = ((s1, w1), e)"
    "run_ops (s3_step H L sha enc A t) as (s1, w1) = ((s', w'), es')"
    using Cons.prems(1) by (auto split: prod.splits)
  from s3_step_committed [OF st(1)] Cons.IH [OF st(2)] Cons.prems(2) show ?case by simp
qed simp

lemma s3_step_effect:
  assumes "s3_step H L sha enc mem_api t a (s, w) = ((s', w'), e)" and "s3_usr t (sw_key s)"
  shows "sw_key s' = sw_key s \<and> (\<forall>j. j \<noteq> sw_key s \<longrightarrow> s3_cnt t w' j = s3_cnt t w j) \<and>
    (commits a = None \<longrightarrow> s3_cnt t w' = s3_cnt t w) \<and>
    (\<forall>d. commits a = Some d \<and> e = None \<and> \<not> sw_committed s \<longrightarrow> (\<exists>c. s3_cnt t w' (sw_key s) = Some c \<and> H c = d))"
proof -
  have "sigKey sha t (sw_rel s) \<noteq> sw_key s" using assms(2) sigKey_not_usr by metis
  then have ok: "s3_ok sha t (st_bucket t) (s, w)" by (simp add: s3_ok_def)
  show ?thesis
  proof (cases a)
    case (SWrite off c n b)
    with assms(1) s3_WriteChunk_keeps [of L off c n b s w s' w' e] s3_cnt_cong [of t w' w] show ?thesis
      by (simp add: s3_step_def)
  next
    case (SReuse new old dg n)
    with assms(1) mem.ReuseChunk_keeps [of t "st_bucket t" H new old dg n s w s' w' e] s3_cnt_cong [of t w' w] show ?thesis
      by (simp add: s3_step_def)
  next
    case (SCommit d m mt)
    with assms(1) have "s3_Commit H sha enc mem_api t d m mt (s, w) = ((s', w'), e)" by (simp add: s3_step_def)
    from mem.Commit_effect [OF this ok] assms(2) SCommit show ?thesis
      by (auto simp: s3_cnt_def)
  next
    case SAbort
    with assms(1) show ?thesis by (auto simp: s3_step_def s3_Abort_def split: if_splits)
  qed
qed

text \<open>The S3 backend over the in-process store keeps the laws.\<close>

interpretation mem_store: readable_store "s3_backend H L sha enc dec mem_api t" "s3_cnt t" "s3_key t" "s3_usr t"
  "\<lambda>st k. sw_key (fst st) = k" H
  for H L sha enc dec t
proof
  let ?B = "s3_backend H L sha enc dec mem_api t"
  fix rel and n and w w1 w' :: "memory s3_world" and s s' as st2 es d m mt
  assume b: "tr_begin ?B rel n w = (Inr s, w1)" and u: "s3_usr t (s3_key t rel)" and q: "\<forall>a \<in> set as. writes a"
    and r: "run_ops (tr_step ?B) as (s, w1) = (st2, es)" and c: "tr_step ?B (SCommit d m mt) st2 = ((s', w'), None)"
  obtain s2 w2 where st2: "st2 = (s2, w2)" by force
  have q: "\<forall>a \<in> set as. commits a = None" using q by simp
  have bs: "sw_key s = s3_key t rel" "\<not> sw_committed s"
    using s3_begin_session [of mem_api t rel n w s w1] b by (simp_all add: s3_backend_ops)
  have "\<not> sw_committed s2"
    using s3_run_committed [of H L sha enc mem_api t as s w1 s2 w2 es] r q bs st2 by (simp add: s3_backend_ops)
  moreover have "sw_key s2 = s3_key t rel"
  proof -
    have "run_ops (s3_step H L sha enc mem_api t) as (s, w1) = ((s2, w2), es) \<Longrightarrow> s3_usr t (sw_key s) \<Longrightarrow> sw_key s2 = sw_key s"
      for s w1 es
    proof (induction as arbitrary: s w1 es)
      case (Cons a as)
      obtain s3 w3 e es' where st: "s3_step H L sha enc mem_api t a (s, w1) = ((s3, w3), e)"
        "run_ops (s3_step H L sha enc mem_api t) as (s3, w3) = ((s2, w2), es')"
        using Cons.prems(1) by (auto split: prod.splits)
      with s3_step_effect [OF st(1) Cons.prems(2)] Cons.IH [OF st(2)] Cons.prems(2) show ?case by simp
    qed simp
    then show ?thesis using r st2 bs(1) u by (simp add: s3_backend_ops)
  qed
  ultimately show "\<exists>x. s3_cnt t w' (s3_key t rel) = Some x \<and> H x = d"
    using s3_step_effect [of H L sha enc t "SCommit d m mt" s2 w2 s' w' None] c st2 u by (simp add: s3_backend_ops)
next
  fix s s' k a e and w w' :: "memory s3_world"
  assume "sw_key (fst (s, w)) = k" "s3_usr t k" "tr_step (s3_backend H L sha enc dec mem_api t) a (s, w) = ((s', w'), e)"
  then show "sw_key (fst (s', w')) = k \<and> (\<forall>j. j \<noteq> k \<longrightarrow> s3_cnt t w' j = s3_cnt t w j) \<and> (commits a = None \<longrightarrow> s3_cnt t w' = s3_cnt t w)"
    using s3_step_effect [of H L sha enc t a s w s' w' e] by (simp add: s3_backend_ops)
next
  let ?B = "s3_backend H L sha enc dec mem_api t"
  fix rel b d m mt and w w1 w2 w' :: "memory s3_world" and s s2 s'
  assume bg: "tr_begin ?B rel (int (length b)) w = (Inr s, w1)" and u: "s3_usr t (s3_key t rel)"
    and wr: "tr_step ?B (SWrite 0 CodecNone (int (length b)) b) (s, w1) = ((s2, w2), None)"
    and c: "tr_step ?B (SCommit d m mt) (s2, w2) = ((s', w'), None)"
  have bs: "sw_key s = s3_key t rel" "\<not> sw_committed s" "sw_f s = Some (replicate (length b) 0)"
    using s3_begin_session [of mem_api t rel "int (length b)" w s w1] bg by (simp_all add: s3_backend_ops)
  have s2: "sw_key s2 = s3_key t rel" "\<not> sw_committed s2" "sw_f s2 = Some b"
    using wr bs write_at_whole [of "replicate (length b) 0" b]
    by (auto simp: s3_backend_ops s3_step_def s3_WriteChunk_def s3_write_at_def Decode_def codec_defs i64_of_u64_def Let_def
        split: if_splits sum.splits prod.splits option.splits)
  have "sigKey sha t (sw_rel s2) \<noteq> sw_key s2" using u s2(1) sigKey_not_usr by metis
  then have ok: "s3_ok sha t (st_bucket t) (s2, w2)" by (simp add: s3_ok_def)
  have "s3_Commit H sha enc mem_api t d m mt (s2, w2) = ((s', w'), None)" using c by (simp add: s3_backend_ops s3_step_def)
  from mem.Commit_effect [OF this ok] s2 u show "s3_cnt t w' (s3_key t rel) = Some b"
    by (auto simp: s3_cnt_def)
next
  fix rel e k and w w' :: "memory s3_world"
  assume "tr_remove (s3_backend H L sha enc dec mem_api t) rel w = (e, w')" "k \<noteq> s3_key t rel"
  then show "s3_cnt t w' k = s3_cnt t w k"
    using sigKey_not_usr [of t sha rel]
    by (auto simp: s3_backend_ops s3_call_def s3_remove_def mem_api_def mem_delete_def s3_cnt_def mem_obj_of_def
        mem_find_def delete_conv')
qed (auto simp: s3_backend_ops s3_call_def s3_mkdir_def s3_open_def s3_cnt_def mem_obj_of_def mem_api_def mem_get_def
      s3_stat_def mem_head_def s3_begin_def Let_def
      split: prod.splits option.splits sum.splits if_splits
      dest!: mem_walk [unfolded mem_api_def] mem_signature [unfolded mem_api_def] s3_sys_api)

text \<open>Its sessions stage in memory of their own.\<close>

interpretation mem_detached: detached_store "s3_backend H L sha enc dec mem_api t" "s3_cnt t" "s3_key t" "s3_usr t"
  "\<lambda>st k. sw_key (fst st) = k" H
  for H L sha enc dec t
  by unfold_locales (auto simp: s3_backend_ops s3_step_def s3_Abort_def split: if_splits)

end
