(* ===== verification/Relay.thy ===== *)
theory Relay
  imports Transport Journal SafePath
begin

text \<open>
  The store-and-forward relay (\<open>internal/relay/relay.go\<close>): a sender publishes content-addressed chunks
  and a manifest under a job's prefix of a middle store, a receiver waits for the job, checks the manifest,
  stages every file and promotes them. The middle store, source and destination are backends; the JSON
  texts are parameters; clock readings, the context and the wake-ups of the waiting loops are arguments.
\<close>

section \<open>Data\<close>

definition schemaVersion :: int where "schemaVersion = 1"
definition maxJSONBytes :: nat where "maxJSONBytes = 32 * 2 ^ 20"
definition maxNotifyBytes :: nat where "maxNotifyBytes = 64 * 2 ^ 10"
definition maxObjectBytes :: nat where "maxObjectBytes = MaxUncompressedChunk"
definition maxChunkLength :: u32 where "maxChunkLength = word_of_nat MaxUncompressedChunk"
definition leaseRefreshEvery :: nat where "leaseRefreshEvery = 32"
definition storeSignalMaxHardFails :: nat where "storeSignalMaxHardFails = 5"

record manifest_chunk =
  mc_offset :: u64
  mc_length :: u32
  mc_digest :: digest

record manifest_file =
  mf_rel :: string
  mf_size :: int
  mf_digest :: digest
  mf_mode :: u32
  mf_mod :: int
  mf_chunks :: "manifest_chunk list"

record manifest =
  m_schema :: int
  m_job :: string
  m_created :: int
  m_files :: "manifest_file list"

record lease =
  l_job :: string
  l_sender :: string
  l_generation :: int
  l_ttl :: int
  l_created :: int
  l_expires :: int

record ack =
  a_job :: string
  a_completed :: int
  a_files :: int

record notify_meta =
  n_job :: string
  n_via :: string
  n_generation :: int

text \<open>\<open>encoding/json\<close> on these types.\<close>

record relay_json =
  enc_manifest :: "manifest \<Rightarrow> bytes res"
  dec_manifest :: "bytes \<Rightarrow> manifest res"
  enc_lease :: "lease \<Rightarrow> bytes res"
  dec_lease :: "bytes \<Rightarrow> lease res"
  enc_ack :: "ack \<Rightarrow> bytes res"
  enc_notify :: "notify_meta \<Rightarrow> bytes res"
  dec_notify :: "bytes \<Rightarrow> notify_meta res"

section \<open>Paths of a job\<close>

definition job_prefix :: "string \<Rightarrow> string" where
  "job_prefix jobID = PathJoin [''.quiksync/relay'', jobID]"

definition lease_path :: "string \<Rightarrow> string" where "lease_path p = PathJoin [p, ''lease.json'']"
definition manifest_path :: "string \<Rightarrow> string" where "manifest_path p = PathJoin [p, ''manifest.json'']"
definition notify_path :: "string \<Rightarrow> string" where "notify_path p = PathJoin [p, ''notify'']"
definition ack_path :: "string \<Rightarrow> string" where "ack_path p = PathJoin [p, ''ack.json'']"
definition object_path :: "string \<Rightarrow> digest \<Rightarrow> string" where
  "object_path p d = PathJoin [p, ''objects'', digest_string d]"

section \<open>Small objects\<close>

definition isAbsent :: "goerr \<Rightarrow> bool" where
  "isAbsent e =
     (err_is e NotExist \<or>
      (let msg = ToLower (err_text e) in
       Contains msg ''notfound'' \<or> Contains msg ''not found'' \<or> Contains msg ''no such file''
       \<or> Contains msg ''does not exist''))"

definition err_json_too_large :: goerr where
  "err_json_too_large = Msg ''json payload exceeds size limit''"

definition decodeJSONLimited :: "(bytes \<Rightarrow> 'a res) \<Rightarrow> reader \<Rightarrow> nat \<Rightarrow> 'a res" where
  "decodeJSONLimited dec r maxBytes =
     (case read_all (rd_limit (maxBytes + 1) r) of
        (data, Some e) \<Rightarrow> Inl e
      | (data, None) \<Rightarrow>
          if length data > maxBytes then Inl err_json_too_large
          else (case dec data of Inl e \<Rightarrow> Inl (Wrap ''json decode: %w'' e) | Inr v \<Rightarrow> Inr v))"

definition getJSONLimited :: "('t, 'w) backend \<Rightarrow> (bytes \<Rightarrow> 'a res) \<Rightarrow> string \<Rightarrow> nat \<Rightarrow> 't \<Rightarrow> 'a res \<times> 't" where
  "getJSONLimited B dec rel maxBytes t =
     (case tr_open B rel t of
        (Inl e, t') \<Rightarrow> (Inl e, t')
      | (Inr r, t') \<Rightarrow> (decodeJSONLimited dec r maxBytes, t'))"

definition getJSON :: "('t, 'w) backend \<Rightarrow> (bytes \<Rightarrow> 'a res) \<Rightarrow> string \<Rightarrow> 't \<Rightarrow> 'a res \<times> 't" where
  "getJSON B dec rel t = getJSONLimited B dec rel maxJSONBytes t"

definition mkdir_parent :: "('t, 'w) backend \<Rightarrow> string \<Rightarrow> 't \<Rightarrow> goerr option \<times> 't" where
  "mkdir_parent B rel t =
     (let dir = DirPath rel in if dir \<noteq> '''' \<and> dir \<noteq> ''.'' then tr_mkdir B dir t else (None, t))"

text \<open>One chunk with the whole content, then the commit; \<open>putBytes\<close> and \<open>promoteStaged\<close> share it.\<close>

definition write_whole ::
  "('t, 'w) backend \<Rightarrow> string \<Rightarrow> bytes \<Rightarrow> int \<Rightarrow> digest \<Rightarrow> u32 \<Rightarrow> int \<Rightarrow> 't \<Rightarrow> goerr option \<times> 't" where
  "write_whole B rel data sz dg mode mt t =
     (case mkdir_parent B rel t of
        (Some e, t1) \<Rightarrow> (Some e, t1)
      | (None, t1) \<Rightarrow>
          (case tr_begin B rel sz t1 of
             (Inl e, t2) \<Rightarrow> (Some e, t2)
           | (Inr s, t2) \<Rightarrow>
               (case tr_step B (SWrite 0 CodecNone (int (length data)) data) (s, t2) of
                  (st, Some e) \<Rightarrow> (Some e, aborted B st)
                | (st, None) \<Rightarrow>
                    (case tr_step B (SCommit dg mode (Some mt)) st of
                       (st', Some e) \<Rightarrow> (Some e, aborted B st')
                     | ((s', t'), None) \<Rightarrow> (None, t')))))"

definition putBytes :: "(bytes \<Rightarrow> digest) \<Rightarrow> int \<Rightarrow> ('t, 'w) backend \<Rightarrow> string \<Rightarrow> bytes \<Rightarrow> 't \<Rightarrow> goerr option \<times> 't" where
  "putBytes H now B rel data t = write_whole B rel data (int (length data)) (H data) 420 now t"

definition putJSON :: "(bytes \<Rightarrow> digest) \<Rightarrow> int \<Rightarrow> ('t, 'w) backend \<Rightarrow> string \<Rightarrow> bytes res \<Rightarrow> 't \<Rightarrow> goerr option \<times> 't" where
  "putJSON H now B rel body t = (case body of Inl e \<Rightarrow> (Some e, t) | Inr b \<Rightarrow> putBytes H now B rel b t)"

section \<open>Signals\<close>

definition store_notify ::
  "(bytes \<Rightarrow> digest) \<Rightarrow> int \<Rightarrow> ('t, 'w) backend \<Rightarrow> relay_json \<Rightarrow> string \<Rightarrow> notify_meta \<Rightarrow> 't \<Rightarrow> goerr option \<times> 't" where
  "store_notify H now B js jobID meta t = putJSON H now B (notify_path (job_prefix jobID)) (enc_notify js meta) t"

definition poll_manifest :: "('t, 'w) backend \<Rightarrow> string \<Rightarrow> 't \<Rightarrow> (notify_meta \<times> bool \<times> goerr option) \<times> 't" where
  "poll_manifest B jobID t =
     (let none = \<lparr>n_job = '''', n_via = '''', n_generation = 0\<rparr> in
      case tr_stat B (manifest_path (job_prefix jobID)) t of
        (Inr _, t') \<Rightarrow> ((none\<lparr>n_job := jobID\<rparr>, True, None), t')
      | (Inl e, t') \<Rightarrow> ((none, False, if isAbsent e then None else Some (Wrap ''poll manifest: %w'' e)), t'))"

definition pollOnce ::
  "('t, 'w) backend \<Rightarrow> relay_json \<Rightarrow> string \<Rightarrow> 't \<Rightarrow> (notify_meta \<times> bool \<times> goerr option) \<times> 't" where
  "pollOnce B js jobID t =
     (let none = \<lparr>n_job = '''', n_via = '''', n_generation = 0\<rparr> in
      case tr_open B (notify_path (job_prefix jobID)) t of
        (Inr r, t1) \<Rightarrow>
          (case decodeJSONLimited (dec_notify js) r maxNotifyBytes of
             Inr meta \<Rightarrow> ((meta, True, None), t1)
           | Inl _ \<Rightarrow> poll_manifest B jobID t1)
      | (Inl e, t1) \<Rightarrow>
          if isAbsent e then poll_manifest B jobID t1 else ((none, False, Some (Wrap ''poll notify: %w'' e)), t1))"

text \<open>
  \<open>Wait\<close>: each element of the list is one round, with what \<open>ctx.Err\<close> says before the poll and what ends
  the waiting after it. Running out of rounds is still waiting.
\<close>

fun store_wait ::
  "('t, 'w) backend \<Rightarrow> relay_json \<Rightarrow> string \<Rightarrow> (goerr option \<times> goerr option) list \<Rightarrow> nat \<Rightarrow> 't
     \<Rightarrow> (notify_meta res \<times> 't) option" where
  "store_wait B js jobID [] hardFails t = None"
| "store_wait B js jobID ((before, after) # evs) hardFails t =
     (case before of
        Some e \<Rightarrow> Some (Inl e, t)
      | None \<Rightarrow>
          (case pollOnce B js jobID t of
             ((meta, True, err), t') \<Rightarrow> Some (Inr meta, t')
           | ((meta, False, Some e), t') \<Rightarrow>
               if hardFails + 1 \<ge> storeSignalMaxHardFails then Some (Inl e, t')
               else (case after of Some e' \<Rightarrow> Some (Inl e', t') | None \<Rightarrow> store_wait B js jobID evs (hardFails + 1) t')
           | ((meta, False, None), t') \<Rightarrow>
               (case after of Some e' \<Rightarrow> Some (Inl e', t') | None \<Rightarrow> store_wait B js jobID evs 0 t')))"

text \<open>What wakes \<open>waitForJob\<close>: the ticker, the one answer of the signal, the context.\<close>

datatype wake = WTick | WSignal "goerr option" | WDone goerr

fun wait_loop ::
  "('t, 'w) backend \<Rightarrow> relay_json \<Rightarrow> string \<Rightarrow> wake list \<Rightarrow> nat \<Rightarrow> 't \<Rightarrow> (goerr option \<times> 't) option" where
  "wait_loop B js jobID [] hardFails t = None"
| "wait_loop B js jobID (WDone e # evs) hardFails t = Some (Some e, t)"
| "wait_loop B js jobID (ev # evs) hardFails t =
     (if (case ev of WSignal (Some e) \<Rightarrow> \<not> err_is e Canceled \<and> \<not> err_is e DeadlineExceeded | _ \<Rightarrow> False)
      then wait_loop B js jobID evs hardFails t
      else (case pollOnce B js jobID t of
              ((meta, True, err), t') \<Rightarrow> Some (None, t')
            | ((meta, False, Some e), t') \<Rightarrow>
                if hardFails + 1 \<ge> storeSignalMaxHardFails then Some (Some e, t')
                else wait_loop B js jobID evs (hardFails + 1) t'
            | ((meta, False, None), t') \<Rightarrow> wait_loop B js jobID evs 0 t'))"

definition waitForJob ::
  "('t, 'w) backend \<Rightarrow> relay_json \<Rightarrow> string \<Rightarrow> wake list \<Rightarrow> 't \<Rightarrow> (goerr option \<times> 't) option" where
  "waitForJob B js jobID evs t =
     (case pollOnce B js jobID t of
        ((meta, True, err), t') \<Rightarrow> Some (None, t')
      | ((meta, False, Some e), t') \<Rightarrow> Some (Some e, t')
      | ((meta, False, None), t') \<Rightarrow> wait_loop B js jobID evs 0 t')"

section \<open>Sending\<close>

record send_options =
  so_job :: string
  so_ttl :: int
  so_sender :: string
  so_exclude :: "string list"
  so_avg :: u32

definition second_nano :: int where "second_nano = 1000000000"

text \<open>The callback of \<open>StreamChunks\<close>: its state is the file's chunk list, the digests known to be stored and the middle store.\<close>

definition send_chunk ::
  "(bytes \<Rightarrow> digest) \<Rightarrow> int \<Rightarrow> ('t, 'w) backend \<Rightarrow> string \<Rightarrow> (manifest_chunk list \<times> digest list \<times> 't) callback" where
  "send_chunk H now M p st c =
     (let (mcs, up, tm) = st; dg = c_digest c;
          mcs' = mcs @ [\<lparr>mc_offset = c_offset c, mc_length = c_length c, mc_digest = dg\<rparr>] in
      if dg \<in> set up then ((mcs', up, tm), None)
      else case tr_stat M (object_path p dg) tm of
        (Inr _, tm1) \<Rightarrow> ((mcs', dg # up, tm1), None)
      | (Inl _, tm1) \<Rightarrow>
          (case c_data c of
             None \<Rightarrow> ((mcs', up, tm1), Some (Msg ''missing chunk data for %s''))
           | Some d \<Rightarrow>
               (case putBytes H now M (object_path p dg) d tm1 of
                  (Some e, tm2) \<Rightarrow> ((mcs', up, tm2), Some e)
                | (None, tm2) \<Rightarrow> ((mcs', dg # up, tm2), None))))"

definition writeLease ::
  "(bytes \<Rightarrow> digest) \<Rightarrow> int \<Rightarrow> ('t, 'w) backend \<Rightarrow> relay_json \<Rightarrow> string \<Rightarrow> lease \<Rightarrow> 't \<Rightarrow> goerr option \<times> 't" where
  "writeLease H now M js p l tm = putJSON H now M (lease_path p) (enc_lease js l) tm"

text \<open>
  One file: its manifest entry and the new set of stored digests. \<open>None\<close> is a chunker that does not return.
\<close>

definition send_file ::
  "(bytes \<Rightarrow> digest) \<Rightarrow> int \<Rightarrow> ('s, 'v) backend \<Rightarrow> ('t, 'w) backend \<Rightarrow> string \<Rightarrow> u32 \<Rightarrow> file_meta \<Rightarrow> digest list
     \<Rightarrow> 's \<times> 't \<Rightarrow> ((manifest_file \<times> digest list) res \<times> 's \<times> 't) option" where
  "send_file H now S M p avg f up st =
     (let (ts, tm) = st in
      case tr_open S (fm_rel f) ts of
        (Inl e, ts1) \<Rightarrow> Some (Inl e, ts1, tm)
      | (Inr r, ts1) \<Rightarrow>
          (case StreamChunks H r (fm_size f) \<lparr>o_avg = avg, o_min = 0, o_max = 0, o_keep = False\<rparr>
                  (send_chunk H now M p) ([], up, tm) of
             None \<Rightarrow> None
           | Some ((mcs, up', tm1), Inl e) \<Rightarrow> Some (Inl e, ts1, tm1)
           | Some ((mcs, up', tm1), Inr sg) \<Rightarrow>
               Some (Inr (\<lparr>mf_rel = fm_rel f, mf_size = fm_size f, mf_digest = s_digest sg, mf_mode = fm_mode f,
                           mf_mod = fm_mod f, mf_chunks = mcs\<rparr>, up'), ts1, tm1)))"

text \<open>
  The loop over the files. \<open>clk k\<close> is the clock and \<open>ctx k\<close> the context after \<open>k\<close> files; the lease is
  written anew after every 32nd file.
\<close>

fun send_files ::
  "(bytes \<Rightarrow> digest) \<Rightarrow> (nat \<Rightarrow> int) \<Rightarrow> (nat \<Rightarrow> goerr option) \<Rightarrow> ('s, 'v) backend \<Rightarrow> ('t, 'w) backend \<Rightarrow> relay_json
     \<Rightarrow> string \<Rightarrow> u32 \<Rightarrow> int \<Rightarrow> file_meta list \<Rightarrow> nat \<Rightarrow> manifest_file list \<Rightarrow> digest list \<Rightarrow> lease \<Rightarrow> 's \<times> 't
     \<Rightarrow> ((manifest_file list \<times> lease) res \<times> 's \<times> 't) option" where
  "send_files H clk ctx S M js p avg ttl [] k mfs up l st = Some (Inr (mfs, l), st)"
| "send_files H clk ctx S M js p avg ttl (f # fs) k mfs up l st =
     (case ctx k of
        Some e \<Rightarrow> Some (Inl e, st)
      | None \<Rightarrow>
          (case send_file H (clk k) S M p avg f up st of
             None \<Rightarrow> None
           | Some (Inl e, st1) \<Rightarrow> Some (Inl e, st1)
           | Some (Inr (mf, up'), ts1, tm1) \<Rightarrow>
               if (k + 1) mod leaseRefreshEvery = 0
               then let l' = l\<lparr>l_expires := clk (k + 1) + ttl\<rparr> in
                    (case writeLease H (clk (k + 1)) M js p l' tm1 of
                       (Some e, tm2) \<Rightarrow> Some (Inl e, ts1, tm2)
                     | (None, tm2) \<Rightarrow> send_files H clk ctx S M js p avg ttl fs (k + 1) (mfs @ [mf]) up' l' (ts1, tm2))
               else send_files H clk ctx S M js p avg ttl fs (k + 1) (mfs @ [mf]) up' l (ts1, tm1)))"

text \<open>
  After the files: the lease, the manifest, the notification through the store and, when there is one,
  through \<open>signal\<close>, given by its outcome.
\<close>

definition send_publish ::
  "(bytes \<Rightarrow> digest) \<Rightarrow> int \<Rightarrow> ('t, 'w) backend \<Rightarrow> relay_json \<Rightarrow> string \<Rightarrow> lease \<Rightarrow> manifest \<Rightarrow> goerr option option
     \<Rightarrow> 't \<Rightarrow> goerr option \<times> 't" where
  "send_publish H now M js p l man signal tm =
     (case writeLease H now M js p l tm of
        (Some e, tm1) \<Rightarrow> (Some e, tm1)
      | (None, tm1) \<Rightarrow>
          (case putJSON H now M (manifest_path p) (enc_manifest js man) tm1 of
             (Some e, tm2) \<Rightarrow> (Some e, tm2)
           | (None, tm2) \<Rightarrow>
               (case store_notify H now M js (m_job man) \<lparr>n_job = m_job man, n_via = '''', n_generation = l_generation l\<rparr> tm2 of
                  (Some e, tm3) \<Rightarrow> (Some (Wrap ''store notify: %w'' e), tm3)
                | (None, tm3) \<Rightarrow>
                    (case signal of
                       Some (Some e) \<Rightarrow> (Some (Wrap ''signal notify: %w'' e), tm3)
                     | _ \<Rightarrow> (None, tm3)))))"

definition Send ::
  "(bytes \<Rightarrow> digest) \<Rightarrow> (nat \<Rightarrow> int) \<Rightarrow> (nat \<Rightarrow> goerr option) \<Rightarrow> ('s, 'v) backend \<Rightarrow> ('t, 'w) backend \<Rightarrow> relay_json
     \<Rightarrow> send_options \<Rightarrow> goerr option option \<Rightarrow> 's \<times> 't \<Rightarrow> (goerr option \<times> 's \<times> 't) option" where
  "Send H clk ctx S M js opts signal st =
     (let (ts, tm) = st in
      case SanitizeJobID (so_job opts) of
        Inl e \<Rightarrow> Some (Some e, ts, tm)
      | Inr job \<Rightarrow>
          let ttl = (if so_ttl opts \<le> 0 then 24 * 3600 * second_nano else so_ttl opts);
              p = job_prefix job; now = clk 0;
              l = \<lparr>l_job = job, l_sender = (if so_sender opts = '''' then ''sender'' else so_sender opts),
                   l_generation = now, l_ttl = ttl div second_nano, l_created = now, l_expires = now + ttl\<rparr> in
          (case writeLease H now M js p l tm of
             (Some e, tm1) \<Rightarrow> Some (Some e, ts, tm1)
           | (None, tm1) \<Rightarrow>
               (case tr_walk S (so_exclude opts) ts of
                  (Inl e, ts1) \<Rightarrow> Some (Some e, ts1, tm1)
                | (Inr files, ts1) \<Rightarrow>
                    (case send_files H clk ctx S M js p (so_avg opts) ttl files 0 [] [] l (ts1, tm1) of
                       None \<Rightarrow> None
                     | Some (Inl e, ts2, tm2) \<Rightarrow> Some (Some e, ts2, tm2)
                     | Some (Inr (mfs, l'), ts2, tm2) \<Rightarrow>
                         let now' = clk (length files) in
                         (case send_publish H now' M js p (l'\<lparr>l_expires := now' + ttl\<rparr>)
                                 \<lparr>m_schema = schemaVersion, m_job = job, m_created = now, m_files = mfs\<rparr> signal tm2 of
                            (e, tm3) \<Rightarrow> Some (e, ts2, tm3))))))"

section \<open>Checking a manifest\<close>

text \<open>The chunks must be contiguous from \<open>next\<close>, which is a \<open>uint64\<close>; the result is the end of the last.\<close>

fun chunk_walk :: "u64 \<Rightarrow> manifest_chunk list \<Rightarrow> u64 res" where
  "chunk_walk nxt [] = Inr nxt"
| "chunk_walk nxt (c # cs) =
     (if mc_offset c \<noteq> nxt then Inl (Msg ''chunk[%d]: gap or overlap at offset %d (want %d)'')
      else if mc_length c = 0 then Inl (Msg ''chunk[%d]: zero length'')
      else if mc_length c > maxChunkLength then Inl (Msg ''chunk[%d]: length %d exceeds max %d'')
      else chunk_walk (nxt + ucast (mc_length c)) cs)"

definition validateManifestFile :: "manifest_file \<Rightarrow> goerr option" where
  "validateManifestFile f =
     (case SafeJoinFile (Inr ''/'') ''/quiksync-relay-confine'' (mf_rel f) of
        Inl e \<Rightarrow> Some (Wrap ''rel_path: %w'' e)
      | Inr _ \<Rightarrow>
          if mf_size f < 0 then Some (Msg ''negative size'')
          else case chunk_walk 0 (mf_chunks f) of
            Inl e \<Rightarrow> Some e
          | Inr nxt \<Rightarrow>
              if i64_of_u64 nxt \<noteq> mf_size f then Some (Msg ''chunks cover %d bytes, size is %d'') else None)"

fun validate_files :: "string list \<Rightarrow> manifest_file list \<Rightarrow> goerr option" where
  "validate_files seen [] = None"
| "validate_files seen (f # fs) =
     (case validateManifestFile f of
        Some e \<Rightarrow> Some (Wrap ''file[%d]: %w'' e)
      | None \<Rightarrow> if mf_rel f \<in> set seen then Some (Msg ''duplicate rel_path %q'') else validate_files (mf_rel f # seen) fs)"

definition validateManifest :: "string \<Rightarrow> manifest \<Rightarrow> goerr option" where
  "validateManifest jobID man =
     (if m_schema man \<noteq> schemaVersion then Some (Msg ''unsupported schema_version %d'')
      else if m_job man \<noteq> jobID then Some (Msg ''job_id mismatch: manifest %q want %q'')
      else validate_files [] (m_files man))"

section \<open>Receiving\<close>

definition readObject ::
  "(bytes \<Rightarrow> digest) \<Rightarrow> ('t, 'w) backend \<Rightarrow> string \<Rightarrow> digest \<Rightarrow> int \<Rightarrow> 't \<Rightarrow> bytes res \<times> 't" where
  "readObject H M rel want wantLen tm =
     (if wantLen \<le> 0 \<or> wantLen > int maxObjectBytes then (Inl (Msg ''object length %d out of range for digest %s''), tm)
      else case tr_open M rel tm of
        (Inl e, tm1) \<Rightarrow> (Inl (Wrap ''fetch object %s: %w'' e), tm1)
      | (Inr r, tm1) \<Rightarrow>
          (case read_all (rd_limit (nat wantLen + 1) r) of
             (data, Some e) \<Rightarrow> (Inl e, tm1)
           | (data, None) \<Rightarrow>
               if int (length data) \<noteq> wantLen then (Inl (Msg ''object size %d != expected %d for digest %s''), tm1)
               else if H data \<noteq> want then (Inl (Msg ''poison object for digest %s''), tm1)
               else (Inr data, tm1)))"

text \<open>The signature that the manifest entry stands for.\<close>

definition sig_of_manifest :: "manifest_file \<Rightarrow> signature" where
  "sig_of_manifest f =
     \<lparr>s_size = mf_size f, s_digest = mf_digest f,
      s_chunks = map (\<lambda>c. \<lparr>c_offset = mc_offset c, c_length = mc_length c, c_digest = mc_digest c, c_data = None\<rparr>) (mf_chunks f)\<rparr>"

text \<open>The loop over the chunks, with the two backends' states and the write session.\<close>

definition put_object ::
  "(bytes \<Rightarrow> digest) \<Rightarrow> ('t, 'w) backend \<Rightarrow> ('d, 'x) backend \<Rightarrow> string \<Rightarrow> manifest_chunk \<Rightarrow> 'x \<times> 't \<times> 'd
     \<Rightarrow> goerr option \<times> 'x \<times> 't \<times> 'd" where
  "put_object H M D p c st =
     (let (s, tm, td) = st in
      case readObject H M (object_path p (mc_digest c)) (mc_digest c) (int (unat (mc_length c))) tm of
        (Inl e, tm1) \<Rightarrow> (Some e, s, tm1, td)
      | (Inr data, tm1) \<Rightarrow>
          (case tr_step D (SWrite (mc_offset c) CodecNone (int (length data)) data) (s, td) of
             ((s', td'), e) \<Rightarrow> (e, s', tm1, td')))"

fun put_chunks ::
  "(bytes \<Rightarrow> digest) \<Rightarrow> ('t, 'w) backend \<Rightarrow> ('d, 'x) backend \<Rightarrow> string \<Rightarrow> signature \<Rightarrow> plan \<Rightarrow> manifest_chunk list \<Rightarrow> 'x \<times> 't \<times> 'd
     \<Rightarrow> goerr option \<times> 'x \<times> 't \<times> 'd" where
  "put_chunks H M D p destSig pl [] st = (None, st)"
| "put_chunks H M D p destSig pl (c # cs) st =
     (case (if mc_digest c \<in> c_digest ` set (p_missing pl) \<or> s_chunks destSig = [] then put_object H M D p c st
            else if SupportsReuseChunk (tr_caps D) \<and> s_chunks destSig \<noteq> [] then
              let (s, tm, td) = st; re = reuse_at (p_reuse pl) (mc_offset c) in
              (case tr_step D (SReuse (re_new re) (re_old re) (re_digest re) (re_length re)) (s, td) of
                 ((s', td'), e) \<Rightarrow> (e, s', tm, td'))
            else put_object H M D p c st) of
        (Some e, st') \<Rightarrow> (Some e, st')
      | (None, st') \<Rightarrow> put_chunks H M D p destSig pl cs st')"

definition materialize ::
  "(bytes \<Rightarrow> digest) \<Rightarrow> ('t, 'w) backend \<Rightarrow> ('d, 'x) backend \<Rightarrow> string \<Rightarrow> manifest_file \<Rightarrow> 't \<times> 'd \<Rightarrow> goerr option \<times> 't \<times> 'd" where
  "materialize H M D p f st =
     (let (tm, td) = st in
      case tr_sig D (mf_rel f) td of (g, td1) \<Rightarrow>
        let destSig = (case g of Inr sg \<Rightarrow> sg | Inl _ \<Rightarrow> empty_signature); pl = Diff (sig_of_manifest f) destSig in
        (case tr_begin D (mf_rel f) (mf_size f) td1 of
           (Inl e, td2) \<Rightarrow> (Some e, tm, td2)
         | (Inr s, td2) \<Rightarrow>
             (case put_chunks H M D p destSig pl (mf_chunks f) (s, tm, td2) of
                (Some e, s', tm1, td3) \<Rightarrow> (Some e, tm1, aborted D (s', td3))
              | (None, s', tm1, td3) \<Rightarrow>
                  (case tr_step D (SCommit (mf_digest f) (mf_mode f) (Some (mf_mod f))) (s', td3) of
                     (st', Some e) \<Rightarrow> (Some e, tm1, aborted D st')
                   | ((s'', td4), None) \<Rightarrow> (None, tm1, td4)))))"

definition promoteStaged ::
  "(bytes \<Rightarrow> digest) \<Rightarrow> ('d, 'x) backend \<Rightarrow> string \<Rightarrow> manifest_file \<Rightarrow> 'd \<Rightarrow> goerr option \<times> 'd" where
  "promoteStaged H D stagedRel f td =
     (case tr_open D stagedRel td of
        (Inl e, td1) \<Rightarrow> (Some e, td1)
      | (Inr r, td1) \<Rightarrow>
          (case read_all (rd_limit (nat (wrap64 (mf_size f + 1))) r) of
             (data, Some e) \<Rightarrow> (Some e, td1)
           | (data, None) \<Rightarrow>
               if int (length data) \<noteq> mf_size f then (Some (Msg ''staged size %d != %d''), td1)
               else if H data \<noteq> mf_digest f then (Some (Msg ''staged digest mismatch for %s''), td1)
               else (case write_whole D (mf_rel f) data (mf_size f) (mf_digest f) (mf_mode f) (mf_mod f) td1 of
                       (Some e, td2) \<Rightarrow> (Some e, td2)
                     | (None, td2) \<Rightarrow> (None, snd (tr_remove D stagedRel td2)))))"

text \<open>\<open>removeTree\<close>, whose result the only caller ignores.\<close>

definition staged_path :: "string \<Rightarrow> manifest_file \<Rightarrow> string" where
  "staged_path rt f = PathJoin [rt, mf_rel f]"

fun removeTree :: "('d, 'x) backend \<Rightarrow> string \<Rightarrow> manifest_file list \<Rightarrow> goerr option \<Rightarrow> 'd \<Rightarrow> goerr option \<times> 'd" where
  "removeTree D rt [] first td = (first, td)"
| "removeTree D rt (f # fs) first td =
     (case tr_remove D (staged_path rt f) td of
        (Some e, td') \<Rightarrow> removeTree D rt fs (if \<not> isAbsent e \<and> first = None then Some e else first) td'
      | (None, td') \<Rightarrow> removeTree D rt fs first td')"

fun stage_all ::
  "(bytes \<Rightarrow> digest) \<Rightarrow> ('t, 'w) backend \<Rightarrow> ('d, 'x) backend \<Rightarrow> string \<Rightarrow> string \<Rightarrow> manifest_file list \<Rightarrow> 't \<times> 'd
     \<Rightarrow> goerr option \<times> 't \<times> 'd" where
  "stage_all H M D p rt [] st = (None, st)"
| "stage_all H M D p rt (f # fs) st =
     (case materialize H M D p (f\<lparr>mf_rel := staged_path rt f\<rparr>) st of
        (Some e, st') \<Rightarrow> (Some (Wrap ''stage file[%d] %s: %w'' e), st')
      | (None, st') \<Rightarrow> stage_all H M D p rt fs st')"

fun promote_all :: "(bytes \<Rightarrow> digest) \<Rightarrow> ('d, 'x) backend \<Rightarrow> string \<Rightarrow> manifest_file list \<Rightarrow> 'd \<Rightarrow> goerr option \<times> 'd" where
  "promote_all H D rt [] td = (None, td)"
| "promote_all H D rt (f # fs) td =
     (case promoteStaged H D (staged_path rt f) f td of
        (Some e, td') \<Rightarrow> (Some (Wrap ''promote file[%d] %s: %w'' e), td')
      | (None, td') \<Rightarrow> promote_all H D rt fs td')"

definition recv_root :: "string \<Rightarrow> string" where
  "recv_root job = PathJoin [''.quiksync/recv-staging'', job]"

text \<open>From the checked manifest to the acknowledgement; the staging tree is removed on every way out.\<close>

definition recv_files ::
  "(bytes \<Rightarrow> digest) \<Rightarrow> int \<Rightarrow> ('t, 'w) backend \<Rightarrow> ('d, 'x) backend \<Rightarrow> relay_json \<Rightarrow> string \<Rightarrow> manifest_file list \<Rightarrow> 't \<times> 'd
     \<Rightarrow> goerr option \<times> 't \<times> 'd" where
  "recv_files H now M D js job fs st =
     (let rt = recv_root job; p = job_prefix job in
      case (case stage_all H M D p rt fs st of
              (Some e, tm, td) \<Rightarrow> (Some e, tm, td)
            | (None, tm, td) \<Rightarrow>
                (case promote_all H D rt fs td of
                   (Some e, td') \<Rightarrow> (Some e, tm, td')
                 | (None, td') \<Rightarrow>
                     (case putJSON H now M (ack_path p) (enc_ack js \<lparr>a_job = job, a_completed = now, a_files = int (length fs)\<rparr>) tm of
                        (e, tm') \<Rightarrow> (e, tm', td')))) of
        (e, tm, td) \<Rightarrow> (e, tm, snd (removeTree D rt fs None td)))"

definition Recv ::
  "(bytes \<Rightarrow> digest) \<Rightarrow> int \<Rightarrow> ('t, 'w) backend \<Rightarrow> ('d, 'x) backend \<Rightarrow> relay_json \<Rightarrow> string \<Rightarrow> wake list \<Rightarrow> 't \<times> 'd
     \<Rightarrow> (goerr option \<times> 't \<times> 'd) option" where
  "Recv H now M D js jobID evs st =
     (let (tm, td) = st in
      case SanitizeJobID jobID of
        Inl e \<Rightarrow> Some (Some e, tm, td)
      | Inr job \<Rightarrow>
          (case waitForJob M js job evs tm of
             None \<Rightarrow> None
           | Some (Some e, tm1) \<Rightarrow> Some (Some (Wrap ''wait for job: %w'' e), tm1, td)
           | Some (None, tm1) \<Rightarrow>
               (case getJSON M (dec_lease js) (lease_path (job_prefix job)) tm1 of
                  (Inl e, tm2) \<Rightarrow> Some (Some (Wrap ''read lease: %w'' e), tm2, td)
                | (Inr l, tm2) \<Rightarrow>
                    if l_expires l \<noteq> zero_time \<and> now > l_expires l
                    then Some (Some (Msg ''lease expired for job %s''), tm2, td)
                    else (case getJSON M (dec_manifest js) (manifest_path (job_prefix job)) tm2 of
                            (Inl e, tm3) \<Rightarrow> Some (Some (Wrap ''read manifest: %w'' e), tm3, td)
                          | (Inr man, tm3) \<Rightarrow>
                              (case validateManifest job man of
                                 Some e \<Rightarrow> Some (Some (Wrap ''invalid manifest: %w'' e), tm3, td)
                               | None \<Rightarrow> Some (recv_files H now M D js job (m_files man) (tm3, td)))))))"

section \<open>Collecting a job\<close>

text \<open>The first error that is not an absence is kept.\<close>

fun remove_keep :: "('t, 'w) backend \<Rightarrow> string \<Rightarrow> string list \<Rightarrow> goerr option \<Rightarrow> 't \<Rightarrow> goerr option \<times> 't" where
  "remove_keep M fmt [] first tm = (first, tm)"
| "remove_keep M fmt (rel # rels) first tm =
     (case tr_remove M rel tm of
        (Some e, tm') \<Rightarrow> remove_keep M fmt rels (if \<not> isAbsent e \<and> first = None then Some (Wrap fmt e) else first) tm'
      | (None, tm') \<Rightarrow> remove_keep M fmt rels first tm')"

definition manifest_digests :: "manifest \<Rightarrow> digest list" where
  "manifest_digests man = rev (remdups (rev (concat (map (\<lambda>f. map mc_digest (mf_chunks f)) (m_files man)))))"

definition gc_allowed :: "int \<Rightarrow> ('t, 'w) backend \<Rightarrow> relay_json \<Rightarrow> string \<Rightarrow> 't \<Rightarrow> goerr option \<times> 't" where
  "gc_allowed now M js p tm =
     (case tr_stat M (ack_path p) tm of
        (Inr _, tm1) \<Rightarrow> (None, tm1)
      | (Inl _, tm1) \<Rightarrow>
          (case getJSON M (dec_lease js) (lease_path p) tm1 of
             (Inr l, tm2) \<Rightarrow>
               (if now < l_expires l then Some (Msg ''job %s not acked and lease not expired'') else None, tm2)
           | (Inl _, tm2) \<Rightarrow> (Some (Msg ''job %s not acked''), tm2)))"

definition GC :: "int \<Rightarrow> ('t, 'w) backend \<Rightarrow> relay_json \<Rightarrow> string \<Rightarrow> bool \<Rightarrow> 't \<Rightarrow> goerr option \<times> 't" where
  "GC now M js jobID force tm =
     (case SanitizeJobID jobID of
        Inl e \<Rightarrow> (Some e, tm)
      | Inr job \<Rightarrow>
          let p = job_prefix job in
          (case (if force then (None, tm) else gc_allowed now M js p tm) of
             (Some e, tm1) \<Rightarrow> (Some e, tm1)
           | (None, tm1) \<Rightarrow>
               (case (case getJSON M (dec_manifest js) (manifest_path p) tm1 of
                        (Inr man, tm2) \<Rightarrow>
                          remove_keep M ''remove object %s: %w'' (map (object_path p) (manifest_digests man)) None tm2
                      | (Inl _, tm2) \<Rightarrow> (None, tm2)) of
                  (first, tm3) \<Rightarrow>
                    remove_keep M ''remove %s: %w'' [lease_path p, manifest_path p, notify_path p, ack_path p] first tm3)))"

section \<open>Lemmas: effects on a store\<close>

context store
begin

lemma mkdir_parent_keeps: "mkdir_parent B rel t = (e, t') \<Longrightarrow> cnt t' = cnt t"
  by (auto simp: mkdir_parent_def Let_def split: if_splits dest: mkdir)

lemma write_whole_effect:
  assumes "write_whole B rel data sz dg mode mt t = (e, t')" and "usr (nm rel)"
  shows "(\<forall>k. k \<noteq> nm rel \<longrightarrow> cnt t' k = cnt t k) \<and>
    (e = None \<longrightarrow> sz = int (length data) \<longrightarrow> cnt t' (nm rel) = Some data)"
proof -
  obtain e1 t1 where m: "mkdir_parent B rel t = (e1, t1)" by force
  note k1 = mkdir_parent_keeps [OF m]
  show ?thesis
  proof (cases e1)
    case (Some x)
    with assms(1) m k1 show ?thesis by (auto simp: write_whole_def)
  next
    case e1: None
    obtain r t2 where b: "tr_begin B rel sz t1 = (r, t2)" by force
    note k2 = begin_keeps [OF b]
    show ?thesis
    proof (cases r)
      case (Inl x)
      with assms(1) m e1 b k1 k2 show ?thesis by (auto simp: write_whole_def)
    next
      case (Inr s)
      note f = begin_for [OF b [unfolded Inr]]
      obtain s3 t3 e3 where w: "tr_step B (SWrite 0 CodecNone (int (length data)) data) (s, t2) = ((s3, t3), e3)"
        by (metis prod.exhaust)
      note k3 = step [OF f assms(2) w]
      show ?thesis
      proof (cases e3)
        case (Some x)
        with assms(1) m e1 b Inr w have "t' = aborted B (s3, t3)" "e \<noteq> None" by (auto simp: write_whole_def)
        with aborted_keeps [of s3 t3 "nm rel"] k1 k2 k3 assms(2) show ?thesis by auto
      next
        case e3: None
        obtain s4 t4 e4 where c: "tr_step B (SCommit dg mode (Some mt)) (s3, t3) = ((s4, t4), e4)" by (metis prod.exhaust)
        from k3 have f3: "open_for (s3, t3) (nm rel)" by blast
        note k4 = step [OF f3 assms(2) c]
        show ?thesis
        proof (cases e4)
          case (Some x)
          with assms(1) m e1 b Inr w e3 c have "t' = aborted B (s4, t4)" "e \<noteq> None" by (auto simp: write_whole_def)
          with aborted_keeps [of s4 t4 "nm rel"] k1 k2 k3 k4 assms(2) show ?thesis by auto
        next
          case None
          with assms(1) m e1 b Inr w e3 c have r: "t' = t4" "e = None" by (auto simp: write_whole_def)
          have "sz = int (length data) \<Longrightarrow> cnt t4 (nm rel) = Some data"
            using whole_write [of rel data t1 s t2 s3 t3 dg mode "Some mt" s4 t4] b Inr assms(2) w e3 c None by auto
          with r k1 k2 k3 k4 show ?thesis by simp
        qed
      qed
    qed
  qed
qed

lemma putBytes_effect:
  "putBytes H now B rel data t = (e, t') \<Longrightarrow> usr (nm rel) \<Longrightarrow>
   (\<forall>k. k \<noteq> nm rel \<longrightarrow> cnt t' k = cnt t k) \<and> (e = None \<longrightarrow> cnt t' (nm rel) = Some data)"
  using write_whole_effect [of rel data "int (length data)" "H data" 420 now t e t'] by (simp add: putBytes_def)

lemma putJSON_effect:
  "putJSON H now B rel body t = (e, t') \<Longrightarrow> usr (nm rel) \<Longrightarrow>
   (\<forall>k. k \<noteq> nm rel \<longrightarrow> cnt t' k = cnt t k) \<and> (e = None \<longrightarrow> (\<exists>b. body = Inr b \<and> cnt t' (nm rel) = Some b))"
  using putBytes_effect [of now rel _ t e t'] by (cases body) (auto simp: putJSON_def)

lemma getJSON_keeps: "getJSON B dec rel t = (r, t') \<Longrightarrow> cnt t' = cnt t"
  by (auto simp: getJSON_def getJSONLimited_def split: prod.splits sum.splits dest: open_keeps)

lemma poll_keeps: "pollOnce B js job t = (r, t') \<Longrightarrow> cnt t' = cnt t"
  by (auto simp: pollOnce_def poll_manifest_def Let_def split: prod.splits sum.splits if_splits
      dest!: open_keeps stat)

lemma wait_loop_keeps: "wait_loop B js job evs n t = Some (e, t') \<Longrightarrow> cnt t' = cnt t"
proof (induction evs arbitrary: n t)
  case (Cons ev evs)
  obtain m b err t1 where p: "pollOnce B js job t = ((m, b, err), t1)" by (metis prod.exhaust)
  have k: "cnt t1 = cnt t" by (rule poll_keeps [OF p])
  show ?case
  proof (cases ev)
    case (WDone x)
    with Cons.prems show ?thesis by simp
  qed (use Cons.prems Cons.IH [of _ t] Cons.IH [of _ t1] p k in \<open>auto split: if_splits bool.splits option.splits\<close>)
qed simp

lemma waitForJob_keeps: "waitForJob B js job evs t = Some (e, t') \<Longrightarrow> cnt t' = cnt t"
  by (auto simp: waitForJob_def split: prod.splits bool.splits option.splits dest!: poll_keeps wait_loop_keeps)

lemma readObject_keeps:
  "readObject H B rel want n t = (r, t') \<Longrightarrow> cnt t' = cnt t \<and> (\<forall>data. r = Inr data \<longrightarrow> int (length data) = n \<and> H data = want)"
  by (auto simp: readObject_def split: prod.splits sum.splits if_splits option.splits dest: open_keeps)

lemma remove_tree_effect:
  "removeTree B rt fs first t = (e, t') \<Longrightarrow> k \<notin> (\<lambda>f. nm (staged_path rt f)) ` set fs \<Longrightarrow> cnt t' k = cnt t k"
proof (induction fs arbitrary: first t)
  case (Cons f fs)
  obtain e1 t1 where r: "tr_remove B (staged_path rt f) t = (e1, t1)" by force
  then have "cnt t1 k = cnt t k" using remove [OF r, of k] Cons.prems(2) by simp
  with Cons r show ?case by (cases e1) auto
qed simp

lemma materialize_effect:
  assumes "materialize H M B p f (tm, t) = (e, tm', t')" and "usr (nm (mf_rel f))"
  shows "\<forall>k. k \<noteq> nm (mf_rel f) \<longrightarrow> cnt t' k = cnt t k"
proof -
  let ?k = "nm (mf_rel f)"
  have put: "put_object H M B p c (s, tm, t) = (e, s', tm', t') \<Longrightarrow> open_for (s, t) ?k \<Longrightarrow> open_for (s', t') ?k \<and> cnt t' = cnt t"
    for c s tm t e s' tm' t'
    using step [OF _ assms(2), of s t] by (auto simp: put_object_def Let_def split: prod.splits sum.splits)
  have chunks: "put_chunks H M B p dsig pl cs (s, tm, t) = (e, s', tm', t') \<Longrightarrow> open_for (s, t) ?k \<Longrightarrow>
      open_for (s', t') ?k \<and> cnt t' = cnt t" for dsig pl cs s tm t e s' tm' t'
  proof (induction cs arbitrary: s tm t)
    case (Cons c cs)
    obtain e1 s1 tm1 t1 where c: "(if mc_digest c \<in> c_digest ` set (p_missing pl) \<or> s_chunks dsig = [] then put_object H M B p c (s, tm, t)
            else if SupportsReuseChunk (tr_caps B) \<and> s_chunks dsig \<noteq> [] then
              let (s, tm, td) = (s, tm, t); re = reuse_at (p_reuse pl) (mc_offset c) in
              (case tr_step B (SReuse (re_new re) (re_old re) (re_digest re) (re_length re)) (s, td) of
                 ((s', td'), e) \<Rightarrow> (e, s', tm, td'))
            else put_object H M B p c (s, tm, t)) = (e1, s1, tm1, t1)" by (metis prod.exhaust)
    then have o: "open_for (s1, t1) ?k \<and> cnt t1 = cnt t"
      using put [of c s tm t e1 s1 tm1 t1] step [OF Cons.prems(2) assms(2)] Cons.prems(2)
      by (auto simp: Let_def split: if_splits prod.splits)
    from Cons.prems(1) have eq: "(case (e1, s1, tm1, t1) of (Some e, st') \<Rightarrow> (Some e, st')
        | (None, st') \<Rightarrow> put_chunks H M B p dsig pl cs st') = (e, s', tm', t')"
      unfolding put_chunks.simps c .
    with Cons.IH [of s1 tm1 t1] o show ?case by (cases e1) auto
  qed simp
  obtain g t1 where g: "tr_sig B (mf_rel f) t = (g, t1)" by force
  note k1 = sig [OF g]
  let ?ds = "case g of Inr sg \<Rightarrow> sg | Inl _ \<Rightarrow> empty_signature"
  obtain r t2 where b: "tr_begin B (mf_rel f) (mf_size f) t1 = (r, t2)" by force
  note k2 = begin_keeps [OF b]
  show ?thesis
  proof (cases r)
    case (Inl x)
    with assms(1) g b k1 k2 show ?thesis by (simp add: materialize_def)
  next
    case (Inr s)
    note f = begin_for [OF b [unfolded Inr]]
    obtain e3 s3 tm3 t3 where c: "put_chunks H M B p ?ds (Diff (sig_of_manifest f) ?ds) (mf_chunks f) (s, tm, t2) = (e3, s3, tm3, t3)"
      by (metis prod.exhaust)
    note k3 = chunks [OF c f]
    show ?thesis
    proof (cases e3)
      case (Some x)
      with assms(1) g b Inr c have "t' = aborted B (s3, t3)" by (auto simp: materialize_def Let_def)
      with aborted_keeps [of s3 t3 ?k] k1 k2 k3 assms(2) show ?thesis by simp
    next
      case None
      obtain s4 t4 e4 where m: "tr_step B (SCommit (mf_digest f) (mf_mode f) (Some (mf_mod f))) (s3, t3) = ((s4, t4), e4)"
        by (metis prod.exhaust)
      have k4: "open_for (s4, t4) ?k \<and> (\<forall>j. j \<noteq> ?k \<longrightarrow> cnt t4 j = cnt t3 j)" using step [OF _ assms(2) m] k3 by blast
      have "cnt t' = cnt t4"
        using assms(1) g b Inr c None m aborted_keeps [of s4 t4 ?k] k4 assms(2)
        by (cases e4) (auto simp: materialize_def Let_def)
      with k1 k2 k3 k4 show ?thesis by simp
    qed
  qed
qed

lemma stage_all_effect:
  assumes "stage_all H M B p rt fs (tm, t) = (e, tm', t')" and "\<forall>f \<in> set fs. usr (nm (staged_path rt f))"
    and "k \<notin> (\<lambda>f. nm (staged_path rt f)) ` set fs"
  shows "cnt t' k = cnt t k"
  using assms
proof (induction fs arbitrary: tm t)
  case (Cons f fs)
  obtain e1 tm1 t1 where m: "materialize H M B p (f\<lparr>mf_rel := staged_path rt f\<rparr>) (tm, t) = (e1, tm1, t1)"
    by (metis prod.exhaust)
  have "cnt t1 k = cnt t k" using materialize_effect [OF m] Cons.prems(2,3) by simp
  with Cons m show ?case by (cases e1) auto
qed simp

lemma promoteStaged_effect:
  assumes "promoteStaged H B srel f t = (e, t')" and "usr (nm (mf_rel f))"
  shows "(\<forall>k. k \<noteq> nm (mf_rel f) \<and> k \<noteq> nm srel \<longrightarrow> cnt t' k = cnt t k) \<and>
    (e = None \<and> nm srel \<noteq> nm (mf_rel f) \<longrightarrow>
      (\<exists>c. cnt t' (nm (mf_rel f)) = Some c \<and> H c = mf_digest f \<and> int (length c) = mf_size f))"
proof -
  obtain r t1 where o: "tr_open B srel t = (r, t1)" by force
  note k1 = open_keeps [OF o]
  show ?thesis
  proof (cases r)
    case (Inl x)
    with assms(1) o k1 show ?thesis by (auto simp: promoteStaged_def)
  next
    case (Inr x)
    obtain data e2 where rd: "read_all (rd_limit (nat (wrap64 (mf_size f + 1))) x) = (data, e2)" by force
    show ?thesis
    proof (cases "e2 = None \<and> int (length data) = mf_size f \<and> H data = mf_digest f")
      case False
      with assms(1) o Inr rd k1 show ?thesis by (auto simp: promoteStaged_def split: option.splits if_splits)
    next
      case True
      obtain e3 t3 where w: "write_whole B (mf_rel f) data (mf_size f) (mf_digest f) (mf_mode f) (mf_mod f) t1 = (e3, t3)"
        by force
      note k3 = write_whole_effect [OF w assms(2)]
      show ?thesis
      proof (cases e3)
        case (Some y)
        with assms(1) o Inr rd True w k1 k3 show ?thesis by (auto simp: promoteStaged_def)
      next
        case None
        obtain e4 t4 where m: "tr_remove B srel t3 = (e4, t4)" by force
        from assms(1) o Inr rd True w None m have "t' = t4" "e = None" by (auto simp: promoteStaged_def)
        with k1 k3 remove [OF m] True None show ?thesis by auto
      qed
    qed
  qed
qed

text \<open>After the promotions every file is in place, when no two of the paths involved are the same file.\<close>

lemma promote_all_effect:
  assumes "promote_all H B rt fs t = (e, t')" and "\<forall>f \<in> set fs. usr (nm (mf_rel f))"
  shows "\<forall>k. k \<notin> (\<lambda>f. nm (mf_rel f)) ` set fs \<union> (\<lambda>f. nm (staged_path rt f)) ` set fs \<longrightarrow> cnt t' k = cnt t k"
    and "e = None \<Longrightarrow> distinct (map (\<lambda>f. nm (mf_rel f)) fs) \<Longrightarrow>
      (\<forall>f \<in> set fs. \<forall>g \<in> set fs. nm (staged_path rt f) \<noteq> nm (mf_rel g)) \<Longrightarrow>
      (\<forall>f \<in> set fs. \<exists>c. cnt t' (nm (mf_rel f)) = Some c \<and> H c = mf_digest f \<and> int (length c) = mf_size f)"
proof -
  have "(\<forall>k. k \<notin> (\<lambda>f. nm (mf_rel f)) ` set fs \<union> (\<lambda>f. nm (staged_path rt f)) ` set fs \<longrightarrow> cnt t' k = cnt t k) \<and>
    (e = None \<longrightarrow> distinct (map (\<lambda>f. nm (mf_rel f)) fs) \<longrightarrow>
      (\<forall>f \<in> set fs. \<forall>g \<in> set fs. nm (staged_path rt f) \<noteq> nm (mf_rel g)) \<longrightarrow>
      (\<forall>f \<in> set fs. \<exists>c. cnt t' (nm (mf_rel f)) = Some c \<and> H c = mf_digest f \<and> int (length c) = mf_size f))"
    using assms
  proof (induction fs arbitrary: t)
    case (Cons f fs)
    obtain e1 t1 where p: "promoteStaged H B (staged_path rt f) f t = (e1, t1)" by force
    note k1 = promoteStaged_effect [OF p]
    show ?case
    proof (cases e1)
      case (Some x)
      with Cons.prems p k1 show ?thesis by auto
    next
      case None
      with Cons.prems(1) p have r: "promote_all H B rt fs t1 = (e, t')" by simp
      from Cons.IH [OF r] Cons.prems(2) have ih:
        "\<And>k. k \<notin> (\<lambda>f. nm (mf_rel f)) ` set fs \<union> (\<lambda>f. nm (staged_path rt f)) ` set fs \<Longrightarrow> cnt t' k = cnt t1 k"
        "e = None \<Longrightarrow> distinct (map (\<lambda>f. nm (mf_rel f)) fs) \<Longrightarrow>
          \<forall>f \<in> set fs. \<forall>g \<in> set fs. nm (staged_path rt f) \<noteq> nm (mf_rel g) \<Longrightarrow>
          \<forall>f \<in> set fs. \<exists>c. cnt t' (nm (mf_rel f)) = Some c \<and> H c = mf_digest f \<and> int (length c) = mf_size f" by auto
      have u: "usr (nm (mf_rel f))" using Cons.prems(2) by simp
      show ?thesis
      proof (intro conjI impI)
        show "\<forall>k. k \<notin> (\<lambda>f. nm (mf_rel f)) ` set (f # fs) \<union> (\<lambda>f. nm (staged_path rt f)) ` set (f # fs) \<longrightarrow> cnt t' k = cnt t k"
          using ih(1) k1 u by simp
        assume e: "e = None" and d: "distinct (map (\<lambda>f. nm (mf_rel f)) (f # fs))"
          and n: "\<forall>f' \<in> set (f # fs). \<forall>g \<in> set (f # fs). nm (staged_path rt f') \<noteq> nm (mf_rel g)"
        have "nm (mf_rel f) \<notin> (\<lambda>f. nm (mf_rel f)) ` set fs \<union> (\<lambda>f. nm (staged_path rt f)) ` set fs"
          using d n by auto
        then have "cnt t' (nm (mf_rel f)) = cnt t1 (nm (mf_rel f))" by (rule ih(1))
        moreover have "nm (staged_path rt f) \<noteq> nm (mf_rel f)" using n by simp
        ultimately have "\<exists>c. cnt t' (nm (mf_rel f)) = Some c \<and> H c = mf_digest f \<and> int (length c) = mf_size f"
          using k1 [OF u] None by simp
        moreover have "\<forall>f \<in> set fs. \<exists>c. cnt t' (nm (mf_rel f)) = Some c \<and> H c = mf_digest f \<and> int (length c) = mf_size f"
          using ih(2) e d n by simp
        ultimately show "\<forall>f \<in> set (f # fs). \<exists>c. cnt t' (nm (mf_rel f)) = Some c \<and> H c = mf_digest f \<and> int (length c) = mf_size f"
          by simp
      qed
    qed
  qed simp
  then show "\<forall>k. k \<notin> (\<lambda>f. nm (mf_rel f)) ` set fs \<union> (\<lambda>f. nm (staged_path rt f)) ` set fs \<longrightarrow> cnt t' k = cnt t k"
    and "e = None \<Longrightarrow> distinct (map (\<lambda>f. nm (mf_rel f)) fs) \<Longrightarrow>
      (\<forall>f \<in> set fs. \<forall>g \<in> set fs. nm (staged_path rt f) \<noteq> nm (mf_rel g)) \<Longrightarrow>
      (\<forall>f \<in> set fs. \<exists>c. cnt t' (nm (mf_rel f)) = Some c \<and> H c = mf_digest f \<and> int (length c) = mf_size f)" by blast+
qed

end

section \<open>Lemmas: staged paths\<close>

text \<open>The paths strictly below a directory, given by proper names.\<close>

definition below :: "string \<Rightarrow> string set" where
  "below rt = {p. \<exists>cs. cs \<noteq> [] \<and> names cs \<and> p = rt @ ''/'' @ join_with ''/'' cs}"

lemma clean_comps_bottom: "clean_comps False (out @ [''..'']) ps = ''..'' # clean_comps False out ps"
  by (induction "False" out ps rule: clean_comps.induct) (auto split: list.splits simp: neq_Nil_conv)

lemma clean_comps_below:
  "clean_comps False out ps = [] \<or> hd (clean_comps False out ps) \<noteq> ''..'' \<Longrightarrow>
   clean_comps False (out @ rev rc) ps = rc @ clean_comps False out ps"
proof (induction "False" out ps rule: clean_comps.induct)
  case (2 out p ps)
  show ?case
  proof (cases "p = ''..'' \<and> out = []")
    case True
    then have "clean_comps False out (p # ps) = ''..'' # clean_comps False [] ps"
      using clean_comps_bottom [of "[]" ps] by simp
    with "2.prems" show ?thesis by simp
  next
    case False
    with 2 show ?thesis by (cases out) auto
  qed
qed simp

lemma PathJoin_below:
  assumes "names rc" and "rc \<noteq> []" and "rel_comps rel \<noteq> []" and "hd (rel_comps rel) \<noteq> ''..''"
  shows "PathJoin [join_with ''/'' rc, rel] = join_with ''/'' rc @ ''/'' @ join_with ''/'' (rel_comps rel)"
proof -
  let ?r = "join_with ''/'' rc"
  have sp: "split_on CHR ''/'' ?r = rc"
    using assms(1,2) by (intro split_join) (auto simp: names_def is_name_def)
  obtain c cs where rc: "rc = c # cs" "is_name c" using assms(1,2) by (cases rc) auto
  have ne: "?r \<noteq> ''''" using sp rc by (auto simp: is_name_def)
  have na: "\<not> IsAbs (?r @ CHR ''/'' # rel)"
  proof -
    obtain x xs where "c = x # xs" "x \<noteq> CHR ''/''" using rc(2) by (cases c) (auto simp: is_name_def)
    then show ?thesis using rc(1) by (cases cs) (auto simp: IsAbs_Cons)
  qed
  have "split_on CHR ''/'' (?r @ CHR ''/'' # rel) = rc @ split_on CHR ''/'' rel"
    unfolding split_on_append_gen sp ..
  then have "clean_comps False [] (split_on CHR ''/'' (?r @ CHR ''/'' # rel)) = rc @ rel_comps rel"
    using clean_comps_append [of "[]" rc False "split_on CHR ''/'' rel"] assms(1,4)
      clean_comps_below [of "[]" "split_on CHR ''/'' rel" rc]
    by (simp add: rel_comps_def)
  moreover have "join_with ''/'' (rc @ rel_comps rel) = ?r @ ''/'' @ join_with ''/'' (rel_comps rel)"
    by (rule join_with_append [OF assms(2,3)])
  ultimately have "Clean (?r @ CHR ''/'' # rel) = ?r @ ''/'' @ join_with ''/'' (rel_comps rel)"
    using na by (simp add: Clean_def)
  then show ?thesis using ne by (cases "rel = ''''") (use assms(3) in \<open>auto simp: PathJoin_def rel_comps_def\<close>)
qed

lemma validated_rel:
  assumes "validateManifestFile f = None"
  shows "rel_comps (mf_rel f) \<noteq> []" and "hd (rel_comps (mf_rel f)) \<noteq> ''..''" and "names (rel_comps (mf_rel f))"
proof -
  obtain p where "SafeJoinFile (Inr (abs_of [])) ''/quiksync-relay-confine'' (mf_rel f) = Inr p"
    using assms by (auto simp: validateManifestFile_def abs_of_def split: sum.splits)
  then show "rel_comps (mf_rel f) \<noteq> []" "hd (rel_comps (mf_rel f)) \<noteq> ''..''"
    using SafeJoinFile_eq [of "[]"] by auto
  then show "names (rel_comps (mf_rel f))" by (rule names_rel_comps)
qed

lemma recv_root_names:
  assumes "SanitizeJobID jobID = Inr job"
  shows "\<exists>rc. names rc \<and> rc \<noteq> [] \<and> recv_root job = join_with ''/'' rc"
proof -
  have j: "job \<noteq> ''''" "CHR ''/'' \<notin> set job"
    using SanitizeJobID_chars [OF assms] job_char_not_slash by auto
  have dd: "job \<noteq> ''..''"
  proof
    assume e: "job = ''..''"
    let ?j = "if jobID = '''' then ''default'' else jobID"
    have m: "map (\<lambda>c. if job_char c then c else CHR ''_'') ?j = ''..''" and nc: "\<not> Contains ?j ''..''"
      using assms e by (auto simp: SanitizeJobID_def Let_def split: if_splits)
    from m obtain a b where ab: "?j = [a, b]" "(if job_char a then a else CHR ''_'') = CHR ''.''"
      "(if job_char b then b else CHR ''_'') = CHR ''.''" by (auto simp: map_eq_Cons_conv)
    then have "?j = ''..''" by (auto split: if_splits)
    with nc show False by (simp add: Contains_def HasPrefix_def)
  qed
  let ?rc = "[''.quiksync'', ''recv-staging''] @ (if job = ''.'' then [] else [job])"
  have "split_on CHR ''/'' (''.quiksync/recv-staging'' @ CHR ''/'' # job) = [''.quiksync'', ''recv-staging'', job]"
    unfolding split_on_append_gen using j by (simp add: split_on_no_occ)
  then have "Clean (''.quiksync/recv-staging'' @ CHR ''/'' # job) = join_with ''/'' ?rc"
    using j dd by (simp add: Clean_def IsAbs_def HasPrefix_def Let_def)
  then have "recv_root job = join_with ''/'' ?rc" using j by (simp add: recv_root_def PathJoin_def)
  moreover have "names ?rc" using j dd by (auto simp: is_name_def)
  ultimately show ?thesis by blast
qed

lemma staged_below:
  assumes "SanitizeJobID jobID = Inr job" and "validateManifestFile f = None"
  shows "staged_path (recv_root job) f \<in> below (recv_root job)"
  using recv_root_names [OF assms(1)] validated_rel [OF assms(2)] PathJoin_below
  unfolding staged_path_def below_def by fastforce

lemma validate_files_all: "validate_files seen fs = None \<Longrightarrow> \<forall>f \<in> set fs. validateManifestFile f = None"
  by (induction fs arbitrary: seen) (auto split: option.splits if_splits)

lemma validateManifest_all: "validateManifest job man = None \<Longrightarrow> \<forall>f \<in> set (m_files man). validateManifestFile f = None"
  by (auto simp: validateManifest_def split: if_splits dest: validate_files_all)

section \<open>Lemmas: a whole reception\<close>

text \<open>What a reception goes on with: the manifest read from the store under a lease that has not expired, when it is valid.\<close>

definition recv_reads ::
  "int \<Rightarrow> ('t, 'w) backend \<Rightarrow> relay_json \<Rightarrow> string \<Rightarrow> wake list \<Rightarrow> 't \<Rightarrow> (manifest \<times> 't) option" where
  "recv_reads now M js job evs tm =
     (case waitForJob M js job evs tm of
        Some (None, tm1) \<Rightarrow>
          (case getJSON M (dec_lease js) (lease_path (job_prefix job)) tm1 of
             (Inr l, tm2) \<Rightarrow>
               (case getJSON M (dec_manifest js) (manifest_path (job_prefix job)) tm2 of
                  (Inr man, tm3) \<Rightarrow>
                    if (l_expires l = zero_time \<or> now \<le> l_expires l) \<and> validateManifest job man = None then Some (man, tm3) else None
                | _ \<Rightarrow> None)
           | _ \<Rightarrow> None)
      | _ \<Rightarrow> None)"

context store
begin

lemma recv_files_effect:
  assumes "recv_files H now M B js job fs (tm, t) = (e, tm', t')"
    and "\<forall>f \<in> set fs. usr (nm (staged_path (recv_root job) f))"
  shows "\<exists>es tm1 t1. stage_all H M B (job_prefix job) (recv_root job) fs (tm, t) = (es, tm1, t1) \<and>
    (\<forall>k. k \<notin> (\<lambda>f. nm (staged_path (recv_root job) f)) ` set fs \<longrightarrow> cnt t1 k = cnt t k) \<and>
    (es \<noteq> None \<longrightarrow> e = es \<and> (\<forall>k. k \<notin> (\<lambda>f. nm (staged_path (recv_root job) f)) ` set fs \<longrightarrow> cnt t' k = cnt t k)) \<and>
    (es = None \<longrightarrow> (\<exists>ep t2. promote_all H B (recv_root job) fs t1 = (ep, t2) \<and> (e = None \<longrightarrow> ep = None) \<and>
       (\<forall>k. k \<notin> (\<lambda>f. nm (staged_path (recv_root job) f)) ` set fs \<longrightarrow> cnt t' k = cnt t2 k)))"
proof -
  let ?rt = "recv_root job" and ?p = "job_prefix job"
  obtain es tm1 t1 where s: "stage_all H M B ?p ?rt fs (tm, t) = (es, tm1, t1)" by (metis prod.exhaust)
  have k1: "\<forall>k. k \<notin> (\<lambda>f. nm (staged_path ?rt f)) ` set fs \<longrightarrow> cnt t1 k = cnt t k"
    using stage_all_effect [OF s assms(2)] by blast
  have rm: "k \<notin> (\<lambda>f. nm (staged_path ?rt f)) ` set fs \<Longrightarrow> cnt (snd (removeTree B ?rt fs None t2)) k = cnt t2 k" for k t2
    using remove_tree_effect [of ?rt fs None t2] by (metis prod.collapse)
  show ?thesis
  proof (cases es)
    case (Some x)
    then have "e = es" "t' = snd (removeTree B ?rt fs None t1)" using assms(1) s by (auto simp: recv_files_def Let_def)
    with s Some k1 rm show ?thesis by simp
  next
    case None
    obtain ep t2 where p: "promote_all H B ?rt fs t1 = (ep, t2)" by force
    obtain ea tm2 where a: "putJSON H now M (ack_path ?p) (enc_ack js \<lparr>a_job = job, a_completed = now, a_files = int (length fs)\<rparr>) tm1 = (ea, tm2)"
      by force
    have "t' = snd (removeTree B ?rt fs None t2)" "e = None \<longrightarrow> ep = None"
      using assms(1) s None p a by (cases ep; auto simp: recv_files_def Let_def)+
    with s None p k1 rm show ?thesis by simp
  qed
qed

lemma recv_isolated:
  assumes "Recv H now M B js jobID evs (tm, t) = Some (e, tm', t')" and "SanitizeJobID jobID = Inr job"
    and "\<forall>p \<in> below (recv_root job). usr (nm p)"
  shows "case recv_reads now M js job evs tm of
      None \<Rightarrow> e \<noteq> None \<and> t' = t
    | Some (man, tm1) \<Rightarrow> validateManifest job man = None \<and>
       (case stage_all H M B (job_prefix job) (recv_root job) (m_files man) (tm1, t) of
          (Some x, tm2, t1) \<Rightarrow> e = Some x \<and> (\<forall>k. k \<notin> nm ` below (recv_root job) \<longrightarrow> cnt t' k = cnt t k)
        | (None, tm2, t1) \<Rightarrow> (\<forall>f \<in> set (m_files man). usr (nm (mf_rel f))) \<longrightarrow>
            (\<forall>k. k \<notin> nm ` below (recv_root job) \<union> (\<lambda>f. nm (mf_rel f)) ` set (m_files man) \<longrightarrow> cnt t' k = cnt t k))"
proof (cases "recv_reads now M js job evs tm")
  case None
  then have "e \<noteq> None \<and> t' = t"
    using assms(1,2) by (auto simp: Recv_def recv_reads_def split: option.splits prod.splits sum.splits if_splits)
  with None show ?thesis by simp
next
  case (Some r)
  obtain man tm1 where r: "r = (man, tm1)" by (cases r)
  let ?fs = "m_files man" and ?rt = "recv_root job"
  have v: "validateManifest job man = None" and files: "recv_files H now M B js job ?fs (tm1, t) = (e, tm', t')"
    using Some assms(1,2) unfolding r
    by (auto simp: Recv_def recv_reads_def split: option.splits prod.splits sum.splits if_splits)
  have b: "staged_path ?rt f \<in> below ?rt" if "f \<in> set ?fs" for f
    using validateManifest_all [OF v] staged_below [OF assms(2)] that by blast
  then have u: "\<forall>f \<in> set ?fs. usr (nm (staged_path ?rt f))" using assms(3) by blast
  have sub: "(\<lambda>f. nm (staged_path ?rt f)) ` set ?fs \<subseteq> nm ` below ?rt" using b by blast
  from recv_files_effect [OF files u] obtain es tm2 t1 where
    s: "stage_all H M B (job_prefix job) ?rt ?fs (tm1, t) = (es, tm2, t1)"
    and k1: "\<forall>k. k \<notin> (\<lambda>f. nm (staged_path ?rt f)) ` set ?fs \<longrightarrow> cnt t1 k = cnt t k"
    and bad: "es \<noteq> None \<longrightarrow> e = es \<and> (\<forall>k. k \<notin> (\<lambda>f. nm (staged_path ?rt f)) ` set ?fs \<longrightarrow> cnt t' k = cnt t k)"
    and good: "es = None \<longrightarrow> (\<exists>ep t2. promote_all H B ?rt ?fs t1 = (ep, t2) \<and> (e = None \<longrightarrow> ep = None) \<and>
       (\<forall>k. k \<notin> (\<lambda>f. nm (staged_path ?rt f)) ` set ?fs \<longrightarrow> cnt t' k = cnt t2 k))"
    by blast
  show ?thesis
  proof (cases es)
    case (Some x)
    then have "e = Some x \<and> (\<forall>k. k \<notin> nm ` below ?rt \<longrightarrow> cnt t' k = cnt t k)" using bad sub by blast
    with s v Some show ?thesis by (simp add: \<open>recv_reads now M js job evs tm = Some r\<close> r)
  next
    case None
    with good obtain ep t2 where p: "promote_all H B ?rt ?fs t1 = (ep, t2)"
      and k2: "\<forall>k. k \<notin> (\<lambda>f. nm (staged_path ?rt f)) ` set ?fs \<longrightarrow> cnt t' k = cnt t2 k" by blast
    have "(\<forall>f \<in> set ?fs. usr (nm (mf_rel f))) \<longrightarrow>
        (\<forall>k. k \<notin> nm ` below ?rt \<union> (\<lambda>f. nm (mf_rel f)) ` set ?fs \<longrightarrow> cnt t' k = cnt t k)"
    proof (intro impI allI)
      fix k assume "\<forall>f \<in> set ?fs. usr (nm (mf_rel f))" and k: "k \<notin> nm ` below ?rt \<union> (\<lambda>f. nm (mf_rel f)) ` set ?fs"
      from promote_all_effect(1) [OF p this(1)] k sub have "cnt t2 k = cnt t1 k" by blast
      moreover have "cnt t' k = cnt t2 k" "cnt t1 k = cnt t k" using k2 k1 k sub by blast+
      ultimately show "cnt t' k = cnt t k" by simp
    qed
    with s v None show ?thesis by (simp add: \<open>recv_reads now M js job evs tm = Some r\<close> r)
  qed
qed

end

section \<open>Lemmas: a whole job\<close>

lemma decodeJSON_reads:
  assumes "decodeJSONLimited dec r n = Inr v" and "rd_ok r"
  shows "dec (rd_content r) = Inr v"
proof -
  obtain data e where rd: "read_all (rd_limit (n + 1) r) = (data, e)" by force
  then have d: "data = take (n + 1) (rd_content r)" by (simp add: read_all_eq rd_limit_content)
  from assms(1) rd have "length data \<le> n" "dec data = Inr v"
    by (auto simp: decodeJSONLimited_def split: option.splits if_splits sum.splits)
  moreover have "data = rd_content r" using d \<open>length data \<le> n\<close> by (cases "length (rd_content r) \<le> n") auto
  ultimately show ?thesis by simp
qed

text \<open>What the sender puts in a manifest for each file: the digest of the content the source holds.\<close>

definition entry_ok ::
  "(bytes \<Rightarrow> digest) \<Rightarrow> (string \<Rightarrow> bytes option) \<Rightarrow> (string \<Rightarrow> string) \<Rightarrow> (string \<Rightarrow> bool) \<Rightarrow> file_meta \<Rightarrow> manifest_file \<Rightarrow> bool" where
  "entry_ok H held nm usr f m \<longleftrightarrow> mf_rel m = fm_rel f \<and>
     (usr (nm (fm_rel f)) \<longrightarrow> (\<exists>b. held (nm (fm_rel f)) = Some b \<and> mf_digest m = H b))"

context readable_store
begin

lemma getJSON_reads:
  "getJSON B dec rel t = (Inr v, t') \<Longrightarrow> usr (nm rel) \<Longrightarrow> \<exists>b. cnt t (nm rel) = Some b \<and> dec b = Inr v"
  using open_reads [of rel t] open_ok [of rel t] decodeJSON_reads
  by (fastforce simp: getJSON_def getJSONLimited_def split: prod.splits sum.splits)

lemma send_file_effect:
  assumes "send_file H now B M p avg f up (t, tm) = Some (Inr (m, up'), t', tm')" and "unat avg < 2 ^ 30"
  shows "cnt t' = cnt t \<and> entry_ok H (cnt t) nm usr f m"
proof -
  obtain r t1 where o: "tr_open B (fm_rel f) t = (r, t1)" by force
  with assms(1) obtain x where x: "r = Inr x" by (cases r) (auto simp: send_file_def)
  from assms(1) o x obtain mcs upx tmx sg where
    s: "StreamChunks H x (fm_size f) \<lparr>o_avg = avg, o_min = 0, o_max = 0, o_keep = False\<rparr> (send_chunk H now M p) ([], up, tm)
        = Some ((mcs, upx, tmx), Inr sg)" and r: "t' = t1" "mf_rel m = fm_rel f" "mf_digest m = s_digest sg"
    by (auto simp: send_file_def split: option.splits sum.splits prod.splits)
  have ok: "rd_ok x" using open_ok o x by blast
  have "s_digest sg = H (rd_content x)" by (rule StreamChunks_digest [OF ok assms(2) s])
  with r open_keeps [OF o] open_reads [OF o [unfolded x] _ ok] show ?thesis by (simp add: entry_ok_def)
qed

lemma send_files_effect:
  assumes "send_files H clk ctx B M js p avg ttl fs k ms up l (t, tm) = Some (Inr (ms', l'), t', tm')" and "unat avg < 2 ^ 30"
  shows "cnt t' = cnt t \<and> (\<exists>new. ms' = ms @ new \<and> list_all2 (entry_ok H (cnt t) nm usr) fs new)"
  using assms(1)
proof (induction fs arbitrary: k ms up l t tm)
  case (Cons f fs)
  from Cons.prems obtain m up1 t1 tm1 where
    f: "send_file H (clk k) B M p avg f up (t, tm) = Some (Inr (m, up1), t1, tm1)"
    by (auto split: option.splits sum.splits prod.splits)
  note e = send_file_effect [OF f assms(2)]
  from Cons.prems f obtain l1 tm2 where
    r: "send_files H clk ctx B M js p avg ttl fs (k + 1) (ms @ [m]) up1 l1 (t1, tm2) = Some (Inr (ms', l'), t', tm')"
    by (auto simp: Let_def split: option.splits sum.splits prod.splits if_splits)
  from Cons.IH [OF r] obtain new where n: "cnt t' = cnt t1" "ms' = ms @ [m] @ new" "list_all2 (entry_ok H (cnt t1) nm usr) fs new" by auto
  have "cnt t1 = cnt t" using e by simp
  with n e show ?case by (intro conjI exI [of _ "m # new"]) auto
qed simp

end

context store
begin

lemma send_publish_effect:
  assumes "send_publish H now B js (job_prefix (m_job man)) l man signal t = (None, t')"
    and "usr (nm (lease_path (job_prefix (m_job man))))" and "usr (nm (manifest_path (job_prefix (m_job man))))"
    and "usr (nm (notify_path (job_prefix (m_job man))))"
    and "nm (notify_path (job_prefix (m_job man))) \<noteq> nm (manifest_path (job_prefix (m_job man)))"
  shows "\<exists>b. enc_manifest js man = Inr b \<and> cnt t' (nm (manifest_path (job_prefix (m_job man)))) = Some b"
proof -
  let ?p = "job_prefix (m_job man)"
  obtain e1 t1 where w: "writeLease H now B js ?p l t = (e1, t1)" by force
  obtain e2 t2 where m: "putJSON H now B (manifest_path ?p) (enc_manifest js man) t1 = (e2, t2)" by force
  obtain e3 t3 where n: "store_notify H now B js (m_job man) \<lparr>n_job = m_job man, n_via = '''', n_generation = l_generation l\<rparr> t2 = (e3, t3)"
    by force
  have r: "e2 = None" "t' = t3"
    using assms(1) w m n by (auto simp: send_publish_def split: option.splits)
  from putJSON_effect [OF m assms(3)] r(1) obtain b where b: "enc_manifest js man = Inr b" "cnt t2 (nm (manifest_path ?p)) = Some b"
    by blast
  have "cnt t3 (nm (manifest_path ?p)) = cnt t2 (nm (manifest_path ?p))"
    using putJSON_effect [OF n [unfolded store_notify_def] assms(4)] assms(5) by metis
  with b r(2) show ?thesis by auto
qed

end

lemma Send_success:
  assumes "readable_store S cntS nmS usrS ofS H" and "store M cntM nmM usrM ofM H"
    and "SanitizeJobID (so_job opts) = Inr job"
    and "Send H clk ctx S M js opts signal (ts, tm) = Some (None, ts1, tm1)" and "unat (so_avg opts) < 2 ^ 30"
    and "tr_walk S (so_exclude opts) ts = (Inr files, ts')"
    and "usrM (nmM (lease_path (job_prefix job)))" and "usrM (nmM (manifest_path (job_prefix job)))"
    and "usrM (nmM (notify_path (job_prefix job)))"
    and "nmM (notify_path (job_prefix job)) \<noteq> nmM (manifest_path (job_prefix job))"
  shows "\<exists>man b. m_job man = job \<and> list_all2 (entry_ok H (cntS ts) nmS usrS) files (m_files man) \<and>
    enc_manifest js man = Inr b \<and> cntM tm1 (nmM (manifest_path (job_prefix job))) = Some b"
proof -
  note walk = store.walk [OF readable_store.axioms(1) [OF assms(1)] assms(6)]
  from assms(3,4,6) obtain l l' ttl tm2 ts2 tm3 mfs now where
    f: "send_files H clk ctx S M js (job_prefix job) (so_avg opts) ttl files 0 [] [] l (ts', tm2) = Some (Inr (mfs, l'), ts2, tm3)"
    and p: "send_publish H (clk (length files)) M js (job_prefix job) (l'\<lparr>l_expires := clk (length files) + ttl\<rparr>)
        \<lparr>m_schema = schemaVersion, m_job = job, m_created = now, m_files = mfs\<rparr> signal tm3 = (None, tm1)"
    by (auto simp: Send_def Let_def split: option.splits sum.splits prod.splits)
  let ?man = "\<lparr>m_schema = schemaVersion, m_job = job, m_created = now, m_files = mfs\<rparr>"
  from readable_store.send_files_effect [OF assms(1) f assms(5)] walk
  have e: "list_all2 (entry_ok H (cntS ts) nmS usrS) files mfs" by auto
  have mj: "m_job ?man = job" by simp
  obtain b where "enc_manifest js ?man = Inr b" "cntM tm1 (nmM (manifest_path (job_prefix job))) = Some b"
    using store.send_publish_effect [OF assms(2), of "clk (length files)" js ?man, unfolded mj, OF p assms(7-10)] by blast
  with e show ?thesis by (intro exI [of _ ?man] exI [of _ b]) simp
qed

lemma Recv_success:
  assumes "readable_store M cntM nmM usrM ofM H" and "store D cntD nmD usrD ofD H"
    and "SanitizeJobID jobID = Inr job" and "Recv H now M D js jobID evs (tm, td) = Some (None, tm1, td1)"
    and "usrM (nmM (manifest_path (job_prefix job)))" and "cntM tm (nmM (manifest_path (job_prefix job))) = Some b"
    and "dec_manifest js b = Inr man" and "\<forall>f \<in> set (m_files man). usrD (nmD (mf_rel f))"
    and "distinct (map (\<lambda>f. nmD (mf_rel f)) (m_files man))" and "\<forall>x \<in> below (recv_root job). usrD (nmD x)"
    and "\<forall>x \<in> below (recv_root job). \<forall>f \<in> set (m_files man). nmD x \<noteq> nmD (mf_rel f)"
  shows "\<forall>f \<in> set (m_files man). \<exists>c. cntD td1 (nmD (mf_rel f)) = Some c \<and> H c = mf_digest f"
proof -
  note sM = readable_store.axioms(1) [OF assms(1)]
  from assms(3,4) obtain tm2 l tm3 man' tm4 where
    w: "waitForJob M js job evs tm = Some (None, tm2)"
    and l: "getJSON M (dec_lease js) (lease_path (job_prefix job)) tm2 = (Inr l, tm3)"
    and m: "getJSON M (dec_manifest js) (manifest_path (job_prefix job)) tm3 = (Inr man', tm4)"
    and v: "validateManifest job man' = None"
    and r: "recv_files H now M D js job (m_files man') (tm4, td) = (None, tm1, td1)"
    by (auto simp: Recv_def split: option.splits prod.splits sum.splits if_splits)
  have "cntM tm3 = cntM tm"
    using store.waitForJob_keeps [OF sM w] store.getJSON_keeps [OF sM l] by simp
  with readable_store.getJSON_reads [OF assms(1) m assms(5)] assms(6,7) have man: "man' = man" by auto
  let ?fs = "m_files man" and ?rt = "recv_root job"
  have b: "staged_path ?rt f \<in> below ?rt" if "f \<in> set ?fs" for f
    using validateManifest_all [OF v [unfolded man]] staged_below [OF assms(3)] that by blast
  then have u: "\<forall>f \<in> set ?fs. usrD (nmD (staged_path ?rt f))" using assms(10) by blast
  from store.recv_files_effect [OF assms(2) r [unfolded man] u] obtain es t1 ep t2 where
    p: "es \<noteq> None \<longrightarrow> None = es" "es = None \<longrightarrow> promote_all H D ?rt ?fs t1 = (ep, t2) \<and> ep = None \<and>
       (\<forall>k. k \<notin> (\<lambda>f. nmD (staged_path ?rt f)) ` set ?fs \<longrightarrow> cntD td1 k = cntD t2 k)" by blast
  then have pr: "promote_all H D ?rt ?fs t1 = (None, t2)"
    and k: "\<And>k. k \<notin> (\<lambda>f. nmD (staged_path ?rt f)) ` set ?fs \<Longrightarrow> cntD td1 k = cntD t2 k" by auto
  have disj: "\<forall>f \<in> set ?fs. \<forall>g \<in> set ?fs. nmD (staged_path ?rt f) \<noteq> nmD (mf_rel g)" using b assms(11) by blast
  from store.promote_all_effect(2) [OF assms(2) pr assms(8) refl assms(9) disj]
  have "\<forall>f \<in> set ?fs. \<exists>c. cntD t2 (nmD (mf_rel f)) = Some c \<and> H c = mf_digest f" by blast
  moreover have "cntD td1 (nmD (mf_rel f)) = cntD t2 (nmD (mf_rel f))" if "f \<in> set ?fs" for f
    using disj that by (intro k) force
  ultimately show ?thesis by simp
qed

section \<open>Lemmas: manifests\<close>

lemma chunk_walk_iff:
  "unat nxt + sum_list (map (\<lambda>c. unat (mc_length c)) cs) < 2 ^ 64 \<Longrightarrow>
   chunk_walk nxt cs = Inr e \<longleftrightarrow>
     (\<forall>i < length cs. unat (mc_offset (cs ! i)) = unat nxt + sum_list (map (\<lambda>c. unat (mc_length c)) (take i cs))) \<and>
     (\<forall>c \<in> set cs. 0 < unat (mc_length c) \<and> unat (mc_length c) \<le> MaxUncompressedChunk) \<and>
     unat e = unat nxt + sum_list (map (\<lambda>c. unat (mc_length c)) cs)"
proof (induction cs arbitrary: nxt)
  case Nil
  then show ?case by (auto simp: word_unat_eq_iff)
next
  case (Cons c cs)
  have mx: "mc_length c > maxChunkLength \<longleftrightarrow> unat (mc_length c) > MaxUncompressedChunk"
    by (simp add: word_less_nat_alt maxChunkLength_def MaxUncompressedChunk_def)
  have z: "mc_length c = 0 \<longleftrightarrow> unat (mc_length c) = 0" by (simp add: word_unat_eq_iff)
  have u: "unat (nxt + ucast (mc_length c)) = unat nxt + unat (mc_length c)"
  proof -
    have "unat (mc_length c) < 2 ^ 64" using unsigned_less [of "mc_length c", where ?'a = nat] by simp
    then have "unat (ucast (mc_length c) :: u64) = unat (mc_length c)" by (simp add: unsigned_ucast_eq take_bit_nat_eq_self)
    moreover have "unat nxt + unat (mc_length c) < 2 ^ 64" using Cons.prems by simp
    ultimately show ?thesis by (simp add: unat_word_ariths)
  qed
  have ih: "chunk_walk (nxt + ucast (mc_length c)) cs = Inr e \<longleftrightarrow>
     (\<forall>i < length cs. unat (mc_offset (cs ! i)) = unat nxt + unat (mc_length c) + sum_list (map (\<lambda>c. unat (mc_length c)) (take i cs))) \<and>
     (\<forall>c \<in> set cs. 0 < unat (mc_length c) \<and> unat (mc_length c) \<le> MaxUncompressedChunk) \<and>
     unat e = unat nxt + unat (mc_length c) + sum_list (map (\<lambda>c. unat (mc_length c)) cs)"
    using Cons.IH [of "nxt + ucast (mc_length c)"] Cons.prems unfolding u by (simp add: add.assoc)
  have all: "(\<forall>i < length (c # cs). P i) \<longleftrightarrow> P 0 \<and> (\<forall>i < length cs. P (Suc i))" for P
    by (auto simp: less_Suc_eq_0_disj)
  have off: "mc_offset c = nxt \<longleftrightarrow> unat (mc_offset c) = unat nxt" by (simp add: word_unat_eq_iff)
  show ?case unfolding all using ih mx z off by (auto simp: add.assoc)
qed

lemma validate_files_iff:
  "validate_files seen fs = None \<longleftrightarrow> (\<forall>f \<in> set fs. validateManifestFile f = None) \<and> distinct (map mf_rel fs) \<and>
     set seen \<inter> mf_rel ` set fs = {}"
  by (induction fs arbitrary: seen) (auto split: option.splits if_splits)

end
