(* ===== verification/RelayJob.thy ===== *)
theory RelayJob
  imports Relay S3Store "HOL-Library.Code_Target_Nat"
begin

text \<open>
  What a relay job promises (\<open>internal/relay/relay.go\<close>), from sender to receiver: the properties of
  \<open>Send\<close>, \<open>Recv\<close>, the manifest check and the waiting, over any backends that keep the laws of a store,
  with jobs over in-process object stores as instances.
\<close>

section \<open>Lemmas\<close>

definition chunks_exact :: "manifest_chunk list \<Rightarrow> bool" where
  "chunks_exact cs \<longleftrightarrow>
     (\<forall>i < length cs. unat (mc_offset (cs ! i)) = sum_list (map (\<lambda>c. unat (mc_length c)) (take i cs))) \<and>
     (\<forall>c \<in> set cs. 0 < unat (mc_length c) \<and> unat (mc_length c) \<le> MaxUncompressedChunk)"

definition rel_confined :: "string \<Rightarrow> bool" where
  "rel_confined rel \<longleftrightarrow> \<not> IsAbs rel \<and> \<not> (2 \<le> length rel \<and> rel ! 1 = CHR '':'') \<and>
     rel_comps rel \<noteq> [] \<and> hd (rel_comps rel) \<noteq> ''..''"

lemma validateManifestFile_iff:
  assumes "sum_list (map (\<lambda>c. unat (mc_length c)) (mf_chunks f)) < 2 ^ 63"
  shows "validateManifestFile f = None \<longleftrightarrow> rel_confined (mf_rel f) \<and> chunks_exact (mf_chunks f) \<and>
    mf_size f = int (sum_list (map (\<lambda>c. unat (mc_length c)) (mf_chunks f)))"
proof -
  let ?n = "sum_list (map (\<lambda>c. unat (mc_length c)) (mf_chunks f))"
  have w: "chunk_walk 0 (mf_chunks f) = Inr e \<longleftrightarrow> chunks_exact (mf_chunks f) \<and> unat e = ?n" for e
    using chunk_walk_iff [of 0 "mf_chunks f" e] assms by (auto simp: chunks_exact_def)
  have ex: "unat (word_of_nat ?n :: u64) = ?n"
    using assms by (intro unat_of_nat_small) simp
  have ww: "unat e = ?n \<Longrightarrow> e = word_of_nat ?n" for e :: u64
    using ex by (simp add: word_unat_eq_iff)
  have n: "unat e = ?n \<Longrightarrow> i64_of_u64 e = int ?n" for e
    using i64_of_u64_small [of e] assms by simp
  have c: "(\<exists>p. SafeJoinFile (Inr ''/'') ''/quiksync-relay-confine'' (mf_rel f) = Inr p) \<longleftrightarrow> rel_confined (mf_rel f)"
    using SafeJoinFile_eq [of "[]" "''/quiksync-relay-confine''" "mf_rel f"] by (auto simp: rel_confined_def abs_of_def)
  show ?thesis
  proof (cases "SafeJoinFile (Inr ''/'') ''/quiksync-relay-confine'' (mf_rel f)")
    case (Inl x)
    with c show ?thesis by (auto simp: validateManifestFile_def)
  next
    case (Inr p)
    with c have rc: "rel_confined (mf_rel f)" by blast
    show ?thesis
    proof (cases "chunk_walk 0 (mf_chunks f)")
      case cl: (Inl x)
      then have "\<not> chunks_exact (mf_chunks f)" using w ex by fastforce
      with Inr cl show ?thesis by (simp add: validateManifestFile_def)
    next
      case cr: (Inr e)
      with w n have "chunks_exact (mf_chunks f)" "i64_of_u64 e = int ?n" by blast+
      with Inr cr rc show ?thesis by (auto simp: validateManifestFile_def)
    qed
  qed
qed

text \<open>Wake-ups on which \<open>wait_loop\<close> polls.\<close>

fun wake_polls :: "wake \<Rightarrow> bool" where
  "wake_polls (WSignal (Some e)) \<longleftrightarrow> err_is e Canceled \<or> err_is e DeadlineExceeded"
| "wake_polls (WDone e) \<longleftrightarrow> False"
| "wake_polls ev \<longleftrightarrow> True"

lemma wait_loop_hard:
  assumes hard: "\<And>t. \<exists>m e t'. pollOnce B js job t = ((m, False, Some e), t')"
  shows "n < storeSignalMaxHardFails \<Longrightarrow> storeSignalMaxHardFails \<le> n + length (filter wake_polls evs) \<Longrightarrow>
    \<exists>e t'. wait_loop B js job evs n t = Some (Some e, t')"
proof (induction evs arbitrary: n t)
  case (Cons ev evs)
  obtain m e t1 where p: "pollOnce B js job t = ((m, False, Some e), t1)" using hard by blast
  consider (d) x where "ev = WDone x" | (s) "\<not> wake_polls ev" "\<nexists>x. ev = WDone x" | (p) "wake_polls ev" by blast
  then show ?case
  proof cases
    case d
    then show ?thesis by simp
  next
    case s
    then obtain x where "ev = WSignal (Some x)" "\<not> err_is x Canceled" "\<not> err_is x DeadlineExceeded"
      by (cases ev rule: wake_polls.cases) auto
    with Cons.IH [of n t] Cons.prems show ?thesis by simp
  next
    case p': p
    have "wait_loop B js job (ev # evs) n t =
        (if n + 1 \<ge> storeSignalMaxHardFails then Some (Some e, t1) else wait_loop B js job evs (n + 1) t1)"
      using p' p by (cases ev rule: wake_polls.cases) auto
    then show ?thesis using Cons.IH [of "n + 1" t1] Cons.prems p' by auto
  qed
qed simp

text \<open>Streaming a reader that holds at most the minimum chunk size: one chunk.\<close>

lemma StreamChunks_code [code]:
  "StreamChunks H r n opt fn st =
     (if rd_ok r \<and> opt = default_options \<and> int (length (rd_content r)) \<le> 16384 \<and> rd_content r \<noteq> []
      then (let d = rd_content r in
            case fn st \<lparr>c_offset = 0, c_length = word_of_nat (length d), c_digest = H d, c_data = Some d\<rparr> of
              (st', Some e) \<Rightarrow> Some (st', Inl e)
            | (st', None) \<Rightarrow>
                Some (st', if n > 0 \<and> n \<noteq> int (length d)
                           then Inl (Msg ''size mismatch: read %d bytes, hint %d'')
                           else Inr \<lparr>s_size = int (length d), s_digest = H d, s_chunks = []\<rparr>))
      else streamChunks H r n opt True fn st)"
proof (cases "rd_ok r \<and> opt = default_options \<and> int (length (rd_content r)) \<le> 16384 \<and> rd_content r \<noteq> []")
  case True
  have mn: "unat (o_min (normalized default_options)) = 16384" "unat (o_max (normalized default_options)) = 262144"
    by (simp_all add: default_options_def normalized_def Let_def DefaultAvgSize_def DefaultMinSize_def DefaultMaxSize_def)
  have p: "opt_pieces (normalized default_options) (rd_content r) = [rd_content r]"
    using True mn pieces_small [of "rd_content r" "o_min (normalized default_options)" "o_max (normalized default_options)"]
    by auto
  have i: "i64_of_u64 (word_of_nat (length (rd_content r))) = int (length (rd_content r))"
    using True by (intro i64_len) simp
  have s: "streamChunks H r n default_options True fn st =
    (let d = rd_content r; cs = mk_chunks H True 0 (opt_pieces (normalized default_options) d) in
     case run_cb fn cs st of
       (st', Some e) \<Rightarrow> Some (st', Inl e)
     | (st', None) \<Rightarrow>
         let total = i64_of_u64 (word_of_nat (length d)) in
         Some (st', if n > 0 \<and> n \<noteq> total
                    then Inl (Msg ''size mismatch: read %d bytes, hint %d'')
                    else Inr \<lparr>s_size = total, s_digest = H d, s_chunks = []\<rparr>))"
    using True mn by (intro streamChunks_spec) auto
  show ?thesis
    using True s [unfolded Let_def p i] unfolding StreamChunks_def
    by (simp add: Let_def split: option.split prod.split)
next
  case False
  then show ?thesis unfolding StreamChunks_def by argo
qed

text \<open>A source with one file, an empty middle store and an empty destination.\<close>

definition demo_backend :: "(memory s3_world, s3_session) backend" where
  "demo_backend = s3_backend (\<lambda>b. b) demo_lib demo_sha (\<lambda>sg. Inr [3]) (\<lambda>b. None) mem_api demo_s3"

definition demo_empty :: "memory s3_world" where "demo_empty = \<lparr>sx_api = NewMemory 5, sx_script = []\<rparr>"

definition demo_manifest :: manifest where
  "demo_manifest = \<lparr>m_schema = 1, m_job = ''j'', m_created = 100,
     m_files = [\<lparr>mf_rel = ''f'', mf_size = 1, mf_digest = [9], mf_mode = 420, mf_mod = 5,
                 mf_chunks = [\<lparr>mc_offset = 0, mc_length = 1, mc_digest = [9]\<rparr>]\<rparr>]\<rparr>"

definition demo_json :: relay_json where
  "demo_json =
     \<lparr>enc_manifest = (\<lambda>m. if m = demo_manifest then Inr [1] else Inl (Msg ''x'')), dec_manifest = (\<lambda>b. Inr demo_manifest),
      enc_lease = (\<lambda>l. Inr [2]),
      dec_lease = (\<lambda>b. Inr \<lparr>l_job = ''j'', l_sender = ''sender'', l_generation = 0, l_ttl = 0, l_created = 0, l_expires = 500\<rparr>),
      enc_ack = (\<lambda>a. Inr [4]), enc_notify = (\<lambda>n. Inr [5]),
      dec_notify = (\<lambda>b. Inr \<lparr>n_job = ''j'', n_via = '''', n_generation = 0\<rparr>)\<rparr>"

definition demo_options :: send_options where
  "demo_options = \<lparr>so_job = ''j'', so_ttl = 1000, so_sender = '''', so_exclude = [], so_avg = 0\<rparr>"

definition demo_send :: "(goerr option \<times> memory s3_world \<times> memory s3_world) option" where
  "demo_send = Send (\<lambda>b. b) (\<lambda>k. 100) (\<lambda>k. None) demo_backend demo_backend demo_json demo_options None (demo_mem, demo_empty)"

lemma demo_below:
  assumes "x \<in> below (recv_root ''j'')"
  shows "\<exists>y. s3_key demo_s3 x = ''p/.quiksync/recv-staging/j/'' @ y"
proof -
  let ?rc = "[''.quiksync'', ''recv-staging'', ''j'']"
  have rr: "recv_root ''j'' = join_with ''/'' ?rc" by code_simp
  from assms obtain cs where cs: "cs \<noteq> []" "names cs" "x = join_with ''/'' (?rc @ cs)"
    unfolding below_def rr using join_with_append [of ?rc _ "''/''"] by auto
  have n: "names (?rc @ cs)" using cs(2) by (auto simp: is_name_def)
  have "CHR ''/'' # x = abs_of (?rc @ cs)" using cs(3) by (simp add: abs_of_def)
  then have "Clean (CHR ''/'' # x) = CHR ''/'' # x" using Clean_abs_of [OF n] by simp
  moreover have "x = ''.quiksync/recv-staging/j/'' @ join_with ''/'' cs"
    unfolding cs(3) using join_with_append [of ?rc cs "''/''"] cs(1) by simp
  ultimately show ?thesis by (simp add: s3_key_def demo_s3_def TrimPrefix_def HasPrefix_def Let_def)
qed

text \<open>The hypotheses about paths hold for the example job.\<close>

lemma relay_demo_paths:
  "\<forall>x \<in> below (recv_root ''j''). s3_usr demo_s3 (s3_key demo_s3 x) \<and> s3_key demo_s3 x \<noteq> s3_key demo_s3 ''f''"
  "s3_usr demo_s3 (s3_key demo_s3 ''f'')"
  "s3_usr demo_s3 (s3_key demo_s3 (lease_path (job_prefix ''j'')))"
  "s3_usr demo_s3 (s3_key demo_s3 (manifest_path (job_prefix ''j'')))"
  "s3_usr demo_s3 (s3_key demo_s3 (notify_path (job_prefix ''j'')))"
  "s3_key demo_s3 (notify_path (job_prefix ''j'')) \<noteq> s3_key demo_s3 (manifest_path (job_prefix ''j''))"
proof -
  have f: "s3_key demo_s3 ''f'' = ''p/f''" by code_simp
  have p: "sidecar_prefix demo_s3 = ''p/.quiksync/sigs/''" by code_simp
  show "\<forall>x \<in> below (recv_root ''j''). s3_usr demo_s3 (s3_key demo_s3 x) \<and> s3_key demo_s3 x \<noteq> s3_key demo_s3 ''f''"
    unfolding f s3_usr_def p using demo_below by (fastforce simp: HasPrefix_def)
qed (code_simp+)

lemma demo_store: "readable_store demo_backend (s3_cnt demo_s3) (s3_key demo_s3) (s3_usr demo_s3) (\<lambda>st k. sw_key (fst st) = k) (\<lambda>b. b)"
  unfolding demo_backend_def by (rule mem_store.readable_store_axioms)

declare streamLoop.simps [code] s3_walk_loop.simps [code]

section \<open>Properties\<close>

text \<open>
  C17. End to end: when a sender has published a job and then a receiver succeeds on it, every file of the
  source walk is in the destination with content of the digest the source's content has. The files and
  the job's own files must be ones a client may use, no two may share a place in the destination and none
  may lie in the staging directory; the JSON of a manifest must decode to that manifest.
\<close>
theorem relay_end_to_end:
  assumes "readable_store S cntS nmS usrS ofS H" and "readable_store M cntM nmM usrM ofM H" and "store D cntD nmD usrD ofD H"
    and "SanitizeJobID (so_job opts) = Inr job" and "unat (so_avg opts) < 2 ^ 30"
    and "tr_walk S (so_exclude opts) ts = (Inr files, ts')"
    and "Send H clk ctx S M js opts signal (ts, tm) = Some (None, ts1, tm1)"
    and "Recv H now M D js (so_job opts) evs (tm1, td) = Some (None, tm2, td1)"
    and "\<And>man b. m_job man = job \<Longrightarrow> map mf_rel (m_files man) = map fm_rel files \<Longrightarrow> enc_manifest js man = Inr b \<Longrightarrow>
      dec_manifest js b = Inr man"
    and "usrM (nmM (lease_path (job_prefix job)))" and "usrM (nmM (manifest_path (job_prefix job)))"
    and "usrM (nmM (notify_path (job_prefix job)))"
    and "nmM (notify_path (job_prefix job)) \<noteq> nmM (manifest_path (job_prefix job))"
    and "\<forall>f \<in> set files. usrS (nmS (fm_rel f)) \<and> usrD (nmD (fm_rel f))"
    and "distinct (map (\<lambda>f. nmD (fm_rel f)) files)"
    and "\<forall>x \<in> below (recv_root job). usrD (nmD x) \<and> (\<forall>f \<in> set files. nmD x \<noteq> nmD (fm_rel f))"
  shows "\<forall>f \<in> set files. \<exists>a b. cntS ts (nmS (fm_rel f)) = Some a \<and> cntD td1 (nmD (fm_rel f)) = Some b \<and> H b = H a"
proof -
  from Send_success [OF assms(1) readable_store.axioms(1) [OF assms(2)] assms(4,7,5,6,10-13)] obtain man b where
    man: "m_job man = job" "list_all2 (entry_ok H (cntS ts) nmS usrS) files (m_files man)"
      "enc_manifest js man = Inr b" "cntM tm1 (nmM (manifest_path (job_prefix job))) = Some b" by blast
  note len = list_all2_lengthD [OF man(2)]
  have e: "entry_ok H (cntS ts) nmS usrS (files ! i) (m_files man ! i)" if "i < length files" for i
    using man(2) that by (rule list_all2_nthD)
  have rel: "map mf_rel (m_files man) = map fm_rel files"
    by (rule nth_equalityI) (use e len in \<open>auto simp: entry_ok_def\<close>)
  then have rels: "map (g \<circ> mf_rel) (m_files man) = map (g \<circ> fm_rel) files" for g :: "string \<Rightarrow> string"
    by (metis map_map)
  have memb: "(\<exists>f \<in> set (m_files man). P (mf_rel f)) \<longleftrightarrow> (\<exists>f \<in> set files. P (fm_rel f))" for P
    using arg_cong [OF rel, of set] by (auto simp: image_iff set_eq_iff) metis+
  have r: "\<forall>f \<in> set (m_files man). \<exists>c. cntD td1 (nmD (mf_rel f)) = Some c \<and> H c = mf_digest f"
  proof (rule Recv_success [OF assms(2,3,4,8,11) man(4) assms(9) [OF man(1) rel man(3)]])
    show "\<forall>f \<in> set (m_files man). usrD (nmD (mf_rel f))"
      using memb [of "\<lambda>x. \<not> usrD (nmD x)"] assms(14) by blast
    show "distinct (map (\<lambda>f. nmD (mf_rel f)) (m_files man))"
      using rels [of nmD] assms(15) by (simp add: comp_def)
    show "\<forall>x \<in> below (recv_root job). usrD (nmD x)" using assms(16) by blast
    show "\<forall>x \<in> below (recv_root job). \<forall>f \<in> set (m_files man). nmD x \<noteq> nmD (mf_rel f)"
      using memb [of "\<lambda>y. nmD _ = nmD y"] assms(16) by blast
  qed
  show ?thesis
  proof
    fix f assume "f \<in> set files"
    then obtain i where i: "i < length files" "f = files ! i" by (auto simp: in_set_conv_nth)
    have "usrS (nmS (fm_rel f))" using assms(14) \<open>f \<in> set files\<close> by blast
    with e [OF i(1)] i obtain a where a: "cntS ts (nmS (fm_rel f)) = Some a" "mf_digest (m_files man ! i) = H a"
      "mf_rel (m_files man ! i) = fm_rel f" by (auto simp: entry_ok_def)
    have "m_files man ! i \<in> set (m_files man)" using i len by simp
    with r a show "\<exists>a b. cntS ts (nmS (fm_rel f)) = Some a \<and> cntD td1 (nmD (fm_rel f)) = Some b \<and> H b = H a" by metis
  qed
qed

lemma demo_run:
  "(case demo_send of
      Some (None, ts, tm) \<Rightarrow>
        (case Recv (\<lambda>b. b) 200 demo_backend demo_backend demo_json ''j'' [] (tm, demo_empty) of Some (e, r) \<Rightarrow> e = None | None \<Rightarrow> False)
    | _ \<Rightarrow> False)"
  by code_simp

lemma demo_walk: "fst (tr_walk demo_backend [] demo_mem) = Inr [\<lparr>fm_rel = ''f'', fm_size = 1, fm_mod = 5, fm_mode = 420\<rparr>]"
  by code_simp

theorem relay_end_to_end_witness:
  "\<exists>ts tm tm' td. demo_send = Some (None, ts, tm) \<and>
     Recv (\<lambda>b. b) 200 demo_backend demo_backend demo_json ''j'' [] (tm, demo_empty) = Some (None, tm', td) \<and>
     s3_cnt demo_s3 td (s3_key demo_s3 ''f'') = Some [9]"
proof -
  obtain ts tm tm' td where s: "demo_send = Some (None, ts, tm)"
    and r: "Recv (\<lambda>b. b) 200 demo_backend demo_backend demo_json ''j'' [] (tm, demo_empty) = Some (None, tm', td)"
    using demo_run by (auto split: option.splits prod.splits)
  have r': "Recv (\<lambda>b. b) 200 demo_backend demo_backend demo_json (so_job demo_options) [] (tm, demo_empty) = Some (None, tm', td)"
    using r by (simp add: demo_options_def)
  obtain w where w: "tr_walk demo_backend (so_exclude demo_options) demo_mem =
      (Inr [\<lparr>fm_rel = ''f'', fm_size = 1, fm_mod = 5, fm_mode = 420\<rparr>], w)"
    using demo_walk by (metis prod.exhaust_sel demo_options_def send_options.select_convs(4))
  have j: "SanitizeJobID (so_job demo_options) = Inr ''j''" "unat (so_avg demo_options) < 2 ^ 30"
    by code_simp+
  have js: "enc_manifest demo_json man = Inr b \<Longrightarrow> dec_manifest demo_json b = Inr man" for man b
    by (auto simp: demo_json_def split: if_splits)
  have "\<forall>f \<in> set [\<lparr>fm_rel = ''f'', fm_size = 1, fm_mod = 5, fm_mode = 420\<rparr>]. \<exists>a b.
      s3_cnt demo_s3 demo_mem (s3_key demo_s3 (fm_rel f)) = Some a \<and> s3_cnt demo_s3 td (s3_key demo_s3 (fm_rel f)) = Some b \<and> b = a"
    by (rule relay_end_to_end [OF demo_store demo_store readable_store.axioms(1) [OF demo_store] j w s [unfolded demo_send_def] r' js
          relay_demo_paths(3-6)])
      (use relay_demo_paths(1,2) in auto)
  moreover have "s3_cnt demo_s3 demo_mem (s3_key demo_s3 ''f'') = Some [9]" by code_simp
  ultimately show ?thesis using s r' by (auto simp: demo_options_def)
qed

text \<open>
  C18. What a reception does to the destination, decided by the manifest it reads (\<open>recv_reads\<close>). When it reads no valid one, it
  ends with an error and the destination is as it was. When staging the files of the manifest it has read fails, that is the error it ends
  with, and nothing outside its own staging directory has changed. Only when all of them have been staged do other files change, and
  then only the files the manifest lists (when these are ones the destination keeps for its users).
\<close>
theorem recv_staging_isolated:
  assumes "store D cnt nm usr op H" and "SanitizeJobID jobID = Inr job"
    and "\<forall>p \<in> below (recv_root job). usr (nm p)"
    and "Recv H now M D js jobID evs (tm, td) = Some (e, tm', td')"
  shows "case recv_reads now M js job evs tm of
      None \<Rightarrow> e \<noteq> None \<and> td' = td
    | Some (man, tm1) \<Rightarrow> validateManifest job man = None \<and>
       (case stage_all H M D (job_prefix job) (recv_root job) (m_files man) (tm1, td) of
          (Some x, tm2, td1) \<Rightarrow> e = Some x \<and> (\<forall>k. k \<notin> nm ` below (recv_root job) \<longrightarrow> cnt td' k = cnt td k)
        | (None, tm2, td1) \<Rightarrow> (\<forall>f \<in> set (m_files man). usr (nm (mf_rel f))) \<longrightarrow>
            (\<forall>k. k \<notin> nm ` below (recv_root job) \<union> (\<lambda>f. nm (mf_rel f)) ` set (m_files man) \<longrightarrow> cnt td' k = cnt td k))"
  by (rule store.recv_isolated [OF assms(1) assms(4,2,3)])

text \<open>The job of the example with a tampered object, received over a destination that already holds the file.\<close>

definition demo_tampered :: "memory s3_world" where
  "demo_tampered = (case demo_send of
     Some (e, ts, tm) \<Rightarrow> tm\<lparr>sx_api := snd (mem_put ''b'' ''p/.quiksync/relay/j/objects/09'' [8] Map.empty (sx_api tm))\<rparr>
   | None \<Rightarrow> demo_empty)"

definition demo_poison :: "(goerr option \<times> memory s3_world \<times> memory s3_world) option" where
  "demo_poison = Recv (\<lambda>b. b) 200 demo_backend demo_backend demo_json ''j'' [] (demo_tampered, demo_mem)"

definition demo_received :: "(manifest \<times> memory s3_world) option" where
  "demo_received = recv_reads 200 demo_backend demo_json ''j'' [] demo_tampered"

text \<open>The manifest is read and valid and lists \<open>f\<close>; staging it fails on the tampered object.\<close>

lemma demo_poison_run:
  "(case demo_received of
      Some (man, tm1) \<Rightarrow> map mf_rel (m_files man) = [''f''] \<and>
        (case stage_all (\<lambda>b. b) demo_backend demo_backend (job_prefix ''j'') (recv_root ''j'') (m_files man) (tm1, demo_mem) of
           (Some (Wrap s (Msg m)), r) \<Rightarrow> s = ''stage file[%d] %s: %w'' \<and> m = ''poison object for digest %s'' | _ \<Rightarrow> False)
    | None \<Rightarrow> False) \<and> demo_poison \<noteq> None"
  by code_simp

theorem recv_staging_isolated_witness:
  "\<exists>tm' td'. demo_poison =
       Some (Some (Wrap ''stage file[%d] %s: %w'' (Msg ''poison object for digest %s'')), tm', td') \<and>
     (\<forall>k. k \<notin> s3_key demo_s3 ` below (recv_root ''j'') \<longrightarrow> s3_cnt demo_s3 td' k = s3_cnt demo_s3 demo_mem k)"
proof -
  obtain e tm' td' where r: "demo_poison = Some (e, tm', td')" using demo_poison_run by (cases demo_poison) auto
  obtain man tm1 where m: "demo_received = Some (man, tm1)" using demo_poison_run by (cases demo_received) auto
  obtain tm2 td1 where s: "stage_all (\<lambda>b. b) demo_backend demo_backend (job_prefix ''j'') (recv_root ''j'') (m_files man) (tm1, demo_mem)
      = (Some (Wrap ''stage file[%d] %s: %w'' (Msg ''poison object for digest %s'')), tm2, td1)"
    using demo_poison_run unfolding m by (auto split: prod.splits option.splits goerr.splits)
  have j: "SanitizeJobID ''j'' = Inr ''j''" by code_simp
  have u: "\<forall>p \<in> below (recv_root ''j''). s3_usr demo_s3 (s3_key demo_s3 p)" using relay_demo_paths(1) by blast
  from recv_staging_isolated [OF readable_store.axioms(1) [OF demo_store] j u r [unfolded demo_poison_def],
      folded demo_received_def, unfolded m option.case prod.case s] r
  show ?thesis by blast
qed

text \<open>
  The receiver accepts a manifest exactly when its schema and job are the expected ones, no path stands
  twice, every path stays below the destination, and the chunks of every file follow each other without
  gap or overlap from 0 to the file's size, none empty and none over 16 MiB.
\<close>
theorem validateManifest_exact:
  assumes "\<forall>f \<in> set (m_files man). sum_list (map (\<lambda>c. unat (mc_length c)) (mf_chunks f)) < 2 ^ 63"
  shows "validateManifest job man = None \<longleftrightarrow>
    m_schema man = schemaVersion \<and> m_job man = job \<and> distinct (map mf_rel (m_files man)) \<and>
    (\<forall>f \<in> set (m_files man). rel_confined (mf_rel f) \<and> chunks_exact (mf_chunks f) \<and>
       mf_size f = int (sum_list (map (\<lambda>c. unat (mc_length c)) (mf_chunks f))))"
  using assms validateManifestFile_iff by (auto simp: validateManifest_def validate_files_iff)

theorem validateManifest_exact_witness:
  "validateManifest ''j'' demo_manifest = None \<and> chunks_exact [\<lparr>mc_offset = 0, mc_length = 1, mc_digest = [9]\<rparr>]"
proof -
  have "validateManifest ''j'' demo_manifest = None" by code_simp
  moreover have "\<forall>f \<in> set (m_files demo_manifest). sum_list (map (\<lambda>c. unat (mc_length c)) (mf_chunks f)) < 2 ^ 63"
    by (simp add: demo_manifest_def)
  ultimately show ?thesis using validateManifest_exact [of demo_manifest "''j''"] by (simp add: demo_manifest_def)
qed

text \<open>
  Waiting does not go on for ever on a broken store: when every poll fails for a reason other than
  absence, the fifth poll ends the wait with its error, whatever else wakes the loop in between.
\<close>
theorem wait_loop_gives_up:
  assumes "\<And>t. \<exists>m e t'. pollOnce B js job t = ((m, False, Some e), t')"
    and "storeSignalMaxHardFails \<le> length (filter wake_polls evs)"
  shows "\<exists>e t'. wait_loop B js job evs 0 t = Some (Some e, t')"
  using assms by (intro wait_loop_hard) (auto simp: storeSignalMaxHardFails_def)

theorem wait_loop_gives_up_witness:
  "\<exists>e t'. wait_loop (demo_backend\<lparr>tr_open := \<lambda>rel w. (Inl (Msg ''AccessDenied''), w)\<rparr>) demo_json ''j''
     [WTick, WSignal (Some (Msg ''x'')), WTick, WTick, WSignal None, WTick] 0 demo_empty = Some (Some e, t')"
proof (rule wait_loop_gives_up)
  show "\<exists>m e t'. pollOnce (demo_backend\<lparr>tr_open := \<lambda>rel w. (Inl (Msg ''AccessDenied''), w)\<rparr>) demo_json ''j'' t = ((m, False, Some e), t')" for t
  proof -
    have "isAbsent (Msg ''AccessDenied'') = False" by code_simp
    then show ?thesis by (simp add: pollOnce_def Let_def)
  qed
  show "storeSignalMaxHardFails \<le> length (filter wake_polls [WTick, WSignal (Some (Msg ''x'')), WTick, WTick, WSignal None, WTick])"
    by (simp add: storeSignalMaxHardFails_def)
qed
end
