(* ===== verification/Endpoint.thy ===== *)
theory Endpoint
  imports GoStr
begin

text \<open>
  Endpoint texts (\<open>internal/transport/parse.go\<close>): plain paths, scp-like \<open>user@host:port:path\<close> and URIs, and
  the choice of a backend for an endpoint (\<open>internal/transport/factory/factory.go\<close>). The result of
  \<open>url.Parse\<close> is a parameter; what the code reads off it are the fields of \<open>url\<close>.
\<close>

section \<open>Endpoints\<close>

record endpoint =
  ep_scheme :: string
  ep_user :: string
  ep_host :: string
  ep_port :: string
  ep_path :: string
  ep_raw :: string

record url =
  u_scheme :: string
  u_username :: string
  u_host :: string
  u_hostname :: string
  u_port :: string
  u_path :: string

definition is_letter :: "char \<Rightarrow> bool" where
  "is_letter c \<longleftrightarrow> is_upper c \<or> is_lower c"

definition isWindowsDrive :: "string \<Rightarrow> bool" where
  "isWindowsDrive s \<longleftrightarrow> length s \<ge> 2 \<and> s ! 1 = CHR '':'' \<and> is_letter (s ! 0)"

definition port_ok :: "string \<Rightarrow> bool" where
  "port_ok p \<longleftrightarrow> (case parse_int p of Inr n \<Rightarrow> 1 \<le> n \<and> n \<le> 65535 | Inl e \<Rightarrow> False)"

definition validateSSHEndpoint :: "endpoint \<Rightarrow> goerr option" where
  "validateSSHEndpoint ep =
     (if ep_host ep = '''' then Some (Msg ''ssh endpoint: empty host'')
      else if HasPrefix (ep_host ep) ''-'' then Some (Msg (''ssh endpoint: host must not start with '-'' @ [CHR 0x27]))
      else if ep_user ep \<noteq> '''' \<and> HasPrefix (ep_user ep) ''-'' then Some (Msg (''ssh endpoint: user must not start with '-'' @ [CHR 0x27]))
      else if ep_port ep \<noteq> '''' \<and> \<not> port_ok (ep_port ep) then Some (Msg ''ssh endpoint: invalid port %q'')
      else None)"

text \<open>The part after the host's colon: a port, when there is a second colon and a port before it, and the path.\<close>

definition split_port :: "string \<Rightarrow> string \<times> string" where
  "split_port after =
     (case str_index after '':'' of
        Some i \<Rightarrow> if port_ok (take i after) then (take i after, drop (i + 1) after) else ('''', after)
      | None \<Rightarrow> ('''', after))"

definition scp_endpoint :: "string \<Rightarrow> string \<Rightarrow> string \<Rightarrow> string \<Rightarrow> endpoint option res" where
  "scp_endpoint user host after raw =
     (let (port, path0) = split_port after; path = (if path0 = '''' then ''.'' else path0);
          ep = \<lparr>ep_scheme = ''ssh'', ep_user = user, ep_host = host, ep_port = port, ep_path = path, ep_raw = raw\<rparr> in
      case validateSSHEndpoint ep of Some e \<Rightarrow> Inl e | None \<Rightarrow> Inr (Some ep))"

text \<open>\<open>Inr None\<close> is the code's \<open>false\<close>: not an scp-like text.\<close>

definition parseScpLike :: "string \<Rightarrow> string \<Rightarrow> string \<Rightarrow> endpoint option res" where
  "parseScpLike user rest raw =
     (if HasPrefix rest ''['' then
        (case str_index rest '']'' of
           None \<Rightarrow> Inr None
         | Some e \<Rightarrow>
             if e \<le> 1 then Inr None
             else let after = drop (e + 1) rest in
               if \<not> HasPrefix after '':'' then Inl (Msg ''ssh endpoint: expected ':' after IPv6 host'')
               else scp_endpoint user (drop 1 (take e rest)) (drop 1 after) raw)
      else
        (case str_index rest '':'' of
           None \<Rightarrow> Inr None
         | Some colon \<Rightarrow>
             if colon = 0 then Inr None
             else let host = take colon rest in
               if host = '''' \<or> ContainsAny host ''/'' then Inr None
               else scp_endpoint user host (drop (colon + 1) rest) raw))"

definition url_endpoint :: "url \<Rightarrow> string \<Rightarrow> endpoint res" where
  "url_endpoint u s =
     (let rooted = (if u_path u = '''' then ''/'' else u_path u) in
      if u_scheme u = ''file'' then
        Inr \<lparr>ep_scheme = ''file'', ep_user = '''', ep_host = '''', ep_port = '''', ep_path = u_path u, ep_raw = s\<rparr>
      else if u_scheme u = ''ssh'' then
        let ep = \<lparr>ep_scheme = ''ssh'', ep_user = u_username u, ep_host = u_hostname u, ep_port = u_port u,
                  ep_path = rooted, ep_raw = s\<rparr> in
        (case validateSSHEndpoint ep of Some e \<Rightarrow> Inl e | None \<Rightarrow> Inr ep)
      else if u_scheme u = ''quiksync'' then
        Inr \<lparr>ep_scheme = ''quiksync'', ep_user = '''', ep_host = u_hostname u,
             ep_port = (if u_port u = '''' then ''4242'' else u_port u), ep_path = rooted, ep_raw = s\<rparr>
      else if u_scheme u = ''s3'' then
        Inr \<lparr>ep_scheme = ''s3'', ep_user = '''', ep_host = u_host u, ep_port = '''', ep_path = TrimPrefix (u_path u) ''/'', ep_raw = s\<rparr>
      else if u_scheme u = ''nfs'' then
        Inr \<lparr>ep_scheme = ''nfs'', ep_user = '''', ep_host = u_hostname u,
             ep_port = (if u_port u = '''' then ''2049'' else u_port u), ep_path = rooted, ep_raw = s\<rparr>
      else Inl (Msg ''unsupported scheme %q''))"

text \<open>The user and the rest, cut at the first \<open>@\<close> of the whole text.\<close>

definition cut_user :: "string \<Rightarrow> string \<times> string" where
  "cut_user s =
     (case str_index s ''@'' of
        Some i \<Rightarrow> (if i > 0 then take i s else '''', drop (i + 1) s)
      | None \<Rightarrow> ('''', s))"

definition ParseEndpoint :: "(string \<Rightarrow> url res) \<Rightarrow> string \<Rightarrow> endpoint res" where
  "ParseEndpoint url_parse s0 =
     (let s = TrimSpace s0 in
      if s = '''' then Inl (Msg ''empty endpoint'')
      else
        let scp = (if \<not> Contains s ''://'' \<and> Contains s '':'' \<and> \<not> isWindowsDrive s
                   then case cut_user s of (user, rest) \<Rightarrow> parseScpLike user rest s
                   else Inr None) in
        case scp of
          Inl e \<Rightarrow> Inl e
        | Inr (Some ep) \<Rightarrow> Inr ep
        | Inr None \<Rightarrow>
            if Contains s ''://'' then
              (case url_parse s of Inl e \<Rightarrow> Inl e | Inr u \<Rightarrow> url_endpoint u s)
            else Inr \<lparr>ep_scheme = ''file'', ep_user = '''', ep_host = '''', ep_port = '''', ep_path = s, ep_raw = s\<rparr>)"

section \<open>The choice of a backend\<close>

record open_options =
  oo_insecure :: bool
  oo_token :: string
  oo_create :: bool
  oo_s3_endpoint :: string
  oo_s3_region :: string
  oo_staging :: string

text \<open>The constructor that is called, with what it is given.\<close>

datatype backend_call =
    LocalNew string
  | LocalNewExisting string
  | SSHNew endpoint
  | DaemonDial endpoint bool string
  | S3New endpoint string string string
  | NFSNew endpoint

definition factory_open :: "endpoint \<Rightarrow> open_options \<Rightarrow> backend_call res" where
  "factory_open ep oo =
     (if ep_scheme ep = ''file'' then Inr (if oo_create oo then LocalNew (ep_path ep) else LocalNewExisting (ep_path ep))
      else if ep_scheme ep = ''ssh'' then Inr (SSHNew ep)
      else if ep_scheme ep = ''quiksync'' then Inr (DaemonDial ep (oo_insecure oo) (oo_token oo))
      else if ep_scheme ep = ''s3'' then Inr (S3New ep (oo_s3_endpoint oo) (oo_s3_region oo) (oo_staging oo))
      else if ep_scheme ep = ''nfs'' then Inr (NFSNew ep)
      else Inl (Msg ''unsupported endpoint scheme %q''))"

section \<open>Lemmas\<close>

lemma str_index_char: "c \<notin> set p \<Longrightarrow> str_index (p @ c # s) [c] = Some (length p)"
  by (induction p) (auto simp: HasPrefix_def)

lemma str_index_none: "c \<notin> set s \<Longrightarrow> str_index s [c] = None"
  by (induction s) (auto simp: HasPrefix_def)

lemma TrimSpace_ends:
  "TrimSpace s = s" if "s \<noteq> []" "hd s \<notin> set space_chars" "last s \<notin> set space_chars"
proof -
  have "dropWhile (\<lambda>c. c \<in> set space_chars) s = s" using that(1,2) by (cases s) auto
  moreover have "dropWhile (\<lambda>c. c \<in> set space_chars) (rev s) = rev s"
    using that(1,3) by (cases s rule: rev_cases) auto
  ultimately show ?thesis by (simp add: TrimSpace_def)
qed

text \<open>What a valid ssh endpoint is: nothing that \<open>ssh\<close> would read as an option.\<close>

definition ssh_safe :: "endpoint \<Rightarrow> bool" where
  "ssh_safe ep \<longleftrightarrow> ep_host ep \<noteq> '''' \<and> \<not> HasPrefix (ep_host ep) ''-'' \<and> \<not> HasPrefix (ep_user ep) ''-'' \<and>
     (ep_port ep = '''' \<or> (\<exists>n. parse_int (ep_port ep) = Inr n \<and> 1 \<le> n \<and> n \<le> 65535))"

lemma validateSSHEndpoint_safe: "validateSSHEndpoint ep = None \<Longrightarrow> ssh_safe ep"
  by (auto simp: validateSSHEndpoint_def ssh_safe_def port_ok_def HasPrefix_def split: if_splits sum.splits)

lemma scp_endpoint_safe:
  "scp_endpoint user host after raw = Inr (Some ep) \<Longrightarrow> ssh_safe ep \<and> ep_scheme ep = ''ssh'' \<and> ep_path ep \<noteq> ''''"
  by (auto simp: scp_endpoint_def Let_def split: prod.splits option.splits if_splits dest!: validateSSHEndpoint_safe)

lemma parseScpLike_safe:
  "parseScpLike user rest raw = Inr (Some ep) \<Longrightarrow> ssh_safe ep \<and> ep_scheme ep = ''ssh'' \<and> ep_path ep \<noteq> ''''"
  by (auto simp: parseScpLike_def Let_def split: if_splits option.splits dest!: scp_endpoint_safe)

lemma url_endpoint_safe:
  "url_endpoint u s = Inr ep \<Longrightarrow> ep_scheme ep = ''ssh'' \<Longrightarrow> ssh_safe ep \<and> ep_path ep \<noteq> ''''"
  by (auto simp: url_endpoint_def Let_def split: if_splits option.splits dest!: validateSSHEndpoint_safe)

text \<open>
  Without a user, an \<open>@\<close> in the path changes what the text means: everything before it, host and colon
  included, becomes the user, and the text between it and the next colon the host.
\<close>
lemma endpoint_at_in_path:
  assumes "CHR ''@'' \<notin> set host" and "CHR ''@'' \<notin> set a" and "host \<noteq> ''''" and "\<not> HasPrefix host ''-''"
    and "b \<noteq> ''''" and "CHR '':'' \<notin> set b" and "CHR ''/'' \<notin> set b" and "\<not> HasPrefix b ''-''" and "\<not> HasPrefix b ''[''"
    and "c \<noteq> ''''" and "CHR '':'' \<notin> set c" and "s = host @ '':'' @ a @ ''@'' @ b @ '':'' @ c"
    and "hd host \<notin> set space_chars" and "last c \<notin> set space_chars" and "\<not> Contains s ''://''" and "2 \<le> length host"
    and "CHR '':'' \<notin> set host"
  shows "ParseEndpoint url_parse s =
    Inr \<lparr>ep_scheme = ''ssh'', ep_user = host @ '':'' @ a, ep_host = b, ep_port = '''', ep_path = c, ep_raw = s\<rparr>"
proof -
  let ?u = "host @ CHR '':'' # a"
  have s: "s = ?u @ CHR ''@'' # b @ CHR '':'' # c" using assms(12) by simp
  have t: "TrimSpace s = s" using assms(3,10,13,14) s by (intro TrimSpace_ends) auto
  have w: "\<not> isWindowsDrive s"
    using assms(16,17) s by (cases host; cases "tl host") (auto simp: isWindowsDrive_def)
  have "cut_user s = (?u, b @ CHR '':'' # c)"
    unfolding cut_user_def s using str_index_char [of "CHR ''@''" ?u] assms(1,2,3) by simp
  moreover have "parseScpLike ?u (b @ CHR '':'' # c) s =
      Inr (Some \<lparr>ep_scheme = ''ssh'', ep_user = ?u, ep_host = b, ep_port = '''', ep_path = c, ep_raw = s\<rparr>)"
  proof -
    have "split_port c = ('''', c)" using str_index_none [OF assms(11)] by (simp add: split_port_def)
    moreover have "\<not> HasPrefix ?u ''-''" using assms(3,4) by (cases host) (auto simp: HasPrefix_def)
    ultimately show ?thesis
      using str_index_char [OF assms(6)] assms(5,7,8,9,10)
      by (cases b) (auto simp: parseScpLike_def scp_endpoint_def validateSSHEndpoint_def HasPrefix_def ContainsAny_def)
  qed
  moreover have "Contains s '':''" unfolding s Contains_iff by (metis append_Cons append_Nil append_assoc)
  ultimately show ?thesis using t w assms(3,15) s by (simp add: ParseEndpoint_def)
qed

lemma endpoint_at_in_path_example:
  "ParseEndpoint (\<lambda>s. Inl (Msg ''x'')) ''host:/a@b:c'' =
     Inr \<lparr>ep_scheme = ''ssh'', ep_user = ''host:/a'', ep_host = ''b'', ep_port = '''', ep_path = ''c'', ep_raw = ''host:/a@b:c''\<rparr>"
proof -
  have "\<not> Contains ''host:/a@b:c'' ''://''" by code_simp
  then show ?thesis
    using endpoint_at_in_path [of "''host''" "''/a''" "''b''" "''c''" "''host:/a@b:c''" "\<lambda>s. Inl (Msg ''x'')"]
    by (simp add: HasPrefix_def space_chars_def)
qed

section \<open>Properties\<close>

text \<open>
  C19. Every endpoint of scheme ssh that comes out of the parser, whatever \<open>url.Parse\<close> does, is safe to put on
  a command line: host and user never begin with a dash, the host is not empty, the port is absent or a number
  from 1 to 65535, and the path is not empty.
\<close>
theorem endpoint_ssh_safe:
  assumes "ParseEndpoint url_parse s = Inr ep" and "ep_scheme ep = ''ssh''"
  shows "ssh_safe ep \<and> ep_path ep \<noteq> ''''"
  using assms
  by (auto simp: ParseEndpoint_def Let_def split: if_splits sum.splits option.splits prod.splits
      dest!: parseScpLike_safe url_endpoint_safe)

theorem endpoint_ssh_safe_witness:
  "ParseEndpoint (\<lambda>s. Inl (Msg ''x'')) ''me@[::1]:2222:/srv'' =
     Inr \<lparr>ep_scheme = ''ssh'', ep_user = ''me'', ep_host = ''::1'', ep_port = ''2222'', ep_path = ''/srv'', ep_raw = ''me@[::1]:2222:/srv''\<rparr> \<and>
   ParseEndpoint (\<lambda>s. Inl (Msg ''x'')) ''-oProxyCommand=x:/srv'' = Inl (Msg (''ssh endpoint: host must not start with '-'' @ [CHR 0x27])) \<and>
   ssh_safe \<lparr>ep_scheme = ''ssh'', ep_user = ''me'', ep_host = ''::1'', ep_port = ''2222'', ep_path = ''/srv'', ep_raw = ''me@[::1]:2222:/srv''\<rparr>"
proof -
  have p: "ParseEndpoint (\<lambda>s. Inl (Msg ''x'')) ''me@[::1]:2222:/srv'' =
     Inr \<lparr>ep_scheme = ''ssh'', ep_user = ''me'', ep_host = ''::1'', ep_port = ''2222'', ep_path = ''/srv'', ep_raw = ''me@[::1]:2222:/srv''\<rparr>"
    by code_simp
  moreover have "ParseEndpoint (\<lambda>s. Inl (Msg ''x'')) ''-oProxyCommand=x:/srv'' = Inl (Msg (''ssh endpoint: host must not start with '-'' @ [CHR 0x27]))"
    by code_simp
  ultimately show ?thesis using endpoint_ssh_safe [OF p] by simp
qed

text \<open>
  An scp-like text with a user, a host, a port and a path is read back as exactly those parts, whatever
  colons and \<open>@\<close> the path holds.
\<close>
theorem scp_endpoint_roundtrip:
  assumes "user \<noteq> ''''" and "CHR ''@'' \<notin> set user" and "\<not> HasPrefix user ''-''" and "CHR '':'' \<notin> set user"
    and "host \<noteq> ''''" and "CHR '':'' \<notin> set host" and "CHR ''/'' \<notin> set host" and "\<not> HasPrefix host ''-''" and "\<not> HasPrefix host ''[''"
    and "1 \<le> n" and "n \<le> 65535" and "path \<noteq> ''''"
    and "s = user @ ''@'' @ host @ '':'' @ format_int n @ '':'' @ path"
    and "hd user \<notin> set space_chars" and "last path \<notin> set space_chars" and "\<not> Contains s ''://''"
  shows "ParseEndpoint url_parse s =
    Inr \<lparr>ep_scheme = ''ssh'', ep_user = user, ep_host = host, ep_port = format_int n, ep_path = path, ep_raw = s\<rparr>"
proof -
  let ?rest = "host @ CHR '':'' # format_int n @ CHR '':'' # path"
  have s: "s = user @ CHR ''@'' # ?rest" using assms(13) by simp
  have t: "TrimSpace s = s" using assms(1,12,14,15) s by (intro TrimSpace_ends) auto
  have w: "\<not> isWindowsDrive s"
    using assms(1,4) s by (cases user; cases "tl user") (auto simp: isWindowsDrive_def)
  have c: "cut_user s = (user, ?rest)"
    unfolding cut_user_def s using str_index_char [OF assms(2)] assms(1) by simp
  have "CHR '':'' \<notin> set (format_int n)"
  proof -
    have "list_all is_digit (format_int n)" using assms(10) nat_digits_all by (simp add: format_int_def)
    moreover have "\<not> is_digit CHR '':''" by (simp add: is_digit_def)
    ultimately show ?thesis by (auto simp: list_all_iff)
  qed
  note fi = str_index_char [OF this, of path]
  have po: "port_ok (format_int n)" "format_int n \<noteq> ''''"
    using assms(10,11) parse_format_int [of n] by (auto simp: port_ok_def fits64_def format_int_def)
  have sp: "split_port (format_int n @ CHR '':'' # path) = (format_int n, path)"
    unfolding split_port_def fi using po(1) by simp
  have "scp_endpoint user host (format_int n @ CHR '':'' # path) s =
      Inr (Some \<lparr>ep_scheme = ''ssh'', ep_user = user, ep_host = host, ep_port = format_int n, ep_path = path, ep_raw = s\<rparr>)"
    unfolding scp_endpoint_def sp using assms(3,5,8,12) po by (simp add: validateSSHEndpoint_def)
  then have "parseScpLike user ?rest s =
      Inr (Some \<lparr>ep_scheme = ''ssh'', ep_user = user, ep_host = host, ep_port = format_int n, ep_path = path, ep_raw = s\<rparr>)"
    using str_index_char [OF assms(6)] assms(5,7,9)
    by (cases host) (auto simp: parseScpLike_def HasPrefix_def ContainsAny_def)
  moreover have "Contains s '':''" unfolding s Contains_iff by (metis append_Cons append_Nil append_assoc)
  ultimately show ?thesis
    using t w c assms(1,16) s by (simp add: ParseEndpoint_def)
qed

theorem scp_endpoint_roundtrip_witness:
  "ParseEndpoint (\<lambda>s. Inl (Msg ''x'')) ''me@h:22:a@b:c'' =
     Inr \<lparr>ep_scheme = ''ssh'', ep_user = ''me'', ep_host = ''h'', ep_port = ''22'', ep_path = ''a@b:c'', ep_raw = ''me@h:22:a@b:c''\<rparr>"
proof -
  have f: "format_int 22 = ''22''" by code_simp
  have "\<not> Contains ''me@h:22:a@b:c'' ''://''" by code_simp
  then show ?thesis
    using scp_endpoint_roundtrip [of "''me''" "''h''" 22 "''a@b:c''" "''me@h:22:a@b:c''" "\<lambda>s. Inl (Msg ''x'')"]
    by (simp add: f HasPrefix_def space_chars_def)
qed

end
