(* ===== verification/RelaySignal.thy ===== *)
theory RelaySignal
  imports GoStr
begin

text \<open>
  The daemon's wake-up registry for relay jobs (\<open>internal/transport/daemon/relay_signal.go\<close>): the operations
  under its mutex, and the system of waiting and waking goroutines as a step relation over them. A channel
  is a number; a wake-up collects the channels under the lock and closes them one by one afterwards.
\<close>

section \<open>The registry\<close>

definition relayMaxJobIDLen :: nat where "relayMaxJobIDLen = 256"
definition relayMaxWaitersPerJob :: nat where "relayMaxWaitersPerJob = 64"
definition relayMaxPendingJobs :: nat where "relayMaxPendingJobs = 1024"

record relay_reg =
  rr_waiters :: "string \<rightharpoonup> nat list"
  rr_pending :: "string list"

definition relayNormJob :: "string \<Rightarrow> string" where
  "relayNormJob jobID = (if jobID = '''' then ''default'' else jobID)"

definition validateRelayJobID :: "string \<Rightarrow> goerr option" where
  "validateRelayJobID jobID =
     (if length (relayNormJob jobID) > relayMaxJobIDLen then Some (Msg ''relay job id too long (max %d)'') else None)"

text \<open>\<open>relayWaiters[jobID]\<close>, empty when there is no entry.\<close>

definition waiters_of :: "relay_reg \<Rightarrow> string \<Rightarrow> nat list" where
  "waiters_of r j = (case rr_waiters r j of None \<Rightarrow> [] | Some l \<Rightarrow> l)"

text \<open>\<open>relayWake\<close> up to the unlock, with the channels it goes on to close.\<close>

definition relayWake :: "string \<Rightarrow> relay_reg \<Rightarrow> nat list \<times> relay_reg" where
  "relayWake jobID r =
     (let j = relayNormJob jobID in
      if length j > relayMaxJobIDLen then ([], r)
      else let ws = waiters_of r j; r1 = r\<lparr>rr_waiters := (rr_waiters r)(j := None)\<rparr> in
        if ws = [] then
          ([], if j \<in> set (rr_pending r) then r1
               else if length (rr_pending r) < relayMaxPendingJobs then r1\<lparr>rr_pending := j # rr_pending r\<rparr> else r1)
        else (ws, r1\<lparr>rr_pending := removeAll j (rr_pending r)\<rparr>))"

text \<open>\<open>relayWaitJob\<close> up to the blocking receive on the new channel \<open>ch\<close>.\<close>

datatype entered = EErr goerr | EDone | EBlocked

definition relay_enter :: "nat \<Rightarrow> string \<Rightarrow> relay_reg \<Rightarrow> entered \<times> relay_reg" where
  "relay_enter ch jobID r =
     (case validateRelayJobID jobID of
        Some e \<Rightarrow> (EErr e, r)
      | None \<Rightarrow>
          let j = relayNormJob jobID in
          if j \<in> set (rr_pending r) then (EDone, r\<lparr>rr_pending := removeAll j (rr_pending r)\<rparr>)
          else if length (waiters_of r j) \<ge> relayMaxWaitersPerJob then (EErr (Msg ''relay wait: too many waiters for job''), r)
          else (EBlocked, r\<lparr>rr_waiters := (rr_waiters r)(j \<mapsto> waiters_of r j @ [ch])\<rparr>))"

text \<open>The deferred clean-up of \<open>relayWaitJob\<close>, \<open>j\<close> being normalised.\<close>

definition relay_leave :: "nat \<Rightarrow> string \<Rightarrow> relay_reg \<Rightarrow> relay_reg" where
  "relay_leave ch j r =
     (let l = waiters_of r j;
          r1 = (if ch \<in> set l then r\<lparr>rr_waiters := (rr_waiters r)(j \<mapsto> remove1 ch l)\<rparr> else r) in
      if waiters_of r1 j = [] then r1\<lparr>rr_waiters := (rr_waiters r1)(j := None)\<rparr> else r1)"

section \<open>The system\<close>

text \<open>
  The goroutines around the registry: \<open>sy_blocked\<close> are the waits in their receive, \<open>sy_closing\<close> the channels
  that running wake-ups have still to close.
\<close>

record relay_sys =
  sy_reg :: relay_reg
  sy_blocked :: "(nat \<times> string) list"
  sy_closing :: "nat list"
  sy_closed :: "nat list"
  sy_next :: nat

definition relay_init :: relay_sys where
  "relay_init = \<lparr>sy_reg = \<lparr>rr_waiters = Map.empty, rr_pending = []\<rparr>, sy_blocked = [], sy_closing = [], sy_closed = [], sy_next = 0\<rparr>"

text \<open>\<open>SWake\<close>: a wake-up; \<open>SWait\<close>: a wait begins; \<open>SClose\<close>: a channel is closed; \<open>SDone\<close>, \<open>SExpire\<close>: a wait ends
  because of its channel or of its context.\<close>

datatype relay_label = SWake string | SWait string entered | SClose nat | SDone nat | SExpire nat

inductive relay_step :: "relay_sys \<Rightarrow> relay_label \<Rightarrow> relay_sys \<Rightarrow> bool" where
  s_wake: "relayWake jobID (sy_reg s) = (ws, r) \<Longrightarrow>
    relay_step s (SWake jobID) (s\<lparr>sy_reg := r, sy_closing := ws @ sy_closing s\<rparr>)"
| s_wait_done: "relay_enter (sy_next s) jobID (sy_reg s) = (res, r) \<Longrightarrow> res \<noteq> EBlocked \<Longrightarrow>
    relay_step s (SWait jobID res) (s\<lparr>sy_reg := r\<rparr>)"
| s_wait_block: "relay_enter (sy_next s) jobID (sy_reg s) = (EBlocked, r) \<Longrightarrow>
    relay_step s (SWait jobID EBlocked)
      (s\<lparr>sy_reg := r, sy_blocked := (sy_next s, relayNormJob jobID) # sy_blocked s, sy_next := sy_next s + 1\<rparr>)"
| s_close: "ch \<in> set (sy_closing s) \<Longrightarrow>
    relay_step s (SClose ch) (s\<lparr>sy_closing := remove1 ch (sy_closing s), sy_closed := ch # sy_closed s\<rparr>)"
| s_done: "(ch, j) \<in> set (sy_blocked s) \<Longrightarrow> ch \<in> set (sy_closed s) \<Longrightarrow>
    relay_step s (SDone ch) (s\<lparr>sy_reg := relay_leave ch j (sy_reg s), sy_blocked := removeAll (ch, j) (sy_blocked s)\<rparr>)"
| s_expire: "(ch, j) \<in> set (sy_blocked s) \<Longrightarrow>
    relay_step s (SExpire ch) (s\<lparr>sy_reg := relay_leave ch j (sy_reg s), sy_blocked := removeAll (ch, j) (sy_blocked s)\<rparr>)"

inductive relay_reach :: "relay_sys \<Rightarrow> bool" where
  r_init: "relay_reach relay_init"
| r_step: "relay_reach s \<Longrightarrow> relay_step s l s' \<Longrightarrow> relay_reach s'"

inductive_cases relay_stepE: "relay_step s l s'"
inductive_cases relay_wakeE: "relay_step s (SWake j) s'"

section \<open>The invariant\<close>

text \<open>
  The registry is bounded; no job has both a pending wake-up and waiters; a channel waits for one job only,
  once; and it is in the registry, to be closed, or closed, in one of the three only.
\<close>

definition reg_inv :: "relay_reg \<Rightarrow> bool" where
  "reg_inv r \<longleftrightarrow> length (rr_pending r) \<le> relayMaxPendingJobs \<and> distinct (rr_pending r) \<and>
     (\<forall>j l. rr_waiters r j = Some l \<longrightarrow> l \<noteq> [] \<and> length l \<le> relayMaxWaitersPerJob \<and> distinct l \<and> j \<notin> set (rr_pending r)) \<and>
     (\<forall>i j c. c \<in> set (waiters_of r i) \<and> c \<in> set (waiters_of r j) \<longrightarrow> i = j)"

definition sys_inv :: "relay_sys \<Rightarrow> bool" where
  "sys_inv s \<longleftrightarrow> reg_inv (sy_reg s) \<and> distinct (sy_closing s @ sy_closed s) \<and>
     (\<forall>c \<in> set (sy_closing s @ sy_closed s). c < sy_next s \<and> (\<forall>j. c \<notin> set (waiters_of (sy_reg s) j))) \<and>
     (\<forall>j. \<forall>c \<in> set (waiters_of (sy_reg s) j). (c, j) \<in> set (sy_blocked s)) \<and>
     (\<forall>(c, j) \<in> set (sy_blocked s). c < sy_next s \<and> (\<forall>i. (c, i) \<in> set (sy_blocked s) \<longrightarrow> i = j) \<and>
        (c \<in> set (sy_closing s @ sy_closed s) \<or> c \<in> set (waiters_of (sy_reg s) j)))"

lemma waiters_upd [simp]:
  "waiters_of (r\<lparr>rr_waiters := (rr_waiters r)(j := None)\<rparr>) i = (if i = j then [] else waiters_of r i)"
  "waiters_of (r\<lparr>rr_waiters := (rr_waiters r)(j \<mapsto> l)\<rparr>) i = (if i = j then l else waiters_of r i)"
  "waiters_of (r\<lparr>rr_pending := p\<rparr>) i = waiters_of r i"
  by (simp_all add: waiters_of_def)

text \<open>What each operation does to the waiters.\<close>

lemma relayWake_waiters:
  assumes "relayWake jobID r = (ws, r')"
  shows "if length (relayNormJob jobID) > relayMaxJobIDLen then ws = [] \<and> r' = r
    else ws = waiters_of r (relayNormJob jobID) \<and> (\<forall>i. waiters_of r' i = (if i = relayNormJob jobID then [] else waiters_of r i))"
  using assms by (auto simp: relayWake_def Let_def split: if_splits)

lemma reg_invI:
  assumes "length (rr_pending r) \<le> relayMaxPendingJobs" and "distinct (rr_pending r)"
    and "\<And>j l. rr_waiters r j = Some l \<Longrightarrow> l \<noteq> [] \<and> length l \<le> relayMaxWaitersPerJob \<and> distinct l \<and> j \<notin> set (rr_pending r)"
    and "\<And>i j c. c \<in> set (waiters_of r i) \<Longrightarrow> c \<in> set (waiters_of r j) \<Longrightarrow> i = j"
  shows "reg_inv r"
  using assms unfolding reg_inv_def by blast

lemma reg_invD:
  assumes "reg_inv r"
  shows "length (rr_pending r) \<le> relayMaxPendingJobs" "distinct (rr_pending r)"
    "rr_waiters r j = Some l \<Longrightarrow> l \<noteq> [] \<and> length l \<le> relayMaxWaitersPerJob \<and> distinct l \<and> j \<notin> set (rr_pending r)"
    "c \<in> set (waiters_of r i) \<Longrightarrow> c \<in> set (waiters_of r j) \<Longrightarrow> i = j"
    "distinct (waiters_of r j)"
  using assms unfolding reg_inv_def by (blast, blast, blast, blast, auto simp: waiters_of_def split: option.splits)

text \<open>Fewer waiters, other pending jobs.\<close>

lemma reg_inv_drop:
  assumes "reg_inv r" and "length p \<le> relayMaxPendingJobs" and "distinct p" and "set p \<subseteq> insert j (set (rr_pending r))"
  shows "reg_inv (r\<lparr>rr_waiters := (rr_waiters r)(j := None), rr_pending := p\<rparr>)"
proof (rule reg_invI)
  fix i l assume "rr_waiters (r\<lparr>rr_waiters := (rr_waiters r)(j := None), rr_pending := p\<rparr>) i = Some l"
  then have "rr_waiters r i = Some l" "i \<noteq> j" by (auto split: if_splits)
  with reg_invD(3) [OF assms(1), of i l] assms(4)
  show "l \<noteq> [] \<and> length l \<le> relayMaxWaitersPerJob \<and> distinct l \<and>
      i \<notin> set (rr_pending (r\<lparr>rr_waiters := (rr_waiters r)(j := None), rr_pending := p\<rparr>))" by auto
next
  fix a b c assume "c \<in> set (waiters_of (r\<lparr>rr_waiters := (rr_waiters r)(j := None), rr_pending := p\<rparr>) a)"
    "c \<in> set (waiters_of (r\<lparr>rr_waiters := (rr_waiters r)(j := None), rr_pending := p\<rparr>) b)"
  then show "a = b" using reg_invD(4) [OF assms(1), of c a b] by (auto simp: waiters_of_def split: if_splits)
qed (use assms in simp_all)

lemma relayWake_inv:
  assumes "relayWake jobID r = (ws, r')" and "reg_inv r"
  shows "reg_inv r'"
proof (cases "length (relayNormJob jobID) > relayMaxJobIDLen")
  case True
  with assms show ?thesis by (simp add: relayWake_def)
next
  case False
  let ?j = "relayNormJob jobID" and ?p = "rr_pending r"
  note d = reg_inv_drop [OF assms(2), of _ ?j]
  note b = reg_invD(1,2) [OF assms(2)]
  have "reg_inv (r\<lparr>rr_waiters := (rr_waiters r)(?j := None), rr_pending := removeAll ?j ?p\<rparr>)"
    using b by (intro d) (auto intro: le_trans [OF length_removeAll_less_eq] distinct_removeAll)
  moreover have "reg_inv (r\<lparr>rr_waiters := (rr_waiters r)(?j := None), rr_pending := ?p\<rparr>)"
    using b by (intro d) auto
  moreover have "reg_inv (r\<lparr>rr_waiters := (rr_waiters r)(?j := None), rr_pending := ?j # ?p\<rparr>)"
    if "?j \<notin> set ?p" "length ?p < relayMaxPendingJobs"
    using b that by (intro d) auto
  ultimately show ?thesis using assms(1) False by (auto simp: relayWake_def Let_def split: if_splits)
qed

lemma relay_enter_blocked:
  "relay_enter ch jobID r = (EBlocked, r') \<Longrightarrow>
    (\<forall>i. waiters_of r' i = (if i = relayNormJob jobID then waiters_of r i @ [ch] else waiters_of r i))"
  by (auto simp: relay_enter_def Let_def split: if_splits option.splits)

lemma relay_enter_done:
  "relay_enter ch jobID r = (res, r') \<Longrightarrow> res \<noteq> EBlocked \<Longrightarrow> waiters_of r' i = waiters_of r i"
  by (auto simp: relay_enter_def Let_def split: if_splits option.splits)

lemma relay_enter_inv:
  assumes "relay_enter ch jobID r = (res, r')" and "reg_inv r" and "\<forall>j. ch \<notin> set (waiters_of r j)"
  shows "reg_inv r'"
proof (cases res)
  case EBlocked
  with assms(1) have r': "r' = r\<lparr>rr_waiters := (rr_waiters r)(relayNormJob jobID \<mapsto> waiters_of r (relayNormJob jobID) @ [ch])\<rparr>"
    "relayNormJob jobID \<notin> set (rr_pending r)" "length (waiters_of r (relayNormJob jobID)) < relayMaxWaitersPerJob"
    by (auto simp: relay_enter_def Let_def split: if_splits option.splits)
  note i = reg_invD [OF assms(2)]
  show ?thesis
  proof (rule reg_invI)
    fix j l assume "rr_waiters r' j = Some l"
    then show "l \<noteq> [] \<and> length l \<le> relayMaxWaitersPerJob \<and> distinct l \<and> j \<notin> set (rr_pending r')"
      using i(3) [of j l] i(5) r'(2,3) assms(3) unfolding r'(1) by (auto split: if_splits)
  next
    fix a b c assume "c \<in> set (waiters_of r' a)" "c \<in> set (waiters_of r' b)"
    then show "a = b" using i(4) [of c a b] assms(3) unfolding r'(1) by (auto split: if_splits)
  qed (use i in \<open>simp_all add: r'(1)\<close>)
next
  case EDone
  with assms(1) have r': "r' = r\<lparr>rr_pending := removeAll (relayNormJob jobID) (rr_pending r)\<rparr>"
    by (auto simp: relay_enter_def Let_def split: if_splits option.splits)
  note i = reg_invD [OF assms(2)]
  show ?thesis unfolding r'
    by (rule reg_invI)
      (use i in \<open>auto intro: le_trans [OF length_removeAll_less_eq] distinct_removeAll simp: waiters_of_def\<close>)
qed (use assms(1,2) in \<open>auto simp: relay_enter_def Let_def split: if_splits option.splits\<close>)

lemma relay_leave_waiters:
  "waiters_of (relay_leave ch j r) i = (if i = j then remove1 ch (waiters_of r j) else waiters_of r i)"
  by (auto simp: relay_leave_def Let_def remove1_idem)

lemma relay_leave_inv:
  assumes "reg_inv r"
  shows "reg_inv (relay_leave ch j r)"
proof -
  have p: "rr_pending (relay_leave ch j r) = rr_pending r" by (simp add: relay_leave_def Let_def)
  have "set (waiters_of (relay_leave ch j r) i) \<subseteq> set (waiters_of r i)" for i
    using set_remove1_subset [of ch "waiters_of r j"] by (auto simp: relay_leave_waiters)
  then have u: "\<forall>a b c. c \<in> set (waiters_of (relay_leave ch j r) a) \<and> c \<in> set (waiters_of (relay_leave ch j r) b) \<longrightarrow> a = b"
    using assms unfolding reg_inv_def by blast
  have w: "l \<noteq> [] \<and> length l \<le> relayMaxWaitersPerJob \<and> distinct l \<and> i \<notin> set (rr_pending r)"
    if "rr_waiters (relay_leave ch j r) i = Some l" for i l
  proof -
    have ne: "l \<noteq> []"
      using that assms by (auto simp: relay_leave_def Let_def waiters_of_def reg_inv_def split: if_splits option.splits)
    have l: "waiters_of (relay_leave ch j r) i = l" using that by (simp add: waiters_of_def)
    with ne have "waiters_of r i \<noteq> []" by (auto simp: relay_leave_waiters split: if_splits)
    then obtain l0 where "rr_waiters r i = Some l0" "waiters_of r i = l0" by (auto simp: waiters_of_def split: option.splits)
    with reg_invD(3) [OF assms, of i l0] l ne show ?thesis
      by (auto simp: relay_leave_waiters distinct_remove1 length_remove1 split: if_splits)
  qed
  show ?thesis using assms u w p unfolding reg_inv_def by simp
qed

lemma sys_invI:
  assumes "reg_inv (sy_reg s)" and "distinct (sy_closing s @ sy_closed s)"
    and "\<And>c. c \<in> set (sy_closing s @ sy_closed s) \<Longrightarrow> c < sy_next s"
    and "\<And>c j. c \<in> set (sy_closing s @ sy_closed s) \<Longrightarrow> c \<notin> set (waiters_of (sy_reg s) j)"
    and "\<And>c j. c \<in> set (waiters_of (sy_reg s) j) \<Longrightarrow> (c, j) \<in> set (sy_blocked s)"
    and "\<And>c j. (c, j) \<in> set (sy_blocked s) \<Longrightarrow> c < sy_next s"
    and "\<And>c j i. (c, j) \<in> set (sy_blocked s) \<Longrightarrow> (c, i) \<in> set (sy_blocked s) \<Longrightarrow> i = j"
    and "\<And>c j. (c, j) \<in> set (sy_blocked s) \<Longrightarrow> c \<in> set (sy_closing s @ sy_closed s) \<or> c \<in> set (waiters_of (sy_reg s) j)"
  shows "sys_inv s"
  unfolding sys_inv_def using assms by blast

lemma sys_invD:
  assumes "sys_inv s"
  shows "reg_inv (sy_reg s)" "distinct (sy_closing s @ sy_closed s)"
    "c \<in> set (sy_closing s @ sy_closed s) \<Longrightarrow> c < sy_next s"
    "c \<in> set (sy_closing s @ sy_closed s) \<Longrightarrow> c \<notin> set (waiters_of (sy_reg s) j)"
    "c \<in> set (waiters_of (sy_reg s) j) \<Longrightarrow> (c, j) \<in> set (sy_blocked s)"
    "(c, j) \<in> set (sy_blocked s) \<Longrightarrow> c < sy_next s"
    "(c, j) \<in> set (sy_blocked s) \<Longrightarrow> (c, i) \<in> set (sy_blocked s) \<Longrightarrow> i = j"
    "(c, j) \<in> set (sy_blocked s) \<Longrightarrow> c \<in> set (sy_closing s @ sy_closed s) \<or> c \<in> set (waiters_of (sy_reg s) j)"
  using assms unfolding sys_inv_def by blast+

lemma sys_inv_leave:
  assumes "sys_inv s" and "(ch, j) \<in> set (sy_blocked s)"
  shows "sys_inv (s\<lparr>sy_reg := relay_leave ch j (sy_reg s), sy_blocked := removeAll (ch, j) (sy_blocked s)\<rparr>)"
proof -
  note i = sys_invD [OF assms(1)]
  have d: "c \<in> set (waiters_of (relay_leave ch j (sy_reg s)) a) \<longleftrightarrow> c \<in> set (waiters_of (sy_reg s) a) \<and> (c, a) \<noteq> (ch, j)" for c a
    using reg_invD(5) [OF i(1), of j] by (auto simp: relay_leave_waiters)
  show ?thesis
  proof (rule sys_invI)
    fix c a assume "(c, a) \<in> set (sy_blocked (s\<lparr>sy_reg := relay_leave ch j (sy_reg s), sy_blocked := removeAll (ch, j) (sy_blocked s)\<rparr>))"
    then have "(c, a) \<in> set (sy_blocked s)" "(c, a) \<noteq> (ch, j)" by auto
    with i(8) [of c a] d [of c a]
    show "c \<in> set (sy_closing (s\<lparr>sy_reg := relay_leave ch j (sy_reg s), sy_blocked := removeAll (ch, j) (sy_blocked s)\<rparr>) @
        sy_closed (s\<lparr>sy_reg := relay_leave ch j (sy_reg s), sy_blocked := removeAll (ch, j) (sy_blocked s)\<rparr>)) \<or>
      c \<in> set (waiters_of (sy_reg (s\<lparr>sy_reg := relay_leave ch j (sy_reg s), sy_blocked := removeAll (ch, j) (sy_blocked s)\<rparr>)) a)"
      by auto
  qed (use i d relay_leave_inv [OF i(1)] in auto)
qed

lemma sys_inv_wake:
  assumes "sys_inv s" and "relayWake jobID (sy_reg s) = (ws, r)"
  shows "sys_inv (s\<lparr>sy_reg := r, sy_closing := ws @ sy_closing s\<rparr>)"
proof (cases "length (relayNormJob jobID) > relayMaxJobIDLen")
  case True
  with assms relayWake_waiters [OF assms(2)] show ?thesis by simp
next
  case False
  let ?j = "relayNormJob jobID"
  note i = sys_invD [OF assms(1)]
  from False relayWake_waiters [OF assms(2)] have w: "ws = waiters_of (sy_reg s) ?j"
    "\<And>a. waiters_of r a = (if a = ?j then [] else waiters_of (sy_reg s) a)" by auto
  have dj: "set ws \<inter> set (sy_closing s @ sy_closed s) = {}" using i(4) w(1) by blast
  show ?thesis
  proof (rule sys_invI)
    show "distinct (sy_closing (s\<lparr>sy_reg := r, sy_closing := ws @ sy_closing s\<rparr>) @ sy_closed (s\<lparr>sy_reg := r, sy_closing := ws @ sy_closing s\<rparr>))"
      using i(2) reg_invD(5) [OF i(1), of ?j] dj w(1) by auto
  next
    fix c a assume "c \<in> set (sy_closing (s\<lparr>sy_reg := r, sy_closing := ws @ sy_closing s\<rparr>) @ sy_closed (s\<lparr>sy_reg := r, sy_closing := ws @ sy_closing s\<rparr>))"
    then show "c \<notin> set (waiters_of (sy_reg (s\<lparr>sy_reg := r, sy_closing := ws @ sy_closing s\<rparr>)) a)"
      using i(4) [of c a] reg_invD(4) [OF i(1), of c a ?j] w by auto
  next
    fix c assume "c \<in> set (sy_closing (s\<lparr>sy_reg := r, sy_closing := ws @ sy_closing s\<rparr>) @ sy_closed (s\<lparr>sy_reg := r, sy_closing := ws @ sy_closing s\<rparr>))"
    then show "c < sy_next (s\<lparr>sy_reg := r, sy_closing := ws @ sy_closing s\<rparr>)"
      using i(3) [of c] i(5) [of c ?j] i(6) [of c ?j] w(1) by auto
  next
    fix c a assume "(c, a) \<in> set (sy_blocked (s\<lparr>sy_reg := r, sy_closing := ws @ sy_closing s\<rparr>))"
    then show "c \<in> set (sy_closing (s\<lparr>sy_reg := r, sy_closing := ws @ sy_closing s\<rparr>) @ sy_closed (s\<lparr>sy_reg := r, sy_closing := ws @ sy_closing s\<rparr>)) \<or>
      c \<in> set (waiters_of (sy_reg (s\<lparr>sy_reg := r, sy_closing := ws @ sy_closing s\<rparr>)) a)"
      using i(8) [of c a] w by auto
  qed (use i w relayWake_inv [OF assms(2) i(1)] in \<open>auto split: if_splits\<close>)
qed

lemma sys_inv_enter:
  assumes "sys_inv s" and "relay_enter (sy_next s) jobID (sy_reg s) = (EBlocked, r)"
  shows "sys_inv (s\<lparr>sy_reg := r, sy_blocked := (sy_next s, relayNormJob jobID) # sy_blocked s, sy_next := sy_next s + 1\<rparr>)"
proof -
  note i = sys_invD [OF assms(1)]
  note w = relay_enter_blocked [OF assms(2), rule_format]
  have new: "sy_next s \<notin> set (waiters_of (sy_reg s) a)" for a using i(5) [of "sy_next s" a] i(6) [of "sy_next s" a] by auto
  have nb: "(sy_next s, a) \<notin> set (sy_blocked s)" for a using i(6) [of "sy_next s" a] by auto
  have nc: "sy_next s \<notin> set (sy_closing s @ sy_closed s)" using i(3) [of "sy_next s"] by auto
  have "reg_inv r" using relay_enter_inv [OF assms(2) i(1)] new by blast
  then show ?thesis
    by (intro sys_invI) (use i(1-7) w new nb nc in \<open>auto split: if_splits simp: less_Suc_eq dest: i(8)\<close>)
qed

lemma sys_inv_step: "relay_step s l s' \<Longrightarrow> sys_inv s \<Longrightarrow> sys_inv s'"
proof (induction rule: relay_step.induct)
  case (s_wait_done s jobID res r)
  note i = sys_invD [OF s_wait_done(3)]
  note w = relay_enter_done [OF s_wait_done(1,2)]
  have "sy_next s \<notin> set (waiters_of (sy_reg s) a)" for a using i(5) [of "sy_next s" a] i(6) [of "sy_next s" a] by auto
  then have "reg_inv r" using relay_enter_inv [OF s_wait_done(1) i(1)] by blast
  then show ?case by (intro sys_invI) (use i w in auto)
next
  case (s_close ch s)
  note i = sys_invD [OF s_close(2)]
  have "set (remove1 ch (sy_closing s)) = set (sy_closing s) - {ch}" using i(2) by simp
  then show ?case by (intro sys_invI) (use i(1-7) s_close(1) in \<open>auto simp: distinct_remove1 dest: i(8)\<close>)
next
  case (s_wait_block s jobID r)
  from sys_inv_enter [OF s_wait_block(2,1)] show ?case .
qed (auto intro: sys_inv_wake sys_inv_leave)

lemma relay_reach_inv: "relay_reach s \<Longrightarrow> sys_inv s"
proof (induction rule: relay_reach.induct)
  case r_init
  show ?case by (simp add: relay_init_def sys_inv_def reg_inv_def waiters_of_def)
qed (rule sys_inv_step)

section \<open>Properties\<close>

text \<open>
  C20. Whatever the order of wake-ups, waits, closings and expiries: at most 1024 jobs are pending, no job has
  more than 64 waiters, none has waiters and a pending wake-up at once, and no channel is closed a second time
  (which would panic).
\<close>
theorem relay_registry_invariant:
  assumes "relay_reach s"
  shows "length (rr_pending (sy_reg s)) \<le> 1024 \<and>
    (\<forall>j. length (waiters_of (sy_reg s) j) \<le> 64 \<and> (waiters_of (sy_reg s) j \<noteq> [] \<longrightarrow> j \<notin> set (rr_pending (sy_reg s)))) \<and>
    distinct (sy_closed s) \<and> (\<forall>ch s'. relay_step s (SClose ch) s' \<longrightarrow> ch \<notin> set (sy_closed s))"
proof -
  note i = sys_invD [OF relay_reach_inv [OF assms]]
  have "\<forall>ch s'. relay_step s (SClose ch) s' \<longrightarrow> ch \<notin> set (sy_closed s)"
    using i(2) by (auto elim: relay_step.cases)
  moreover have "length (waiters_of (sy_reg s) j) \<le> 64 \<and> (waiters_of (sy_reg s) j \<noteq> [] \<longrightarrow> j \<notin> set (rr_pending (sy_reg s)))" for j
    using reg_invD(3) [OF i(1), of j "waiters_of (sy_reg s) j"]
    by (auto simp: waiters_of_def relayMaxWaitersPerJob_def split: option.splits)
  ultimately show ?thesis using i(2) reg_invD(1) [OF i(1)] by (auto simp: relayMaxPendingJobs_def)
qed

text \<open>One wait, one wake-up: after them the wait's channel is about to be closed.\<close>

definition demo_relay1 :: relay_sys where
  "demo_relay1 = \<lparr>sy_reg = \<lparr>rr_waiters = Map.empty(''j'' \<mapsto> [0]), rr_pending = []\<rparr>, sy_blocked = [(0, ''j'')], sy_closing = [],
     sy_closed = [], sy_next = 1\<rparr>"

lemma demo_relay1_reach: "relay_reach demo_relay1"
proof -
  have "relay_enter (sy_next relay_init) ''j'' (sy_reg relay_init) = (EBlocked, \<lparr>rr_waiters = Map.empty(''j'' \<mapsto> [0]), rr_pending = []\<rparr>)"
    by (simp add: relay_enter_def relay_init_def validateRelayJobID_def relayNormJob_def waiters_of_def
        relayMaxJobIDLen_def relayMaxWaitersPerJob_def)
  from relay_reach.r_step [OF relay_reach.r_init relay_step.s_wait_block [OF this]]
  show ?thesis by (simp add: relay_init_def demo_relay1_def relayNormJob_def)
qed

lemma demo_relay_wake: "relayWake ''j'' (sy_reg demo_relay1) = ([0], \<lparr>rr_waiters = Map.empty, rr_pending = []\<rparr>)"
  by (simp add: relayWake_def demo_relay1_def relayNormJob_def waiters_of_def relayMaxJobIDLen_def)

theorem relay_registry_invariant_witness:
  "length (rr_pending (sy_reg demo_relay1)) \<le> 1024 \<and> length (waiters_of (sy_reg demo_relay1) ''j'') \<le> 64 \<and>
   waiters_of (sy_reg demo_relay1) ''j'' = [0] \<and> distinct (sy_closed demo_relay1)"
  using relay_registry_invariant [OF demo_relay1_reach] by (auto simp: demo_relay1_def waiters_of_def)

text \<open>
  C21. No wake-up is lost: once a job is woken, every wait that is blocked on it has its channel closed or about
  to be closed, and a wait whose channel is closed can return; with nobody waiting and room in the table the
  next wait on the job returns at once.
\<close>
theorem relay_no_lost_wakeup:
  assumes "relay_reach s" and "relay_step s (SWake jobID) s'" and "length (relayNormJob jobID) \<le> 256"
  shows "(\<forall>ch. (ch, relayNormJob jobID) \<in> set (sy_blocked s') \<longrightarrow>
      ch \<in> set (sy_closing s') \<or> (\<exists>s''. relay_step s' (SDone ch) s'')) \<and>
    (waiters_of (sy_reg s) (relayNormJob jobID) = [] \<and> length (rr_pending (sy_reg s)) < 1024 \<longrightarrow>
      fst (relay_enter ch jobID (sy_reg s')) = EDone)"
proof -
  let ?j = "relayNormJob jobID"
  from assms(2) obtain ws r where w: "relayWake jobID (sy_reg s) = (ws, r)" and s': "s' = s\<lparr>sy_reg := r, sy_closing := ws @ sy_closing s\<rparr>"
    by (elim relay_wakeE) auto
  have "sys_inv s'" using sys_inv_step [OF assms(2)] relay_reach_inv [OF assms(1)] by blast
  note i = sys_invD [OF this]
  have len: "\<not> length ?j > relayMaxJobIDLen" using assms(3) by (simp add: relayMaxJobIDLen_def)
  have "waiters_of (sy_reg s') ?j = []" using relayWake_waiters [OF w] len s' by simp
  then have "c \<in> set (sy_closing s') \<or> (\<exists>s''. relay_step s' (SDone c) s'')" if "(c, ?j) \<in> set (sy_blocked s')" for c
    using i(8) [OF that] relay_step.s_done [OF that] by auto
  moreover have "fst (relay_enter ch jobID (sy_reg s')) = EDone"
    if "waiters_of (sy_reg s) ?j = []" "length (rr_pending (sy_reg s)) < 1024"
    using w s' that len by (auto simp: relayWake_def relay_enter_def validateRelayJobID_def Let_def relayMaxPendingJobs_def split: if_splits)
  ultimately show ?thesis by blast
qed

theorem relay_no_lost_wakeup_witness:
  "(0, ''j'') \<in> set (sy_blocked (demo_relay1\<lparr>sy_reg := \<lparr>rr_waiters = Map.empty, rr_pending = []\<rparr>, sy_closing := [0]\<rparr>)) \<and>
   (0 \<in> set (sy_closing (demo_relay1\<lparr>sy_reg := \<lparr>rr_waiters = Map.empty, rr_pending = []\<rparr>, sy_closing := [0]\<rparr>)) \<or>
    (\<exists>s''. relay_step (demo_relay1\<lparr>sy_reg := \<lparr>rr_waiters = Map.empty, rr_pending = []\<rparr>, sy_closing := [0]\<rparr>) (SDone 0) s''))"
proof -
  have b: "(0, ''j'') \<in> set (sy_blocked (demo_relay1\<lparr>sy_reg := \<lparr>rr_waiters = Map.empty, rr_pending = []\<rparr>, sy_closing := [0]\<rparr>))"
    by (simp add: demo_relay1_def)
  have n: "relayNormJob ''j'' = ''j''" by (simp add: relayNormJob_def)
  have "relay_step demo_relay1 (SWake ''j'') (demo_relay1\<lparr>sy_reg := \<lparr>rr_waiters = Map.empty, rr_pending = []\<rparr>, sy_closing := [0]\<rparr>)"
    using relay_step.s_wake [OF demo_relay_wake] by (simp add: demo_relay1_def)
  from relay_no_lost_wakeup [OF demo_relay1_reach this] b show ?thesis unfolding n by simp
qed

end
