(* ===== verification/Engine.thy ===== *)
theory Engine
  imports Transport Journal IndexCache Delta Compress
begin

text \<open>
  The copy engine (\<open>internal/engine/engine.go\<close>): the transfer of one file in two passes, the retries, the loop
  over the files, the deletion of extra files, verification, and the job as a whole. Source and destination
  are backends; the clock, the context, the bandwidth limiter's answers, the tuner's profile, the outcomes of
  the journal's and index's system calls, and what other processes do to the source between the steps
  are arguments.
\<close>

section \<open>Configuration and state\<close>

record config =
  cf_sync :: bool
  cf_delete :: bool
  cf_resume :: bool
  cf_dry :: bool
  cf_exclude :: "string list"
  cf_checksum :: bool
  cf_stable :: int
  cf_skip_unstable :: bool
  cf_attempts :: int
  cf_job :: string

text \<open>The optional interfaces \<open>Linker\<close> and \<open>ModeSetter\<close>; \<open>None\<close> is a failed type assertion.\<close>

record 't linker =
  ln_read :: "string \<Rightarrow> 't \<Rightarrow> string res \<times> 't"
  ln_symlink :: "string \<Rightarrow> string \<Rightarrow> 't \<Rightarrow> goerr option \<times> 't"

record ('s, 'v, 'd, 'w) endpoints =
  es_src :: "('s, 'v) backend"
  es_dst :: "('d, 'w) backend"
  es_src_link :: "'s linker option"
  es_dst_link :: "'d linker option"
  es_dst_chmod :: "(string \<Rightarrow> u32 \<Rightarrow> 'd \<Rightarrow> goerr option \<times> 'd) option"

record ('s, 'd) engine =
  en_src :: 's
  en_dst :: 'd
  en_journal :: "(journal \<times> bytes) option"
  en_index :: "cache option"

text \<open>Hashing, compression and the encoders of the journal and the index.\<close>

record engine_lib =
  el_hash :: "bytes \<Rightarrow> digest"
  el_codec :: codec_lib
  el_entry :: "entry \<Rightarrow> bytes"
  el_sig :: "cached_sig \<Rightarrow> bytes"
  el_unsig :: "bytes \<Rightarrow> cached_sig option"
  el_cwd :: "string res"

text \<open>
  What one attempt meets: the clock, the tuner's profile, the context and the limiter at each chunk, the
  outcomes of the journal and index calls, and the source changing under it (\<open>at_live 0\<close> before the second
  look at the source, \<open>1\<close> before the second read, \<open>2\<close> before the last look). \<open>at_close\<close> is what closing a reader returns: 0 and 1 for the two reads of the
  source, 2 and 3 for the comparison of the destination and of the source with the journal's digest, 4 for the one with the index's.
\<close>

record 's attempt =
  at_now :: int
  at_avg :: u32
  at_frame :: u32
  at_codec :: codec
  at_ctx :: "u64 \<Rightarrow> goerr option"
  at_wait :: "u64 \<Rightarrow> goerr option"
  at_begin_fault :: put_fault
  at_end_fault :: put_fault
  at_index_fault :: index_fault
  at_delete_fault :: "goerr option"
  at_live :: "nat \<Rightarrow> 's \<Rightarrow> 's"
  at_close :: "nat \<Rightarrow> goerr option"

datatype status = SSkipped | SDry | SOk | SFailed

record try_result =
  tx_bytes :: int
  tx_wired :: int
  tx_reused :: int
  tx_sent :: int
  tx_status :: status
  tx_err :: "goerr option"

definition no_bytes :: "status \<Rightarrow> goerr option \<Rightarrow> try_result" where
  "no_bytes st e = \<lparr>tx_bytes = 0, tx_wired = 0, tx_reused = 0, tx_sent = 0, tx_status = st, tx_err = e\<rparr>"

abbreviation tx_failed :: "goerr \<Rightarrow> try_result" where "tx_failed e \<equiv> no_bytes SFailed (Some e)"

definition mode_is_dir :: "u32 \<Rightarrow> bool" where "mode_is_dir m \<longleftrightarrow> m AND 0x80000000 \<noteq> 0"
definition mode_is_symlink :: "u32 \<Rightarrow> bool" where "mode_is_symlink m \<longleftrightarrow> m AND 0x08000000 \<noteq> 0"

fun isUnstable :: "goerr \<Rightarrow> bool" where
  "isUnstable (Unstable e) = True"
| "isUnstable (Wrap f e) = isUnstable e"
| "isUnstable _ = False"

section \<open>Directories and symbolic links\<close>

definition try_dir ::
  "config \<Rightarrow> ('s, 'v, 'd, 'w) endpoints \<Rightarrow> file_meta \<Rightarrow> ('s, 'd) engine \<Rightarrow> try_result \<times> ('s, 'd) engine" where
  "try_dir cfg E meta st =
     (if cf_dry cfg then (no_bytes SDry None, st)
      else case tr_mkdir (es_dst E) (fm_rel meta) (en_dst st) of
        (Some e, d1) \<Rightarrow> (tx_failed e, st\<lparr>en_dst := d1\<rparr>)
      | (None, d1) \<Rightarrow>
          (case es_dst_chmod E of
             Some chmod \<Rightarrow>
               if fm_mode meta \<noteq> 0 then
                 (case chmod (fm_rel meta) (fm_mode meta) d1 of
                    (Some e, d2) \<Rightarrow> (tx_failed e, st\<lparr>en_dst := d2\<rparr>)
                  | (None, d2) \<Rightarrow> (no_bytes SOk None, st\<lparr>en_dst := d2\<rparr>))
               else (no_bytes SOk None, st\<lparr>en_dst := d1\<rparr>)
           | None \<Rightarrow> (no_bytes SOk None, st\<lparr>en_dst := d1\<rparr>)))"

definition try_symlink ::
  "config \<Rightarrow> ('s, 'v, 'd, 'w) endpoints \<Rightarrow> file_meta \<Rightarrow> ('s, 'd) engine \<Rightarrow> try_result \<times> ('s, 'd) engine" where
  "try_symlink cfg E meta st =
     (if cf_dry cfg then (no_bytes SDry None, st)
      else case es_src_link E of
        None \<Rightarrow> (tx_failed (Msg ''symlink not supported by source transport''), st)
      | Some rd \<Rightarrow>
          (case es_dst_link E of
             None \<Rightarrow> (tx_failed (Msg ''symlink not supported by destination transport''), st)
           | Some wr \<Rightarrow>
               (case ln_read rd (fm_rel meta) (en_src st) of
                  (Inl e, s1) \<Rightarrow> (tx_failed e, st\<lparr>en_src := s1\<rparr>)
                | (Inr target, s1) \<Rightarrow>
                    (case ln_symlink wr target (fm_rel meta) (en_dst st) of
                       (Some e, d1) \<Rightarrow> (tx_failed e, st\<lparr>en_src := s1, en_dst := d1\<rparr>)
                     | (None, d1) \<Rightarrow> (no_bytes SOk None, st\<lparr>en_src := s1, en_dst := d1\<rparr>)))))"

section \<open>Skipping\<close>

definition fileDigestMatches ::
  "(bytes \<Rightarrow> digest) \<Rightarrow> goerr option \<Rightarrow> ('t, 'w) backend \<Rightarrow> string \<Rightarrow> string \<Rightarrow> 't \<Rightarrow> bool res \<times> 't" where
  "fileDigestMatches H cl B rel want t =
     (case tr_open B rel t of
        (Inl e, t1) \<Rightarrow> (Inl e, t1)
      | (Inr r, t1) \<Rightarrow>
          (case HashFile H r of
             Inl e \<Rightarrow> Inl e
           | Inr (got, n) \<Rightarrow> (case cl of Some e \<Rightarrow> Inl e | None \<Rightarrow> Inr (digest_string got = want)), t1))"

definition drop_index :: "engine_lib \<Rightarrow> 's attempt \<Rightarrow> string \<Rightarrow> ('s, 'd) engine \<Rightarrow> ('s, 'd) engine" where
  "drop_index lib a rel st =
     (case en_index st of
        None \<Rightarrow> st
      | Some c \<Rightarrow> st\<lparr>en_index := Some (fst (index_delete (at_delete_fault a) (el_cwd lib) rel c))\<rparr>)"

text \<open>What the journal says of the file: \<open>Inl\<close> ends the attempt, \<open>Inr\<close> is \<open>forceTransfer\<close>.\<close>

definition try_resume ::
  "config \<Rightarrow> engine_lib \<Rightarrow> 's attempt \<Rightarrow> ('s, 'v, 'd, 'w) endpoints \<Rightarrow> file_meta \<Rightarrow> ('s, 'd) engine
     \<Rightarrow> (try_result + bool) \<times> ('s, 'd) engine" where
  "try_resume cfg lib a E meta st =
     (let rel = fm_rel meta in
      case en_journal st of
        None \<Rightarrow> (Inr False, st)
      | Some (j, file) \<Rightarrow>
          if \<not> cf_resume cfg then (Inr False, st)
          else case journal_get j rel of
            None \<Rightarrow> (Inr False, st)
          | Some e \<Rightarrow>
              if e_status e \<noteq> StatusComplete then (Inr False, st)
              else if \<not> (e_size e = fm_size meta \<and> e_mod e = fm_mod meta \<and> \<not> cf_checksum cfg) then (Inr False, st)
              else case tr_stat (es_dst E) rel (en_dst st) of
                (Inl x, d1) \<Rightarrow> (Inr False, st\<lparr>en_dst := d1\<rparr>)
              | (Inr dm, d1) \<Rightarrow>
                  if \<not> (fm_size dm = e_size e \<and> fm_mod dm = e_mod e) then (Inr False, st\<lparr>en_dst := d1\<rparr>)
                  else if e_digest e = '''' then (Inr True, drop_index lib a rel (st\<lparr>en_dst := d1\<rparr>))
                  else case fileDigestMatches (el_hash lib) (at_close a 2) (es_dst E) rel (e_digest e) d1 of
                    (Inl x, d2) \<Rightarrow> (Inl (tx_failed x), st\<lparr>en_dst := d2\<rparr>)
                  | (Inr False, d2) \<Rightarrow> (Inr True, drop_index lib a rel (st\<lparr>en_dst := d2\<rparr>))
                  | (Inr True, d2) \<Rightarrow>
                      (case fileDigestMatches (el_hash lib) (at_close a 3) (es_src E) rel (e_digest e) (en_src st) of
                         (Inl x, s1) \<Rightarrow> (Inl (tx_failed x), st\<lparr>en_dst := d2, en_src := s1\<rparr>)
                       | (Inr True, s1) \<Rightarrow> (Inl (no_bytes SSkipped None), st\<lparr>en_dst := d2, en_src := s1\<rparr>)
                       | (Inr False, s1) \<Rightarrow> (Inr True, drop_index lib a rel (st\<lparr>en_dst := d2, en_src := s1\<rparr>))))"

text \<open>Size and time as in the listing: skipped without a look at the content.\<close>

definition try_same ::
  "config \<Rightarrow> ('s, 'v, 'd, 'w) endpoints \<Rightarrow> file_meta \<Rightarrow> bool \<Rightarrow> ('s, 'd) engine \<Rightarrow> bool \<times> ('s, 'd) engine" where
  "try_same cfg E meta force st =
     (if cf_checksum cfg \<or> force then (False, st)
      else case tr_stat (es_dst E) (fm_rel meta) (en_dst st) of
        (Inl e, d1) \<Rightarrow> (False, st\<lparr>en_dst := d1\<rparr>)
      | (Inr dm, d1) \<Rightarrow> (fm_size dm = fm_size meta \<and> fm_mod dm = fm_mod meta, st\<lparr>en_dst := d1\<rparr>))"

section \<open>The first pass\<close>

definition cdc_avg :: "'s attempt \<Rightarrow> u32" where
  "cdc_avg a = (if at_avg a = 0 then at_frame a else at_avg a)"

definition cdc_options :: "'s attempt \<Rightarrow> options" where
  "cdc_options a = \<lparr>o_avg = cdc_avg a, o_min = 0, o_max = 0, o_keep = False\<rparr>"

text \<open>The generation check after a read: \<open>gone\<close> and \<open>changed\<close> are the texts of its two errors.\<close>

definition same_generation ::
  "string \<Rightarrow> string \<Rightarrow> ('s, 'v, 'd, 'w) endpoints \<Rightarrow> file_meta \<Rightarrow> 's \<Rightarrow> goerr option \<times> 's" where
  "same_generation gone changed E meta s =
     (case tr_stat (es_src E) (fm_rel meta) s of
        (Inl e, s1) \<Rightarrow> (Some (Unstable (Wrap gone e)), s1)
      | (Inr sm, s1) \<Rightarrow>
          (if fm_size sm \<noteq> fm_size meta \<or> fm_mod sm \<noteq> fm_mod meta then Some (Unstable (Msg changed)) else None, s1))"

definition try_sign ::
  "engine_lib \<Rightarrow> 's attempt \<Rightarrow> ('s, 'v, 'd, 'w) endpoints \<Rightarrow> file_meta \<Rightarrow> 's \<Rightarrow> (signature res \<times> 's) option" where
  "try_sign lib a E meta s =
     (case tr_open (es_src E) (fm_rel meta) s of
        (Inl e, s1) \<Rightarrow> Some (Inl e, s1)
      | (Inr r, s1) \<Rightarrow>
          (case ChunkReader (el_hash lib) r (fm_size meta) (cdc_options a) of
             None \<Rightarrow> None
           | Some (Inl e) \<Rightarrow> Some (Inl e, s1)
           | Some (Inr sg) \<Rightarrow>
               (case at_close a 0 of
                  Some e \<Rightarrow> Some (Inl e, s1)
                | None \<Rightarrow>
                    (case same_generation ''source unavailable after read: %w'' ''source changed during read'' E meta (at_live a 0 s1) of
                       (Some e, s2) \<Rightarrow> Some (Inl e, s2)
                     | (None, s2) \<Rightarrow> Some (Inr sg, s2)))))"

section \<open>The signature of the destination\<close>

text \<open>From the index, if the live content still has the cached digest.\<close>

definition cached_signature ::
  "config \<Rightarrow> engine_lib \<Rightarrow> 's attempt \<Rightarrow> ('s, 'v, 'd, 'w) endpoints \<Rightarrow> file_meta \<Rightarrow> bool \<Rightarrow> ('s, 'd) engine
     \<Rightarrow> signature res \<times> ('s, 'd) engine" where
  "cached_signature cfg lib a E meta force st =
     (let rel = fm_rel meta in
      case en_index st of
        None \<Rightarrow> (Inr empty_signature, st)
      | Some c \<Rightarrow>
          if cf_checksum cfg \<or> force then (Inr empty_signature, st)
          else case tr_stat (es_dst E) rel (en_dst st) of
            (Inl e, d1) \<Rightarrow> (Inr empty_signature, st\<lparr>en_dst := d1\<rparr>)
          | (Inr dm, d1) \<Rightarrow>
              (case index_get (el_unsig lib) (el_cwd lib) c rel (fm_size dm) (fm_mod dm) (cdc_avg a) of
                 None \<Rightarrow> (Inr empty_signature, st\<lparr>en_dst := d1\<rparr>)
               | Some cached \<Rightarrow>
                   (case fileDigestMatches (el_hash lib) (at_close a 4) (es_dst E) rel (digest_string (s_digest cached)) d1 of
                      (Inl e, d2) \<Rightarrow> (Inl e, st\<lparr>en_dst := d2\<rparr>)
                    | (Inr True, d2) \<Rightarrow> (Inr cached, st\<lparr>en_dst := d2\<rparr>)
                    | (Inr False, d2) \<Rightarrow> (Inr empty_signature, drop_index lib a rel (st\<lparr>en_dst := d2\<rparr>)))))"

definition dest_signature ::
  "config \<Rightarrow> engine_lib \<Rightarrow> 's attempt \<Rightarrow> ('s, 'v, 'd, 'w) endpoints \<Rightarrow> file_meta \<Rightarrow> bool \<Rightarrow> ('s, 'd) engine
     \<Rightarrow> signature res \<times> ('s, 'd) engine" where
  "dest_signature cfg lib a E meta force st =
     (case cached_signature cfg lib a E meta force st of
        (Inl e, st1) \<Rightarrow> (Inl e, st1)
      | (Inr sg, st1) \<Rightarrow>
          if s_chunks sg \<noteq> [] then (Inr sg, st1)
          else (case tr_sig (es_dst E) (fm_rel meta) (en_dst st1) of (g, d1) \<Rightarrow> (g, st1\<lparr>en_dst := d1\<rparr>)))"

section \<open>The second pass\<close>

record xfer =
  xf_payload :: int
  xf_wired :: int
  xf_sent :: int

text \<open>The callback: a missing chunk is compressed and sent, one the destination has is reused, or sent in full.\<close>

definition xfer_chunk ::
  "engine_lib \<Rightarrow> 's attempt \<Rightarrow> ('d, 'w) backend \<Rightarrow> signature \<Rightarrow> plan \<Rightarrow> (('w \<times> 'd) \<times> xfer) callback" where
  "xfer_chunk lib a D destSig pl st c =
     (let (wd, x) = st; off = c_offset c in
      case at_ctx a off of
        Some e \<Rightarrow> (st, Some e)
      | None \<Rightarrow>
          (case c_data c of
             None \<Rightarrow> (st, Some (Msg ''missing chunk data''))
           | Some data \<Rightarrow>
               if c_digest c \<in> c_digest ` set (p_missing pl) \<or> s_chunks destSig = [] then
                 (case Encode (el_codec lib) (at_codec a) data of
                    Inl e \<Rightarrow> (st, Some e)
                  | Inr (codec, enc) \<Rightarrow>
                      (case at_wait a off of
                         Some e \<Rightarrow> (st, Some e)
                       | None \<Rightarrow>
                           (case tr_step D (SWrite off codec (int (length data)) enc) wd of
                              (wd', Some e) \<Rightarrow> ((wd', x), Some e)
                            | (wd', None) \<Rightarrow>
                                ((wd', x\<lparr>xf_payload := xf_payload x + int (length data), xf_wired := xf_wired x + int (length enc),
                                         xf_sent := xf_sent x + 1\<rparr>), None))))
               else
                 (case at_wait a off of
                    Some e \<Rightarrow> (st, Some e)
                  | None \<Rightarrow>
                      if SupportsReuseChunk (tr_caps D) \<and> s_chunks destSig \<noteq> [] then
                        (let re = reuse_at (p_reuse pl) off in
                         case tr_step D (SReuse (re_new re) (re_old re) (re_digest re) (re_length re)) wd of
                           (wd', e) \<Rightarrow> ((wd', x), e))
                      else
                        (case tr_step D (SWrite off CodecNone (int (length data)) data) wd of
                           (wd', Some e) \<Rightarrow> ((wd', x), Some e)
                         | (wd', None) \<Rightarrow> ((wd', x\<lparr>xf_wired := xf_wired x + int (length data)\<rparr>), None)))))"

text \<open>
  From the journal's in-progress entry to the commit and the records made of it. The session is aborted on
  every failure before the commit.
\<close>

definition try_commit ::
  "config \<Rightarrow> engine_lib \<Rightarrow> 's attempt \<Rightarrow> ('s, 'v, 'd, 'w) endpoints \<Rightarrow> file_meta \<Rightarrow> signature \<Rightarrow> plan \<Rightarrow> xfer
     \<Rightarrow> 'w \<times> 'd \<Rightarrow> ('s, 'd) engine \<Rightarrow> try_result \<times> ('s, 'd) engine" where
  "try_commit cfg lib a E meta sg pl x wd st =
     (case tr_step (es_dst E) (SCommit (s_digest sg) (fm_mode meta) (Some (fm_mod meta))) wd of
        (wd', Some e) \<Rightarrow> (tx_failed e, st\<lparr>en_dst := aborted (es_dst E) wd'\<rparr>)
      | ((w', d'), None) \<Rightarrow>
          let st1 = st\<lparr>en_dst := d'\<rparr>;
              st2 = (case en_index st1 of
                       None \<Rightarrow> st1
                     | Some c \<Rightarrow> st1\<lparr>en_index := Some (fst (index_put (el_sig lib) (at_index_fault a) (el_cwd lib) (fm_rel meta)
                                  (s_size sg) (fm_mod meta) (cdc_avg a) (strip_data sg) c))\<rparr>);
              fin = \<lparr>tx_bytes = xf_payload x, tx_wired = xf_wired x, tx_reused = int (length (p_reuse pl)), tx_sent = xf_sent x,
                     tx_status = SOk, tx_err = None\<rparr> in
          (case en_journal st2 of
             None \<Rightarrow> (fin, st2)
           | Some jf \<Rightarrow>
               (case journal_put (el_entry lib) (at_end_fault a) (at_now a)
                       \<lparr>e_job = cf_job cfg, e_rel = fm_rel meta, e_digest = digest_string (s_digest sg), e_size = fm_size meta,
                        e_mod = fm_mod meta, e_chunks = int (length (s_chunks sg)), e_attempts = 0, e_status = StatusComplete,
                        e_error = '''', e_updated = 0\<rparr> jf of
                  (jf', Some e) \<Rightarrow> (tx_failed (Wrap ''journal put: %w'' e), st2\<lparr>en_journal := Some jf'\<rparr>)
                | (jf', None) \<Rightarrow> (fin, st2\<lparr>en_journal := Some jf'\<rparr>))))"

definition try_write ::
  "config \<Rightarrow> engine_lib \<Rightarrow> 's attempt \<Rightarrow> ('s, 'v, 'd, 'w) endpoints \<Rightarrow> file_meta \<Rightarrow> signature \<Rightarrow> signature \<Rightarrow> plan
     \<Rightarrow> ('s, 'd) engine \<Rightarrow> (try_result \<times> ('s, 'd) engine) option" where
  "try_write cfg lib a E meta sg destSig pl st =
     (case tr_begin (es_dst E) (fm_rel meta) (s_size sg) (en_dst st) of
        (Inl e, d1) \<Rightarrow> Some (tx_failed e, st\<lparr>en_dst := d1\<rparr>)
      | (Inr w, d1) \<Rightarrow>
          (case tr_open (es_src E) (fm_rel meta) (at_live a 1 (en_src st)) of
             (Inl e, s1) \<Rightarrow> Some (tx_failed e, st\<lparr>en_src := s1, en_dst := aborted (es_dst E) (w, d1)\<rparr>)
           | (Inr r, s1) \<Rightarrow>
               (case StreamChunks (el_hash lib) r (fm_size meta) (cdc_options a) (xfer_chunk lib a (es_dst E) destSig pl)
                       ((w, d1), \<lparr>xf_payload = 0, xf_wired = 0, xf_sent = 0\<rparr>) of
                  None \<Rightarrow> None
                | Some ((wd, x), Inl e) \<Rightarrow> Some (tx_failed e, st\<lparr>en_src := s1, en_dst := aborted (es_dst E) wd\<rparr>)
                | Some ((wd, x), Inr sg2) \<Rightarrow>
                    if at_close a 1 \<noteq> None
                    then Some (tx_failed (the (at_close a 1)), st\<lparr>en_src := s1, en_dst := aborted (es_dst E) wd\<rparr>)
                    else if s_digest sg2 \<noteq> s_digest sg \<or> s_size sg2 \<noteq> s_size sg
                    then Some (tx_failed (Unstable (Msg ''source changed during transfer read'')),
                               st\<lparr>en_src := s1, en_dst := aborted (es_dst E) wd\<rparr>)
                    else
                      (case same_generation ''source unavailable before finalize: %w'' ''source changed before finalize'' E meta (at_live a 2 s1) of
                         (Some e, s2) \<Rightarrow> Some (tx_failed e, st\<lparr>en_src := s2, en_dst := aborted (es_dst E) wd\<rparr>)
                       | (None, s2) \<Rightarrow> Some (try_commit cfg lib a E meta sg pl x wd (st\<lparr>en_src := s2\<rparr>))))))"

text \<open>What a dry run reports.\<close>

definition dry_result :: "signature \<Rightarrow> signature \<Rightarrow> plan \<Rightarrow> try_result" where
  "dry_result sg destSig pl =
     (let payload = sum_list (map (\<lambda>c. int (unat (c_length c))) (p_missing pl)) in
      \<lparr>tx_bytes = (if payload = 0 \<and> s_digest sg \<noteq> s_digest destSig then s_size sg else payload), tx_wired = 0,
       tx_reused = int (length (p_reuse pl)), tx_sent = int (length (p_missing pl)), tx_status = SDry, tx_err = None\<rparr>)"

definition try_regular ::
  "config \<Rightarrow> engine_lib \<Rightarrow> 's attempt \<Rightarrow> ('s, 'v, 'd, 'w) endpoints \<Rightarrow> file_meta \<Rightarrow> ('s, 'd) engine
     \<Rightarrow> (try_result \<times> ('s, 'd) engine) option" where
  "try_regular cfg lib a E meta st =
     (case try_resume cfg lib a E meta st of
        (Inl res, st1) \<Rightarrow> Some (res, st1)
      | (Inr force, st1) \<Rightarrow>
          (case try_same cfg E meta force st1 of
             (True, st2) \<Rightarrow> Some (no_bytes SSkipped None, st2)
           | (False, st2) \<Rightarrow>
               (case try_sign lib a E meta (en_src st2) of
                  None \<Rightarrow> None
                | Some (Inl e, s3) \<Rightarrow> Some (tx_failed e, st2\<lparr>en_src := s3\<rparr>)
                | Some (Inr sg, s3) \<Rightarrow>
                    (case dest_signature cfg lib a E meta force (st2\<lparr>en_src := s3\<rparr>) of
                       (Inl e, st4) \<Rightarrow> Some (tx_failed e, st4)
                     | (Inr destSig, st4) \<Rightarrow>
                         if \<not> force \<and> \<not> NeedsTransfer sg destSig (cf_checksum cfg) \<and> s_digest sg = s_digest destSig
                         then Some (no_bytes SSkipped None, st4)
                         else let pl = Diff sg destSig in
                           if cf_dry cfg then Some (dry_result sg destSig pl, st4)
                           else (case en_journal st4 of
                             None \<Rightarrow> try_write cfg lib a E meta sg destSig pl st4
                           | Some jf \<Rightarrow>
                               (case journal_put (el_entry lib) (at_begin_fault a) (at_now a)
                                       \<lparr>e_job = cf_job cfg, e_rel = fm_rel meta, e_digest = digest_string (s_digest sg),
                                        e_size = fm_size meta, e_mod = fm_mod meta, e_chunks = 0, e_attempts = 0,
                                        e_status = StatusInProgress, e_error = '''', e_updated = 0\<rparr> jf of
                                  (jf', Some e) \<Rightarrow> Some (tx_failed (Wrap ''journal put: %w'' e), st4\<lparr>en_journal := Some jf'\<rparr>)
                                | (jf', None) \<Rightarrow> try_write cfg lib a E meta sg destSig pl (st4\<lparr>en_journal := Some jf'\<rparr>)))))))"

text \<open>\<open>None\<close> is a chunker that does not return.\<close>

definition tryTransfer ::
  "config \<Rightarrow> engine_lib \<Rightarrow> 's attempt \<Rightarrow> ('s, 'v, 'd, 'w) endpoints \<Rightarrow> file_meta \<Rightarrow> ('s, 'd) engine
     \<Rightarrow> (try_result \<times> ('s, 'd) engine) option" where
  "tryTransfer cfg lib a E meta st =
     (if mode_is_dir (fm_mode meta) then Some (try_dir cfg E meta st)
      else if mode_is_symlink (fm_mode meta) then Some (try_symlink cfg E meta st)
      else if cf_stable cfg > 0 \<and> \<not> UnchangedFor (at_now a)
                \<lparr>fi_rel = '''', fi_abs = '''', fi_size = fm_size meta, fi_mod = fm_mod meta, fi_mode = 0, fi_dir = False, fi_link = False\<rparr>
                (cf_stable cfg)
      then Some (tx_failed (Unstable (Msg ''file not stable yet'')), st)
      else try_regular cfg lib a E meta st)"

section \<open>Retries\<close>

record file_result =
  fr_copied :: int
  fr_would :: int
  fr_skipped :: int
  fr_failed :: int
  fr_handled :: bool
  fr_bytes :: int
  fr_wired :: int
  fr_reused :: int
  fr_sent :: int
  fr_attempts :: int
  fr_err :: "goerr option"

definition empty_result :: "int \<Rightarrow> file_result" where
  "empty_result n =
     \<lparr>fr_copied = 0, fr_would = 0, fr_skipped = 0, fr_failed = 0, fr_handled = False, fr_bytes = 0, fr_wired = 0,
      fr_reused = 0, fr_sent = 0, fr_attempts = n, fr_err = None\<rparr>"

definition counts_of :: "try_result \<Rightarrow> file_result \<Rightarrow> file_result" where
  "counts_of r f = f\<lparr>fr_bytes := tx_bytes r, fr_wired := tx_wired r, fr_reused := tx_reused r, fr_sent := tx_sent r\<rparr>"

text \<open>A failed entry of the journal; the error of recording it is dropped.\<close>

definition put_failed ::
  "config \<Rightarrow> engine_lib \<Rightarrow> 's attempt \<Rightarrow> string \<Rightarrow> int \<Rightarrow> goerr \<Rightarrow> ('s, 'd) engine \<Rightarrow> ('s, 'd) engine" where
  "put_failed cfg lib a rel n e st =
     (case en_journal st of
        None \<Rightarrow> st
      | Some jf \<Rightarrow>
          st\<lparr>en_journal := Some (fst (journal_put (el_entry lib) (at_end_fault a) (at_now a)
               \<lparr>e_job = cf_job cfg, e_rel = rel, e_digest = '''', e_size = 0, e_mod = 0, e_chunks = 0, e_attempts = n,
                e_status = StatusFailed, e_error = err_text e, e_updated = 0\<rparr> jf))\<rparr>)"

text \<open>
  \<open>n\<close> attempts have been made; \<open>att n\<close> is what attempt \<open>n\<close> meets and \<open>slp n\<close> how the pause after it ends.
\<close>

function transfer_loop ::
  "config \<Rightarrow> engine_lib \<Rightarrow> (int \<Rightarrow> 's attempt) \<Rightarrow> (int \<Rightarrow> goerr option) \<Rightarrow> ('s, 'v, 'd, 'w) endpoints \<Rightarrow> int \<Rightarrow> file_meta
     \<Rightarrow> ('s, 'd) engine \<Rightarrow> (file_result \<times> ('s, 'd) engine) option" where
  "transfer_loop cfg lib att slp E n meta st =
     (case tryTransfer cfg lib (att (n + 1)) E meta st of
        None \<Rightarrow> None
      | Some (r, st1) \<Rightarrow>
          let f = empty_result (n + 1) in
          (case tx_status r of
             SSkipped \<Rightarrow> Some (f\<lparr>fr_skipped := 1\<rparr>, st1)
           | SDry \<Rightarrow> Some (counts_of r (f\<lparr>fr_would := 1\<rparr>), st1)
           | SOk \<Rightarrow> if mode_is_dir (fm_mode meta) then Some (f\<lparr>fr_handled := True\<rparr>, st1)
                    else Some (counts_of r (f\<lparr>fr_copied := 1\<rparr>), st1)
           | SFailed \<Rightarrow>
               (case tx_err r of
                  None \<Rightarrow> Some (f\<lparr>fr_failed := 1\<rparr>, st1)
                | Some e \<Rightarrow>
                    if isUnstable e \<and> \<not> (cf_skip_unstable cfg \<or> n + 1 \<ge> cf_attempts cfg) then
                      (case slp (n + 1) of
                         Some e' \<Rightarrow> Some (f\<lparr>fr_failed := 1, fr_err := Some e'\<rparr>, st1)
                       | None \<Rightarrow>
                           (case tr_stat (es_src E) (fm_rel meta) (en_src st1) of
                              (Inr nm, s2) \<Rightarrow> transfer_loop cfg lib att slp E (n + 1) nm (st1\<lparr>en_src := s2\<rparr>)
                            | (Inl x, s2) \<Rightarrow> transfer_loop cfg lib att slp E (n + 1) meta (st1\<lparr>en_src := s2\<rparr>)))
                    else Some (f\<lparr>fr_failed := 1, fr_err := Some e\<rparr>, put_failed cfg lib (att (n + 1)) (fm_rel meta) (n + 1) e st1))))"
  by pat_completeness auto

termination by (relation "measure (\<lambda>(cfg, lib, att, slp, E, n, meta, st). nat (cf_attempts cfg - n))") auto

declare transfer_loop.simps [simp del]

definition transferOne ::
  "config \<Rightarrow> engine_lib \<Rightarrow> (int \<Rightarrow> 's attempt) \<Rightarrow> (int \<Rightarrow> goerr option) \<Rightarrow> ('s, 'v, 'd, 'w) endpoints \<Rightarrow> file_meta
     \<Rightarrow> ('s, 'd) engine \<Rightarrow> (file_result \<times> ('s, 'd) engine) option" where
  "transferOne cfg lib att slp E meta st = transfer_loop cfg lib att slp E 0 meta st"

section \<open>Deleting what the source does not have\<close>

text \<open>The loops over the destination's listing; \<open>ctx k\<close> is the context before the \<open>k\<close>-th entry.\<close>

fun delete_files ::
  "('d, 'w) backend \<Rightarrow> string set \<Rightarrow> string list \<Rightarrow> (nat \<Rightarrow> goerr option) \<Rightarrow> file_meta list \<Rightarrow> nat \<Rightarrow> int \<Rightarrow> 'd
     \<Rightarrow> (int \<times> goerr option) \<times> 'd" where
  "delete_files D keep exclude ctx [] k n td = ((n, None), td)"
| "delete_files D keep exclude ctx (f # fs) k n td =
     (case ctx k of
        Some e \<Rightarrow> ((n, Some e), td)
      | None \<Rightarrow>
          if fm_rel f \<in> keep \<or> MatchExclude (fm_rel f) exclude \<or> mode_is_dir (fm_mode f)
          then delete_files D keep exclude ctx fs (k + 1) n td
          else (case tr_remove D (fm_rel f) td of
                  (Some e, td1) \<Rightarrow> ((n, Some (Wrap ''deleted %d then: %w'' e)), td1)
                | (None, td1) \<Rightarrow> delete_files D keep exclude ctx fs (k + 1) (n + 1) td1))"

fun delete_dirs ::
  "('d, 'w) backend \<Rightarrow> string set \<Rightarrow> string list \<Rightarrow> (nat \<Rightarrow> goerr option) \<Rightarrow> file_meta list \<Rightarrow> nat \<Rightarrow> int \<Rightarrow> 'd
     \<Rightarrow> (int \<times> goerr option) \<times> 'd" where
  "delete_dirs D keep exclude ctx [] k n td = ((n, None), td)"
| "delete_dirs D keep exclude ctx (f # fs) k n td =
     (if \<not> mode_is_dir (fm_mode f) then delete_dirs D keep exclude ctx fs (k + 1) n td
      else case ctx k of
        Some e \<Rightarrow> ((n, Some e), td)
      | None \<Rightarrow>
          if fm_rel f \<in> keep \<or> MatchExclude (fm_rel f) exclude then delete_dirs D keep exclude ctx fs (k + 1) n td
          else (case tr_remove D (fm_rel f) td of
                  (Some e, td1) \<Rightarrow> delete_dirs D keep exclude ctx fs (k + 1) n td1
                | (None, td1) \<Rightarrow> delete_dirs D keep exclude ctx fs (k + 1) (n + 1) td1))"

text \<open>The number of path components, by which \<open>sort.Slice\<close> puts the deepest first; \<open>srt\<close> is that sort.\<close>

definition depth :: "file_meta \<Rightarrow> nat" where "depth f = length (split_on CHR ''/'' (fm_rel f))"

definition deleteExtras ::
  "((file_meta \<Rightarrow> file_meta \<Rightarrow> bool) \<Rightarrow> file_meta list \<Rightarrow> file_meta list) \<Rightarrow> (nat \<Rightarrow> nat \<Rightarrow> goerr option) \<Rightarrow> ('d, 'w) backend
     \<Rightarrow> file_meta list \<Rightarrow> string list \<Rightarrow> 'd \<Rightarrow> (int \<times> goerr option) \<times> 'd" where
  "deleteExtras srt ctx D srcFiles exclude td =
     (let keep = fm_rel ` set srcFiles in
      case tr_walk D [] td of
        (Inl e, td1) \<Rightarrow> ((0, Some e), td1)
      | (Inr dstFiles, td1) \<Rightarrow>
          (case delete_files D keep exclude (ctx 0) dstFiles 0 0 td1 of
             ((n, Some e), td2) \<Rightarrow> ((n, Some e), td2)
           | ((n, None), td2) \<Rightarrow>
               delete_dirs D keep exclude (ctx 1) (srt (\<lambda>f g. depth f > depth g) dstFiles) 0 n td2))"

section \<open>A job\<close>

record stats =
  sx_copied :: int
  sx_would :: int
  sx_skipped :: int
  sx_failed :: int
  sx_deleted :: int
  sx_bytes :: int
  sx_payload :: int
  sx_wired :: int
  sx_reused :: int
  sx_sent :: int

definition no_stats :: stats where
  "no_stats = \<lparr>sx_copied = 0, sx_would = 0, sx_skipped = 0, sx_failed = 0, sx_deleted = 0, sx_bytes = 0, sx_payload = 0,
     sx_wired = 0, sx_reused = 0, sx_sent = 0\<rparr>"

definition add_result :: "file_result \<Rightarrow> stats \<Rightarrow> stats" where
  "add_result r x =
     x\<lparr>sx_copied := sx_copied x + fr_copied r, sx_would := sx_would x + fr_would r, sx_skipped := sx_skipped x + fr_skipped r,
       sx_failed := sx_failed x + fr_failed r, sx_bytes := sx_bytes x + fr_bytes r, sx_payload := sx_payload x + fr_bytes r,
       sx_wired := sx_wired x + fr_wired r, sx_reused := sx_reused x + fr_reused r, sx_sent := sx_sent x + fr_sent r\<rparr>"

text \<open>
  What the loop over the files meets at the \<open>k\<close>-th file, what the context says before the deletion (\<open>je_end\<close>) and
  at the end (\<open>je_last\<close>).
\<close>

record 's job_env =
  je_ctx :: "nat \<Rightarrow> goerr option"
  je_att :: "nat \<Rightarrow> int \<Rightarrow> 's attempt"
  je_sleep :: "nat \<Rightarrow> int \<Rightarrow> goerr option"
  je_end :: "goerr option"
  je_last :: "goerr option"
  je_delete :: "nat \<Rightarrow> nat \<Rightarrow> goerr option"

text \<open>The worker's loop, in the order the files are taken from the channel.\<close>

fun run_files ::
  "config \<Rightarrow> engine_lib \<Rightarrow> 's job_env \<Rightarrow> ('s, 'v, 'd, 'w) endpoints \<Rightarrow> file_meta list \<Rightarrow> nat \<Rightarrow> stats \<Rightarrow> ('s, 'd) engine
     \<Rightarrow> (stats \<times> ('s, 'd) engine) option" where
  "run_files cfg lib env E [] k x st = Some (x, st)"
| "run_files cfg lib env E (f # fs) k x st =
     (case je_ctx env k of
        Some e \<Rightarrow> run_files cfg lib env E fs (k + 1) (x\<lparr>sx_skipped := sx_skipped x + 1\<rparr>) st
      | None \<Rightarrow>
          (case transferOne cfg lib (je_att env k) (je_sleep env k) E f st of
             None \<Rightarrow> None
           | Some (r, st1) \<Rightarrow> run_files cfg lib env E fs (k + 1) (add_result r x) st1))"

text \<open>From the end of the workers to the result.\<close>

definition finish_run ::
  "((file_meta \<Rightarrow> file_meta \<Rightarrow> bool) \<Rightarrow> file_meta list \<Rightarrow> file_meta list) \<Rightarrow> config \<Rightarrow> 's job_env \<Rightarrow> ('s, 'v, 'd, 'w) endpoints
     \<Rightarrow> file_meta list \<Rightarrow> stats \<Rightarrow> ('s, 'd) engine \<Rightarrow> (stats \<times> goerr option) \<times> ('s, 'd) engine" where
  "finish_run srt cfg env E files x st =
     (let result = (\<lambda>x st. ((x, if sx_failed x > 0 then Some (Msg ''%d file(s) failed'') else je_last env), st)) in
      if cf_sync cfg \<and> cf_delete cfg \<and> \<not> cf_dry cfg \<and> je_end env = None \<and> sx_failed x = 0 then
        (case deleteExtras srt (je_delete env) (es_dst E) files (cf_exclude cfg) (en_dst st) of
           ((n, Some e), d1) \<Rightarrow> ((x\<lparr>sx_deleted := n\<rparr>, Some e), st\<lparr>en_dst := d1\<rparr>)
         | ((n, None), d1) \<Rightarrow> result (x\<lparr>sx_deleted := n\<rparr>) (st\<lparr>en_dst := d1\<rparr>))
      else result x st)"

text \<open>The first 64 KiB of the first readable, non-empty regular file, for the compression probe.\<close>

fun probe_sample :: "('s, 'v) backend \<Rightarrow> file_meta list \<Rightarrow> 's \<Rightarrow> bytes \<times> 's" where
  "probe_sample S [] s = ([], s)"
| "probe_sample S (f # fs) s =
     (if fm_size f = 0 \<or> mode_is_dir (fm_mode f) \<or> mode_is_symlink (fm_mode f) then probe_sample S fs s
      else case tr_open S (fm_rel f) s of
        (Inl e, s1) \<Rightarrow> probe_sample S fs s1
      | (Inr r, s1) \<Rightarrow> (case read_at_least r 65536 of (b, _, _) \<Rightarrow> (b, s1)))"

definition worker_count :: "int \<Rightarrow> caps \<Rightarrow> int" where
  "worker_count streams c =
     (let w = (if streams < 1 then 1 else streams); w' = (if w > 32 then 32 else w) in
      if \<not> SupportsMultiplex c \<and> w' > 1 then 1 else w')"

text \<open>\<open>Run\<close> from the walk on; the probe's sample is what the tuner is given.\<close>

definition run_job ::
  "((file_meta \<Rightarrow> file_meta \<Rightarrow> bool) \<Rightarrow> file_meta list \<Rightarrow> file_meta list) \<Rightarrow> config \<Rightarrow> engine_lib \<Rightarrow> (bytes \<Rightarrow> 's job_env)
     \<Rightarrow> ('s, 'v, 'd, 'w) endpoints \<Rightarrow> ('s, 'd) engine \<Rightarrow> ((stats \<times> goerr option) \<times> ('s, 'd) engine) option" where
  "run_job srt cfg lib envs E st =
     (case tr_walk (es_src E) (cf_exclude cfg) (en_src st) of
        (Inl e, s1) \<Rightarrow> Some ((no_stats, Some e), st\<lparr>en_src := s1\<rparr>)
      | (Inr files, s1) \<Rightarrow>
          (case probe_sample (es_src E) files s1 of
             (smp, s2) \<Rightarrow>
               (case run_files cfg lib (envs smp) E files 0 no_stats (st\<lparr>en_src := s2\<rparr>) of
                  None \<Rightarrow> None
                | Some (x, st1) \<Rightarrow> Some (finish_run srt cfg (envs smp) E files x st1))))"

text \<open>Where the journal and the index live: in the destination, or in the configuration directory of a resumable job.\<close>

definition state_root :: "config \<Rightarrow> string \<Rightarrow> string \<Rightarrow> string \<Rightarrow> string \<Rightarrow> string res \<Rightarrow> string res" where
  "state_root cfg scheme dstRoot configDir envDir userDir =
     (if scheme = ''file'' then Inr dstRoot
      else if cf_resume cfg then
        (let d0 = (if configDir = '''' then envDir else configDir);
             d1 = (if d0 = '''' then (case userDir of Inr h \<Rightarrow> PathJoin [h, ''quiksync''] | Inl e \<Rightarrow> ''.'') else d0) in
         case SanitizeJobID (cf_job cfg) of Inl e \<Rightarrow> Inl e | Inr safe \<Rightarrow> Inr (PathJoin [d1, ''jobs'', safe]))
      else Inr '''')"

definition run_defaults :: "config \<Rightarrow> config" where
  "run_defaults cfg =
     cfg\<lparr>cf_attempts := (if cf_attempts cfg \<le> 0 then 5 else cf_attempts cfg),
         cf_job := (if cf_job cfg = '''' then ''default'' else cf_job cfg)\<rparr>"

section \<open>Verification\<close>

text \<open>What closing the readers of a file returns: of the source, of the destination.\<close>

type_synonym closings = "string \<Rightarrow> goerr option \<times> goerr option"

text \<open>One file: its mismatch, if any, and the two states.\<close>

definition verify_file ::
  "(bytes \<Rightarrow> digest) \<Rightarrow> closings \<Rightarrow> ('s, 'v) backend \<Rightarrow> ('d, 'w) backend \<Rightarrow> file_meta \<Rightarrow> 's \<times> 'd \<Rightarrow> string option \<times> 's \<times> 'd" where
  "verify_file H cl S D f st =
     (let (ts, td) = st; rel = fm_rel f in
      case tr_open S rel ts of
        (Inl e, ts1) \<Rightarrow> (Some (rel @ '': source open: '' @ err_text e), ts1, td)
      | (Inr sr, ts1) \<Rightarrow>
          (case HashFile H sr of
             Inl e \<Rightarrow> (Some (rel @ '': source hash: '' @ err_text e), ts1, td)
           | Inr (sd, _) \<Rightarrow>
               (case fst (cl rel) of
                  Some e \<Rightarrow> (Some (rel @ '': source close: '' @ err_text e), ts1, td)
                | None \<Rightarrow>
                    (case tr_open D rel td of
                       (Inl e, td1) \<Rightarrow> (Some (rel @ '': missing on dest''), ts1, td1)
                     | (Inr dr, td1) \<Rightarrow>
                         (case HashFile H dr of
                            Inl e \<Rightarrow> (Some (rel @ '': dest hash: '' @ err_text e), ts1, td1)
                          | Inr (dd, _) \<Rightarrow>
                              (case snd (cl rel) of
                                 Some e \<Rightarrow> (Some (rel @ '': dest close: '' @ err_text e), ts1, td1)
                               | None \<Rightarrow> (if sd \<noteq> dd then Some (rel @ '': digest mismatch'') else None, ts1, td1)))))))"

fun verify_files ::
  "(bytes \<Rightarrow> digest) \<Rightarrow> closings \<Rightarrow> ('s, 'v) backend \<Rightarrow> ('d, 'w) backend \<Rightarrow> file_meta list \<Rightarrow> 's \<times> 'd \<Rightarrow> string list \<times> 's \<times> 'd" where
  "verify_files H cl S D [] st = ([], st)"
| "verify_files H cl S D (f # fs) st =
     (if mode_is_dir (fm_mode f) then verify_files H cl S D fs st
      else case verify_file H cl S D f st of
        (m, st1) \<Rightarrow> (case verify_files H cl S D fs st1 of
                      (ms, st2) \<Rightarrow> (case m of Some x \<Rightarrow> x # ms | None \<Rightarrow> ms, st2)))"

definition VerifyFiltered ::
  "(bytes \<Rightarrow> digest) \<Rightarrow> closings \<Rightarrow> ('s, 'v) backend \<Rightarrow> ('d, 'w) backend \<Rightarrow> string list \<Rightarrow> 's \<times> 'd \<Rightarrow> string list res \<times> 's \<times> 'd" where
  "VerifyFiltered H cl S D exclude st =
     (let (ts, td) = st in
      case tr_walk S exclude ts of
        (Inl e, ts1) \<Rightarrow> (Inl e, ts1, td)
      | (Inr files, ts1) \<Rightarrow> (case verify_files H cl S D files (ts1, td) of (ms, st') \<Rightarrow> (Inr ms, st')))"

section \<open>Lemmas: one file\<close>

text \<open>A session's state reached by writes and reuses only.\<close>

definition quiet_run :: "('d, 'w) backend \<Rightarrow> 'w \<times> 'd \<Rightarrow> 'w \<times> 'd \<Rightarrow> bool" where
  "quiet_run D wd wd' \<longleftrightarrow> (\<exists>as es. run_ops (tr_step D) as wd = (wd', es) \<and> (\<forall>o' \<in> set as. writes o'))"

lemma quiet_refl: "quiet_run D wd wd"
  unfolding quiet_run_def by (rule exI [of _ "[]"]) simp

lemma quiet_step: "tr_step D op wd = (wd', e) \<Longrightarrow> writes op \<Longrightarrow> quiet_run D wd wd'"
  unfolding quiet_run_def by (rule exI [of _ "[op]"]) simp

lemma quiet_trans: "quiet_run D wd wd1 \<Longrightarrow> quiet_run D wd1 wd' \<Longrightarrow> quiet_run D wd wd'"
  unfolding quiet_run_def
proof (elim exE conjE)
  fix as es bs fs
  assume "run_ops (tr_step D) as wd = (wd1, es)" "\<forall>o' \<in> set as. writes o'"
    "run_ops (tr_step D) bs wd1 = (wd', fs)" "\<forall>o' \<in> set bs. writes o'"
  then show "\<exists>as es. run_ops (tr_step D) as wd = (wd', es) \<and> (\<forall>o' \<in> set as. writes o')"
    by (intro exI [of _ "as @ bs"] exI [of _ "es @ fs"]) (auto simp: run_ops_append)
qed

lemma xfer_chunk_quiet: "xfer_chunk lib a D dsig pl (wd, x) c = ((wd', x'), e) \<Longrightarrow> quiet_run D wd wd'"
  by (auto simp: xfer_chunk_def Let_def split: option.splits if_splits sum.splits prod.splits intro: quiet_refl quiet_step)

lemma xfer_quiet:
  "run_cb (xfer_chunk lib a D dsig pl) cs (wd, x) = ((wd', x'), e) \<Longrightarrow> quiet_run D wd wd'"
proof (induction cs arbitrary: wd x)
  case (Cons c cs)
  obtain wd1 x1 e1 where s: "xfer_chunk lib a D dsig pl (wd, x) c = ((wd1, x1), e1)" by (metis prod.exhaust)
  note q = xfer_chunk_quiet [OF s]
  show ?case
  proof (cases e1)
    case (Some y)
    with Cons.prems s q show ?thesis by auto
  next
    case None
    with Cons.prems s have "run_cb (xfer_chunk lib a D dsig pl) cs (wd1, x1) = ((wd', x'), e)" by simp
    from quiet_trans [OF q Cons.IH [OF this]] show ?thesis .
  qed
qed (simp add: quiet_refl)

lemma drop_index_simps [simp]:
  "en_src (drop_index lib a rel st) = en_src st" "en_dst (drop_index lib a rel st) = en_dst st"
  by (simp_all add: drop_index_def split: option.split)

lemma put_failed_simps [simp]:
  "en_src (put_failed cfg lib a rel n e st) = en_src st" "en_dst (put_failed cfg lib a rel n e st) = en_dst st"
  by (simp_all add: put_failed_def split: option.split)

context store
begin

lemma run_ops_keeps:
  "run_ops (tr_step B) as (s, t) = ((s', t'), es) \<Longrightarrow> \<forall>a \<in> set as. writes a \<Longrightarrow> open_for (s, t) k \<Longrightarrow> usr k \<Longrightarrow>
   open_for (s', t') k \<and> cnt t' = cnt t"
proof (induction as arbitrary: s t es)
  case (Cons a as)
  obtain s1 t1 e es' where st: "tr_step B a (s, t) = ((s1, t1), e)" "run_ops (tr_step B) as (s1, t1) = ((s', t'), es')"
    using Cons.prems(1) by (auto split: prod.splits)
  from step [OF Cons.prems(3,4) st(1)] Cons.IH [OF st(2)] Cons.prems(2,4) show ?case by simp
qed simp

lemma quiet_keeps: "quiet_run B (s, t) (s', t') \<Longrightarrow> open_for (s, t) k \<Longrightarrow> usr k \<Longrightarrow> open_for (s', t') k \<and> cnt t' = cnt t"
  unfolding quiet_run_def using run_ops_keeps by blast

lemma quiet_aborted: "quiet_run B (s, t) wd \<Longrightarrow> open_for (s, t) k \<Longrightarrow> usr k \<Longrightarrow> cnt (aborted B wd) = cnt t"
  using quiet_keeps [of s t "fst wd" "snd wd" k] aborted_keeps [of "fst wd" "snd wd" k] by simp

lemma quiet_commit:
  "tr_begin B rel n t = (Inr s, t1) \<Longrightarrow> quiet_run B (s, t1) wd \<Longrightarrow> usr (nm rel) \<Longrightarrow>
   tr_step B (SCommit d m mt) wd = ((s', t'), None) \<Longrightarrow> \<exists>c. cnt t' (nm rel) = Some c \<and> H c = d"
  unfolding quiet_run_def using fresh_commit by blast

lemma digest_keeps: "fileDigestMatches h cl B rel want t = (r, t') \<Longrightarrow> cnt t' = cnt t"
  by (auto simp: fileDigestMatches_def split: prod.splits sum.splits option.splits dest: open_keeps)

end

locale transfer_stores =
  src: readable_store "es_src E" cntS nmS usrS ofS "el_hash lib" + dst: store "es_dst E" cntD nmD usrD ofD "el_hash lib"
  for E :: "('s, 'v, 'd, 'w) endpoints" and lib :: engine_lib and cntS nmS usrS ofS cntD nmD usrD ofD
begin

lemma resume_keeps:
  "try_resume cfg lib a E meta st = (r, st') \<Longrightarrow> cntS (en_src st') = cntS (en_src st) \<and> cntD (en_dst st') = cntD (en_dst st)"
  by (auto simp: try_resume_def Let_def split: option.splits prod.splits if_splits sum.splits bool.splits
      dest!: dst.stat dst.digest_keeps src.digest_keeps)

lemma resume_status:
  "try_resume cfg lib a E meta st = (Inl r, st') \<Longrightarrow> tx_status r \<noteq> SOk"
  by (auto simp: try_resume_def no_bytes_def Let_def split: option.splits prod.splits if_splits sum.splits bool.splits)

lemma same_keeps:
  "try_same cfg E meta force st = (r, st') \<Longrightarrow> en_src st' = en_src st \<and> cntD (en_dst st') = cntD (en_dst st)"
  by (auto simp: try_same_def split: if_splits prod.splits sum.splits dest!: dst.stat)

lemma signature_keeps:
  "dest_signature cfg lib a E meta force st = (r, st') \<Longrightarrow> en_src st' = en_src st \<and> cntD (en_dst st') = cntD (en_dst st)"
  by (auto simp: dest_signature_def cached_signature_def Let_def split: option.splits prod.splits if_splits sum.splits bool.splits
      dest!: dst.stat dst.digest_keeps dst.sig)

lemma sign_digest:
  assumes "try_sign lib a E meta s = Some (Inr sg, s')" and "unat (cdc_avg a) < 2 ^ 30" and "usrS (nmS (fm_rel meta))"
  shows "\<exists>b. cntS s (nmS (fm_rel meta)) = Some b \<and> s_digest sg = el_hash lib b"
proof -
  from assms(1) obtain r s1 where r: "tr_open (es_src E) (fm_rel meta) s = (Inr r, s1)"
    "ChunkReader (el_hash lib) r (fm_size meta) (cdc_options a) = Some (Inr sg)"
    by (auto simp: try_sign_def split: prod.splits sum.splits option.splits)
  have ok: "rd_ok r" using src.open_ok r(1) by blast
  from ChunkReader_digest [OF ok assms(2) r(2) [unfolded cdc_options_def]] src.open_reads [OF r(1) assms(3) ok]
  show ?thesis by blast
qed

end

context transfer_stores
begin

lemma commit_effect:
  assumes "tr_begin (es_dst E) (fm_rel meta) n d = (Inr w, d1)" and "quiet_run (es_dst E) (w, d1) wd"
    and "usrD (nmD (fm_rel meta))" and "try_commit cfg lib a E meta sg pl x wd st = (r, st')"
  shows "(\<forall>k. k \<noteq> nmD (fm_rel meta) \<longrightarrow> cntD (en_dst st') k = cntD d1 k) \<and> tx_status r \<noteq> SSkipped \<and> tx_status r \<noteq> SDry \<and>
    (tx_status r = SOk \<longrightarrow> (\<exists>c. cntD (en_dst st') (nmD (fm_rel meta)) = Some c \<and> el_hash lib c = s_digest sg))"
proof -
  let ?k = "nmD (fm_rel meta)"
  obtain w2 d2 where wd: "wd = (w2, d2)" by force
  note q = dst.quiet_keeps [OF assms(2) [unfolded wd] dst.begin_for [OF assms(1)] assms(3)]
  obtain w3 d3 e where c: "tr_step (es_dst E) (SCommit (s_digest sg) (fm_mode meta) (Some (fm_mod meta))) wd = ((w3, d3), e)"
    by (metis prod.exhaust)
  note s = dst.step [OF _ assms(3) c [unfolded wd], THEN conjunct2]
  from q dst.step [OF _ assms(3) c [unfolded wd]] have o3: "ofD (w3, d3) ?k" "\<forall>j. j \<noteq> ?k \<longrightarrow> cntD d3 j = cntD d1 j" by auto
  show ?thesis
  proof (cases e)
    case (Some y)
    with assms(4) c have "r = no_bytes SFailed e" "en_dst st' = aborted (es_dst E) (w3, d3)" by (auto simp: try_commit_def)
    with o3 dst.aborted_keeps [OF o3(1) assms(3)] show ?thesis by (simp add: no_bytes_def)
  next
    case None
    then have "en_dst st' = d3"
      using assms(4) c by (auto simp: try_commit_def Let_def split: option.splits prod.splits)
    moreover have "tx_status r = SOk \<or> tx_status r = SFailed"
      using assms(4) c None by (auto simp: try_commit_def no_bytes_def Let_def split: option.splits prod.splits)
    moreover have "\<exists>c. cntD d3 ?k = Some c \<and> el_hash lib c = s_digest sg"
      using dst.quiet_commit [OF assms(1,2,3)] c None by blast
    ultimately show ?thesis using o3 by auto
  qed
qed

lemma write_effect:
  assumes "try_write cfg lib a E meta sg dsig pl st = Some (r, st')" and "unat (cdc_avg a) < 2 ^ 30"
    and "usrS (nmS (fm_rel meta))" and "usrD (nmD (fm_rel meta))"
  shows "(\<forall>k. k \<noteq> nmD (fm_rel meta) \<longrightarrow> cntD (en_dst st') k = cntD (en_dst st) k) \<and> tx_status r \<noteq> SSkipped \<and> tx_status r \<noteq> SDry \<and>
    (tx_status r = SOk \<longrightarrow>
      (\<exists>c b. cntD (en_dst st') (nmD (fm_rel meta)) = Some c \<and> el_hash lib c = s_digest sg \<and>
         cntS (at_live a 1 (en_src st)) (nmS (fm_rel meta)) = Some b \<and> el_hash lib b = s_digest sg))"
proof -
  let ?k = "nmD (fm_rel meta)" and ?rel = "fm_rel meta"
  obtain bw d1 where bg: "tr_begin (es_dst E) ?rel (s_size sg) (en_dst st) = (bw, d1)" by force
  note kb = dst.begin_keeps [OF bg]
  show ?thesis
  proof (cases bw)
    case (Inl e)
    with assms(1) bg kb show ?thesis by (auto simp: try_write_def no_bytes_def)
  next
    case bw: (Inr w)
    note ow = dst.begin_for [OF bg [unfolded bw]]
    have ab: "cntD (aborted (es_dst E) wd) = cntD (en_dst st)" if "quiet_run (es_dst E) (w, d1) wd" for wd
      using dst.quiet_aborted [OF that ow assms(4)] kb by simp
    obtain ro s1 where op: "tr_open (es_src E) ?rel (at_live a 1 (en_src st)) = (ro, s1)" by force
    show ?thesis
    proof (cases ro)
      case (Inl e)
      with assms(1) bg bw op ab [OF quiet_refl] show ?thesis by (auto simp: try_write_def no_bytes_def)
    next
      case ro: (Inr rd)
      have ok: "rd_ok rd" using src.open_ok op ro by blast
      obtain wd x res where sc: "StreamChunks (el_hash lib) rd (fm_size meta) (cdc_options a) (xfer_chunk lib a (es_dst E) dsig pl)
          ((w, d1), \<lparr>xf_payload = 0, xf_wired = 0, xf_sent = 0\<rparr>) = Some ((wd, x), res)"
        using assms(1) bg bw op ro by (auto simp: try_write_def split: option.splits prod.splits)
      from StreamChunks_run [OF ok assms(2) sc [unfolded cdc_options_def]] obtain cs e where
        "run_cb (xfer_chunk lib a (es_dst E) dsig pl) cs ((w, d1), \<lparr>xf_payload = 0, xf_wired = 0, xf_sent = 0\<rparr>) = ((wd, x), e)"
        by blast
      note q = xfer_quiet [OF this]
      show ?thesis
      proof (cases res)
        case (Inl y)
        with assms(1) bg bw op ro sc ab [OF q] show ?thesis by (auto simp: try_write_def no_bytes_def)
      next
        case res: (Inr sg2)
        obtain ge s2 where g: "same_generation ''source unavailable before finalize: %w'' ''source changed before finalize'' E meta (at_live a 2 s1) = (ge, s2)"
          by force
        show ?thesis
        proof (cases "at_close a 1 \<noteq> None \<or> s_digest sg2 \<noteq> s_digest sg \<or> s_size sg2 \<noteq> s_size sg \<or> ge \<noteq> None")
          case True
          with assms(1) bg bw op ro sc res g have "en_dst st' = aborted (es_dst E) wd" "tx_status r = SFailed"
            by (auto simp: try_write_def no_bytes_def split: if_splits)
          with ab [OF q] show ?thesis by simp
        next
          case False
          with assms(1) bg bw op ro sc res g have tc: "try_commit cfg lib a E meta sg pl x wd (st\<lparr>en_src := s2\<rparr>) = (r, st')"
            by (auto simp: try_write_def split: if_splits)
          have "\<exists>b. cntS (at_live a 1 (en_src st)) (nmS ?rel) = Some b \<and> el_hash lib b = s_digest sg"
            using StreamChunks_digest [OF ok assms(2) sc [unfolded cdc_options_def res]]
              src.open_reads [OF op [unfolded ro] assms(3) ok] False by auto
          with commit_effect [OF bg [unfolded bw] q assms(4) tc] kb show ?thesis by auto
        qed
      qed
    qed
  qed
qed

text \<open>What an attempt at a regular file does to the two sides.\<close>

lemma regular_effect:
  assumes "try_regular cfg lib a E meta st = Some (r, st')" and "unat (cdc_avg a) < 2 ^ 30"
    and "usrS (nmS (fm_rel meta))" and "usrD (nmD (fm_rel meta))"
  shows "(\<forall>k. k \<noteq> nmD (fm_rel meta) \<longrightarrow> cntD (en_dst st') k = cntD (en_dst st) k) \<and>
    (tx_status r \<in> {SSkipped, SDry} \<longrightarrow> cntD (en_dst st') = cntD (en_dst st)) \<and>
    (tx_status r = SOk \<longrightarrow>
      (\<exists>b c s b'. cntS (en_src st) (nmS (fm_rel meta)) = Some b \<and> cntD (en_dst st') (nmD (fm_rel meta)) = Some c \<and>
         el_hash lib c = el_hash lib b \<and> cntS (at_live a 1 s) (nmS (fm_rel meta)) = Some b' \<and> el_hash lib b' = el_hash lib b))"
proof -
  obtain q1 st1 where r1: "try_resume cfg lib a E meta st = (q1, st1)" by force
  note k1 = resume_keeps [OF r1]
  show ?thesis
  proof (cases q1)
    case (Inl x)
    with assms(1) r1 k1 resume_status [OF r1 [unfolded Inl]] show ?thesis by (auto simp: try_regular_def)
  next
    case q1: (Inr force)
    obtain q2 st2 where r2: "try_same cfg E meta force st1 = (q2, st2)" by force
    note k2 = same_keeps [OF r2]
    show ?thesis
    proof (cases q2)
      case True
      with assms(1) r1 q1 r2 k1 k2 show ?thesis by (auto simp: try_regular_def no_bytes_def)
    next
      case q2: False
      obtain q3 s3 where r3: "try_sign lib a E meta (en_src st2) = Some (q3, s3)"
        using assms(1) r1 q1 r2 q2 by (auto simp: try_regular_def split: option.splits prod.splits)
      show ?thesis
      proof (cases q3)
        case (Inl e)
        with assms(1) r1 q1 r2 q2 r3 k1 k2 show ?thesis by (auto simp: try_regular_def no_bytes_def)
      next
        case q3: (Inr sg)
        from sign_digest [OF r3 [unfolded q3] assms(2,3)] k1 k2 obtain b where
          b: "cntS (en_src st) (nmS (fm_rel meta)) = Some b" "s_digest sg = el_hash lib b" by auto
        obtain q4 st4 where r4: "dest_signature cfg lib a E meta force (st2\<lparr>en_src := s3\<rparr>) = (q4, st4)" by force
        have k4: "cntD (en_dst st4) = cntD (en_dst st)" using signature_keeps [OF r4] k1 k2 by simp
        show ?thesis
        proof (cases q4)
          case (Inl e)
          with assms(1) r1 q1 r2 q2 r3 q3 r4 k4 show ?thesis by (auto simp: try_regular_def no_bytes_def)
        next
          case q4: (Inr dsig)
          consider "cntD (en_dst st') = cntD (en_dst st)" "tx_status r \<noteq> SOk"
            | st5 where "try_write cfg lib a E meta sg dsig (Diff sg dsig) st5 = Some (r, st')" "en_dst st5 = en_dst st4"
            using assms(1) r1 q1 r2 q2 r3 q3 r4 q4 k4
            by (auto simp: try_regular_def no_bytes_def dry_result_def Let_def split: if_splits option.splits prod.splits)
          then show ?thesis
          proof cases
            case 1
            then show ?thesis by simp
          next
            case 2
            from write_effect [OF 2(1) assms(2-4)] 2(2) k4 b show ?thesis by fastforce
          qed
        qed
      qed
    qed
  qed
qed

lemma transfer_effect:
  assumes "unat (cdc_avg a) < 2 ^ 30" and "\<not> mode_is_dir (fm_mode meta)" and "\<not> mode_is_symlink (fm_mode meta)"
    and "usrS (nmS (fm_rel meta))" and "usrD (nmD (fm_rel meta))" and "tryTransfer cfg lib a E meta st = Some (r, st')"
  shows "(\<forall>k. k \<noteq> nmD (fm_rel meta) \<longrightarrow> cntD (en_dst st') k = cntD (en_dst st) k) \<and>
    (tx_status r = SSkipped \<or> tx_status r = SDry \<longrightarrow> cntD (en_dst st') = cntD (en_dst st)) \<and>
    (tx_status r = SOk \<longrightarrow>
      (\<exists>b c s b'. cntS (en_src st) (nmS (fm_rel meta)) = Some b \<and> cntD (en_dst st') (nmD (fm_rel meta)) = Some c \<and>
         el_hash lib c = el_hash lib b \<and> cntS (at_live a 1 s) (nmS (fm_rel meta)) = Some b' \<and> el_hash lib b' = el_hash lib b))"
proof (cases "cf_stable cfg > 0 \<and> \<not> UnchangedFor (at_now a)
                \<lparr>fi_rel = '''', fi_abs = '''', fi_size = fm_size meta, fi_mod = fm_mod meta, fi_mode = 0, fi_dir = False, fi_link = False\<rparr>
                (cf_stable cfg)")
  case True
  with assms(2,3,6) show ?thesis by (auto simp: tryTransfer_def no_bytes_def)
next
  case False
  with assms(2,3,6) have "try_regular cfg lib a E meta st = Some (r, st')" by (auto simp: tryTransfer_def split: if_splits)
  from regular_effect [OF this assms(1,4,5)] show ?thesis by auto
qed

end

section \<open>Lemmas: jobs\<close>

text \<open>
  What the optional interfaces and \<open>Stat\<close> must keep: a mode change touches no content, a symbolic link only
  its own place, and metadata carries the path it was asked for.
\<close>

definition extras_ok :: "('s, 'v, 'd, 'w) endpoints \<Rightarrow> ('d \<Rightarrow> string \<Rightarrow> bytes option) \<Rightarrow> (string \<Rightarrow> string) \<Rightarrow> bool" where
  "extras_ok E cntD nmD \<longleftrightarrow>
     (\<forall>f rel m d e d'. es_dst_chmod E = Some f \<longrightarrow> f rel m d = (e, d') \<longrightarrow> cntD d' = cntD d) \<and>
     (\<forall>l target rel d e d' k. es_dst_link E = Some l \<longrightarrow> ln_symlink l target rel d = (e, d') \<longrightarrow> k \<noteq> nmD rel \<longrightarrow> cntD d' k = cntD d k) \<and>
     (\<forall>rel s m s'. tr_stat (es_src E) rel s = (Inr m, s') \<longrightarrow> fm_rel m = rel)"

context store
begin

lemma delete_files_keeps:
  "delete_files B keep exclude ctx fs i n t = (r, t') \<Longrightarrow>
   \<forall>f \<in> set fs. fm_rel f \<notin> keep \<and> \<not> MatchExclude (fm_rel f) exclude \<longrightarrow> nm (fm_rel f) \<noteq> k \<Longrightarrow> cnt t' k = cnt t k"
proof (induction fs arbitrary: i n t)
  case (Cons f fs)
  show ?case
  proof (cases "ctx i = None \<and> \<not> (fm_rel f \<in> keep \<or> MatchExclude (fm_rel f) exclude \<or> mode_is_dir (fm_mode f))")
    case True
    obtain e t1 where rm: "tr_remove B (fm_rel f) t = (e, t1)" by force
    have "cnt t1 k = cnt t k" using remove [OF rm, of k] Cons.prems(2) True by auto
    with Cons rm True show ?thesis by (cases e) auto
  next
    case False
    with Cons show ?thesis by (auto split: option.splits if_splits)
  qed
qed simp

lemma delete_dirs_keeps:
  "delete_dirs B keep exclude ctx fs i n t = (r, t') \<Longrightarrow>
   \<forall>f \<in> set fs. fm_rel f \<notin> keep \<and> \<not> MatchExclude (fm_rel f) exclude \<longrightarrow> nm (fm_rel f) \<noteq> k \<Longrightarrow> cnt t' k = cnt t k"
proof (induction fs arbitrary: i n t)
  case (Cons f fs)
  show ?case
  proof (cases "ctx i = None \<and> \<not> (fm_rel f \<in> keep \<or> MatchExclude (fm_rel f) exclude) \<and> mode_is_dir (fm_mode f)")
    case True
    obtain e t1 where rm: "tr_remove B (fm_rel f) t = (e, t1)" by force
    have "cnt t1 k = cnt t k" using remove [OF rm, of k] Cons.prems(2) True by auto
    with Cons rm True show ?thesis by (cases e) auto
  next
    case False
    with Cons show ?thesis by (auto split: option.splits if_splits)
  qed
qed simp

lemma deleteExtras_keeps:
  assumes "deleteExtras srt ctx B src exclude t = (r, t')" and "tr_walk B [] t = (Inr fs, t1)"
    and "\<And>less xs. set (srt less xs) \<subseteq> set xs"
    and "\<forall>f \<in> set fs. fm_rel f \<notin> fm_rel ` set src \<and> \<not> MatchExclude (fm_rel f) exclude \<longrightarrow> nm (fm_rel f) \<noteq> k"
  shows "cnt t' k = cnt t k"
proof -
  let ?keep = "fm_rel ` set src"
  obtain n e t2 where d1: "delete_files B ?keep exclude (ctx 0) fs 0 0 t1 = ((n, e), t2)" by (metis prod.exhaust)
  have k1: "cnt t2 k = cnt t k" using delete_files_keeps [OF d1 assms(4)] walk [OF assms(2)] by simp
  show ?thesis
  proof (cases e)
    case (Some y)
    with assms(1,2) d1 k1 show ?thesis by (auto simp: deleteExtras_def Let_def)
  next
    case None
    with assms(1,2) d1 have d2: "delete_dirs B ?keep exclude (ctx 1) (srt (\<lambda>f g. depth f > depth g) fs) 0 n t2 = (r, t')"
      by (simp add: deleteExtras_def Let_def)
    have "\<forall>f \<in> set (srt (\<lambda>f g. depth f > depth g) fs). fm_rel f \<notin> ?keep \<and> \<not> MatchExclude (fm_rel f) exclude \<longrightarrow> nm (fm_rel f) \<noteq> k"
      using assms(3,4) by blast
    from delete_dirs_keeps [OF d2 this] k1 show ?thesis by simp
  qed
qed

lemma deleteExtras_walk_fails: "deleteExtras srt ctx B src exclude t = (r, t') \<Longrightarrow> tr_walk B [] t = (Inl e, t1) \<Longrightarrow> cnt t' = cnt t"
  using walk by (auto simp: deleteExtras_def Let_def)

end

context transfer_stores
begin

lemma try_frame:
  assumes "tryTransfer cfg lib a E meta st = Some (r, st')" and "extras_ok E cntD nmD" and "unat (cdc_avg a) < 2 ^ 30"
    and "usrS (nmS (fm_rel meta))" and "usrD (nmD (fm_rel meta))" and "k \<noteq> nmD (fm_rel meta)"
  shows "cntD (en_dst st') k = cntD (en_dst st) k"
proof -
  have chm: "es_dst_chmod E = Some f \<Longrightarrow> f rel m d = (e, d') \<Longrightarrow> cntD d' = cntD d" for f rel m d e d'
    using assms(2) unfolding extras_ok_def by blast
  have lnk: "es_dst_link E = Some l \<Longrightarrow> ln_symlink l target (fm_rel meta) d = (e, d') \<Longrightarrow> cntD d' k = cntD d k" for l target d e d'
    using assms(2,6) unfolding extras_ok_def by blast
  have "try_dir cfg E meta st = (r, st') \<Longrightarrow> cntD (en_dst st') = cntD (en_dst st)"
    by (auto simp: try_dir_def split: if_splits prod.splits option.splits dest!: dst.mkdir chm)
  moreover have "try_symlink cfg E meta st = (r, st') \<Longrightarrow> cntD (en_dst st') k = cntD (en_dst st) k"
    by (auto simp: try_symlink_def split: if_splits prod.splits option.splits sum.splits dest: lnk)
  moreover have "try_regular cfg lib a E meta st = Some (r, st') \<Longrightarrow> cntD (en_dst st') k = cntD (en_dst st) k"
    using regular_effect [OF _ assms(3-5)] assms(6) by blast
  ultimately show ?thesis using assms(1) by (auto simp: tryTransfer_def split: if_splits)
qed

lemma loop_frame:
  "transfer_loop cfg lib att slp E n meta st = Some (r, st') \<Longrightarrow> extras_ok E cntD nmD \<Longrightarrow> \<forall>i. unat (cdc_avg (att i)) < 2 ^ 30 \<Longrightarrow>
   usrS (nmS (fm_rel meta)) \<Longrightarrow> usrD (nmD (fm_rel meta)) \<Longrightarrow> k \<noteq> nmD (fm_rel meta) \<Longrightarrow>
   cntD (en_dst st') k = cntD (en_dst st) k"
proof (induction "nat (cf_attempts cfg - n)" arbitrary: n meta st rule: less_induct)
  case less
  obtain x st1 where t: "tryTransfer cfg lib (att (n + 1)) E meta st = Some (x, st1)"
    using less.prems(1) by (subst (asm) transfer_loop.simps) (auto split: option.splits)
  note k1 = try_frame [OF t less.prems(2) spec [OF less.prems(3)] less.prems(4-6)]
  note eq = less.prems(1) [unfolded transfer_loop.simps [of cfg lib att slp E n] t, simplified Let_def option.case prod.case]
  show ?case
  proof (cases "\<exists>e. tx_status x = SFailed \<and> tx_err x = Some e \<and> isUnstable e \<and>
      \<not> (cf_skip_unstable cfg \<or> n + 1 \<ge> cf_attempts cfg) \<and> slp (n + 1) = None")
    case False
    with eq k1 show ?thesis by (auto split: status.splits option.splits if_splits)
  next
    case True
    obtain m s2 where s: "tr_stat (es_src E) (fm_rel meta) (en_src st1) = (m, s2)" by force
    let ?m = "case m of Inr nm \<Rightarrow> nm | Inl x \<Rightarrow> meta"
    have "tr_stat (es_src E) (fm_rel meta) (en_src st1) = (Inr b, s2) \<Longrightarrow> fm_rel b = fm_rel meta" for b
      using less.prems(2) unfolding extras_ok_def by blast
    then have rel: "fm_rel ?m = fm_rel meta" using s by (cases m) auto
    have r: "transfer_loop cfg lib att slp E (n + 1) ?m (st1\<lparr>en_src := s2\<rparr>) = Some (r, st')"
      using eq True s by (auto split: sum.splits)
    have "nat (cf_attempts cfg - (n + 1)) < nat (cf_attempts cfg - n)" using True by auto
    from less.hyps [OF this r less.prems(2,3)] less.prems(4-6) rel k1 show ?thesis by simp
  qed
qed

lemma run_frame:
  "run_files cfg lib env E fs i x st = Some (x', st') \<Longrightarrow> extras_ok E cntD nmD \<Longrightarrow> \<forall>i n. unat (cdc_avg (je_att env i n)) < 2 ^ 30 \<Longrightarrow>
   \<forall>f \<in> set fs. usrS (nmS (fm_rel f)) \<and> usrD (nmD (fm_rel f)) \<and> k \<noteq> nmD (fm_rel f) \<Longrightarrow>
   cntD (en_dst st') k = cntD (en_dst st) k"
proof (induction fs arbitrary: i x st)
  case (Cons f fs)
  show ?case
  proof (cases "je_ctx env i")
    case (Some e)
    with Cons show ?thesis by auto
  next
    case None
    with Cons.prems(1) obtain r st1 where t: "transferOne cfg lib (je_att env i) (je_sleep env i) E f st = Some (r, st1)"
      "run_files cfg lib env E fs (i + 1) (add_result r x) st1 = Some (x', st')" by (auto split: option.splits)
    have "cntD (en_dst st1) k = cntD (en_dst st) k"
      using t(1) Cons.prems(2-4) unfolding transferOne_def by (intro loop_frame) auto
    with Cons.IH [OF t(2) Cons.prems(2,3)] Cons.prems(4) show ?thesis by simp
  qed
qed simp

lemma probe_dst: "probe_sample (es_src E) fs s = (b, s') \<Longrightarrow> cntS s' = cntS s"
proof (induction fs arbitrary: s)
  case (Cons f fs)
  obtain r s1 where o: "tr_open (es_src E) (fm_rel f) s = (r, s1)" by force
  with Cons src.open_keeps [OF o] show ?case by (auto split: if_splits sum.splits prod.splits)
qed simp

end

text \<open>Verification on two stores.\<close>

lemma verify_files_sound:
  assumes "readable_store S cntS nmS usrS ofS H" and "readable_store D cntD nmD usrD ofD H"
  shows "verify_files H cl S D fs (ts, td) = ([], st') \<Longrightarrow>
    \<forall>f \<in> set fs. usrS (nmS (fm_rel f)) \<and> usrD (nmD (fm_rel f)) \<Longrightarrow>
    \<forall>f \<in> set fs. \<not> mode_is_dir (fm_mode f) \<longrightarrow>
      (\<exists>a b. cntS ts (nmS (fm_rel f)) = Some a \<and> cntD td (nmD (fm_rel f)) = Some b \<and> H a = H b)"
proof (induction fs arbitrary: ts td)
  case (Cons f fs)
  note S = assms(1) and D = assms(2)
  note S' = readable_store.axioms(1) [OF S] and D' = readable_store.axioms(1) [OF D]
  show ?case
  proof (cases "mode_is_dir (fm_mode f)")
    case True
    with Cons show ?thesis by auto
  next
    case False
    obtain m ts1 td1 where v: "verify_file H cl S D f (ts, td) = (m, ts1, td1)" by (metis prod.exhaust)
    from Cons.prems(1) False v have m: "m = None" and r: "verify_files H cl S D fs (ts1, td1) = ([], st')"
      by (auto split: prod.splits option.splits)
    from v m obtain sr dr sd dd n n' where o: "tr_open S (fm_rel f) ts = (Inr sr, ts1)" "HashFile H sr = Inr (sd, n)"
      "tr_open D (fm_rel f) td = (Inr dr, td1)" "HashFile H dr = Inr (dd, n')" "sd = dd"
      by (auto simp: verify_file_def Let_def split: prod.splits sum.splits if_splits option.splits)
    have ok: "rd_ok sr" "rd_ok dr" using readable_store.open_ok [OF S o(1)] readable_store.open_ok [OF D o(3)] by blast+
    have h: "sd = H (rd_content sr)" "dd = H (rd_content dr)"
      using o(2,4) ok by (auto simp: HashFile_def read_all_eq split: prod.splits option.splits)
    have k: "cntS ts1 = cntS ts" "cntD td1 = cntD td" using store.open_keeps [OF S' o(1)] store.open_keeps [OF D' o(3)] by auto
    have "\<exists>a b. cntS ts (nmS (fm_rel f)) = Some a \<and> cntD td (nmD (fm_rel f)) = Some b \<and> H a = H b"
      using readable_store.open_reads [OF S o(1)] readable_store.open_reads [OF D o(3)] ok h o(5) Cons.prems(2) by auto
    with Cons.IH [OF r] Cons.prems(2) k show ?thesis by auto
  qed
qed simp

end
