(* ===== verification/EngineJob.thy ===== *)
theory EngineJob
  imports Engine RelayJob
begin

text \<open>
  What the engine promises (\<open>internal/engine/engine.go\<close>), over any backends that keep the laws of a store, and
  the jobs of the witnesses, between in-process object stores.
\<close>

section \<open>Lemmas\<close>

lemma delete_one:
  assumes "tr_walk D [] td = (Inr [f], td1)" and "\<not> mode_is_dir (fm_mode f)" and "fm_rel f \<notin> fm_rel ` set src"
    and "\<not> MatchExclude (fm_rel f) ex" and "tr_remove D (fm_rel f) td1 = (None, td')" and "\<And>less x. srt less [x] = [x]"
  shows "deleteExtras srt (\<lambda>i k. None) D src ex td = ((1, None), td')"
  using assms by (simp add: deleteExtras_def Let_def)

section \<open>Example jobs\<close>

definition demo_el :: engine_lib where
  "demo_el = \<lparr>el_hash = (\<lambda>b. b), el_codec = demo_lib, el_entry = (\<lambda>e. [1]), el_sig = (\<lambda>s. [2]), el_unsig = (\<lambda>b. None), el_cwd = Inr ''/''\<rparr>"

definition demo_ep :: "(memory s3_world, s3_session, memory s3_world, s3_session) endpoints" where
  "demo_ep = \<lparr>es_src = demo_backend, es_dst = demo_backend, es_src_link = None, es_dst_link = None, es_dst_chmod = None\<rparr>"

definition demo_att :: "memory s3_world attempt" where
  "demo_att = \<lparr>at_now = 1000, at_avg = 0, at_frame = 0, at_codec = CodecNone, at_ctx = (\<lambda>i. None), at_wait = (\<lambda>i. None),
     at_begin_fault = PutFine, at_end_fault = PutFine, at_index_fault = IxFine, at_delete_fault = None, at_live = (\<lambda>i s. s),
     at_close = (\<lambda>i. None)\<rparr>"

definition demo_cfg :: config where
  "demo_cfg = \<lparr>cf_sync = True, cf_delete = True, cf_resume = False, cf_dry = False, cf_exclude = [''vendor/*''], cf_checksum = False,
     cf_stable = 0, cf_skip_unstable = False, cf_attempts = 1, cf_job = ''j''\<rparr>"

text \<open>A destination with a file \<open>g\<close> and one in \<open>vendor\<close>.\<close>

definition demo_dst :: "memory s3_world" where
  "demo_dst = \<lparr>sx_api = snd (mem_put ''b'' ''p/vendor/x'' [8] Map.empty (snd (mem_put ''b'' ''p/g'' [7] Map.empty (NewMemory 5)))),
     sx_script = []\<rparr>"

definition demo_engine :: "(memory s3_world, memory s3_world) engine" where
  "demo_engine = \<lparr>en_src = demo_mem, en_dst = demo_dst, en_journal = None, en_index = None\<rparr>"

definition demo_meta :: file_meta where "demo_meta = \<lparr>fm_rel = ''f'', fm_size = 1, fm_mod = 5, fm_mode = 420\<rparr>"

lemma demo_transfer_stores:
  "transfer_stores demo_ep demo_el (s3_cnt demo_s3) (s3_key demo_s3) (s3_usr demo_s3) (\<lambda>st k. sw_key (fst st) = k)
     (s3_cnt demo_s3) (s3_key demo_s3) (s3_usr demo_s3) (\<lambda>st k. sw_key (fst st) = k)"
  using demo_store readable_store.axioms(1) [OF demo_store]
  by (intro transfer_stores.intro) (simp_all add: demo_ep_def demo_el_def)

interpretation mem_jobs: transfer_stores demo_ep demo_el "s3_cnt demo_s3" "s3_key demo_s3" "s3_usr demo_s3" "\<lambda>st k. sw_key (fst st) = k"
  "s3_cnt demo_s3" "s3_key demo_s3" "s3_usr demo_s3" "\<lambda>st k. sw_key (fst st) = k"
  by (rule demo_transfer_stores)

lemma demo_try: "(case tryTransfer demo_cfg demo_el demo_att demo_ep demo_meta demo_engine of Some (r, st) \<Rightarrow> tx_status r = SOk | None \<Rightarrow> False)"
  by code_simp

section \<open>Properties\<close>

text \<open>
  C22. One attempt at a regular file, whatever fails in it and however the source changes under it: no other file
  of the destination changes; a skip or a dry run changes nothing; and when it reports success the destination
  holds content with the digest of what the source held at the first read, which is also the digest of what
  it held at the second.
\<close>
theorem transfer_verified:
  assumes "transfer_stores E lib cntS nmS usrS ofS cntD nmD usrD ofD" and "unat (cdc_avg a) < 2 ^ 30"
    and "\<not> mode_is_dir (fm_mode meta)" and "\<not> mode_is_symlink (fm_mode meta)"
    and "usrS (nmS (fm_rel meta))" and "usrD (nmD (fm_rel meta))"
    and "tryTransfer cfg lib a E meta st = Some (r, st')"
  shows "(\<forall>k. k \<noteq> nmD (fm_rel meta) \<longrightarrow> cntD (en_dst st') k = cntD (en_dst st) k) \<and>
    (tx_status r = SSkipped \<or> tx_status r = SDry \<longrightarrow> cntD (en_dst st') = cntD (en_dst st)) \<and>
    (tx_status r = SOk \<longrightarrow>
      (\<exists>b c s b'. cntS (en_src st) (nmS (fm_rel meta)) = Some b \<and> cntD (en_dst st') (nmD (fm_rel meta)) = Some c \<and>
         el_hash lib c = el_hash lib b \<and> cntS (at_live a 1 s) (nmS (fm_rel meta)) = Some b' \<and> el_hash lib b' = el_hash lib b))"
  by (rule transfer_stores.transfer_effect [OF assms])

theorem transfer_verified_witness:
  "\<exists>r st'. tryTransfer demo_cfg demo_el demo_att demo_ep demo_meta demo_engine = Some (r, st') \<and>
     s3_cnt demo_s3 (en_dst st') (s3_key demo_s3 ''f'') = Some [9] \<and>
     s3_cnt demo_s3 (en_dst st') (s3_key demo_s3 ''g'') = s3_cnt demo_s3 demo_dst (s3_key demo_s3 ''g'')"
proof -
  obtain r st' where t: "tryTransfer demo_cfg demo_el demo_att demo_ep demo_meta demo_engine = Some (r, st')" "tx_status r = SOk"
    using demo_try by (auto split: option.splits)
  have m: "unat (cdc_avg demo_att) < 2 ^ 30" "\<not> mode_is_dir (fm_mode demo_meta)" "\<not> mode_is_symlink (fm_mode demo_meta)"
    by (simp_all add: demo_att_def cdc_avg_def demo_meta_def mode_is_dir_def mode_is_symlink_def)
  have u: "s3_usr demo_s3 (s3_key demo_s3 (fm_rel demo_meta))" using relay_demo_paths(2) by (simp add: demo_meta_def)
  have g: "s3_key demo_s3 ''g'' \<noteq> s3_key demo_s3 ''f''" "s3_cnt demo_s3 demo_mem (s3_key demo_s3 ''f'') = Some [9]" by code_simp+
  from transfer_verified [OF demo_transfer_stores m u u t(1)] t g show ?thesis
    by (auto simp: demo_meta_def demo_engine_def demo_el_def)
qed

text \<open>
  C23. A job never touches what it was not asked to: a destination file that no source file stands for keeps its
  content through the whole job, unless the job is a sync with deletion that ran clean to its end. One failed
  file is enough to keep every extra file.
\<close>
theorem job_keeps_others:
  assumes "transfer_stores E lib cntS nmS usrS ofS cntD nmD usrD ofD" and "extras_ok E cntD nmD"
    and "run_job srt cfg lib envs E st = Some ((x, e), st')"
    and "tr_walk (es_src E) (cf_exclude cfg) (en_src st) = (Inr files, s1)"
    and "\<forall>smp i n. unat (cdc_avg (je_att (envs smp) i n)) < 2 ^ 30"
    and "\<forall>f \<in> set files. usrS (nmS (fm_rel f)) \<and> usrD (nmD (fm_rel f)) \<and> k \<noteq> nmD (fm_rel f)"
    and "\<not> (cf_sync cfg \<and> cf_delete cfg) \<or> cf_dry cfg \<or> sx_failed x > 0 \<or> (\<forall>smp. je_end (envs smp) \<noteq> None)"
  shows "cntD (en_dst st') k = cntD (en_dst st) k"
proof -
  obtain smp s2 where p: "probe_sample (es_src E) files s1 = (smp, s2)" by force
  from assms(3,4) p obtain y st1 where
    r: "run_files cfg lib (envs smp) E files 0 no_stats (st\<lparr>en_src := s2\<rparr>) = Some (y, st1)"
    and f: "finish_run srt cfg (envs smp) E files y st1 = ((x, e), st')"
    by (auto simp: run_job_def split: option.splits)
  have k1: "cntD (en_dst st1) k = cntD (en_dst st) k"
    using transfer_stores.run_frame [OF assms(1) r assms(2)] assms(5,6) by simp
  have "sx_failed x = sx_failed y"
    using f by (auto simp: finish_run_def Let_def split: if_splits prod.splits option.splits)
  with assms(7) have "\<not> (cf_sync cfg \<and> cf_delete cfg \<and> \<not> cf_dry cfg \<and> je_end (envs smp) = None \<and> sx_failed y = 0)" by auto
  with f have "st' = st1" by (auto simp: finish_run_def Let_def split: if_splits)
  with k1 show ?thesis by simp
qed

text \<open>The job with a file that is too young for its stability window: it fails, and nothing is deleted.\<close>

definition demo_young :: config where "demo_young = demo_cfg\<lparr>cf_stable := 2000\<rparr>"

definition demo_env :: "bytes \<Rightarrow> memory s3_world job_env" where
  "demo_env smp = \<lparr>je_ctx = (\<lambda>k. None), je_att = (\<lambda>k n. demo_att), je_sleep = (\<lambda>k n. None), je_end = None, je_last = None, je_delete = (\<lambda>i k. None)\<rparr>"

lemma demo_job: "(case run_job (\<lambda>less xs. xs) demo_young demo_el demo_env demo_ep demo_engine of
    Some ((x, e), st) \<Rightarrow> sx_failed x = 1 \<and> e = Some (Msg ''%d file(s) failed'') | None \<Rightarrow> False)"
  by code_simp

theorem job_keeps_others_witness:
  "\<exists>x e st'. run_job (\<lambda>less xs. xs) demo_young demo_el demo_env demo_ep demo_engine = Some ((x, e), st') \<and> sx_failed x = 1 \<and>
     s3_cnt demo_s3 (en_dst st') (s3_key demo_s3 ''g'') = s3_cnt demo_s3 demo_dst (s3_key demo_s3 ''g'')"
proof -
  obtain x e st' where r: "run_job (\<lambda>less xs. xs) demo_young demo_el demo_env demo_ep demo_engine = Some ((x, e), st')" "sx_failed x = 1"
    using demo_job by (auto split: option.splits)
  have "\<exists>s1. tr_walk (es_src demo_ep) (cf_exclude demo_young) (en_src demo_engine) = (Inr [demo_meta], s1)"
  proof -
    have "fst (tr_walk demo_backend [''vendor/*''] demo_mem) = Inr [demo_meta]" by code_simp
    then show ?thesis by (cases "tr_walk demo_backend [''vendor/*''] demo_mem") (simp add: demo_ep_def demo_young_def demo_cfg_def demo_engine_def)
  qed
  then obtain s1 where w: "tr_walk (es_src demo_ep) (cf_exclude demo_young) (en_src demo_engine) = (Inr [demo_meta], s1)" ..
  have st: "tr_stat demo_backend rel s = (Inr m, s') \<Longrightarrow> fm_rel m = rel" for rel s m s'
    by (auto simp: demo_backend_def s3_backend_ops s3_call_def s3_stat_def Let_def split: prod.splits sum.splits option.splits)
  have ex: "extras_ok demo_ep (s3_cnt demo_s3) (s3_key demo_s3)"
    using st by (auto simp: extras_ok_def demo_ep_def)
  have g: "s3_key demo_s3 ''g'' \<noteq> s3_key demo_s3 ''f''" by code_simp
  have "s3_cnt demo_s3 (en_dst st') (s3_key demo_s3 ''g'') = s3_cnt demo_s3 (en_dst demo_engine) (s3_key demo_s3 ''g'')"
    by (rule job_keeps_others [OF demo_transfer_stores ex r(1) w])
      (use g r(2) relay_demo_paths(2) in \<open>auto simp: demo_env_def demo_att_def cdc_avg_def demo_meta_def\<close>)
  then show ?thesis using r by (auto simp: demo_engine_def)
qed

text \<open>
  C28. Deleting extra files never removes a file of the source's listing nor one whose path an exclude
  pattern matches, as long as no other file of the destination stands for the same place.
\<close>
theorem deleteExtras_protects:
  assumes "store D cnt nm usr ofor H" and "deleteExtras srt ctx D src exclude t = (r, t')" and "tr_walk D [] t = (Inr fs, t1)"
    and "\<And>less xs. set (srt less xs) \<subseteq> set xs"
    and "rel \<in> fm_rel ` set src \<or> MatchExclude rel exclude"
    and "\<forall>f \<in> set fs. nm (fm_rel f) = nm rel \<longrightarrow> fm_rel f = rel"
  shows "cnt t' (nm rel) = cnt t (nm rel)"
  by (rule store.deleteExtras_keeps [OF assms(1-4)]) (use assms(5,6) in auto)

lemma demo_delete:
  "fst (tr_walk demo_backend [] demo_dst) =
     Inr [\<lparr>fm_rel = ''g'', fm_size = 1, fm_mod = 5, fm_mode = 420\<rparr>, \<lparr>fm_rel = ''vendor/x'', fm_size = 1, fm_mod = 5, fm_mode = 420\<rparr>]"
  "fst (deleteExtras (\<lambda>less xs. xs) (\<lambda>i k. None) demo_backend [demo_meta] [''vendor/*''] demo_dst) = (1, None)"
  by code_simp+

theorem deleteExtras_protects_witness:
  "\<exists>t'. deleteExtras (\<lambda>less xs. xs) (\<lambda>i k. None) demo_backend [demo_meta] [''vendor/*''] demo_dst = ((1, None), t') \<and>
     s3_cnt demo_s3 t' (s3_key demo_s3 ''vendor/x'') = s3_cnt demo_s3 demo_dst (s3_key demo_s3 ''vendor/x'')"
proof -
  obtain t' where d: "deleteExtras (\<lambda>less xs. xs) (\<lambda>i k. None) demo_backend [demo_meta] [''vendor/*''] demo_dst = ((1, None), t')"
    using demo_delete(2) by (metis prod.exhaust_sel)
  obtain t1 where w: "tr_walk demo_backend [] demo_dst =
     (Inr [\<lparr>fm_rel = ''g'', fm_size = 1, fm_mod = 5, fm_mode = 420\<rparr>, \<lparr>fm_rel = ''vendor/x'', fm_size = 1, fm_mod = 5, fm_mode = 420\<rparr>], t1)"
    using demo_delete(1) by (metis prod.exhaust_sel)
  have m: "MatchExclude ''vendor/x'' [''vendor/*'']" "s3_key demo_s3 ''g'' \<noteq> s3_key demo_s3 ''vendor/x''" by code_simp+
  have "s3_cnt demo_s3 t' (s3_key demo_s3 ''vendor/x'') = s3_cnt demo_s3 demo_dst (s3_key demo_s3 ''vendor/x'')"
    by (rule deleteExtras_protects [OF readable_store.axioms(1) [OF demo_store] d w]) (use m in auto)
  with d show ?thesis by blast
qed

text \<open>
  C30. A verification that reports no mismatch means that every file of the source walk that is not a
  directory exists on both sides with content of the same digest.
\<close>
theorem verify_sound:
  assumes "readable_store S cntS nmS usrS ofS H" and "readable_store D cntD nmD usrD ofD H"
    and "tr_walk S exclude ts = (Inr files, ts1)" and "\<forall>f \<in> set files. usrS (nmS (fm_rel f)) \<and> usrD (nmD (fm_rel f))"
    and "VerifyFiltered H cl S D exclude (ts, td) = (Inr [], st')"
  shows "\<forall>f \<in> set files. \<not> mode_is_dir (fm_mode f) \<longrightarrow>
    (\<exists>a b. cntS ts (nmS (fm_rel f)) = Some a \<and> cntD td (nmD (fm_rel f)) = Some b \<and> H a = H b)"
proof -
  from assms(3,5) have "verify_files H cl S D files (ts1, td) = ([], st')" by (auto simp: VerifyFiltered_def split: prod.splits)
  from verify_files_sound [OF assms(1,2) this assms(4)] store.walk [OF readable_store.axioms(1) [OF assms(1)] assms(3)]
  show ?thesis by simp
qed

lemma demo_verify: "fst (VerifyFiltered (\<lambda>b. b) (\<lambda>rel. (None, None)) demo_backend demo_backend [] (demo_mem, demo_mem)) = Inr []"
  by code_simp

theorem verify_sound_witness:
  "\<exists>st'. VerifyFiltered (\<lambda>b. b) (\<lambda>rel. (None, None)) demo_backend demo_backend [] (demo_mem, demo_mem) = (Inr [], st') \<and>
     (\<exists>a b. s3_cnt demo_s3 demo_mem (s3_key demo_s3 ''f'') = Some a \<and> s3_cnt demo_s3 demo_mem (s3_key demo_s3 ''f'') = Some b \<and> a = b)"
proof -
  obtain st' where v: "VerifyFiltered (\<lambda>b. b) (\<lambda>rel. (None, None)) demo_backend demo_backend [] (demo_mem, demo_mem) = (Inr [], st')"
    using demo_verify by (metis prod.exhaust_sel)
  obtain w where w: "tr_walk demo_backend [] demo_mem = (Inr [\<lparr>fm_rel = ''f'', fm_size = 1, fm_mod = 5, fm_mode = 420\<rparr>], w)"
    using demo_walk by (metis prod.exhaust_sel)
  from verify_sound [OF demo_store demo_store w _ v] relay_demo_paths(2) v show ?thesis
    by (auto simp: mode_is_dir_def)
qed

text \<open>
  Excluding a directory by its name keeps the source's walk out of it, but does not protect the files the
  destination has in it: the directory's own path matches the pattern, a file's path below it does not, and
  a sync with deletion removes the file.
\<close>
theorem excluded_dir_not_protected:
  assumes "tr_walk D [] td = (Inr [\<lparr>fm_rel = ''vendor/x'', fm_size = n, fm_mod = m, fm_mode = md\<rparr>], td1)"
    and "\<not> mode_is_dir md" and "tr_remove D ''vendor/x'' td1 = (None, td')" and "\<And>less x. srt less [x] = [x]"
    and "\<forall>f \<in> set src. \<not> HasPrefix (fm_rel f) ''vendor/''"
  shows "MatchExclude ''vendor'' [''vendor''] \<and> deleteExtras srt (\<lambda>i k. None) D src [''vendor''] td = ((1, None), td')"
proof -
  have m: "MatchExclude ''vendor'' [''vendor'']" "\<not> MatchExclude ''vendor/x'' [''vendor'']" by code_simp+
  have h: "HasPrefix ''vendor/x'' ''vendor/''" by (simp add: HasPrefix_def)
  have ne: "fm_rel f \<noteq> ''vendor/x''" if "f \<in> set src" for f
  proof
    assume e: "fm_rel f = ''vendor/x''"
    from bspec [OF assms(5) that, unfolded e] h show False by (rule notE)
  qed
  have "deleteExtras srt (\<lambda>i k. None) D src [''vendor''] td = ((1, None), td')"
  proof (rule delete_one [OF assms(1)], unfold file_meta.select_convs)
    show "''vendor/x'' \<notin> fm_rel ` set src"
    proof
      assume "''vendor/x'' \<in> fm_rel ` set src"
      then obtain f where "''vendor/x'' = fm_rel f" "f \<in> set src" by (rule imageE)
      from ne [OF this(2)] this(1) [symmetric] show False by (rule notE)
    qed
  qed (fact assms(2) m(2) assms(3,4))+
  with m(1) show ?thesis by (rule conjI)
qed

definition demo_vendor :: "memory s3_world" where
  "demo_vendor = \<lparr>sx_api = snd (mem_put ''b'' ''p/vendor/x'' [8] Map.empty (NewMemory 5)), sx_script = []\<rparr>"

lemma demo_vendor_calls:
  "fst (tr_walk demo_backend [] demo_vendor) = Inr [\<lparr>fm_rel = ''vendor/x'', fm_size = 1, fm_mod = 5, fm_mode = 420\<rparr>]"
  "fst (tr_remove demo_backend ''vendor/x'' (snd (tr_walk demo_backend [] demo_vendor))) = None"
  by code_simp+

theorem excluded_dir_not_protected_witness:
  "\<exists>td'. deleteExtras (\<lambda>less xs. xs) (\<lambda>i k. None) demo_backend [demo_meta] [''vendor''] demo_vendor = ((1, None), td')"
proof -
  obtain td1 where w: "tr_walk demo_backend [] demo_vendor = (Inr [\<lparr>fm_rel = ''vendor/x'', fm_size = 1, fm_mod = 5, fm_mode = 420\<rparr>], td1)"
    using demo_vendor_calls(1) by (metis prod.exhaust_sel)
  moreover obtain td' where "tr_remove demo_backend ''vendor/x'' td1 = (None, td')"
    using demo_vendor_calls(2) w by (metis prod.exhaust_sel snd_conv)
  moreover have "\<not> mode_is_dir 420" by (simp add: mode_is_dir_def)
  ultimately show ?thesis
    using excluded_dir_not_protected [of demo_backend demo_vendor 1 5 420 td1 td' "\<lambda>less xs. xs" "[demo_meta]"]
    by (auto simp: demo_meta_def HasPrefix_def)
qed

end
