(* ===== verification/Workers.thy ===== *)
theory Workers
  imports EngineJob "HOL-Library.Multiset"
begin

text \<open>
  The workers of a job (\<open>Run\<close> in \<open>internal/engine/engine.go\<close>). Several goroutines take files from one channel and transfer
  them over the same two backends, so their calls interleave. A worker is the phase its transfer is in; a step is
  one call of the destination, or one look at the source, and is followed by any step of any worker or by a change
  another process makes to the source. Where a phase depends on the journal, the index, the context or what a call
  returned, every outcome is a step. Transfers of one worker alone are runs of the relation: the attempts of
  \<open>Engine\<close> are shown to be such runs.
\<close>

section \<open>State\<close>

text \<open>
  \<open>Signed\<close>: the first pass is over. \<open>Sending\<close>: the write session is open. \<open>Undoing\<close>: \<open>Commit\<close> has failed and the deferred \<open>Abort\<close> is
  due. \<open>Failing\<close>: the attempt has failed, to be retried or given up. \<open>Gone\<close>: the channel is drained.
\<close>

datatype 'w phase =
    Free
  | Looking file_meta
  | Made file_meta
  | Linking file_meta string
  | Signed file_meta signature
  | Sending file_meta signature 'w
  | Undoing file_meta 'w
  | Failing file_meta
  | Gone

datatype outcome = OSkipped | ODry | OCopied | OHandled | OFailed

text \<open>
  What the workers share. The log is what the statistics count. \<open>sh_past\<close> (the states the source was in when it was
  read) and \<open>sh_links\<close> (the symbolic links that were made) are kept for the statements.
\<close>

record ('s, 'd) shared =
  sh_src :: 's
  sh_dst :: 'd
  sh_queue :: "file_meta list"
  sh_log :: "(string \<times> outcome) list"
  sh_past :: "'s list"
  sh_links :: "string list"

definition logged :: "file_meta \<Rightarrow> outcome \<Rightarrow> ('s, 'd) shared \<Rightarrow> ('s, 'd) shared" where
  "logged f o' s = s\<lparr>sh_log := (fm_rel f, o') # sh_log s\<rparr>"

section \<open>Steps\<close>

text \<open>The phases in which the destination and the source are only read.\<close>

fun checks :: "'w phase \<Rightarrow> file_meta option" where
  "checks (Looking f) = Some f"
| "checks (Signed f sg) = Some f"
| "checks _ = None"

text \<open>One worker. The rules follow the code from the channel to the result.\<close>

inductive worker_step ::
  "config \<Rightarrow> engine_lib \<Rightarrow> ('s, 'v, 'd, 'w) endpoints \<Rightarrow> 'w phase \<times> ('s, 'd) shared \<Rightarrow> 'w phase \<times> ('s, 'd) shared \<Rightarrow> bool"
  for cfg lib E where
  take_job: "sh_queue s = f # fs \<Longrightarrow> worker_step cfg lib E (Free, s) (Looking f, s\<lparr>sh_queue := fs\<rparr>)"
| cancelled: "sh_queue s = f # fs \<Longrightarrow> worker_step cfg lib E (Free, s) (Free, logged f OSkipped (s\<lparr>sh_queue := fs\<rparr>))"
| drained: "sh_queue s = [] \<Longrightarrow> worker_step cfg lib E (Free, s) (Gone, s)"
| dst_stat: "checks p \<noteq> None \<Longrightarrow> tr_stat (es_dst E) rel (sh_dst s) = (r1, d') \<Longrightarrow> worker_step cfg lib E (p, s) (p, s\<lparr>sh_dst := d'\<rparr>)"
| dst_open: "checks p \<noteq> None \<Longrightarrow> tr_open (es_dst E) rel (sh_dst s) = (r2, d') \<Longrightarrow> worker_step cfg lib E (p, s) (p, s\<lparr>sh_dst := d'\<rparr>)"
| dst_sig: "checks p \<noteq> None \<Longrightarrow> tr_sig (es_dst E) rel (sh_dst s) = (r3, d') \<Longrightarrow> worker_step cfg lib E (p, s) (p, s\<lparr>sh_dst := d'\<rparr>)"
| skipped: "checks p = Some f \<Longrightarrow> worker_step cfg lib E (p, s) (Free, logged f OSkipped s)"
| dry_run: "checks p = Some f \<Longrightarrow> cf_dry cfg \<Longrightarrow> worker_step cfg lib E (p, s) (Free, logged f ODry s)"
| check_fails: "checks p = Some f \<Longrightarrow> worker_step cfg lib E (p, s) (Failing f, s)"
| mkdir: "mode_is_dir (fm_mode f) \<Longrightarrow> \<not> cf_dry cfg \<Longrightarrow> tr_mkdir (es_dst E) (fm_rel f) (sh_dst s) = (e, d') \<Longrightarrow>
    worker_step cfg lib E (Looking f, s) (if e = None then Made f else Failing f, s\<lparr>sh_dst := d'\<rparr>)"
| made: "es_dst_chmod E = None \<or> fm_mode f = 0 \<Longrightarrow> worker_step cfg lib E (Made f, s) (Free, logged f OHandled s)"
| chmod: "es_dst_chmod E = Some ch \<Longrightarrow> ch (fm_rel f) (fm_mode f) (sh_dst s) = (e, d') \<Longrightarrow>
    worker_step cfg lib E (Made f, s)
      (if e = None then (Free, logged f OHandled (s\<lparr>sh_dst := d'\<rparr>)) else (Failing f, s\<lparr>sh_dst := d'\<rparr>))"
| readlink: "\<not> mode_is_dir (fm_mode f) \<Longrightarrow> mode_is_symlink (fm_mode f) \<Longrightarrow> \<not> cf_dry cfg \<Longrightarrow> es_src_link E = Some rd \<Longrightarrow>
    ln_read rd (fm_rel f) (sh_src s) = (r4, s') \<Longrightarrow>
    worker_step cfg lib E (Looking f, s) (case r4 of Inl e \<Rightarrow> Failing f | Inr target \<Rightarrow> Linking f target, s\<lparr>sh_src := s'\<rparr>)"
| symlink: "es_dst_link E = Some wr \<Longrightarrow> ln_symlink wr target (fm_rel f) (sh_dst s) = (e, d') \<Longrightarrow>
    worker_step cfg lib E (Linking f target, s)
      (let s1 = s\<lparr>sh_dst := d', sh_links := fm_rel f # sh_links s\<rparr> in
       if e = None then (Free, logged f OCopied s1) else (Failing f, s1))"
| sign: "\<not> mode_is_dir (fm_mode f) \<Longrightarrow> \<not> mode_is_symlink (fm_mode f) \<Longrightarrow> unat (cdc_avg a) < 2 ^ 30 \<Longrightarrow>
    try_sign lib a E f (sh_src s) = Some (r5, s') \<Longrightarrow>
    worker_step cfg lib E (Looking f, s)
      (case r5 of Inl e \<Rightarrow> Failing f | Inr sg \<Rightarrow> Signed f sg, s\<lparr>sh_src := s', sh_past := sh_src s # sh_past s\<rparr>)"
| begin_write: "\<not> cf_dry cfg \<Longrightarrow> tr_begin (es_dst E) (fm_rel f) (s_size sg) (sh_dst s) = (r6, d') \<Longrightarrow>
    worker_step cfg lib E (Signed f sg, s) (case r6 of Inl e \<Rightarrow> Failing f | Inr w \<Rightarrow> Sending f sg w, s\<lparr>sh_dst := d'\<rparr>)"
| send: "writes op \<Longrightarrow> tr_step (es_dst E) op (w, sh_dst s) = ((w', d'), e) \<Longrightarrow>
    worker_step cfg lib E (Sending f sg w, s) (Sending f sg w', s\<lparr>sh_dst := d'\<rparr>)"
| commit: "tr_step (es_dst E) (SCommit (s_digest sg) (fm_mode f) (Some (fm_mod f))) (w, sh_dst s) = ((w', d'), None) \<Longrightarrow>
    worker_step cfg lib E (Sending f sg w, s) (Free, logged f OCopied (s\<lparr>sh_dst := d'\<rparr>))"
| commit_unlogged: "tr_step (es_dst E) (SCommit (s_digest sg) (fm_mode f) (Some (fm_mod f))) (w, sh_dst s) = ((w', d'), None) \<Longrightarrow>
    worker_step cfg lib E (Sending f sg w, s) (Failing f, s\<lparr>sh_dst := d'\<rparr>)"
| commit_fails: "tr_step (es_dst E) (SCommit (s_digest sg) (fm_mode f) (Some (fm_mod f))) (w, sh_dst s) = ((w', d'), Some e) \<Longrightarrow>
    worker_step cfg lib E (Sending f sg w, s) (Undoing f w', s\<lparr>sh_dst := d'\<rparr>)"
| abort: "tr_step (es_dst E) SAbort (w, sh_dst s) = ((w', d'), e) \<Longrightarrow> worker_step cfg lib E (Sending f sg w, s) (Failing f, s\<lparr>sh_dst := d'\<rparr>)"
| undo: "tr_step (es_dst E) SAbort (w, sh_dst s) = ((w', d'), e) \<Longrightarrow> worker_step cfg lib E (Undoing f w, s) (Failing f, s\<lparr>sh_dst := d'\<rparr>)"
| retry: "tr_stat (es_src E) (fm_rel f) (sh_src s) = (r7, s') \<Longrightarrow>
    worker_step cfg lib E (Failing f, s) (Looking (case r7 of Inl e \<Rightarrow> f | Inr m \<Rightarrow> m), s\<lparr>sh_src := s'\<rparr>)"
| give_up: "worker_step cfg lib E (Failing f, s) (Free, logged f OFailed s)"

text \<open>All workers, and the processes that change the source behind their back.\<close>

inductive job_step ::
  "config \<Rightarrow> engine_lib \<Rightarrow> ('s, 'v, 'd, 'w) endpoints \<Rightarrow> 'w phase list \<times> ('s, 'd) shared \<Rightarrow> 'w phase list \<times> ('s, 'd) shared \<Rightarrow> bool"
  for cfg lib E where
  work: "i < length ws \<Longrightarrow> worker_step cfg lib E (ws ! i, s) (p', s') \<Longrightarrow> job_step cfg lib E (ws, s) (ws[i := p'], s')"
| source_changes: "job_step cfg lib E (ws, s) (ws, s\<lparr>sh_src := src\<rparr>)"

definition job_start :: "nat \<Rightarrow> file_meta list \<Rightarrow> 's \<Rightarrow> 'd \<Rightarrow> 'w phase list \<times> ('s, 'd) shared" where
  "job_start n files src dst =
     (replicate n Free, \<lparr>sh_src = src, sh_dst = dst, sh_queue = files, sh_log = [], sh_past = [], sh_links = []\<rparr>)"

abbreviation job_run :: "config \<Rightarrow> engine_lib \<Rightarrow> ('s, 'v, 'd, 'w) endpoints \<Rightarrow> 'w phase list \<times> ('s, 'd) shared \<Rightarrow> 'w phase list \<times> ('s, 'd) shared \<Rightarrow> bool" where
  "job_run cfg lib E \<equiv> (job_step cfg lib E)\<^sup>*\<^sup>*"

inductive_cases worker_stepE: "worker_step cfg lib E (p, s) (p', s')"
inductive_cases job_stepE: "job_step cfg lib E (ws, s) (ws', s')"

section \<open>Every file is held once\<close>

fun held :: "'w phase \<Rightarrow> string list" where
  "held (Looking f) = [fm_rel f]"
| "held (Made f) = [fm_rel f]"
| "held (Linking f t) = [fm_rel f]"
| "held (Signed f sg) = [fm_rel f]"
| "held (Sending f sg w) = [fm_rel f]"
| "held (Undoing f w) = [fm_rel f]"
| "held (Failing f) = [fm_rel f]"
| "held _ = []"

text \<open>Where a file of the job is: in the channel, with a worker, or in the log.\<close>

definition whereabouts :: "'w phase list \<times> ('s, 'd) shared \<Rightarrow> string multiset" where
  "whereabouts = (\<lambda>(ws, s). mset (map fm_rel (sh_queue s)) + (\<Sum>p\<leftarrow>ws. mset (held p)) + mset (map fst (sh_log s)))"

lemma checks_held: "checks p = Some f \<Longrightarrow> held p = [fm_rel f]"
  by (cases p) auto

lemma logged_simps [simp]:
  "sh_src (logged f o' s) = sh_src s" "sh_dst (logged f o' s) = sh_dst s" "sh_queue (logged f o' s) = sh_queue s"
  "sh_log (logged f o' s) = (fm_rel f, o') # sh_log s" "sh_past (logged f o' s) = sh_past s" "sh_links (logged f o' s) = sh_links s"
  by (simp_all add: logged_def)

text \<open>\<open>Stat\<close> gives metadata of the path it was asked for.\<close>

definition stat_names :: "('s, 'v, 'd, 'w) endpoints \<Rightarrow> bool" where
  "stat_names E \<longleftrightarrow> (\<forall>rel s m s'. tr_stat (es_src E) rel s = (Inr m, s') \<longrightarrow> fm_rel m = rel)"

lemma stat_namesD: "tr_stat (es_src E) rel s = (Inr m, s') \<Longrightarrow> stat_names E \<Longrightarrow> fm_rel m = rel"
  unfolding stat_names_def by blast

lemma worker_keeps_files:
  assumes "worker_step cfg lib E (p, s) (p', s')" and "stat_names E"
  shows "mset (map fm_rel (sh_queue s')) + mset (held p') + mset (map fst (sh_log s'))
    = mset (map fm_rel (sh_queue s)) + mset (held p) + mset (map fst (sh_log s))"
  using assms
  by (cases rule: worker_stepE)
     (auto simp: checks_held Let_def split: sum.splits if_splits dest: stat_namesD)

lemma sum_update:
  fixes g :: "'a \<Rightarrow> 'b::comm_monoid_add"
  shows "i < length ws \<Longrightarrow> (\<Sum>p\<leftarrow>ws[i := p']. g p) + g (ws ! i) = (\<Sum>p\<leftarrow>ws. g p) + g p'"
proof (induction ws arbitrary: i)
  case (Cons x ws)
  then show ?case by (cases i) (simp_all add: ac_simps)
qed simp

lemma multiset_exchange:
  fixes q :: "'a multiset"
  assumes "q' + h' + l' = q + h + l" and "hs' + h = hs + h'"
  shows "q' + hs' + l' = q + hs + l"
proof (rule multiset_eqI)
  fix x
  have "count (q' + h' + l') x = count (q + h + l) x" "count (hs' + h) x = count (hs + h') x"
    using assms by simp_all
  then show "count (q' + hs' + l') x = count (q + hs + l) x" by simp
qed

lemma job_step_keeps_files:
  assumes "job_step cfg lib E x y" and "stat_names E"
  shows "whereabouts y = whereabouts x"
  using assms(1)
proof cases
  case (work i ws s p' s')
  show ?thesis
    using multiset_exchange [OF worker_keeps_files [OF work(4) assms(2)] sum_update [OF work(3), of "\<lambda>p. mset (held p)" p']]
    by (simp add: whereabouts_def work(1,2))
next
  case (source_changes ws s src)
  then show ?thesis by (simp add: whereabouts_def)
qed

lemma job_keeps_files: "job_run cfg lib E x y \<Longrightarrow> stat_names E \<Longrightarrow> whereabouts y = whereabouts x"
  by (induction rule: rtranclp_induct) (auto dest: job_step_keeps_files)

text \<open>Without the interface \<open>Linker\<close> no link is made.\<close>

lemma run_no_links: "job_run cfg lib E x y \<Longrightarrow> es_dst_link E = None \<Longrightarrow> sh_links (snd y) = sh_links (snd x)"
proof (induction rule: rtranclp_induct)
  case (step y z)
  have one: "sh_links s' = sh_links s" if "worker_step cfg lib E (p, s) (p', s')" for p p' s s'
    using that step.prems by (cases rule: worker_stepE) (auto split: if_splits)
  have "sh_links (snd z) = sh_links (snd y)"
    using step.hyps(2) by cases (simp_all add: one)
  then show ?case using step.IH step.prems by simp
qed simp

lemma start_files: "whereabouts (job_start n files src dst) = mset (map fm_rel files)"
  by (induction n) (simp_all add: whereabouts_def job_start_def)

section \<open>Stores that several sessions share\<close>

text \<open>
  A detached store in which a commit publishes the session's content whatever other calls came between: \<open>live\<close>
  holds of a session from its opening until it is committed.
\<close>

locale shared_store = detached_store +
  fixes live :: "'b \<Rightarrow> bool"
  assumes live_begin: "tr_begin B rel n t = (Inr s, t') \<Longrightarrow> live s"
    and live_write: "live s \<Longrightarrow> writes a \<Longrightarrow> tr_step B a (s, t) = ((s', t'), e) \<Longrightarrow> live s'"
    and commit_any: "open_for (s, t) k \<Longrightarrow> usr k \<Longrightarrow> tr_step B (SCommit d m mt) (s, t) = ((s', t'), e) \<Longrightarrow>
      cnt t' k = cnt t k \<or> (\<exists>c. cnt t' k = Some c \<and> H c = d)"
    and live_commit: "live s \<Longrightarrow> open_for (s, t) k \<Longrightarrow> usr k \<Longrightarrow> tr_step B (SCommit d m mt) (s, t) = ((s', t'), None) \<Longrightarrow>
      \<exists>c. cnt t' k = Some c \<and> H c = d"

locale worker_stores = transfer_stores E lib cntS nmS usrS ofS cntD nmD usrD ofD
    + shr: shared_store "es_dst E" cntD nmD usrD ofD "el_hash lib" live
  for E :: "('s, 'v, 'd, 'w) endpoints" and lib :: engine_lib and cntS nmS usrS ofS cntD nmD usrD ofD live
begin

text \<open>The source has held content of this digest when it was read.\<close>

definition from_source :: "'s list \<Rightarrow> string \<Rightarrow> digest \<Rightarrow> bool" where
  "from_source past rel d \<longleftrightarrow> (\<exists>x \<in> set past. \<exists>b. cntS x (nmS rel) = Some b \<and> el_hash lib b = d)"

text \<open>What the destination may hold for a file: a symbolic link, or content the source has held.\<close>

definition published :: "('s, 'd) shared \<Rightarrow> string \<Rightarrow> bool" where
  "published s rel \<longleftrightarrow> rel \<in> set (sh_links s) \<or> (\<exists>c. cntD (sh_dst s) (nmD rel) = Some c \<and> from_source (sh_past s) rel (el_hash lib c))"

fun phase_ok :: "('s, 'd) shared \<Rightarrow> 'w phase \<Rightarrow> bool" where
  "phase_ok s (Signed f sg) \<longleftrightarrow> from_source (sh_past s) (fm_rel f) (s_digest sg)"
| "phase_ok s (Sending f sg w) \<longleftrightarrow> from_source (sh_past s) (fm_rel f) (s_digest sg) \<and> ofD (w, sh_dst s) (nmD (fm_rel f)) \<and> live w"
| "phase_ok s (Undoing f w) \<longleftrightarrow> ofD (w, sh_dst s) (nmD (fm_rel f))"
| "phase_ok s _ \<longleftrightarrow> True"

lemma from_source_mono: "from_source past rel d \<Longrightarrow> set past \<subseteq> set past' \<Longrightarrow> from_source past' rel d"
  unfolding from_source_def by blast

lemma phase_ok_mono: "phase_ok s p \<Longrightarrow> set (sh_past s) \<subseteq> set (sh_past s') \<Longrightarrow> phase_ok s' p"
  by (cases p) (auto intro: from_source_mono shr.open_any)

lemma published_mono:
  "published s rel \<Longrightarrow> set (sh_past s) \<subseteq> set (sh_past s') \<Longrightarrow> set (sh_links s) \<subseteq> set (sh_links s') \<Longrightarrow>
   cntD (sh_dst s') (nmD rel) = cntD (sh_dst s) (nmD rel) \<Longrightarrow> published s' rel"
  unfolding published_def by (auto intro: from_source_mono)

lemma worker_grows:
  "worker_step cfg lib E (p, s) (p', s') \<Longrightarrow> set (sh_past s) \<subseteq> set (sh_past s') \<and> set (sh_links s) \<subseteq> set (sh_links s')"
  by (cases rule: worker_stepE) (auto simp: Let_def split: if_splits)

lemma worker_phase:
  assumes "worker_step cfg lib E (p, s) (p', s')" and "phase_ok s p"
    and "\<forall>rel \<in> set (held p). usrS (nmS rel) \<and> usrD (nmD rel)"
  shows "phase_ok s' p'"
  using assms(1)
proof cases
  case (sign f a r5 src')
  with assms(3) sign_digest [of a f "sh_src s" _ src'] show ?thesis
    by (auto simp: from_source_def split: sum.splits)
next
  case (begin_write sg f r6 d')
  with assms(2) show ?thesis
    by (auto split: sum.splits dest: shr.live_begin dst.begin_for)
next
  case (send a w w' d' e f sg)
  with assms(2,3) dst.step [of w "sh_dst s" "nmD (fm_rel f)" a] shr.live_write [of w a "sh_dst s"] show ?thesis by auto
next
  case (commit_fails sg f w w' d' e)
  with assms(2,3) show ?thesis by (auto dest: dst.step)
qed (use assms(2) in \<open>auto simp: Let_def split: if_splits sum.splits intro: phase_ok_mono\<close>)

lemma chmod_keeps:
  "extras_ok E cntD nmD \<Longrightarrow> es_dst_chmod E = Some ch \<Longrightarrow> ch rel m d = (e, d') \<Longrightarrow> cntD d' = cntD d"
  unfolding extras_ok_def by blast

lemma symlink_keeps:
  "extras_ok E cntD nmD \<Longrightarrow> es_dst_link E = Some wr \<Longrightarrow> ln_symlink wr target rel d = (e, d') \<Longrightarrow> k \<noteq> nmD rel \<Longrightarrow> cntD d' k = cntD d k"
  unfolding extras_ok_def by blast

lemma commit_publishes:
  assumes "phase_ok s (Sending f sg w)" and "usrD (nmD (fm_rel f))"
    and "tr_step (es_dst E) (SCommit (s_digest sg) m mt) (w, sh_dst s) = ((w', d'), e)"
  shows "k \<noteq> nmD (fm_rel f) \<Longrightarrow> cntD d' k = cntD (sh_dst s) k"
    and "cntD d' (nmD (fm_rel f)) = cntD (sh_dst s) (nmD (fm_rel f)) \<or> published (s\<lparr>sh_dst := d'\<rparr>) (fm_rel f)"
    and "e = None \<Longrightarrow> published (s\<lparr>sh_dst := d'\<rparr>) (fm_rel f)"
proof -
  have o: "ofD (w, sh_dst s) (nmD (fm_rel f))" "live w" "from_source (sh_past s) (fm_rel f) (s_digest sg)"
    using assms(1) by simp_all
  show "k \<noteq> nmD (fm_rel f) \<Longrightarrow> cntD d' k = cntD (sh_dst s) k"
    using dst.step [OF o(1) assms(2,3)] by blast
  show "cntD d' (nmD (fm_rel f)) = cntD (sh_dst s) (nmD (fm_rel f)) \<or> published (s\<lparr>sh_dst := d'\<rparr>) (fm_rel f)"
    using shr.commit_any [OF o(1) assms(2,3)] o(3) by (auto simp: published_def)
  assume "e = None"
  then obtain c where "cntD d' (nmD (fm_rel f)) = Some c" "el_hash lib c = s_digest sg"
    using shr.live_commit [OF o(2,1) assms(2)] assms(3) by blast
  with o(3) show "published (s\<lparr>sh_dst := d'\<rparr>) (fm_rel f)" by (simp add: published_def)
qed

lemma published_log [simp]:
  "published (logged f o' s) rel = published s rel" "published (s\<lparr>sh_queue := q\<rparr>) rel = published s rel"
  by (simp_all add: published_def)

lemma worker_frame:
  assumes "worker_step cfg lib E (p, s) (p', s')" and "phase_ok s p" and "extras_ok E cntD nmD"
    and "\<forall>rel \<in> set (held p). usrD (nmD rel) \<and> nmD rel \<noteq> k"
  shows "cntD (sh_dst s') k = cntD (sh_dst s) k"
  using assms(1)
proof cases
  case (chmod ch f e d')
  with chmod_keeps [OF assms(3) chmod(3,4)] show ?thesis by (auto split: if_splits)
next
  case (symlink wr target f e d')
  with symlink_keeps [OF assms(3) symlink(3,4), of k] assms(4) show ?thesis by (auto simp: Let_def split: if_splits)
next
  case (send a w w' d' e f sg)
  with assms(2,4) dst.step [of w "sh_dst s" "nmD (fm_rel f)" a] show ?thesis by auto
next
  case (commit sg f w w' d')
  with commit_publishes(1) [of s f sg w] assms(2,4) show ?thesis by auto
next
  case (commit_unlogged sg f w w' d')
  with commit_publishes(1) [of s f sg w] assms(2,4) show ?thesis by auto
next
  case (commit_fails sg f w w' d' e)
  with commit_publishes(1) [of s f sg w] assms(2,4) show ?thesis by auto
qed (use assms(2,4) in \<open>auto simp: Let_def split: if_splits sum.splits
       dest: dst.stat dst.open_keeps dst.sig dst.mkdir dst.begin_keeps shr.abort_quiet\<close>)

lemma worker_publishes:
  assumes "worker_step cfg lib E (p, s) (p', s')" and "phase_ok s p" and "extras_ok E cntD nmD"
    and "rel \<in> set (held p)" and "usrD (nmD rel)"
  shows "cntD (sh_dst s') (nmD rel) = cntD (sh_dst s) (nmD rel) \<or> published s' rel"
  using assms(1)
proof cases
  case (chmod ch f e d')
  with chmod_keeps [OF assms(3) chmod(3,4)] show ?thesis by (auto split: if_splits)
next
  case (symlink wr target f e d')
  with assms(4) show ?thesis by (auto simp: Let_def published_def split: if_splits)
next
  case (send a w w' d' e f sg)
  with assms(2,4,5) dst.step [of w "sh_dst s" "nmD (fm_rel f)" a] show ?thesis by auto
next
  case (commit sg f w w' d')
  with commit_publishes(2) [of s f sg w] assms(2,4,5) show ?thesis by auto
next
  case (commit_unlogged sg f w w' d')
  with commit_publishes(2) [of s f sg w] assms(2,4,5) show ?thesis by auto
next
  case (commit_fails sg f w w' d' e)
  with commit_publishes(2) [of s f sg w] assms(2,4,5) show ?thesis by auto
qed (use assms(2,4,5) in \<open>auto simp: Let_def split: if_splits sum.splits
       dest: dst.stat dst.open_keeps dst.sig dst.mkdir dst.begin_keeps shr.abort_quiet\<close>)

text \<open>A file is counted as copied when it is published.\<close>

lemma worker_logs:
  assumes "worker_step cfg lib E (p, s) (p', s')" and "phase_ok s p" and "\<forall>rel \<in> set (held p). usrD (nmD rel)"
    and "(rel, OCopied) \<in> set (sh_log s')" and "(rel, OCopied) \<notin> set (sh_log s)"
  shows "rel \<in> set (held p) \<and> published s' rel"
  using assms(1)
proof cases
  case (symlink wr target f e d')
  with assms(4,5) show ?thesis by (auto simp: Let_def published_def split: if_splits)
next
  case (commit sg f w w' d')
  with commit_publishes(3) [of s f sg w "fm_mode f" "Some (fm_mod f)" w' d' None] assms(2-5) show ?thesis by auto
qed (use assms(4,5) in \<open>auto simp: Let_def split: if_splits sum.splits\<close>)

text \<open>
  The invariant of a job: every file is in one place; the phases are as they should be; the destination holds what it
  held before or, for a file of the job, something published; and what was counted as copied is published.
\<close>

definition job_inv :: "file_meta list \<Rightarrow> 'd \<Rightarrow> 'w phase list \<times> ('s, 'd) shared \<Rightarrow> bool" where
  "job_inv files dst0 x \<longleftrightarrow>
     whereabouts x = mset (map fm_rel files) \<and> (\<forall>p \<in> set (fst x). phase_ok (snd x) p) \<and>
     (\<forall>k. cntD (sh_dst (snd x)) k = cntD dst0 k \<or> (\<exists>rel \<in> fm_rel ` set files. k = nmD rel \<and> published (snd x) rel)) \<and>
     (\<forall>rel. (rel, OCopied) \<in> set (sh_log (snd x)) \<longrightarrow> published (snd x) rel)"

lemma start_inv: "job_inv files dst (job_start n files src dst)"
  unfolding job_inv_def start_files by (auto simp: job_start_def)

lemma held_once:
  assumes "whereabouts (ws, s) = mset (map fm_rel files)" and "distinct (map fm_rel files)" and "p \<in> set ws" and "rel \<in> set (held p)"
  shows "rel \<in> fm_rel ` set files" and "rel \<notin> fst ` set (sh_log s)"
proof -
  have "rel \<in># (\<Sum>p\<leftarrow>ws. mset (held p))"
    using assms(3,4) by (induction ws) auto
  then have c: "0 < count (\<Sum>p\<leftarrow>ws. mset (held p)) rel" and "rel \<in># whereabouts (ws, s)"
    by (simp_all add: whereabouts_def)
  then show "rel \<in> fm_rel ` set files" using assms(1) by simp
  have sum: "count (whereabouts (ws, s)) rel =
    count (mset (map fm_rel (sh_queue s))) rel + count (\<Sum>p\<leftarrow>ws. mset (held p)) rel + count (mset (map fst (sh_log s))) rel"
    by (simp add: whereabouts_def)
  have "count (mset (map fm_rel files)) rel \<le> 1"
    using assms(2) by (simp add: distinct_count_atmost_1)
  then have "count (mset (map fst (sh_log s))) rel = 0" using c sum unfolding assms(1) by linarith
  then show "rel \<notin> fst ` set (sh_log s)" by (simp add: count_eq_zero_iff)
qed

lemma step_inv:
  assumes "job_step cfg lib E x y" and inv: "job_inv files dst0 x" and ex: "extras_ok E cntD nmD" and dist: "distinct (map fm_rel files)"
    and inj: "inj_on nmD (fm_rel ` set files)" and usr: "\<forall>f \<in> set files. usrS (nmS (fm_rel f)) \<and> usrD (nmD (fm_rel f))"
  shows "job_inv files dst0 y"
  using assms(1)
proof cases
  case (source_changes ws s src)
  have "phase_ok (s\<lparr>sh_src := src\<rparr>) p" if "phase_ok s p" for p
    using phase_ok_mono [OF that] by simp
  moreover have "published (s\<lparr>sh_src := src\<rparr>) rel = published s rel" for rel
    by (simp add: published_def)
  moreover have "whereabouts (ws, s\<lparr>sh_src := src\<rparr>) = whereabouts (ws, s)"
    by (simp add: whereabouts_def)
  ultimately show ?thesis
    using inv unfolding job_inv_def source_changes by auto
next
  case (work i ws s p' s')
  let ?p = "ws ! i"
  note st = work(4)
  have mem: "?p \<in> set ws" using work(3) by simp
  have wh: "whereabouts (ws, s) = mset (map fm_rel files)" and ph: "\<forall>p \<in> set ws. phase_ok s p"
    and con: "\<And>k. cntD (sh_dst s) k = cntD dst0 k \<or> (\<exists>rel \<in> fm_rel ` set files. k = nmD rel \<and> published s rel)"
    and lg: "\<And>rel. (rel, OCopied) \<in> set (sh_log s) \<Longrightarrow> published s rel"
    using inv work(1) by (simp_all add: job_inv_def)
  note ok = bspec [OF ph mem]
  have hu: "\<forall>rel \<in> set (held ?p). usrS (nmS rel) \<and> usrD (nmD rel)"
    using held_once(1) [OF wh dist mem] usr by auto
  then have hd: "\<forall>rel \<in> set (held ?p). usrD (nmD rel)" by blast
  note grow = worker_grows [OF st]
  have keep: "published s' rel" if "published s rel" "cntD (sh_dst s') (nmD rel) = cntD (sh_dst s) (nmD rel)" for rel
    using published_mono [OF that(1) _ _ that(2)] grow by blast
  have "phase_ok s' q" if "q \<in> set (ws[i := p'])" for q
    using that worker_phase [OF st ok hu] phase_ok_mono [of s _ s'] ph grow set_update_subset_insert [of ws i p'] by blast
  moreover have "whereabouts (ws[i := p'], s') = mset (map fm_rel files)"
    using job_step_keeps_files [OF assms(1)] ex wh work(1,2) by (simp add: extras_ok_def stat_names_def)
  moreover have "cntD (sh_dst s') k = cntD dst0 k \<or> (\<exists>rel \<in> fm_rel ` set files. k = nmD rel \<and> published s' rel)" for k
  proof (cases "\<exists>rel \<in> set (held ?p). k = nmD rel")
    case False
    then have "cntD (sh_dst s') k = cntD (sh_dst s) k"
      using worker_frame [OF st ok ex, of k] hd by blast
    then show ?thesis using con [of k] keep by auto
  next
    case True
    then obtain rel where rel: "rel \<in> set (held ?p)" "k = nmD rel" by blast
    from worker_publishes [OF st ok ex rel(1)] hd rel(1)
    consider "cntD (sh_dst s') k = cntD (sh_dst s) k" | "published s' rel" using rel(2) by blast
    then show ?thesis
    proof cases
      case 1
      then show ?thesis using con [of k] keep by auto
    next
      case 2
      then show ?thesis using held_once(1) [OF wh dist mem rel(1)] rel(2) by blast
    qed
  qed
  moreover have "published s' rel" if "(rel, OCopied) \<in> set (sh_log s')" for rel
  proof (cases "(rel, OCopied) \<in> set (sh_log s)")
    case False
    then show ?thesis using worker_logs [OF st ok hd that] by blast
  next
    case True
    have "rel \<in># whereabouts (ws, s)"
      using image_eqI [of rel fst "(rel, OCopied)", OF _ True] by (simp add: whereabouts_def)
    then have r: "rel \<in> fm_rel ` set files" using wh by simp
    have "nmD x \<noteq> nmD rel" if "x \<in> set (held ?p)" for x
      using held_once [OF wh dist mem that] True r inj_onD [OF inj, of x rel] by force
    then have "cntD (sh_dst s') (nmD rel) = cntD (sh_dst s) (nmD rel)"
      using worker_frame [OF st ok ex, of "nmD rel"] hd by blast
    with lg [OF True] show ?thesis by (rule keep)
  qed
  ultimately show ?thesis by (simp add: job_inv_def work(2))
qed

lemma run_inv:
  assumes "job_run cfg lib E (job_start n files src dst) y" and "extras_ok E cntD nmD" and "distinct (map fm_rel files)"
    and "inj_on nmD (fm_rel ` set files)" and "\<forall>f \<in> set files. usrS (nmS (fm_rel f)) \<and> usrD (nmD (fm_rel f))"
  shows "job_inv files dst y"
  using assms(1) by (induction rule: rtranclp_induct) (auto intro: start_inv step_inv [OF _ _ assms(2-5)])

end

end
