(* ===== verification/WorkersJob.thy ===== *)
theory WorkersJob
  imports Workers
begin

text \<open>
  What the workers of a job promise (\<open>Run\<close> in \<open>internal/engine/engine.go\<close>): the engine's sequential transfer as a run
  of one worker, the in-process store as a store that sessions share, and the properties.
\<close>

section \<open>A worker alone\<close>

text \<open>The steps of one worker when the others rest, and its run as part of a job.\<close>

inductive solo_step ::
  "config \<Rightarrow> engine_lib \<Rightarrow> ('s, 'v, 'd, 'w) endpoints \<Rightarrow> 'w phase \<times> ('s, 'd) shared \<Rightarrow> 'w phase \<times> ('s, 'd) shared \<Rightarrow> bool"
  for cfg lib E where
  own: "worker_step cfg lib E x y \<Longrightarrow> solo_step cfg lib E x y"
| outside: "solo_step cfg lib E (p, s) (p, s\<lparr>sh_src := src\<rparr>)"

abbreviation solo_run :: "config \<Rightarrow> engine_lib \<Rightarrow> ('s, 'v, 'd, 'w) endpoints \<Rightarrow> 'w phase \<times> ('s, 'd) shared \<Rightarrow> 'w phase \<times> ('s, 'd) shared \<Rightarrow> bool" where
  "solo_run cfg lib E \<equiv> (solo_step cfg lib E)\<^sup>*\<^sup>*"

lemma solo_own: "worker_step cfg lib E x y \<Longrightarrow> solo_run cfg lib E x y"
  by (blast intro: solo_step.own)

lemma solo_outside: "solo_run cfg lib E (p, s) (p, s\<lparr>sh_src := src\<rparr>)"
  by (blast intro: solo_step.outside)

lemma solo_in_job:
  assumes "solo_run cfg lib E x y" and "i < length ws" and "ws ! i = fst x"
  shows "job_run cfg lib E (ws, snd x) (ws[i := fst y], snd y)"
  using assms(1)
proof (induction rule: rtranclp_induct)
  case base
  then show ?case using assms(3) by (metis list_update_id rtranclp.rtrancl_refl)
next
  case (step y z)
  have "job_step cfg lib E (ws[i := fst y], snd y) (ws[i := fst z], snd z)"
    using step.hyps(2)
  proof cases
    case own
    then show ?thesis
      using job_step.work [of i "ws[i := fst y]" cfg lib E "snd y" "fst z" "snd z"] assms(2) by simp
  next
    case (outside p s src)
    then show ?thesis using job_step.source_changes by fastforce
  qed
  with step.IH show ?case by (rule rtranclp.rtrancl_into_rtrancl)
qed

text \<open>The shared state with the two sides of an engine's state.\<close>

definition seeing :: "('s, 'd) engine \<Rightarrow> ('s, 'd) shared \<Rightarrow> ('s, 'd) shared" where
  "seeing st s = s\<lparr>sh_src := en_src st, sh_dst := en_dst st\<rparr>"

lemma seeing_simps [simp]:
  "sh_src (seeing st s) = en_src st" "sh_dst (seeing st s) = en_dst st" "sh_queue (seeing st s) = sh_queue s"
  "sh_log (seeing st s) = sh_log s" "sh_past (seeing st s) = sh_past s" "sh_links (seeing st s) = sh_links s"
  "seeing st (seeing st' s) = seeing st s"
  by (simp_all add: seeing_def)

lemma seeing_fold:
  "(seeing st s)\<lparr>sh_dst := d\<rparr> = seeing (st\<lparr>en_dst := d\<rparr>) s"
  "(seeing st s)\<lparr>sh_src := x\<rparr> = seeing (st\<lparr>en_src := x\<rparr>) s"
  by (simp_all add: seeing_def)

lemma seeing_books [simp]:
  "seeing (st\<lparr>en_journal := j\<rparr>) s = seeing st s" "seeing (st\<lparr>en_index := c\<rparr>) s = seeing st s"
  "seeing (drop_index lib a rel st) s = seeing st s" "seeing (put_failed cfg lib a rel n e st) s = seeing st s"
  by (simp_all add: seeing_def)

lemma seeing_cong: "en_src st = en_src st' \<Longrightarrow> en_dst st = en_dst st' \<Longrightarrow> seeing st s = seeing st' s"
  by (simp add: seeing_def)

text \<open>Looks at the two sides.\<close>

lemma run_stat:
  "checks p \<noteq> None \<Longrightarrow> tr_stat (es_dst E) rel (en_dst st) = (r, d') \<Longrightarrow>
   solo_run cfg lib E (p, seeing st s) (p, seeing (st\<lparr>en_dst := d'\<rparr>) s)"
  using worker_step.dst_stat [of p E rel "seeing st s" r d' cfg lib] by (auto simp: seeing_fold intro: solo_own)

lemma run_open:
  "checks p \<noteq> None \<Longrightarrow> tr_open (es_dst E) rel (en_dst st) = (r, d') \<Longrightarrow>
   solo_run cfg lib E (p, seeing st s) (p, seeing (st\<lparr>en_dst := d'\<rparr>) s)"
  using worker_step.dst_open [of p E rel "seeing st s" r d' cfg lib] by (auto simp: seeing_fold intro: solo_own)

lemma run_sig:
  "checks p \<noteq> None \<Longrightarrow> tr_sig (es_dst E) rel (en_dst st) = (r, d') \<Longrightarrow>
   solo_run cfg lib E (p, seeing st s) (p, seeing (st\<lparr>en_dst := d'\<rparr>) s)"
  using worker_step.dst_sig [of p E rel "seeing st s" r d' cfg lib] by (auto simp: seeing_fold intro: solo_own)

lemma run_digest:
  "checks p \<noteq> None \<Longrightarrow> fileDigestMatches h cl (es_dst E) rel want (en_dst st) = (r, d') \<Longrightarrow>
   solo_run cfg lib E (p, seeing st s) (p, seeing (st\<lparr>en_dst := d'\<rparr>) s)"
  by (auto simp: fileDigestMatches_def split: prod.splits sum.splits option.splits intro: run_open)

lemma run_outside: "solo_run cfg lib E (p, seeing st s) (p, seeing (st\<lparr>en_src := x\<rparr>) s)"
  using solo_outside [of cfg lib E p "seeing st s" x] by (simp add: seeing_fold)

lemma resume_run:
  assumes "try_resume cfg lib a E meta st = (r, st')"
  shows "solo_run cfg lib E (Looking meta, seeing st s) (Looking meta, seeing st' s)"
proof -
  let ?R = "\<lambda>st'. solo_run cfg lib E (Looking meta, seeing st s) (Looking meta, seeing st' s)"
  consider "en_src st' = en_src st" "en_dst st' = en_dst st"
    | m d1 where "tr_stat (es_dst E) (fm_rel meta) (en_dst st) = (m, d1)" "en_src st' = en_src st" "en_dst st' = d1"
    | m d1 want b d2 where "tr_stat (es_dst E) (fm_rel meta) (en_dst st) = (m, d1)"
        "fileDigestMatches (el_hash lib) (at_close a 2) (es_dst E) (fm_rel meta) want d1 = (b, d2)" "en_dst st' = d2"
    using assms
    by (auto simp: try_resume_def Let_def split: option.splits prod.splits if_splits sum.splits bool.splits)
  then show ?thesis
  proof cases
    case 1
    show ?thesis unfolding seeing_cong [OF 1] by (rule rtranclp.rtrancl_refl)
  next
    case 2
    then have "seeing st' s = seeing (st\<lparr>en_dst := d1\<rparr>) s" by (intro seeing_cong) simp_all
    then show ?thesis using run_stat [of "Looking meta" E _ st m d1 cfg lib s] 2(1) by simp
  next
    case 3
    have "?R (st\<lparr>en_dst := d1\<rparr>)" using 3 by (auto intro: run_stat)
    moreover have "solo_run cfg lib E (Looking meta, seeing (st\<lparr>en_dst := d1\<rparr>) s) (Looking meta, seeing (st\<lparr>en_dst := d2\<rparr>) s)"
      using run_digest [of "Looking meta" "el_hash lib" _ E _ want "st\<lparr>en_dst := d1\<rparr>" b d2 cfg lib s] 3 by simp
    moreover have "seeing st' s = seeing (st\<lparr>en_dst := d2, en_src := en_src st'\<rparr>) s"
      using 3(3) by (intro seeing_cong) simp_all
    then have "solo_run cfg lib E (Looking meta, seeing (st\<lparr>en_dst := d2\<rparr>) s) (Looking meta, seeing st' s)"
      using run_outside [of cfg lib E "Looking meta" "st\<lparr>en_dst := d2\<rparr>" s "en_src st'"] by simp
    ultimately show ?thesis by (meson rtranclp_trans)
  qed
qed

lemma same_run:
  "try_same cfg E meta force st = (r, st') \<Longrightarrow> solo_run cfg lib E (Looking meta, seeing st s) (Looking meta, seeing st' s)"
  by (auto simp: try_same_def split: if_splits prod.splits sum.splits intro: run_stat)

lemma cached_run:
  assumes "cached_signature cfg lib a E meta force st = (r, st')"
  shows "solo_run cfg lib E (Signed meta sg, seeing st s) (Signed meta sg, seeing st' s)"
proof -
  consider "en_src st' = en_src st" "en_dst st' = en_dst st"
    | m d1 where "tr_stat (es_dst E) (fm_rel meta) (en_dst st) = (m, d1)" "en_src st' = en_src st" "en_dst st' = d1"
    | m d1 want b d2 where "tr_stat (es_dst E) (fm_rel meta) (en_dst st) = (m, d1)"
        "fileDigestMatches (el_hash lib) (at_close a 4) (es_dst E) (fm_rel meta) want d1 = (b, d2)" "en_src st' = en_src st" "en_dst st' = d2"
    using assms
    by (auto simp: cached_signature_def Let_def split: option.splits prod.splits if_splits sum.splits bool.splits)
  then show ?thesis
  proof cases
    case 1
    show ?thesis unfolding seeing_cong [OF 1] by (rule rtranclp.rtrancl_refl)
  next
    case 2
    then have "seeing st' s = seeing (st\<lparr>en_dst := d1\<rparr>) s" by (intro seeing_cong) simp_all
    then show ?thesis using run_stat [of "Signed meta sg" E _ st m d1 cfg lib s] 2(1) by simp
  next
    case 3
    have "solo_run cfg lib E (Signed meta sg, seeing st s) (Signed meta sg, seeing (st\<lparr>en_dst := d1\<rparr>) s)"
      using 3 by (auto intro: run_stat)
    moreover have "seeing st' s = seeing (st\<lparr>en_dst := d2\<rparr>) s"
      using 3(3,4) by (intro seeing_cong) simp_all
    then have "solo_run cfg lib E (Signed meta sg, seeing (st\<lparr>en_dst := d1\<rparr>) s) (Signed meta sg, seeing st' s)"
      using run_digest [of "Signed meta sg" "el_hash lib" _ E _ want "st\<lparr>en_dst := d1\<rparr>" b d2 cfg lib s] 3(2) by simp
    ultimately show ?thesis by (meson rtranclp_trans)
  qed
qed

lemma dest_signature_run:
  assumes "dest_signature cfg lib a E meta force st = (r, st')"
  shows "solo_run cfg lib E (Signed meta sg, seeing st s) (Signed meta sg, seeing st' s)"
proof -
  obtain c st1 where c: "cached_signature cfg lib a E meta force st = (c, st1)" by force
  have "st' = st1 \<or> (\<exists>g d1. tr_sig (es_dst E) (fm_rel meta) (en_dst st1) = (g, d1) \<and> st' = st1\<lparr>en_dst := d1\<rparr>)"
    using assms c by (auto simp: dest_signature_def split: sum.splits if_splits prod.splits)
  then have "solo_run cfg lib E (Signed meta sg, seeing st1 s) (Signed meta sg, seeing st' s)"
    by (auto intro: run_sig)
  with cached_run [OF c] show ?thesis by (meson rtranclp_trans)
qed

text \<open>The second pass and its ends.\<close>

lemma sends_run:
  "run_ops (tr_step (es_dst E)) as (w, en_dst st) = ((w', d'), es) \<Longrightarrow> \<forall>a \<in> set as. writes a \<Longrightarrow>
   solo_run cfg lib E (Sending f sg w, seeing st s) (Sending f sg w', seeing (st\<lparr>en_dst := d'\<rparr>) s)"
proof (induction as arbitrary: w st es)
  case Nil
  then show ?case by (auto simp: seeing_def)
next
  case (Cons a as)
  obtain w1 d1 e es' where st: "tr_step (es_dst E) a (w, en_dst st) = ((w1, d1), e)"
    "run_ops (tr_step (es_dst E)) as (w1, d1) = ((w', d'), es')"
    using Cons.prems(1) by (auto split: prod.splits)
  have "worker_step cfg lib E (Sending f sg w, seeing st s) (Sending f sg w1, seeing (st\<lparr>en_dst := d1\<rparr>) s)"
    using worker_step.send [of a E w "seeing st s" w1 d1 e cfg lib f sg] st(1) Cons.prems(2) by (simp add: seeing_fold)
  then have "solo_step cfg lib E (Sending f sg w, seeing st s) (Sending f sg w1, seeing (st\<lparr>en_dst := d1\<rparr>) s)"
    by (rule solo_step.own)
  moreover have "solo_run cfg lib E (Sending f sg w1, seeing (st\<lparr>en_dst := d1\<rparr>) s) (Sending f sg w', seeing (st\<lparr>en_dst := d'\<rparr>) s)"
    using Cons.IH [of w1 "st\<lparr>en_dst := d1\<rparr>" es'] st(2) Cons.prems(2) by simp
  ultimately show ?case by (rule converse_rtranclp_into_rtranclp)
qed

lemma quiet_solo:
  "quiet_run (es_dst E) (w, en_dst st) (w', d') \<Longrightarrow>
   solo_run cfg lib E (Sending f sg w, seeing st s) (Sending f sg w', seeing (st\<lparr>en_dst := d'\<rparr>) s)"
  unfolding quiet_run_def by (auto intro: sends_run)

lemma abort_run:
  "solo_run cfg lib E (Sending f sg w, seeing st s) (Failing f, seeing (st\<lparr>en_dst := aborted (es_dst E) (w, en_dst st)\<rparr>) s)"
proof -
  obtain w' d' e where a: "tr_step (es_dst E) SAbort (w, en_dst st) = ((w', d'), e)" by (metis prod.exhaust)
  then show ?thesis
    using worker_step.abort [of E w "seeing st s" w' d' e cfg lib f sg] by (auto simp: seeing_fold aborted_def intro: solo_own)
qed

lemma undo_run:
  "solo_run cfg lib E (Undoing f w, seeing st s) (Failing f, seeing (st\<lparr>en_dst := aborted (es_dst E) (w, en_dst st)\<rparr>) s)"
proof -
  obtain w' d' e where a: "tr_step (es_dst E) SAbort (w, en_dst st) = ((w', d'), e)" by (metis prod.exhaust)
  then show ?thesis
    using worker_step.undo [of E w "seeing st s" w' d' e cfg lib f] by (auto simp: seeing_fold aborted_def intro: solo_own)
qed

text \<open>How an attempt at \<open>f\<close> ends, from the bookkeeping of \<open>s\<close>: free with an entry in the log, or to be retried or given up.\<close>

definition ended :: "file_meta \<Rightarrow> try_result \<Rightarrow> ('s, 'd) shared \<Rightarrow> 'w phase \<Rightarrow> ('s, 'd) shared \<Rightarrow> bool" where
  "ended f r s p s' \<longleftrightarrow> sh_queue s' = sh_queue s \<and>
     (case tx_status r of
        SSkipped \<Rightarrow> p = Free \<and> sh_log s' = (fm_rel f, OSkipped) # sh_log s
      | SDry \<Rightarrow> p = Free \<and> sh_log s' = (fm_rel f, ODry) # sh_log s
      | SOk \<Rightarrow> p = Free \<and> sh_log s' = (fm_rel f, if mode_is_dir (fm_mode f) then OHandled else OCopied) # sh_log s
      | SFailed \<Rightarrow> p = Failing f \<and> sh_log s' = sh_log s)"

lemma logged_seeing: "logged f o' (seeing st s) = seeing st (logged f o' s)"
  by (simp add: logged_def seeing_def)

lemma ended_failed: "tx_status r = SFailed \<Longrightarrow> ended f r s (Failing f) s"
  by (simp add: ended_def)

lemma commit_run:
  assumes "try_commit cfg lib a E meta sg pl x (w, d) st = (r, st')" and "\<not> mode_is_dir (fm_mode meta)"
  shows "\<exists>p s'. solo_run cfg lib E (Sending meta sg w, seeing (st\<lparr>en_dst := d\<rparr>) s) (p, seeing st' s') \<and> ended meta r s p s'"
proof -
  obtain w' d' e where c: "tr_step (es_dst E) (SCommit (s_digest sg) (fm_mode meta) (Some (fm_mod meta))) (w, d) = ((w', d'), e)"
    by (metis prod.exhaust)
  show ?thesis
  proof (cases e)
    case (Some y)
    have r: "r = tx_failed y" "st' = st\<lparr>en_dst := aborted (es_dst E) (w', d')\<rparr>"
      using assms(1) c Some by (auto simp: try_commit_def)
    have "solo_run cfg lib E (Sending meta sg w, seeing (st\<lparr>en_dst := d\<rparr>) s) (Undoing meta w', seeing (st\<lparr>en_dst := d'\<rparr>) s)"
      using worker_step.commit_fails [of E sg meta w "seeing (st\<lparr>en_dst := d\<rparr>) s" w' d' y cfg lib] c Some
      by (auto simp: seeing_fold intro: solo_own)
    moreover have "solo_run cfg lib E (Undoing meta w', seeing (st\<lparr>en_dst := d'\<rparr>) s) (Failing meta, seeing st' s)"
      using undo_run [of cfg lib E meta w' "st\<lparr>en_dst := d'\<rparr>" s] r(2) by simp
    ultimately have "solo_run cfg lib E (Sending meta sg w, seeing (st\<lparr>en_dst := d\<rparr>) s) (Failing meta, seeing st' s)"
      by (meson rtranclp_trans)
    moreover have "ended meta r s (Failing meta) s" using r(1) by (simp add: ended_def no_bytes_def)
    ultimately show ?thesis by blast
  next
    case None
    have st': "seeing st' s0 = seeing (st\<lparr>en_dst := d'\<rparr>) s0" for s0
      using assms(1) c None
      by (intro seeing_cong) (auto simp: try_commit_def Let_def split: option.splits prod.splits)
    consider "tx_status r = SOk" | "tx_status r = SFailed"
      using assms(1) c None by (auto simp: try_commit_def no_bytes_def Let_def split: option.splits prod.splits)
    then show ?thesis
    proof cases
      case 1
      have "solo_run cfg lib E (Sending meta sg w, seeing (st\<lparr>en_dst := d\<rparr>) s) (Free, seeing st' (logged meta OCopied s))"
        using worker_step.commit [of E sg meta w "seeing (st\<lparr>en_dst := d\<rparr>) s" w' d' cfg lib] c None
        by (auto simp: seeing_fold logged_seeing st' intro: solo_own)
      moreover have "ended meta r s Free (logged meta OCopied s)"
        using 1 assms(2) by (simp add: ended_def)
      ultimately show ?thesis by blast
    next
      case 2
      have "solo_run cfg lib E (Sending meta sg w, seeing (st\<lparr>en_dst := d\<rparr>) s) (Failing meta, seeing st' s)"
        using worker_step.commit_unlogged [of E sg meta w "seeing (st\<lparr>en_dst := d\<rparr>) s" w' d' cfg lib] c None
        by (auto simp: seeing_fold st' intro: solo_own)
      with ended_failed [OF 2] show ?thesis by blast
    qed
  qed
qed

lemma try_dir_run:
  assumes "try_dir cfg E meta st = (r, st')" and "mode_is_dir (fm_mode meta)"
  shows "\<exists>p s'. solo_run cfg lib E (Looking meta, seeing st s) (p, seeing st' s') \<and> ended meta r s p s'"
proof (cases "cf_dry cfg")
  case True
  have "solo_run cfg lib E (Looking meta, seeing st s) (Free, seeing st (logged meta ODry s))"
    using worker_step.dry_run [of "Looking meta" meta cfg lib E "seeing st s"] True by (auto simp: logged_seeing intro: solo_own)
  moreover have "r = no_bytes SDry None" "st' = st" using assms(1) True by (auto simp: try_dir_def)
  ultimately show ?thesis by (intro exI conjI) (auto simp: ended_def no_bytes_def)
next
  case False
  obtain e d1 where m: "tr_mkdir (es_dst E) (fm_rel meta) (en_dst st) = (e, d1)" by force
  note mk = worker_step.mkdir [of meta cfg E "seeing st s" e d1 lib, OF assms(2) False, simplified seeing_simps, OF m]
  show ?thesis
  proof (cases e)
    case (Some y)
    with assms(1) False m have "tx_status r = SFailed" "st' = st\<lparr>en_dst := d1\<rparr>"
      by (auto simp: try_dir_def no_bytes_def)
    with mk Some show ?thesis
      by (intro exI [of _ "Failing meta"] exI [of _ s]) (auto simp: seeing_fold intro: solo_own ended_failed)
  next
    case None
    have made: "solo_run cfg lib E (Looking meta, seeing st s) (Made meta, seeing (st\<lparr>en_dst := d1\<rparr>) s)"
      using mk None by (auto simp: seeing_fold intro: solo_own)
    show ?thesis
    proof (cases "es_dst_chmod E = None \<or> fm_mode meta = 0")
      case True
      have "solo_run cfg lib E (Made meta, seeing (st\<lparr>en_dst := d1\<rparr>) s) (Free, seeing (st\<lparr>en_dst := d1\<rparr>) (logged meta OHandled s))"
        using worker_step.made [OF True, of cfg lib "seeing (st\<lparr>en_dst := d1\<rparr>) s"] by (auto simp: logged_seeing intro: solo_own)
      moreover have "r = no_bytes SOk None" "st' = st\<lparr>en_dst := d1\<rparr>"
        using assms(1) False None True m by (auto simp: try_dir_def split: option.splits)
      ultimately show ?thesis
        using made assms(2) by (intro exI [of _ Free] exI [of _ "logged meta OHandled s"]) (auto simp: ended_def no_bytes_def)
    next
      case ch: False
      then obtain ch where c: "es_dst_chmod E = Some ch" "fm_mode meta \<noteq> 0" by auto
      obtain e2 d2 where h: "ch (fm_rel meta) (fm_mode meta) d1 = (e2, d2)" by force
      have step: "worker_step cfg lib E (Made meta, seeing (st\<lparr>en_dst := d1\<rparr>) s)
          (if e2 = None then (Free, logged meta OHandled (seeing (st\<lparr>en_dst := d2\<rparr>) s)) else (Failing meta, seeing (st\<lparr>en_dst := d2\<rparr>) s))"
        using worker_step.chmod [of E ch meta "seeing (st\<lparr>en_dst := d1\<rparr>) s" e2 d2 cfg lib] c(1) h
        by (cases e2) (simp_all add: seeing_fold)
      show ?thesis
      proof (cases e2)
        case (Some y)
        with assms(1) False None m c h have "tx_status r = SFailed" "st' = st\<lparr>en_dst := d2\<rparr>"
          by (auto simp: try_dir_def no_bytes_def)
        with step Some made show ?thesis
          by (intro exI [of _ "Failing meta"] exI [of _ s]) (auto simp: seeing_fold intro: solo_own ended_failed rtranclp_trans)
      next
        case None2: None
        with assms(1) False None m c h have "r = no_bytes SOk None" "st' = st\<lparr>en_dst := d2\<rparr>"
          by (auto simp: try_dir_def)
        with step None2 made assms(2) show ?thesis
          by (intro exI [of _ Free] exI [of _ "logged meta OHandled s"])
             (auto simp: seeing_fold logged_seeing ended_def no_bytes_def intro: solo_own rtranclp_trans)
      qed
    qed
  qed
qed

lemma fails_run:
  "checks p = Some f \<Longrightarrow> solo_run cfg lib E (p, s) (Failing f, s)"
  by (auto intro: solo_own worker_step.check_fails)

lemma try_symlink_run:
  assumes "try_symlink cfg E meta st = (r, st')" and "\<not> mode_is_dir (fm_mode meta)" and "mode_is_symlink (fm_mode meta)"
  shows "\<exists>p s'. solo_run cfg lib E (Looking meta, seeing st s) (p, seeing st' s') \<and> ended meta r s p s'"
proof -
  consider (dry) "cf_dry cfg" | (off) "\<not> cf_dry cfg" "es_src_link E = None \<or> es_dst_link E = None"
    | (on) rd wr where "\<not> cf_dry cfg" "es_src_link E = Some rd" "es_dst_link E = Some wr" by (cases "es_src_link E"; cases "es_dst_link E") auto
  then show ?thesis
  proof cases
    case dry
    have "solo_run cfg lib E (Looking meta, seeing st s) (Free, seeing st (logged meta ODry s))"
      using worker_step.dry_run [of "Looking meta" meta cfg lib E "seeing st s"] dry by (auto simp: logged_seeing intro: solo_own)
    moreover have "r = no_bytes SDry None" "st' = st" using assms(1) dry by (auto simp: try_symlink_def)
    ultimately show ?thesis by (intro exI conjI) (auto simp: ended_def no_bytes_def)
  next
    case off
    then have "tx_status r = SFailed" "st' = st" using assms(1) by (auto simp: try_symlink_def no_bytes_def split: option.splits)
    with fails_run [of "Looking meta" meta cfg lib E "seeing st s"] show ?thesis by (auto intro: ended_failed)
  next
    case on
    obtain lk s1 where rl: "ln_read rd (fm_rel meta) (en_src st) = (lk, s1)" by force
    note rstep = worker_step.readlink [of meta cfg E rd "seeing st s" lk s1 lib, OF assms(2,3) on(1,2)]
    show ?thesis
    proof (cases lk)
      case (Inl e)
      with assms(1) on rl have "tx_status r = SFailed" "st' = st\<lparr>en_src := s1\<rparr>" by (auto simp: try_symlink_def no_bytes_def)
      with rstep rl Inl show ?thesis
        by (intro exI [of _ "Failing meta"] exI [of _ s]) (auto simp: seeing_fold intro: solo_own ended_failed)
    next
      case (Inr target)
      have read: "solo_run cfg lib E (Looking meta, seeing st s) (Linking meta target, seeing (st\<lparr>en_src := s1\<rparr>) s)"
        using rstep rl Inr by (auto simp: seeing_fold intro: solo_own)
      obtain e d1 where wl: "ln_symlink wr target (fm_rel meta) (en_dst st) = (e, d1)" by force
      let ?s = "s\<lparr>sh_links := fm_rel meta # sh_links s\<rparr>" and ?st = "st\<lparr>en_src := s1, en_dst := d1\<rparr>"
      have eq: "(seeing (st\<lparr>en_src := s1\<rparr>) s)\<lparr>sh_dst := d1, sh_links := fm_rel meta # sh_links s\<rparr> = seeing ?st ?s"
        by (simp add: seeing_def)
      have lstep: "solo_run cfg lib E (Linking meta target, seeing (st\<lparr>en_src := s1\<rparr>) s)
          (if e = None then (Free, seeing ?st (logged meta OCopied ?s)) else (Failing meta, seeing ?st ?s))"
        using worker_step.symlink [of E wr target meta "seeing (st\<lparr>en_src := s1\<rparr>) s" e d1 cfg lib] on(3) wl eq
        by (auto simp: logged_seeing Let_def intro: solo_own)
      have st': "st' = ?st" and ok: "tx_status r = (if e = None then SOk else SFailed)"
        using assms(1) on rl Inr wl by (auto simp: try_symlink_def no_bytes_def split: option.splits)
      have "solo_run cfg lib E (Looking meta, seeing st s)
          (if e = None then (Free, seeing st' (logged meta OCopied ?s)) else (Failing meta, seeing st' ?s))"
        using rtranclp_trans [OF read lstep] unfolding st' .
      moreover have "ended meta r s Free (logged meta OCopied ?s)" if "e = None"
        using ok assms(2) that by (simp add: ended_def)
      moreover have "ended meta r s (Failing meta) ?s" if "e \<noteq> None"
        using ok that by (simp add: ended_def)
      ultimately show ?thesis by (cases "e = None") auto
    qed
  qed
qed

text \<open>What a result and the statistics count of the log.\<close>

definition counted :: "outcome \<Rightarrow> file_result \<Rightarrow> bool" where
  "counted o' r \<longleftrightarrow> fr_copied r = of_bool (o' = OCopied) \<and> fr_would r = of_bool (o' = ODry) \<and>
     fr_skipped r = of_bool (o' = OSkipped) \<and> fr_failed r = of_bool (o' = OFailed)"

definition tallied :: "(string \<times> outcome) list \<Rightarrow> stats \<Rightarrow> bool" where
  "tallied es x \<longleftrightarrow> (let n = (\<lambda>o'. int (length (filter (\<lambda>e. snd e = o') es))) in
     sx_copied x = n OCopied \<and> sx_would x = n ODry \<and> sx_skipped x = n OSkipped \<and> sx_failed x = n OFailed)"

context transfer_stores
begin

lemma write_run:
  assumes "try_write cfg lib a E meta sg dsig pl st = Some (r, st')" and "unat (cdc_avg a) < 2 ^ 30"
    and "\<not> cf_dry cfg" and "\<not> mode_is_dir (fm_mode meta)"
  shows "\<exists>p s'. solo_run cfg lib E (Signed meta sg, seeing st s) (p, seeing st' s') \<and> ended meta r s p s'"
proof -
  let ?R = "solo_run cfg lib E"
  obtain bw d1 where bg: "tr_begin (es_dst E) (fm_rel meta) (s_size sg) (en_dst st) = (bw, d1)" by force
  note bstep = worker_step.begin_write [of cfg E meta sg "seeing st s" bw d1 lib, OF assms(3)]
  show ?thesis
  proof (cases bw)
    case (Inl e)
    with assms(1) bg have "tx_status r = SFailed" "st' = st\<lparr>en_dst := d1\<rparr>" by (auto simp: try_write_def no_bytes_def)
    with bstep bg Inl show ?thesis
      by (intro exI [of _ "Failing meta"] exI [of _ s]) (auto simp: seeing_fold intro: solo_own ended_failed)
  next
    case bw: (Inr w)
    have begun: "?R (Signed meta sg, seeing st s) (Sending meta sg w, seeing (st\<lparr>en_dst := d1\<rparr>) s)"
      using bstep bg bw by (auto simp: seeing_fold intro: solo_own)
    have moved: "?R (Signed meta sg, seeing st s) (Sending meta sg w', seeing (st\<lparr>en_src := x, en_dst := d'\<rparr>) s)"
      if "quiet_run (es_dst E) (w, d1) (w', d')" for w' d' x
      using rtranclp_trans [OF rtranclp_trans [OF begun run_outside [of cfg lib E "Sending meta sg w" _ s x]]
          quiet_solo [of E w "st\<lparr>en_dst := d1, en_src := x\<rparr>" w' d' cfg lib meta sg s]] that by simp
    have undone: ?thesis if q: "quiet_run (es_dst E) (w, d1) wd" and f: "tx_status r = SFailed"
      and e: "st' = st\<lparr>en_src := x, en_dst := aborted (es_dst E) wd\<rparr>" for wd x
    proof -
      obtain w' d' where wd: "wd = (w', d')" by force
      have "?R (Signed meta sg, seeing st s) (Failing meta, seeing st' s)"
        using rtranclp_trans [OF moved [OF q [unfolded wd], of x] abort_run [of cfg lib E meta sg w' "st\<lparr>en_src := x, en_dst := d'\<rparr>" s]]
        by (simp add: e wd)
      with ended_failed [OF f] show ?thesis by blast
    qed
    obtain ro s1 where op: "tr_open (es_src E) (fm_rel meta) (at_live a 1 (en_src st)) = (ro, s1)" by force
    show ?thesis
    proof (cases ro)
      case (Inl e)
      with assms(1) bg bw op show ?thesis
        by (intro undone [OF quiet_refl, of s1]) (auto simp: try_write_def no_bytes_def)
    next
      case ro: (Inr rd)
      have ok: "rd_ok rd" using src.open_ok op ro by blast
      obtain wd x res where sc: "StreamChunks (el_hash lib) rd (fm_size meta) (cdc_options a) (xfer_chunk lib a (es_dst E) dsig pl)
          ((w, d1), \<lparr>xf_payload = 0, xf_wired = 0, xf_sent = 0\<rparr>) = Some ((wd, x), res)"
        using assms(1) bg bw op ro by (auto simp: try_write_def split: option.splits prod.splits)
      from StreamChunks_run [OF ok assms(2) sc [unfolded cdc_options_def]] obtain cs e where
        "run_cb (xfer_chunk lib a (es_dst E) dsig pl) cs ((w, d1), \<lparr>xf_payload = 0, xf_wired = 0, xf_sent = 0\<rparr>) = ((wd, x), e)"
        by blast
      note q = xfer_quiet [OF this]
      show ?thesis
      proof (cases res)
        case (Inl y)
        with assms(1) bg bw op ro sc show ?thesis
          by (intro undone [OF q, of s1]) (auto simp: try_write_def no_bytes_def)
      next
        case res: (Inr sg2)
        obtain ge s2 where g: "same_generation ''source unavailable before finalize: %w'' ''source changed before finalize'' E meta (at_live a 2 s1) = (ge, s2)"
          by force
        show ?thesis
        proof (cases "at_close a 1 \<noteq> None \<or> s_digest sg2 \<noteq> s_digest sg \<or> s_size sg2 \<noteq> s_size sg \<or> ge \<noteq> None")
          case True
          with assms(1) bg bw op ro sc res g
          have "tx_status r = SFailed" "st' = st\<lparr>en_src := s1, en_dst := aborted (es_dst E) wd\<rparr> \<or> st' = st\<lparr>en_src := s2, en_dst := aborted (es_dst E) wd\<rparr>"
            by (auto simp: try_write_def no_bytes_def split: if_splits)
          then show ?thesis using undone [OF q] by blast
        next
          case False
          with assms(1) bg bw op ro sc res g have tc: "try_commit cfg lib a E meta sg pl x wd (st\<lparr>en_src := s2\<rparr>) = (r, st')"
            by (auto simp: try_write_def split: if_splits)
          obtain w' d' where wd: "wd = (w', d')" by force
          from commit_run [OF tc [unfolded wd] assms(4), of s] obtain p s' where
            "?R (Sending meta sg w', seeing (st\<lparr>en_src := s2, en_dst := d'\<rparr>) s) (p, seeing st' s')" "ended meta r s p s'" by auto
          with rtranclp_trans [OF moved [OF q [unfolded wd], of s2]] show ?thesis by blast
        qed
      qed
    qed
  qed
qed

lemma regular_run:
  assumes "try_regular cfg lib a E meta st = Some (r, st')" and "unat (cdc_avg a) < 2 ^ 30"
    and "\<not> mode_is_dir (fm_mode meta)" and "\<not> mode_is_symlink (fm_mode meta)"
  shows "\<exists>p s'. solo_run cfg lib E (Looking meta, seeing st s) (p, seeing st' s') \<and> ended meta r s p s'"
proof -
  let ?R = "solo_run cfg lib E" and ?L = "Looking meta"
  have skip: ?thesis if "?R (Looking meta, seeing st s) (q, seeing st' s1)" "checks q = Some meta" "tx_status r = SSkipped"
      "sh_log s1 = sh_log s" "sh_queue s1 = sh_queue s" for q s1
    using rtranclp_trans [OF that(1) solo_own [OF worker_step.skipped [OF that(2)]]] that(3-5)
    by (intro exI [of _ Free] exI [of _ "logged meta OSkipped s1"]) (simp add: ended_def logged_seeing)
  have fail: ?thesis if "?R (Looking meta, seeing st s) (q, seeing st' s1)" "checks q = Some meta" "tx_status r = SFailed"
      "sh_log s1 = sh_log s" "sh_queue s1 = sh_queue s" for q s1
    using rtranclp_trans [OF that(1) fails_run [OF that(2)]] that(3-5)
    by (intro exI [of _ "Failing meta"] exI [of _ s1]) (simp add: ended_def)
  obtain q1 st1 where r1: "try_resume cfg lib a E meta st = (q1, st1)" by force
  note run1 = resume_run [OF r1, of s]
  show ?thesis
  proof (cases q1)
    case (Inl x)
    with assms(1) r1 have "st' = st1" "r = x" by (auto simp: try_regular_def)
    moreover have "tx_status x = SSkipped \<or> tx_status x = SFailed"
      using r1 Inl by (auto simp: try_resume_def no_bytes_def Let_def split: option.splits prod.splits if_splits sum.splits bool.splits)
    ultimately show ?thesis using skip [of ?L s] fail [of ?L s] run1 by auto
  next
    case q1: (Inr force)
    obtain q2 st2 where r2: "try_same cfg E meta force st1 = (q2, st2)" by force
    note run2 = rtranclp_trans [OF run1 same_run [OF r2, of lib s]]
    show ?thesis
    proof (cases q2)
      case True
      with assms(1) r1 q1 r2 have "st' = st2" "tx_status r = SSkipped" by (auto simp: try_regular_def no_bytes_def)
      then show ?thesis using skip [of ?L s] run2 by auto
    next
      case q2: False
      obtain q3 s3 where r3: "try_sign lib a E meta (en_src st2) = Some (q3, s3)"
        using assms(1) r1 q1 r2 q2 by (auto simp: try_regular_def split: option.splits prod.splits)
      let ?s = "s\<lparr>sh_past := en_src st2 # sh_past s\<rparr>" and ?st3 = "st2\<lparr>en_src := s3\<rparr>"
      have eq: "(seeing st2 s)\<lparr>sh_src := s3, sh_past := en_src st2 # sh_past s\<rparr> = seeing ?st3 ?s" by (simp add: seeing_def)
      have "worker_step cfg lib E (?L, seeing st2 s) (case q3 of Inl e \<Rightarrow> Failing meta | Inr sg \<Rightarrow> Signed meta sg, seeing ?st3 ?s)"
        using worker_step.sign [of meta a lib E "seeing st2 s" q3 s3 cfg] assms(2-4) r3 unfolding eq [symmetric] by simp
      note run3 = rtranclp_trans [OF run2 solo_own [OF this]]
      show ?thesis
      proof (cases q3)
        case (Inl e)
        with assms(1) r1 q1 r2 q2 r3 have "st' = ?st3" "tx_status r = SFailed" by (auto simp: try_regular_def no_bytes_def)
        with run3 Inl show ?thesis
          by (intro exI [of _ "Failing meta"] exI [of _ ?s]) (simp add: ended_def)
      next
        case q3: (Inr sg)
        let ?S = "Signed meta sg"
        obtain q4 st4 where r4: "dest_signature cfg lib a E meta force ?st3 = (q4, st4)" by force
        have run4: "?R (?L, seeing st s) (?S, seeing st4 ?s)"
          using rtranclp_trans [OF run3 [unfolded q3 sum.case] dest_signature_run [OF r4]] .
        show ?thesis
        proof (cases q4)
          case (Inl e)
          with assms(1) r1 q1 r2 q2 r3 q3 r4 have "st' = st4" "tx_status r = SFailed" by (auto simp: try_regular_def no_bytes_def)
          then show ?thesis using fail [of ?S ?s] run4 by auto
        next
          case q4: (Inr dsig)
          consider (skip) "st' = st4" "tx_status r = SSkipped" | (dry) "st' = st4" "tx_status r = SDry" "cf_dry cfg"
            | (put) "seeing st' ?s = seeing st4 ?s" "tx_status r = SFailed"
            | (go) st5 where "try_write cfg lib a E meta sg dsig (Diff sg dsig) st5 = Some (r, st')" "seeing st5 ?s = seeing st4 ?s" "\<not> cf_dry cfg"
            using assms(1) r1 q1 r2 q2 r3 q3 r4 q4
            by (auto simp: try_regular_def no_bytes_def dry_result_def Let_def split: if_splits option.splits prod.splits)
          then show ?thesis
          proof cases
            case skip': skip
            then show ?thesis using skip [of ?S ?s] run4 by auto
          next
            case dry
            have "?R (?L, seeing st s) (Free, seeing st' (logged meta ODry ?s))"
              using rtranclp_trans [OF run4 solo_own [OF worker_step.dry_run [OF _ dry(3)]]] dry(1) by (simp add: logged_seeing)
            then show ?thesis using dry(2) by (intro exI [of _ Free] exI [of _ "logged meta ODry ?s"]) (simp add: ended_def)
          next
            case put
            then show ?thesis using fail [of ?S ?s] run4 by auto
          next
            case go
            obtain p s' where "?R (?S, seeing st5 ?s) (p, seeing st' s')" "ended meta r ?s p s'"
              using write_run [OF go(1) assms(2) go(3) assms(3), of ?s] by blast
            moreover have "ended meta r s p s'" if "ended meta r ?s p s'" using that by (cases "tx_status r") (simp_all add: ended_def)
            ultimately show ?thesis using rtranclp_trans [OF run4, of "(p, seeing st' s')"] go(2) by auto
          qed
        qed
      qed
    qed
  qed
qed

text \<open>An attempt of the engine is a run of one worker.\<close>

lemma attempt_run:
  assumes "tryTransfer cfg lib a E meta st = Some (r, st')" and "unat (cdc_avg a) < 2 ^ 30"
  shows "\<exists>p s'. solo_run cfg lib E (Looking meta, seeing st s) (p, seeing st' s') \<and> ended meta r s p s'"
proof -
  consider (dir) "mode_is_dir (fm_mode meta)" "try_dir cfg E meta st = (r, st')"
    | (link) "\<not> mode_is_dir (fm_mode meta)" "mode_is_symlink (fm_mode meta)" "try_symlink cfg E meta st = (r, st')"
    | (young) "tx_status r = SFailed" "st' = st"
    | (regular) "\<not> mode_is_dir (fm_mode meta)" "\<not> mode_is_symlink (fm_mode meta)" "try_regular cfg lib a E meta st = Some (r, st')"
    using assms(1) by (auto simp: tryTransfer_def no_bytes_def split: if_splits)
  then show ?thesis
  proof cases
    case dir
    then show ?thesis by (intro try_dir_run)
  next
    case link
    then show ?thesis by (intro try_symlink_run)
  next
    case young
    with fails_run [of "Looking meta" meta cfg lib E "seeing st s"] show ?thesis by (auto intro: ended_failed)
  next
    case regular
    then show ?thesis using assms(2) by (intro regular_run)
  qed
qed

text \<open>All attempts at a file: the worker is free again, with one entry in the log, which the result counts.\<close>

lemma attempts_run:
  "transfer_loop cfg lib att slp E n meta st = Some (r, st') \<Longrightarrow> stat_names E \<Longrightarrow> \<forall>i. unat (cdc_avg (att i)) < 2 ^ 30 \<Longrightarrow>
   \<exists>o' s'. solo_run cfg lib E (Looking meta, seeing st s) (Free, seeing st' s') \<and> sh_queue s' = sh_queue s \<and>
     sh_log s' = (fm_rel meta, o') # sh_log s \<and> counted o' r"
proof (induction "nat (cf_attempts cfg - n)" arbitrary: n meta st s rule: less_induct)
  case less
  let ?R = "solo_run cfg lib E"
  obtain x st1 where t: "tryTransfer cfg lib (att (n + 1)) E meta st = Some (x, st1)"
    using less.prems(1) by (subst (asm) transfer_loop.simps) (auto split: option.splits)
  obtain p s1 where run: "?R (Looking meta, seeing st s) (p, seeing st1 s1)" and e: "ended meta x s p s1"
    using attempt_run [OF t spec [OF less.prems(3)], of s] by blast
  note eq = less.prems(1) [unfolded transfer_loop.simps [of cfg lib att slp E n] t, simplified Let_def option.case prod.case]
  show ?case
  proof (cases "tx_status x = SFailed")
    case False
    let ?o = "case tx_status x of SSkipped \<Rightarrow> OSkipped | SDry \<Rightarrow> ODry | _ \<Rightarrow> if mode_is_dir (fm_mode meta) then OHandled else OCopied"
    have "p = Free" "sh_queue s1 = sh_queue s" "sh_log s1 = (fm_rel meta, ?o) # sh_log s" "seeing st' s1 = seeing st1 s1" "counted ?o r"
      using False eq e by (auto simp: ended_def counted_def counts_of_def empty_result_def split: status.splits if_splits)
    with run show ?thesis by metis
  next
    case failed: True
    then have s1: "p = Failing meta" "sh_queue s1 = sh_queue s" "sh_log s1 = sh_log s" using e by (simp_all add: ended_def)
    show ?thesis
    proof (cases "\<exists>e. tx_err x = Some e \<and> isUnstable e \<and> \<not> (cf_skip_unstable cfg \<or> n + 1 \<ge> cf_attempts cfg) \<and> slp (n + 1) = None")
      case False
      have "counted OFailed r" "seeing st' s0 = seeing st1 s0" for s0
        using eq failed False
        by (auto simp: counted_def empty_result_def split: option.splits if_splits sum.splits prod.splits)
      moreover have "?R (Failing meta, seeing st1 s1) (Free, logged meta OFailed (seeing st1 s1))"
        by (rule solo_own [OF worker_step.give_up])
      ultimately show ?thesis
        using rtranclp_trans [OF run [unfolded s1(1)]] s1(2,3)
        by (intro exI [of _ OFailed] exI [of _ "logged meta OFailed s1"]) (auto simp: logged_seeing)
    next
      case True
      obtain m s2 where st: "tr_stat (es_src E) (fm_rel meta) (en_src st1) = (m, s2)" by force
      let ?m = "case m of Inl e \<Rightarrow> meta | Inr nm \<Rightarrow> nm" and ?st = "st1\<lparr>en_src := s2\<rparr>"
      have rel: "fm_rel ?m = fm_rel meta" using stat_namesD [OF _ less.prems(2)] st by (cases m) auto
      have again: "transfer_loop cfg lib att slp E (n + 1) ?m ?st = Some (r, st')"
        using eq failed True st by (auto split: sum.splits)
      have "nat (cf_attempts cfg - (n + 1)) < nat (cf_attempts cfg - n)" using True by auto
      from less.hyps [OF this again less.prems(2,3), of s1] obtain o' s' where
        "?R (Looking ?m, seeing ?st s1) (Free, seeing st' s')" "sh_queue s' = sh_queue s1"
        "sh_log s' = (fm_rel ?m, o') # sh_log s1" "counted o' r" by blast
      moreover have "worker_step cfg lib E (Failing meta, seeing st1 s1) (Looking ?m, seeing ?st s1)"
        using worker_step.retry [of E meta "seeing st1 s1" m s2 cfg lib] st by (simp add: seeing_fold)
      ultimately show ?thesis
        using rtranclp_trans [OF rtranclp_trans [OF run [unfolded s1(1)] solo_own]] s1(2,3) rel by metis
    qed
  qed
qed

text \<open>The files one after the other are a run of one worker that drains the channel.\<close>

lemma files_run:
  "run_files cfg lib env E fs i x st = Some (x', st') \<Longrightarrow> stat_names E \<Longrightarrow> \<forall>i n. unat (cdc_avg (je_att env i n)) < 2 ^ 30 \<Longrightarrow>
   tallied (sh_log s) x \<Longrightarrow> sh_queue s = fs \<Longrightarrow>
   \<exists>s'. solo_run cfg lib E (Free, seeing st s) (Free, seeing st' s') \<and> sh_queue s' = [] \<and> tallied (sh_log s') x'"
proof (induction fs arbitrary: i x st s)
  case Nil
  then show ?case by auto
next
  case (Cons f fs)
  let ?R = "solo_run cfg lib E" and ?s = "s\<lparr>sh_queue := fs\<rparr>"
  have q: "(seeing st s)\<lparr>sh_queue := fs\<rparr> = seeing st ?s" by (simp add: seeing_def)
  show ?case
  proof (cases "je_ctx env i")
    case (Some e)
    have step: "?R (Free, seeing st s) (Free, seeing st (logged f OSkipped ?s))"
      using worker_step.cancelled [of "seeing st s" f fs cfg lib E] Cons.prems(5) q by (auto simp: logged_seeing intro: solo_own)
    have "tallied (sh_log (logged f OSkipped ?s)) (x\<lparr>sx_skipped := sx_skipped x + 1\<rparr>)"
      using Cons.prems(4) by (simp add: tallied_def Let_def)
    moreover have "run_files cfg lib env E fs (i + 1) (x\<lparr>sx_skipped := sx_skipped x + 1\<rparr>) st = Some (x', st')"
      using Cons.prems(1) Some by simp
    ultimately show ?thesis
      using Cons.IH [of "i + 1" _ st "logged f OSkipped ?s"] Cons.prems(2,3) rtranclp_trans [OF step] by fastforce
  next
    case None
    with Cons.prems(1) obtain r st1 where t: "transferOne cfg lib (je_att env i) (je_sleep env i) E f st = Some (r, st1)"
      "run_files cfg lib env E fs (i + 1) (add_result r x) st1 = Some (x', st')" by (auto split: option.splits)
    have "?R (Free, seeing st s) (Looking f, seeing st ?s)"
      using worker_step.take_job [of "seeing st s" f fs cfg lib E] Cons.prems(5) q by (auto intro: solo_own)
    moreover obtain o' s1 where one: "?R (Looking f, seeing st ?s) (Free, seeing st1 s1)" "sh_queue s1 = fs"
      "sh_log s1 = (fm_rel f, o') # sh_log s" "counted o' r"
      using attempts_run [OF t(1) [unfolded transferOne_def] Cons.prems(2), of ?s] Cons.prems(3) by auto
    ultimately have step: "?R (Free, seeing st s) (Free, seeing st1 s1)" by (meson rtranclp_trans)
    have "tallied (sh_log s1) (add_result r x)"
      using Cons.prems(4) one(3,4) by (cases o') (simp_all add: tallied_def counted_def add_result_def Let_def)
    from Cons.IH [OF t(2) Cons.prems(2,3) this one(2)] rtranclp_trans [OF step] show ?thesis by blast
  qed
qed

end

section \<open>The in-process store is shared\<close>

interpretation mem_shared: shared_store "s3_backend H L sha enc dec mem_api t" "s3_cnt t" "s3_key t" "s3_usr t"
  "\<lambda>st k. sw_key (fst st) = k" H "\<lambda>s. \<not> sw_committed s"
  for H L sha enc dec t
proof
  let ?B = "s3_backend H L sha enc dec mem_api t"
  fix rel n and w w' :: "memory s3_world" and s
  assume "tr_begin ?B rel n w = (Inr s, w')"
  then show "\<not> sw_committed s"
    using s3_begin_session [of mem_api t rel n w s w'] by (simp add: s3_backend_ops)
next
  let ?B = "s3_backend H L sha enc dec mem_api t"
  fix s s' a e and w w' :: "memory s3_world"
  assume "\<not> sw_committed s" "writes a" "tr_step ?B a (s, w) = ((s', w'), e)"
  then show "\<not> sw_committed s'"
    using s3_step_committed [of H L sha enc mem_api t a s w s' w' e] by (simp add: s3_backend_ops)
next
  let ?B = "s3_backend H L sha enc dec mem_api t"
  fix s s' k d m mt e and w w' :: "memory s3_world"
  assume k: "sw_key (fst (s, w)) = k" and u: "s3_usr t k" and c: "tr_step ?B (SCommit d m mt) (s, w) = ((s', w'), e)"
  have "sigKey sha t (sw_rel s) \<noteq> sw_key s" using k u sigKey_not_usr by (metis fst_conv)
  then have ok: "s3_ok sha t (st_bucket t) (s, w)" by (simp add: s3_ok_def)
  have "s3_Commit H sha enc mem_api t d m mt (s, w) = ((s', w'), e)" using c by (simp add: s3_backend_ops s3_step_def)
  from mem.Commit_effect [OF this ok] k u
  show "s3_cnt t w' k = s3_cnt t w k \<or> (\<exists>c. s3_cnt t w' k = Some c \<and> H c = d)" by (auto simp: s3_cnt_def)
next
  let ?B = "s3_backend H L sha enc dec mem_api t"
  fix s s' k d m mt and w w' :: "memory s3_world"
  assume "\<not> sw_committed s" "sw_key (fst (s, w)) = k" "s3_usr t k" "tr_step ?B (SCommit d m mt) (s, w) = ((s', w'), None)"
  then show "\<exists>c. s3_cnt t w' k = Some c \<and> H c = d"
    using s3_step_effect [of H L sha enc t "SCommit d m mt" s w s' w' None] by (simp add: s3_backend_ops)
qed

lemma demo_shared: "shared_store demo_backend (s3_cnt demo_s3) (s3_key demo_s3) (s3_usr demo_s3) (\<lambda>st k. sw_key (fst st) = k) (\<lambda>b. b) (\<lambda>s. \<not> sw_committed s)"
  unfolding demo_backend_def by (rule mem_shared.shared_store_axioms)

lemma demo_worker_stores:
  "worker_stores demo_ep demo_el (s3_cnt demo_s3) (s3_key demo_s3) (s3_usr demo_s3) (\<lambda>st k. sw_key (fst st) = k)
     (s3_cnt demo_s3) (s3_key demo_s3) (s3_usr demo_s3) (\<lambda>st k. sw_key (fst st) = k) (\<lambda>s. \<not> sw_committed s)"
  using demo_transfer_stores demo_shared by (intro worker_stores.intro) (simp_all add: demo_ep_def demo_el_def)

interpretation mem_workers: worker_stores demo_ep demo_el "s3_cnt demo_s3" "s3_key demo_s3" "s3_usr demo_s3" "\<lambda>st k. sw_key (fst st) = k"
  "s3_cnt demo_s3" "s3_key demo_s3" "s3_usr demo_s3" "\<lambda>st k. sw_key (fst st) = k" "\<lambda>s. \<not> sw_committed s"
  by (rule demo_worker_stores)

text \<open>An S3 backend has no links and no modes, and its \<open>Stat\<close> names what it was asked for.\<close>

lemma demo_extras: "extras_ok demo_ep (s3_cnt demo_s3) (s3_key demo_s3)"
  by (auto simp: extras_ok_def demo_ep_def demo_backend_def s3_backend_ops s3_call_def s3_stat_def Let_def
      split: prod.splits sum.splits)

lemma demo_stat_names: "stat_names demo_ep"
  using demo_extras by (simp add: extras_ok_def stat_names_def)

lemma demo_avg: "unat (cdc_avg demo_att) < 2 ^ 30"
  by (simp add: demo_att_def cdc_avg_def)

text \<open>Two workers and one file: the first transfers it.\<close>

lemma demo_job_run:
  "\<exists>ws s. job_run demo_cfg demo_el demo_ep (job_start 2 [demo_meta] demo_mem demo_dst) (ws, s) \<and> (''f'', OCopied) \<in> set (sh_log s)"
proof -
  obtain r st' where t: "tryTransfer demo_cfg demo_el demo_att demo_ep demo_meta demo_engine = Some (r, st')" "tx_status r = SOk"
    using demo_try by (auto split: option.splits)
  obtain s0 where s0: "job_start 2 [demo_meta] demo_mem demo_dst = ([Free, Free] :: s3_session phase list, s0)" "sh_queue s0 = [demo_meta]"
    "sh_links s0 = []" "sh_src s0 = demo_mem" "sh_dst s0 = demo_dst" "sh_log s0 = []"
    by (simp add: job_start_def numeral_2_eq_2)
  let ?s1 = "s0\<lparr>sh_queue := []\<rparr>"
  have see: "seeing demo_engine ?s1 = ?s1" using s0 by (simp add: seeing_def demo_engine_def)
  obtain p s' where p: "solo_run demo_cfg demo_el demo_ep (Looking demo_meta, ?s1) (p, seeing st' s')" "ended demo_meta r ?s1 p s'"
    using mem_jobs.attempt_run [OF t(1) demo_avg, of ?s1] see by auto
  have "solo_run demo_cfg demo_el demo_ep (Free, s0) (p, seeing st' s')"
    using converse_rtranclp_into_rtranclp [OF solo_step.own [OF worker_step.take_job [OF s0(2)]] p(1)] .
  from solo_in_job [OF this, of 0 "[Free, Free]"]
  have "job_run demo_cfg demo_el demo_ep ([Free, Free], s0) ([p, Free], seeing st' s')" by simp
  moreover have "(''f'', OCopied) \<in> set (sh_log (seeing st' s'))"
    using p(2) t(2) by (simp add: ended_def demo_meta_def mode_is_dir_def)
  ultimately show ?thesis unfolding s0(1) by (intro exI conjI)
qed

lemma demo_files: "run_files demo_cfg demo_el (demo_env []) demo_ep [demo_meta] 0 no_stats demo_engine \<noteq> None"
  by code_simp

section \<open>Properties\<close>

text \<open>
  C24. However the calls of the workers of a job interleave, and however the source changes meanwhile: every
  file of the job is in the channel, with one worker or in the log, and nowhere twice; what the destination holds for
  a file is what it held before the job, or, for a file of the job, a symbolic link that was made or content with the
  digest of what the source held when it was read; and what has been counted as copied is such content. The files of the job have
  distinct paths, as a listing has, and the destination keeps them in distinct places.
\<close>
theorem workers_interleave:
  assumes "worker_stores E lib cntS nmS usrS ofS cntD nmD usrD ofD live" and "extras_ok E cntD nmD"
    and "distinct (map fm_rel files)" and "inj_on nmD (fm_rel ` set files)"
    and "\<forall>f \<in> set files. usrS (nmS (fm_rel f)) \<and> usrD (nmD (fm_rel f))"
    and "job_run cfg lib E (job_start n files src dst) (ws, s)"
  shows "whereabouts (ws, s) = mset (map fm_rel files) \<and>
    (\<forall>k. cntD (sh_dst s) k = cntD dst k \<or>
       (\<exists>f \<in> set files. k = nmD (fm_rel f) \<and> (fm_rel f \<in> set (sh_links s) \<or>
          (\<exists>c x b. cntD (sh_dst s) k = Some c \<and> x \<in> set (sh_past s) \<and> cntS x (nmS (fm_rel f)) = Some b \<and> el_hash lib b = el_hash lib c)))) \<and>
    (\<forall>rel. (rel, OCopied) \<in> set (sh_log s) \<longrightarrow> rel \<in> set (sh_links s) \<or>
       (\<exists>c x b. cntD (sh_dst s) (nmD rel) = Some c \<and> x \<in> set (sh_past s) \<and> cntS x (nmS rel) = Some b \<and> el_hash lib b = el_hash lib c))"
proof -
  note pub = worker_stores.published_def [OF assms(1)] worker_stores.from_source_def [OF assms(1)]
  have inv: "worker_stores.job_inv lib cntS nmS cntD nmD ofD live files dst (ws, s)"
    by (rule worker_stores.run_inv [OF assms(1,6,2-5)])
  note inv = inv [unfolded worker_stores.job_inv_def [OF assms(1)] pub, simplified fst_conv snd_conv]
  then show ?thesis by (intro conjI) fast+
qed

theorem workers_interleave_witness:
  "\<exists>ws s. job_run demo_cfg demo_el demo_ep (job_start 2 [demo_meta] demo_mem demo_dst) (ws, s) \<and>
     whereabouts (ws, s) = {#''f''#} \<and> (''f'', OCopied) \<in> set (sh_log s) \<and>
     (\<exists>x b. x \<in> set (sh_past s) \<and> s3_cnt demo_s3 x (s3_key demo_s3 ''f'') = Some b \<and>
        s3_cnt demo_s3 (sh_dst s) (s3_key demo_s3 ''f'') = Some b)"
proof -
  obtain ws s where run: "job_run demo_cfg demo_el demo_ep (job_start 2 [demo_meta] demo_mem demo_dst) (ws, s)"
    and l: "(''f'', OCopied) \<in> set (sh_log s)"
    using demo_job_run by blast
  have links: "sh_links s = []"
    using run_no_links [OF run] by (simp add: demo_ep_def job_start_def)
  have u: "\<forall>f \<in> set [demo_meta]. s3_usr demo_s3 (s3_key demo_s3 (fm_rel f)) \<and> s3_usr demo_s3 (s3_key demo_s3 (fm_rel f))"
    using relay_demo_paths(2) by (simp add: demo_meta_def)
  note w = workers_interleave [OF demo_worker_stores demo_extras _ _ u run]
  have "\<exists>x b. x \<in> set (sh_past s) \<and> s3_cnt demo_s3 x (s3_key demo_s3 ''f'') = Some b \<and>
      s3_cnt demo_s3 (sh_dst s) (s3_key demo_s3 ''f'') = Some b"
    using w l links by (simp add: demo_el_def) blast
  moreover have "whereabouts (ws, s) = {#''f''#}"
    using w by (simp add: demo_meta_def)
  ultimately show ?thesis using run l by blast
qed

text \<open>
  C25. The relation covers the engine: the sequential loop over the files is a run of one worker, beside any number
  that stay idle, to the same source and destination, and its statistics are the tally of the log.
\<close>
theorem sequential_is_run:
  fixes E :: "('s, 'v, 'd, 'w) endpoints"
  assumes "transfer_stores E lib cntS nmS usrS ofS cntD nmD usrD ofD" and "stat_names E" and "\<forall>i n. unat (cdc_avg (je_att env i n)) < 2 ^ 30"
    and "run_files cfg lib env E files 0 no_stats st = Some (x, st')" and "0 < n"
  shows "\<exists>s. job_run cfg lib E (job_start n files (en_src st) (en_dst st)) (replicate n Free, s) \<and>
    sh_src s = en_src st' \<and> sh_dst s = en_dst st' \<and> sh_queue s = [] \<and> tallied (sh_log s) x"
proof -
  obtain s0 where s0: "job_start n files (en_src st) (en_dst st) = (replicate n Free :: 'w phase list, s0)" "sh_queue s0 = files"
    "sh_log s0 = []" "seeing st s0 = s0"
    by (simp add: job_start_def seeing_def)
  have "tallied (sh_log s0) no_stats" by (simp add: s0(3) tallied_def no_stats_def)
  from transfer_stores.files_run [OF assms(1,4,2,3) this s0(2)] s0(4) obtain s' where
    run: "solo_run cfg lib E (Free, s0) (Free, seeing st' s')" and s': "sh_queue s' = []" "tallied (sh_log s') x" by auto
  have "(replicate n Free)[0 := Free] = (replicate n Free :: 'w phase list)" using assms(5) by (cases n) simp_all
  with solo_in_job [OF run, of 0 "replicate n Free"] assms(5) s0(1)
  have "job_run cfg lib E (job_start n files (en_src st) (en_dst st)) (replicate n Free, seeing st' s')" by simp
  then show ?thesis using s' by (intro exI [of _ "seeing st' s'"]) simp
qed

theorem sequential_is_run_witness:
  "\<exists>x st' s. run_files demo_cfg demo_el (demo_env []) demo_ep [demo_meta] 0 no_stats demo_engine = Some (x, st') \<and>
     job_run demo_cfg demo_el demo_ep (job_start 3 [demo_meta] demo_mem demo_dst) (replicate 3 Free, s) \<and>
     sh_dst s = en_dst st' \<and> tallied (sh_log s) x"
proof -
  obtain x st' where r: "run_files demo_cfg demo_el (demo_env []) demo_ep [demo_meta] 0 no_stats demo_engine = Some (x, st')"
    using demo_files by (auto split: option.splits)
  have a: "\<forall>i n. unat (cdc_avg (je_att (demo_env []) i n)) < 2 ^ 30"
    using demo_avg by (simp add: demo_env_def)
  from sequential_is_run [OF demo_transfer_stores demo_stat_names a r, of 3] r show ?thesis
    by (auto simp: demo_engine_def)
qed

end
