(* ===== verification/Autotune.thy ===== *)
theory Autotune
  imports Compress Journal "HOL-Library.Signed_Division"
begin

text \<open>
  The tuner (\<open>internal/autotune/autotune.go\<close>). Its scores are 64-bit floats; the arithmetic on them is a
  record of operations, so that what is proved holds whatever they round to. The clock is an argument of
  the calls that read it, in nanoseconds; \<open>encoding/json\<close> is a pair of functions.
\<close>

section \<open>Floating point\<close>

text \<open>\<open>fl_lit\<close> is the float of a literal, \<open>fl_int\<close> the conversion of an integer.\<close>

record 'f float_ops =
  fl_lit :: "rat \<Rightarrow> 'f"
  fl_int :: "int \<Rightarrow> 'f"
  fl_add :: "'f \<Rightarrow> 'f \<Rightarrow> 'f"
  fl_mul :: "'f \<Rightarrow> 'f \<Rightarrow> 'f"
  fl_div :: "'f \<Rightarrow> 'f \<Rightarrow> 'f"
  fl_less :: "'f \<Rightarrow> 'f \<Rightarrow> bool"
  fl_le :: "'f \<Rightarrow> 'f \<Rightarrow> bool"
  fl_min :: "'f \<Rightarrow> 'f \<Rightarrow> 'f"

text \<open>\<open>Duration.Seconds\<close>, of a duration that is not negative.\<close>

definition fl_seconds :: "'f float_ops \<Rightarrow> int \<Rightarrow> 'f" where
  "fl_seconds F d = fl_add F (fl_int F (d div 1000000000)) (fl_div F (fl_int F (d mod 1000000000)) (fl_lit F 1000000000))"

text \<open>\<open>compress.SampleRatio\<close> as the code computes it.\<close>

definition sample_ratio :: "'f float_ops \<Rightarrow> codec_lib \<Rightarrow> codec \<Rightarrow> bytes \<Rightarrow> 'f" where
  "sample_ratio F L codec sample =
     (if sample = [] then fl_lit F 1
      else case Encode L codec sample of
        Inl e \<Rightarrow> fl_lit F 1
      | Inr (used, out) \<Rightarrow>
          if used = CodecNone then fl_lit F 1 else fl_div F (fl_int F (int (length sample))) (fl_int F (int (length out))))"

section \<open>State\<close>

record tune_config =
  tc_enabled :: bool
  tc_streams :: int
  tc_compress :: codec
  tc_chunk :: u32
  tc_path :: string

record 'f profile =
  pf_streams :: int
  pf_window :: int
  pf_frame :: u32
  pf_cdc :: u32
  pf_compress :: codec
  pf_goodput :: 'f
  pf_auto :: bool

record 'f sample =
  sa_verified :: int
  sa_wired :: int
  sa_elapsed :: int
  sa_rtt :: 'f
  sa_errors :: 'f
  sa_cpu :: 'f
  sa_ratio :: 'f

record 'f tuner =
  tu_cfg :: tune_config
  tu_profile :: "'f profile"
  tu_prev :: "'f profile"
  tu_bytes :: int
  tu_wired :: int
  tu_started :: int
  tu_last :: int
  tu_step :: nat
  tu_host :: string
  tu_pin :: u32

definition zero_profile :: "'f float_ops \<Rightarrow> 'f profile" where
  "zero_profile F = \<lparr>pf_streams = 0, pf_window = 0, pf_frame = 0, pf_cdc = 0, pf_compress = CodecNone,
     pf_goodput = fl_lit F 0, pf_auto = False\<rparr>"

section \<open>Profiles on disk\<close>

definition tune_sanitize :: "string \<Rightarrow> string" where
  "tune_sanitize s = map (\<lambda>c. if job_char c then c else CHR ''_'') s"

definition profile_path :: "tune_config \<Rightarrow> string \<Rightarrow> string" where
  "profile_path cfg hostKey =
     (if tc_path cfg \<noteq> '''' then tc_path cfg
      else if hostKey = '''' then ''''
      else PathJoin [''.quiksync'', ''profiles'', tune_sanitize hostKey @ ''.json''])"

text \<open>\<open>rd\<close> is what reading the file returns, \<open>dec\<close> is \<open>json.Unmarshal\<close>.\<close>

definition LoadProfile :: "(bytes \<Rightarrow> 'f profile res) \<Rightarrow> (string \<Rightarrow> bytes res) \<Rightarrow> string \<Rightarrow> 'f profile res" where
  "LoadProfile dec rd path = (case rd path of Inl e \<Rightarrow> Inl e | Inr b \<Rightarrow> dec b)"

text \<open>A directory is made and a file written in a file system \<open>'d\<close>; \<open>enc\<close> is \<open>json.MarshalIndent\<close>.\<close>

definition SaveProfile ::
  "('f profile \<Rightarrow> bytes res) \<Rightarrow> (string \<Rightarrow> 'd \<Rightarrow> goerr option \<times> 'd) \<Rightarrow> (string \<Rightarrow> bytes \<Rightarrow> 'd \<Rightarrow> goerr option \<times> 'd)
     \<Rightarrow> string \<Rightarrow> 'f profile \<Rightarrow> 'd \<Rightarrow> goerr option \<times> 'd" where
  "SaveProfile enc mkdir wr path p d =
     (case mkdir (DirPath path) d of
        (Some e, d1) \<Rightarrow> (Some e, d1)
      | (None, d1) \<Rightarrow> (case enc p of Inl e \<Rightarrow> (Some e, d1) | Inr b \<Rightarrow> wr path b d1))"

definition tune_Save ::
  "('f profile \<Rightarrow> bytes res) \<Rightarrow> (string \<Rightarrow> 'd \<Rightarrow> goerr option \<times> 'd) \<Rightarrow> (string \<Rightarrow> bytes \<Rightarrow> 'd \<Rightarrow> goerr option \<times> 'd)
     \<Rightarrow> 'f tuner \<Rightarrow> 'd \<Rightarrow> goerr option \<times> 'd" where
  "tune_Save enc mkdir wr t d =
     (let path = profile_path (tu_cfg t) (tu_host t) in
      if path = '''' then (None, d) else SaveProfile enc mkdir wr path (tu_profile t) d)"

section \<open>The tuner\<close>

definition first_profile :: "'f float_ops \<Rightarrow> tune_config \<Rightarrow> 'f profile" where
  "first_profile F cfg =
     \<lparr>pf_streams = (if tc_streams cfg > 0 then tc_streams cfg else 4), pf_window = 16,
      pf_frame = (if tc_chunk cfg > 0 then tc_chunk cfg else 65536),
      pf_cdc = (if tc_chunk cfg > 0 then tc_chunk cfg else 65536),
      pf_compress = (if tc_compress cfg \<noteq> CodecAuto then tc_compress cfg else CodecNone),
      pf_goodput = fl_lit F 0, pf_auto = tc_enabled cfg\<rparr>"

text \<open>What a stored profile contributes.\<close>

definition merge_profile :: "tune_config \<Rightarrow> 'f profile \<Rightarrow> 'f profile \<Rightarrow> 'f profile" where
  "merge_profile cfg loaded p =
     p\<lparr>pf_streams := (if tc_streams cfg = 0 then pf_streams loaded else pf_streams p),
       pf_cdc := (if tc_chunk cfg \<noteq> 0 then pf_cdc p
                  else if pf_cdc loaded > 0 then pf_cdc loaded
                  else if pf_frame loaded > 0 then pf_frame loaded else pf_cdc p),
       pf_frame := (if tc_chunk cfg = 0 \<and> pf_frame loaded > 0 then pf_frame loaded else pf_frame p),
       pf_compress := (if tc_compress cfg = CodecAuto then pf_compress loaded else pf_compress p),
       pf_window := pf_window loaded\<rparr>"

definition tune_New ::
  "'f float_ops \<Rightarrow> (bytes \<Rightarrow> 'f profile res) \<Rightarrow> (string \<Rightarrow> bytes res) \<Rightarrow> tune_config \<Rightarrow> string \<Rightarrow> int \<Rightarrow> 'f tuner" where
  "tune_New F dec rd cfg hostKey now =
     (let p = first_profile F cfg;
          t = \<lparr>tu_cfg = cfg, tu_profile = p, tu_prev = zero_profile F, tu_bytes = 0, tu_wired = 0, tu_started = now,
               tu_last = now, tu_step = 0, tu_host = hostKey, tu_pin = pf_cdc p\<rparr>;
          path = profile_path cfg hostKey in
      if path = '''' then t
      else case LoadProfile dec rd path of
        Inl e \<Rightarrow> t
      | Inr loaded \<Rightarrow> (let p' = merge_profile cfg loaded p in t\<lparr>tu_profile := p', tu_pin := pf_cdc p'\<rparr>))"

subsection \<open>\<open>Probe\<close>\<close>

definition stream_candidates :: "'f float_ops \<Rightarrow> tune_config \<Rightarrow> 'f \<Rightarrow> int list" where
  "stream_candidates F cfg rtt =
     (if tc_streams cfg > 0 then [tc_streams cfg]
      else if fl_less F (fl_lit F 80) rtt then [4, 8, 16]
      else if fl_less F rtt (fl_lit F 5) then [1, 2, 4]
      else [1, 2, 4, 8])"

definition frame_candidates :: "'f float_ops \<Rightarrow> tune_config \<Rightarrow> 'f \<Rightarrow> u32 list" where
  "frame_candidates F cfg rtt =
     (if tc_chunk cfg > 0 then [16384, 65536, 262144]
      else if fl_less F (fl_lit F 100) rtt then [16384, 65536]
      else [16384, 65536, 262144])"

definition codec_candidates :: "'f float_ops \<Rightarrow> codec_lib \<Rightarrow> tune_config \<Rightarrow> bytes \<Rightarrow> codec list" where
  "codec_candidates F L cfg sample =
     (if tc_compress cfg = CodecAuto
      then CodecNone #
        (if fl_le F (fl_lit F 1.08) (sample_ratio F L CodecLZ4 sample) then [CodecLZ4] else []) @
        (if fl_le F (fl_lit F 1.20) (sample_ratio F L CodecZstd sample) then [CodecZstd] else [])
      else [tc_compress cfg])"

definition tune_score :: "'f float_ops \<Rightarrow> codec_lib \<Rightarrow> bytes \<Rightarrow> 'f \<Rightarrow> int \<Rightarrow> u32 \<Rightarrow> codec \<Rightarrow> 'f" where
  "tune_score F L sample rtt s f c =
     (let ratio = (if c \<noteq> CodecNone then sample_ratio F L c sample else fl_lit F 1);
          cpuCost = (if c = CodecZstd then fl_lit F 1.25 else if c = CodecLZ4 then fl_lit F 1.05 else fl_lit F 1);
          bdpFactor = fl_add F (fl_lit F 1)
            (fl_div F (fl_mul F (fl_min F (fl_div F rtt (fl_lit F 50)) (fl_lit F 3)) (fl_int F s)) (fl_lit F 4));
          frame0 = fl_div F (fl_int F (uint f)) (fl_lit F 65536);
          frameFactor = (if fl_less F (fl_lit F 80) rtt \<and> f > 65536 then fl_mul F frame0 (fl_lit F 0.7) else frame0)
      in fl_div F (fl_mul F (fl_mul F bdpFactor frameFactor) ratio) cpuCost)"

text \<open>The three nested loops, as one pass over the triples in their order.\<close>

definition tune_candidates :: "'f float_ops \<Rightarrow> codec_lib \<Rightarrow> tune_config \<Rightarrow> bytes \<Rightarrow> 'f \<Rightarrow> (int \<times> u32 \<times> codec) list" where
  "tune_candidates F L cfg sample rtt =
     concat (map (\<lambda>s. concat (map (\<lambda>f. map (\<lambda>c. (s, f, c)) (codec_candidates F L cfg sample))
       (frame_candidates F cfg rtt))) (stream_candidates F cfg rtt))"

definition candidate_profile :: "tune_config \<Rightarrow> u32 \<Rightarrow> int \<Rightarrow> u32 \<Rightarrow> codec \<Rightarrow> 'f \<Rightarrow> 'f profile" where
  "candidate_profile cfg pin s f c score =
     \<lparr>pf_streams = s, pf_window = (let w = wrap64 (s * 4) in if 8 > w then 8 else w), pf_frame = f,
      pf_cdc = (if tc_chunk cfg > 0 then tc_chunk cfg else if pin = 0 then f else pin),
      pf_compress = c, pf_goodput = score, pf_auto = True\<rparr>"

fun probe_best ::
  "'f float_ops \<Rightarrow> codec_lib \<Rightarrow> tune_config \<Rightarrow> u32 \<Rightarrow> bytes \<Rightarrow> 'f \<Rightarrow> (int \<times> u32 \<times> codec) list \<Rightarrow> 'f profile \<Rightarrow> 'f \<Rightarrow> 'f profile" where
  "probe_best F L cfg pin sample rtt [] best bestScore = best"
| "probe_best F L cfg pin sample rtt ((s, f, c) # cs) best bestScore =
     (let score = tune_score F L sample rtt s f c in
      if fl_less F bestScore score
      then probe_best F L cfg pin sample rtt cs (candidate_profile cfg pin s f c score) score
      else probe_best F L cfg pin sample rtt cs best bestScore)"

definition tune_Probe :: "'f float_ops \<Rightarrow> codec_lib \<Rightarrow> bytes \<Rightarrow> 'f \<Rightarrow> 'f tuner \<Rightarrow> 'f tuner" where
  "tune_Probe F L sample rtt t =
     (let cfg = tu_cfg t in
      if \<not> tc_enabled cfg then t\<lparr>tu_profile := (tu_profile t)\<lparr>pf_cdc := tu_pin t\<rparr>\<rparr>
      else
        let best0 = probe_best F L cfg (tu_pin t) sample rtt (tune_candidates F L cfg sample rtt) (tu_profile t) (fl_lit F (- 1));
            best = (if tc_chunk cfg > 0 then best0\<lparr>pf_cdc := tc_chunk cfg\<rparr>
                    else if pf_cdc best0 = 0 then best0\<lparr>pf_cdc := pf_frame best0\<rparr> else best0)
        in t\<lparr>tu_pin := pf_cdc best, tu_profile := best, tu_prev := best\<rparr>)"

subsection \<open>\<open>Observe\<close>\<close>

text \<open>What is counted with every sample.\<close>

definition count_sample :: "'f float_ops \<Rightarrow> 'f sample \<Rightarrow> int \<Rightarrow> 'f tuner \<Rightarrow> 'f tuner" where
  "count_sample F s now t =
     (let b = wrap64 (tu_bytes t + sa_verified s); elapsed = fl_seconds F (now - tu_started t); p = tu_profile t;
          p1 = (if fl_less F (fl_lit F 0) elapsed then p\<lparr>pf_goodput := fl_div F (fl_int F b) elapsed\<rparr> else p)
      in t\<lparr>tu_bytes := b, tu_wired := wrap64 (tu_wired t + sa_wired s), tu_profile := p1\<lparr>pf_cdc := tu_pin t\<rparr>\<rparr>)"

definition back_off :: "'f profile \<Rightarrow> 'f profile" where
  "back_off p =
     p\<lparr>pf_streams := (let n = pf_streams p sdiv 2 in if 1 > n then 1 else n),
       pf_window := (let n = pf_window p sdiv 2 in if 4 > n then 4 else n),
       pf_frame := (if pf_frame p > 16384 then pf_frame p div 2 else pf_frame p),
       pf_compress := (if pf_compress p = CodecZstd then CodecLZ4 else pf_compress p)\<rparr>"

definition nudge :: "'f float_ops \<Rightarrow> tune_config \<Rightarrow> 'f sample \<Rightarrow> nat \<Rightarrow> 'f profile \<Rightarrow> 'f profile" where
  "nudge F cfg s step p =
     (if step = 0 then
        (if tc_streams cfg = 0 \<and> fl_less F (sa_cpu s) (fl_lit F 85) \<and> fl_less F (sa_errors s) (fl_lit F 0.01)
         then (let n = (let m = wrap64 (pf_streams p + 1) in if 32 < m then 32 else m)
               in p\<lparr>pf_streams := n, pf_window := wrap64 (n * 4)\<rparr>)
         else p)
      else if step = 1 then
        (if fl_less F (sa_rtt s) (fl_lit F 20) \<and> pf_frame p < 262144 then p\<lparr>pf_frame := pf_frame p * 2\<rparr>
         else if fl_less F (fl_lit F 100) (sa_rtt s) \<and> pf_frame p > 16384 then p\<lparr>pf_frame := pf_frame p div 2\<rparr>
         else p)
      else
        (if tc_compress cfg = CodecAuto \<and> fl_le F (fl_lit F 1.1) (sa_ratio s) \<and> fl_less F (sa_cpu s) (fl_lit F 80)
         then (if pf_compress p = CodecNone then p\<lparr>pf_compress := CodecLZ4\<rparr>
               else if pf_compress p = CodecLZ4 \<and> fl_le F (fl_lit F 1.3) (sa_ratio s) then p\<lparr>pf_compress := CodecZstd\<rparr>
               else p)
         else p))"

definition tune_Observe :: "'f float_ops \<Rightarrow> 'f sample \<Rightarrow> int \<Rightarrow> 'f tuner \<Rightarrow> 'f tuner" where
  "tune_Observe F s now t0 =
     (let t = count_sample F s now t0; cfg = tu_cfg t; p = tu_profile t in
      if \<not> tc_enabled cfg then t
      else if fl_less F (fl_lit F 0.05) (sa_errors s)
      then t\<lparr>tu_profile := (back_off p)\<lparr>pf_cdc := tu_pin t\<rparr>, tu_last := now\<rparr>
      else if now - tu_last t < 2000000000 then t
      else
        let step = (tu_step t + 1) mod 3;
            candidate = (nudge F cfg s step p)\<lparr>pf_cdc := tu_pin t\<rparr>;
            inst = (if sa_elapsed s > 0 then fl_div F (fl_int F (sa_verified s)) (fl_seconds F (sa_elapsed s)) else fl_lit F 0);
            t1 = t\<lparr>tu_last := now, tu_step := step\<rparr>
        in if fl_less F (fl_lit F 0) inst \<and> fl_less F (fl_lit F 0) (pf_goodput p)
              \<and> fl_less F (fl_add F inst (fl_lit F 1024)) (fl_mul F (pf_goodput p) (fl_lit F 0.92))
           then t1\<lparr>tu_profile := (tu_prev t)\<lparr>pf_cdc := tu_pin t\<rparr>\<rparr>
           else t1\<lparr>tu_prev := p, tu_profile := candidate\<rparr>)"

text \<open>A job's calls of the tuner in their order.\<close>

datatype 'f tune_call = TProbe bytes 'f | TObserve "'f sample" int

primrec tune_op :: "'f float_ops \<Rightarrow> codec_lib \<Rightarrow> 'f tune_call \<Rightarrow> 'f tuner \<Rightarrow> 'f tuner" where
  "tune_op F L (TProbe sample rtt) t = tune_Probe F L sample rtt t"
| "tune_op F L (TObserve s now) t = tune_Observe F s now t"

definition tune_run :: "'f float_ops \<Rightarrow> codec_lib \<Rightarrow> 'f tune_call list \<Rightarrow> 'f tuner \<Rightarrow> 'f tuner" where
  "tune_run F L ops t = fold (tune_op F L) ops t"

section \<open>The chunk size is pinned\<close>

text \<open>The invariant of a tuner: the profile's chunk size is the pinned one, which is the configured one if there is one.\<close>

definition pinned :: "u32 \<Rightarrow> 'f tuner \<Rightarrow> bool" where
  "pinned n t \<longleftrightarrow> tu_pin t = n \<and> n \<noteq> 0 \<and> pf_cdc (tu_profile t) = n \<and> (tc_chunk (tu_cfg t) > 0 \<longrightarrow> tc_chunk (tu_cfg t) = n)"

lemma nonzero_word: "(0 :: u32) < n \<longleftrightarrow> n \<noteq> 0"
  by (rule word_neq_0_conv [symmetric])

lemma first_profile_cdc: "pf_cdc (first_profile F cfg) \<noteq> 0"
  by (simp add: first_profile_def nonzero_word)

lemma New_pinned: "pinned (tu_pin (tune_New F dec rd cfg h now)) (tune_New F dec rd cfg h now)"
  using first_profile_cdc [of F cfg]
  by (auto simp: tune_New_def pinned_def merge_profile_def first_profile_def Let_def nonzero_word split: sum.splits)

lemma probe_best_cases:
  "probe_best F L cfg pin sample rtt cs best sc = best \<or>
   (\<exists>s f c score. (s, f, c) \<in> set cs \<and> probe_best F L cfg pin sample rtt cs best sc = candidate_profile cfg pin s f c score)"
  by (induction F L cfg pin sample rtt cs best sc rule: probe_best.induct) (simp add: Let_def, auto simp: Let_def)

lemma probe_best_found:
  "\<exists>(s, f, c) \<in> set cs. fl_less F sc (tune_score F L sample rtt s f c) \<Longrightarrow>
   \<exists>s f c score. (s, f, c) \<in> set cs \<and> probe_best F L cfg pin sample rtt cs best sc = candidate_profile cfg pin s f c score"
proof (induction cs arbitrary: best)
  case (Cons x cs)
  obtain s f c where x: "x = (s, f, c)" by (cases x)
  show ?case
  proof (cases "fl_less F sc (tune_score F L sample rtt s f c)")
    case True
    let ?sc = "tune_score F L sample rtt s f c"
    have "probe_best F L cfg pin sample rtt (x # cs) best sc =
        probe_best F L cfg pin sample rtt cs (candidate_profile cfg pin s f c ?sc) ?sc"
      using True x by (simp add: Let_def)
    with probe_best_cases [of F L cfg pin sample rtt cs "candidate_profile cfg pin s f c ?sc" ?sc] x show ?thesis by auto
  next
    case False
    then have "probe_best F L cfg pin sample rtt (x # cs) best sc = probe_best F L cfg pin sample rtt cs best sc"
      using x by (simp add: Let_def)
    moreover have "\<exists>(s, f, c) \<in> set cs. fl_less F sc (tune_score F L sample rtt s f c)" using Cons.prems False x by auto
    ultimately show ?thesis using Cons.IH [of best] by (metis list.set_intros(2))
  qed
qed simp

lemma Probe_pinned: "pinned n t \<Longrightarrow> pinned n (tune_Probe F L sample rtt t)"
proof -
  assume p: "pinned n t"
  let ?b = "probe_best F L (tu_cfg t) (tu_pin t) sample rtt (tune_candidates F L (tu_cfg t) sample rtt) (tu_profile t) (fl_lit F (- 1))"
  have "pf_cdc ?b = n"
    using probe_best_cases [of F L "tu_cfg t" "tu_pin t" sample rtt "tune_candidates F L (tu_cfg t) sample rtt" "tu_profile t" "fl_lit F (- 1)"] p
    by (auto simp: pinned_def candidate_profile_def)
  with p show ?thesis by (auto simp: tune_Probe_def pinned_def Let_def)
qed

lemma count_pinned: "pinned n t \<Longrightarrow> pinned n (count_sample F s now t)"
  by (simp add: count_sample_def pinned_def Let_def)

lemma Observe_pinned: "pinned n t \<Longrightarrow> pinned n (tune_Observe F s now t)"
  using count_pinned [of n t F s now] by (auto simp: tune_Observe_def pinned_def Let_def)

lemma op_pinned: "pinned n t \<Longrightarrow> pinned n (tune_op F L a t)"
  by (cases a) (simp_all add: Probe_pinned Observe_pinned)

lemma run_pinned: "pinned n t \<Longrightarrow> pinned n (tune_run F L ops t)"
  by (induction ops arbitrary: t) (simp_all add: tune_run_def op_pinned)

section \<open>The knobs stay in their ranges\<close>

definition frame_sizes :: "u32 list" where
  "frame_sizes = [16384, 32768, 65536, 131072, 262144]"

definition knobs_ok :: "'f profile \<Rightarrow> bool" where
  "knobs_ok p \<longleftrightarrow> 1 \<le> pf_streams p \<and> pf_streams p \<le> 32 \<and> 4 \<le> pf_window p \<and> pf_window p \<le> 128 \<and>
     pf_frame p \<in> set frame_sizes \<and> pf_compress p \<in> {CodecNone, CodecLZ4, CodecZstd}"

definition cfg_ok :: "tune_config \<Rightarrow> bool" where
  "cfg_ok cfg \<longleftrightarrow> tc_enabled cfg \<and> tc_streams cfg \<le> 32 \<and>
     tc_compress cfg \<in> {CodecNone, CodecLZ4, CodecZstd, CodecAuto}"

definition knobs_inv :: "'f tuner \<Rightarrow> bool" where
  "knobs_inv t \<longleftrightarrow> cfg_ok (tu_cfg t) \<and> knobs_ok (tu_profile t) \<and> knobs_ok (tu_prev t)"

lemma candidate_ok:
  assumes "cfg_ok cfg" and "(s, f, c) \<in> set (tune_candidates F L cfg sample rtt)"
  shows "knobs_ok (candidate_profile cfg pin s f c score)"
proof -
  have s: "s \<in> set (stream_candidates F cfg rtt)" "f \<in> set (frame_candidates F cfg rtt)" "c \<in> set (codec_candidates F L cfg sample)"
    using assms(2) by (auto simp: tune_candidates_def)
  have "1 \<le> s \<and> s \<le> 32" using s(1) assms(1) by (auto simp: stream_candidates_def cfg_ok_def split: if_splits)
  moreover from this have "wrap64 (s * 4) = s * 4" by (intro wrap64_id) (simp add: fits64_def)
  moreover have "f \<in> set frame_sizes" using s(2) by (auto simp: frame_candidates_def frame_sizes_def split: if_splits)
  moreover have "c \<in> {CodecNone, CodecLZ4, CodecZstd}"
    using s(3) assms(1) by (auto simp: codec_candidates_def cfg_ok_def split: if_splits)
  ultimately show ?thesis by (auto simp: knobs_ok_def candidate_profile_def Let_def)
qed

lemma knobs_cdc [simp]: "knobs_ok (p\<lparr>pf_cdc := n\<rparr>) = knobs_ok p" "knobs_ok (p\<lparr>pf_goodput := g\<rparr>) = knobs_ok p"
  by (simp_all add: knobs_ok_def)

lemma halved_frame: "f \<in> set frame_sizes \<Longrightarrow> f > 16384 \<Longrightarrow> f div 2 \<in> set frame_sizes"
  by (auto simp: frame_sizes_def)

lemma doubled_frame: "f \<in> set frame_sizes \<Longrightarrow> f < 262144 \<Longrightarrow> f * 2 \<in> set frame_sizes"
  by (auto simp: frame_sizes_def)

lemma sdiv_half: "0 \<le> n \<Longrightarrow> n sdiv 2 = n div (2 :: int)"
  by (simp add: signed_divide_int_def sgn_if)

lemma back_off_ok: "knobs_ok p \<Longrightarrow> knobs_ok (back_off p)"
  by (auto simp: knobs_ok_def back_off_def Let_def sdiv_half halved_frame)

lemma more_streams_ok:
  assumes "knobs_ok p" and "n = (let m = wrap64 (pf_streams p + 1) in if 32 < m then 32 else m)"
  shows "knobs_ok (p\<lparr>pf_streams := n, pf_window := wrap64 (n * 4)\<rparr>)"
proof -
  have "wrap64 (pf_streams p + 1) = pf_streams p + 1"
    using assms(1) by (intro wrap64_id) (simp add: knobs_ok_def fits64_def)
  then have n: "1 \<le> n" "n \<le> 32" using assms by (auto simp: knobs_ok_def Let_def)
  then have "wrap64 (n * 4) = n * 4" by (intro wrap64_id) (simp add: fits64_def)
  with n assms(1) show ?thesis by (simp add: knobs_ok_def)
qed

lemma nudge_ok: "knobs_ok p \<Longrightarrow> knobs_ok (nudge F cfg s k p)"
proof -
  assume p: "knobs_ok p"
  have f: "knobs_ok (p\<lparr>pf_frame := x\<rparr>)" if "x \<in> set frame_sizes" for x using p that by (simp add: knobs_ok_def)
  have c: "knobs_ok (p\<lparr>pf_compress := CodecLZ4\<rparr>)" "knobs_ok (p\<lparr>pf_compress := CodecZstd\<rparr>)" using p by (simp_all add: knobs_ok_def)
  have m: "pf_frame p \<in> set frame_sizes" using p by (simp add: knobs_ok_def)
  show ?thesis
    using p c f [OF halved_frame [OF m]] f [OF doubled_frame [OF m]] more_streams_ok [OF p refl]
    by (simp add: nudge_def Let_def)
qed

lemma op_knobs:
  assumes "knobs_inv t"
  shows "knobs_inv (tune_op F L a t)"
proof (cases a)
  case (TProbe sample rtt)
  let ?cs = "tune_candidates F L (tu_cfg t) sample rtt"
  let ?b = "probe_best F L (tu_cfg t) (tu_pin t) sample rtt ?cs (tu_profile t) (fl_lit F (- 1))"
  have "knobs_ok ?b"
    using probe_best_cases [of F L "tu_cfg t" "tu_pin t" sample rtt ?cs "tu_profile t" "fl_lit F (- 1)"]
      candidate_ok [of "tu_cfg t" _ _ _ F L sample rtt] assms
    by (auto simp: knobs_inv_def)
  then show ?thesis using assms TProbe by (auto simp: knobs_inv_def tune_Probe_def Let_def)
next
  case (TObserve s now)
  have "knobs_inv (count_sample F s now t)" using assms by (simp add: knobs_inv_def count_sample_def Let_def)
  then show ?thesis using TObserve back_off_ok nudge_ok by (auto simp: tune_Observe_def knobs_inv_def Let_def)
qed

lemma run_knobs: "knobs_inv t \<Longrightarrow> knobs_inv (tune_run F L ops t)"
  by (induction ops arbitrary: t) (simp_all add: tune_run_def op_knobs)

lemma Probe_knobs:
  assumes "cfg_ok (tu_cfg t)"
    and "\<exists>(s, f, c) \<in> set (tune_candidates F L (tu_cfg t) sample rtt). fl_less F (fl_lit F (- 1)) (tune_score F L sample rtt s f c)"
  shows "knobs_inv (tune_Probe F L sample rtt t)"
proof -
  obtain s f c score where "(s, f, c) \<in> set (tune_candidates F L (tu_cfg t) sample rtt)"
    "probe_best F L (tu_cfg t) (tu_pin t) sample rtt (tune_candidates F L (tu_cfg t) sample rtt) (tu_profile t) (fl_lit F (- 1)) =
       candidate_profile (tu_cfg t) (tu_pin t) s f c score"
    using probe_best_found [OF assms(2)] by blast
  then show ?thesis using candidate_ok [OF assms(1)] assms(1)
    by (auto simp: knobs_inv_def tune_Probe_def Let_def cfg_ok_def)
qed

lemma New_cfg [simp]: "tu_cfg (tune_New F dec rd cfg h now) = cfg"
  by (simp add: tune_New_def Let_def split: sum.splits)

text \<open>The name of a stored profile is one path component.\<close>

interpretation profile_name: safe_name "\<lambda>s. Inr (tune_sanitize s)" "''.json''"
proof
  fix s t
  assume "(Inr (tune_sanitize s) :: string res) = Inr t"
  then have "CHR ''/'' \<notin> set t" using job_char_not_slash [of "CHR ''/''"] by (auto simp: tune_sanitize_def)
  then show "is_name (t @ ''.json'')" by (auto simp: is_name_def append_eq_Cons_conv)
qed

lemma profile_path_in_dir:
  "names d \<Longrightarrow> PathJoin [abs_of d, tune_sanitize h @ ''.json''] = abs_of (d @ [tune_sanitize h @ ''.json''])"
  by (rule profile_name.in_dir) simp

text \<open>Exact arithmetic, as one instance of the floats.\<close>

definition rat_ops :: "rat float_ops" where
  "rat_ops = \<lparr>fl_lit = id, fl_int = of_int, fl_add = (+), fl_mul = (*), fl_div = (/), fl_less = (<), fl_le = (\<le>), fl_min = min\<rparr>"

definition demo_cfg :: tune_config where
  "demo_cfg = \<lparr>tc_enabled = True, tc_streams = 0, tc_compress = CodecNone, tc_chunk = 0, tc_path = []\<rparr>"

definition demo_tuner :: "rat tuner" where
  "demo_tuner = tune_New rat_ops (\<lambda>b. Inl EOF) (\<lambda>p. Inl NotExist) demo_cfg [] 0"

definition demo_sample :: "int \<Rightarrow> rat sample" where
  "demo_sample n = \<lparr>sa_verified = n, sa_wired = n, sa_elapsed = 1000000000, sa_rtt = 10, sa_errors = 0, sa_cpu = 10, sa_ratio = 1\<rparr>"

section \<open>Properties\<close>

text \<open>
  The chunk size of a job is pinned: whatever profile was stored, and whatever is probed and observed
  afterwards, on every arithmetic, the profile keeps the chunk size it had when the tuner was made, which
  is not 0 and is the configured one if there is one. So all signatures of a job are cut alike.
\<close>
theorem tuner_pins_chunk_size:
  "let t = tune_New F dec rd cfg h now; u = tune_run F L ops t in
   pf_cdc (tu_profile u) = pf_cdc (tu_profile t) \<and> tu_pin u = tu_pin t \<and> pf_cdc (tu_profile t) \<noteq> 0 \<and>
   (if tc_chunk cfg = 0 then True else pf_cdc (tu_profile u) = tc_chunk cfg)"
  using New_pinned [of F dec rd cfg h now] run_pinned [OF New_pinned [of F dec rd cfg h now], of F L ops]
  by (simp add: pinned_def Let_def nonzero_word)

text \<open>
  With a configuration the command line can produce, once a probe has found a candidate the knobs stay in
  their ranges under any further probes and observations: 1 to 32 streams, a window of 4 to 128,
  a frame of 16 to 256 KiB, doubled and halved exactly, and a codec that can be sent, also
  when the stored profile held anything else.
\<close>
theorem tuner_knobs_bounded:
  assumes "tc_enabled cfg" and "tc_streams cfg \<le> 32"
    and "tc_compress cfg \<in> {CodecNone, CodecLZ4, CodecZstd, CodecAuto}"
    and "(s, f, c) \<in> set (tune_candidates F L cfg sample rtt)" and "fl_less F (fl_lit F (- 1)) (tune_score F L sample rtt s f c)"
  shows "let p = tu_profile (tune_run F L ops (tune_Probe F L sample rtt (tune_New F dec rd cfg h now))) in
    1 \<le> pf_streams p \<and> pf_streams p \<le> 32 \<and> 4 \<le> pf_window p \<and> pf_window p \<le> 128 \<and>
    pf_frame p \<in> set [16384, 32768, 65536, 131072, 262144] \<and> pf_compress p \<in> {CodecNone, CodecLZ4, CodecZstd}"
proof -
  have "knobs_inv (tune_Probe F L sample rtt (tune_New F dec rd cfg h now))"
    by (rule Probe_knobs) (use assms in \<open>auto simp: cfg_ok_def\<close>)
  from run_knobs [OF this, of F L ops] show ?thesis by (simp add: knobs_inv_def knobs_ok_def frame_sizes_def Let_def)
qed

theorem tuner_knobs_bounded_witness:
  "let u = tune_run rat_ops demo_lib [TObserve (demo_sample 100000) 3000000000, TObserve (demo_sample 100000) 6000000000,
         TObserve (demo_sample 0) 9000000000] (tune_Probe rat_ops demo_lib [] 10 demo_tuner)
   in pf_streams (tu_profile u) = 9 \<and> pf_streams (tu_profile u) \<le> 32 \<and> pf_frame (tu_profile u) = 262144"
proof -
  let ?ops = "[TObserve (demo_sample 100000) 3000000000, TObserve (demo_sample 100000) 6000000000, TObserve (demo_sample 0) 9000000000]"
  have v: "let u = tune_run rat_ops demo_lib ?ops (tune_Probe rat_ops demo_lib [] 10 demo_tuner)
      in pf_streams (tu_profile u) = 9 \<and> pf_frame (tu_profile u) = 262144" by code_simp
  have c: "(1, 16384, CodecNone) \<in> set (tune_candidates rat_ops demo_lib demo_cfg [] 10)"
    "fl_less rat_ops (fl_lit rat_ops (- 1)) (tune_score rat_ops demo_lib [] 10 1 16384 CodecNone)" by code_simp+
  have d: "tc_enabled demo_cfg" "tc_streams demo_cfg \<le> 32"
    "tc_compress demo_cfg \<in> {CodecNone, CodecLZ4, CodecZstd, CodecAuto}" by (simp_all add: demo_cfg_def)
  note tuner_knobs_bounded [OF d c, of ?ops "\<lambda>b. Inl EOF" "\<lambda>p. Inl NotExist" "[]" 0, folded demo_tuner_def]
  with v show ?thesis unfolding Let_def by blast
qed

end
