(* ===== verification/Limiter.thy ===== *)
theory Limiter
  imports Complex_Main Autotune
begin

text \<open>
  The rate limiter (\<open>internal/transfer/limiter.go\<close>): a token bucket that all workers of a job share. Times are
  nanoseconds of the monotonic clock, float arithmetic is a record of operations as for the tuner, and what
  is proved of the rate holds in any arithmetic whose operations have a small relative error (the locale
  \<open>rounded\<close>, which exact arithmetic and the rounding of \<open>float64\<close>'s mantissa give; of \<open>float64\<close> itself only the range of the
  exponent is left out). That waiting ends is proved for exact arithmetic. The mutex makes one pass of \<open>Wait\<close>'s loop atomic, so
  workers interleave by passes.
\<close>

section \<open>State\<close>

text \<open>\<open>fl_trunc\<close> is the conversion of a float to an integer.\<close>

record 'f lim_ops = "'f float_ops" +
  fl_sub :: "'f \<Rightarrow> 'f \<Rightarrow> 'f"
  fl_trunc :: "'f \<Rightarrow> int"

record 'f limiter =
  li_rate :: 'f
  li_tokens :: 'f
  li_last :: int
  li_capacity :: 'f

text \<open>The zero time is before every reading of the clock.\<close>

definition NewLimiter :: "'f lim_ops \<Rightarrow> int \<Rightarrow> int \<Rightarrow> 'f limiter" where
  "NewLimiter F rate now =
     (if rate \<le> 0 then \<lparr>li_rate = fl_int F 0, li_tokens = fl_int F 0, li_last = 0, li_capacity = fl_int F 0\<rparr>
      else let r = fl_int F rate in \<lparr>li_rate = r, li_tokens = r, li_last = now, li_capacity = r\<rparr>)"

section \<open>One pass of the loop\<close>

text \<open>\<open>Time.Sub\<close> saturates; \<open>Duration.Seconds\<close> divides as Go does, towards zero.\<close>

definition time_sub :: "int \<Rightarrow> int \<Rightarrow> int" where
  "time_sub t u = (let d = t - u in if d > 2 ^ 63 - 1 then 2 ^ 63 - 1 else if d < - (2 ^ 63) then - (2 ^ 63) else d)"

definition Seconds :: "'f lim_ops \<Rightarrow> int \<Rightarrow> 'f" where
  "Seconds F d = fl_add F (fl_int F (d sdiv 1000000000)) (fl_div F (fl_int F (d smod 1000000000)) (fl_lit F 1000000000))"

definition lim_refill :: "'f lim_ops \<Rightarrow> int \<Rightarrow> 'f limiter \<Rightarrow> 'f limiter" where
  "lim_refill F now l =
     (let elapsed = Seconds F (time_sub now (li_last l)) in
      if fl_less F (fl_int F 0) elapsed
      then let t = fl_add F (li_tokens l) (fl_mul F elapsed (li_rate l));
               t' = (if fl_less F (li_capacity l) t then li_capacity l else t)
           in l\<lparr>li_tokens := t', li_last := now\<rparr>
      else l)"

definition lim_sleep :: "'f lim_ops \<Rightarrow> 'f limiter \<Rightarrow> int" where
  "lim_sleep F l =
     (let s = fl_trunc F (fl_mul F (fl_div F (fl_lit F 1) (li_rate l)) (fl_int F 1000000000)) in
      if s < 1000000 then 1000000 else s)"

text \<open>What a pass does under the mutex: sleep for a while, or take tokens.\<close>

datatype 'f pass = Sleeps int | Takes 'f

definition lim_pass :: "'f lim_ops \<Rightarrow> int \<Rightarrow> 'f \<Rightarrow> 'f limiter \<Rightarrow> 'f limiter \<times> 'f pass" where
  "lim_pass F now remaining l =
     (let l1 = lim_refill F now l in
      if fl_le F (li_tokens l1) (fl_int F 0) then (l1, Sleeps (lim_sleep F l1))
      else let take = (if fl_less F (li_tokens l1) remaining then li_tokens l1 else remaining)
           in (l1\<lparr>li_tokens := fl_sub F (li_tokens l1) take\<rparr>, Takes take))"

section \<open>Wait\<close>

text \<open>
  A round is what happens around one pass: what \<open>ctx.Err\<close> says before it, how many nanoseconds have gone by since
  the pass before it or since the end of its sleep, and whether the context ends the sleep.
\<close>

record lim_round =
  ro_err :: "goerr option"
  ro_late :: nat
  ro_cancel :: "goerr option"

text \<open>\<open>Waiting\<close>: the rounds have run out before the loop has.\<close>

datatype wait_end = Waiting | Returned "goerr option"

fun lim_loop :: "'f lim_ops \<Rightarrow> 'f limiter \<Rightarrow> 'f \<Rightarrow> int \<Rightarrow> lim_round list \<Rightarrow> 'f limiter \<times> wait_end" where
  "lim_loop F l remaining t rs =
     (if \<not> fl_less F (fl_int F 0) remaining then (l, Returned None)
      else case rs of
        [] \<Rightarrow> (l, Waiting)
      | r # rs' \<Rightarrow>
          (case ro_err r of
             Some e \<Rightarrow> (l, Returned (Some e))
           | None \<Rightarrow>
               (let now = t + int (ro_late r);
                    (l1, p) = lim_pass F now remaining l
                in case p of
                     Takes x \<Rightarrow> lim_loop F l1 (fl_sub F remaining x) now rs'
                   | Sleeps d \<Rightarrow>
                       (case ro_cancel r of
                          Some e \<Rightarrow> (l1, Returned (Some e))
                        | None \<Rightarrow> lim_loop F l1 remaining (now + d) rs'))))"

declare lim_loop.simps [simp del]

text \<open>A limiter that is \<open>nil\<close>, one without a rate and a request of no bytes let everything through.\<close>

definition lim_Wait :: "'f lim_ops \<Rightarrow> 'f limiter option \<Rightarrow> int \<Rightarrow> int \<Rightarrow> lim_round list \<Rightarrow> 'f limiter option \<times> wait_end" where
  "lim_Wait F lo n t rs =
     (case lo of
        None \<Rightarrow> (None, Returned None)
      | Some l \<Rightarrow>
          if fl_le F (li_rate l) (fl_int F 0) \<or> n \<le> 0 then (Some l, Returned None)
          else let (l', w) = lim_loop F l (fl_int F n) t rs in (Some l', w))"

section \<open>Workers that share a limiter\<close>

text \<open>
  Any number of calls of \<open>Wait\<close>, each with what it still needs, make passes in any order; the schedule says who
  passes when. A call that has all it needs passes no more.
\<close>

fun lim_schedule :: "'f lim_ops \<Rightarrow> 'f limiter \<Rightarrow> (nat \<Rightarrow> 'f) \<Rightarrow> (nat \<times> int) list \<Rightarrow> 'f limiter \<times> (nat \<Rightarrow> 'f) \<times> 'f list" where
  "lim_schedule F l need [] = (l, need, [])"
| "lim_schedule F l need ((w, now) # s) =
     (if \<not> fl_less F (fl_int F 0) (need w) then lim_schedule F l need s
      else case lim_pass F now (need w) l of
        (l1, Sleeps d) \<Rightarrow> lim_schedule F l1 need s
      | (l1, Takes x) \<Rightarrow>
          (case lim_schedule F l1 (need(w := fl_sub F (need w) x)) s of
             (l2, need', taken) \<Rightarrow> (l2, need', x # taken)))"

section \<open>Exact arithmetic\<close>

definition exact :: "rat lim_ops" where
  "exact = \<lparr>fl_lit = id, fl_int = of_int, fl_add = (+), fl_mul = (*), fl_div = (/), fl_less = (<), fl_le = (\<le>), fl_min = min,
     fl_sub = (-), fl_trunc = (\<lambda>x. if 0 \<le> x then \<lfloor>x\<rfloor> else \<lceil>x\<rceil>)\<rparr>"

lemma exact_ops [simp]:
  "fl_lit exact x = x" "fl_int exact i = of_int i" "fl_add exact x y = x + y" "fl_mul exact x y = x * y"
  "fl_div exact x y = x / y" "fl_less exact x y \<longleftrightarrow> x < y" "fl_le exact x y \<longleftrightarrow> x \<le> y" "fl_sub exact x y = x - y"
  by (simp_all add: exact_def)

lemma Seconds_exact [simp]: "Seconds exact d = of_int d / 1000000000"
proof -
  have "(of_int d :: rat) = of_int (d sdiv 1000000000 * 1000000000 + d smod 1000000000)"
    by (simp only: sdiv_mult_smod_eq)
  then show ?thesis
    by (simp add: Seconds_def add_divide_distrib)
qed

text \<open>A bucket holds between no tokens and a second's worth.\<close>

definition lim_ok :: "rat limiter \<Rightarrow> bool" where
  "lim_ok l \<longleftrightarrow> 0 < li_rate l \<and> li_capacity l = li_rate l \<and> 0 \<le> li_tokens l \<and> li_tokens l \<le> li_capacity l"

text \<open>The tokens a bucket would gain from \<open>t\<close> to \<open>u\<close>.\<close>

definition gain :: "rat limiter \<Rightarrow> int \<Rightarrow> int \<Rightarrow> rat" where
  "gain l t u = of_int (u - t) / 1000000000 * li_rate l"

lemma gain_split: "gain l t u + gain l u v = gain l t v"
  by (simp add: gain_def algebra_simps add_divide_distrib diff_divide_distrib)

lemma gain_mono: "0 < li_rate l \<Longrightarrow> t \<le> u \<Longrightarrow> 0 \<le> gain l t u"
  by (simp add: gain_def)

lemma gain_cong: "li_rate l = li_rate l' \<Longrightarrow> gain l = gain l'"
  by (simp add: gain_def fun_eq_iff)

lemma time_sub_le: "u \<le> t \<Longrightarrow> time_sub t u \<le> t - u"
  by (simp add: time_sub_def Let_def)

lemma time_sub_pos: "0 < time_sub t u \<longleftrightarrow> u < t"
  by (simp add: time_sub_def Let_def)

lemma refill_keeps [simp]:
  "li_rate (lim_refill F now l) = li_rate l" "li_capacity (lim_refill F now l) = li_capacity l"
  by (simp_all add: lim_refill_def Let_def)

lemma refill_exact:
  "lim_refill exact now l =
     (if li_last l < now
      then l\<lparr>li_tokens := min (li_capacity l) (li_tokens l + of_int (time_sub now (li_last l)) / 1000000000 * li_rate l), li_last := now\<rparr>
      else l)"
  by (simp add: lim_refill_def Let_def min_def time_sub_pos)

lemma refill_ok: "lim_ok l \<Longrightarrow> lim_ok (lim_refill exact now l)"
proof -
  assume ok: "lim_ok l"
  have "0 \<le> of_int (time_sub now (li_last l)) / 1000000000 * li_rate l" if "li_last l < now"
    using ok that time_sub_pos[of now "li_last l"] by (simp add: lim_ok_def)
  with ok show ?thesis
    by (auto simp: refill_exact lim_ok_def)
qed

lemma refill_tokens:
  assumes "lim_ok l" "li_last l \<le> now"
  shows "li_tokens (lim_refill exact now l) \<le> li_tokens l + gain l (li_last l) now"
    and "li_last (lim_refill exact now l) = now"
proof -
  have "of_int (time_sub now (li_last l)) / 1000000000 * li_rate l \<le> gain l (li_last l) now"
    using assms time_sub_le[OF assms(2)]
    by (simp add: gain_def lim_ok_def divide_right_mono flip: of_int_diff)
  then show "li_tokens (lim_refill exact now l) \<le> li_tokens l + gain l (li_last l) now"
    using assms by (auto simp: refill_exact gain_def min_def)
  show "li_last (lim_refill exact now l) = now"
    using assms by (auto simp: refill_exact)
qed

lemma NewLimiter_ok: "0 < rate \<Longrightarrow> lim_ok (NewLimiter exact rate now)"
  by (simp add: NewLimiter_def lim_ok_def Let_def)

section \<open>One pass\<close>

fun granted :: "rat pass \<Rightarrow> rat" where
  "granted (Sleeps d) = 0"
| "granted (Takes x) = x"

lemma lim_pass_exact:
  assumes ok: "lim_ok l" and le: "li_last l \<le> now" and need: "0 < n" and pass: "lim_pass exact now n l = (l1, p)"
  shows "lim_ok l1" "li_last l1 = now" "li_rate l1 = li_rate l" "li_capacity l1 = li_capacity l"
    and "0 \<le> granted p" "granted p \<le> n"
    and "granted p + li_tokens l1 \<le> min (li_capacity l) (li_tokens l + gain l (li_last l) now)"
proof -
  define l' where "l' = lim_refill exact now l"
  have l': "lim_ok l'" "li_last l' = now" "li_rate l' = li_rate l" "li_capacity l' = li_capacity l"
    using refill_ok[OF ok] refill_tokens[OF ok le] by (simp_all add: l'_def)
  have tok: "li_tokens l' \<le> min (li_capacity l) (li_tokens l + gain l (li_last l) now)"
    using l' refill_tokens[OF ok le] by (simp add: l'_def lim_ok_def)
  have cases: "l1 = l' \<and> granted p = 0
    \<or> l1 = l'\<lparr>li_tokens := li_tokens l' - granted p\<rparr> \<and> 0 < li_tokens l' \<and> granted p = min (li_tokens l') n"
    using pass by (auto simp: lim_pass_def Let_def l'_def[symmetric] min_def split: if_splits)
  show "lim_ok l1" "li_last l1 = now" "li_rate l1 = li_rate l" "li_capacity l1 = li_capacity l"
    "0 \<le> granted p" "granted p \<le> n"
    using cases l' need by (auto simp: lim_ok_def)
  show "granted p + li_tokens l1 \<le> min (li_capacity l) (li_tokens l + gain l (li_last l) now)"
    using cases tok by auto
qed

lemma lim_pass_sleep:
  assumes "lim_pass exact now n l = (l1, Sleeps d)"
  shows "1000000 \<le> d"
  using assms by (auto simp: lim_pass_def lim_sleep_def Let_def split: if_splits)

text \<open>After time has gone by there are tokens: the bucket gains at least what a nanosecond brings.\<close>

lemma lim_pass_gains:
  assumes ok: "lim_ok l" and lt: "li_last l < now" and need: "0 < n" and pass: "lim_pass exact now n l = (l1, p)"
  obtains x where "p = Takes x" "x = n \<or> li_tokens l1 = 0 \<and> li_rate l / 1000000000 \<le> x \<and> x < n"
proof -
  define l' where "l' = lim_refill exact now l"
  have "1 \<le> time_sub now (li_last l)"
    using lt time_sub_pos[of now "li_last l"] by simp
  then have "li_rate l / 1000000000 \<le> of_int (time_sub now (li_last l)) / 1000000000 * li_rate l"
    using ok by (simp add: lim_ok_def divide_right_mono)
  moreover have "li_rate l / 1000000000 \<le> li_capacity l"
    using ok by (simp add: lim_ok_def)
  ultimately have "li_rate l / 1000000000 \<le> min (li_capacity l) (li_tokens l + of_int (time_sub now (li_last l)) / 1000000000 * li_rate l)"
    using ok unfolding lim_ok_def by (intro min.boundedI) linarith+
  then have tok: "li_rate l / 1000000000 \<le> li_tokens l'"
    using lt by (simp add: l'_def refill_exact)
  moreover have "0 < li_rate l / 1000000000"
    using ok by (simp add: lim_ok_def)
  ultimately have "\<not> li_tokens l' \<le> 0" by linarith
  then have "l1 = l'\<lparr>li_tokens := li_tokens l' - min (li_tokens l') n\<rparr>" "p = Takes (min (li_tokens l') n)"
    using pass by (auto simp: lim_pass_def Let_def l'_def[symmetric] min_def split: if_splits)
  with tok show thesis
    by (intro that[of "min (li_tokens l') n"]) (auto simp: min_def)
qed

section \<open>Rounded arithmetic\<close>

text \<open>
  \<open>val\<close> is the number a float stands for, \<open>fin\<close> holds of the floats that are numbers, and \<open>e\<close> bounds the relative error of one
  operation: 2^-53 for \<open>float64\<close>, whose operations round to the nearest and stay far from overflow and underflow in the
  ranges here, and 0 for exact arithmetic. A difference is never rounded above what is taken from.
\<close>

definition near :: "real \<Rightarrow> nat \<Rightarrow> real \<Rightarrow> real \<Rightarrow> bool" where
  "near e k a b \<longleftrightarrow> (1 - e) ^ k * b \<le> a \<and> a \<le> (1 + e) ^ k * b"

locale rounded =
  fixes F :: "'f lim_ops" and val :: "'f \<Rightarrow> real" and fin :: "'f \<Rightarrow> bool" and e :: real
  assumes err: "0 \<le> e" "e \<le> 1 / 4"
    and less: "fin x \<Longrightarrow> fin y \<Longrightarrow> fl_less F x y \<longleftrightarrow> val x < val y"
    and le: "fin x \<Longrightarrow> fin y \<Longrightarrow> fl_le F x y \<longleftrightarrow> val x \<le> val y"
    and of_int: "0 \<le> n \<Longrightarrow> n < 2 ^ 63 \<Longrightarrow> fin (fl_int F n) \<and> near e 1 (val (fl_int F n)) (of_int n)"
    and lit: "fin (fl_lit F 1000000000) \<and> val (fl_lit F 1000000000) = 1000000000"
    and add: "fin x \<Longrightarrow> fin y \<Longrightarrow> 0 \<le> val x \<Longrightarrow> 0 \<le> val y \<Longrightarrow> val x + val y \<le> 2 ^ 200 \<Longrightarrow>
      fin (fl_add F x y) \<and> near e 1 (val (fl_add F x y)) (val x + val y)"
    and sub: "fin x \<Longrightarrow> fin y \<Longrightarrow> 0 \<le> val y \<Longrightarrow> val y \<le> val x \<Longrightarrow>
      fin (fl_sub F x y) \<and> near e 1 (val (fl_sub F x y)) (val x - val y) \<and> val (fl_sub F x y) \<le> val x"
    and mul: "fin x \<Longrightarrow> fin y \<Longrightarrow> 1 / 2 ^ 100 \<le> val x \<Longrightarrow> 1 / 2 \<le> val y \<Longrightarrow> val x * val y \<le> 2 ^ 200 \<Longrightarrow>
      fin (fl_mul F x y) \<and> near e 1 (val (fl_mul F x y)) (val x * val y)"
    and div: "fin x \<Longrightarrow> val x = 0 \<or> 1 / 2 \<le> val x \<Longrightarrow> val x \<le> 2 ^ 200 \<Longrightarrow>
      fin (fl_div F x (fl_lit F 1000000000)) \<and> near e 1 (val (fl_div F x (fl_lit F 1000000000))) (val x / 1000000000)"
begin

lemma near_trans:
  assumes "near e j a b" "near e k b c"
  shows "near e (j + k) a c"
proof -
  have "(1 - e) ^ j * ((1 - e) ^ k * c) \<le> (1 - e) ^ j * b" "(1 + e) ^ j * b \<le> (1 + e) ^ j * ((1 + e) ^ k * c)"
    using assms(2) err by (simp_all add: near_def mult_left_mono)
  with assms(1) show ?thesis by (simp add: near_def power_add mult.assoc)
qed

lemma near_weaken: "near e k a b \<Longrightarrow> 0 \<le> b \<Longrightarrow> near e (Suc k) a b"
proof -
  assume n: "near e k a b" and b: "0 \<le> b"
  have "0 \<le> (1 - e) ^ k * b" "0 \<le> (1 + e) ^ k * b" using err b by simp_all
  then have "(1 - e) * ((1 - e) ^ k * b) \<le> (1 - e) ^ k * b" "(1 + e) ^ k * b \<le> (1 + e) * ((1 + e) ^ k * b)"
    using err mult_right_mono [of "1 - e" 1 "(1 - e) ^ k * b"] mult_right_mono [of 1 "1 + e" "(1 + e) ^ k * b"] by simp_all
  with n show ?thesis by (simp add: near_def mult.assoc)
qed

lemma near_add: "near e k a b \<Longrightarrow> near e k a' b' \<Longrightarrow> near e k (a + a') (b + b')"
  unfolding near_def by (simp add: distrib_left add_mono)

lemma near_scale: "near e k a b \<Longrightarrow> 0 \<le> c \<Longrightarrow> near e k (a * c) (b * c)"
  unfolding near_def by (metis mult.assoc mult_right_mono)

lemma near_one: "near e 1 a b \<longleftrightarrow> b - e * b \<le> a \<and> a \<le> b + e * b"
  by (simp add: near_def algebra_simps)

lemma near_zero [simp]: "near e k a 0 \<longleftrightarrow> a = 0"
  by (auto simp: near_def)

lemma near_nonneg:
  assumes "near e k a b" and "0 \<le> b"
  shows "0 \<le> a"
proof -
  have "0 \<le> (1 - e) ^ k * b" using err assms(2) by simp
  then show ?thesis using assms(1) unfolding near_def by linarith
qed

lemma int_zero: "fin (fl_int F 0)" "val (fl_int F 0) = 0"
  using of_int [of 0] by simp_all

lemma int_pos: "1 \<le> n \<Longrightarrow> n < 2 ^ 63 \<Longrightarrow> 3 / 4 \<le> val (fl_int F n) \<and> val (fl_int F n) \<le> 2 ^ 64"
proof -
  assume n: "1 \<le> n" "n < 2 ^ 63"
  define r where "r = real_of_int n"
  have r1: "1 \<le> r" using n(1) by (simp add: r_def)
  have "n \<le> 2 ^ 63" using n(2) by simp
  then have "r \<le> 2 ^ 63" unfolding r_def by (metis of_int_le_iff of_int_numeral of_int_power)
  then have r2: "r \<le> 9223372036854775808" by simp
  have "e * r \<le> 1 / 4 * r" using err r1 by (intro mult_right_mono) simp_all
  moreover have "r - e * r \<le> val (fl_int F n)" "val (fl_int F n) \<le> r + e * r"
    using of_int [of n] n unfolding near_one r_def by simp_all
  ultimately have "3 / 4 \<le> val (fl_int F n)" "val (fl_int F n) \<le> 18446744073709551616"
    using r1 r2 by linarith+
  then show ?thesis by simp
qed

section \<open>The clock\<close>

lemma Seconds_near:
  assumes "0 \<le> d" and "d < 2 ^ 63"
  shows "fin (Seconds F d)" and "near e 3 (val (Seconds F d)) (of_int d / 1000000000)"
proof -
  let ?q = "d div 1000000000" and ?m = "d mod 1000000000"
  have q: "0 \<le> ?q" "?q < 2 ^ 63" "0 \<le> ?m" "?m < 1000000000" using assms by auto
  have sd: "d sdiv 1000000000 = ?q" "d smod 1000000000 = ?m"
    using assms(1) by (simp_all add: signed_divide_int_def signed_modulo_int_def sgn_if)
  let ?a = "fl_int F ?q" and ?b = "fl_int F ?m"
  have a: "fin ?a" "near e 1 (val ?a) (of_int ?q)" using of_int [OF q(1,2)] by auto
  have b: "fin ?b" "near e 1 (val ?b) (of_int ?m)" using of_int [OF q(3)] q(4) by auto
  have small: "n < 2 ^ 63 \<Longrightarrow> 0 \<le> n \<Longrightarrow> val (fl_int F n) = 0 \<or> 1 / 2 \<le> val (fl_int F n)" "n < 2 ^ 63 \<Longrightarrow> 0 \<le> n \<Longrightarrow> val (fl_int F n) \<le> 2 ^ 64" for n
    using int_pos [of n] int_zero by (cases "n = 0"; simp)+
  let ?c = "fl_div F ?b (fl_lit F 1000000000)"
  have c: "fin ?c" "near e 1 (val ?c) (val ?b / 1000000000)"
    using div [OF b(1) small(1)] small(2) [of ?m] q(3,4) by auto
  have nb: "near e 1 (val ?b / 1000000000) (of_int ?m / 1000000000)"
    using near_scale [OF b(2), of "1 / 1000000000"] by simp
  have nc: "near e 2 (val ?c) (of_int ?m / 1000000000)" using near_trans [OF c(2) nb] by (simp add: numeral_2_eq_2)
  have na: "near e 2 (val ?a) (of_int ?q)" using near_weaken [OF a(2)] q(1) by (simp add: numeral_2_eq_2)
  have pos: "0 \<le> val ?a" "0 \<le> val ?c" "0 \<le> val ?b"
    using near_nonneg [OF a(2)] near_nonneg [OF nc] near_nonneg [OF b(2)] q by simp_all
  have "val ?c \<le> 2 * (val ?b / 1000000000)"
  proof -
    have "e * (val ?b / 1000000000) \<le> 1 * (val ?b / 1000000000)" using err pos(3) by (intro mult_right_mono) simp_all
    then show ?thesis using c(2) unfolding near_one by simp
  qed
  then have "val ?a + val ?c \<le> 2 ^ 200" using small(2) [OF q(2,1)] small(2) [of ?m] q(3,4) pos(3) by simp
  from add [OF a(1) c(1) pos(1,2) this]
  have s: "fin (Seconds F d)" "near e 1 (val (Seconds F d)) (val ?a + val ?c)"
    by (simp_all add: Seconds_def sd)
  have "near e 3 (val (Seconds F d)) (of_int ?q + of_int ?m / 1000000000)"
    using near_trans [OF s(2) near_add [OF na nc]] by (simp add: numeral_3_eq_3)
  moreover have "real_of_int ?q + of_int ?m / 1000000000 = of_int d / 1000000000"
  proof -
    have "real_of_int d = of_int (?q * 1000000000 + ?m)" by (simp only: div_mult_mod_eq)
    also have "\<dots> = of_int ?q * 1000000000 + of_int ?m" by (simp only: of_int_add of_int_mult of_int_numeral)
    finally show ?thesis by simp
  qed
  ultimately show "near e 3 (val (Seconds F d)) (of_int d / 1000000000)" by simp
  show "fin (Seconds F d)" by (rule s)
qed

section \<open>A pass of the loop\<close>

definition lok :: "real \<Rightarrow> 'f limiter \<Rightarrow> bool" where
  "lok R l \<longleftrightarrow> fin (li_rate l) \<and> li_capacity l = li_rate l \<and> val (li_rate l) = R \<and> 3 / 4 \<le> R \<and> R \<le> 2 ^ 64 \<and>
     fin (li_tokens l) \<and> 0 \<le> val (li_tokens l) \<and> val (li_tokens l) \<le> R"

text \<open>The most a bucket gains from \<open>t\<close> to \<open>u\<close>.\<close>

definition inflow :: "real \<Rightarrow> int \<Rightarrow> int \<Rightarrow> real" where
  "inflow R t u = of_int (u - t) / 1000000000 * R * (1 + e) ^ 4"

lemma inflow_split: "inflow R t u + inflow R u v = inflow R t v"
  by (simp add: inflow_def algebra_simps add_divide_distrib diff_divide_distrib)

lemma inflow_nonneg: "0 \<le> R \<Longrightarrow> t \<le> u \<Longrightarrow> 0 \<le> inflow R t u"
  using err by (simp add: inflow_def)

lemma inflow_refl [simp]: "inflow R t t = 0"
  by (simp add: inflow_def)

lemma NewLimiter_lok:
  assumes "0 < rate" "rate < 2 ^ 63"
  shows "lok (val (fl_int F rate)) (NewLimiter F rate now)"
  using assms int_pos [of rate] of_int [of rate] by (simp add: NewLimiter_def lok_def Let_def)

lemma refill_lok:
  assumes ok: "lok R l" and "li_last l \<le> now"
  shows "lok R (lim_refill F now l)" and "li_last (lim_refill F now l) = now"
    and "val (li_tokens (lim_refill F now l)) \<le> val (li_tokens l) + inflow R (li_last l) now + e * R"
proof -
  let ?d = "time_sub now (li_last l)" and ?T = "val (li_tokens l)"
  have d: "0 \<le> ?d" "?d < 2 ^ 63" "?d \<le> now - li_last l" "?d = 0 \<longleftrightarrow> now = li_last l"
    using assms(2) by (auto simp: time_sub_def Let_def)
  note s = Seconds_near [OF d(1,2)]
  have R: "3 / 4 \<le> R" "R \<le> 2 ^ 64" "val (li_rate l) = R" "fin (li_rate l)" "fin (li_tokens l)" "0 \<le> ?T" "?T \<le> R"
    and cap: "li_capacity l = li_rate l" using ok by (simp_all add: lok_def)
  have eR: "0 \<le> e * R" using err R(1) by simp
  have *: "lok R (lim_refill F now l) \<and> li_last (lim_refill F now l) = now \<and>
    val (li_tokens (lim_refill F now l)) \<le> ?T + inflow R (li_last l) now + e * R"
  proof (cases "now = li_last l")
    case True
    then have "val (Seconds F ?d) = 0" using s(2) d(4) by simp
    then have "lim_refill F now l = l"
      using less [OF int_zero(1) s(1)] int_zero(2) by (simp add: lim_refill_def Let_def)
    with True ok eR show ?thesis by simp
  next
    case False
    then have d1: "1 \<le> ?d" using d(1,4) by linarith
    have lo: "(1 - e) ^ 3 * (of_int ?d / 1000000000) \<le> val (Seconds F ?d)"
      and hi: "val (Seconds F ?d) \<le> (1 + e) ^ 3 * (of_int ?d / 1000000000)"
      using s(2) by (simp_all add: near_def)
    have "(3 / 4) ^ 3 \<le> (1 - e) ^ 3" using err by (intro power_mono) simp_all
    then have "(3 / 4) ^ 3 * (1 / 1000000000) \<le> (1 - e) ^ 3 * (of_int ?d / 1000000000)"
      using d1 err by (intro mult_mono) simp_all
    moreover have "1 / 2 ^ 100 \<le> (3 / 4 :: real) ^ 3 * (1 / 1000000000)" by (simp add: power3_eq_cube)
    ultimately have lo': "1 / 2 ^ 100 \<le> val (Seconds F ?d)" using lo by linarith
    then have pos: "0 < val (Seconds F ?d)" by (rule less_le_trans [rotated]) simp
    have e3: "(1 + e) ^ k \<le> 2 ^ k" for k using err by (intro power_mono) simp_all
    have dr: "real_of_int ?d \<le> 2 ^ 63" using d(2) of_int_less_iff [of ?d "2 ^ 63", where 'a = real] by simp
    have "(1 + e) ^ 3 * (of_int ?d / 1000000000) \<le> 2 ^ 3 * (2 ^ 63 / 1000000000)"
      using e3 [of 3] dr d(1) by (intro mult_mono) simp_all
    moreover have "2 ^ 3 * (2 ^ 63 / 1000000000) \<le> (2 ^ 66 :: real)" by simp
    ultimately have h: "val (Seconds F ?d) \<le> 2 ^ 66" using hi by linarith
    then have "val (Seconds F ?d) * R \<le> 2 ^ 66 * 2 ^ 64" using R(1,2) pos by (intro mult_mono) simp_all
    then have m2: "val (Seconds F ?d) * R \<le> 2 ^ 130" by simp
    let ?g = "fl_mul F (Seconds F ?d) (li_rate l)"
    have g: "fin ?g" "near e 1 (val ?g) (val (Seconds F ?d) * R)"
      using mul [OF s(1) R(4) lo'] R(1,3) m2 by auto
    have n4: "near e 4 (val ?g) (of_int ?d / 1000000000 * R)"
      using near_trans [OF g(2) near_scale [OF s(2), of R]] R(1) by simp
    have g0: "0 \<le> val ?g" using near_nonneg [OF n4] d(1) R(1) by simp
    have "of_int ?d / 1000000000 * R \<le> of_int (now - li_last l) / 1000000000 * R"
      using d(3) R(1) by (intro mult_right_mono divide_right_mono) (simp_all only: of_int_le_iff; simp)+
    then have "(1 + e) ^ 4 * (of_int ?d / 1000000000 * R) \<le> (1 + e) ^ 4 * (of_int (now - li_last l) / 1000000000 * R)"
      using err by (intro mult_left_mono) simp_all
    then have gi: "val ?g \<le> inflow R (li_last l) now"
      using n4 by (simp add: near_def inflow_def mult.commute)
    have "e * (val (Seconds F ?d) * R) \<le> 1 * (val (Seconds F ?d) * R)"
      using err pos R(1) by (intro mult_right_mono) simp_all
    then have "val ?g \<le> 2 ^ 131" using g(2) m2 unfolding near_one by simp
    then have "?T + val ?g \<le> 2 ^ 200" using R(2,7) by simp
    from add [OF R(5) g(1) R(6) g0 this] obtain t where
      t: "t = fl_add F (li_tokens l) ?g" "fin t" "near e 1 (val t) (?T + val ?g)" by blast
    have t0: "0 \<le> val t" using near_nonneg [OF t(3)] R(6) g0 by simp
    let ?t = "if fl_less F (li_capacity l) t then li_capacity l else t"
    have rf: "lim_refill F now l = l\<lparr>li_tokens := ?t, li_last := now\<rparr>"
      using less [OF int_zero(1) s(1)] int_zero(2) pos t(1) by (simp add: lim_refill_def Let_def)
    have v: "val ?t = min R (val t)" "fin ?t"
      using less [OF R(4) t(2)] R(3,4) t(2) cap by (simp_all add: min_def)
    have "min R (val t) \<le> ?T + val ?g + e * R"
    proof (cases "?T + val ?g \<le> R")
      case True
      then have "e * (?T + val ?g) \<le> e * R" using err by (intro mult_left_mono) simp_all
      then have "val t \<le> ?T + val ?g + e * R" using t(3) unfolding near_one by linarith
      then show ?thesis by (rule min.coboundedI2)
    next
      case False
      then show ?thesis using eR by simp
    qed
    then show ?thesis using ok v t0 R(1) gi rf by (auto simp: lok_def)
  qed
  then show "lok R (lim_refill F now l)" and "li_last (lim_refill F now l) = now"
    and "val (li_tokens (lim_refill F now l)) \<le> ?T + inflow R (li_last l) now + e * R" by blast+
qed

text \<open>What a pass lets through, nothing when it sleeps.\<close>

definition passed :: "'f pass \<Rightarrow> real" where
  "passed p = (case p of Sleeps d \<Rightarrow> 0 | Takes x \<Rightarrow> val x)"

lemma pass_lok:
  assumes ok: "lok R l" and last: "li_last l \<le> now" and n: "fin n" "0 < val n"
    and pass: "lim_pass F now n l = (l1, p)"
  shows "lok R l1" "li_last l1 = now"
    and "passed p + val (li_tokens l1) \<le> min R (val (li_tokens l) + inflow R (li_last l) now) + 2 * (e * R)"
    and "\<And>x. p = Takes x \<Longrightarrow> fin x \<and> 0 \<le> val x \<and> val x \<le> val n"
proof -
  define l' where "l' = lim_refill F now l"
  note r = refill_lok [OF ok last, folded l'_def]
  have R: "fin (li_tokens l')" "0 \<le> val (li_tokens l')" "val (li_tokens l') \<le> R" "3 / 4 \<le> R" using r(1) by (simp_all add: lok_def)
  have eR: "0 \<le> e * R" using err R(4) by simp
  have T: "val (li_tokens l') \<le> min R (val (li_tokens l) + inflow R (li_last l) now) + e * R"
    using r(3) R(3) eR by (auto simp: min_def)
  have "lok R l1 \<and> li_last l1 = now \<and>
    passed p + val (li_tokens l1) \<le> min R (val (li_tokens l) + inflow R (li_last l) now) + 2 * (e * R) \<and>
    (\<forall>x. p = Takes x \<longrightarrow> fin x \<and> 0 \<le> val x \<and> val x \<le> val n)"
  proof (cases "fl_le F (li_tokens l') (fl_int F 0)")
    case True
    then have "lim_pass F now n l = (l', Sleeps (lim_sleep F l'))" by (simp add: lim_pass_def Let_def l'_def [symmetric])
    then have q: "l1 = l'" "p = Sleeps (lim_sleep F l')" using pass by simp_all
    have "passed p = 0" using q(2) by (simp add: passed_def)
    then have "passed p + val (li_tokens l1) \<le> min R (val (li_tokens l) + inflow R (li_last l) now) + 2 * (e * R)"
      using T eR unfolding q(1) by linarith
    with r(1,2) q show ?thesis by blast
  next
    case False
    let ?x = "if fl_less F (li_tokens l') n then li_tokens l' else n"
    have x: "fin ?x" "val ?x = min (val (li_tokens l')) (val n)"
      using less [OF R(1) n(1)] R(1) n(1) by (simp_all add: min_def)
    have q: "l1 = l'\<lparr>li_tokens := fl_sub F (li_tokens l') ?x\<rparr>" "p = Takes ?x"
      using pass False by (simp_all add: lim_pass_def Let_def l'_def [symmetric])
    have xb: "0 \<le> val ?x" "val ?x \<le> val (li_tokens l')" "val ?x \<le> val n" using x(2) R(2) n(2) by simp_all
    from sub [OF R(1) x(1) xb(1,2)] obtain u where
      u: "u = fl_sub F (li_tokens l') ?x" "fin u" "near e 1 (val u) (val (li_tokens l') - val ?x)" "val u \<le> val (li_tokens l')" by blast
    have u0: "0 \<le> val u" using near_nonneg [OF u(3)] xb(2) by simp
    have "e * (val (li_tokens l') - val ?x) \<le> e * R" using err R(3) xb(1) by (intro mult_left_mono) simp_all
    then have "val ?x + val u \<le> val (li_tokens l') + e * R" using u(3) unfolding near_one by simp
    then have "passed p + val (li_tokens l1) \<le> min R (val (li_tokens l) + inflow R (li_last l) now) + 2 * (e * R)"
      using T q u(1) by (simp add: passed_def)
    moreover have "lok R l1" using r(1) q(1) u R(3) u0 by (simp add: lok_def)
    moreover have "li_last l1 = now" using r(2) q(1) by simp
    ultimately show ?thesis using q(2) x(1) xb by simp
  qed
  then show "lok R l1" "li_last l1 = now"
    and "passed p + val (li_tokens l1) \<le> min R (val (li_tokens l) + inflow R (li_last l) now) + 2 * (e * R)"
    and "\<And>x. p = Takes x \<Longrightarrow> fin x \<and> 0 \<le> val x \<and> val x \<le> val n" by blast+
qed

section \<open>The rate\<close>

text \<open>What the calls need: never less than nothing, and never more than at first.\<close>

definition needs_ok :: "real \<Rightarrow> (nat \<Rightarrow> 'f) \<Rightarrow> bool" where
  "needs_ok M need \<longleftrightarrow> (\<forall>w. fin (need w) \<and> 0 \<le> val (need w) \<and> val (need w) \<le> M)"

lemma needs_take:
  assumes ok: "needs_ok M need" and x: "fin x" "0 \<le> val x" "val x \<le> val (need w)"
  shows "needs_ok M (need(w := fl_sub F (need w) x))"
    and "finite C \<Longrightarrow> (\<Sum>v\<in>C. val (need v)) \<le> (\<Sum>v\<in>C. val ((need(w := fl_sub F (need w) x)) v)) + val x + e * M"
proof -
  have n: "fin (need w)" "0 \<le> val (need w)" "val (need w) \<le> M" using ok by (simp_all add: needs_ok_def)
  from sub [OF n(1) x] obtain u where
    u: "u = fl_sub F (need w) x" "fin u" "near e 1 (val u) (val (need w) - val x)" "val u \<le> val (need w)" by blast
  have u0: "0 \<le> val u" using near_nonneg [OF u(3)] x(3) by simp
  show "needs_ok M (need(w := fl_sub F (need w) x))"
    using ok u(2) u0 order_trans [OF u(4) n(3)] unfolding u(1) needs_ok_def by simp
  have "e * (val (need w) - val x) \<le> e * M" using err n(3) x(2) by (intro mult_left_mono) simp_all
  then have w: "val (need w) \<le> val u + val x + e * M" using u(3) unfolding near_one by simp
  have nn: "0 \<le> val x + e * M" using x(2) err n by simp
  assume "finite C"
  show "(\<Sum>v\<in>C. val (need v)) \<le> (\<Sum>v\<in>C. val ((need(w := fl_sub F (need w) x)) v)) + val x + e * M"
  proof (cases "w \<in> C")
    case True
    then have "(\<Sum>v\<in>C. f v) = f w + (\<Sum>v\<in>C - {w}. f v)" for f :: "nat \<Rightarrow> real"
      using \<open>finite C\<close> by (rule sum.remove [rotated])
    from this [of "\<lambda>v. val (need v)"] this [of "\<lambda>v. val ((need(w := u)) v)"] w show ?thesis
      unfolding u(1) [symmetric] by simp
  next
    case False
    then have "(\<Sum>v\<in>C. val ((need(w := u)) v)) = (\<Sum>v\<in>C. val (need v))" by (intro sum.cong) auto
    with nn show ?thesis unfolding u(1) [symmetric] by simp
  qed
qed

lemma schedule_bound:
  assumes "lok R l" "li_last l \<le> t" "sorted (t # map snd s)" "needs_ok M need" "finite C"
    and "lim_schedule F l need s = (l', need', taken)"
  shows "lok R l' \<and> li_last l' \<le> last (t # map snd s) \<and> needs_ok M need' \<and>
    sum_list (map val taken) \<le> min R (val (li_tokens l) + inflow R (li_last l) t) + inflow R t (last (t # map snd s))
      + 2 * (e * R) * length s \<and>
    (\<Sum>v\<in>C. val (need v)) \<le> (\<Sum>v\<in>C. val (need' v)) + sum_list (map val taken) + e * M * length s"
  using assms
proof (induction s arbitrary: l need t l' need' taken)
  case Nil
  then have "0 \<le> R" "0 \<le> val (li_tokens l)" "0 \<le> inflow R (li_last l) t"
    using inflow_nonneg [of R "li_last l" t] by (auto simp: lok_def)
  with Nil show ?case by simp
next
  case (Cons r s)
  obtain w now where r: "r = (w, now)" by (cases r)
  let ?T = "last (now # map snd s)"
  have tn: "t \<le> now" and srt: "sorted (now # map snd s)" and ln: "li_last l \<le> now" using Cons.prems r by auto
  let ?B = "min R (val (li_tokens l) + inflow R (li_last l) t)"
  have lst: "last (t # map snd (r # s)) = ?T" by (simp add: r)
  have R: "3 / 4 \<le> R" using Cons.prems(1) by (simp add: lok_def)
  have M: "0 \<le> M" using Cons.prems(4) unfolding needs_ok_def by (meson order_trans)
  have eR: "0 \<le> e * R" "0 \<le> e * M" using err R M by simp_all
  have mono: "min R (val (li_tokens l) + inflow R (li_last l) now) \<le> min R (val (li_tokens l) + inflow R (li_last l) t) + inflow R t now"
    using inflow_nonneg [OF _ tn, of R] inflow_split [of R "li_last l" t now] R by (simp add: min_def)
  have len: "c * real (length (r # s)) = c * real (length s) + c" for c by (simp add: algebra_simps)
  have n: "fin (need w)" using Cons.prems(4) by (simp add: needs_ok_def)
  show ?case
  proof (cases "0 < val (need w)")
    case False
    then have "lim_schedule F l need s = (l', need', taken)"
      using Cons.prems(6) less [OF int_zero(1) n] int_zero(2) by (simp add: r)
    from Cons.IH [OF Cons.prems(1) ln srt Cons.prems(4,5) this]
    have ih: "lok R l'" "li_last l' \<le> ?T" "needs_ok M need'"
      "sum_list (map val taken) \<le> min R (val (li_tokens l) + inflow R (li_last l) now) + inflow R now ?T + 2 * (e * R) * length s"
      "(\<Sum>v\<in>C. val (need v)) \<le> (\<Sum>v\<in>C. val (need' v)) + sum_list (map val taken) + e * M * length s" by blast+
    have "sum_list (map val taken) \<le> ?B + inflow R t ?T + (2 * (e * R) * length s + 2 * (e * R))"
      using ih(4) mono inflow_split [of R t now ?T] eR(1) by linarith
    moreover have "(\<Sum>v\<in>C. val (need v)) \<le> (\<Sum>v\<in>C. val (need' v)) + sum_list (map val taken) + (e * M * length s + e * M)"
      using ih(5) eR(2) by linarith
    ultimately show ?thesis using ih(1,2,3) unfolding lst len by blast
  next
    case True
    obtain l1 p where p: "lim_pass F now (need w) l = (l1, p)" by (cases "lim_pass F now (need w) l")
    note ps = pass_lok [OF Cons.prems(1) ln n True p]
    have tok: "min R (val (li_tokens l1) + inflow R (li_last l1) now) \<le> val (li_tokens l1)" using ps(2) by simp
    show ?thesis
    proof (cases p)
      case (Sleeps d)
      then have "lim_schedule F l1 need s = (l', need', taken)"
        using Cons.prems(6) p True less [OF int_zero(1) n] int_zero(2) by (simp add: r)
      from Cons.IH [OF ps(1) eq_refl [OF ps(2)] srt Cons.prems(4,5) this]
      have ih: "lok R l'" "li_last l' \<le> ?T" "needs_ok M need'"
        "sum_list (map val taken) \<le> min R (val (li_tokens l1) + inflow R (li_last l1) now) + inflow R now ?T + 2 * (e * R) * length s"
        "(\<Sum>v\<in>C. val (need v)) \<le> (\<Sum>v\<in>C. val (need' v)) + sum_list (map val taken) + e * M * length s" by blast+
      have pz: "passed p = 0" using Sleeps by (simp add: passed_def)
      have "sum_list (map val taken) \<le> ?B + inflow R t ?T + (2 * (e * R) * length s + 2 * (e * R))"
        using ih(4) tok ps(3) pz mono inflow_split [of R t now ?T] by linarith
      moreover have "(\<Sum>v\<in>C. val (need v)) \<le> (\<Sum>v\<in>C. val (need' v)) + sum_list (map val taken) + (e * M * length s + e * M)"
        using ih(5) eR(2) by linarith
      ultimately show ?thesis using ih(1,2,3) unfolding lst len by blast
    next
      case (Takes x)
      let ?need = "need(w := fl_sub F (need w) x)"
      from ps(4) [OF Takes] have x: "fin x" "0 \<le> val x" "val x \<le> val (need w)" by auto
      note nt = needs_take [OF Cons.prems(4) x]
      obtain taken1 where rest: "lim_schedule F l1 ?need s = (l', need', taken1)" "taken = x # taken1"
        using Cons.prems(6) p True Takes less [OF int_zero(1) n] int_zero(2) by (auto simp: r split: prod.splits)
      from Cons.IH [OF ps(1) eq_refl [OF ps(2)] srt nt(1) Cons.prems(5) rest(1)]
      have ih: "lok R l'" "li_last l' \<le> ?T" "needs_ok M need'"
        "sum_list (map val taken1) \<le> min R (val (li_tokens l1) + inflow R (li_last l1) now) + inflow R now ?T + 2 * (e * R) * length s"
        "(\<Sum>v\<in>C. val (?need v)) \<le> (\<Sum>v\<in>C. val (need' v)) + sum_list (map val taken1) + e * M * length s" by blast+
      have px: "passed p = val x" "sum_list (map val taken) = val x + sum_list (map val taken1)"
        using Takes rest(2) by (simp_all add: passed_def)
      have "sum_list (map val taken) \<le> ?B + inflow R t ?T + (2 * (e * R) * length s + 2 * (e * R))"
        using ih(4) tok ps(3) px mono inflow_split [of R t now ?T] by linarith
      moreover have "(\<Sum>v\<in>C. val (need v)) \<le> (\<Sum>v\<in>C. val (need' v)) + sum_list (map val taken) + (e * M * length s + e * M)"
        using ih(5) px(2) nt(2) [OF Cons.prems(5)] by linarith
      ultimately show ?thesis using ih(1,2,3) unfolding lst len by blast
    qed
  qed
qed

end

text \<open>Exact arithmetic rounds nothing.\<close>

interpretation exact_arith: rounded exact "of_rat :: rat \<Rightarrow> real" "\<lambda>x. True" 0
  by unfold_locales
    (auto simp: near_def of_rat_less of_rat_less_eq of_rat_add of_rat_diff of_rat_mult of_rat_divide)

section \<open>Rounding to 53 bits\<close>

text \<open>The unit in the last place of a positive number.\<close>

definition ulp :: "real \<Rightarrow> real" where
  "ulp x = 2 powr (of_int (\<lfloor>ln x / ln 2\<rfloor> - 52))"

text \<open>The nearest number with a mantissa of 53 bits; only the range of the exponent is left out.\<close>

definition rnd :: "real \<Rightarrow> real" where
  "rnd x = (if x \<le> 0 then x else of_int (round (x / ulp x)) * ulp x)"

lemma ulp_bounds:
  assumes "0 < x"
  shows "0 < ulp x" "2 ^ 52 * ulp x \<le> x" "x < 2 ^ 53 * ulp x"
proof -
  let ?k = "\<lfloor>ln x / ln 2\<rfloor>"
  have "2 powr of_int ?k \<le> x \<and> x < 2 powr of_int (?k + 1)"
    using floor_log_eq_powr_iff [of x 2 ?k] assms by (simp add: log_def)
  moreover have "ulp x = 2 powr of_int ?k / 2 ^ 52"
    by (simp add: ulp_def powr_diff powr_realpow)
  ultimately show "0 < ulp x" "2 ^ 52 * ulp x \<le> x" "x < 2 ^ 53 * ulp x"
    by (simp_all add: powr_add)
qed

lemma ulp_eq:
  assumes "0 < u" "u = 2 powr of_int k" "2 ^ 52 * u \<le> x" "x < 2 ^ 53 * u"
  shows "ulp x = u"
proof -
  have x: "0 < x" using assms(1,3) by (intro less_le_trans [OF _ assms(3)]) simp
  have "2 powr of_int (k + 52) = 2 ^ 52 * u" "2 powr (of_int (k + 52) + 1) = 2 ^ 53 * u"
    by (simp_all add: assms(2) powr_add powr_realpow [symmetric])
  then have "\<lfloor>ln x / ln 2\<rfloor> = k + 52"
    using floor_log_eq_powr_iff [of x 2 "k + 52"] x assms(3,4) by (simp add: log_def)
  then show ?thesis by (simp add: ulp_def assms(2))
qed

lemma rnd_mantissa:
  assumes "0 < x"
  obtains n where "rnd x = of_int n * ulp x" "2 ^ 52 \<le> n" "n \<le> 2 ^ 53" "\<bar>of_int n - x / ulp x\<bar> \<le> 1 / 2"
proof
  let ?q = "x / ulp x"
  have q: "2 ^ 52 \<le> ?q" "?q \<le> 2 ^ 53" using ulp_bounds [OF assms] by (simp_all add: field_simps)
  show "rnd x = of_int (round ?q) * ulp x" using assms by (simp add: rnd_def)
  show "2 ^ 52 \<le> round ?q" using round_mono [OF q(1)] by (metis of_int_numeral of_int_power round_of_int)
  show "round ?q \<le> 2 ^ 53" using round_mono [OF q(2)] by (metis of_int_numeral of_int_power round_of_int)
  show "\<bar>of_int (round ?q) - ?q\<bar> \<le> 1 / 2" by (rule of_int_round_abs_le)
qed

lemma rnd_error:
  assumes "0 < x"
  shows "\<bar>rnd x - x\<bar> \<le> x / 2 ^ 53"
proof -
  note u = ulp_bounds [OF assms]
  obtain n where n: "rnd x = of_int n * ulp x" "\<bar>of_int n - x / ulp x\<bar> \<le> 1 / 2" by (rule rnd_mantissa [OF assms])
  have "rnd x - x = (of_int n - x / ulp x) * ulp x" using u(1) n(1) by (simp add: field_simps)
  then have "\<bar>rnd x - x\<bar> = \<bar>of_int n - x / ulp x\<bar> * ulp x" using u(1) by (simp add: abs_mult)
  also have "\<dots> \<le> 1 / 2 * ulp x" using n(2) u(1) by (intro mult_right_mono) simp_all
  also have "\<dots> \<le> x / 2 ^ 53" using u(2) by simp
  finally show ?thesis .
qed

lemma rnd_pos: "0 < x \<Longrightarrow> 0 < rnd x"
  by (rule rnd_mantissa [of x]) (auto intro: mult_pos_pos ulp_bounds(1))

lemma rnd_grid:
  assumes "u = 2 powr of_int k" "2 ^ 52 \<le> n" "n < 2 ^ 53" "x = of_int n * u"
  shows "rnd x = x"
proof -
  have u: "0 < u" by (simp add: assms(1))
  have b: "(2 :: real) ^ 52 \<le> of_int n" "real_of_int n < 2 ^ 53"
    using assms(2,3) by (metis of_int_le_iff of_int_numeral of_int_power, metis of_int_less_iff of_int_numeral of_int_power)
  have "ulp x = u"
    using b u assms(4) by (intro ulp_eq [OF u assms(1)]) (simp_all only: mult_right_mono mult_strict_right_mono less_imp_le)
  moreover have "0 < x" using b(1) u assms(4) by simp
  ultimately show ?thesis using u by (simp add: rnd_def assms(4))
qed

lemma rnd_rnd: "rnd (rnd x) = rnd x"
proof (cases "x \<le> 0")
  case True
  then show ?thesis by (simp add: rnd_def)
next
  case False
  then have x: "0 < x" by simp
  obtain n where n: "rnd x = of_int n * ulp x" "2 ^ 52 \<le> n" "n \<le> 2 ^ 53" by (rule rnd_mantissa [OF x])
  show ?thesis
  proof (cases "n = 2 ^ 53")
    case False
    then have "n < 2 ^ 53" using n(3) by simp
    then show ?thesis by (rule rnd_grid [OF ulp_def n(2) _ n(1)])
  next
    case True
    have "rnd x = of_int (2 ^ 52) * (2 * ulp x)" using n(1) True by simp
    moreover have "2 * ulp x = 2 powr of_int (\<lfloor>ln x / ln 2\<rfloor> - 52 + 1)" by (simp add: ulp_def powr_add [symmetric] powr_mult_base)
    ultimately show ?thesis by (intro rnd_grid [of "2 * ulp x" "\<lfloor>ln x / ln 2\<rfloor> - 52 + 1" "2 ^ 52"]) simp_all
  qed
qed

lemma rnd_mono:
  assumes "x \<le> y"
  shows "rnd x \<le> rnd y"
proof (cases "0 < x")
  case False
  then show ?thesis using assms rnd_pos [of y] by (cases "0 < y") (simp_all add: rnd_def)
next
  case True
  then have y: "0 < y" using assms by simp
  note ux = ulp_bounds [OF True] and uy = ulp_bounds [OF y]
  obtain n where n: "rnd x = of_int n * ulp x" "n \<le> 2 ^ 53" by (rule rnd_mantissa [OF True])
  obtain m where m: "rnd y = of_int m * ulp y" "2 ^ 52 \<le> m" by (rule rnd_mantissa [OF y])
  have le: "\<lfloor>ln x / ln 2\<rfloor> \<le> \<lfloor>ln y / ln 2\<rfloor>" using True assms by (intro floor_mono divide_right_mono) simp_all
  show ?thesis
  proof (cases "\<lfloor>ln x / ln 2\<rfloor> = \<lfloor>ln y / ln 2\<rfloor>")
    case True': True
    then have u: "ulp x = ulp y" by (simp add: ulp_def)
    then have "round (x / ulp x) \<le> round (y / ulp y)" using divide_right_mono [OF assms, of "ulp y"] uy(1) by (intro round_mono) simp
    then show ?thesis using True y u uy(1) by (simp add: rnd_def mult_right_mono)
  next
    case False
    with le have "\<lfloor>ln x / ln 2\<rfloor> - 52 + 1 \<le> \<lfloor>ln y / ln 2\<rfloor> - 52" by simp
    then have "2 powr of_int (\<lfloor>ln x / ln 2\<rfloor> - 52 + 1) \<le> ulp y" unfolding ulp_def
      by (subst powr_le_cancel_iff) (simp_all only: of_int_le_iff one_less_numeral_iff semiring_norm)
    then have "2 * ulp x \<le> ulp y" by (simp add: ulp_def powr_add [symmetric] powr_mult_base)
    have "of_int n * ulp x \<le> of_int (2 ^ 53) * ulp x" using n(2) ux(1) by (intro mult_right_mono) (simp_all only: of_int_le_iff less_imp_le)
    also have "\<dots> = 2 ^ 52 * (2 * ulp x)" by simp
    also have "\<dots> \<le> of_int (2 ^ 52) * ulp y" using \<open>2 * ulp x \<le> ulp y\<close> by simp
    also have "\<dots> \<le> of_int m * ulp y" using m(2) uy(1) by (intro mult_right_mono) (simp_all only: of_int_le_iff less_imp_le)
    finally show ?thesis using n(1) m(1) by simp
  qed
qed

lemma rnd_int:
  assumes "0 \<le> n" "n < 2 ^ 53"
  shows "rnd (of_int n) = of_int n"
proof (cases "n = 0")
  case True
  then show ?thesis by (simp add: rnd_def)
next
  case False
  let ?x = "real_of_int n"
  let ?k = "\<lfloor>ln ?x / ln 2\<rfloor>"
  have x: "0 < ?x" using False assms(1) by simp
  have "n \<le> 2 ^ 53 - 1" using assms(2) by simp
  then have "?x < 2 ^ 53" using assms(2) by (metis of_int_less_iff of_int_numeral of_int_power)
  then have "?k < 53" using ulp_bounds(2) [OF x] x
    by (simp add: floor_less_iff ln_div log_def [symmetric] log_less_iff powr_realpow [symmetric])
  then have k: "?k - 52 \<le> 0" by simp
  then have "ulp ?x = 1 / 2 ^ nat (52 - ?k)"
    by (simp add: ulp_def powr_realpow [symmetric] powr_minus_divide [symmetric])
  then have "?x / ulp ?x = of_int (n * 2 ^ nat (52 - ?k))" by simp
  then show ?thesis using x ulp_bounds(1) [OF x] by (simp only: rnd_def round_of_int) (simp add: field_simps)
qed

definition rounding :: "real lim_ops" where
  "rounding = \<lparr>fl_lit = \<lambda>q. rnd (of_rat q), fl_int = \<lambda>i. rnd (of_int i), fl_add = \<lambda>x y. rnd (x + y), fl_mul = \<lambda>x y. rnd (x * y),
     fl_div = \<lambda>x y. rnd (x / y), fl_less = (<), fl_le = (\<le>), fl_min = min, fl_sub = \<lambda>x y. rnd (x - y),
     fl_trunc = \<lambda>x. if 0 \<le> x then \<lfloor>x\<rfloor> else \<lceil>x\<rceil>\<rparr>"
lemma rnd_near: "0 \<le> x \<Longrightarrow> near (1 / 2 ^ 53) 1 (rnd x) x"
proof (cases "x = 0")
  case False
  assume "0 \<le> x"
  with False have "\<bar>rnd x - x\<bar> \<le> x / 2 ^ 53" by (intro rnd_error) simp
  then show ?thesis by (simp add: near_def field_simps abs_if split: if_splits)
qed (simp add: near_def rnd_def)

lemma rnd_le: "rnd x = x \<Longrightarrow> y \<le> x \<Longrightarrow> rnd y \<le> x"
  using rnd_mono [of y x] by simp

lemma rounding_ops [simp]:
  "fl_lit rounding q = rnd (of_rat q)" "fl_int rounding i = rnd (of_int i)" "fl_add rounding x y = rnd (x + y)" "fl_mul rounding x y = rnd (x * y)"
  "fl_div rounding x y = rnd (x / y)" "fl_less rounding x y \<longleftrightarrow> x < y" "fl_le rounding x y \<longleftrightarrow> x \<le> y" "fl_sub rounding x y = rnd (x - y)"
  by (simp_all add: rounding_def)

lemma rnd_billion: "rnd 1000000000 = 1000000000"
  using rnd_int [of 1000000000] by simp

lemma rnd_value [simp]: "rnd (rnd x) = rnd x"
  by (rule rnd_rnd)

interpretation rounding_arith: rounded rounding "\<lambda>x. x" "\<lambda>x. rnd x = x" "1 / 2 ^ 53"
proof
  fix x y :: real and n :: int
  show "0 \<le> n \<Longrightarrow> n < 2 ^ 63 \<Longrightarrow>
      rnd (fl_int rounding n) = fl_int rounding n \<and> near (1 / 2 ^ 53) 1 (fl_int rounding n) (of_int n)"
    using rnd_near [of "of_int n"] by simp
  show "0 \<le> x \<Longrightarrow> 0 \<le> y \<Longrightarrow>
      rnd (fl_add rounding x y) = fl_add rounding x y \<and> near (1 / 2 ^ 53) 1 (fl_add rounding x y) (x + y)"
    using rnd_near [of "x + y"] by simp
  show "rnd x = x \<Longrightarrow> rnd y = y \<Longrightarrow> 0 \<le> y \<Longrightarrow> y \<le> x \<Longrightarrow>
      rnd (fl_sub rounding x y) = fl_sub rounding x y \<and> near (1 / 2 ^ 53) 1 (fl_sub rounding x y) (x - y) \<and> fl_sub rounding x y \<le> x"
    using rnd_near [of "x - y"] by (simp add: rnd_le)
  show "1 / 2 ^ 100 \<le> x \<Longrightarrow> 1 / 2 \<le> y \<Longrightarrow>
      rnd (fl_mul rounding x y) = fl_mul rounding x y \<and> near (1 / 2 ^ 53) 1 (fl_mul rounding x y) (x * y)"
    using rnd_near [of "x * y"] by simp
  show "x = 0 \<or> 1 / 2 \<le> x \<Longrightarrow>
      rnd (fl_div rounding x (fl_lit rounding 1000000000)) = fl_div rounding x (fl_lit rounding 1000000000) \<and>
      near (1 / 2 ^ 53) 1 (fl_div rounding x (fl_lit rounding 1000000000)) (x / 1000000000)"
    using rnd_near [of "x / 1000000000"] by (auto simp: rnd_billion)
qed (simp_all add: rnd_billion)

lemma sorted_after: "sorted (x # a @ b) \<Longrightarrow> sorted (last (x # a) # b)"
  by (induction a arbitrary: x) auto

lemma sorted_last: "sorted (x # xs) \<Longrightarrow> x \<le> last (x # xs)"
  by (cases "xs = []") auto

text \<open>
  C32. In any arithmetic that rounds with a relative error of at most \<open>e\<close> (\<open>rounded\<close>: 2^-53 for \<open>float64\<close>), for calls \<open>Wait(n w)\<close> of at
  most \<open>m\<close> bytes each that share a limiter, passing in any order at times that do not go back: take the part \<open>s2\<close> of the schedule that
  follows \<open>s1\<close>. The bytes of any calls that have returned by its end are at most what these calls had taken from the bucket before
  \<open>s2\<close>, one second's worth, and the rate times the length of \<open>s2\<close>, up to a rounding error that vanishes with \<open>e\<close>. A call lets
  its bytes through when it returns, so a long one may let through at once what it has taken over many seconds: that is the first
  sum, which is nothing but rounding when \<open>s1\<close> is empty.
\<close>

theorem limiter_rate:
  assumes "rounded F val fin e" and "0 < rate" and "rate < 2 ^ 63" and "sorted (t0 # map snd (s1 @ s2))"
    and "\<forall>w. 0 \<le> n w \<and> n w \<le> m" and "m < 2 ^ 63"
    and "lim_schedule F (NewLimiter F rate t0) (\<lambda>w. fl_int F (n w)) s1 = (l1, need1, taken1)"
    and "lim_schedule F l1 need1 s2 = (l2, need2, taken2)"
    and "finite C" and "\<forall>w\<in>C. \<not> fl_less F (fl_int F 0) (need2 w)"
  shows "(\<Sum>w\<in>C. real_of_int (n w)) \<le> (\<Sum>w\<in>C. real_of_int (n w) - val (need1 w))
    + (1 + e) * of_int rate * (1 + (1 + e) ^ 4 * (of_int (last (t0 # map snd (s1 @ s2)) - last (t0 # map snd s1)) / 1000000000))
    + e * (1 + e) * (2 * of_int rate + of_int m) * length s2"
proof -
  let ?l = "NewLimiter F rate t0" and ?t1 = "last (t0 # map snd s1)" and ?M = "(1 + e) * real_of_int m"
  define t2 where "t2 = last (?t1 # map snd s2)"
  define R where "R = val (fl_int F rate)"
  note rd = rounded.schedule_bound [OF assms(1)]
  have e: "0 \<le> e" "e \<le> 1 / 4" using rounded.err [OF assms(1)] by auto
  have m: "0 \<le> m" using assms(5) order_trans by blast
  have R: "R \<le> (1 + e) * of_int rate" "3 / 4 \<le> R"
    using rounded.of_int [OF assms(1), of rate] rounded.int_pos [OF assms(1), of rate] assms(2,3)
    by (simp_all add: near_def R_def)
  have n: "fin (fl_int F (n w)) \<and> 0 \<le> val (fl_int F (n w)) \<and> val (fl_int F (n w)) \<le> ?M" for w
  proof -
    have w: "0 \<le> n w" "n w \<le> m" "n w < 2 ^ 63" using assms(5,6) by (auto intro: le_less_trans)
    have near: "fin (fl_int F (n w))" "near e 1 (val (fl_int F (n w))) (of_int (n w))"
      using rounded.of_int [OF assms(1) w(1,3)] by auto
    have "(1 + e) * of_int (n w) \<le> ?M" using e w(2) by (intro mult_left_mono) simp_all
    then show ?thesis
      using near rounded.near_nonneg [OF assms(1) near(2)] w(1) by (simp add: near_def)
  qed
  then have needs: "rounded.needs_ok val fin ?M (\<lambda>w. fl_int F (n w))"
    by (simp add: rounded.needs_ok_def [OF assms(1)])
  have "li_last ?l \<le> t0" using assms(2) by (simp add: NewLimiter_def Let_def)
  moreover have "sorted (t0 # map snd s1)" using assms(4) by (auto simp: sorted_append)
  ultimately have first: "rounded.lok val fin R l1" "li_last l1 \<le> ?t1" "rounded.needs_ok val fin ?M need1"
    using rd [OF rounded.NewLimiter_lok [OF assms(1-3)] _ _ needs assms(9,7)] unfolding R_def by blast+
  have "sorted (?t1 # map snd s2)"
    using sorted_after [of t0 "map snd s1" "map snd s2"] assms(4) by simp
  note second = rd [OF first(1,2) this first(3) assms(9,8), folded t2_def]
  have "val (need2 w) = 0" if "w \<in> C" for w
  proof -
    have "fin (need2 w)" "0 \<le> val (need2 w)" using second by (simp_all add: rounded.needs_ok_def [OF assms(1)])
    then show ?thesis
      using assms(10) that rounded.less [OF assms(1) rounded.int_zero(1) [OF assms(1)], of "need2 w"] rounded.int_zero(2) [OF assms(1)]
      by force
  qed
  then have "(\<Sum>w\<in>C. val (need2 w)) = 0" by simp
  then have need1: "(\<Sum>w\<in>C. val (need1 w)) \<le> R + rounded.inflow e R ?t1 t2 + 2 * (e * R) * length s2 + e * ?M * length s2"
    using second min.cobounded1 [of R "val (li_tokens l1) + rounded.inflow e R (li_last l1) ?t1"] by linarith
  have t2: "t2 = last (t0 # map snd (s1 @ s2))" by (simp add: t2_def)
  define D where "D = 1 + (1 + e) ^ 4 * (real_of_int (t2 - ?t1) / 1000000000)"
  have "?t1 \<le> t2"
    using sorted_last [OF \<open>sorted (?t1 # map snd s2)\<close>] by (simp only: t2_def)
  then have D: "0 \<le> D" using e by (simp add: D_def)
  have "R + rounded.inflow e R ?t1 t2 = R * D"
    by (simp only: rounded.inflow_def [OF assms(1)] D_def) (simp add: algebra_simps)
  also have "\<dots> \<le> (1 + e) * of_int rate * D" using R(1) D by (rule mult_right_mono)
  finally have "R + rounded.inflow e R ?t1 t2 \<le> (1 + e) * of_int rate * D" .
  moreover have "e * R \<le> e * ((1 + e) * of_int rate)" using R(1) e by (simp only: mult_left_mono)
  then have "(2 * (e * R) + e * ?M) * length s2 \<le> (2 * (e * ((1 + e) * of_int rate)) + e * ?M) * length s2"
    by (intro mult_right_mono) simp_all
  moreover have "(2 * (e * R) + e * ?M) * length s2 = 2 * (e * R) * length s2 + e * ?M * length s2"
    by (simp only: distrib_right)
  moreover have "(2 * (e * ((1 + e) * of_int rate)) + e * ?M) * length s2 = e * (1 + e) * (2 * of_int rate + of_int m) * length s2"
    by (simp add: algebra_simps)
  ultimately have "(\<Sum>w\<in>C. val (need1 w)) \<le> (1 + e) * of_int rate * D + e * (1 + e) * (2 * of_int rate + of_int m) * length s2"
    using need1 by linarith
  then show ?thesis unfolding t2 [symmetric] D_def [symmetric] by (simp add: sum_subtractf)
qed

text \<open>A call of 5000 bytes at 1000 bytes a second: it has taken 4000 after three seconds and returns after four.\<close>

definition demo_passes :: "(nat \<times> int) list" where
  "demo_passes = [(0, 0), (0, 1000000000), (0, 2000000000), (0, 3000000000)]"

definition demo_before :: "rat limiter \<times> (nat \<Rightarrow> rat) \<times> rat list" where
  "demo_before = lim_schedule exact (NewLimiter exact 1000 0) (\<lambda>w. fl_int exact 5000) demo_passes"

definition demo_after :: "rat limiter \<times> (nat \<Rightarrow> rat) \<times> rat list" where
  "demo_after = lim_schedule exact (fst demo_before) (fst (snd demo_before)) [(0, 4000000000)]"

lemma demo_before_eval: "fst (snd demo_before) 0 = 1000 \<and> fst (snd demo_before) 1 = 5000 \<and> snd (snd demo_before) = [1000, 1000, 1000, 1000]"
  by code_simp

lemma demo_after_eval: "fst (snd demo_after) 0 = 0 \<and> snd (snd demo_after) = [1000]"
  by code_simp

theorem limiter_rate_witness:
  "snd (snd demo_after) = [1000] \<and> \<not> 0 < fst (snd demo_after) 0 \<and>
   (5000 :: real) \<le> 5000 - real_of_rat (fst (snd demo_before) 0) + 1000 * (1 + 1)"
proof -
  obtain l1 need1 taken1 where s1: "demo_before = (l1, need1, taken1)" by (rule prod_cases3)
  obtain l2 need2 taken2 where s2: "demo_after = (l2, need2, taken2)" by (rule prod_cases3)
  have n1: "need1 0 = 1000" using demo_before_eval by (simp add: s1)
  have n2: "need2 0 = 0" "taken2 = [1000]" using demo_after_eval by (simp_all add: s2)
  have "(\<Sum>w\<in>{0::nat}. real_of_int 5000) \<le> (\<Sum>w\<in>{0}. real_of_int 5000 - real_of_rat (need1 w))
    + (1 + 0 :: real) * of_int 1000 * (1 + (1 + 0) ^ 4 * (of_int (last (0 # map snd (demo_passes @ [(0, 4000000000)])) - last (0 # map snd demo_passes)) / 1000000000))
    + (0 :: real) * (1 + 0) * (2 * of_int 1000 + of_int 5000) * length [(0 :: nat, 4000000000 :: int)]"
  proof (rule limiter_rate [OF exact_arith.rounded_axioms])
    show "lim_schedule exact (NewLimiter exact 1000 0) (\<lambda>w. fl_int exact 5000) demo_passes = (l1, need1, taken1)"
      using s1 by (simp only: demo_before_def)
    show "lim_schedule exact l1 need1 [(0, 4000000000)] = (l2, need2, taken2)"
      using s2 by (simp only: demo_after_def s1 fst_conv snd_conv)
  qed (simp_all add: demo_passes_def n2)
  then show ?thesis using n1 n2 by (simp add: s1 s2 demo_passes_def)
qed

section \<open>Waiting ends\<close>

lemma lim_loop_done: "remaining \<le> 0 \<Longrightarrow> snd (lim_loop exact l remaining t rs) = Returned None"
  by (simp add: lim_loop.simps)

lemma lim_loop_empty:
  assumes "lim_ok l" "li_last l \<le> t" "li_tokens l = 0" "remaining \<le> of_nat k * (li_rate l / 1000000000)"
    and "\<forall>r\<in>set rs. ro_err r = None \<and> ro_cancel r = None" "2 * k \<le> length rs"
  shows "snd (lim_loop exact l remaining t rs) = Returned None"
  using assms
proof (induction k arbitrary: l remaining t rs)
  case 0
  then show ?case by (simp add: lim_loop_done)
next
  case (Suc k)
  show ?case
  proof (cases "remaining \<le> 0")
    case True
    then show ?thesis by (rule lim_loop_done)
  next
    case False
    have step: "snd (lim_loop exact l' remaining t' (r # rs')) = Returned None"
      if "lim_ok l'" "li_last l' < t' + int (ro_late r)" "li_rate l' = li_rate l" "ro_err r = None"
        "\<forall>r\<in>set rs'. ro_err r = None \<and> ro_cancel r = None" "2 * k \<le> length rs'" for l' t' r rs'
    proof -
      note h = that
      let ?now = "t' + int (ro_late r)"
      obtain l1 p where p: "lim_pass exact ?now remaining l' = (l1, p)" by (cases "lim_pass exact ?now remaining l'")
      have pos: "0 < remaining" using False by simp
      note ps = lim_pass_exact[OF h(1) less_imp_le[OF h(2)] pos p]
      obtain x where x: "p = Takes x" "x = remaining \<or> li_tokens l1 = 0 \<and> li_rate l' / 1000000000 \<le> x \<and> x < remaining"
        by (rule lim_pass_gains[OF h(1,2) pos p])
      have "lim_loop exact l' remaining t' (r # rs') = lim_loop exact l1 (remaining - x) ?now rs'"
        using pos h(4) p x(1) by (simp add: lim_loop.simps[of exact l'])
      moreover have "snd (lim_loop exact l1 (remaining - x) ?now rs') = Returned None"
        using x(2)
      proof
        assume "x = remaining"
        then show ?thesis by (simp add: lim_loop_done)
      next
        assume x: "li_tokens l1 = 0 \<and> li_rate l' / 1000000000 \<le> x \<and> x < remaining"
        then have "remaining - x \<le> of_nat k * (li_rate l1 / 1000000000)"
          using Suc.prems(4) ps(3) h(3) by (simp add: distrib_right)
        then show ?thesis
          using Suc.IH[OF ps(1) _ _ _ h(5,6), of ?now "remaining - x"] ps(2) x by simp
      qed
      ultimately show ?thesis by simp
    qed
    obtain r1 r2 rs' where rs: "rs = r1 # r2 # rs'" "2 * k \<le> length rs'"
      using Suc.prems(6) by (cases rs; cases "tl rs") auto
    show ?thesis
    proof (cases "li_last l < t + int (ro_late r1)")
      case True
      have "snd (lim_loop exact l remaining t (r1 # r2 # rs')) = Returned None"
        by (rule step[OF Suc.prems(1) True refl]) (use rs Suc.prems(5) in simp_all)
      then show ?thesis using rs(1) by simp
    next
      case False': False
      then have now: "t + int (ro_late r1) = li_last l" using Suc.prems(2) by simp
      have pass: "lim_pass exact (li_last l) remaining l = (l, Sleeps (lim_sleep exact l))"
        using Suc.prems(3) by (simp add: lim_pass_def refill_exact Let_def)
      have "lim_loop exact l remaining t rs = lim_loop exact l remaining (li_last l + lim_sleep exact l) (r2 # rs')"
        using False rs Suc.prems(5) pass by (simp add: lim_loop.simps[of exact l remaining t] now)
      moreover have "li_last l < li_last l + lim_sleep exact l + int (ro_late r2)"
        using lim_pass_sleep[OF pass] by simp
      then have "snd (lim_loop exact l remaining (li_last l + lim_sleep exact l) (r2 # rs')) = Returned None"
        by (rule step[OF Suc.prems(1) _ refl]) (use rs Suc.prems(5) in simp_all)
      ultimately show ?thesis by simp
    qed
  qed
qed

text \<open>
  A worker alone whose context stays alive gets its bytes, whatever the clock does between its passes: two
  passes for every nanosecond's worth and one for what is left in the bucket are enough.
\<close>

lemma wait_returns:
  assumes "lim_ok l" "li_last l \<le> t" "0 < n" "of_int n * 1000000000 \<le> of_nat k * li_rate l"
    and "\<forall>r\<in>set rs. ro_err r = None \<and> ro_cancel r = None" "2 * k < length rs"
  shows "snd (lim_Wait exact (Some l) n t rs) = Returned None"
proof -
  have rem: "(of_int n :: rat) \<le> of_nat k * (li_rate l / 1000000000)" and pos: "(0::rat) < of_int n"
    using assms(3,4) by simp_all
  have loop: "snd (lim_loop exact l (of_int n) t rs) = Returned None"
  proof (cases "li_tokens l = 0")
    case True
    then show ?thesis using lim_loop_empty[OF assms(1,2) _ rem assms(5)] assms(6) by simp
  next
    case False
    obtain r rs' where rs: "rs = r # rs'" using assms(6) by (cases rs) auto
    let ?now = "t + int (ro_late r)"
    have le: "li_last l \<le> ?now" using assms(2) by simp
    obtain l1 p where p: "lim_pass exact ?now (of_int n) l = (l1, p)" by (cases "lim_pass exact ?now (of_int n) l")
    note ps = lim_pass_exact[OF assms(1) le pos p]
    have "0 < li_tokens (lim_refill exact ?now l)"
      using False assms(1) refill_ok[OF assms(1), of ?now] time_sub_pos[of ?now "li_last l"]
      by (auto simp: refill_exact lim_ok_def add_pos_nonneg)
    then obtain x where x: "p = Takes x" "x = of_int n \<or> li_tokens l1 = 0"
      using p by (auto simp: lim_pass_def Let_def split: if_splits)
    have "lim_loop exact l (of_int n) t rs = lim_loop exact l1 (of_int n - x) ?now rs'"
      using pos assms(5) p x(1) rs by (simp add: lim_loop.simps[of exact l])
    moreover have "snd (lim_loop exact l1 (of_int n - x) ?now rs') = Returned None"
      using x(2)
    proof
      assume "x = of_int n"
      then show ?thesis by (simp add: lim_loop_done)
    next
      assume "li_tokens l1 = 0"
      then show ?thesis
        using lim_loop_empty[OF ps(1) _ _ _, of ?now "of_int n - x" k rs'] ps(2,3,5) rem x(1) assms(5,6) rs by simp
    qed
    ultimately show ?thesis by simp
  qed
  show ?thesis
    using loop assms(1,3)
    by (cases "lim_loop exact l (of_int n) t rs") (simp add: lim_Wait_def lim_ok_def)
qed

end
