(* ===== verification/Cli.thy ===== *)
theory Cli
  imports Endpoint Progress Engine Relay Autotune
begin

text \<open>
  The command line (\<open>internal/cli\<close>): what the commands make of their flags. The environment, the working
  directory and \<open>url.Parse\<close> are the fields of \<open>cli_env\<close>; parsing the flags themselves is cobra's. A command
  is followed up to the call of the engine, the relay or the daemon, which is an argument here, and the
  backends it opens and closes on the way.
\<close>

section \<open>Sizes\<close>

text \<open>
  The cases of the switch in their order. \<open>ToUpper\<close> and \<open>TrimSpace\<close> know ASCII only: a unit with a dotless i, which Go's \<open>ToUpper\<close> turns
  into I, or a size set off by other Unicode spaces is accepted by the code and refused here.
\<close>

definition size_suffixes :: "(string \<times> int) list" where
  "size_suffixes = [(''KIB'', 1024), (''MIB'', 1048576), (''GIB'', 1073741824), (''KB'', 1024), (''MB'', 1048576), (''GB'', 1073741824),
     (''K'', 1024), (''M'', 1048576), (''G'', 1073741824)]"

fun cut_unit :: "(string \<times> int) list \<Rightarrow> string \<Rightarrow> string \<times> int" where
  "cut_unit [] s = (s, 1)"
| "cut_unit ((u, m) # us) s = (if HasSuffix s u then (TrimSuffix s u, m) else cut_unit us s)"

definition parseSize :: "string \<Rightarrow> int res" where
  "parseSize s0 =
     (let s = TrimSpace (ToUpper s0) in
      if s = '''' then Inl (Msg ''empty size'')
      else if HasPrefix s ''-'' then Inl (Msg ''invalid size %q'')
      else let (d, mult) = cut_unit size_suffixes s in
        case parse_int (TrimSpace d) of
          Inl e \<Rightarrow> Inl (Msg ''invalid size %q'')
        | Inr n \<Rightarrow> if n < 0 then Inl (Msg ''invalid size %q'') else Inr (wrap64 (n * mult)))"

section \<open>Flags and configuration\<close>

record transfer_flags =
  tf_resume :: bool
  tf_dry :: bool
  tf_exclude :: "string list"
  tf_checksum :: bool
  tf_stable :: int
  tf_bw :: int
  tf_skip_unstable :: bool
  tf_attempts :: int
  tf_auto :: bool
  tf_streams :: int
  tf_compress :: string
  tf_chunk :: string
  tf_profile :: string
  tf_delete :: bool
  tf_insecure :: bool
  tf_token :: string
  tf_job :: string
  tf_log :: string
  tf_nolog :: bool
  tf_s3_endpoint :: string
  tf_s3_region :: string

text \<open>The engine's configuration with the fields that only its set-up reads.\<close>

record cli_config = config +
  cl_source :: string
  cl_dest :: string
  cl_bw :: int
  cl_insecure :: bool
  cl_token :: string
  cl_dir :: string
  cl_s3_endpoint :: string
  cl_s3_region :: string
  cl_tune :: tune_config
  cl_verbose :: bool
  cl_stderr :: bool
  cl_log :: string
  cl_interval :: int

record cli_env =
  cv_env :: "string \<Rightarrow> string"
  cv_userdir :: "string res"
  cv_cwd :: "string res"
  cv_url :: "string \<Rightarrow> url res"

definition quiksyncConfigDir :: "cli_env \<Rightarrow> string res" where
  "quiksyncConfigDir v =
     (if cv_env v ''QUIKSYNC_CONFIG'' \<noteq> '''' then Inr (cv_env v ''QUIKSYNC_CONFIG'')
      else case cv_userdir v of Inl e \<Rightarrow> Inl e | Inr home \<Rightarrow> Inr (PathJoin [home, ''quiksync'']))"

definition resolveLogPath :: "cli_env \<Rightarrow> string \<Rightarrow> string \<Rightarrow> string \<Rightarrow> string res" where
  "resolveLogPath v dest jobID override =
     (if override \<noteq> '''' then AbsPath (cv_cwd v) override
      else case ParseEndpoint (cv_url v) dest of
        Inl e \<Rightarrow> Inl e
      | Inr ep \<Rightarrow>
          (case quiksyncConfigDir v of
             Inl e \<Rightarrow> Inl (Wrap ''config directory: %w'' e)
           | Inr cfgDir \<Rightarrow>
               let root = (if ep_scheme ep = ''file''
                           then (case AbsPath (cv_cwd v) (ep_path ep) of Inr a \<Rightarrow> a | Inl e \<Rightarrow> ep_path ep)
                           else ep_path ep)
               in Inr (DefaultLogPath (ep_scheme ep) root jobID cfgDir)))"

definition minChunkSize :: int where "minChunkSize = 4096"
definition maxChunkSize :: int where "maxChunkSize = 16777216"

definition flag_codec :: "string \<Rightarrow> codec res" where
  "flag_codec s =
     (let c = ToLower s in
      if c = ''auto'' \<or> c = '''' then Inr CodecAuto
      else if c = ''none'' then Inr CodecNone
      else if c = ''lz4'' then Inr CodecLZ4
      else if c = ''zstd'' then Inr CodecZstd
      else Inl (Msg ''invalid --compress %q''))"

definition flag_chunk :: "string \<Rightarrow> u32 res" where
  "flag_chunk s =
     (if s = '''' then Inr 0
      else case parseSize s of
        Inl e \<Rightarrow> Inl e
      | Inr n \<Rightarrow>
          if n < minChunkSize \<or> n > maxChunkSize then Inl (Msg ''--chunk-size must be between %d and %d bytes'')
          else if n > 4294967295 then Inl (Msg ''--chunk-size too large for uint32'')
          else Inr (word_of_int n))"

definition flag_token :: "cli_env \<Rightarrow> string \<Rightarrow> string" where
  "flag_token v t = (if t = '''' then cv_env v ''QUIKSYNC_AUTH_TOKEN'' else t)"

definition buildConfig :: "cli_env \<Rightarrow> bool \<Rightarrow> string \<Rightarrow> string \<Rightarrow> transfer_flags \<Rightarrow> bool \<Rightarrow> cli_config res" where
  "buildConfig v verbose src dest f syncMode =
     (case flag_codec (tf_compress f) of
        Inl e \<Rightarrow> Inl e
      | Inr cdc \<Rightarrow>
     (case flag_chunk (tf_chunk f) of
        Inl e \<Rightarrow> Inl e
      | Inr chunkAvg \<Rightarrow>
     (case SanitizeJobID (if tf_job f = '''' then ''default'' else tf_job f) of
        Inl e \<Rightarrow> Inl e
      | Inr jobID \<Rightarrow>
          if tf_bw f < 0 then Inl (Msg ''--bwlimit must be non-negative'')
          else (case quiksyncConfigDir v of
            Inl e \<Rightarrow> Inl (Wrap ''config directory: %w'' e)
          | Inr cfgDir \<Rightarrow>
              let cfg = \<lparr>cf_sync = syncMode, cf_delete = tf_delete f, cf_resume = tf_resume f, cf_dry = tf_dry f,
                    cf_exclude = tf_exclude f, cf_checksum = tf_checksum f, cf_stable = tf_stable f,
                    cf_skip_unstable = tf_skip_unstable f, cf_attempts = tf_attempts f, cf_job = jobID,
                    cl_source = src, cl_dest = dest, cl_bw = tf_bw f, cl_insecure = tf_insecure f,
                    cl_token = flag_token v (tf_token f), cl_dir = cfgDir, cl_s3_endpoint = tf_s3_endpoint f,
                    cl_s3_region = tf_s3_region f,
                    cl_tune = \<lparr>tc_enabled = tf_auto f, tc_streams = (if tf_streams f > 32 then 32 else tf_streams f),
                      tc_compress = cdc, tc_chunk = chunkAvg, tc_path = tf_profile f\<rparr>,
                    cl_verbose = verbose, cl_stderr = verbose, cl_log = '''', cl_interval = 0\<rparr> in
              if tf_nolog f then Inr cfg
              else (case resolveLogPath v dest jobID (tf_log f) of
                      Inl e \<Rightarrow> Inl e
                    | Inr p \<Rightarrow> Inr (cfg\<lparr>cl_log := p, cl_interval := 1000000000\<rparr>))))))"

section \<open>Commands\<close>

text \<open>\<open>copy\<close> and \<open>sync\<close>; \<open>run\<close> is \<open>engine.Run\<close>.\<close>

definition transfer_cmd ::
  "cli_env \<Rightarrow> bool \<Rightarrow> (cli_config \<Rightarrow> 'x \<Rightarrow> (stats \<times> goerr option) \<times> 'x) \<Rightarrow> transfer_flags \<Rightarrow> bool \<Rightarrow> string \<Rightarrow> string \<Rightarrow> 'x
     \<Rightarrow> goerr option \<times> 'x" where
  "transfer_cmd v verbose run f syncMode src dest x =
     (case buildConfig v verbose src dest f syncMode of
        Inl e \<Rightarrow> (Some e, x)
      | Inr cfg \<Rightarrow>
          (case run cfg x of
             ((st, Some e), x1) \<Rightarrow> (Some e, x1)
           | ((st, None), x1) \<Rightarrow> (if sx_failed st > 0 then Some (Msg ''%d file(s) failed'') else None, x1)))"

text \<open>\<open>copy\<close> does not declare the flag \<open>--delete\<close>.\<close>

definition copy_cmd ::
  "cli_env \<Rightarrow> bool \<Rightarrow> (cli_config \<Rightarrow> 'x \<Rightarrow> (stats \<times> goerr option) \<times> 'x) \<Rightarrow> transfer_flags \<Rightarrow> string \<Rightarrow> string \<Rightarrow> 'x
     \<Rightarrow> goerr option \<times> 'x" where
  "copy_cmd v verbose run f = transfer_cmd v verbose run (f\<lparr>tf_delete := False\<rparr>) False"

definition sync_cmd ::
  "cli_env \<Rightarrow> bool \<Rightarrow> (cli_config \<Rightarrow> 'x \<Rightarrow> (stats \<times> goerr option) \<times> 'x) \<Rightarrow> transfer_flags \<Rightarrow> string \<Rightarrow> string \<Rightarrow> 'x
     \<Rightarrow> goerr option \<times> 'x" where
  "sync_cmd v verbose run f = transfer_cmd v verbose run f True"

text \<open>\<open>verify\<close>; \<open>vfy\<close> is \<open>engine.VerifyFiltered\<close> with the opening of its endpoints.\<close>

definition verify_cmd ::
  "cli_env \<Rightarrow> (string \<Rightarrow> string \<Rightarrow> open_options \<Rightarrow> string list \<Rightarrow> 'x \<Rightarrow> string list res \<times> 'x) \<Rightarrow> bool \<Rightarrow> string \<Rightarrow> string \<Rightarrow> string
     \<Rightarrow> string list \<Rightarrow> string \<Rightarrow> string \<Rightarrow> 'x \<Rightarrow> goerr option \<times> 'x" where
  "verify_cmd v vfy insecure token s3e s3r exclude src dest x =
     (case vfy src dest \<lparr>oo_insecure = insecure, oo_token = flag_token v token, oo_create = False, oo_s3_endpoint = s3e,
              oo_s3_region = s3r, oo_staging = ''''\<rparr> exclude x of
        (Inl e, x1) \<Rightarrow> (Some e, x1)
      | (Inr ms, x1) \<Rightarrow> (if ms = [] then None else Some (Msg ''%d mismatch(es)''), x1))"

text \<open>Opening and closing backends: \<open>factory.Open\<close> chooses the constructor, \<open>cb_open\<close> calls it.\<close>

record ('b, 'x) cli_backends =
  cb_open :: "backend_call \<Rightarrow> 'x \<Rightarrow> 'b res \<times> 'x"
  cb_close :: "'b \<Rightarrow> 'x \<Rightarrow> 'x"

definition cli_open :: "('b, 'x) cli_backends \<Rightarrow> endpoint \<Rightarrow> open_options \<Rightarrow> 'x \<Rightarrow> 'b res \<times> 'x" where
  "cli_open K ep opts x = (case factory_open ep opts of Inl e \<Rightarrow> (Inl e, x) | Inr c \<Rightarrow> cb_open K c x)"

record relay_flags =
  rf_via :: string
  rf_signal :: string
  rf_job :: string
  rf_token :: string
  rf_s3_endpoint :: string
  rf_s3_region :: string
  rf_insecure :: bool
  rf_ttl :: int
  rf_wait :: int
  rf_exclude :: "string list"
  rf_chunk :: string
  rf_force :: bool

definition relay_open_options :: "cli_env \<Rightarrow> relay_flags \<Rightarrow> open_options" where
  "relay_open_options v f =
     \<lparr>oo_insecure = rf_insecure f, oo_token = flag_token v (rf_token f), oo_create = False,
      oo_s3_endpoint = rf_s3_endpoint f, oo_s3_region = rf_s3_region f, oo_staging = ''''\<rparr>"

text \<open>The signal's endpoint, with the flags its dialling needs.\<close>

definition relay_signal_opt :: "cli_env \<Rightarrow> relay_flags \<Rightarrow> (endpoint \<times> bool \<times> string) option res" where
  "relay_signal_opt v f =
     (if rf_signal f = '''' then Inr None
      else case ParseEndpoint (cv_url v) (rf_signal f) of
        Inl e \<Rightarrow> Inl e
      | Inr ep \<Rightarrow> Inr (Some (ep, rf_insecure f, flag_token v (rf_token f))))"

text \<open>The size of \<open>send\<close> is cut to 32 bits without a check.\<close>

definition flag_send_chunk :: "string \<Rightarrow> u32 res" where
  "flag_send_chunk s = (if s = '''' then Inr 0 else case parseSize s of Inl e \<Rightarrow> Inl e | Inr n \<Rightarrow> Inr (word_of_int n))"

text \<open>The two backends of a command, the second opened with its directory made; both are closed at the end.\<close>

definition with_two ::
  "('b, 'x) cli_backends \<Rightarrow> endpoint \<Rightarrow> open_options \<Rightarrow> endpoint \<Rightarrow> open_options \<Rightarrow> ('b \<Rightarrow> 'b \<Rightarrow> 'x \<Rightarrow> goerr option \<times> 'x) \<Rightarrow> 'x
     \<Rightarrow> goerr option \<times> 'x" where
  "with_two K ep1 o1 ep2 o2 body x =
     (case cli_open K ep1 o1 x of
        (Inl e, x1) \<Rightarrow> (Some e, x1)
      | (Inr b1, x1) \<Rightarrow>
          (case cli_open K ep2 o2 x1 of
             (Inl e, x2) \<Rightarrow> (Some e, cb_close K b1 x2)
           | (Inr b2, x2) \<Rightarrow> (case body b1 b2 x2 of (e, x3) \<Rightarrow> (e, cb_close K b1 (cb_close K b2 x3)))))"

definition send_cmd ::
  "cli_env \<Rightarrow> ('b, 'x) cli_backends \<Rightarrow> (send_options \<Rightarrow> (endpoint \<times> bool \<times> string) option \<Rightarrow> 'b \<Rightarrow> 'b \<Rightarrow> 'x \<Rightarrow> goerr option \<times> 'x)
     \<Rightarrow> relay_flags \<Rightarrow> string \<Rightarrow> 'x \<Rightarrow> goerr option \<times> 'x" where
  "send_cmd v K send f src x =
     (if rf_via f = '''' then (Some (Msg ''--via is required''), x)
      else case ParseEndpoint (cv_url v) src of
        Inl e \<Rightarrow> (Some e, x)
      | Inr srcEP \<Rightarrow>
          (case ParseEndpoint (cv_url v) (rf_via f) of
             Inl e \<Rightarrow> (Some e, x)
           | Inr midEP \<Rightarrow>
               let opts = relay_open_options v f in
               with_two K srcEP opts midEP (opts\<lparr>oo_create := True\<rparr>)
                 (\<lambda>s m x1. case flag_send_chunk (rf_chunk f) of
                    Inl e \<Rightarrow> (Some e, x1)
                  | Inr avg \<Rightarrow>
                      (case relay_signal_opt v f of
                         Inl e \<Rightarrow> (Some e, x1)
                       | Inr sig \<Rightarrow>
                           send \<lparr>so_job = rf_job f, so_ttl = rf_ttl f, so_sender = '''', so_exclude = rf_exclude f, so_avg = avg\<rparr>
                             sig s m x1)) x))"

definition recv_cmd ::
  "cli_env \<Rightarrow> ('b, 'x) cli_backends \<Rightarrow> (string \<Rightarrow> int \<Rightarrow> (endpoint \<times> bool \<times> string) option \<Rightarrow> 'b \<Rightarrow> 'b \<Rightarrow> 'x \<Rightarrow> goerr option \<times> 'x)
     \<Rightarrow> relay_flags \<Rightarrow> string \<Rightarrow> 'x \<Rightarrow> goerr option \<times> 'x" where
  "recv_cmd v K recv f dest x =
     (if rf_via f = '''' then (Some (Msg ''--via is required''), x)
      else case ParseEndpoint (cv_url v) dest of
        Inl e \<Rightarrow> (Some e, x)
      | Inr dstEP \<Rightarrow>
          (case ParseEndpoint (cv_url v) (rf_via f) of
             Inl e \<Rightarrow> (Some e, x)
           | Inr midEP \<Rightarrow>
               let opts = relay_open_options v f in
               with_two K midEP opts dstEP (opts\<lparr>oo_create := True\<rparr>)
                 (\<lambda>m d x1. case relay_signal_opt v f of
                    Inl e \<Rightarrow> (Some e, x1)
                  | Inr sig \<Rightarrow> recv (rf_job f) (rf_wait f) sig m d x1) x))"

definition gc_cmd ::
  "cli_env \<Rightarrow> ('b, 'x) cli_backends \<Rightarrow> (string \<Rightarrow> bool \<Rightarrow> 'b \<Rightarrow> 'x \<Rightarrow> goerr option \<times> 'x) \<Rightarrow> relay_flags \<Rightarrow> 'x \<Rightarrow> goerr option \<times> 'x" where
  "gc_cmd v K gc f x =
     (if rf_via f = '''' then (Some (Msg ''--via is required''), x)
      else case ParseEndpoint (cv_url v) (rf_via f) of
        Inl e \<Rightarrow> (Some e, x)
      | Inr midEP \<Rightarrow>
          (case cli_open K midEP \<lparr>oo_insecure = False, oo_token = '''', oo_create = False, oo_s3_endpoint = rf_s3_endpoint f,
                   oo_s3_region = rf_s3_region f, oo_staging = ''''\<rparr> x of
             (Inl e, x1) \<Rightarrow> (Some e, x1)
           | (Inr m, x1) \<Rightarrow> (case gc (rf_job f) (rf_force f) m x1 of (e, x2) \<Rightarrow> (e, cb_close K m x2))))"

section \<open>Lemmas\<close>

lemma HasSuffix_rev: "HasSuffix s p \<longleftrightarrow> take (length p) (rev s) = rev p"
proof
  assume "HasSuffix s p"
  then show "take (length p) (rev s) = rev p" by (auto simp: HasSuffix_iff)
next
  assume a: "take (length p) (rev s) = rev p"
  have "rev s = take (length p) (rev s) @ drop (length p) (rev s)" by simp
  then have "rev s = rev p @ drop (length p) (rev s)" by (simp only: a)
  then have "s = rev (drop (length p) (rev s)) @ p" by (metis rev_append rev_rev_ident)
  then show "HasSuffix s p" unfolding HasSuffix_iff by blast
qed

lemma TrimSuffix_append [simp]: "TrimSuffix (s @ p) p = s"
  by (simp add: TrimSuffix_def HasSuffix_def)

lemma digit_plain:
  assumes "is_digit c"
  shows "\<not> is_lower c \<and> c \<notin> set space_chars \<and> c \<notin> set ''KMGIB-''"
  using assms by (auto simp: is_digit_def is_lower_def space_chars_def)

lemma ToUpper_digits: "list_all is_digit s \<Longrightarrow> ToUpper s = s"
  using digit_plain by (induction s) (auto simp: ToUpper_def)

lemma TrimSpace_id: "s \<noteq> [] \<Longrightarrow> hd s \<notin> set space_chars \<Longrightarrow> last s \<notin> set space_chars \<Longrightarrow> TrimSpace s = s"
  by (simp add: TrimSpace_def dropWhile_eq_self_iff [THEN iffD2] hd_rev)

lemma TrimSpace_digits: "s \<noteq> [] \<Longrightarrow> list_all is_digit s \<Longrightarrow> TrimSpace s = s"
  using digit_plain last_in_set hd_in_set by (intro TrimSpace_id) (auto simp: list_all_iff)

text \<open>The units the switch knows, each with its factor, and no unit.\<close>

definition size_units :: "(string \<times> int) list" where
  "size_units = ('''', 1) # size_suffixes"

lemma cut_unit_digits:
  assumes "list_all is_digit ds" and "ds \<noteq> []" and "(u, m) \<in> set size_units"
  shows "cut_unit size_suffixes (ds @ u) = (ds, m)"
proof -
  obtain c cs where r: "rev ds = c # cs" using assms(2) by (cases "rev ds") auto
  then have "c \<in> set ds" by (metis list.set_intros(1) set_rev)
  then have "is_digit c" using assms(1) by (auto simp: list_all_iff)
  then have c: "c \<noteq> CHR ''B''" "c \<noteq> CHR ''K''" "c \<noteq> CHR ''M''" "c \<noteq> CHR ''G''" using digit_plain by auto
  have "TrimSuffix (ds @ u) u = ds" by (rule TrimSuffix_append)
  with assms(3) show ?thesis
    unfolding size_units_def size_suffixes_def
    by (simp only: list.set insert_iff prod.inject) (elim disjE conjE emptyE; simp add: HasSuffix_rev r c)
qed

lemma unit_chars: "(u, m) \<in> set size_units \<Longrightarrow> u \<noteq> [] \<Longrightarrow> last u \<notin> set space_chars"
  by (auto simp: size_units_def size_suffixes_def space_chars_def)

lemma ToUpper_append: "ToUpper (s @ t) = ToUpper s @ ToUpper t"
  by (simp add: ToUpper_def)

lemma parseSize_digits:
  assumes "list_all is_digit ds" and "ds \<noteq> []" and "(ToUpper u, m) \<in> set size_units" and "parse_int ds = Inr n" and "0 \<le> n"
  shows "parseSize (ds @ u) = Inr (wrap64 (n * m))"
proof -
  let ?s = "ds @ ToUpper u"
  have up: "ToUpper (ds @ u) = ?s" using assms(1) by (simp add: ToUpper_append ToUpper_digits)
  have h: "hd ds \<in> set ds" "last ds \<in> set ds" using assms(2) by simp_all
  have d: "is_digit (hd ds)" "is_digit (last ds)" using assms(1) h by (auto simp: list_all_iff)
  have "last ?s \<notin> set space_chars"
    using unit_chars [OF assms(3)] digit_plain [OF d(2)] by (cases "ToUpper u = []") auto
  then have t: "TrimSpace ?s = ?s" using assms(2) digit_plain [OF d(1)] by (intro TrimSpace_id) auto
  have "\<not> HasPrefix ?s ''-''" using digit_plain [OF d(1)] assms(2) by (cases ds) (auto simp: HasPrefix_def)
  with t show ?thesis
    using assms cut_unit_digits [OF assms(1,2,3)] TrimSpace_digits [OF assms(2,1)]
    by (simp add: parseSize_def up Let_def)
qed

lemma parse_nat_digits: "int n < 2 ^ 63 \<Longrightarrow> parse_int (nat_digits n) = Inr (int n)"
  using parse_format_int [of "int n"] by (simp add: format_int_def fits64_def)

lemma flag_chunk_range:
  assumes "flag_chunk s = Inr n"
  shows "n = 0 \<or> 4096 \<le> uint n \<and> uint n \<le> 16777216"
proof (cases "s = ''''")
  case False
  then obtain k where k: "minChunkSize \<le> k" "k \<le> maxChunkSize" "n = word_of_int k"
    using assms by (auto simp: flag_chunk_def not_less split: sum.splits if_splits)
  then have "uint n = k" by (simp add: uint_word_of_int minChunkSize_def maxChunkSize_def)
  then show ?thesis using k by (simp add: minChunkSize_def maxChunkSize_def)
qed (use assms in \<open>simp add: flag_chunk_def\<close>)

lemma flag_codec_range: "flag_codec s = Inr c \<Longrightarrow> c \<in> {CodecNone, CodecLZ4, CodecZstd, CodecAuto}"
  by (auto simp: flag_codec_def Let_def split: if_splits)

lemma buildConfig_fields:
  assumes "buildConfig v vb src dest f sy = Inr cfg"
  shows "SanitizeJobID (if tf_job f = '''' then ''default'' else tf_job f) = Inr (cf_job cfg) \<and> 0 \<le> cl_bw cfg \<and>
    tc_streams (cl_tune cfg) \<le> 32 \<and> flag_codec (tf_compress f) = Inr (tc_compress (cl_tune cfg)) \<and>
    flag_chunk (tf_chunk f) = Inr (tc_chunk (cl_tune cfg)) \<and> tc_enabled (cl_tune cfg) = tf_auto f \<and>
    cf_sync cfg = sy \<and> cf_delete cfg = tf_delete f \<and> cf_dry cfg = tf_dry f \<and> cf_exclude cfg = tf_exclude f \<and>
    (if tf_nolog f then cl_log cfg = '''' else resolveLogPath v dest (cf_job cfg) (tf_log f) = Inr (cl_log cfg))"
  using assms by (auto simp: buildConfig_def Let_def split: sum.splits if_splits)

text \<open>An environment without variables, and the flags of a plain \<open>copy\<close>.\<close>

definition demo_cli :: cli_env where
  "demo_cli = \<lparr>cv_env = (\<lambda>k. []), cv_userdir = Inr ''/home'', cv_cwd = Inr ''/work'', cv_url = (\<lambda>s. Inl EOF)\<rparr>"

definition demo_flags :: transfer_flags where
  "demo_flags = \<lparr>tf_resume = True, tf_dry = False, tf_exclude = [], tf_checksum = False, tf_stable = 0, tf_bw = 0,
     tf_skip_unstable = False, tf_attempts = 5, tf_auto = True, tf_streams = 99, tf_compress = ''LZ4'', tf_chunk = ''64k'', tf_profile = [],
     tf_delete = False, tf_insecure = False, tf_token = [], tf_job = ''a/b'', tf_log = [], tf_nolog = False,
     tf_s3_endpoint = [], tf_s3_region = []\<rparr>"

lemma digit_codes:
  "char_of (48 :: nat) = CHR ''0''"
  "char_of (49 :: nat) = CHR ''1''"
  "char_of (50 :: nat) = CHR ''2''"
  "char_of (51 :: nat) = CHR ''3''"
  "char_of (52 :: nat) = CHR ''4''"
  "char_of (53 :: nat) = CHR ''5''"
  "char_of (54 :: nat) = CHR ''6''"
  "char_of (55 :: nat) = CHR ''7''"
  "char_of (56 :: nat) = CHR ''8''"
  "char_of (57 :: nat) = CHR ''9''"
  by code_simp+

section \<open>Properties\<close>

text \<open>
  A number with any of the units, in either case, is read as their product, modulo 2^64 as a signed
  number: exactly when the product is below 2^63, and silently as something else, possibly small or negative, when it
  is not. \<open>send\<close> takes the low 32 bits of what comes out, whatever it is.
\<close>
theorem parseSize_exact:
  assumes "(ToUpper u, m) \<in> set size_units" and "int n < 2 ^ 63"
  shows "parseSize (nat_digits n @ u) = Inr (wrap64 (int n * m)) \<and>
    (if int n * m < 2 ^ 63 then parseSize (nat_digits n @ u) = Inr (int n * m) else True) \<and>
    flag_send_chunk (nat_digits n @ u) = Inr (word_of_int (wrap64 (int n * m)))"
proof -
  have p: "parseSize (nat_digits n @ u) = Inr (wrap64 (int n * m))"
    using parseSize_digits [OF nat_digits_all nat_digits_not_Nil assms(1) parse_nat_digits [OF assms(2)]] by simp
  have "1 \<le> m" using assms(1) by (auto simp: size_units_def size_suffixes_def)
  then have "0 \<le> int n * m" by simp
  then have "int n * m < 2 ^ 63 \<Longrightarrow> wrap64 (int n * m) = int n * m"
    by (intro wrap64_id) (simp add: fits64_def)
  with p show ?thesis by (simp add: flag_send_chunk_def)
qed

theorem parseSize_exact_witness:
  "parseSize ''64kib'' = Inr 65536 \<and> parseSize ''18014398509482000K'' = Inr 16384 \<and> flag_send_chunk ''4G'' = Inr 0"
proof -
  have u: "(ToUpper ''kib'', 1024) \<in> set size_units" "(ToUpper ''K'', 1024) \<in> set size_units" "(ToUpper ''G'', 1073741824) \<in> set size_units"
    by code_simp+
  have d: "nat_digits 64 = ''64''" "nat_digits 18014398509482000 = ''18014398509482000''" "nat_digits 4 = ''4''"
    by (simp_all add: nat_digits.simps digit_char_def digit_codes)
  show ?thesis
    using parseSize_exact [OF u(1), of 64] parseSize_exact [OF u(2), of 18014398509482000] parseSize_exact [OF u(3), of 4]
    by (simp add: d wrap64_def)
qed

text \<open>
  C31. A configuration that \<open>buildConfig\<close> accepts is one the rest of the program can work with: the job id names a file of
  its directory, at most 32 streams, a known codec, no negative rate, a chunk size of 4 KiB to 16 MiB or none; and one
  that is given is the chunk size of the tuner's profile for the whole job, whatever the tuner observes.
\<close>
theorem buildConfig_sound:
  assumes "buildConfig v vb src dest f sy = Inr cfg"
  shows "is_name (cf_job cfg @ ''.jsonl'') \<and> tc_streams (cl_tune cfg) \<le> 32 \<and> 0 \<le> cl_bw cfg \<and>
    tc_compress (cl_tune cfg) \<in> {CodecNone, CodecLZ4, CodecZstd, CodecAuto} \<and>
    (if tf_chunk f = '''' then tc_chunk (cl_tune cfg) = 0 else True) \<and>
    (if tc_chunk (cl_tune cfg) = 0 then True
     else 4096 \<le> uint (tc_chunk (cl_tune cfg)) \<and> uint (tc_chunk (cl_tune cfg)) \<le> 16777216 \<and>
       pf_cdc (tu_profile (tune_run F L ops (tune_New F dec rd (cl_tune cfg) h now))) = tc_chunk (cl_tune cfg)) \<and>
    (if tf_nolog f then cl_log cfg = '''' else resolveLogPath v dest (cf_job cfg) (tf_log f) = Inr (cl_log cfg))"
proof -
  note b = buildConfig_fields [OF assms]
  have "pf_cdc (tu_profile (tune_run F L ops (tune_New F dec rd (cl_tune cfg) h now))) = tc_chunk (cl_tune cfg)"
    if "tc_chunk (cl_tune cfg) \<noteq> 0"
    using run_pinned [OF New_pinned [of F dec rd "cl_tune cfg" h now], of F L ops] New_pinned [of F dec rd "cl_tune cfg" h now] that
    by (simp add: pinned_def nonzero_word)
  moreover have "is_name (cf_job cfg @ ''.jsonl'')" using b journal_name.name by blast
  moreover have "tf_chunk f = '''' \<Longrightarrow> tc_chunk (cl_tune cfg) = 0" using b by (simp add: flag_chunk_def)
  ultimately show ?thesis
    using b flag_chunk_range [of "tf_chunk f"] flag_codec_range [of "tf_compress f"] by auto
qed

theorem buildConfig_sound_witness:
  "(case buildConfig demo_cli False ''/s'' ''/d'' (demo_flags\<lparr>tf_job := ''a.b''\<rparr>) False of
     Inr cfg \<Rightarrow> is_name (cf_job cfg @ ''.jsonl'') \<and> uint (tc_chunk (cl_tune cfg)) = 65536 \<and> tc_streams (cl_tune cfg) = 32 \<and>
       cl_log cfg = ''/d/.quiksync/logs/a.b.log'' | Inl e \<Rightarrow> False) \<and>
   isl (buildConfig demo_cli False ''/s'' ''/d'' demo_flags False)"
proof -
  let ?r = "buildConfig demo_cli False ''/s'' ''/d'' (demo_flags\<lparr>tf_job := ''a.b''\<rparr>) False"
  have v: "case ?r of Inr cfg \<Rightarrow> tc_chunk (cl_tune cfg) = 65536 \<and> tc_streams (cl_tune cfg) = 32 \<and>
       cl_log cfg = ''/d/.quiksync/logs/a.b.log'' | Inl e \<Rightarrow> False" by code_simp
  have e: "isl (buildConfig demo_cli False ''/s'' ''/d'' demo_flags False)" by code_simp
  show ?thesis
  proof (cases ?r)
    case (Inr cfg)
    have "is_name (cf_job cfg @ ''.jsonl'')"
      using buildConfig_sound [OF Inr, of rat_ops demo_lib "[]" "\<lambda>b. Inl EOF" "\<lambda>p. Inl EOF" "[]" 0] by (rule conjunct1)
    with v e Inr show ?thesis by simp
  qed (use v in simp)
qed

end
