(* ===== verification/JobRun.thy ===== *)
theory JobRun
  imports EngineJob Limiter Cli
begin

text \<open>
  The set-up of a job (\<open>Run\<close>, \<open>VerifyFiltered\<close> and \<open>progressTicker\<close> in \<open>internal/engine/engine.go\<close>): parsing and opening the two
  endpoints, where the state and the tuner's profile live, the loop with the tuner between the files, and what is
  reported. The constructors of the backends, the log, the journal and the index are calls on a state \<open>'x\<close>; the job
  between opening and closing is a parameter here and is the loop of \<open>Engine\<close> with the tuner in the second part.
\<close>

section \<open>Opening and closing\<close>

definition cli_defaults :: "cli_config \<Rightarrow> cli_config" where
  "cli_defaults cfg =
     cfg\<lparr>cf_attempts := (if cf_attempts cfg \<le> 0 then 5 else cf_attempts cfg),
         cf_job := (if cf_job cfg = '''' then ''default'' else cf_job cfg)\<rparr>"

definition engine_options :: "cli_config \<Rightarrow> open_options" where
  "engine_options cfg =
     \<lparr>oo_insecure = cl_insecure cfg, oo_token = cl_token cfg, oo_create = False, oo_s3_endpoint = cl_s3_endpoint cfg,
      oo_s3_region = cl_s3_region cfg, oo_staging = (if cl_dir cfg = '''' then '''' else PathJoin [cl_dir cfg, ''s3-staging''])\<rparr>"

definition host_key :: "endpoint \<Rightarrow> string" where
  "host_key ep = (if ep_host ep = '''' then ''local'' else ep_host ep)"

definition tune_with_path :: "cli_config \<Rightarrow> endpoint \<Rightarrow> string \<Rightarrow> tune_config" where
  "tune_with_path cfg ep rdir =
     (if tc_path (cl_tune cfg) = '''' \<and> ep_scheme ep = ''file''
      then (cl_tune cfg)\<lparr>tc_path := rdir @ ''/.quiksync/profiles/'' @ host_key ep @ ''.json''\<rparr>
      else cl_tune cfg)"

text \<open>
  The calls \<open>Run\<close> makes: \<open>rp_log\<close> is \<open>progress.Open\<close>, \<open>rp_journal\<close> and \<open>rp_index\<close> the two stores of the state directory, and \<open>rp_body\<close>
  the job over the opened backends, given the state directory and the tuner's configuration and key.
\<close>

record ('b, 'x) run_parts =
  rp_back :: "('b, 'x) cli_backends"
  rp_root :: "'b \<Rightarrow> string"
  rp_log :: "string \<Rightarrow> 'x \<Rightarrow> goerr option \<times> 'x"
  rp_log_close :: "'x \<Rightarrow> 'x"
  rp_journal :: "string \<Rightarrow> string \<Rightarrow> 'x \<Rightarrow> goerr option \<times> 'x"
  rp_index :: "string \<Rightarrow> 'x \<Rightarrow> goerr option \<times> 'x"
  rp_body :: "cli_config \<Rightarrow> 'b \<Rightarrow> 'b \<Rightarrow> string \<Rightarrow> tune_config \<Rightarrow> string \<Rightarrow> 'x \<Rightarrow> (stats \<times> goerr option) \<times> 'x"

text \<open>The deferred calls: what was opened is closed on every way out.\<close>

definition with_log :: "('b, 'x) run_parts \<Rightarrow> string \<Rightarrow> ('x \<Rightarrow> (stats \<times> goerr option) \<times> 'x) \<Rightarrow> 'x \<Rightarrow> (stats \<times> goerr option) \<times> 'x" where
  "with_log P path k x =
     (if path = '''' then k x
      else case rp_log P path x of
        (Some e, x1) \<Rightarrow> ((no_stats, Some (Wrap ''open log: %w'' e)), x1)
      | (None, x1) \<Rightarrow> (case k x1 of (r, x2) \<Rightarrow> (r, rp_log_close P x2)))"

definition with_backend ::
  "('b, 'x) cli_backends \<Rightarrow> (goerr \<Rightarrow> 'r) \<Rightarrow> endpoint \<Rightarrow> open_options \<Rightarrow> ('b \<Rightarrow> 'x \<Rightarrow> 'r \<times> 'x) \<Rightarrow> 'x \<Rightarrow> 'r \<times> 'x" where
  "with_backend K failed ep oo k x =
     (case cli_open K ep oo x of
        (Inl e, x1) \<Rightarrow> (failed e, x1)
      | (Inr b, x1) \<Rightarrow> (case k b x1 of (r, x2) \<Rightarrow> (r, cb_close K b x2)))"

definition open_state :: "('b, 'x) run_parts \<Rightarrow> string \<Rightarrow> string \<Rightarrow> 'x \<Rightarrow> goerr option \<times> 'x" where
  "open_state P rdir job x =
     (if rdir = '''' then (None, x)
      else case rp_journal P rdir job x of
        (Some e, x1) \<Rightarrow> (Some e, x1)
      | (None, x1) \<Rightarrow> rp_index P rdir x1)"

definition EngineRun :: "cli_env \<Rightarrow> ('b, 'x) run_parts \<Rightarrow> cli_config \<Rightarrow> 'x \<Rightarrow> (stats \<times> goerr option) \<times> 'x" where
  "EngineRun v P cfg0 x =
     (let cfg = cli_defaults cfg0; oo = engine_options cfg in
      case ParseEndpoint (cv_url v) (cl_source cfg) of
        Inl e \<Rightarrow> ((no_stats, Some e), x)
      | Inr srcEP \<Rightarrow>
          (case ParseEndpoint (cv_url v) (cl_dest cfg) of
             Inl e \<Rightarrow> ((no_stats, Some e), x)
           | Inr dstEP \<Rightarrow>
               with_log P (cl_log cfg)
                 (with_backend (rp_back P) (\<lambda>e. (no_stats, Some (Wrap ''source: %w'' e))) srcEP (oo\<lparr>oo_create := False\<rparr>)
                   (\<lambda>src. with_backend (rp_back P) (\<lambda>e. (no_stats, Some (Wrap ''dest: %w'' e))) dstEP (oo\<lparr>oo_create := True\<rparr>)
                     (\<lambda>dst x2.
                        case state_root (config.truncate cfg) (ep_scheme dstEP) (rp_root P dst) (cl_dir cfg)
                               (cv_env v ''QUIKSYNC_CONFIG'') (cv_userdir v) of
                          Inl e \<Rightarrow> ((no_stats, Some e), x2)
                        | Inr rdir \<Rightarrow>
                            (case open_state P rdir (cf_job cfg) x2 of
                               (Some e, x3) \<Rightarrow> ((no_stats, Some e), x3)
                             | (None, x3) \<Rightarrow>
                                 rp_body P cfg src dst rdir (tune_with_path cfg dstEP (rp_root P dst)) (host_key dstEP) x3)))) x))"

text \<open>\<open>VerifyFiltered\<close> opens both sides without making them; \<open>vfy\<close> is the comparison.\<close>

definition VerifyRun ::
  "cli_env \<Rightarrow> ('b, 'x) cli_backends \<Rightarrow> ('b \<Rightarrow> 'b \<Rightarrow> string list \<Rightarrow> 'x \<Rightarrow> string list res \<times> 'x) \<Rightarrow> string \<Rightarrow> string \<Rightarrow> open_options
     \<Rightarrow> string list \<Rightarrow> 'x \<Rightarrow> string list res \<times> 'x" where
  "VerifyRun v K vfy source dest oo exclude x =
     (case ParseEndpoint (cv_url v) source of
        Inl e \<Rightarrow> (Inl e, x)
      | Inr srcEP \<Rightarrow>
          (case ParseEndpoint (cv_url v) dest of
             Inl e \<Rightarrow> (Inl e, x)
           | Inr dstEP \<Rightarrow>
               with_backend K Inl srcEP (oo\<lparr>oo_create := False\<rparr>)
                 (\<lambda>src. with_backend K Inl dstEP (oo\<lparr>oo_create := False\<rparr>) (\<lambda>dst. vfy src dst exclude)) x))"

definition VerifyWith where
  "VerifyWith v K vfy source dest oo = VerifyRun v K vfy source dest oo []"

definition Verify where
  "Verify v K vfy source dest =
     VerifyWith v K vfy source dest
       \<lparr>oo_insecure = False, oo_token = '''', oo_create = False, oo_s3_endpoint = '''', oo_s3_region = '''', oo_staging = ''''\<rparr>"

section \<open>The log of a job\<close>

text \<open>What is written of a file, and what a test hook is told.\<close>

definition file_event where
  "file_event ts sy rel r elapsedMs rep =
     (if fr_skipped r > 0 \<or> fr_would r > 0 then FileSkip ts sy rel rep
      else if fr_copied r > 0 \<or> fr_handled r
      then FileOK ts sy rel (fr_bytes r) (fr_wired r) (fr_reused r) (fr_sent r) elapsedMs rep
      else FileFail ts sy rel (map_option err_text (fr_err r)) (fr_attempts r) rep)"

definition after_file :: "file_result \<Rightarrow> string" where
  "after_file r =
     (if fr_skipped r > 0 \<or> fr_would r > 0 then ''skipped'' else if fr_copied r > 0 \<or> fr_handled r then ''ok'' else ''failed'')"

text \<open>The ticker: at each tick the counters as they are and the rate since the tick before.\<close>

record tick =
  tk_now :: int
  tk_stats :: stats

record progress_line =
  pl_done :: int
  pl_total :: int
  pl_copied :: int
  pl_skipped :: int
  pl_failed :: int
  pl_bytes :: int
  pl_rate :: int

fun progress_ticker :: "'f lim_ops \<Rightarrow> int \<Rightarrow> int \<Rightarrow> int \<Rightarrow> tick list \<Rightarrow> progress_line list" where
  "progress_ticker F tot lastBytes lastAt [] = []"
| "progress_ticker F tot lastBytes lastAt (k # ks) =
     (let x = tk_stats k; elapsed = Seconds F (time_sub (tk_now k) lastAt);
          rate = (if fl_less F (fl_int F 0) elapsed
                  then fl_trunc F (fl_div F (fl_int F (wrap64 (sx_bytes x - lastBytes))) elapsed) else 0) in
      \<lparr>pl_done = wrap64 (wrap64 (sx_copied x + sx_skipped x) + sx_failed x), pl_total = tot, pl_copied = sx_copied x, pl_skipped = sx_skipped x,
       pl_failed = sx_failed x, pl_bytes = sx_bytes x, pl_rate = rate\<rparr> # progress_ticker F tot (sx_bytes x) (tk_now k) ks)"

section \<open>The loop with the tuner\<close>

text \<open>An attempt under the tuner's profile.\<close>

definition tuned_attempt :: "'f tuner \<Rightarrow> 's attempt \<Rightarrow> 's attempt" where
  "tuned_attempt t a =
     a\<lparr>at_avg := pf_cdc (tu_profile t), at_frame := pf_frame (tu_profile t), at_codec := pf_compress (tu_profile t)\<rparr>"

definition compress_ratio :: "'f float_ops \<Rightarrow> file_result \<Rightarrow> 'f" where
  "compress_ratio F r =
     (if fr_copied r > 0 then (if fr_wired r > 0 then fl_div F (fl_int F (fr_bytes r)) (fl_int F (fr_wired r)) else fl_lit F 1)
      else fl_int F 0)"

definition observed_sample :: "'f float_ops \<Rightarrow> file_result \<Rightarrow> int \<Rightarrow> 'f sample" where
  "observed_sample F r elapsed =
     (let ratio = compress_ratio F r in
      \<lparr>sa_verified = fr_bytes r, sa_wired = fr_wired r, sa_elapsed = elapsed, sa_rtt = fl_int F 0, sa_errors = fl_int F (fr_failed r),
       sa_cpu = fl_int F 0, sa_ratio = (if fl_le F ratio (fl_int F 0) then fl_lit F 1 else ratio)\<rparr>)"

text \<open>\<open>ck_elapsed k\<close> is how long the \<open>k\<close>-th file took, \<open>ck_now k\<close> the clock after it.\<close>

record clocks =
  ck_elapsed :: "nat \<Rightarrow> int"
  ck_now :: "nat \<Rightarrow> int"

fun tuned_files ::
  "'f float_ops \<Rightarrow> config \<Rightarrow> engine_lib \<Rightarrow> 's job_env \<Rightarrow> clocks \<Rightarrow> ('s, 'v, 'd, 'w) endpoints \<Rightarrow> file_meta list \<Rightarrow> nat \<Rightarrow> stats
     \<Rightarrow> 'f tuner \<Rightarrow> ('s, 'd) engine \<Rightarrow> (stats \<times> 'f tuner \<times> ('s, 'd) engine) option" where
  "tuned_files F cfg lib env ck E [] k x t st = Some (x, t, st)"
| "tuned_files F cfg lib env ck E (f # fs) k x t st =
     (case je_ctx env k of
        Some e \<Rightarrow> tuned_files F cfg lib env ck E fs (k + 1) (x\<lparr>sx_skipped := sx_skipped x + 1\<rparr>) t st
      | None \<Rightarrow>
          (case transferOne cfg lib (\<lambda>n. tuned_attempt t (je_att env k n)) (je_sleep env k) E f st of
             None \<Rightarrow> None
           | Some (r, st1) \<Rightarrow>
               tuned_files F cfg lib env ck E fs (k + 1) (add_result r x)
                 (tune_Observe F (observed_sample F r (ck_elapsed ck k)) (ck_now ck k) t) st1))"

text \<open>From the walk to the result; the profile is probed with the sample and a round trip of 10 ms.\<close>

definition tuned_job ::
  "((file_meta \<Rightarrow> file_meta \<Rightarrow> bool) \<Rightarrow> file_meta list \<Rightarrow> file_meta list) \<Rightarrow> 'f float_ops \<Rightarrow> config \<Rightarrow> engine_lib \<Rightarrow> 's job_env \<Rightarrow> clocks
     \<Rightarrow> ('s, 'v, 'd, 'w) endpoints \<Rightarrow> 'f tuner \<Rightarrow> ('s, 'd) engine \<Rightarrow> ((stats \<times> goerr option) \<times> 'f tuner \<times> ('s, 'd) engine) option" where
  "tuned_job srt F cfg lib env ck E t st =
     (case tr_walk (es_src E) (cf_exclude cfg) (en_src st) of
        (Inl e, s1) \<Rightarrow> Some ((no_stats, Some e), t, st\<lparr>en_src := s1\<rparr>)
      | (Inr files, s1) \<Rightarrow>
          (case probe_sample (es_src E) files s1 of
             (smp, s2) \<Rightarrow>
               (case tuned_files F cfg lib env ck E files 0 no_stats (tune_Probe F (el_codec lib) smp (fl_lit F 10) t) (st\<lparr>en_src := s2\<rparr>) of
                  None \<Rightarrow> None
                | Some (x, t1, st1) \<Rightarrow> (case finish_run srt cfg env E files x st1 of (r, st2) \<Rightarrow> Some (r, t1, st2)))))"

section \<open>The tuner keeps the chunk size\<close>

lemma transfer_loop_cong:
  "(\<And>n. att n = att' n) \<Longrightarrow> transferOne cfg lib att slp E f st = transferOne cfg lib att' slp E f st"
  by (metis ext)

lemma run_files_cong:
  "(\<And>i. k \<le> i \<Longrightarrow> je_ctx env i = je_ctx env' i \<and> je_att env i = je_att env' i \<and> je_sleep env i = je_sleep env' i) \<Longrightarrow>
   run_files cfg lib env E fs k x st = run_files cfg lib env' E fs k x st"
proof (induction fs arbitrary: k x st)
  case (Cons f fs)
  have "je_ctx env k = je_ctx env' k" "je_att env k = je_att env' k" "je_sleep env k = je_sleep env' k"
    using Cons.prems [of k] by simp_all
  moreover have "run_files cfg lib env E fs (k + 1) x st = run_files cfg lib env' E fs (k + 1) x st" for x st
    using Cons.prems by (intro Cons.IH) simp
  ultimately show ?case by (simp split: option.splits)
qed simp

lemma tuned_avg: "pinned n t \<Longrightarrow> cdc_avg (tuned_attempt t a) = n"
  by (simp add: pinned_def cdc_avg_def tuned_attempt_def)

lemma tuned_files_run:
  assumes "tuned_files F cfg lib env ck E fs k x t st = Some (x', t', st')" and "pinned n t"
  shows "\<exists>att. (\<forall>i m. cdc_avg (att i m) = n) \<and> run_files cfg lib (env\<lparr>je_att := att\<rparr>) E fs k x st = Some (x', st') \<and> pinned n t'"
  using assms
proof (induction fs arbitrary: k x t st)
  case Nil
  then show ?case
    by (intro exI [of _ "\<lambda>i m. tuned_attempt t (je_att env i m)"]) (auto simp: tuned_avg)
next
  case (Cons f fs)
  show ?case
  proof (cases "je_ctx env k")
    case (Some e)
    with Cons show ?thesis by (auto dest!: Cons.IH)
  next
    case None
    let ?a = "\<lambda>m. tuned_attempt t (je_att env k m)"
    obtain r st1 where one: "transferOne cfg lib ?a (je_sleep env k) E f st = Some (r, st1)"
      and rest: "tuned_files F cfg lib env ck E fs (k + 1) (add_result r x) (tune_Observe F (observed_sample F r (ck_elapsed ck k)) (ck_now ck k) t) st1
        = Some (x', t', st')"
      using Cons.prems(1) None by (auto split: option.splits)
    obtain att where att: "\<forall>i m. cdc_avg (att i m) = n" "pinned n t'"
      and run: "run_files cfg lib (env\<lparr>je_att := att\<rparr>) E fs (k + 1) (add_result r x) st1 = Some (x', st')"
      using Cons.IH [OF rest Observe_pinned [OF Cons.prems(2)]] by blast
    define att' where "att' = att(k := ?a)"
    have k: "att' k = ?a" and avg: "\<forall>i m. cdc_avg (att' i m) = n"
      using att(1) by (simp_all add: att'_def tuned_avg [OF Cons.prems(2)])
    have "run_files cfg lib (env\<lparr>je_att := att'\<rparr>) E fs (k + 1) (add_result r x) st1 = Some (x', st')"
      using run_files_cong [of "k + 1" "env\<lparr>je_att := att'\<rparr>" "env\<lparr>je_att := att\<rparr>" cfg lib E fs] run
      by (simp add: att'_def)
    then have "run_files cfg lib (env\<lparr>je_att := att'\<rparr>) E (f # fs) k x st = Some (x', st')"
      using one None k by simp
    with avg att(2) show ?thesis by blast
  qed
qed

section \<open>What is opened is closed\<close>

text \<open>The calls of the backends' constructors, with their outcome, and of \<open>Close\<close>, recorded in their order.\<close>

datatype 'b handle_event = Called backend_call | Opened 'b | Closed 'b | Running 'b 'b

definition traced :: "('b, 'x) cli_backends \<Rightarrow> ('b, 'x \<times> 'b handle_event list) cli_backends" where
  "traced K = \<lparr>cb_open = (\<lambda>c (x, es). case cb_open K c x of
       (Inl e, x1) \<Rightarrow> (Inl e, x1, es @ [Called c]) | (Inr b, x1) \<Rightarrow> (Inr b, x1, es @ [Called c, Opened b])),
     cb_close = (\<lambda>b (x, es). (cb_close K b x, es @ [Closed b]))\<rparr>"

definition lift_call :: "('x \<Rightarrow> 'r \<times> 'x) \<Rightarrow> 'x \<times> 'e list \<Rightarrow> 'r \<times> 'x \<times> 'e list" where
  "lift_call f xs = (case xs of (x, es) \<Rightarrow> (case f x of (r, x1) \<Rightarrow> (r, x1, es)))"

definition traced_parts :: "('b, 'x) run_parts \<Rightarrow> ('b, 'x \<times> 'b handle_event list) run_parts" where
  "traced_parts P =
     \<lparr>rp_back = traced (rp_back P), rp_root = rp_root P, rp_log = (\<lambda>p. lift_call (rp_log P p)),
      rp_log_close = (\<lambda>(x, es). (rp_log_close P x, es)), rp_journal = (\<lambda>r j. lift_call (rp_journal P r j)),
      rp_index = (\<lambda>r. lift_call (rp_index P r)),
      rp_body = (\<lambda>cfg s d r tc h (x, es). case rp_body P cfg s d r tc h x of (y, x1) \<Rightarrow> (y, x1, es @ [Running s d]))\<rparr>"

text \<open>The handles that are open after the events; \<open>None\<close> when one is closed out of turn or a job runs on others.\<close>

fun settle :: "'b list \<Rightarrow> 'b handle_event list \<Rightarrow> 'b list option" where
  "settle st [] = Some st"
| "settle st (Called c # es) = settle st es"
| "settle st (Opened b # es) = settle (b # st) es"
| "settle st (Closed b # es) = (case st of [] \<Rightarrow> None | a # st' \<Rightarrow> if a = b then settle st' es else None)"
| "settle st (Running s d # es) = (if st = [d, s] then settle st es else None)"

lemma settle_append: "settle st (es @ fs) = (case settle st es of None \<Rightarrow> None | Some st' \<Rightarrow> settle st' fs)"
  by (induction st es rule: settle.induct) (auto split: list.splits)

text \<open>
  A step of the set-up, begun with the handles \<open>st\<close>: recorded, it does what it does unrecorded, leaves them open, and makes only
  roots that \<open>ok\<close> allows.
\<close>

definition tidy ::
  "(string \<Rightarrow> bool) \<Rightarrow> 'b list \<Rightarrow> ('x \<Rightarrow> 'r \<times> 'x) \<Rightarrow> ('x \<times> 'b handle_event list \<Rightarrow> 'r \<times> 'x \<times> 'b handle_event list) \<Rightarrow> bool" where
  "tidy ok st k0 k \<longleftrightarrow>
     (\<forall>x es. \<exists>r x' fs. k0 x = (r, x') \<and> k (x, es) = (r, x', es @ fs) \<and> settle st fs = Some st \<and> (\<forall>p. Called (LocalNew p) \<in> set fs \<longrightarrow> ok p))"

lemma tidy_return: "tidy ok st (\<lambda>x. (r, x)) (\<lambda>x. (r, x))"
  by (auto simp: tidy_def)

lemma tidy_backend:
  assumes "\<And>b. tidy ok (b # st) (k0 b) (k b)" and "\<And>p. factory_open ep oo = Inr (LocalNew p) \<Longrightarrow> ok p"
  shows "tidy ok st (with_backend K failed ep oo k0) (with_backend (traced K) failed ep oo k)"
  unfolding tidy_def
proof (intro allI)
  fix x es
  show "\<exists>r x' fs. with_backend K failed ep oo k0 x = (r, x') \<and> with_backend (traced K) failed ep oo k (x, es) = (r, x', es @ fs) \<and> settle st fs = Some st \<and>
      (\<forall>p. Called (LocalNew p) \<in> set fs \<longrightarrow> ok p)"
  proof (cases "factory_open ep oo")
    case (Inl e)
    then show ?thesis by (simp add: with_backend_def cli_open_def)
  next
    case (Inr c)
    obtain ob x1 where o: "cb_open K c x = (ob, x1)" by force
    show ?thesis
    proof (cases ob)
      case (Inl e)
      with Inr o assms(2) show ?thesis by (auto simp: with_backend_def cli_open_def traced_def)
    next
      case b: (Inr b)
      obtain r x2 fs where k0: "k0 b x1 = (r, x2)" and k: "k b (x1, es @ [Called c, Opened b]) = (r, x2, (es @ [Called c, Opened b]) @ fs)"
        and fs: "settle (b # st) fs = Some (b # st)" "\<forall>p. Called (LocalNew p) \<in> set fs \<longrightarrow> ok p"
        using assms(1) [of b] unfolding tidy_def by blast
      have "with_backend (traced K) failed ep oo k (x, es) = (r, cb_close K b x2, es @ (Called c # Opened b # fs @ [Closed b]))"
        using Inr o b k by (simp add: with_backend_def cli_open_def traced_def)
      moreover have "with_backend K failed ep oo k0 x = (r, cb_close K b x2)"
        using Inr o b k0 by (simp add: with_backend_def cli_open_def)
      moreover have "settle st (Called c # Opened b # fs @ [Closed b]) = Some st"
        using fs(1) by (simp add: settle_append)
      ultimately show ?thesis
        using fs(2) assms(2) Inr
        by (intro exI [of _ r] exI [of _ "cb_close K b x2"] exI [of _ "Called c # Opened b # fs @ [Closed b]"]) auto
    qed
  qed
qed

lemma tidy_lift: "tidy ok st f (lift_call f)"
  by (auto simp: tidy_def lift_call_def split: prod.splits)

lemma tidy_seq:
  assumes "tidy ok st f0 f" and "\<And>r. tidy ok st (g0 r) (g r)"
  shows "tidy ok st (\<lambda>x. case f0 x of (r, x1) \<Rightarrow> g0 r x1) (\<lambda>x. case f x of (r, x1) \<Rightarrow> g r x1)"
  unfolding tidy_def
proof (intro allI)
  fix x es
  obtain r x1 fs where f: "f0 x = (r, x1)" "f (x, es) = (r, x1, es @ fs)" "settle st fs = Some st" "\<forall>p. Called (LocalNew p) \<in> set fs \<longrightarrow> ok p"
    using assms(1) unfolding tidy_def by blast
  obtain r' x2 gs where g: "g0 r x1 = (r', x2)" "g r (x1, es @ fs) = (r', x2, (es @ fs) @ gs)" "settle st gs = Some st" "\<forall>p. Called (LocalNew p) \<in> set gs \<longrightarrow> ok p"
    using assms(2) [of r] unfolding tidy_def by blast
  show "\<exists>r x' fs. (case f0 x of (r, x1) \<Rightarrow> g0 r x1) = (r, x') \<and> (case f (x, es) of (r, x1) \<Rightarrow> g r x1) = (r, x', es @ fs) \<and> settle st fs = Some st \<and>
      (\<forall>p. Called (LocalNew p) \<in> set fs \<longrightarrow> ok p)"
    using f g by (intro exI [of _ r'] exI [of _ x2] exI [of _ "fs @ gs"]) (auto simp: settle_append)
qed

lemma with_log_seq:
  "path \<noteq> '''' \<Longrightarrow> with_log P path k = (\<lambda>x. case rp_log P path x of (e, x1) \<Rightarrow>
     (case e of Some e \<Rightarrow> (\<lambda>x1. ((no_stats, Some (Wrap ''open log: %w'' e)), x1))
      | None \<Rightarrow> (\<lambda>x1. case k x1 of (r, x2) \<Rightarrow> (r, rp_log_close P x2))) x1)"
  by (auto simp: with_log_def fun_eq_iff split: prod.splits option.splits)

lemma tidy_log:
  assumes "tidy ok st k0 k"
  shows "tidy ok st (with_log P path k0) (with_log (traced_parts P) path k)"
proof (cases "path = ''''")
  case True
  then have "with_log P path k0 = k0" "with_log (traced_parts P) path k = k" by (simp_all add: with_log_def fun_eq_iff)
  with assms show ?thesis by simp
next
  case False
  have close: "tidy ok st (\<lambda>x. (r, rp_log_close P x)) (\<lambda>x. (r, rp_log_close (traced_parts P) x))" for r :: "stats \<times> goerr option"
    by (auto simp: tidy_def traced_parts_def)
  show ?thesis
    unfolding with_log_seq [OF False]
  proof (rule tidy_seq)
    show "tidy ok st (rp_log P path) (rp_log (traced_parts P) path)" by (simp add: traced_parts_def tidy_lift)
    show "tidy ok st (case e of Some e \<Rightarrow> (\<lambda>x1. ((no_stats, Some (Wrap ''open log: %w'' e)), x1))
       | None \<Rightarrow> (\<lambda>x1. case k0 x1 of (r, x2) \<Rightarrow> (r, rp_log_close P x2)))
      (case e of Some e \<Rightarrow> (\<lambda>x1. ((no_stats, Some (Wrap ''open log: %w'' e)), x1))
       | None \<Rightarrow> (\<lambda>x1. case k x1 of (r, x2) \<Rightarrow> (r, rp_log_close (traced_parts P) x2)))" for e
      using tidy_return tidy_seq [OF assms close] by (cases e) auto
  qed
qed

lemma tidy_state: "tidy ok st (open_state P r j) (open_state (traced_parts P) r j)"
  unfolding tidy_def
proof (intro allI)
  fix x es
  have "\<exists>e x'. open_state P r j x = (e, x') \<and> open_state (traced_parts P) r j (x, es) = (e, x', es)"
    by (auto simp: open_state_def traced_parts_def lift_call_def split: prod.splits option.splits)
  then show "\<exists>e x' fs. open_state P r j x = (e, x') \<and> open_state (traced_parts P) r j (x, es) = (e, x', es @ fs) \<and> settle st fs = Some st \<and>
      (\<forall>p. Called (LocalNew p) \<in> set fs \<longrightarrow> ok p)"
    by (metis append_Nil2 empty_iff list.set(1) settle.simps(1))
qed

lemma tidy_body: "tidy ok [d, s] (rp_body P cfg s d r tc h) (rp_body (traced_parts P) cfg s d r tc h)"
  by (auto simp: tidy_def traced_parts_def split: prod.splits)

definition dest_path :: "cli_env \<Rightarrow> string \<Rightarrow> string \<Rightarrow> bool" where
  "dest_path v dest p \<longleftrightarrow> (case ParseEndpoint (cv_url v) dest of Inl e \<Rightarrow> False | Inr ep \<Rightarrow> ep_scheme ep = ''file'' \<and> p = ep_path ep)"

lemma factory_makes: "factory_open ep oo = Inr (LocalNew p) \<Longrightarrow> oo_create oo \<and> ep_scheme ep = ''file'' \<and> p = ep_path ep"
  by (auto simp: factory_open_def split: if_splits)

text \<open>What follows the opening of the two sides.\<close>

definition run_inner ::
  "('b, 'x) run_parts \<Rightarrow> cli_config \<Rightarrow> endpoint \<Rightarrow> string res \<Rightarrow> 'b \<Rightarrow> 'b \<Rightarrow> 'x \<Rightarrow> (stats \<times> goerr option) \<times> 'x" where
  "run_inner P c dstEP sr src dst x2 =
     (case sr of Inl e \<Rightarrow> ((no_stats, Some e), x2)
      | Inr rdir \<Rightarrow> (case open_state P rdir (cf_job c) x2 of (Some e, x3) \<Rightarrow> ((no_stats, Some e), x3)
                    | (None, x3) \<Rightarrow> rp_body P c src dst rdir (tune_with_path c dstEP (rp_root P dst)) (host_key dstEP) x3))"

lemma run_inner_seq:
  "run_inner P c dstEP (Inr rdir) src dst = (\<lambda>x. case open_state P rdir (cf_job c) x of (e, x3) \<Rightarrow>
     (case e of Some e \<Rightarrow> (\<lambda>x3. ((no_stats, Some e), x3))
      | None \<Rightarrow> rp_body P c src dst rdir (tune_with_path c dstEP (rp_root P dst)) (host_key dstEP)) x3)"
  by (auto simp: run_inner_def fun_eq_iff split: prod.splits option.splits)

lemma run_inner_failed: "run_inner P c dstEP (Inl e) src dst = (\<lambda>x. ((no_stats, Some e), x))"
  by (simp add: run_inner_def fun_eq_iff)

lemma tidy_inner: "tidy ok [dst, src] (run_inner P c dstEP sr src dst) (run_inner (traced_parts P) c dstEP sr src dst)"
proof (cases sr)
  case (Inl e)
  show ?thesis unfolding Inl run_inner_failed by (rule tidy_return)
next
  case (Inr rdir)
  show ?thesis
    unfolding Inr run_inner_seq
  proof (rule tidy_seq [OF tidy_state])
    fix e
    have "rp_root (traced_parts P) dst = rp_root P dst" by (simp add: traced_parts_def)
    then show "tidy ok [dst, src] (case e of Some e \<Rightarrow> (\<lambda>x3. ((no_stats, Some e), x3))
        | None \<Rightarrow> rp_body P c src dst rdir (tune_with_path c dstEP (rp_root P dst)) (host_key dstEP))
      (case e of Some e \<Rightarrow> (\<lambda>x3. ((no_stats, Some e), x3))
        | None \<Rightarrow> rp_body (traced_parts P) c src dst rdir (tune_with_path c dstEP (rp_root (traced_parts P) dst)) (host_key dstEP))"
      by (cases e) (simp_all add: tidy_body tidy_return)
  qed
qed

lemma EngineRun_unparsed:
  "ParseEndpoint (cv_url v) (cl_source cfg) = Inl e \<Longrightarrow> EngineRun v P cfg = (\<lambda>x. ((no_stats, Some e), x))"
  "ParseEndpoint (cv_url v) (cl_source cfg) = Inr ep \<Longrightarrow> ParseEndpoint (cv_url v) (cl_dest cfg) = Inl e \<Longrightarrow>
   EngineRun v P cfg = (\<lambda>x. ((no_stats, Some e), x))"
  by (simp_all add: EngineRun_def cli_defaults_def Let_def fun_eq_iff)

lemma EngineRun_parsed:
  assumes "ParseEndpoint (cv_url v) (cl_source cfg) = Inr srcEP" and "ParseEndpoint (cv_url v) (cl_dest cfg) = Inr dstEP"
  shows "EngineRun v P cfg = (let c = cli_defaults cfg; oo = engine_options c in
    with_log P (cl_log c)
      (with_backend (rp_back P) (\<lambda>e. (no_stats, Some (Wrap ''source: %w'' e))) srcEP (oo\<lparr>oo_create := False\<rparr>)
        (\<lambda>src. with_backend (rp_back P) (\<lambda>e. (no_stats, Some (Wrap ''dest: %w'' e))) dstEP (oo\<lparr>oo_create := True\<rparr>)
          (\<lambda>dst. run_inner P c dstEP (state_root (config.truncate c) (ep_scheme dstEP) (rp_root P dst) (cl_dir c)
             (cv_env v ''QUIKSYNC_CONFIG'') (cv_userdir v)) src dst))))"
proof
  fix x
  have e: "cl_source (cli_defaults cfg) = cl_source cfg" "cl_dest (cli_defaults cfg) = cl_dest cfg"
    by (simp_all add: cli_defaults_def)
  show "EngineRun v P cfg x = (let c = cli_defaults cfg; oo = engine_options c in
    with_log P (cl_log c)
      (with_backend (rp_back P) (\<lambda>e. (no_stats, Some (Wrap ''source: %w'' e))) srcEP (oo\<lparr>oo_create := False\<rparr>)
        (\<lambda>src. with_backend (rp_back P) (\<lambda>e. (no_stats, Some (Wrap ''dest: %w'' e))) dstEP (oo\<lparr>oo_create := True\<rparr>)
          (\<lambda>dst. run_inner P c dstEP (state_root (config.truncate c) (ep_scheme dstEP) (rp_root P dst) (cl_dir c)
             (cv_env v ''QUIKSYNC_CONFIG'') (cv_userdir v)) src dst)))) x"
    unfolding EngineRun_def Let_def e assms sum.case run_inner_def by (rule refl)
qed

lemma run_tidy: "tidy (dest_path v (cl_dest cfg)) [] (EngineRun v P cfg) (EngineRun v (traced_parts P) cfg)"
proof (cases "ParseEndpoint (cv_url v) (cl_source cfg)")
  case (Inl e)
  show ?thesis unfolding EngineRun_unparsed(1) [OF Inl] by (rule tidy_return)
next
  case src: (Inr srcEP)
  show ?thesis
  proof (cases "ParseEndpoint (cv_url v) (cl_dest cfg)")
    case (Inl e)
    show ?thesis unfolding EngineRun_unparsed(2) [OF src Inl] by (rule tidy_return)
  next
    case dst: (Inr dstEP)
    have ok: "dest_path v (cl_dest cfg) p" if "factory_open dstEP oo = Inr (LocalNew p)" for oo p
      using factory_makes [OF that] dst by (simp add: dest_path_def)
    have no: "factory_open srcEP (oo\<lparr>oo_create := False\<rparr>) = Inr (LocalNew p) \<Longrightarrow> dest_path v (cl_dest cfg) p" for oo p
      using factory_makes by fastforce
    have parts: "rp_back (traced_parts P) = traced (rp_back P)" "rp_root (traced_parts P) = rp_root P"
      by (simp_all add: traced_parts_def)
    show ?thesis
      unfolding EngineRun_parsed [OF src dst] Let_def parts by (intro tidy_log tidy_backend tidy_inner ok no)
  qed
qed

text \<open>A comparison that records that it has run.\<close>

definition traced_verify :: "('b \<Rightarrow> 'b \<Rightarrow> string list \<Rightarrow> 'x \<Rightarrow> 'r \<times> 'x) \<Rightarrow> 'b \<Rightarrow> 'b \<Rightarrow> string list \<Rightarrow> 'x \<times> 'b handle_event list \<Rightarrow> 'r \<times> 'x \<times> 'b handle_event list" where
  "traced_verify vfy s d ex xs = (case xs of (x, es) \<Rightarrow> (case vfy s d ex x of (r, x1) \<Rightarrow> (r, x1, es @ [Running s d])))"

lemma tidy_verify: "tidy ok [d, s] (vfy s d ex) (traced_verify vfy s d ex)"
  by (auto simp: tidy_def traced_verify_def split: prod.splits)

lemma VerifyRun_unparsed:
  "ParseEndpoint (cv_url v) source = Inl e \<Longrightarrow> VerifyRun v K vfy source dest oo exclude = (\<lambda>x. (Inl e, x))"
  "ParseEndpoint (cv_url v) source = Inr ep \<Longrightarrow> ParseEndpoint (cv_url v) dest = Inl e \<Longrightarrow>
   VerifyRun v K vfy source dest oo exclude = (\<lambda>x. (Inl e, x))"
  by (simp_all add: VerifyRun_def fun_eq_iff)

lemma VerifyRun_parsed:
  assumes "ParseEndpoint (cv_url v) source = Inr srcEP" and "ParseEndpoint (cv_url v) dest = Inr dstEP"
  shows "VerifyRun v K vfy source dest oo exclude =
    with_backend K Inl srcEP (oo\<lparr>oo_create := False\<rparr>)
      (\<lambda>src. with_backend K Inl dstEP (oo\<lparr>oo_create := False\<rparr>) (\<lambda>dst. vfy src dst exclude))"
  using assms by (simp add: VerifyRun_def fun_eq_iff)

lemma verify_tidy:
  "tidy (\<lambda>p. False) [] (VerifyRun v K vfy source dest oo exclude) (VerifyRun v (traced K) (traced_verify vfy) source dest oo exclude)"
proof (cases "ParseEndpoint (cv_url v) source")
  case (Inl e)
  show ?thesis unfolding VerifyRun_unparsed(1) [OF Inl] by (rule tidy_return)
next
  case src: (Inr srcEP)
  show ?thesis
  proof (cases "ParseEndpoint (cv_url v) dest")
    case (Inl e)
    show ?thesis unfolding VerifyRun_unparsed(2) [OF src Inl] by (rule tidy_return)
  next
    case dst: (Inr dstEP)
    have no: "factory_open ep (oo\<lparr>oo_create := False\<rparr>) = Inr (LocalNew p) \<Longrightarrow> False" for ep oo p
      using factory_makes by fastforce
    show ?thesis
      unfolding VerifyRun_parsed [OF src dst] by (intro tidy_backend tidy_verify no)
  qed
qed

section \<open>Properties\<close>

text \<open>
  C27. Whatever the constructors, the log, the state directory and the job answer: \<open>Run\<close> and \<open>VerifyFiltered\<close> close every backend
  they have opened, each once, the last opened first, and work on the two that are open; the only local root that is made
  is the destination of a job, never a source, and verification makes none. Recording changes nothing else.
\<close>
theorem run_closes_handles:
  "case EngineRun v (traced_parts P) cfg (x, []) of (r, x', es) \<Rightarrow>
     EngineRun v P cfg x = (r, x') \<and> settle [] es = Some [] \<and> {p. Called (LocalNew p) \<in> set es} \<subseteq> {p. dest_path v (cl_dest cfg) p} \<and>
     (case VerifyRun v (traced (rp_back P)) (traced_verify vfy) source dest oo exclude (x, []) of (r2, x2, es2) \<Rightarrow>
        VerifyRun v (rp_back P) vfy source dest oo exclude x = (r2, x2) \<and> settle [] es2 = Some [] \<and> {p. Called (LocalNew p) \<in> set es2} = {})"
proof -
  obtain r x' fs where run: "EngineRun v P cfg x = (r, x')" "EngineRun v (traced_parts P) cfg (x, []) = (r, x', [] @ fs)"
    "settle [] fs = Some []" "\<forall>p. Called (LocalNew p) \<in> set fs \<longrightarrow> dest_path v (cl_dest cfg) p"
    using run_tidy [of v cfg P] unfolding tidy_def by blast
  obtain r2 x2 gs where vfy: "VerifyRun v (rp_back P) vfy source dest oo exclude x = (r2, x2)"
    "VerifyRun v (traced (rp_back P)) (traced_verify vfy) source dest oo exclude (x, []) = (r2, x2, [] @ gs)"
    "settle [] gs = Some []" "\<forall>p. Called (LocalNew p) \<notin> set gs"
    using verify_tidy [of v "rp_back P" vfy source dest oo exclude] unfolding tidy_def by blast
  from run vfy show ?thesis by auto
qed

text \<open>
  C26. A job with the tuner in its loop is a job of \<open>Engine\<close>, with the same result and the same two sides, in which every attempt
  cuts chunks of one size: the configured size if there is one, and otherwise what the tuner began with, whatever
  is probed and observed on the way. So what is proved of jobs holds of tuned ones.
\<close>
theorem tuned_job_is_job:
  assumes "tuned_job srt F cfg lib env ck E (tune_New F dec rd tc host now) st = Some (r, t', st')"
  shows "\<exists>n envs. run_job srt cfg lib envs E st = Some (r, st') \<and> (\<forall>smp i m. cdc_avg (je_att (envs smp) i m) = n) \<and>
    n = pf_cdc (tu_profile t') \<and> n = pf_cdc (tu_profile (tune_New F dec rd tc host now)) \<and> (tc_chunk tc = 0 \<or> n = tc_chunk tc)"
proof -
  let ?t = "tune_New F dec rd tc host now"
  let ?n = "tu_pin ?t"
  note new = New_pinned [of F dec rd tc host now]
  have n: "?n = pf_cdc (tu_profile ?t)" "tc_chunk tc = 0 \<or> ?n = tc_chunk tc"
    using new by (auto simp: pinned_def nonzero_word)
  obtain w s1 where w: "tr_walk (es_src E) (cf_exclude cfg) (en_src st) = (w, s1)" by force
  show ?thesis
  proof (cases w)
    case (Inl e)
    with assms w have "r = (no_stats, Some e)" "t' = ?t" "st' = st\<lparr>en_src := s1\<rparr>" by (auto simp: tuned_job_def)
    with Inl w n show ?thesis
      by (intro exI [of _ ?n] exI [of _ "\<lambda>smp. env\<lparr>je_att := \<lambda>i m. tuned_attempt ?t (je_att env i m)\<rparr>"])
         (simp add: run_job_def tuned_avg [OF new])
  next
    case (Inr files)
    obtain smp s2 where p: "probe_sample (es_src E) files s1 = (smp, s2)" by force
    from assms w Inr p obtain x st1 where
      files: "tuned_files F cfg lib env ck E files 0 no_stats (tune_Probe F (el_codec lib) smp (fl_lit F 10) ?t) (st\<lparr>en_src := s2\<rparr>) = Some (x, t', st1)"
      and fin: "finish_run srt cfg env E files x st1 = (r, st')"
      by (auto simp: tuned_job_def split: option.splits prod.splits)
    obtain att where att: "\<forall>i m. cdc_avg (att i m) = ?n" "pinned ?n t'"
      "run_files cfg lib (env\<lparr>je_att := att\<rparr>) E files 0 no_stats (st\<lparr>en_src := s2\<rparr>) = Some (x, st1)"
      using tuned_files_run [OF files Probe_pinned [OF new]] by blast
    have "finish_run srt cfg (env\<lparr>je_att := att\<rparr>) E files x st1 = finish_run srt cfg env E files x st1"
      unfolding finish_run_def by simp
    then have "finish_run srt cfg (env\<lparr>je_att := att\<rparr>) E files x st1 = (r, st')"
      using fin by simp
    with att w Inr p n show ?thesis
      by (intro exI [of _ ?n] exI [of _ "\<lambda>smp. env\<lparr>je_att := att\<rparr>"]) (simp add: run_job_def pinned_def)
  qed
qed

text \<open>The job of one file with the tuner on.\<close>

definition demo_clocks :: clocks where
  "demo_clocks = \<lparr>ck_elapsed = (\<lambda>k. 1000000000), ck_now = (\<lambda>k. 3000000000)\<rparr>"

lemma demo_tuned: "tuned_job (\<lambda>less xs. xs) rat_ops EngineJob.demo_cfg demo_el (demo_env []) demo_clocks demo_ep demo_tuner demo_engine \<noteq> None"
  by code_simp

theorem tuned_job_is_job_witness:
  "\<exists>r t' st' envs. tuned_job (\<lambda>less xs. xs) rat_ops EngineJob.demo_cfg demo_el (demo_env []) demo_clocks demo_ep demo_tuner demo_engine = Some (r, t', st') \<and>
     run_job (\<lambda>less xs. xs) EngineJob.demo_cfg demo_el envs demo_ep demo_engine = Some (r, st') \<and>
     (\<forall>smp i m. cdc_avg (je_att (envs smp) i m) = 65536)"
proof -
  obtain r t' st' where j: "tuned_job (\<lambda>less xs. xs) rat_ops EngineJob.demo_cfg demo_el (demo_env []) demo_clocks demo_ep demo_tuner demo_engine = Some (r, t', st')"
    using demo_tuned by auto
  have n: "pf_cdc (tu_profile demo_tuner) = 65536" by code_simp
  from tuned_job_is_job [OF j [unfolded demo_tuner_def]] n j show ?thesis
    unfolding demo_tuner_def by metis
qed

text \<open>
  Nothing checks the chunk size of a stored profile: one of 1 GiB is taken over, and with it the chunker does
  not return.
\<close>

lemma stored_chunk_size_unchecked:
  assumes "profile_path tc host \<noteq> []" and "LoadProfile dec rd (profile_path tc host) = Inr loaded" and "tc_chunk tc = 0"
    and "pf_cdc loaded = 2 ^ 30"
  shows "pf_cdc (tu_profile (tune_New F dec rd tc host now)) = 2 ^ 30"
  using assms by (simp add: tune_New_def merge_profile_def Let_def)

end
