(* ===== verification/Helper.thy ===== *)
theory Helper
  imports Transport RelaySignal ReuseRange
begin

text \<open>
  The remote helper (\<open>internal/transport/daemon/helper.go\<close>): the server of the wire protocol over one local
  root. A message is handled on the state of the session; its replies are written afterwards, which no
  handler can tell from writing them on the way. The JSON of the payloads, SHA-256, the opening of
  the root, the context and the outcome of a relay wait are arguments.
\<close>

section \<open>Payloads\<close>

record helper_json =
  hd_hello :: "bytes \<Rightarrow> hello res"
  hd_walk :: "bytes \<Rightarrow> string list res"
  hd_path :: "bytes \<Rightarrow> string res"
  hd_begin :: "bytes \<Rightarrow> (string \<times> int) res"
  hd_write :: "bytes \<Rightarrow> write_chunk_req res"
  hd_reuse :: "bytes \<Rightarrow> reuse_chunk_req res"
  hd_commit :: "bytes \<Rightarrow> commit_req res"
  hd_relay :: "bytes \<Rightarrow> relay_notify res"
  he_hello :: "hello_ok \<Rightarrow> bytes res"
  he_walk :: "file_meta_msg list \<Rightarrow> bytes res"
  he_meta :: "file_meta_msg \<Rightarrow> bytes res"
  he_sig :: "signature \<Rightarrow> bytes res"
  he_relay :: "relay_notify \<Rightarrow> bytes res"
  he_stats :: "bytes res"
  he_err :: "string \<Rightarrow> bytes res"
  he_ok :: "bytes res"

text \<open>A message to write: its type and its marshalled payload.\<close>

type_synonym reply = "msg_type \<times> bytes res"

definition meta_msg :: "file_meta \<Rightarrow> file_meta_msg" where
  "meta_msg f = \<lparr>fmm_rel = fm_rel f, fmm_size = fm_size f, fmm_nano = fm_mod f, fmm_mode = fm_mode f\<rparr>"

definition writeErr :: "helper_json \<Rightarrow> goerr \<Rightarrow> reply" where
  "writeErr J e = (MsgErr, he_err J (err_text e))"

definition write_ok :: "helper_json \<Rightarrow> reply" where
  "write_ok J = (MsgOK, he_ok J)"

text \<open>The replies in order; the first that cannot be marshalled or written ends the session.\<close>

fun send_replies :: "writer \<Rightarrow> reply list \<Rightarrow> writer \<times> goerr option" where
  "send_replies w [] = (w, None)"
| "send_replies w ((typ, body) # rs) =
     (case body of
        Inl e \<Rightarrow> (w, Some e)
      | Inr b \<Rightarrow> (case WriteMsg w typ b of (w', Some e) \<Rightarrow> (w', Some e) | (w', None) \<Rightarrow> send_replies w' rs))"

section \<open>Handling a message\<close>

record ('t, 'w) helper =
  hs_session :: "'w option"
  hs_store :: 't
  hs_reg :: relay_reg

text \<open>
  What handling one message meets: what the other sessions have done to the wake-up registry, the context in the loop that
  sends a file, the channel of a relay wait, and how a wait that blocks ends, with the registry it finds then.
\<close>

record helper_env =
  hv_others :: "relay_reg \<Rightarrow> relay_reg"
  hv_ctx :: "nat \<Rightarrow> goerr option"
  hv_chan :: nat
  hv_block :: "relay_reg \<Rightarrow> goerr option \<times> relay_reg"

text \<open>\<open>relayWaitJob\<close> run to its end.\<close>

definition relayWaitJob :: "helper_env \<Rightarrow> string \<Rightarrow> relay_reg \<Rightarrow> goerr option \<times> relay_reg" where
  "relayWaitJob env jobID r =
     (case relay_enter (hv_chan env) jobID r of
        (EErr e, r1) \<Rightarrow> (Some e, r1)
      | (EDone, r1) \<Rightarrow> (None, r1)
      | (EBlocked, r1) \<Rightarrow>
          (case hv_block env r1 of (e, r2) \<Rightarrow> (e, relay_leave (hv_chan env) (relayNormJob jobID) r2)))"

text \<open>The blocks of at most 64 KiB in which a file is sent, and the error that ends it early.\<close>

function read_blocks :: "(nat \<Rightarrow> goerr option) \<Rightarrow> nat \<Rightarrow> reader \<Rightarrow> bytes list \<times> goerr option" where
  "read_blocks ctx k r =
     (case ctx k of
        Some e \<Rightarrow> ([], Some e)
      | None \<Rightarrow>
          (case rd_read r 65536 of
             (b, Some e, r') \<Rightarrow> (if b = [] then [] else [b], if e = EOF then None else Some e)
           | (b, None, r') \<Rightarrow>
               (case read_blocks ctx (k + 1) r' of (bs, e) \<Rightarrow> (if b = [] then bs else b # bs, e))))"
  by pat_completeness auto

termination
proof (relation "measure (\<lambda>(ctx, k, r). rd_size r)", goal_cases)
  case (2 ctx k r b y e r')
  then show ?case using rd_read_size [of r 65536 b r'] by auto
qed simp

declare read_blocks.simps [simp del]

text \<open>A session call with its replies; an error aborts the session.\<close>

definition session_call ::
  "helper_json \<Rightarrow> ('t, 'w) backend \<Rightarrow> session_op \<Rightarrow> 'w \<Rightarrow> ('t, 'w) helper \<Rightarrow> reply list \<times> ('t, 'w) helper" where
  "session_call J B op s st =
     (case tr_step B op (s, hs_store st) of
        (wd, Some e) \<Rightarrow> ([writeErr J e], st\<lparr>hs_session := None, hs_store := aborted B wd\<rparr>)
      | ((s', t'), None) \<Rightarrow> ([write_ok J], st\<lparr>hs_session := (if commits op = None then Some s' else None), hs_store := t'\<rparr>))"

definition helper_read ::
  "helper_json \<Rightarrow> helper_env \<Rightarrow> ('t, 'w) backend \<Rightarrow> string \<Rightarrow> ('t, 'w) helper \<Rightarrow> reply list \<times> ('t, 'w) helper" where
  "helper_read J env B rel st =
     (case tr_open B rel (hs_store st) of
        (Inl e, t) \<Rightarrow> ([writeErr J e], st\<lparr>hs_store := t\<rparr>)
      | (Inr r, t) \<Rightarrow>
          (case read_blocks (hv_ctx env) 0 r of
             (bs, e) \<Rightarrow>
               (map (\<lambda>b. (MsgReadData, Inr b)) bs @ [case e of Some x \<Rightarrow> writeErr J x | None \<Rightarrow> write_ok J], st\<lparr>hs_store := t\<rparr>)))"

definition handle_begin ::
  "helper_json \<Rightarrow> ('t, 'w) backend \<Rightarrow> string \<Rightarrow> int \<Rightarrow> ('t, 'w) helper \<Rightarrow> reply list \<times> ('t, 'w) helper" where
  "handle_begin J B rel n st =
     (if hs_session st \<noteq> None then ([writeErr J (Msg ''write session already active'')], st)
      else case tr_begin B rel n (hs_store st) of
        (Inl e, t) \<Rightarrow> ([writeErr J e], st\<lparr>hs_store := t\<rparr>)
      | (Inr s, t) \<Rightarrow> ([write_ok J], st\<lparr>hs_session := Some s, hs_store := t\<rparr>))"

text \<open>The messages that need a session: the payload is decoded only when there is one.\<close>

definition with_session ::
  "helper_json \<Rightarrow> ('t, 'w) backend \<Rightarrow> session_op res \<Rightarrow> ('t, 'w) helper \<Rightarrow> reply list \<times> ('t, 'w) helper" where
  "with_session J B op st =
     (case hs_session st of
        None \<Rightarrow> ([writeErr J (Msg ''no write session'')], st)
      | Some s \<Rightarrow> (case op of Inl e \<Rightarrow> ([writeErr J e], st) | Inr a \<Rightarrow> session_call J B a s st))"

definition write_op :: "helper_json \<Rightarrow> bytes \<Rightarrow> session_op res" where
  "write_op J p = (case hd_write J p of Inl e \<Rightarrow> Inl e | Inr q \<Rightarrow> Inr (SWrite (wc_offset q) (wc_codec q) (wc_len q) (wc_data q)))"

definition reuse_op :: "helper_json \<Rightarrow> bytes \<Rightarrow> session_op res" where
  "reuse_op J p =
     (case hd_reuse J p of
        Inl e \<Rightarrow> Inl e
      | Inr q \<Rightarrow>
          (case ValidateReuseRange (rc_old q) (rc_length q) (-1) of
             Inl e \<Rightarrow> Inl e
           | Inr _ \<Rightarrow>
               (case ValidateWriteRange (rc_new q) (rc_length q) (-1) of
                  Inl e \<Rightarrow> Inl e
                | Inr _ \<Rightarrow> Inr (SReuse (rc_new q) (rc_old q) (rc_digest q) (rc_length q)))))"

definition commit_op :: "helper_json \<Rightarrow> bytes \<Rightarrow> session_op res" where
  "commit_op J p = (case hd_commit J p of Inl e \<Rightarrow> Inl e | Inr q \<Rightarrow> Inr (SCommit (cr_digest q) (cr_mode q) (Some (cr_nano q))))"

definition handle_notify :: "helper_json \<Rightarrow> bytes \<Rightarrow> ('t, 'w) helper \<Rightarrow> reply list \<times> ('t, 'w) helper" where
  "handle_notify J p st =
     (case hd_relay J p of
        Inl e \<Rightarrow> ([writeErr J e], st)
      | Inr m \<Rightarrow>
          if TrimSpace (rn_job m) = '''' then ([writeErr J (Msg ''empty relay job id'')], st)
          else (case validateRelayJobID (rn_job m) of
                  Some e \<Rightarrow> ([writeErr J e], st)
                | None \<Rightarrow> ([write_ok J], st\<lparr>hs_reg := snd (relayWake (rn_job m) (hs_reg st))\<rparr>)))"

definition handle_wait :: "helper_json \<Rightarrow> helper_env \<Rightarrow> bytes \<Rightarrow> ('t, 'w) helper \<Rightarrow> reply list \<times> ('t, 'w) helper" where
  "handle_wait J env p st =
     (case hd_relay J p of
        Inl e \<Rightarrow> ([writeErr J e], st)
      | Inr m \<Rightarrow>
          (case validateRelayJobID (rn_job m) of
             Some e \<Rightarrow> ([writeErr J e], st)
           | None \<Rightarrow> (case relayWaitJob env (rn_job m) (hs_reg st) of
                       (Some e, r) \<Rightarrow> ([writeErr J e], st\<lparr>hs_reg := r\<rparr>)
                     | (None, r) \<Rightarrow> ([(MsgRelayWaitOK, he_relay J m)], st\<lparr>hs_reg := r\<rparr>))))"

text \<open>The messages that name a path, with the call they make and the reply to its success.\<close>

definition handle_path ::
  "helper_json \<Rightarrow> (string \<Rightarrow> 't \<Rightarrow> reply res \<times> 't) \<Rightarrow> bytes \<Rightarrow> ('t, 'w) helper \<Rightarrow> reply list \<times> ('t, 'w) helper" where
  "handle_path J f p st =
     (case hd_path J p of
        Inl e \<Rightarrow> ([writeErr J e], st)
      | Inr rel \<Rightarrow>
          (case f rel (hs_store st) of
             (Inl e, t) \<Rightarrow> ([writeErr J e], st\<lparr>hs_store := t\<rparr>)
           | (Inr r, t) \<Rightarrow> ([r], st\<lparr>hs_store := t\<rparr>)))"

definition stat_reply :: "helper_json \<Rightarrow> ('t, 'w) backend \<Rightarrow> string \<Rightarrow> 't \<Rightarrow> reply res \<times> 't" where
  "stat_reply J B rel t = (case tr_stat B rel t of (r, t') \<Rightarrow> (map_sum id (\<lambda>f. (MsgStatOK, he_meta J (meta_msg f))) r, t'))"

definition sig_reply :: "helper_json \<Rightarrow> ('t, 'w) backend \<Rightarrow> string \<Rightarrow> 't \<Rightarrow> reply res \<times> 't" where
  "sig_reply J B rel t = (case tr_sig B rel t of (r, t') \<Rightarrow> (map_sum id (\<lambda>s. (MsgSigOK, he_sig J s)) r, t'))"

definition done_reply :: "helper_json \<Rightarrow> goerr option \<times> 't \<Rightarrow> reply res \<times> 't" where
  "done_reply J r = (case r of (Some e, t) \<Rightarrow> (Inl e, t) | (None, t) \<Rightarrow> (Inr (write_ok J), t))"

definition helper_handle ::
  "helper_json \<Rightarrow> helper_env \<Rightarrow> ('t, 'w) backend \<Rightarrow> msg_type \<Rightarrow> bytes \<Rightarrow> ('t, 'w) helper \<Rightarrow> reply list \<times> ('t, 'w) helper" where
  "helper_handle J env B typ p st =
     (if typ = MsgWalk then
        (case hd_walk J p of
           Inl e \<Rightarrow> ([writeErr J e], st)
         | Inr ex \<Rightarrow>
             (case tr_walk B ex (hs_store st) of
                (Inl e, t) \<Rightarrow> ([writeErr J e], st\<lparr>hs_store := t\<rparr>)
              | (Inr fs, t) \<Rightarrow> ([(MsgWalkOK, he_walk J (map meta_msg fs))], st\<lparr>hs_store := t\<rparr>)))
      else if typ = MsgStat then handle_path J (stat_reply J B) p st
      else if typ = MsgOpenRead then
        (case hd_path J p of Inl e \<Rightarrow> ([writeErr J e], st) | Inr rel \<Rightarrow> helper_read J env B rel st)
      else if typ = MsgBeginWrite then
        (case hd_begin J p of Inl e \<Rightarrow> ([writeErr J e], st) | Inr (rel, n) \<Rightarrow> handle_begin J B rel n st)
      else if typ = MsgWriteChunk then with_session J B (write_op J p) st
      else if typ = MsgReuseChunk then with_session J B (reuse_op J p) st
      else if typ = MsgRelayNotify then handle_notify J p st
      else if typ = MsgRelayWait then handle_wait J env p st
      else if typ = MsgCommit then with_session J B (commit_op J p) st
      else if typ = MsgAbort then
        ([write_ok J], case hs_session st of
                         None \<Rightarrow> st
                       | Some s \<Rightarrow> st\<lparr>hs_session := None, hs_store := aborted B (s, hs_store st)\<rparr>)
      else if typ = MsgGetSig then handle_path J (sig_reply J B) p st
      else if typ = MsgRemove then handle_path J (\<lambda>rel t. done_reply J (tr_remove B rel t)) p st
      else if typ = MsgMkdir then handle_path J (\<lambda>rel t. done_reply J (tr_mkdir B rel t)) p st
      else if typ = MsgPeerStats then ([(MsgPeerStats, he_stats J)], st)
      else if typ = MsgTuneOffer \<or> typ = MsgTuneApply then ([writeErr J (Msg ''peer tuning is not supported'')], st)
      else ([writeErr J (Msg ''unknown message %d'')], st))"

section \<open>The session\<close>

text \<open>
  One round of the loop, for what the context says before it and what handling its message meets: the result of the
  session when the round ends it.
\<close>

definition helper_round ::
  "helper_json \<Rightarrow> ('t, 'w) backend \<Rightarrow> goerr option \<times> helper_env \<Rightarrow> reader \<Rightarrow> writer \<Rightarrow> ('t, 'w) helper
     \<Rightarrow> goerr option option \<times> reader \<times> writer \<times> ('t, 'w) helper" where
  "helper_round J B ce r w st =
     (case fst ce of
        Some e \<Rightarrow> (Some (Some e), r, w, st)
      | None \<Rightarrow>
          (case ReadMsg r of
             (Inl e, r') \<Rightarrow> (Some (if e = EOF then None else Some e), r', w, st)
           | (Inr (typ, p), r') \<Rightarrow>
               if typ = MsgBye then (Some None, r', w, st)
               else (case helper_handle J (snd ce) B typ p (st\<lparr>hs_reg := hv_others (snd ce) (hs_reg st)\<rparr>) of
                       (rs, st') \<Rightarrow>
                         (case send_replies w rs of
                            (w', Some e) \<Rightarrow> (Some (Some e), r', w', st')
                          | (w', None) \<Rightarrow> (None, r', w', st')))))"

text \<open>\<open>None\<close>: the session is still being served.\<close>

fun helper_loop ::
  "helper_json \<Rightarrow> ('t, 'w) backend \<Rightarrow> (goerr option \<times> helper_env) list \<Rightarrow> reader \<Rightarrow> writer \<Rightarrow> ('t, 'w) helper
     \<Rightarrow> (goerr option \<times> writer \<times> ('t, 'w) helper) option" where
  "helper_loop J B [] r w st = None"
| "helper_loop J B (ce # rounds) r w st =
     (case helper_round J B ce r w st of
        (Some e, r', w', st') \<Rightarrow> Some (e, w', st')
      | (None, r', w', st') \<Rightarrow> helper_loop J B rounds r' w' st')"

definition end_session :: "('t, 'w) backend \<Rightarrow> ('t, 'w) helper \<Rightarrow> ('t, 'w) helper" where
  "end_session B st =
     (case hs_session st of None \<Rightarrow> st | Some s \<Rightarrow> st\<lparr>hs_session := None, hs_store := aborted B (s, hs_store st)\<rparr>)"

definition authTokenOK :: "(string \<Rightarrow> bytes) \<Rightarrow> string \<Rightarrow> string \<Rightarrow> bool" where
  "authTokenOK sha got want \<longleftrightarrow> sha got = sha want"

record helper_options =
  ho_root :: string
  ho_token :: string

definition helper_root :: "helper_options \<Rightarrow> hello \<Rightarrow> string \<Rightarrow> string" where
  "helper_root opts h env_root =
     (if ho_root opts \<noteq> '''' then ho_root opts
      else if hello_root h \<noteq> '''' then hello_root h
      else if env_root \<noteq> '''' then env_root else ''.'')"

text \<open>
  The first message of a session: the replies to it when it is refused, or the root that it opens. \<open>open_root\<close> is
  \<open>local.New\<close> with the operations of the backend it makes.
\<close>

definition helper_hello ::
  "(string \<Rightarrow> bytes) \<Rightarrow> helper_json \<Rightarrow> (string \<Rightarrow> (('t, 'w) backend \<times> 't) res) \<Rightarrow> string \<Rightarrow> helper_options
     \<Rightarrow> msg_type \<Rightarrow> bytes \<Rightarrow> reply list \<times> (string \<times> ('t, 'w) backend \<times> 't) res" where
  "helper_hello sha J open_root env_root opts typ p =
     (if typ \<noteq> MsgHello then ([], Inl (Msg ''expected hello''))
      else case hd_hello J p of
        Inl e \<Rightarrow> ([], Inl e)
      | Inr h \<Rightarrow>
          (case CheckPeerVersion (hello_version h) of
             Inl e \<Rightarrow> ([writeErr J e], Inl e)
           | Inr _ \<Rightarrow>
               if ho_token opts \<noteq> '''' \<and> \<not> authTokenOK sha (hello_token h) (ho_token opts)
               then ([writeErr J (Msg ''authentication failed'')], Inl (Msg ''authentication failed''))
               else (case open_root (helper_root opts h env_root) of
                       Inl e \<Rightarrow> ([writeErr J e], Inl e)
                     | Inr (B, t) \<Rightarrow>
                         ([(MsgHelloOK, he_hello J \<lparr>hok_version = ProtocolVersion, hok_root = tr_root B, hok_caps = DefaultCaps\<rparr>)],
                          Inr (helper_root opts h env_root, B, t)))))"

text \<open>The last component is the root that was opened, with the state of its session.\<close>

definition RunRemoteHelper ::
  "(string \<Rightarrow> bytes) \<Rightarrow> helper_json \<Rightarrow> (string \<Rightarrow> (('t, 'w) backend \<times> 't) res) \<Rightarrow> string \<Rightarrow> helper_options
     \<Rightarrow> (goerr option \<times> helper_env) list \<Rightarrow> reader \<Rightarrow> writer \<Rightarrow> relay_reg
     \<Rightarrow> (goerr option \<times> writer \<times> (string \<times> ('t, 'w) helper) option) option" where
  "RunRemoteHelper sha J open_root env_root opts rounds r w reg =
     (case ReadMsg r of
        (Inl e, r1) \<Rightarrow> Some (Some e, w, None)
      | (Inr (typ, p), r1) \<Rightarrow>
          (case helper_hello sha J open_root env_root opts typ p of
             (rs, Inl e) \<Rightarrow> Some (Some e, fst (send_replies w rs), None)
           | (rs, Inr (root_dir, B, t)) \<Rightarrow>
               let st = \<lparr>hs_session = None, hs_store = t, hs_reg = reg\<rparr> in
               (case send_replies w rs of
                  (w1, Some e) \<Rightarrow> Some (Some e, w1, Some (root_dir, st))
                | (w1, None) \<Rightarrow>
                    (case helper_loop J B rounds r1 w1 st of
                       None \<Rightarrow> None
                     | Some (e, w2, st2) \<Rightarrow> Some (e, w2, Some (root_dir, end_session B st2))))))"

section \<open>Lemmas\<close>

text \<open>The messages a session reads, in order, up to the end of the rounds or of the stream.\<close>

fun received :: "(goerr option \<times> helper_env) list \<Rightarrow> reader \<Rightarrow> (msg_type \<times> bytes) list" where
  "received [] r = []"
| "received (x # xs) r = (case ReadMsg r of (Inl e, r') \<Rightarrow> [] | (Inr m, r') \<Rightarrow> m # received xs r')"

text \<open>The paths a message asks to write or to remove.\<close>

definition asks_for :: "helper_json \<Rightarrow> msg_type \<times> bytes \<Rightarrow> string \<Rightarrow> bool" where
  "asks_for J m rel \<longleftrightarrow> (fst m = MsgBeginWrite \<and> (\<exists>n. hd_begin J (snd m) = Inr (rel, n))) \<or>
     (fst m = MsgRemove \<and> hd_path J (snd m) = Inr rel)"

lemma final_types [simp]: "MsgErr \<noteq> MsgReadData" "MsgOK \<noteq> MsgReadData" "MsgWalkOK \<noteq> MsgReadData" "MsgStatOK \<noteq> MsgReadData"
  "MsgSigOK \<noteq> MsgReadData" "MsgRelayWaitOK \<noteq> MsgReadData" "MsgPeerStats \<noteq> MsgReadData"
  by (simp_all add: msg_defs)

text \<open>One reply that is not file data.\<close>

definition one_final :: "reply list \<Rightarrow> bool" where
  "one_final rs \<longleftrightarrow> (\<exists>r. rs = [r] \<and> fst r \<noteq> MsgReadData)"

lemma one_final_simps [simp]:
  "one_final [writeErr J e]" "one_final [write_ok J]" "fst r \<noteq> MsgReadData \<Longrightarrow> one_final [r]"
  by (simp_all add: one_final_def writeErr_def write_ok_def)

lemma session_call_final: "one_final (fst (session_call J B op s st))"
  by (auto simp: session_call_def split: prod.splits option.splits)

lemma with_session_final: "one_final (fst (with_session J B op st))"
  by (auto simp: with_session_def session_call_final split: option.splits sum.splits)

lemma handle_path_final:
  "(\<And>rel t r t'. f rel t = (Inr r, t') \<Longrightarrow> fst r \<noteq> MsgReadData) \<Longrightarrow> one_final (fst (handle_path J f p st))"
  by (auto simp: handle_path_def split: sum.splits prod.splits)

lemma done_reply_final: "done_reply J x = (Inr r, t') \<Longrightarrow> fst r \<noteq> MsgReadData"
  by (auto simp: done_reply_def write_ok_def split: prod.splits option.splits)

text \<open>Every message but a read is answered by one reply.\<close>

lemma handle_final: "typ \<noteq> MsgOpenRead \<Longrightarrow> one_final (fst (helper_handle J env B typ p st))"
proof -
  have "stat_reply J B rel t = (Inr r, t') \<Longrightarrow> fst r \<noteq> MsgReadData" for rel t r t'
    by (cases "fst (tr_stat B rel t)") (auto simp: stat_reply_def split: prod.splits)
  then have "one_final (fst (handle_path J (stat_reply J B) p st))" by (rule handle_path_final)
  moreover have "sig_reply J B rel t = (Inr r, t') \<Longrightarrow> fst r \<noteq> MsgReadData" for rel t r t'
    by (cases "fst (tr_sig B rel t)") (auto simp: sig_reply_def split: prod.splits)
  then have "one_final (fst (handle_path J (sig_reply J B) p st))" by (rule handle_path_final)
  moreover have "one_final (fst (handle_path J (\<lambda>rel t. done_reply J (f rel t)) p st))" for f
    by (rule handle_path_final) (rule done_reply_final)
  moreover have "one_final (fst (case hd_begin J p of Inl e \<Rightarrow> ([writeErr J e], st) | Inr (rel, n) \<Rightarrow> handle_begin J B rel n st))"
    by (auto simp: handle_begin_def split: prod.split sum.split)
  moreover have "one_final (fst (handle_notify J p st))" "one_final (fst (handle_wait J env p st))"
    by (auto simp: handle_notify_def handle_wait_def split: sum.split option.split prod.split)
  moreover have "one_final (fst (case hd_walk J p of Inl e \<Rightarrow> ([writeErr J e], st)
      | Inr ex \<Rightarrow> (case tr_walk B ex (hs_store st) of
            (Inl e, t) \<Rightarrow> ([writeErr J e], st\<lparr>hs_store := t\<rparr>)
          | (Inr fs, t) \<Rightarrow> ([(MsgWalkOK, he_walk J (map meta_msg fs))], st\<lparr>hs_store := t\<rparr>))))"
    by (auto split: sum.split prod.split)
  ultimately show "typ \<noteq> MsgOpenRead \<Longrightarrow> one_final (fst (helper_handle J env B typ p st))"
    by (simp add: helper_handle_def with_session_final)
qed

lemma read_blocks_nonempty: "read_blocks ctx k r = (bs, e) \<Longrightarrow> [] \<notin> set bs"
proof (induction ctx k r arbitrary: bs e rule: read_blocks.induct)
  case (1 ctx k r)
  then show ?case
    by (subst (asm) (2) read_blocks.simps) (auto split: option.splits prod.splits if_splits)
qed

lemma handle_path_outcome:
  "handle_path J f p st = (rs, st') \<Longrightarrow> hs_session st' = hs_session st \<and>
     (hs_store st' = hs_store st \<or> (\<exists>rel r. hd_path J p = Inr rel \<and> f rel (hs_store st) = (r, hs_store st')))"
  by (auto simp: handle_path_def split: sum.splits prod.splits)

text \<open>The messages that go to the write session.\<close>

definition session_types :: "msg_type set" where "session_types = {MsgWriteChunk, MsgReuseChunk, MsgCommit}"

definition op_of :: "helper_json \<Rightarrow> msg_type \<Rightarrow> bytes \<Rightarrow> session_op res" where
  "op_of J typ p = (if typ = MsgWriteChunk then write_op J p else if typ = MsgReuseChunk then reuse_op J p else commit_op J p)"

lemma handle_session: "typ \<in> session_types \<Longrightarrow> helper_handle J env B typ p st = with_session J B (op_of J typ p) st"
  by (auto simp: session_types_def op_of_def helper_handle_def msg_defs)

text \<open>Whether the session of the helper, if any, is for a file in \<open>P\<close>.\<close>

definition session_in :: "('w \<times> 't \<Rightarrow> string \<Rightarrow> bool) \<Rightarrow> (string \<Rightarrow> bool) \<Rightarrow> ('t, 'w) helper \<Rightarrow> bool" where
  "session_in opn P st \<longleftrightarrow> (\<forall>s. hs_session st = Some s \<longrightarrow> (\<exists>j. opn (s, hs_store st) j \<and> P j))"

lemma session_in_None [simp]: "hs_session st = None \<Longrightarrow> session_in opn P st"
  by (simp add: session_in_def)

text \<open>Any other message keeps the session or ends it, or opens one where there was none.\<close>

lemma session_kept [simp]:
  "hs_session (snd (handle_path J f p st)) = hs_session st" "hs_session (snd (helper_read J env B rel st)) = hs_session st"
  "hs_session (snd (handle_notify J p st)) = hs_session st" "hs_session (snd (handle_wait J env p st)) = hs_session st"
  by (auto simp: handle_path_def helper_read_def handle_notify_def handle_wait_def split: sum.split prod.split option.split)

lemma session_after:
  assumes "helper_handle J env B typ p st = (rs, st')" and "typ \<notin> session_types"
  shows "hs_session st' = None \<or> hs_session st' = hs_session st \<or>
    (typ = MsgBeginWrite \<and> hs_session st = None \<and>
     (\<exists>rel n s. hd_begin J p = Inr (rel, n) \<and> tr_begin B rel n (hs_store st) = (Inr s, hs_store st') \<and> hs_session st' = Some s))"
proof (cases "typ = MsgBeginWrite")
  case True
  then show ?thesis using assms(1)
    by (auto simp: helper_handle_def handle_begin_def msg_defs split: sum.splits prod.splits if_splits)
next
  case False
  have "hs_session (snd (helper_handle J env B typ p st)) \<in> {None, hs_session st}"
  proof (cases "typ = MsgWalk \<or> typ = MsgAbort")
    case True
    then show ?thesis by (auto simp: helper_handle_def msg_defs split: sum.split prod.split option.split)
  next
    case False
    have r: "hs_session (snd (case hd_path J p of Inl e \<Rightarrow> ([writeErr J e], st) | Inr rel \<Rightarrow> helper_read J env B rel st)) = hs_session st"
      by (simp split: sum.split)
    show ?thesis
      using False \<open>typ \<noteq> MsgBeginWrite\<close> assms(2) by (simp add: helper_handle_def session_types_def r del: split_paired_All)
  qed
  with assms(1) show ?thesis by auto
qed

context detached_store
begin

lemma aborted_quiet: "cnt (aborted B st) = cnt (snd st)"
  using abort_quiet [of "fst st" "snd st"] by (cases "tr_step B SAbort st") (auto simp: aborted_def)

text \<open>A message that is not for the session changes no file, except the one it asks to remove.\<close>

lemma handle_quiet:
  assumes "helper_handle J env B typ p st = (rs, st')" and "typ \<notin> session_types"
    and "\<And>rel. typ = MsgRemove \<Longrightarrow> hd_path J p = Inr rel \<Longrightarrow> k \<noteq> nm rel"
  shows "cnt (hs_store st') k = cnt (hs_store st) k"
proof -
  have pth: "(\<And>rel t r t'. hd_path J p = Inr rel \<Longrightarrow> f rel t = (r, t') \<Longrightarrow> cnt t' k = cnt t k) \<Longrightarrow>
      cnt (hs_store (snd (handle_path J f p st))) k = cnt (hs_store st) k" for f
    using handle_path_outcome [of J f p st] by (metis prod.collapse)
  consider (path) f where "helper_handle J env B typ p st = handle_path J f p st"
      "\<And>rel t r t'. hd_path J p = Inr rel \<Longrightarrow> f rel t = (r, t') \<Longrightarrow> cnt t' k = cnt t k"
    | (wk) "typ = MsgWalk" | (read) "typ = MsgOpenRead" | (bw) "typ = MsgBeginWrite" | (ab) "typ = MsgAbort"
    | (other) "hs_store (snd (helper_handle J env B typ p st)) = hs_store st"
  proof -
    consider "typ = MsgWalk" | "typ = MsgStat" | "typ = MsgOpenRead" | "typ = MsgBeginWrite" | "typ = MsgAbort" | "typ = MsgGetSig"
      | "typ = MsgRemove" | "typ = MsgMkdir" | (no) "typ \<notin> {MsgWalk, MsgStat, MsgOpenRead, MsgBeginWrite, MsgAbort, MsgGetSig, MsgRemove, MsgMkdir}"
      by blast
    then show ?thesis
    proof cases
      case 2
      then have "helper_handle J env B typ p st = handle_path J (stat_reply J B) p st" by (simp add: helper_handle_def msg_defs)
      then show ?thesis by (rule that(1)) (auto simp: stat_reply_def split: prod.splits dest!: stat)
    next
      case 6
      then have "helper_handle J env B typ p st = handle_path J (sig_reply J B) p st" by (simp add: helper_handle_def msg_defs)
      then show ?thesis by (rule that(1)) (auto simp: sig_reply_def split: prod.splits dest!: sig)
    next
      case 7
      then have "helper_handle J env B typ p st = handle_path J (\<lambda>rel t. done_reply J (tr_remove B rel t)) p st"
        by (simp add: helper_handle_def msg_defs)
      moreover have "hd_path J p = Inr rel \<Longrightarrow> tr_remove B rel t = (e, t') \<Longrightarrow> cnt t' k = cnt t k" for rel t e t'
        using remove assms(3) [OF 7] by blast
      ultimately show ?thesis
        by (intro that(1)) (auto simp: done_reply_def split: prod.splits option.splits)
    next
      case 8
      then have "helper_handle J env B typ p st = handle_path J (\<lambda>rel t. done_reply J (tr_mkdir B rel t)) p st"
        by (simp add: helper_handle_def msg_defs)
      then show ?thesis
        by (rule that(1)) (auto simp: done_reply_def split: prod.splits option.splits dest!: mkdir)
    next
      case no
      then have "hs_store (snd (helper_handle J env B typ p st)) = hs_store st"
        using assms(2) by (auto simp: session_types_def helper_handle_def handle_notify_def handle_wait_def
            split: sum.splits option.splits prod.splits)
      then show ?thesis by (rule that(6))
    qed (use that in blast)+
  qed
  then have "cnt (hs_store (snd (helper_handle J env B typ p st))) k = cnt (hs_store st) k"
  proof cases
    case (path f)
    then show ?thesis using pth [of f] by simp
  next
    case wk
    then show ?thesis by (auto simp: helper_handle_def split: sum.splits prod.splits dest!: walk)
  next
    case read
    then show ?thesis
      by (auto simp: helper_handle_def helper_read_def msg_defs split: sum.splits prod.splits dest!: open_keeps)
  next
    case bw
    then show ?thesis
      by (auto simp: helper_handle_def handle_begin_def msg_defs split: sum.splits prod.splits dest!: begin_keeps)
  next
    case ab
    then show ?thesis by (auto simp: helper_handle_def msg_defs aborted_quiet split: option.splits)
  qed simp
  then show ?thesis using assms(1) by simp
qed

text \<open>What a call on the session of the helper does.\<close>

lemma call_effect:
  assumes "session_call J B op s st = (rs, st')" and "open_for (s, hs_store st) j" and "usr j"
  shows "(\<forall>s'. hs_session st' = Some s' \<longrightarrow> open_for (s', hs_store st') j) \<and> (\<forall>k. k \<noteq> j \<longrightarrow> cnt (hs_store st') k = cnt (hs_store st) k) \<and>
    (commits op = None \<longrightarrow> cnt (hs_store st') = cnt (hs_store st))"
proof -
  obtain s1 t1 e where c: "tr_step B op (s, hs_store st) = ((s1, t1), e)" by (metis prod.exhaust)
  note k = step [OF assms(2,3) c]
  show ?thesis
  proof (cases e)
    case None
    with assms(1) c k show ?thesis by (auto simp: session_call_def split: if_splits)
  next
    case (Some x)
    with assms(1) c have "hs_session st' = None" "hs_store st' = aborted B (s1, t1)" by (auto simp: session_call_def)
    with k aborted_quiet [of "(s1, t1)"] show ?thesis by simp
  qed
qed

lemma with_effect:
  assumes "with_session J B op st = (rs, st')" and "session_in open_for P st" and "\<And>j. P j \<Longrightarrow> usr j"
  shows "session_in open_for P st' \<and> (\<forall>k. \<not> P k \<longrightarrow> cnt (hs_store st') k = cnt (hs_store st) k) \<and>
    ((\<forall>a. op = Inr a \<longrightarrow> commits a = None) \<longrightarrow> cnt (hs_store st') = cnt (hs_store st))"
proof (cases "hs_session st = None \<or> (\<exists>e. op = Inl e)")
  case True
  with assms(1,2) show ?thesis by (auto simp: with_session_def split: option.splits)
next
  case False
  then obtain s a where sa: "hs_session st = Some s" "op = Inr a" by (cases op) auto
  with assms(2) obtain j where j: "open_for (s, hs_store st) j" "P j" unfolding session_in_def by blast
  have "session_call J B a s st = (rs, st')" using assms(1) sa by (simp add: with_session_def)
  from call_effect [OF this j(1) assms(3) [OF j(2)]] j sa show ?thesis unfolding session_in_def by auto
qed

text \<open>One message, with a session that is for a file in \<open>P\<close> before and after.\<close>

lemma handle_in:
  assumes "helper_handle J env B typ p st = (rs, st')" and "session_in open_for P st" and "\<And>j. P j \<Longrightarrow> usr j"
    and "\<And>rel n. typ = MsgBeginWrite \<Longrightarrow> hd_begin J p = Inr (rel, n) \<Longrightarrow> P (nm rel)"
  shows "session_in open_for P st'"
proof (cases "typ \<in> session_types")
  case True
  with assms(1) handle_session [of "typ" J env B p st] with_effect [OF _ assms(2,3)] show ?thesis by metis
next
  case False
  from session_after [OF assms(1) False] consider "hs_session st' = None" | "hs_session st' = hs_session st"
    | rel n s where "typ = MsgBeginWrite" "hd_begin J p = Inr (rel, n)" "tr_begin B rel n (hs_store st) = (Inr s, hs_store st')"
      "hs_session st' = Some s" by metis
  then show ?thesis
  proof cases
    case 2
    with assms(2) open_any show ?thesis unfolding session_in_def by metis
  next
    case 3
    with assms(4) begin_for [OF 3(3)] show ?thesis unfolding session_in_def by auto
  qed simp
qed

lemma handle_cnt:
  assumes "helper_handle J env B typ p st = (rs, st')" and "session_in open_for P st" and "\<And>j. P j \<Longrightarrow> usr j" and "\<not> P k"
    and "\<And>rel. typ = MsgRemove \<Longrightarrow> hd_path J p = Inr rel \<Longrightarrow> k \<noteq> nm rel"
  shows "cnt (hs_store st') k = cnt (hs_store st) k"
proof (cases "typ \<in> session_types")
  case True
  with assms(1) handle_session [of "typ" J env B p st] with_effect [OF _ assms(2,3)] assms(4) show ?thesis by metis
next
  case False
  from handle_quiet [OF assms(1) False assms(5)] show ?thesis .
qed

lemma end_quiet: "cnt (hs_store (end_session B st)) = cnt (hs_store st)"
  by (simp add: end_session_def aborted_quiet split: option.split)

text \<open>A whole session: a file that no message asks to write or to remove keeps its content.\<close>

lemma round_keeps:
  assumes "helper_round J B ce r w st = (o', r', w', st')" and "session_in open_for (\<lambda>j. usr j \<and> j \<noteq> k) st"
    and "\<And>m r1 rel. ReadMsg r = (Inr m, r1) \<Longrightarrow> asks_for J m rel \<Longrightarrow> usr (nm rel) \<and> nm rel \<noteq> k"
  shows "session_in open_for (\<lambda>j. usr j \<and> j \<noteq> k) st' \<and> cnt (hs_store st') k = cnt (hs_store st) k"
proof (cases "\<exists>mt p r1. fst ce = None \<and> ReadMsg r = (Inr (mt, p), r1) \<and> mt \<noteq> MsgBye")
  case False
  with assms(1,2) show ?thesis by (auto simp: helper_round_def split: option.splits prod.splits sum.splits if_splits)
next
  case True
  then obtain mt p r1 where m: "fst ce = None" "ReadMsg r = (Inr (mt, p), r1)" "mt \<noteq> MsgBye" by blast
  let ?st = "st\<lparr>hs_reg := hv_others (snd ce) (hs_reg st)\<rparr>"
  obtain rs st1 where h: "helper_handle J (snd ce) B mt p ?st = (rs, st1)" by force
  have e: "st' = st1" using assms(1) m h by (auto simp: helper_round_def split: prod.splits option.splits)
  have i: "session_in open_for (\<lambda>j. usr j \<and> j \<noteq> k) ?st" using assms(2) by (simp add: session_in_def)
  have a: "asks_for J (mt, p) rel \<Longrightarrow> usr (nm rel) \<and> nm rel \<noteq> k" for rel using assms(3) m(2) by blast
  show ?thesis
    using handle_in [OF h i] handle_cnt [OF h i, of k] a e by (auto simp: asks_for_def)
qed

lemma loop_keeps:
  "helper_loop J B rounds r w st = Some (e, w', st') \<Longrightarrow> session_in open_for (\<lambda>j. usr j \<and> j \<noteq> k) st \<Longrightarrow>
   \<forall>m \<in> set (received rounds r). \<forall>rel. asks_for J m rel \<longrightarrow> usr (nm rel) \<and> nm rel \<noteq> k \<Longrightarrow>
   cnt (hs_store st') k = cnt (hs_store st) k"
proof (induction rounds arbitrary: r w st)
  case (Cons ce rounds)
  obtain o1 r1 w1 st1 where rd: "helper_round J B ce r w st = (o1, r1, w1, st1)" by (metis prod.exhaust)
  have k1: "session_in open_for (\<lambda>j. usr j \<and> j \<noteq> k) st1 \<and> cnt (hs_store st1) k = cnt (hs_store st) k"
    using Cons.prems(3) by (intro round_keeps [OF rd Cons.prems(2)]) auto
  show ?case
  proof (cases o1)
    case (Some x)
    with Cons.prems(1) rd k1 show ?thesis by simp
  next
    case None
    then obtain m where "ReadMsg r = (Inr m, r1)"
      using rd by (auto simp: helper_round_def split: option.splits prod.splits sum.splits if_splits)
    then have "\<forall>m \<in> set (received rounds r1). \<forall>rel. asks_for J m rel \<longrightarrow> usr (nm rel) \<and> nm rel \<noteq> k"
      using Cons.prems(3) by simp
    with Cons.prems(1) Cons.IH [of r1 w1 st1] rd k1 None show ?thesis by simp
  qed
qed simp


end

text \<open>Who gets to a root: the hello of an opened session.\<close>

lemma session_opened:
  assumes "RunRemoteHelper sha J open_root env_root opts rounds r w reg = Some (e, w', Some (dir, st))"
  shows "\<exists>p h r1. ReadMsg r = (Inr (MsgHello, p), r1) \<and> hd_hello J p = Inr h \<and> CheckPeerVersion (hello_version h) = Inr () \<and>
    (ho_token opts = [] \<or> sha (hello_token h) = sha (ho_token opts)) \<and> (ho_root opts = [] \<or> dir = ho_root opts)"
proof -
  obtain m r1 where m: "ReadMsg r = (Inr m, r1)"
    using assms by (auto simp: RunRemoteHelper_def split: prod.splits sum.splits)
  obtain mt p where mt: "m = (mt, p)" by force
  obtain rs B t where h: "helper_hello sha J open_root env_root opts mt p = (rs, Inr (dir, B, t))"
    using assms m mt by (auto simp: RunRemoteHelper_def Let_def split: prod.splits sum.splits option.splits)
  then show ?thesis
    using m mt by (auto simp: helper_hello_def helper_root_def authTokenOK_def split: if_splits sum.splits prod.splits)
qed

end
