(* ===== verification/Remote.thy ===== *)
theory Remote
  imports Helper Endpoint
begin

text \<open>
  The client of the remote helper (the second half of \<open>internal/transport/daemon/quic.go\<close>, and
  \<open>internal/transport/ssh/ssh.go\<close>, which speaks the same protocol over a pipe): the backend that sends each call
  over a connection, with the helper's loop at the other end of it. The bytes of every request and of every
  reply pass through the framing of both sides; a connection may break anywhere, and a broken one stays broken.
\<close>

section \<open>The connection\<close>

record client_json =
  ce_hello :: "hello \<Rightarrow> bytes res"
  ce_walk :: "string list \<Rightarrow> bytes res"
  ce_path :: "string \<Rightarrow> bytes res"
  ce_begin :: "string \<Rightarrow> int \<Rightarrow> bytes res"
  ce_write :: "write_chunk_req \<Rightarrow> bytes res"
  ce_reuse :: "reuse_chunk_req \<Rightarrow> bytes res"
  ce_commit :: "commit_req \<Rightarrow> bytes res"
  ce_relay :: "relay_notify \<Rightarrow> bytes res"
  cd_hello :: "bytes \<Rightarrow> hello_ok res"
  cd_walk :: "bytes \<Rightarrow> file_meta_msg list res"
  cd_meta :: "bytes \<Rightarrow> file_meta_msg res"
  cd_sig :: "bytes \<Rightarrow> signature res"
  cd_relay :: "bytes \<Rightarrow> relay_notify res"
  cd_err :: "bytes \<Rightarrow> string res"

text \<open>
  What the connection does during one exchange: the client's writes, the helper's context and what its handler
  meets, the helper's writes, how many bytes of the reply arrive before reading fails, if it does, and the
  error that the connection gives once it has broken.
\<close>

record link_io =
  li_write :: "(nat \<times> goerr) option list"
  li_ctx :: "goerr option"
  li_env :: helper_env
  li_reply :: "(nat \<times> goerr) option list"
  li_read :: "(nat \<times> goerr) option"
  li_down :: goerr

definition calm_env :: helper_env where
  "calm_env = \<lparr>hv_others = (\<lambda>r. r), hv_ctx = (\<lambda>i. None), hv_chan = 0, hv_block = (\<lambda>r. (None, r))\<rparr>"

definition calm :: link_io where
  "calm = \<lparr>li_write = [], li_ctx = None, li_env = calm_env, li_reply = [], li_read = None, li_down = EOF\<rparr>"

text \<open>\<open>rm_down\<close> is the error of a connection that has broken, \<open>rm_locked\<close> the client's mutex.\<close>

record ('t, 'w) remote =
  rm_down :: "goerr option"
  rm_locked :: bool
  rm_peer :: "('t, 'w) helper"
  rm_link :: "link_io list"

text \<open>A call that waits for the mutex of its own session never returns; this value stands for that.\<close>

definition blocks :: goerr where "blocks = Msg ''(the call does not return)''"

text \<open>
  A request on its way to the helper and the stream of the replies to it. Both sides share one stream; as the client reads the replies
  to each request to their end (the readers of \<open>OpenRead\<close> drain them when they are closed) before it sends the next, and a connection
  that has failed gives nothing more, each request has a stream of its own here. When the request cannot be sent whole,
  or the helper's session ends, or its reply does not arrive, the connection is down and the helper has
  aborted its write session.
\<close>

definition served ::
  "helper_json \<Rightarrow> ('t, 'w) backend \<Rightarrow> link_io \<Rightarrow> writer \<Rightarrow> goerr option \<Rightarrow> ('t, 'w) remote \<Rightarrow> reader \<times> ('t, 'w) remote" where
  "served J B io w e R =
     (case helper_round J B (li_ctx io, li_env io) (file_reader (w_out w)) \<lparr>w_out = [], w_script = li_reply io\<rparr> (rm_peer R) of
        (ended, r', w2, st) \<Rightarrow>
          (case li_read io of None \<Rightarrow> file_reader (w_out w2) | Some (n, x) \<Rightarrow> [Rd (take n (w_out w2)) (Some x)],
           if e = None \<and> ended = None \<and> li_read io = None then R\<lparr>rm_peer := st\<rparr>
           else R\<lparr>rm_peer := end_session B st, rm_down := Some (li_down io)\<rparr>))"

text \<open>The request with the error of its writing, if any, and the stream its replies come on.\<close>

definition sent ::
  "helper_json \<Rightarrow> ('t, 'w) backend \<Rightarrow> msg_type \<Rightarrow> bytes \<Rightarrow> ('t, 'w) remote \<Rightarrow> (goerr option \<times> reader) \<times> ('t, 'w) remote" where
  "sent J B typ b R =
     (case rm_down R of
        Some e \<Rightarrow> ((Some e, [Rd [] (Some e)]), R)
      | None \<Rightarrow>
          (let io = (case rm_link R of [] \<Rightarrow> calm | x # xs \<Rightarrow> x); R0 = R\<lparr>rm_link := tl (rm_link R)\<rparr> in
           case WriteMsg \<lparr>w_out = [], w_script = li_write io\<rparr> typ b of
             (w, e) \<Rightarrow> (case served J B io w e R0 of (r, R1) \<Rightarrow> ((e, r), R1))))"

definition exchange ::
  "helper_json \<Rightarrow> ('t, 'w) backend \<Rightarrow> msg_type \<Rightarrow> bytes res \<Rightarrow> ('t, 'w) remote \<Rightarrow> reader res \<times> ('t, 'w) remote" where
  "exchange J B typ body R =
     (case body of
        Inl e \<Rightarrow> (Inl e, R)
      | Inr b \<Rightarrow>
          if length b > maxMessageBytes then (Inl (Msg ''message too large: %d''), R)
          else case sent J B typ b R of
            ((Some e, r), R1) \<Rightarrow> (Inl e, R1)
          | ((None, r), R1) \<Rightarrow> (Inr r, R1))"

section \<open>Replies\<close>

definition remoteErr :: "client_json \<Rightarrow> msg_type \<Rightarrow> bytes \<Rightarrow> goerr" where
  "remoteErr C typ p =
     (if typ = MsgErr then
        (case cd_err C p of
           Inr s \<Rightarrow> if s \<noteq> '''' then Msg s else Msg ''remote error (invalid or empty error response)''
         | Inl _ \<Rightarrow> Msg ''remote error (invalid or empty error response)'')
      else Msg ''unexpected message type %d'')"

definition expectOK :: "client_json \<Rightarrow> reader \<Rightarrow> goerr option" where
  "expectOK C r =
     (case fst (ReadMsg r) of
        Inl e \<Rightarrow> Some e
      | Inr (typ, p) \<Rightarrow> if typ = MsgOK then None else Some (remoteErr C typ p))"

text \<open>A call with one reply: the reply's type is checked and its payload decoded.\<close>

definition expect :: "client_json \<Rightarrow> msg_type \<Rightarrow> (bytes \<Rightarrow> 'a res) \<Rightarrow> reader \<Rightarrow> 'a res" where
  "expect C want dec r =
     (case fst (ReadMsg r) of
        Inl e \<Rightarrow> Inl e
      | Inr (typ, p) \<Rightarrow> if typ \<noteq> want then Inl (remoteErr C typ p) else dec p)"

definition locked_call :: "('t, 'w) remote \<Rightarrow> (reader res \<times> ('t, 'w) remote) \<Rightarrow> (reader \<Rightarrow> 'a res) \<Rightarrow> 'a res \<times> ('t, 'w) remote" where
  "locked_call R x f =
     (if rm_locked R then (Inl blocks, R)
      else case x of (Inl e, R1) \<Rightarrow> (Inl e, R1) | (Inr r, R1) \<Rightarrow> (f r, R1))"

definition msg_meta :: "file_meta_msg \<Rightarrow> file_meta" where
  "msg_meta f = \<lparr>fm_rel = fmm_rel f, fm_size = fmm_size f, fm_mod = fmm_nano f, fm_mode = fmm_mode f\<rparr>"

section \<open>The client\<close>

record client =
  cl_caps :: caps
  cl_root :: string
  cl_path :: string

definition Client_Root :: "client \<Rightarrow> string" where
  "Client_Root c = (if cl_root c \<noteq> '''' then cl_root c else cl_path c)"

definition Client_Walk ::
  "client_json \<Rightarrow> helper_json \<Rightarrow> ('t, 'w) backend \<Rightarrow> string list \<Rightarrow> ('t, 'w) remote \<Rightarrow> file_meta list res \<times> ('t, 'w) remote" where
  "Client_Walk C J B exclude R =
     locked_call R (exchange J B MsgWalk (ce_walk C exclude) R) (\<lambda>r. map_sum id (map msg_meta) (expect C MsgWalkOK (cd_walk C) r))"

definition Client_Stat ::
  "client_json \<Rightarrow> helper_json \<Rightarrow> ('t, 'w) backend \<Rightarrow> string \<Rightarrow> ('t, 'w) remote \<Rightarrow> file_meta res \<times> ('t, 'w) remote" where
  "Client_Stat C J B rel R =
     locked_call R (exchange J B MsgStat (ce_path C rel) R) (\<lambda>r. map_sum id msg_meta (expect C MsgStatOK (cd_meta C) r))"

definition ok_call :: "goerr option \<Rightarrow> unit res" where
  "ok_call e = (case e of None \<Rightarrow> Inr () | Some x \<Rightarrow> Inl x)"

definition call_error :: "'a res \<times> 's \<Rightarrow> goerr option \<times> 's" where
  "call_error x = (case x of (Inl e, R) \<Rightarrow> (Some e, R) | (Inr _, R) \<Rightarrow> (None, R))"

definition Client_Remove ::
  "client_json \<Rightarrow> helper_json \<Rightarrow> ('t, 'w) backend \<Rightarrow> string \<Rightarrow> ('t, 'w) remote \<Rightarrow> goerr option \<times> ('t, 'w) remote" where
  "Client_Remove C J B rel R =
     call_error (locked_call R (exchange J B MsgRemove (ce_path C rel) R) (\<lambda>r. ok_call (expectOK C r)))"

definition Client_MkdirAll ::
  "client_json \<Rightarrow> helper_json \<Rightarrow> ('t, 'w) backend \<Rightarrow> string \<Rightarrow> ('t, 'w) remote \<Rightarrow> goerr option \<times> ('t, 'w) remote" where
  "Client_MkdirAll C J B rel R =
     call_error (locked_call R (exchange J B MsgMkdir (ce_path C rel) R) (\<lambda>r. ok_call (expectOK C r)))"

definition Client_GetSignature ::
  "client_json \<Rightarrow> helper_json \<Rightarrow> ('t, 'w) backend \<Rightarrow> string \<Rightarrow> ('t, 'w) remote \<Rightarrow> signature res \<times> ('t, 'w) remote" where
  "Client_GetSignature C J B rel R =
     locked_call R (exchange J B MsgGetSig (ce_path C rel) R) (expect C MsgSigOK (cd_sig C))"

text \<open>\<open>lockContext\<close> gives up on the mutex when its context ends, for a context that ends with \<open>ctx\<close>, if it ever does.\<close>

definition lockContext :: "goerr option \<Rightarrow> ('t, 'w) remote \<Rightarrow> goerr option" where
  "lockContext ctx R = (if rm_locked R then Some (case ctx of Some e \<Rightarrow> e | None \<Rightarrow> blocks) else ctx)"

definition Client_RelayNotify ::
  "client_json \<Rightarrow> helper_json \<Rightarrow> ('t, 'w) backend \<Rightarrow> goerr option \<Rightarrow> relay_notify \<Rightarrow> ('t, 'w) remote \<Rightarrow> goerr option \<times> ('t, 'w) remote" where
  "Client_RelayNotify C J B ctx meta R =
     (case lockContext ctx R of
        Some e \<Rightarrow> (Some e, R)
      | None \<Rightarrow> call_error (locked_call R (exchange J B MsgRelayNotify (ce_relay C meta) R) (\<lambda>r. ok_call (expectOK C r))))"

definition Client_RelayWait ::
  "client_json \<Rightarrow> helper_json \<Rightarrow> ('t, 'w) backend \<Rightarrow> goerr option \<Rightarrow> relay_notify \<Rightarrow> ('t, 'w) remote \<Rightarrow> relay_notify res \<times> ('t, 'w) remote" where
  "Client_RelayWait C J B ctx meta R =
     (case lockContext ctx R of
        Some e \<Rightarrow> (Inl e, R)
      | None \<Rightarrow> locked_call R (exchange J B MsgRelayWait (ce_relay C meta) R) (expect C MsgRelayWaitOK (cd_relay C)))"

section \<open>Reading a file\<close>

lemma rd_read_size_le: "rd_read r k = (b, e, r') \<Longrightarrow> rd_size r' \<le> rd_size r"
  by (cases "(r, k)" rule: rd_read.cases) (auto split: if_splits option.splits)

lemma read_at_least_size_le: "read_at_least r k = (b, e, r') \<Longrightarrow> rd_size r' \<le> rd_size r"
proof (induction r k arbitrary: b e r' rule: read_at_least.induct)
  case (1 r k)
  obtain d f s where rd: "rd_read r k = (d, f, s)" by (metis prod.exhaust)
  note le = rd_read_size_le [OF rd]
  consider "k = 0" | "k \<noteq> 0" "f \<noteq> None" | "k \<noteq> 0" "f = None" by blast
  then show ?case
  proof cases
    case 3
    obtain d' e' s' where u: "read_at_least s (k - length d) = (d', e', s')" by (metis prod.exhaust)
    have "r' = s'" using "1.prems" rd 3 u by (simp add: read_at_least.simps [of r k])
    with "1.IH" [OF 3(1) rd [symmetric] refl 3(2) u] le show ?thesis by simp
  next
    case 1
    with "1.prems" show ?thesis by (simp add: read_at_least.simps [of r 0])
  next
    case 2
    with "1.prems" rd le show ?thesis by (auto simp: read_at_least.simps [of r k])
  qed
qed

lemma read_at_least_size: "read_at_least r k = (b, e, r') \<Longrightarrow> b \<noteq> [] \<Longrightarrow> rd_size r' < rd_size r"
proof -
  assume a: "read_at_least r k = (b, e, r')" "b \<noteq> []"
  obtain d f s where rd: "rd_read r k = (d, f, s)" by (metis prod.exhaust)
  have k: "0 < k" using a by (cases k) (simp_all add: read_at_least.simps)
  show "rd_size r' < rd_size r"
  proof (cases f)
    case None
    obtain d' e' s' where u: "read_at_least s (k - length d) = (d', e', s')" by (metis prod.exhaust)
    have "r' = s'" using a(1) k rd None u by (simp add: read_at_least.simps [of r k])
    with read_at_least_size_le [OF u] rd_read_size [OF rd [unfolded None] k] show ?thesis by simp
  next
    case (Some x)
    with a k rd have "rd_read r k = (b, Some x, r')" "b \<noteq> []" by (simp_all add: read_at_least.simps [of r k])
    then show ?thesis by (cases "(r, k)" rule: rd_read.cases) (auto split: if_splits)
  qed
qed

lemma read_full_size: "read_full r k = (b, None, r') \<Longrightarrow> 0 < k \<Longrightarrow> rd_size r' < rd_size r"
  using read_at_least_size [of r k b] read_at_least_spec [of r k]
  by (cases "read_at_least r k"; cases "b = []") (fastforce simp: read_full_def split: if_splits)+

lemma read_full_size_le: "read_full r k = (b, e, r') \<Longrightarrow> rd_size r' \<le> rd_size r"
  using read_at_least_size_le [of r k]
  by (cases "read_at_least r k") (auto simp: read_full_def split: if_splits)

lemma ReadMsg_size: "ReadMsg r = (Inr m, r') \<Longrightarrow> rd_size r' < rd_size r"
  by (auto simp: ReadMsg_def Let_def split: prod.splits option.splits if_splits dest!: read_full_size)

text \<open>
  What \<open>Read\<close> gives until the file ends, one event a frame; \<open>Close\<close> reads on to the same end. A connection
  that ends between two frames is the end of the file.
\<close>

function locked_reads :: "client_json \<Rightarrow> reader \<Rightarrow> reader" where
  "locked_reads C r =
     (case ReadMsg r of
        (Inl e, r') \<Rightarrow> [Rd [] (Some e)]
      | (Inr (typ, p), r') \<Rightarrow>
          if typ = MsgOK then []
          else if typ = MsgErr then [Rd [] (Some (Msg (case cd_err C p of Inr s \<Rightarrow> s | Inl _ \<Rightarrow> '''')))]
          else if typ \<noteq> MsgReadData then [Rd [] (Some (Msg ''unexpected %d''))]
          else Rd p None # locked_reads C r')"
  by pat_completeness auto

termination
  by (relation "measure (\<lambda>(C, r). rd_size r)") (auto dest: ReadMsg_size [OF sym])

declare locked_reads.simps [simp del]

definition Client_OpenRead ::
  "client_json \<Rightarrow> helper_json \<Rightarrow> ('t, 'w) backend \<Rightarrow> string \<Rightarrow> ('t, 'w) remote \<Rightarrow> reader res \<times> ('t, 'w) remote" where
  "Client_OpenRead C J B rel R =
     locked_call R (exchange J B MsgOpenRead (ce_path C rel) R) (\<lambda>r. Inr (locked_reads C r))"

section \<open>Write sessions\<close>

record client_write =
  cw_committed :: bool
  cw_holding :: bool

definition Client_BeginWrite ::
  "client_json \<Rightarrow> helper_json \<Rightarrow> ('t, 'w) backend \<Rightarrow> string \<Rightarrow> int \<Rightarrow> ('t, 'w) remote \<Rightarrow> client_write res \<times> ('t, 'w) remote" where
  "Client_BeginWrite C J B rel sz R =
     (if rm_locked R then (Inl blocks, R)
      else case exchange J B MsgBeginWrite (ce_begin C rel sz) R of
        (Inl e, R1) \<Rightarrow> (Inl e, R1)
      | (Inr r, R1) \<Rightarrow>
          (case expectOK C r of
             Some e \<Rightarrow> (Inl e, R1)
           | None \<Rightarrow> (Inr \<lparr>cw_committed = False, cw_holding = True\<rparr>, R1\<lparr>rm_locked := True\<rparr>)))"

definition release :: "client_write \<times> ('t, 'w) remote \<Rightarrow> client_write \<times> ('t, 'w) remote" where
  "release s = (if cw_holding (fst s) then ((fst s)\<lparr>cw_holding := False\<rparr>, (snd s)\<lparr>rm_locked := False\<rparr>) else s)"

text \<open>A request of a session and the \<open>MsgOK\<close> it waits for; the session holds the mutex.\<close>

definition session_send ::
  "client_json \<Rightarrow> helper_json \<Rightarrow> ('t, 'w) backend \<Rightarrow> msg_type \<Rightarrow> bytes res \<Rightarrow> ('t, 'w) remote \<Rightarrow> goerr option \<times> ('t, 'w) remote" where
  "session_send C J B typ body R =
     (case exchange J B typ body R of (Inl e, R1) \<Rightarrow> (Some e, R1) | (Inr r, R1) \<Rightarrow> (expectOK C r, R1))"

definition Client_WriteChunk ::
  "client_json \<Rightarrow> helper_json \<Rightarrow> ('t, 'w) backend \<Rightarrow> write_chunk_req \<Rightarrow> client_write \<times> ('t, 'w) remote
     \<Rightarrow> (client_write \<times> ('t, 'w) remote) \<times> goerr option" where
  "Client_WriteChunk C J B q s =
     (if cw_committed (fst s) then (s, Some (Msg ''write after commit''))
      else case session_send C J B MsgWriteChunk (ce_write C q) (snd s) of (e, R1) \<Rightarrow> ((fst s, R1), e))"

definition Client_ReuseChunk ::
  "client \<Rightarrow> client_json \<Rightarrow> helper_json \<Rightarrow> ('t, 'w) backend \<Rightarrow> reuse_chunk_req \<Rightarrow> client_write \<times> ('t, 'w) remote
     \<Rightarrow> (client_write \<times> ('t, 'w) remote) \<times> goerr option" where
  "Client_ReuseChunk c C J B q s =
     (if cw_committed (fst s) then (s, Some (Msg ''reuse after commit''))
      else if \<not> SupportsReuseChunk (cl_caps c)
      then (s, Some (Msg ''remote does not support reuse chunk; upgrade quiksync on the remote host''))
      else case session_send C J B MsgReuseChunk (ce_reuse C q) (snd s) of (e, R1) \<Rightarrow> ((fst s, R1), e))"

definition Client_Commit ::
  "client_json \<Rightarrow> helper_json \<Rightarrow> ('t, 'w) backend \<Rightarrow> commit_req \<Rightarrow> client_write \<times> ('t, 'w) remote
     \<Rightarrow> (client_write \<times> ('t, 'w) remote) \<times> goerr option" where
  "Client_Commit C J B q s =
     (if cw_committed (fst s) then (s, None)
      else case session_send C J B MsgCommit (ce_commit C q) (snd s) of
        (Some e, R1) \<Rightarrow> ((fst s, R1), Some e)
      | (None, R1) \<Rightarrow> (release ((fst s)\<lparr>cw_committed := True\<rparr>, R1), None))"

text \<open>An error of sending the request to abort is dropped; what is returned is what the reply says.\<close>

definition Client_Abort ::
  "client_json \<Rightarrow> helper_json \<Rightarrow> ('t, 'w) backend \<Rightarrow> client_write \<times> ('t, 'w) remote
     \<Rightarrow> (client_write \<times> ('t, 'w) remote) \<times> goerr option" where
  "Client_Abort C J B s =
     (if cw_committed (fst s) then (s, None)
      else case sent J B MsgAbort [] (snd s) of
        ((_, r), R1) \<Rightarrow> (release ((fst s)\<lparr>cw_committed := True\<rparr>, R1), expectOK C r))"

definition Client_step ::
  "client \<Rightarrow> client_json \<Rightarrow> helper_json \<Rightarrow> ('t, 'w) backend \<Rightarrow> session_op \<Rightarrow> client_write \<times> ('t, 'w) remote
     \<Rightarrow> (client_write \<times> ('t, 'w) remote) \<times> goerr option" where
  "Client_step c C J B a s =
     (case a of
        SWrite off cd n b \<Rightarrow> Client_WriteChunk C J B \<lparr>wc_offset = off, wc_codec = cd, wc_len = n, wc_data = b\<rparr> s
      | SReuse new old d n \<Rightarrow> Client_ReuseChunk c C J B \<lparr>rc_new = new, rc_old = old, rc_digest = d, rc_length = n\<rparr> s
      | SCommit d m mt \<Rightarrow>
          Client_Commit C J B \<lparr>cr_digest = d, cr_mode = m, cr_nano = (case mt of Some x \<Rightarrow> x | None \<Rightarrow> zero_time)\<rparr> s
      | SAbort \<Rightarrow> Client_Abort C J B s)"

definition client_backend ::
  "client \<Rightarrow> client_json \<Rightarrow> helper_json \<Rightarrow> ('t, 'w) backend \<Rightarrow> (('t, 'w) remote, client_write) backend" where
  "client_backend c C J B =
     \<lparr>tr_caps = cl_caps c, tr_root = Client_Root c, tr_walk = Client_Walk C J B, tr_stat = Client_Stat C J B,
      tr_open = Client_OpenRead C J B, tr_remove = Client_Remove C J B, tr_mkdir = Client_MkdirAll C J B,
      tr_begin = Client_BeginWrite C J B, tr_step = Client_step c C J B, tr_sig = Client_GetSignature C J B\<rparr>"

text \<open>\<open>Close\<close> says goodbye if no session or reader holds the mutex, and closes the connection, which ends the helper's session.\<close>

definition Client_Close :: "client_json \<Rightarrow> helper_json \<Rightarrow> ('t, 'w) backend \<Rightarrow> ('t, 'w) remote \<Rightarrow> ('t, 'w) remote" where
  "Client_Close C J B R =
     (let R1 = (if rm_locked R then R else snd (exchange J B MsgBye (Inr []) R))
      in R1\<lparr>rm_peer := end_session B (rm_peer R1), rm_down := Some EOF\<rparr>)"

section \<open>Connecting\<close>

definition mapHelloCaps :: "hello_ok \<Rightarrow> caps" where
  "mapHelloCaps h =
     (if hok_version h = '''' \<or> hok_version h = ''1''
      then \<lparr>SupportsDelta = True, SupportsMultiplex = False, SupportsResume = True, SupportsReuseChunk = False\<rparr>
      else \<lparr>SupportsDelta = SupportsDelta (hok_caps h), SupportsMultiplex = SupportsMultiplex (hok_caps h),
            SupportsResume = SupportsResume (hok_caps h), SupportsReuseChunk = SupportsReuseChunk (hok_caps h)\<rparr>)"

text \<open>What the client makes of the reply to its hello.\<close>

definition dial_reply :: "client_json \<Rightarrow> string \<Rightarrow> reader \<Rightarrow> client res" where
  "dial_reply C path r =
     (case fst (ReadMsg r) of
        Inl e \<Rightarrow> Inl e
      | Inr (typ, p) \<Rightarrow>
          if typ = MsgErr then Inl (remoteErr C typ p)
          else if typ \<noteq> MsgHelloOK then Inl (Msg ''quic hello failed: type=%d'')
          else case cd_hello C p of
            Inl e \<Rightarrow> Inl e
          | Inr h \<Rightarrow>
              (case CheckPeerVersion (hok_version h) of
                 Inl e \<Rightarrow> Inl e
               | Inr _ \<Rightarrow> Inr \<lparr>cl_caps = (mapHelloCaps h)\<lparr>SupportsMultiplex := False\<rparr>,
                               cl_root = (if hok_root h = '''' then path else hok_root h), cl_path = path\<rparr>))"

text \<open>
  \<open>DialOpts\<close> once the stream is open, with a server at the other end that runs \<open>RunRemoteHelper\<close> with the options
  \<open>sopts\<close>: the client and the connection with the session that the server has begun.
\<close>

definition helper_accept ::
  "(string \<Rightarrow> bytes) \<Rightarrow> helper_json \<Rightarrow> (string \<Rightarrow> (('t, 'w) backend \<times> 't) res) \<Rightarrow> string \<Rightarrow> helper_options \<Rightarrow> link_io
     \<Rightarrow> writer \<Rightarrow> reader \<times> (('t, 'w) backend \<times> 't) option" where
  "helper_accept sha J open_root env_root sopts io w =
     (case fst (ReadMsg (file_reader (w_out w))) of
        Inl e \<Rightarrow> ([], None)
      | Inr (typ, p) \<Rightarrow>
          (case helper_hello sha J open_root env_root sopts typ p of
             (rs, res) \<Rightarrow>
               (case send_replies \<lparr>w_out = [], w_script = li_reply io\<rparr> rs of
                  (w1, e) \<Rightarrow>
                    (file_reader (w_out w1),
                     case (res, e) of (Inr (dir, B, t), None) \<Rightarrow> Some (B, t) | _ \<Rightarrow> None))))"

definition connect ::
  "client_json \<Rightarrow> (reader \<Rightarrow> client res) \<Rightarrow> hello \<Rightarrow> (string \<Rightarrow> bytes) \<Rightarrow> helper_json \<Rightarrow> (string \<Rightarrow> (('t, 'w) backend \<times> 't) res) \<Rightarrow> string
     \<Rightarrow> helper_options \<Rightarrow> link_io \<Rightarrow> relay_reg \<Rightarrow> (client \<times> (('t, 'w) backend \<times> ('t, 'w) remote) option) res" where
  "connect C reply h sha J open_root env_root sopts io reg =
     (case WriteJSON (ce_hello C) \<lparr>w_out = [], w_script = li_write io\<rparr> MsgHello h of
        (w, Some e) \<Rightarrow> Inl e
      | (w, None) \<Rightarrow>
          (case helper_accept sha J open_root env_root sopts io w of
             (r, sess) \<Rightarrow>
               (case reply r of
                  Inl e \<Rightarrow> Inl e
                | Inr c \<Rightarrow>
                    Inr (c, map_option (\<lambda>(B, t). (B, \<lparr>rm_down = None, rm_locked = False,
                               rm_peer = \<lparr>hs_session = None, hs_store = t, hs_reg = reg\<rparr>, rm_link = []\<rparr>)) sess))))"

definition DialOpts ::
  "client_json \<Rightarrow> string \<Rightarrow> string \<Rightarrow> (string \<Rightarrow> bytes) \<Rightarrow> helper_json \<Rightarrow> (string \<Rightarrow> (('t, 'w) backend \<times> 't) res) \<Rightarrow> string
     \<Rightarrow> helper_options \<Rightarrow> link_io \<Rightarrow> relay_reg \<Rightarrow> (client \<times> (('t, 'w) backend \<times> ('t, 'w) remote) option) res" where
  "DialOpts C path token sha J open_root env_root sopts io reg =
     connect C (dial_reply C path) \<lparr>hello_version = ProtocolVersion, hello_root = '''', hello_token = token\<rparr>
       sha J open_root env_root sopts io reg"

section \<open>Over ssh\<close>

text \<open>
  The transport of \<open>ssh.go\<close> has the same methods, line for line, over the pipe of a child process; it differs in the reader, in
  the hello and in how it is connected.
\<close>

definition ssh_Walk ::
  "client_json \<Rightarrow> helper_json \<Rightarrow> ('t, 'w) backend \<Rightarrow> string list \<Rightarrow> ('t, 'w) remote \<Rightarrow> file_meta list res \<times> ('t, 'w) remote" where
  "ssh_Walk C J B exclude R = Client_Walk C J B exclude R"

definition ssh_Stat ::
  "client_json \<Rightarrow> helper_json \<Rightarrow> ('t, 'w) backend \<Rightarrow> string \<Rightarrow> ('t, 'w) remote \<Rightarrow> file_meta res \<times> ('t, 'w) remote" where
  "ssh_Stat C J B rel R = Client_Stat C J B rel R"

definition ssh_Remove ::
  "client_json \<Rightarrow> helper_json \<Rightarrow> ('t, 'w) backend \<Rightarrow> string \<Rightarrow> ('t, 'w) remote \<Rightarrow> goerr option \<times> ('t, 'w) remote" where
  "ssh_Remove C J B rel R = Client_Remove C J B rel R"

definition ssh_MkdirAll ::
  "client_json \<Rightarrow> helper_json \<Rightarrow> ('t, 'w) backend \<Rightarrow> string \<Rightarrow> ('t, 'w) remote \<Rightarrow> goerr option \<times> ('t, 'w) remote" where
  "ssh_MkdirAll C J B rel R = Client_MkdirAll C J B rel R"

definition ssh_GetSignature ::
  "client_json \<Rightarrow> helper_json \<Rightarrow> ('t, 'w) backend \<Rightarrow> string \<Rightarrow> ('t, 'w) remote \<Rightarrow> signature res \<times> ('t, 'w) remote" where
  "ssh_GetSignature C J B rel R = Client_GetSignature C J B rel R"

definition ssh_BeginWrite ::
  "client_json \<Rightarrow> helper_json \<Rightarrow> ('t, 'w) backend \<Rightarrow> string \<Rightarrow> int \<Rightarrow> ('t, 'w) remote \<Rightarrow> client_write res \<times> ('t, 'w) remote" where
  "ssh_BeginWrite C J B rel sz R = Client_BeginWrite C J B rel sz R"

definition ssh_remoteErr :: "client_json \<Rightarrow> msg_type \<Rightarrow> bytes \<Rightarrow> goerr" where
  "ssh_remoteErr C typ p =
     (if typ \<noteq> MsgErr then Msg ''unexpected message type %d''
      else case cd_err C p of
        Inl _ \<Rightarrow> Msg ''remote error (invalid or empty error response)''
      | Inr s \<Rightarrow> if s = '''' then Msg ''remote error (invalid or empty error response)'' else Msg s)"

definition ssh_expectOK :: "client_json \<Rightarrow> reader \<Rightarrow> goerr option" where
  "ssh_expectOK C r =
     (case ReadMsg r of
        (Inl e, _) \<Rightarrow> Some e
      | (Inr (typ, p), _) \<Rightarrow> if typ = MsgOK then None else Some (ssh_remoteErr C typ p))"

definition ssh_lockContext :: "goerr option \<Rightarrow> ('t, 'w) remote \<Rightarrow> goerr option" where
  "ssh_lockContext ctx R =
     (if rm_locked R then (case ctx of None \<Rightarrow> Some blocks | Some e \<Rightarrow> Some e) else ctx)"

definition ssh_release :: "client_write \<times> ('t, 'w) remote \<Rightarrow> client_write \<times> ('t, 'w) remote" where
  "ssh_release s = (case s of (w, R) \<Rightarrow> if cw_holding w then (w\<lparr>cw_holding := False\<rparr>, R\<lparr>rm_locked := False\<rparr>) else (w, R))"

definition ssh_WriteChunk ::
  "client_json \<Rightarrow> helper_json \<Rightarrow> ('t, 'w) backend \<Rightarrow> write_chunk_req \<Rightarrow> client_write \<times> ('t, 'w) remote
     \<Rightarrow> (client_write \<times> ('t, 'w) remote) \<times> goerr option" where
  "ssh_WriteChunk C J B q s =
     (if cw_committed (fst s) then (s, Some (Msg ''write after commit''))
      else case exchange J B MsgWriteChunk (ce_write C q) (snd s) of
        (Inl e, R1) \<Rightarrow> ((fst s, R1), Some e)
      | (Inr r, R1) \<Rightarrow> ((fst s, R1), ssh_expectOK C r))"

definition ssh_ReuseChunk ::
  "client \<Rightarrow> client_json \<Rightarrow> helper_json \<Rightarrow> ('t, 'w) backend \<Rightarrow> reuse_chunk_req \<Rightarrow> client_write \<times> ('t, 'w) remote
     \<Rightarrow> (client_write \<times> ('t, 'w) remote) \<times> goerr option" where
  "ssh_ReuseChunk c C J B q s =
     (if cw_committed (fst s) then (s, Some (Msg ''reuse after commit''))
      else if \<not> SupportsReuseChunk (cl_caps c)
      then (s, Some (Msg ''remote does not support reuse chunk; upgrade quiksync on the remote host''))
      else case exchange J B MsgReuseChunk (ce_reuse C q) (snd s) of
        (Inl e, R1) \<Rightarrow> ((fst s, R1), Some e)
      | (Inr r, R1) \<Rightarrow> ((fst s, R1), ssh_expectOK C r))"

definition ssh_Commit ::
  "client_json \<Rightarrow> helper_json \<Rightarrow> ('t, 'w) backend \<Rightarrow> commit_req \<Rightarrow> client_write \<times> ('t, 'w) remote
     \<Rightarrow> (client_write \<times> ('t, 'w) remote) \<times> goerr option" where
  "ssh_Commit C J B q s =
     (if cw_committed (fst s) then (s, None)
      else case exchange J B MsgCommit (ce_commit C q) (snd s) of
        (Inl e, R1) \<Rightarrow> ((fst s, R1), Some e)
      | (Inr r, R1) \<Rightarrow>
          (case ssh_expectOK C r of
             Some e \<Rightarrow> ((fst s, R1), Some e)
           | None \<Rightarrow> (ssh_release ((fst s)\<lparr>cw_committed := True\<rparr>, R1), None)))"

definition ssh_Abort ::
  "client_json \<Rightarrow> helper_json \<Rightarrow> ('t, 'w) backend \<Rightarrow> client_write \<times> ('t, 'w) remote
     \<Rightarrow> (client_write \<times> ('t, 'w) remote) \<times> goerr option" where
  "ssh_Abort C J B s =
     (if cw_committed (fst s) then (s, None)
      else case sent J B MsgAbort [] (snd s) of
        ((_, r), R1) \<Rightarrow> (ssh_release ((fst s)\<lparr>cw_committed := True\<rparr>, R1), ssh_expectOK C r))"

definition ssh_step ::
  "client \<Rightarrow> client_json \<Rightarrow> helper_json \<Rightarrow> ('t, 'w) backend \<Rightarrow> session_op \<Rightarrow> client_write \<times> ('t, 'w) remote
     \<Rightarrow> (client_write \<times> ('t, 'w) remote) \<times> goerr option" where
  "ssh_step c C J B a s =
     (case a of
        SWrite off cd n b \<Rightarrow> ssh_WriteChunk C J B \<lparr>wc_offset = off, wc_codec = cd, wc_len = n, wc_data = b\<rparr> s
      | SReuse new old d n \<Rightarrow> ssh_ReuseChunk c C J B \<lparr>rc_new = new, rc_old = old, rc_digest = d, rc_length = n\<rparr> s
      | SCommit d m mt \<Rightarrow>
          ssh_Commit C J B \<lparr>cr_digest = d, cr_mode = m, cr_nano = (case mt of Some x \<Rightarrow> x | None \<Rightarrow> zero_time)\<rparr> s
      | SAbort \<Rightarrow> ssh_Abort C J B s)"

definition ssh_RelayNotify ::
  "client_json \<Rightarrow> helper_json \<Rightarrow> ('t, 'w) backend \<Rightarrow> goerr option \<Rightarrow> relay_notify \<Rightarrow> ('t, 'w) remote \<Rightarrow> goerr option \<times> ('t, 'w) remote" where
  "ssh_RelayNotify C J B ctx meta R =
     (case ssh_lockContext ctx R of
        Some e \<Rightarrow> (Some e, R)
      | None \<Rightarrow>
          (case exchange J B MsgRelayNotify (ce_relay C meta) R of
             (Inl e, R1) \<Rightarrow> (Some e, R1)
           | (Inr r, R1) \<Rightarrow> (ssh_expectOK C r, R1)))"

definition ssh_RelayWait ::
  "client_json \<Rightarrow> helper_json \<Rightarrow> ('t, 'w) backend \<Rightarrow> goerr option \<Rightarrow> relay_notify \<Rightarrow> ('t, 'w) remote \<Rightarrow> relay_notify res \<times> ('t, 'w) remote" where
  "ssh_RelayWait C J B ctx meta R =
     (case ssh_lockContext ctx R of
        Some e \<Rightarrow> (Inl e, R)
      | None \<Rightarrow>
          (case exchange J B MsgRelayWait (ce_relay C meta) R of
             (Inl e, R1) \<Rightarrow> (Inl e, R1)
           | (Inr r, R1) \<Rightarrow>
               (case ReadMsg r of
                  (Inl e, _) \<Rightarrow> (Inl e, R1)
                | (Inr (typ, p), _) \<Rightarrow>
                    if typ \<noteq> MsgRelayWaitOK then (Inl (ssh_remoteErr C typ p), R1) else (cd_relay C p, R1))))"

definition ssh_mapCaps :: "hello_ok \<Rightarrow> caps" where
  "ssh_mapCaps h =
     (if hok_version h \<in> {'''', ''1''}
      then \<lparr>SupportsDelta = True, SupportsMultiplex = False, SupportsResume = True, SupportsReuseChunk = False\<rparr>
      else \<lparr>SupportsDelta = SupportsDelta (hok_caps h), SupportsMultiplex = SupportsMultiplex (hok_caps h),
            SupportsResume = SupportsResume (hok_caps h), SupportsReuseChunk = SupportsReuseChunk (hok_caps h)\<rparr>)"

function remote_reads :: "client_json \<Rightarrow> reader \<Rightarrow> reader" where
  "remote_reads C r =
     (case ReadMsg r of
        (Inl e, r') \<Rightarrow> [Rd [] (Some e)]
      | (Inr (typ, p), r') \<Rightarrow>
          if typ = MsgOK then []
          else if typ \<noteq> MsgReadData then [Rd [] (Some (remoteErr C typ p))]
          else Rd p None # remote_reads C r')"
  by pat_completeness auto

termination
  by (relation "measure (\<lambda>(C, r). rd_size r)") (auto dest: ReadMsg_size [OF sym])

declare remote_reads.simps [simp del]

definition ssh_OpenRead ::
  "client_json \<Rightarrow> helper_json \<Rightarrow> ('t, 'w) backend \<Rightarrow> string \<Rightarrow> ('t, 'w) remote \<Rightarrow> reader res \<times> ('t, 'w) remote" where
  "ssh_OpenRead C J B rel R =
     locked_call R (exchange J B MsgOpenRead (ce_path C rel) R) (\<lambda>r. Inr (remote_reads C r))"

definition ssh_backend ::
  "client \<Rightarrow> client_json \<Rightarrow> helper_json \<Rightarrow> ('t, 'w) backend \<Rightarrow> (('t, 'w) remote, client_write) backend" where
  "ssh_backend c C J B =
     \<lparr>tr_caps = cl_caps c, tr_root = Client_Root c, tr_walk = ssh_Walk C J B, tr_stat = ssh_Stat C J B,
      tr_open = ssh_OpenRead C J B, tr_remove = ssh_Remove C J B, tr_mkdir = ssh_MkdirAll C J B,
      tr_begin = ssh_BeginWrite C J B, tr_step = ssh_step c C J B, tr_sig = ssh_GetSignature C J B\<rparr>"

text \<open>The sessions of both clients are the same functions.\<close>

lemma ssh_expectOK_same: "ssh_expectOK = expectOK"
  by (intro ext) (simp add: ssh_expectOK_def expectOK_def ssh_remoteErr_def remoteErr_def split: prod.splits sum.splits)

lemma ssh_release_same: "ssh_release = release"
  by (intro ext) (simp add: ssh_release_def release_def split: prod.splits)

lemma ssh_lockContext_same: "ssh_lockContext = lockContext"
  by (intro ext) (simp add: ssh_lockContext_def lockContext_def split: option.splits)

lemma ssh_remoteErr_same: "ssh_remoteErr = remoteErr"
  by (intro ext) (simp add: ssh_remoteErr_def remoteErr_def split: sum.splits)

lemma ssh_mapCaps_same: "ssh_mapCaps = mapHelloCaps"
  by (intro ext) (simp add: ssh_mapCaps_def mapHelloCaps_def)

lemma lockContext_free: "lockContext ctx R = None \<Longrightarrow> \<not> rm_locked R"
  by (auto simp: lockContext_def split: if_splits)

lemma ssh_relay_same: "ssh_RelayNotify = Client_RelayNotify" "ssh_RelayWait = Client_RelayWait"
  by (intro ext, simp add: ssh_RelayNotify_def ssh_RelayWait_def Client_RelayNotify_def Client_RelayWait_def ssh_lockContext_same
        ssh_expectOK_same ssh_remoteErr_same locked_call_def call_error_def ok_call_def expect_def lockContext_free
        split: option.splits prod.splits sum.splits)+

lemma ssh_session_same:
  "ssh_WriteChunk = Client_WriteChunk" "ssh_ReuseChunk = Client_ReuseChunk" "ssh_Commit = Client_Commit" "ssh_Abort = Client_Abort"
  by (intro ext, simp add: ssh_WriteChunk_def ssh_ReuseChunk_def ssh_Commit_def ssh_Abort_def Client_WriteChunk_def
        Client_ReuseChunk_def Client_Commit_def Client_Abort_def session_send_def ssh_expectOK_same ssh_release_same
        split: prod.splits sum.splits option.splits)+

lemma ssh_same:
  "ssh_Walk = Client_Walk" "ssh_Stat = Client_Stat" "ssh_Remove = Client_Remove" "ssh_MkdirAll = Client_MkdirAll"
  "ssh_BeginWrite = Client_BeginWrite" "ssh_step = Client_step" "ssh_GetSignature = Client_GetSignature"
  by (intro ext, simp add: ssh_Walk_def ssh_Stat_def ssh_Remove_def ssh_MkdirAll_def ssh_BeginWrite_def ssh_step_def Client_step_def
        ssh_session_same ssh_GetSignature_def split: session_op.split)+

definition execArgs :: "endpoint \<Rightarrow> string list" where
  "execArgs ep =
     (let target = (if ep_user ep \<noteq> '''' then ep_user ep @ ''@'' @ ep_host ep else ep_host ep);
          args = [''-T'', ''-o'', ''BatchMode=yes''] @ (if ep_port ep \<noteq> '''' then [''-p'', ep_port ep] else [])
      in args @ [''--'', target, ''quiksync'', ''remote-helper''])"

definition ssh_reply :: "client_json \<Rightarrow> string \<Rightarrow> reader \<Rightarrow> client res" where
  "ssh_reply C path r =
     (case fst (ReadMsg r) of
        Inl e \<Rightarrow> Inl e
      | Inr (typ, p) \<Rightarrow>
          if typ = MsgErr then Inl (Msg (''remote: '' @ (case cd_err C p of Inr s \<Rightarrow> s | Inl _ \<Rightarrow> '''')))
          else if typ \<noteq> MsgHelloOK then Inl (Msg ''unexpected hello response %d'')
          else case cd_hello C p of
            Inl e \<Rightarrow> Inl e
          | Inr h \<Rightarrow>
              (case CheckPeerVersion (hok_version h) of
                 Inl e \<Rightarrow> Inl e
               | Inr _ \<Rightarrow> Inr \<lparr>cl_caps = (ssh_mapCaps h)\<lparr>SupportsMultiplex := False\<rparr>,
                               cl_root = (if hok_root h = '''' then path else hok_root h), cl_path = path\<rparr>))"

definition ssh_New ::
  "client_json \<Rightarrow> string \<Rightarrow> (string \<Rightarrow> bytes) \<Rightarrow> helper_json \<Rightarrow> (string \<Rightarrow> (('t, 'w) backend \<times> 't) res) \<Rightarrow> string
     \<Rightarrow> helper_options \<Rightarrow> link_io \<Rightarrow> relay_reg \<Rightarrow> (client \<times> (('t, 'w) backend \<times> ('t, 'w) remote) option) res" where
  "ssh_New C path sha J open_root env_root sopts io reg =
     connect C (ssh_reply C path) \<lparr>hello_version = ProtocolVersion, hello_root = path, hello_token = ''''\<rparr>
       sha J open_root env_root sopts io reg"

section \<open>What a reader of frames has read\<close>

lemma read_full_content:
  assumes "read_full r k = (b, None, r')"
  shows "length b = k \<and> rd_content r = b @ rd_content r'"
proof -
  obtain b1 e r1 where q: "read_at_least r k = (b1, e, r1)" by (metis prod.exhaust)
  with assms have b: "b = b1" "r' = r1" "k \<le> length b1 \<or> e = None" by (auto simp: read_full_def split: if_splits)
  show ?thesis
  proof (cases e)
    case None
    with read_at_least_spec [OF q] b show ?thesis by simp
  next
    case (Some x)
    with read_at_least_spec [OF q] read_at_least_err [of r k b1 x r1] q b show ?thesis by auto
  qed
qed

lemma ReadMsg_content:
  assumes "ReadMsg r = (Inr (t, p), r')"
  shows "\<exists>h. length h = 5 \<and> hd h = t \<and> unat (get_be (tl h) :: u32) = length p \<and> rd_content r = h @ p @ rd_content r'"
proof -
  obtain h e r1 where h: "read_full r 5 = (h, e, r1)" by (metis prod.exhaust)
  with assms have e: "e = None" by (auto simp: ReadMsg_def split: option.splits)
  note c = read_full_content [OF h [unfolded e]]
  let ?n = "unat (get_be (tl h) :: u32)"
  show ?thesis
  proof (cases "?n > 0")
    case True
    with assms h e obtain buf where "read_full r1 ?n = (buf, None, r')" "p = buf" "t = hd h"
      by (auto simp: ReadMsg_def Let_def split: prod.splits option.splits if_splits)
    with read_full_content [of r1 ?n buf r'] c show ?thesis by (intro exI [of _ h]) simp
  next
    case False
    with assms h e c show ?thesis
      by (intro exI [of _ h]) (auto simp: ReadMsg_def Let_def split: if_splits)
  qed
qed

lemma ReadMsg_frame:
  assumes "ReadMsg r = (Inr m, r')" and "rd_content r @ lost = frame m1 @ rest" and "length (snd m1) \<le> maxMessageBytes"
  shows "m = m1 \<and> rd_content r' @ lost = rest"
proof -
  obtain t p t1 p1 where m: "m = (t, p)" "m1 = (t1, p1)" by force
  obtain h where h: "length h = 5" "hd h = t" "unat (get_be (tl h) :: u32) = length p" "rd_content r = h @ p @ rd_content r'"
    using ReadMsg_content assms(1) m by blast
  have eq: "h @ p @ rd_content r' @ lost = frame_header t1 p1 @ p1 @ rest"
    using assms(2) h(4) m by (simp add: frame_pair)
  then have hh: "h = frame_header t1 p1" "p @ rd_content r' @ lost = p1 @ rest"
    using h(1) length_frame_header [of t1 p1] append_eq_append_conv by metis+
  have "length p = length p1" using h(3) hh(1) frame_header_get unat_len [of p1] assms(3) m by simp
  with hh h(2) frame_header_get m show ?thesis by auto
qed

lemma ReadMsg_empty: "rd_content r = [] \<Longrightarrow> ReadMsg r \<noteq> (Inr m, r')"
  using ReadMsg_content [of r "fst m" "snd m" r'] by auto

lemma WriteMsg_prefix:
  assumes "WriteMsg w t b = (w', e)" and "length b \<le> maxMessageBytes"
  shows "\<exists>lost. w_out w' @ lost = w_out w @ frame (t, b) \<and> (e = None \<longrightarrow> lost = [])"
proof -
  obtain w1 e1 where 1: "w_write w (frame_header t b) = (w1, e1)" by force
  from w_write_out [OF 1] obtain n where n: "w_out w1 = w_out w @ take n (frame_header t b)"
    "e1 = None \<Longrightarrow> w_out w1 = w_out w @ frame_header t b" by blast
  have f: "take n (frame_header t b) @ drop n (frame_header t b) @ b = frame (t, b)" by (simp add: frame_pair flip: append_assoc)
  show ?thesis
  proof (cases "e1 = None \<and> b \<noteq> []")
    case False
    then have "w' = w1" "e = e1" using assms 1 by (auto simp: WriteMsg_def split: option.splits)
    with False n f show ?thesis by (cases e1) (auto simp: frame_pair intro: exI [of _ "drop n (frame_header t b) @ b"])
  next
    case True
    then have "w_write w1 b = (w', e)" using assms 1 by (auto simp: WriteMsg_def)
    from w_write_out [OF this] obtain k where k: "w_out w' = w_out w1 @ take k b" "e = None \<longrightarrow> w_out w' = w_out w1 @ b" by blast
    show ?thesis
    proof (cases e)
      case None
      with k n(2) True show ?thesis by (simp add: frame_pair)
    next
      case (Some y)
      with k(1) n(2) True show ?thesis by (intro exI [of _ "drop k b"]) (simp add: frame_pair)
    qed
  qed
qed

text \<open>The stream \<open>r\<close> holds the replies \<open>rs\<close>, perhaps not to their end.\<close>

definition replies_of :: "reply list \<Rightarrow> reader \<Rightarrow> bool" where
  "replies_of rs r \<longleftrightarrow> (\<exists>ms rs2 lost. rs = map (\<lambda>m. (fst m, Inr (snd m))) ms @ rs2 \<and>
     rd_content r @ lost = concat (map frame ms) \<and> (\<forall>m \<in> set ms. length (snd m) \<le> maxMessageBytes))"

lemma replies_of_empty [simp]: "rd_content r = [] \<Longrightarrow> replies_of rs r"
  unfolding replies_of_def by (intro exI [of _ "[]"] exI [of _ rs]) simp

lemma send_prefix:
  "send_replies w rs = (w', e) \<Longrightarrow>
   \<exists>ms rs2 lost. rs = map (\<lambda>m. (fst m, Inr (snd m))) ms @ rs2 \<and> w_out w' @ lost = w_out w @ concat (map frame ms) \<and>
     (\<forall>m \<in> set ms. length (snd m) \<le> maxMessageBytes) \<and> (e = None \<longrightarrow> rs2 = [] \<and> lost = [])"
proof (induction rs arbitrary: w)
  case (Cons x rs)
  obtain t body where x: "x = (t, body)" by force
  show ?case
  proof (cases "\<exists>b. body = Inr b \<and> length b \<le> maxMessageBytes")
    case False
    with Cons.prems x have "w' = w \<and> e \<noteq> None"
      by (auto simp: WriteMsg_def split: sum.splits)
    then show ?thesis by (intro exI [of _ "[]"] exI [of _ "x # rs"]) simp
  next
    case True
    then obtain b where b: "body = Inr b" "length b \<le> maxMessageBytes" by blast
    obtain w1 e1 where w1: "WriteMsg w t b = (w1, e1)" by force
    obtain lost where l: "w_out w1 @ lost = w_out w @ frame (t, b)" "e1 = None \<Longrightarrow> lost = []"
      using WriteMsg_prefix [OF w1 b(2)] by blast
    show ?thesis
    proof (cases e1)
      case (Some y)
      with Cons.prems x b w1 have "w' = w1" "e \<noteq> None" by auto
      with l x b show ?thesis by (intro exI [of _ "[(t, b)]"] exI [of _ rs] exI [of _ lost]) auto
    next
      case None
      with Cons.prems x b w1 have "send_replies w1 rs = (w', e)" by simp
      from Cons.IH [OF this] obtain ms rs2 lost' where i: "rs = map (\<lambda>m. (fst m, Inr (snd m))) ms @ rs2"
        "w_out w' @ lost' = w_out w1 @ concat (map frame ms)" "\<forall>m \<in> set ms. length (snd m) \<le> maxMessageBytes"
        "e = None \<longrightarrow> rs2 = [] \<and> lost' = []" by blast
      have "w_out w1 = w_out w @ frame (t, b)" using l None by simp
      with i x b show ?thesis by (intro exI [of _ "(t, b) # ms"] exI [of _ rs2] exI [of _ lost']) auto
    qed
  qed
qed auto

lemma next_reply:
  assumes "replies_of rs r" and "ReadMsg r = (Inr m, r')"
  shows "\<exists>rs'. rs = (fst m, Inr (snd m)) # rs' \<and> replies_of rs' r'"
proof -
  obtain ms rs2 lost where ms: "rs = map (\<lambda>m. (fst m, Inr (snd m))) ms @ rs2" "rd_content r @ lost = concat (map frame ms)"
    "\<forall>m \<in> set ms. length (snd m) \<le> maxMessageBytes" using assms(1) unfolding replies_of_def by blast
  show ?thesis
  proof (cases ms)
    case Nil
    with ms(2) assms(2) ReadMsg_empty show ?thesis by fastforce
  next
    case (Cons m1 ms1)
    with ReadMsg_frame [OF assms(2), of lost m1 "concat (map frame ms1)"] ms
    have "m = m1" "rd_content r' @ lost = concat (map frame ms1)" by auto
    with ms Cons show ?thesis unfolding replies_of_def by auto
  qed
qed

lemma expectOK_reply: "expectOK C r = None \<Longrightarrow> replies_of rs r \<Longrightarrow> \<exists>b rs'. rs = (MsgOK, Inr b) # rs'"
  using next_reply [of rs r] by (cases "ReadMsg r") (fastforce simp: expectOK_def split: sum.splits if_splits)

section \<open>What an exchange does\<close>

lemma round_cases:
  assumes "helper_round J B ce (file_reader out) \<lparr>w_out = [], w_script = sc\<rparr> st = (ended, r', w2, st')"
    and "out @ lost = frame (t, b)" and "length b \<le> maxMessageBytes"
  shows "(st' = st \<and> w_out w2 = [] \<and> ended \<noteq> None) \<or>
    (\<exists>rs. helper_handle J (snd ce) B t b (st\<lparr>hs_reg := hv_others (snd ce) (hs_reg st)\<rparr>) = (rs, st') \<and>
       (\<exists>e. send_replies \<lparr>w_out = [], w_script = sc\<rparr> rs = (w2, e)))"
proof (cases "\<exists>m r1. fst ce = None \<and> ReadMsg (file_reader out) = (Inr m, r1) \<and> fst m \<noteq> MsgBye")
  case False
  with assms(1) show ?thesis by (auto simp: helper_round_def split: option.splits prod.splits sum.splits if_splits)
next
  case True
  then obtain m r1 where m: "fst ce = None" "ReadMsg (file_reader out) = (Inr m, r1)" "fst m \<noteq> MsgBye" by blast
  have "m = (t, b)" using ReadMsg_frame [OF m(2), of lost "(t, b)" "[]"] assms(2,3) by simp
  with assms(1) m show ?thesis by (auto simp: helper_round_def split: prod.splits option.splits)
qed

text \<open>
  Either nothing reached the helper, or the connection broke before the message did, or the helper has handled
  it and the client reads from its replies. A broken connection has ended the helper's session.
\<close>

lemma exchange_cases:
  assumes "exchange J B mt body R = (x, R')"
  obtains (kept) e where "x = Inl e" "rm_peer R' = rm_peer R"
  | (dropped) "rm_peer R' = end_session B (rm_peer R)" "\<forall>r. x = Inr r \<longrightarrow> rd_content r = []"
  | (served) b env rs st where "body = Inr b"
      "helper_handle J env B mt b ((rm_peer R)\<lparr>hs_reg := hv_others env (hs_reg (rm_peer R))\<rparr>) = (rs, st)"
      "rm_peer R' = st \<or> rm_peer R' = end_session B st" "\<forall>r. x = Inr r \<longrightarrow> replies_of rs r"
proof -
  consider (no) e where "x = Inl e" "rm_peer R' = rm_peer R"
    | (go) b where "body = Inr b" "length b \<le> maxMessageBytes" "rm_down R = None"
    using assms by (auto simp: exchange_def sent_def split: sum.splits option.splits if_splits)
  then show ?thesis
  proof cases
    case no
    then show ?thesis by (rule kept)
  next
    case go
    let ?io = "case rm_link R of [] \<Rightarrow> calm | x # xs \<Rightarrow> x"
    let ?R0 = "R\<lparr>rm_link := tl (rm_link R)\<rparr>"
    obtain w e where w: "WriteMsg \<lparr>w_out = [], w_script = li_write ?io\<rparr> mt b = (w, e)" by force
    obtain r R1 where sv: "served J B ?io w e ?R0 = (r, R1)" by force
    have x: "R' = R1" "\<forall>q. x = Inr q \<longrightarrow> q = r"
      using assms go w sv by (auto simp: exchange_def sent_def Let_def split: option.splits)
    obtain ended r' w2 st where rd: "helper_round J B (li_ctx ?io, li_env ?io) (file_reader (w_out w))
        \<lparr>w_out = [], w_script = li_reply ?io\<rparr> (rm_peer R) = (ended, r', w2, st)" by (metis prod.exhaust)
    have sr: "r = (case li_read ?io of None \<Rightarrow> file_reader (w_out w2) | Some (n, x) \<Rightarrow> [Rd (take n (w_out w2)) (Some x)])"
      "R1 = (if e = None \<and> ended = None \<and> li_read ?io = None then ?R0\<lparr>rm_peer := st\<rparr>
             else ?R0\<lparr>rm_peer := end_session B st, rm_down := Some (li_down ?io)\<rparr>)"
      using sv rd by (simp_all add: served_def)
    have rc: "\<exists>l. rd_content r @ l = w_out w2"
      using sr(1) by (auto split: option.splits intro: append_take_drop_id)
    obtain lost where l: "w_out w @ lost = frame (mt, b)" using WriteMsg_prefix [OF w go(2)] by auto
    from round_cases [OF rd l go(2)] show ?thesis
    proof
      assume a: "st = rm_peer R \<and> w_out w2 = [] \<and> ended \<noteq> None"
      show ?thesis using a x sr(2) rc by (intro dropped) auto
    next
      assume "\<exists>rs. helper_handle J (snd (li_ctx ?io, li_env ?io)) B mt b
            ((rm_peer R)\<lparr>hs_reg := hv_others (snd (li_ctx ?io, li_env ?io)) (hs_reg (rm_peer R))\<rparr>) = (rs, st) \<and>
          (\<exists>e. send_replies \<lparr>w_out = [], w_script = li_reply ?io\<rparr> rs = (w2, e))"
      then obtain rs e2 where h: "helper_handle J (li_env ?io) B mt b
            ((rm_peer R)\<lparr>hs_reg := hv_others (li_env ?io) (hs_reg (rm_peer R))\<rparr>) = (rs, st)"
        "send_replies \<lparr>w_out = [], w_script = li_reply ?io\<rparr> rs = (w2, e2)" by auto
      obtain ms rs2 lost2 where ms: "rs = map (\<lambda>m. (fst m, Inr (snd m))) ms @ rs2" "w_out w2 @ lost2 = concat (map frame ms)"
        "\<forall>m \<in> set ms. length (snd m) \<le> maxMessageBytes" using send_prefix [OF h(2)] by auto
      obtain l2 where "rd_content r @ l2 = w_out w2" using rc by blast
      then have "rd_content r @ l2 @ lost2 = concat (map frame ms)" using ms(2) by (metis append_assoc)
      with ms have "replies_of rs r" unfolding replies_of_def by blast
      then show ?thesis using h(1) go(1) x sr(2) by (intro served [of b "li_env ?io" rs st]) auto
    qed
  qed
qed

section \<open>The remote store\<close>

text \<open>The message of each operation of a session.\<close>

definition op_msg :: "client_json \<Rightarrow> session_op \<Rightarrow> msg_type \<times> bytes res" where
  "op_msg C a =
     (case a of
        SWrite off cd n b \<Rightarrow> (MsgWriteChunk, ce_write C \<lparr>wc_offset = off, wc_codec = cd, wc_len = n, wc_data = b\<rparr>)
      | SReuse new old d n \<Rightarrow> (MsgReuseChunk, ce_reuse C \<lparr>rc_new = new, rc_old = old, rc_digest = d, rc_length = n\<rparr>)
      | SCommit d m mt \<Rightarrow>
          (MsgCommit, ce_commit C \<lparr>cr_digest = d, cr_mode = m, cr_nano = (case mt of Some x \<Rightarrow> x | None \<Rightarrow> zero_time)\<rparr>)
      | SAbort \<Rightarrow> (MsgAbort, Inr []))"

lemma session_send_cases:
  "session_send C J B mt body R = (e, R') \<Longrightarrow> \<exists>x. exchange J B mt body R = (x, R') \<and>
     (e = None \<longrightarrow> (\<exists>r. x = Inr r \<and> expectOK C r = None))"
  by (auto simp: session_send_def split: prod.splits sum.splits)

lemma sent_exchange: "sent J B mt [] R = ((e, r), R') \<Longrightarrow> \<exists>x. exchange J B mt (Inr []) R = (x, R')"
  by (simp add: exchange_def maxMessageBytes_def split: option.splits)

lemma release_simps [simp]: "rm_peer (snd (release s)) = rm_peer (snd s)" "cw_committed (fst (release s)) = cw_committed (fst s)"
  by (simp_all add: release_def)

lemma Client_step_cases:
  assumes "Client_step c C J B a (w, R) = ((w', R'), e)"
  shows "(rm_peer R' = rm_peer R \<and> cw_committed w' = cw_committed w \<and> (e = None \<longrightarrow> cw_committed w)) \<or>
    (\<not> cw_committed w \<and> (writes a \<longrightarrow> \<not> cw_committed w') \<and>
     (\<exists>x R1. exchange J B (fst (op_msg C a)) (snd (op_msg C a)) R = (x, R1) \<and> rm_peer R' = rm_peer R1 \<and>
        (e = None \<longrightarrow> a \<noteq> SAbort \<longrightarrow> (\<exists>r. x = Inr r \<and> expectOK C r = None))))"
proof -
  have rel: "release (u, R1) = (w', R') \<Longrightarrow> rm_peer R' = rm_peer R1" for u R1
    using release_simps(1) [of "(u, R1)"] by simp
  show ?thesis
  proof (cases a)
    case (SWrite off cd n b)
    with assms show ?thesis
      by (fastforce simp: Client_step_def Client_WriteChunk_def op_msg_def split: if_splits prod.splits dest!: session_send_cases)
  next
    case (SReuse new old d n)
    with assms show ?thesis
      by (fastforce simp: Client_step_def Client_ReuseChunk_def op_msg_def split: if_splits prod.splits dest!: session_send_cases)
  next
    case (SCommit d m mt)
    with assms show ?thesis
      by (fastforce simp: Client_step_def Client_Commit_def op_msg_def split: if_splits prod.splits option.splits
          dest!: session_send_cases rel)
  next
    case SAbort
    with assms show ?thesis
      by (fastforce simp: Client_step_def Client_Abort_def op_msg_def split: if_splits prod.splits dest!: sent_exchange rel)
  qed
qed

text \<open>
  The backend that the helper serves, and what JSON does to the requests: \<open>via rel\<close> is the path that the helper decodes from
  the encoding of \<open>rel\<close> (the encoder replaces what is not UTF-8), and chunks and commits are decoded as they were.
\<close>

locale served_store = detached_store +
  fixes C :: client_json and J :: helper_json and via :: "string \<Rightarrow> string"
  assumes path_sent: "ce_path C rel = Inr b \<Longrightarrow> hd_path J b = Inr (via rel)"
    and begin_sent: "ce_begin C rel n = Inr b \<Longrightarrow> hd_begin J b = Inr (via rel, n)"
    and write_sent: "ce_write C wq = Inr b \<Longrightarrow> hd_write J b = Inr wq"
    and commit_sent: "ce_commit C cq = Inr b \<Longrightarrow> hd_commit J b = Inr cq"
begin

definition rcnt :: "('a, 'b) remote \<Rightarrow> string \<Rightarrow> bytes option" where
  "rcnt R = cnt (hs_store (rm_peer R))"

definition ropen :: "client_write \<times> ('a, 'b) remote \<Rightarrow> string \<Rightarrow> bool" where
  "ropen wR k \<longleftrightarrow> session_in open_for (\<lambda>j. j = k) (rm_peer (snd wR))"

lemma session_in_reg [simp]: "session_in opn P (st\<lparr>hs_reg := x\<rparr>) = session_in opn P st"
  by (simp add: session_in_def)

lemma session_in_end [simp]: "session_in opn P (end_session B st)"
  by (auto simp: end_session_def split: option.split)

lemma exchange_quiet:
  assumes "exchange J B mt body R = (x, R')" and "mt \<notin> session_types"
    and "\<And>b rel. mt = MsgRemove \<Longrightarrow> body = Inr b \<Longrightarrow> hd_path J b = Inr rel \<Longrightarrow> k \<noteq> nm rel"
  shows "rcnt R' k = rcnt R k"
  using assms(1)
proof (cases rule: exchange_cases)
  case (served b env rs st)
  from handle_quiet [OF served(2) assms(2), of k] assms(3) served(1)
  have "cnt (hs_store st) k = rcnt R k" by (auto simp: rcnt_def)
  with served(3) show ?thesis by (auto simp: rcnt_def end_quiet)
qed (auto simp: rcnt_def end_quiet)

lemma exchange_session:
  assumes "exchange J B mt body R = (x, R')" and "session_in open_for P (rm_peer R)" and "\<And>j. P j \<Longrightarrow> usr j" and "mt \<noteq> MsgBeginWrite"
  shows "session_in open_for P (rm_peer R')"
  using assms(1)
proof (cases rule: exchange_cases)
  case (served b env rs st)
  have "session_in open_for P st"
    using assms(2,4) by (intro handle_in [OF served(2) _ assms(3)]) auto
  with served(3) show ?thesis by auto
qed (auto simp: assms(2))

lemma exchange_cnt:
  assumes "exchange J B mt body R = (x, R')" and "session_in open_for P (rm_peer R)" and "\<And>j. P j \<Longrightarrow> usr j" and "\<not> P k"
    and "mt \<noteq> MsgRemove"
  shows "rcnt R' k = rcnt R k"
  using assms(1)
proof (cases rule: exchange_cases)
  case (served b env rs st)
  have "cnt (hs_store st) k = rcnt R k"
    using handle_cnt [where P = P and k = k, OF served(2)] assms(2-5) by (auto simp: rcnt_def)
  with served(3) show ?thesis by (auto simp: rcnt_def end_quiet)
qed (auto simp: rcnt_def end_quiet)

text \<open>A chunk changes no file at all.\<close>

lemma exchange_chunk:
  assumes "exchange J B mt body R = (x, R')" and "session_in open_for P (rm_peer R)" and "\<And>j. P j \<Longrightarrow> usr j"
    and "mt = MsgWriteChunk \<or> mt = MsgReuseChunk"
  shows "rcnt R' = rcnt R"
  using assms(1)
proof (cases rule: exchange_cases)
  case (served b env rs st)
  have t: "mt \<in> session_types" using assms(4) by (auto simp: session_types_def)
  have c: "op_of J mt b = Inr a \<Longrightarrow> commits a = None" for a
    using assms(4) by (auto simp: op_of_def write_op_def reuse_op_def msg_defs split: sum.splits)
  have "cnt (hs_store st) = rcnt R"
    using with_effect [OF served(2) [unfolded handle_session [OF t]] _ assms(3)] assms(2) c by (auto simp: rcnt_def)
  with served(3) show ?thesis by (auto simp: rcnt_def end_quiet)
qed (auto simp: rcnt_def end_quiet)

lemma locked_call_keeps:
  "locked_call R (exchange J B mt body R) f = (r, R') \<Longrightarrow> mt \<notin> session_types \<Longrightarrow> mt \<noteq> MsgRemove \<Longrightarrow> rcnt R' = rcnt R"
  by (rule ext) (auto simp: locked_call_def split: if_splits prod.splits sum.splits dest!: exchange_quiet)

text \<open>A request that the helper has answered with \<open>MsgOK\<close>.\<close>

lemma answered:
  assumes "exchange J B mt body R = (Inr r, R1)" and "expectOK C r = None"
  obtains b env rs st y where "body = Inr b"
    "helper_handle J env B mt b ((rm_peer R)\<lparr>hs_reg := hv_others env (hs_reg (rm_peer R))\<rparr>) = ((MsgOK, Inr y) # rs, st)"
    "rm_peer R1 = st \<or> rm_peer R1 = end_session B st"
  using assms(1)
proof (cases rule: exchange_cases)
  case dropped
  then have "replies_of [] r" by simp
  from expectOK_reply [OF assms(2) this] have False by simp
  then show ?thesis ..
next
  case (served b env rs st)
  then obtain y rs' where "rs = (MsgOK, Inr y) # rs'" using expectOK_reply [OF assms(2)] by blast
  with served that show ?thesis by blast
qed simp

lemma session_ok:
  assumes "exchange J B mt body R = (Inr r, R1)" and "expectOK C r = None" and "mt \<in> session_types"
  shows "\<exists>b s a s2 t2. body = Inr b \<and> hs_session (rm_peer R) = Some s \<and> op_of J mt b = Inr a \<and>
    tr_step B a (s, hs_store (rm_peer R)) = ((s2, t2), None) \<and>
    (hs_session (rm_peer R1) = None \<or> hs_session (rm_peer R1) = Some s2 \<and> hs_store (rm_peer R1) = t2) \<and>
    (commits a \<noteq> None \<longrightarrow> hs_store (rm_peer R1) = t2)"
  using assms(1,2)
proof (rule answered)
  fix b rs st y and env :: helper_env
  let ?p = "(rm_peer R)\<lparr>hs_reg := hv_others env (hs_reg (rm_peer R))\<rparr>"
  assume b: "body = Inr b" and h: "helper_handle J env B mt b ?p = ((MsgOK, Inr y) # rs, st)"
    and p: "rm_peer R1 = st \<or> rm_peer R1 = end_session B st"
  have w: "with_session J B (op_of J mt b) ?p = ((MsgOK, Inr y) # rs, st)" using h handle_session [OF assms(3), of J env B b ?p] by (rule trans [OF sym, rotated])
  have no: "writeErr J e \<noteq> (MsgOK, Inr y)" for e by (simp add: writeErr_def msg_defs)
  obtain s a where s: "hs_session (rm_peer R) = Some s" "op_of J mt b = Inr a" "session_call J B a s ?p = ((MsgOK, Inr y) # rs, st)"
    using w no by (auto simp: with_session_def split: option.splits sum.splits)
  obtain s2 t2 e where t: "tr_step B a (s, hs_store (rm_peer R)) = ((s2, t2), e)" by (metis prod.exhaust)
  have e: "e = None" using s(3) t no by (cases e) (auto simp: session_call_def)
  have st: "hs_session st = (if commits a = None then Some s2 else None)" "hs_store st = t2"
    using s(3) t e by (auto simp: session_call_def)
  show ?thesis
    using b s t e st p by (auto simp: end_session_def split: if_splits)
qed

lemma begun:
  assumes "Client_BeginWrite C J B rel n R = (Inr w, R1)"
  shows "\<not> cw_committed w \<and> (\<exists>s t1. tr_begin B (via rel) n (hs_store (rm_peer R)) = (Inr s, t1) \<and>
    (hs_session (rm_peer R1) = None \<or> hs_session (rm_peer R1) = Some s \<and> hs_store (rm_peer R1) = t1))"
proof -
  obtain r R0 where x: "exchange J B MsgBeginWrite (ce_begin C rel n) R = (Inr r, R0)" "expectOK C r = None"
    "rm_peer R1 = rm_peer R0" "\<not> cw_committed w"
    using assms by (auto simp: Client_BeginWrite_def split: if_splits prod.splits sum.splits option.splits)
  from x(1,2) show ?thesis
  proof (rule answered)
    fix b rs st y and env :: helper_env
    let ?p = "(rm_peer R)\<lparr>hs_reg := hv_others env (hs_reg (rm_peer R))\<rparr>"
    assume b: "ce_begin C rel n = Inr b" and h: "helper_handle J env B MsgBeginWrite b ?p = ((MsgOK, Inr y) # rs, st)"
      and p: "rm_peer R0 = st \<or> rm_peer R0 = end_session B st"
    have no: "writeErr J e \<noteq> (MsgOK, Inr y)" for e by (simp add: writeErr_def msg_defs)
    have "handle_begin J B (via rel) n ?p = ((MsgOK, Inr y) # rs, st)"
      using h begin_sent [OF b] by (simp add: helper_handle_def msg_defs)
    then obtain s where "tr_begin B (via rel) n (hs_store (rm_peer R)) = (Inr s, hs_store st)" "hs_session st = Some s"
      using no by (auto simp: handle_begin_def split: if_splits prod.splits sum.splits)
    with p x(3,4) show ?thesis by (auto simp: end_session_def)
  qed
qed

text \<open>
  The client's session \<open>w\<close> has only written since the helper opened \<open>s0\<close>: the helper's session is gone, or has run the
  same kind of operations.
\<close>

definition writing :: "'b \<Rightarrow> 'a \<Rightarrow> client_write \<times> ('a, 'b) remote \<Rightarrow> bool" where
  "writing s0 t0 wR \<longleftrightarrow> \<not> cw_committed (fst wR) \<and> (hs_session (rm_peer (snd wR)) = None \<or>
     (\<exists>as s es. hs_session (rm_peer (snd wR)) = Some s \<and> run_ops (tr_step B) as (s0, t0) = ((s, hs_store (rm_peer (snd wR))), es) \<and>
        (\<forall>a \<in> set as. writes a)))"

lemma end_session_None [simp]: "hs_session (end_session B st) = None"
  by (simp add: end_session_def split: option.split)

lemma writing_call:
  assumes "session_call J B a s st = (rs, st')" and "writes a" and "run_ops (tr_step B) as (s0, t0) = ((s, hs_store st), es)"
    and "\<forall>a \<in> set as. writes a"
  shows "hs_session st' = None \<or> (\<exists>as s' es. hs_session st' = Some s' \<and> run_ops (tr_step B) as (s0, t0) = ((s', hs_store st'), es) \<and>
    (\<forall>a \<in> set as. writes a))"
proof -
  obtain s1 t1 e where t: "tr_step B a (s, hs_store st) = ((s1, t1), e)" by (metis prod.exhaust)
  show ?thesis
  proof (cases e)
    case None
    with t assms have "hs_session st' = Some s1" "hs_store st' = t1" by (auto simp: session_call_def)
    moreover have "run_ops (tr_step B) (as @ [a]) (s0, t0) = ((s1, t1), es @ [e])" using assms(3) t by (simp add: run_ops_append)
    ultimately show ?thesis using assms(2,4) by (intro disjI2 exI [of _ "as @ [a]"]) auto
  next
    case (Some x)
    with t assms(1) show ?thesis by (auto simp: session_call_def)
  qed
qed

lemma writing_step:
  assumes "writing s0 t0 (w, R)" and "writes a" and "Client_step c C J B a (w, R) = ((w', R'), e)"
  shows "writing s0 t0 (w', R')"
proof -
  have nc: "\<not> cw_committed w" using assms(1) by (simp add: writing_def)
  from Client_step_cases [OF assms(3)] show ?thesis
  proof
    assume "rm_peer R' = rm_peer R \<and> cw_committed w' = cw_committed w \<and> (e = None \<longrightarrow> cw_committed w)"
    with assms(1) show ?thesis by (simp add: writing_def)
  next
    assume "\<not> cw_committed w \<and> (writes a \<longrightarrow> \<not> cw_committed w') \<and>
      (\<exists>x R1. exchange J B (fst (op_msg C a)) (snd (op_msg C a)) R = (x, R1) \<and> rm_peer R' = rm_peer R1 \<and>
        (e = None \<longrightarrow> a \<noteq> SAbort \<longrightarrow> (\<exists>r. x = Inr r \<and> expectOK C r = None)))"
    then obtain x R1 where x: "exchange J B (fst (op_msg C a)) (snd (op_msg C a)) R = (x, R1)" "rm_peer R' = rm_peer R1"
      "\<not> cw_committed w'" using assms(2) by blast
    have t: "fst (op_msg C a) \<in> {MsgWriteChunk, MsgReuseChunk}" using assms(2) by (cases a) (auto simp: op_msg_def)
    from x(1) show ?thesis
    proof (cases rule: exchange_cases)
      case kept
      with assms(1) x show ?thesis by (simp add: writing_def)
    next
      case dropped
      with x show ?thesis by (simp add: writing_def)
    next
      case (served b env rs st)
      let ?p = "(rm_peer R)\<lparr>hs_reg := hv_others env (hs_reg (rm_peer R))\<rparr>"
      have ty: "fst (op_msg C a) \<in> session_types" using t by (auto simp: session_types_def)
      have w: "with_session J B (op_of J (fst (op_msg C a)) b) ?p = (rs, st)" using served(2) handle_session [OF ty, of J env B b ?p] by (rule trans [OF sym, rotated])
      have op: "op_of J (fst (op_msg C a)) b = Inr o' \<Longrightarrow> writes o'" for o'
        using t by (auto simp: op_of_def write_op_def reuse_op_def msg_defs split: sum.splits)
      have "writing s0 t0 (w', R1\<lparr>rm_peer := st\<rparr>)"
      proof (cases "hs_session (rm_peer R) = None \<or> (\<exists>y. op_of J (fst (op_msg C a)) b = Inl y)")
        case True
        then have "hs_session st = hs_session (rm_peer R)" "hs_store st = hs_store (rm_peer R)"
          using w by (auto simp: with_session_def split: option.splits)
        with assms(1) x(3) show ?thesis by (simp add: writing_def)
      next
        case False
        then obtain s o' where s: "hs_session (rm_peer R) = Some s" "op_of J (fst (op_msg C a)) b = Inr o'"
          by (cases "op_of J (fst (op_msg C a)) b") auto
        obtain as es where "run_ops (tr_step B) as (s0, t0) = ((s, hs_store ?p), es)" "\<forall>a \<in> set as. writes a"
          using assms(1) s(1) by (auto simp: writing_def)
        from writing_call [OF _ op [OF s(2)] this] w s x(3) show ?thesis
          by (auto simp: with_session_def writing_def)
      qed
      with served(3) x show ?thesis by (auto simp: writing_def)
    qed
  qed
qed

lemma writing_run:
  "run_ops (Client_step c C J B) as (w, R) = (wR', es) \<Longrightarrow> \<forall>a \<in> set as. writes a \<Longrightarrow> writing s0 t0 (w, R) \<Longrightarrow> writing s0 t0 wR'"
proof (induction as arbitrary: w R es)
  case (Cons a as)
  obtain w1 R1 e es' where st: "Client_step c C J B a (w, R) = ((w1, R1), e)" "run_ops (Client_step c C J B) as (w1, R1) = (wR', es')"
    using Cons.prems(1) by (auto split: prod.splits)
  from Cons.IH [OF st(2)] writing_step [OF Cons.prems(3) _ st(1)] Cons.prems(2) show ?case by simp
qed simp

text \<open>A commit that the client reports as done.\<close>

lemma commit_sent_ok:
  assumes "Client_step c C J B (SCommit d m mt) (w, R) = ((w', R'), None)" and "\<not> cw_committed w"
  shows "\<exists>s s2 n. hs_session (rm_peer R) = Some s \<and>
    tr_step B (SCommit d m (Some n)) (s, hs_store (rm_peer R)) = ((s2, hs_store (rm_peer R')), None)"
proof -
  from Client_step_cases [OF assms(1)] assms(2) obtain r R1 where
    x: "exchange J B MsgCommit (snd (op_msg C (SCommit d m mt))) R = (Inr r, R1)" "expectOK C r = None" "rm_peer R' = rm_peer R1"
    by (auto simp: op_msg_def)
  from session_ok [OF x(1,2)] obtain b s a s2 t2 where
    o': "snd (op_msg C (SCommit d m mt)) = Inr b" "hs_session (rm_peer R) = Some s" "op_of J MsgCommit b = Inr a"
      "tr_step B a (s, hs_store (rm_peer R)) = ((s2, t2), None)" "commits a \<noteq> None \<longrightarrow> hs_store (rm_peer R1) = t2"
    by (auto simp: session_types_def)
  have "a = SCommit d m (Some (case mt of Some x \<Rightarrow> x | None \<Rightarrow> zero_time))"
    using o'(1,3) commit_sent [of _ b] by (auto simp: op_msg_def op_of_def commit_op_def msg_defs)
  with o' x(3) show ?thesis by auto
qed

text \<open>The laws, one by one.\<close>

lemma remote_walk: "Client_Walk C J B ex R = (r, R') \<Longrightarrow> rcnt R' = rcnt R"
  unfolding Client_Walk_def by (erule locked_call_keeps) (simp_all add: session_types_def msg_defs)

lemma remote_stat: "Client_Stat C J B rel R = (r, R') \<Longrightarrow> rcnt R' = rcnt R"
  unfolding Client_Stat_def by (erule locked_call_keeps) (simp_all add: session_types_def msg_defs)

lemma remote_sig: "Client_GetSignature C J B rel R = (r, R') \<Longrightarrow> rcnt R' = rcnt R"
  unfolding Client_GetSignature_def by (erule locked_call_keeps) (simp_all add: session_types_def msg_defs)

lemma remote_open: "Client_OpenRead C J B rel R = (r, R') \<Longrightarrow> rcnt R' = rcnt R"
  unfolding Client_OpenRead_def by (erule locked_call_keeps) (simp_all add: session_types_def msg_defs)

lemma ssh_open: "ssh_OpenRead C J B rel R = (r, R') \<Longrightarrow> rcnt R' = rcnt R"
  unfolding ssh_OpenRead_def by (erule locked_call_keeps) (simp_all add: session_types_def msg_defs)

lemma call_error_snd: "call_error x = (e, R') \<Longrightarrow> \<exists>r. x = (r, R')"
  by (auto simp: call_error_def split: prod.splits sum.splits)

lemma remote_mkdir: "Client_MkdirAll C J B rel R = (e, R') \<Longrightarrow> rcnt R' = rcnt R"
  unfolding Client_MkdirAll_def
  by (drule call_error_snd, elim exE, erule locked_call_keeps) (simp_all add: session_types_def msg_defs)

lemma remote_remove:
  assumes "Client_Remove C J B rel R = (e, R')" and "k \<noteq> nm (via rel)"
  shows "rcnt R' k = rcnt R k"
proof -
  obtain x R1 where x: "exchange J B MsgRemove (ce_path C rel) R = (x, R1)" by force
  have "rcnt R1 k = rcnt R k"
    by (rule exchange_quiet [OF x]) (use assms(2) in \<open>auto simp: session_types_def msg_defs dest!: path_sent\<close>)
  moreover have "R' = R \<or> R' = R1"
    using assms(1) x by (auto simp: Client_Remove_def call_error_def locked_call_def split: if_splits prod.splits sum.splits)
  ultimately show ?thesis by auto
qed

lemma remote_begin: "Client_BeginWrite C J B rel n R = (w, R') \<Longrightarrow> rcnt R' = rcnt R"
proof -
  assume a: "Client_BeginWrite C J B rel n R = (w, R')"
  obtain x R1 where x: "exchange J B MsgBeginWrite (ce_begin C rel n) R = (x, R1)" by force
  have "rcnt R1 k = rcnt R k" for k by (rule exchange_quiet [OF x]) (auto simp: session_types_def msg_defs)
  moreover have "R' = R \<or> rm_peer R' = rm_peer R1"
    using a x by (auto simp: Client_BeginWrite_def split: if_splits prod.splits sum.splits option.splits)
  ultimately show ?thesis by (auto simp: rcnt_def)
qed

lemma remote_begin_for:
  assumes "Client_BeginWrite C J B rel n R = (Inr w, R1)"
  shows "ropen (w, R1) (nm (via rel))"
  using begun [OF assms] begin_for [of "via rel" n "hs_store (rm_peer R)"] by (auto simp: ropen_def session_in_def)

lemma remote_step:
  assumes "ropen (w, R) k" and "usr k" and "Client_step c C J B a (w, R) = ((w', R'), e)"
  shows "ropen (w', R') k \<and> (\<forall>j. j \<noteq> k \<longrightarrow> rcnt R' j = rcnt R j) \<and> (commits a = None \<longrightarrow> rcnt R' = rcnt R)"
proof -
  have i: "session_in open_for (\<lambda>j. j = k) (rm_peer R)" using assms(1) by (simp add: ropen_def)
  have u: "\<And>j. j = k \<Longrightarrow> usr j" using assms(2) by simp
  from Client_step_cases [OF assms(3)] consider "rm_peer R' = rm_peer R"
    | x R1 where "exchange J B (fst (op_msg C a)) (snd (op_msg C a)) R = (x, R1)" "rm_peer R' = rm_peer R1" by blast
  then show ?thesis
  proof cases
    case 1
    with i show ?thesis by (simp add: ropen_def rcnt_def)
  next
    case 2
    have t: "fst (op_msg C a) \<noteq> MsgBeginWrite" "fst (op_msg C a) \<noteq> MsgRemove"
      by (cases a; simp add: op_msg_def msg_defs)+
    have "rcnt R1 = rcnt R" if "commits a = None"
    proof (cases a)
      case SAbort
      then have "rcnt R1 j = rcnt R j" for j
        by (intro exchange_quiet [OF 2(1)]) (auto simp: op_msg_def session_types_def msg_defs)
      then show ?thesis by blast
    qed (use exchange_chunk [OF 2(1) i u] that in \<open>auto simp: op_msg_def\<close>)
    moreover have "rcnt R1 j = rcnt R j" if "j \<noteq> k" for j
      using exchange_cnt [OF 2(1) i u _ t(2), of j] that by simp
    moreover have "session_in open_for (\<lambda>j. j = k) (rm_peer R1)" by (rule exchange_session [OF 2(1) i u t(1)])
    ultimately show ?thesis using 2(2) by (simp add: ropen_def rcnt_def)
  qed
qed

lemma remote_fresh_commit:
  assumes "Client_BeginWrite C J B rel n R = (Inr w, R1)" and "usr (nm (via rel))" and "\<forall>a \<in> set as. writes a"
    and "run_ops (Client_step c C J B) as (w, R1) = (st2, es)" and "Client_step c C J B (SCommit d m mt) st2 = ((w', R'), None)"
  shows "\<exists>x. rcnt R' (nm (via rel)) = Some x \<and> H x = d"
proof -
  obtain w2 R2 where st2: "st2 = (w2, R2)" by force
  from begun [OF assms(1)] obtain s0 t0 where b: "\<not> cw_committed w" "tr_begin B (via rel) n (hs_store (rm_peer R)) = (Inr s0, t0)"
    "hs_session (rm_peer R1) = None \<or> hs_session (rm_peer R1) = Some s0 \<and> hs_store (rm_peer R1) = t0" by blast
  then have "writing s0 t0 (w, R1)"
    by (auto simp: writing_def intro!: exI [of _ "[]"])
  from writing_run [OF assms(4,3) this] have wr: "writing s0 t0 (w2, R2)" by (simp add: st2)
  then have nc: "\<not> cw_committed w2" by (simp add: writing_def)
  from commit_sent_ok [OF assms(5) [unfolded st2] nc] obtain s s2 n' where
    c: "hs_session (rm_peer R2) = Some s" "tr_step B (SCommit d m (Some n')) (s, hs_store (rm_peer R2)) = ((s2, hs_store (rm_peer R')), None)"
    by blast
  from wr c(1) obtain as' es' where "run_ops (tr_step B) as' (s0, t0) = ((s, hs_store (rm_peer R2)), es')" "\<forall>a \<in> set as'. writes a"
    by (auto simp: writing_def)
  from fresh_commit [OF b(2) assms(2) this(2,1) c(2)] show ?thesis by (simp add: rcnt_def)
qed

lemma remote_whole_write:
  assumes "Client_BeginWrite C J B rel (int (length b)) R = (Inr w, R1)" and "usr (nm (via rel))"
    and "Client_step c C J B (SWrite 0 CodecNone (int (length b)) b) (w, R1) = ((w2, R2), None)"
    and "Client_step c C J B (SCommit d m mt) (w2, R2) = ((w', R'), None)"
  shows "rcnt R' (nm (via rel)) = Some b"
proof -
  let ?a = "SWrite 0 CodecNone (int (length b)) b"
  from begun [OF assms(1)] obtain s0 t0 where b: "\<not> cw_committed w" "tr_begin B (via rel) (int (length b)) (hs_store (rm_peer R)) = (Inr s0, t0)"
    "hs_session (rm_peer R1) = None \<or> hs_session (rm_peer R1) = Some s0 \<and> hs_store (rm_peer R1) = t0" by blast
  from Client_step_cases [OF assms(3)] b(1) obtain r Q where
    x: "exchange J B MsgWriteChunk (snd (op_msg C ?a)) R1 = (Inr r, Q)" "expectOK C r = None" "rm_peer R2 = rm_peer Q" "\<not> cw_committed w2"
    by (auto simp: op_msg_def)
  from session_ok [OF x(1,2)] obtain p s a s2 t2 where
    o': "snd (op_msg C ?a) = Inr p" "hs_session (rm_peer R1) = Some s" "op_of J MsgWriteChunk p = Inr a"
      "tr_step B a (s, hs_store (rm_peer R1)) = ((s2, t2), None)"
      "hs_session (rm_peer Q) = None \<or> hs_session (rm_peer Q) = Some s2 \<and> hs_store (rm_peer Q) = t2"
    by (auto simp: session_types_def)
  have a: "a = ?a"
    using o'(1,3) write_sent [of _ p] by (auto simp: op_msg_def op_of_def write_op_def)
  have s: "s = s0" "hs_store (rm_peer R1) = t0" using b(3) o'(2) by auto
  from commit_sent_ok [OF assms(4) x(4)] obtain s3 s4 n where
    c: "hs_session (rm_peer R2) = Some s3" "tr_step B (SCommit d m (Some n)) (s3, hs_store (rm_peer R2)) = ((s4, hs_store (rm_peer R')), None)"
    by blast
  have "s3 = s2" "hs_store (rm_peer R2) = t2" using o'(5) c(1) x(3) by auto
  with whole_write [OF b(2) assms(2) o'(4) [unfolded a s]] c(2) show ?thesis by (simp add: rcnt_def)
qed

end

text \<open>The client of a served store is a store.\<close>

sublocale served_store \<subseteq> quic: store "client_backend c C J B" rcnt "\<lambda>rel. nm (via rel)" usr ropen H for c
proof (unfold_locales, goal_cases)
  case (10 rel n t s t1 as st2 es d m mt s' t')
  then show ?case using remote_fresh_commit by (simp add: client_backend_def)
next
  case (11 rel b t s t1 s2 t2 d m mt s' t')
  then show ?case using remote_whole_write by (simp add: client_backend_def)
qed (auto simp: client_backend_def remote_begin_for dest: remote_walk remote_stat remote_open remote_remove remote_mkdir remote_begin remote_sig
    remote_step)

sublocale served_store \<subseteq> ssh: store "ssh_backend c C J B" rcnt "\<lambda>rel. nm (via rel)" usr ropen H for c
proof (unfold_locales, goal_cases)
  case (10 rel n t s t1 as st2 es d m mt s' t')
  then show ?case using remote_fresh_commit by (simp add: ssh_backend_def ssh_same)
next
  case (11 rel b t s t1 s2 t2 d m mt s' t')
  then show ?case using remote_whole_write by (simp add: ssh_backend_def ssh_same)
qed (auto simp: ssh_backend_def ssh_same remote_begin_for
    dest: remote_walk remote_stat ssh_open remote_remove remote_mkdir remote_begin remote_sig remote_step)

context served_store
begin

lemma remote_stores:
  "store (client_backend c C J B) rcnt (\<lambda>rel. nm (via rel)) usr ropen H"
  "store (ssh_backend c C J B) rcnt (\<lambda>rel. nm (via rel)) usr ropen H"
  by (rule quic.store_axioms, rule ssh.store_axioms)

end

section \<open>The mutex\<close>

lemma sent_lock: "sent J B mt b R = (x, R') \<Longrightarrow> rm_locked R' = rm_locked R"
  by (auto simp: sent_def served_def Let_def split: sum.splits option.splits if_splits prod.splits)

lemma exchange_lock: "exchange J B mt body R = (x, R') \<Longrightarrow> rm_locked R' = rm_locked R"
  by (auto simp: exchange_def split: sum.splits option.splits if_splits prod.splits dest: sent_lock)

lemma session_send_lock: "session_send C J B mt body R = (e, R') \<Longrightarrow> rm_locked R' = rm_locked R"
  by (auto simp: session_send_def split: prod.splits sum.splits dest: exchange_lock)

text \<open>The session \<open>w\<close> holds the mutex of its client for as long as it is open.\<close>

definition holds :: "client_write \<times> ('t, 'w) remote \<Rightarrow> bool" where
  "holds s \<longleftrightarrow> cw_holding (fst s) = (\<not> cw_committed (fst s)) \<and> rm_locked (snd s) = cw_holding (fst s)"

lemma holds_step: "holds s \<Longrightarrow> Client_step c C J B a s = (s', e) \<Longrightarrow> holds s'"
  by (cases a) (auto simp: holds_def Client_step_def Client_WriteChunk_def Client_ReuseChunk_def Client_Commit_def Client_Abort_def
      release_def split: if_splits prod.splits option.splits dest!: session_send_lock sent_lock)

lemma holds_run: "run_ops (Client_step c C J B) as s = (s', es) \<Longrightarrow> holds s \<Longrightarrow> holds s'"
  by (induction as arbitrary: s es) (auto split: prod.splits dest: holds_step)

lemma holds_begin: "Client_BeginWrite C J B rel n R = (Inr w, R1) \<Longrightarrow> holds (w, R1)"
  by (auto simp: Client_BeginWrite_def holds_def split: if_splits prod.splits sum.splits option.splits)

lemma aborted_step: "Client_step c C J B a (w, R) = ((w', R'), e) \<Longrightarrow> a = SAbort \<or> cw_committed w \<Longrightarrow> cw_committed w'"
  by (cases a) (auto simp: Client_step_def Client_WriteChunk_def Client_ReuseChunk_def Client_Commit_def Client_Abort_def
      release_def split: if_splits prod.splits option.splits)

lemma aborted_run:
  "run_ops (Client_step c C J B) as (w, R) = ((w', R'), es) \<Longrightarrow> SAbort \<in> set as \<or> cw_committed w \<Longrightarrow> cw_committed w'"
proof (induction as arbitrary: w R es)
  case (Cons a as)
  obtain w1 R1 e es' where st: "Client_step c C J B a (w, R) = ((w1, R1), e)" "run_ops (Client_step c C J B) as (w1, R1) = ((w', R'), es')"
    using Cons.prems(1) by (auto split: prod.splits)
  with Cons.IH [OF st(2)] aborted_step [OF st(1)] Cons.prems(2) show ?case by auto
qed simp

section \<open>A file read to its end\<close>

lemma read_blocks_whole: "read_blocks ctx k r = (bs, None) \<Longrightarrow> rd_error r = EOF \<and> concat bs = rd_content r"
proof (induction ctx k r arbitrary: bs rule: read_blocks.induct)
  case (1 ctx k r)
  obtain b e r' where r: "rd_read r 65536 = (b, e, r')" by (metis prod.exhaust)
  have c: "ctx k = None" using "1.prems" by (simp add: read_blocks.simps [of ctx k r] split: option.splits)
  show ?case
  proof (cases e)
    case None
    obtain bs' e' where s: "read_blocks ctx (k + 1) r' = (bs', e')" by force
    with "1.prems" c r None have "e' = None" "bs = (if b = [] then bs' else b # bs')"
      by (auto simp: read_blocks.simps [of ctx k r])
    with "1.IH" [OF c r [symmetric] refl None] s rd_read_content [OF r [unfolded None]] show ?thesis by auto
  next
    case (Some x)
    with "1.prems" c r have "bs = (if b = [] then [] else [b])" "x = EOF"
      by (auto simp: read_blocks.simps [of ctx k r] split: if_splits)
    with rd_read_content_err [OF r [unfolded Some]] show ?thesis by auto
  qed
qed

text \<open>Data frames and the reply that ends them.\<close>

lemma locked_reads_frames:
  "rd_ok r \<Longrightarrow> rd_content r = concat (map frame (map (Pair MsgReadData) bs @ [f])) \<Longrightarrow>
   \<forall>b \<in> set bs. length b \<le> maxMessageBytes \<Longrightarrow> length (snd f) \<le> maxMessageBytes \<Longrightarrow> fst f \<noteq> MsgReadData \<Longrightarrow>
   locked_reads C r = map (\<lambda>b. Rd b None) bs @
     (if fst f = MsgOK then []
      else [Rd [] (Some (Msg (if fst f = MsgErr then (case cd_err C (snd f) of Inr s \<Rightarrow> s | Inl _ \<Rightarrow> '''') else ''unexpected %d'')))])"
proof (induction bs arbitrary: r)
  case Nil
  have c: "rd_content r = frame_header (fst f) (snd f) @ snd f" using Nil.prems(2) by (simp add: frame_def)
  from ReadMsg_header(1) [OF Nil.prems(1) c Nil.prems(4)] obtain r' where "ReadMsg r = (Inr (fst f, snd f), r')" by auto
  then show ?case using Nil.prems(5) by (cases f) (auto simp: locked_reads.simps [of C r] msg_defs)
next
  case (Cons b bs)
  let ?rest = "concat (map frame (map (Pair MsgReadData) bs @ [f]))"
  have c: "rd_content r = frame_header MsgReadData b @ b @ ?rest" using Cons.prems(2) by (simp add: frame_pair)
  from ReadMsg_header(1) [OF Cons.prems(1) c] Cons.prems(3) obtain r1 where
    "ReadMsg r = (Inr (MsgReadData, b), r1)" "rd_ok r1" "rd_content r1 = ?rest" by auto
  with Cons.IH [of r1] Cons.prems(3-5) show ?case
    by (subst locked_reads.simps) (simp add: msg_defs)
qed

lemma locked_reads_cut:
  "rd_ok r \<Longrightarrow> rd_content r = concat (map frame (map (Pair MsgReadData) bs)) \<Longrightarrow>
   \<forall>b \<in> set bs. length b \<le> maxMessageBytes \<Longrightarrow>
   locked_reads C r = map (\<lambda>b. Rd b None) bs @ [Rd [] (Some EOF)]"
proof (induction bs arbitrary: r)
  case Nil
  then obtain r' where "ReadMsg r = (Inl EOF, r')" using ReadMsg_short [of r] by auto
  then show ?case by (simp add: locked_reads.simps [of C r])
next
  case (Cons b bs)
  let ?rest = "concat (map frame (map (Pair MsgReadData) bs))"
  have c: "rd_content r = frame_header MsgReadData b @ b @ ?rest" using Cons.prems(2) by (simp add: frame_pair)
  from ReadMsg_header(1) [OF Cons.prems(1) c] Cons.prems(3) obtain r1 where
    "ReadMsg r = (Inr (MsgReadData, b), r1)" "rd_ok r1" "rd_content r1 = ?rest" by auto
  with Cons.IH [of r1] Cons.prems(3) show ?case
    by (subst locked_reads.simps) (simp add: msg_defs)
qed

lemma remote_reads_cut:
  "rd_ok r \<Longrightarrow> rd_content r = concat (map frame (map (Pair MsgReadData) bs)) \<Longrightarrow>
   \<forall>b \<in> set bs. length b \<le> maxMessageBytes \<Longrightarrow>
   remote_reads C r = map (\<lambda>b. Rd b None) bs @ [Rd [] (Some EOF)]"
proof (induction bs arbitrary: r)
  case Nil
  then obtain r' where "ReadMsg r = (Inl EOF, r')" using ReadMsg_short [of r] by auto
  then show ?case by (simp add: remote_reads.simps [of C r])
next
  case (Cons b bs)
  let ?rest = "concat (map frame (map (Pair MsgReadData) bs))"
  have c: "rd_content r = frame_header MsgReadData b @ b @ ?rest" using Cons.prems(2) by (simp add: frame_pair)
  from ReadMsg_header(1) [OF Cons.prems(1) c] Cons.prems(3) obtain r1 where
    "ReadMsg r = (Inr (MsgReadData, b), r1)" "rd_ok r1" "rd_content r1 = ?rest" by auto
  with Cons.IH [of r1] Cons.prems(3) show ?case
    by (subst remote_reads.simps) (simp add: msg_defs)
qed

lemma rd_blocks_all: "read_all (map (\<lambda>b. Rd b None) bs @ [Rd [] (Some EOF)]) = (concat bs, None)"
  by (induction bs) auto

lemma rd_blocks: "[] \<notin> set bs \<Longrightarrow> rd_ok (map (\<lambda>b. Rd b None) bs @ r) = rd_ok r"
  "rd_content (map (\<lambda>b. Rd b None) bs @ r) = concat bs @ rd_content r"
  by (induction bs) auto

text \<open>An exchange that leaves the connection up has brought every reply.\<close>

lemma exchange_up:
  assumes "exchange J B mt body R = (Inr r, R')" and "rm_down R' = None"
  shows "\<exists>b env ms. body = Inr b \<and>
    helper_handle J env B mt b ((rm_peer R)\<lparr>hs_reg := hv_others env (hs_reg (rm_peer R))\<rparr>) = (map (\<lambda>m. (fst m, Inr (snd m))) ms, rm_peer R') \<and>
    rd_ok r \<and> rd_content r = concat (map frame ms) \<and> (\<forall>m \<in> set ms. length (snd m) \<le> maxMessageBytes)"
proof -
  obtain b where b: "body = Inr b" "length b \<le> maxMessageBytes" "rm_down R = None"
    using assms(1) by (auto simp: exchange_def sent_def split: sum.splits option.splits if_splits)
  let ?io = "case rm_link R of [] \<Rightarrow> calm | x # xs \<Rightarrow> x"
  let ?R0 = "R\<lparr>rm_link := tl (rm_link R)\<rparr>"
  obtain w e where w: "WriteMsg \<lparr>w_out = [], w_script = li_write ?io\<rparr> mt b = (w, e)" by force
  have e: "e = None" and sv: "served J B ?io w None ?R0 = (r, R')"
    using assms(1) b w by (auto simp: exchange_def sent_def Let_def split: option.splits prod.splits)
  obtain ended r' w2 st where rd: "helper_round J B (li_ctx ?io, li_env ?io) (file_reader (w_out w))
      \<lparr>w_out = [], w_script = li_reply ?io\<rparr> (rm_peer R) = (ended, r', w2, st)" by (metis prod.exhaust)
  have q: "ended = None" "r = file_reader (w_out w2)" "rm_peer R' = st"
    using sv rd assms(2) by (auto simp: served_def split: option.splits if_splits)
  have fr: "w_out w = frame (mt, b)" using WriteMsg_prefix [OF w b(2)] e by auto
  obtain m r1 where m: "li_ctx ?io = None" "ReadMsg (file_reader (w_out w)) = (Inr m, r1)" "fst m \<noteq> MsgBye"
    using rd q(1) by (auto simp: helper_round_def split: option.splits prod.splits sum.splits if_splits)
  have "m = (mt, b)" using ReadMsg_frame [OF m(2), of "[]" "(mt, b)" "[]"] fr b(2) by simp
  with rd q(1) m obtain rs where h: "helper_handle J (li_env ?io) B mt b
        ((rm_peer R)\<lparr>hs_reg := hv_others (li_env ?io) (hs_reg (rm_peer R))\<rparr>) = (rs, st)"
      "send_replies \<lparr>w_out = [], w_script = li_reply ?io\<rparr> rs = (w2, None)"
    by (auto simp: helper_round_def split: prod.splits option.splits)
  from send_prefix [OF h(2)] obtain ms where "rs = map (\<lambda>m. (fst m, Inr (snd m))) ms" "w_out w2 = concat (map frame ms)"
    "\<forall>m \<in> set ms. length (snd m) \<le> maxMessageBytes" by auto
  with b h q show ?thesis by (intro exI [of _ b] exI [of _ "li_env ?io"] exI [of _ ms]) simp
qed

lemma writeErr_type [simp]: "fst (writeErr J e) = MsgErr" and write_ok_type [simp]: "fst (write_ok J) = MsgOK"
  by (simp_all add: writeErr_def write_ok_def)

lemma map_replies:
  assumes "map (\<lambda>b. (MsgReadData, Inr b)) bs @ [f] = map (\<lambda>m. (fst m, Inr (snd m))) ms"
  shows "\<exists>g. ms = map (Pair MsgReadData) bs @ [g] \<and> fst g = fst f"
  using assms
proof (induction bs arbitrary: ms)
  case (Cons b bs)
  then obtain m ms1 where m: "ms = m # ms1" "m = (MsgReadData, b)"
    "map (\<lambda>b. (MsgReadData, Inr b)) bs @ [f] = map (\<lambda>m. (fst m, Inr (snd m))) ms1" by (cases ms) auto
  with Cons.IH [OF m(3)] show ?case by auto
qed auto

context served_store
begin

text \<open>What a client reads to the end while its connection stays up is what the helper's reader held.\<close>

lemma open_up:
  assumes "Client_OpenRead C J B rel R = (Inr x, R')" and "rm_down R' = None" and "rd_ok x"
  shows "\<exists>rr t'. tr_open B (via rel) (hs_store (rm_peer R)) = (Inr rr, t') \<and> rd_error rr = EOF \<and> rd_content x = rd_content rr"
proof -
  obtain r where r: "exchange J B MsgOpenRead (ce_path C rel) R = (Inr r, R')" "x = locked_reads C r"
    using assms(1) by (auto simp: Client_OpenRead_def locked_call_def split: if_splits prod.splits sum.splits)
  from exchange_up [OF r(1) assms(2)] obtain b env ms where b: "ce_path C rel = Inr b"
    "helper_handle J env B MsgOpenRead b ((rm_peer R)\<lparr>hs_reg := hv_others env (hs_reg (rm_peer R))\<rparr>) = (map (\<lambda>m. (fst m, Inr (snd m))) ms, rm_peer R')"
    "rd_ok r" "rd_content r = concat (map frame ms)" "\<forall>m \<in> set ms. length (snd m) \<le> maxMessageBytes" by blast
  let ?p = "(rm_peer R)\<lparr>hs_reg := hv_others env (hs_reg (rm_peer R))\<rparr>"
  have h: "helper_read J env B (via rel) ?p = (map (\<lambda>m. (fst m, Inr (snd m))) ms, rm_peer R')"
    using b(2) path_sent [OF b(1)] by (simp add: helper_handle_def msg_defs)
  obtain o' t' where o': "tr_open B (via rel) (hs_store (rm_peer R)) = (o', t')" by force
  obtain bs and f :: reply where f: "map (\<lambda>b. (MsgReadData, Inr b)) bs @ [f] = map (\<lambda>m. (fst m, Inr (snd m))) ms"
    "fst f = MsgErr \<or> (fst f = MsgOK \<and> (\<exists>rr. o' = Inr rr \<and> read_blocks (hv_ctx env) 0 rr = (bs, None)))"
  proof (cases o')
    case (Inl e)
    then show ?thesis using h o' that [of "[]" "writeErr J e"] by (simp add: helper_read_def)
  next
    case (Inr rr)
    obtain bs e where "read_blocks (hv_ctx env) 0 rr = (bs, e)" by force
    then show ?thesis using h o' Inr that [of bs "case e of Some x \<Rightarrow> writeErr J x | None \<Rightarrow> write_ok J"]
      by (auto simp: helper_read_def split: option.splits)
  qed
  from map_replies [OF f(1)] obtain g where g: "ms = map (Pair MsgReadData) bs @ [g]" "fst g = fst f" by blast
  have "fst g \<noteq> MsgReadData" using f(2) g(2) by (auto simp: msg_defs)
  from locked_reads_frames [OF b(3) b(4) [unfolded g(1)] _ _ this, of C] b(5) g(1)
  have x: "x = map (\<lambda>b. Rd b None) bs @ (if fst g = MsgOK then []
      else [Rd [] (Some (Msg (if fst g = MsgErr then (case cd_err C (snd g) of Inr s \<Rightarrow> s | Inl _ \<Rightarrow> '''') else ''unexpected %d'')))])"
    using r(2) by simp
  have "\<not> rd_ok (map (\<lambda>b. Rd b None) bs @ [Rd [] (Some (Msg s))])" for s by (induction bs) auto
  with x assms(3) have "fst g = MsgOK" by (auto split: if_splits)
  with f(2) g(2) obtain rr where "o' = Inr rr" "read_blocks (hv_ctx env) 0 rr = (bs, None)" by (auto simp: msg_defs)
  with read_blocks_whole [of "hv_ctx env" 0 rr bs] o' x \<open>fst g = MsgOK\<close> rd_blocks(2) [of bs "[]"] show ?thesis by simp
qed

end

end
