(* ===== verification/RemoteJob.thy ===== *)
theory RemoteJob
  imports Remote EngineJob
begin

text \<open>
  What the helper and its clients promise (\<open>helper.go\<close>, \<open>quic.go\<close>, \<open>ssh.go\<close>), and the engine over them: the properties, with
  a helper over an in-process object store as the instance.
\<close>

section \<open>An example helper\<close>

definition demo_chunk :: write_chunk_req where
  "demo_chunk = \<lparr>wc_offset = 0, wc_codec = CodecNone, wc_len = 1, wc_data = [9]\<rparr>"

definition demo_commit :: commit_req where "demo_commit = \<lparr>cr_digest = [9], cr_mode = 420, cr_nano = 5\<rparr>"

definition no_json :: goerr where "no_json = Msg ''json: unsupported value''"

text \<open>A codec for the requests of the example; it refuses to encode any other.\<close>

definition demo_cj :: client_json where
  "demo_cj =
     \<lparr>ce_hello = (\<lambda>h. Inr [1]), ce_walk = (\<lambda>ex. Inr []), ce_path = (\<lambda>rel. if rel = ''f'' then Inr [1] else Inl no_json),
      ce_begin = (\<lambda>rel n. if rel = ''f'' \<and> n = 1 then Inr [1] else Inl no_json),
      ce_write = (\<lambda>q. if q = demo_chunk then Inr [1] else Inl no_json), ce_reuse = (\<lambda>q. Inl no_json),
      ce_commit = (\<lambda>q. if q = demo_commit then Inr [1] else Inl no_json), ce_relay = (\<lambda>m. Inl no_json),
      cd_hello = (\<lambda>b. Inr \<lparr>hok_version = ''2'', hok_root = ''/r'', hok_caps = DefaultCaps\<rparr>), cd_walk = (\<lambda>b. Inr []), cd_meta = (\<lambda>b. Inl no_json),
      cd_sig = (\<lambda>b. Inr empty_signature),
      cd_relay = (\<lambda>b. Inl no_json), cd_err = (\<lambda>b. Inr ''remote'')\<rparr>"

definition demo_hj :: helper_json where
  "demo_hj =
     \<lparr>hd_hello = (\<lambda>b. Inr \<lparr>hello_version = ''2'', hello_root = ''/x'', hello_token = ''t''\<rparr>), hd_walk = (\<lambda>b. Inr []), hd_path = (\<lambda>b. Inr ''f''),
      hd_begin = (\<lambda>b. Inr (''f'', 1)), hd_write = (\<lambda>b. Inr demo_chunk), hd_reuse = (\<lambda>b. Inl no_json), hd_commit = (\<lambda>b. Inr demo_commit),
      hd_relay = (\<lambda>b. Inl no_json), he_hello = (\<lambda>h. Inr [2]), he_walk = (\<lambda>fs. Inr []), he_meta = (\<lambda>f. Inr [3]), he_sig = (\<lambda>s. Inr [4]),
      he_relay = (\<lambda>m. Inr []), he_stats = Inr [], he_err = (\<lambda>s. Inr [0]), he_ok = Inr [5]\<rparr>"

lemma demo_detached:
  "detached_store demo_backend (s3_cnt demo_s3) (s3_key demo_s3) (s3_usr demo_s3) (\<lambda>st k. sw_key (fst st) = k) (\<lambda>b. b)"
  unfolding demo_backend_def by (rule mem_detached.detached_store_axioms)

lemma demo_served:
  "served_store demo_backend (s3_cnt demo_s3) (s3_key demo_s3) (s3_usr demo_s3) (\<lambda>st k. sw_key (fst st) = k) (\<lambda>b. b) demo_cj demo_hj (\<lambda>r. r)"
  by (intro served_store.intro demo_detached)
    (unfold_locales, auto simp: demo_cj_def demo_hj_def split: if_splits)

interpretation mem_served: served_store demo_backend "s3_cnt demo_s3" "s3_key demo_s3" "s3_usr demo_s3" "\<lambda>st k. sw_key (fst st) = k"
  "\<lambda>b. b" demo_cj demo_hj "\<lambda>r. r"
  by (rule demo_served)

definition demo_peer :: "(memory s3_world, s3_session) helper" where
  "demo_peer = \<lparr>hs_session = None, hs_store = demo_mem, hs_reg = \<lparr>rr_waiters = Map.empty, rr_pending = []\<rparr>\<rparr>"

definition demo_remote :: "(memory s3_world, s3_session) remote" where
  "demo_remote = \<lparr>rm_down = None, rm_locked = False, rm_peer = demo_peer, rm_link = []\<rparr>"

definition demo_client :: client where "demo_client = \<lparr>cl_caps = DefaultCaps, cl_root = ''/r'', cl_path = ''''\<rparr>"

section \<open>Properties\<close>

text \<open>
  C35. A session of the helper gets to a root only after a hello in a version the helper speaks and, where a token is
  configured, with a token of the same hash; and where the server has a root of its own, that is the root.
\<close>
theorem helper_authenticated:
  assumes "RunRemoteHelper sha J open_root env_root opts rounds r w reg = Some (e, w', Some (dir, st))"
  shows "\<exists>p h r1. ReadMsg r = (Inr (MsgHello, p), r1) \<and> hd_hello J p = Inr h \<and> CheckPeerVersion (hello_version h) = Inr () \<and>
    (ho_token opts = '''' \<or> sha (hello_token h) = sha (ho_token opts)) \<and> (ho_root opts = '''' \<or> dir = ho_root opts)"
  using assms by (rule session_opened)

definition demo_token :: "string \<Rightarrow> bytes" where "demo_token s = (if s = ''t'' then [1] else [2])"

definition demo_opts :: helper_options where "demo_opts = \<lparr>ho_root = ''/srv'', ho_token = ''t''\<rparr>"

definition demo_open :: "string \<Rightarrow> ((memory s3_world, s3_session) backend \<times> memory s3_world) res" where
  "demo_open d = Inr (demo_backend, demo_mem)"

definition demo_session :: "bytes \<Rightarrow> (goerr option \<times> writer \<times> (string \<times> (memory s3_world, s3_session) helper) option) option" where
  "demo_session b = RunRemoteHelper demo_token demo_hj demo_open '''' demo_opts [(None, calm_env), (None, calm_env)] [Rd b None]
     \<lparr>w_out = [], w_script = []\<rparr> \<lparr>rr_waiters = Map.empty, rr_pending = []\<rparr>"

theorem helper_authenticated_witness:
  "\<exists>st p h r1. demo_session [1, 0, 0, 0, 1, 1] = Some (None, \<lparr>w_out = [2, 0, 0, 0, 1, 2], w_script = []\<rparr>, Some (''/srv'', st)) \<and>
     ReadMsg [Rd [1, 0, 0, 0, 1, 1] None] = (Inr (MsgHello, p), r1) \<and> hd_hello demo_hj p = Inr h \<and>
     demo_token (hello_token h) = demo_token ''t''"
proof -
  have "(case demo_session [1, 0, 0, 0, 1, 1] of Some (e, w, Some (d, st)) \<Rightarrow> e = None \<and> w = \<lparr>w_out = [2, 0, 0, 0, 1, 2], w_script = []\<rparr> \<and> d = ''/srv''
    | _ \<Rightarrow> False)" by code_simp
  then obtain st where s: "demo_session [1, 0, 0, 0, 1, 1] = Some (None, \<lparr>w_out = [2, 0, 0, 0, 1, 2], w_script = []\<rparr>, Some (''/srv'', st))"
    by (auto split: option.splits prod.splits)
  from helper_authenticated [OF this [unfolded demo_session_def]] s show ?thesis by (auto simp: demo_opts_def)
qed

text \<open>
  C36. Every message is answered by data blocks, none of them empty and only for a file that is read, and then by
  exactly one reply that is not data: client and helper never get out of step.
\<close>
theorem helper_one_final_reply:
  "\<exists>bs f. fst (helper_handle J env B typ p st) = map (\<lambda>b. (MsgReadData, Inr b)) bs @ [f] \<and> fst f \<noteq> MsgReadData \<and>
     [] \<notin> set bs \<and> (bs = [] \<or> typ = MsgOpenRead)"
proof (cases "typ = MsgOpenRead")
  case True
  have "\<exists>bs f. fst (helper_read J env B rel st) = map (\<lambda>b. (MsgReadData, Inr b)) bs @ [f] \<and> fst f \<noteq> MsgReadData \<and> [] \<notin> set bs" for rel
  proof (cases "tr_open B rel (hs_store st)")
    case (Pair o' t)
    show ?thesis
    proof (cases o')
      case (Inl e)
      with Pair show ?thesis by (intro exI [of _ "[]"]) (simp add: helper_read_def)
    next
      case (Inr r)
      obtain bs e where b: "read_blocks (hv_ctx env) 0 r = (bs, e)" by force
      with Pair Inr read_blocks_nonempty [OF b] show ?thesis
        by (intro exI [of _ bs]) (auto simp: helper_read_def split: option.split)
    qed
  qed
  moreover have "fst (writeErr J e) \<noteq> MsgReadData" for e by simp
  ultimately show ?thesis
    using True by (cases "hd_path J p") (auto simp: helper_handle_def msg_defs intro!: exI [of _ "[]"])
next
  case False
  have "one_final (fst (helper_handle J env B typ p st))" by (rule handle_final [OF False])
  then show ?thesis unfolding one_final_def by (auto intro!: exI [of _ "[]"])
qed

text \<open>
  C37. In a session in which every path that the client asks to write or to remove is one the backend leaves to its users
  (not its staging area or another name it reserves), a file that none of the messages asks for keeps its content, whatever else
  they hold, valid or not, and also when the session ends in the middle of a write. Nothing is said of a client that asks for a reserved path.
\<close>
theorem helper_confined:
  assumes "detached_store B cnt nm usr opn H"
    and "RunRemoteHelper sha J open_root env_root opts rounds r w reg = Some (e, w', Some (dir, st))"
    and "open_root dir = Inr (B, t)" and "ReadMsg r = (m, r1)"
    and "\<forall>m \<in> set (received rounds r1). \<forall>rel. asks_for J m rel \<longrightarrow> usr (nm rel) \<and> nm rel \<noteq> k"
  shows "cnt (hs_store st) k = cnt t k"
proof -
  obtain mt p where mt: "m = Inr (mt, p)"
    using assms(2,4) by (cases m) (auto simp: RunRemoteHelper_def)
  obtain rs B' t' where h: "helper_hello sha J open_root env_root opts mt p = (rs, Inr (dir, B', t'))"
    using assms(2,4) mt by (auto simp: RunRemoteHelper_def Let_def split: prod.splits sum.splits option.splits)
  have "open_root dir = Inr (B', t')" using h by (auto simp: helper_hello_def split: if_splits sum.splits prod.splits)
  with assms(3) have bt: "B' = B" "t' = t" by auto
  let ?st = "\<lparr>hs_session = None, hs_store = t, hs_reg = reg\<rparr>"
  obtain w1 e1 where s: "send_replies w rs = (w1, e1)" by force
  show ?thesis
  proof (cases e1)
    case (Some y)
    with assms(2,4) mt h bt s show ?thesis by (auto simp: RunRemoteHelper_def)
  next
    case None
    with assms(2,4) mt h bt s obtain st2 where l: "helper_loop J B rounds r1 w1 ?st = Some (e, w', st2)" "st = end_session B st2"
      by (auto simp: RunRemoteHelper_def split: option.splits)
    have "session_in opn (\<lambda>j. usr j \<and> j \<noteq> k) ?st" by simp
    from detached_store.loop_keeps [OF assms(1) l(1) this assms(5)] detached_store.end_quiet [OF assms(1), of st2] l(2)
    show ?thesis by simp
  qed
qed

theorem helper_confined_witness:
  "\<exists>e w dir st. demo_session [1, 0, 0, 0, 1, 1, 9, 0, 0, 0, 1, 7] = Some (e, w, Some (dir, st)) \<and>
     s3_cnt demo_s3 (hs_store st) (s3_key demo_s3 ''g'') = s3_cnt demo_s3 demo_mem (s3_key demo_s3 ''g'')"
proof -
  let ?r = "[Rd [1, 0, 0, 0, 1, 1, 9, 0, 0, 0, 1, 7] None]" and ?rounds = "[(None, calm_env), (None, calm_env)] :: (goerr option \<times> helper_env) list"
  have "(case demo_session [1, 0, 0, 0, 1, 1, 9, 0, 0, 0, 1, 7] of Some (e, w, Some (d, st)) \<Rightarrow> True | _ \<Rightarrow> False)" by code_simp
  then obtain e w dir st where s: "demo_session [1, 0, 0, 0, 1, 1, 9, 0, 0, 0, 1, 7] = Some (e, w, Some (dir, st))"
    by (auto split: option.splits)
  have rd: "ReadMsg ?r = (Inr (MsgHello, [1]), [Rd [9, 0, 0, 0, 1, 7] None])"
    "received ?rounds [Rd [9, 0, 0, 0, 1, 7] None] = [(MsgBeginWrite, [7])]" by code_simp+
  have o': "open_root = demo_open \<Longrightarrow> open_root dir = Inr (demo_backend, demo_mem)" for open_root by (simp add: demo_open_def)
  have u: "s3_usr demo_s3 (s3_key demo_s3 ''f'')" "s3_key demo_s3 ''f'' \<noteq> s3_key demo_s3 ''g''" by code_simp+
  have "\<forall>m \<in> set [(MsgBeginWrite, [7])]. \<forall>rel. asks_for demo_hj m rel \<longrightarrow>
      s3_usr demo_s3 (s3_key demo_s3 rel) \<and> s3_key demo_s3 rel \<noteq> s3_key demo_s3 ''g''"
    using u by (auto simp: asks_for_def demo_hj_def msg_defs)
  from helper_confined [OF demo_detached s [unfolded demo_session_def] o' [OF refl] rd(1), unfolded rd(2), OF this] s
  show ?thesis by blast
qed

text \<open>
  C38. Copying to a remote destination, over QUIC or over ssh, on a connection that may break at any byte of any request
  or reply: no other file of the remote store changes, and when the attempt reports success the remote store holds,
  under the name that JSON makes of the path, content with the digest of the source.
\<close>
theorem remote_copy_verified:
  assumes "served_store B cnt nm usr opn (el_hash lib) C J via" and "readable_store (es_src E) cntS nmS usrS ofS (el_hash lib)"
    and "es_dst E = client_backend c C J B \<or> es_dst E = ssh_backend c C J B" and "unat (cdc_avg a) < 2 ^ 30"
    and "\<not> mode_is_dir (fm_mode meta)" and "\<not> mode_is_symlink (fm_mode meta)"
    and "usrS (nmS (fm_rel meta))" and "usr (nm (via (fm_rel meta)))"
    and "tryTransfer cfg lib a E meta st = Some (r, st')"
  shows "(\<forall>k. k \<noteq> nm (via (fm_rel meta)) \<longrightarrow>
      cnt (hs_store (rm_peer (en_dst st'))) k = cnt (hs_store (rm_peer (en_dst st))) k) \<and>
    (tx_status r = SOk \<longrightarrow>
      (\<exists>b x. cntS (en_src st) (nmS (fm_rel meta)) = Some b \<and>
         cnt (hs_store (rm_peer (en_dst st'))) (nm (via (fm_rel meta))) = Some x \<and> el_hash lib x = el_hash lib b))"
proof -
  have "store (es_dst E) (served_store.rcnt cnt) (\<lambda>rel. nm (via rel)) usr (served_store.ropen opn) (el_hash lib)"
    using assms(3) served_store.remote_stores [OF assms(1)] by auto
  then have "transfer_stores E lib cntS nmS usrS ofS (served_store.rcnt cnt) (\<lambda>rel. nm (via rel)) usr (served_store.ropen opn)"
    using assms(2) by (intro transfer_stores.intro)
  from transfer_stores.transfer_effect [OF this assms(4-9)] show ?thesis
    by (fastforce simp: served_store.rcnt_def [OF assms(1)])
qed

definition demo_far :: "(memory s3_world, s3_session, (memory s3_world, s3_session) remote, client_write) endpoints" where
  "demo_far = \<lparr>es_src = demo_backend, es_dst = client_backend demo_client demo_cj demo_hj demo_backend, es_src_link = None, es_dst_link = None,
     es_dst_chmod = None\<rparr>"

definition demo_far_engine :: "(memory s3_world, (memory s3_world, s3_session) remote) engine" where
  "demo_far_engine = \<lparr>en_src = demo_mem, en_dst = demo_remote\<lparr>rm_peer := demo_peer\<lparr>hs_store := demo_dst\<rparr>\<rparr>, en_journal = None, en_index = None\<rparr>"

lemma demo_far_try: "(case tryTransfer demo_cfg demo_el demo_att demo_far demo_meta demo_far_engine of Some (r, st) \<Rightarrow> tx_status r = SOk | None \<Rightarrow> False)"
  by code_simp

theorem remote_copy_verified_witness:
  "\<exists>r st'. tryTransfer demo_cfg demo_el demo_att demo_far demo_meta demo_far_engine = Some (r, st') \<and>
     s3_cnt demo_s3 (hs_store (rm_peer (en_dst st'))) (s3_key demo_s3 ''f'') = Some [9] \<and>
     s3_cnt demo_s3 (hs_store (rm_peer (en_dst st'))) (s3_key demo_s3 ''g'') = s3_cnt demo_s3 demo_dst (s3_key demo_s3 ''g'')"
proof -
  obtain r st' where t: "tryTransfer demo_cfg demo_el demo_att demo_far demo_meta demo_far_engine = Some (r, st')" "tx_status r = SOk"
    using demo_far_try by (auto split: option.splits)
  have m: "unat (cdc_avg demo_att) < 2 ^ 30" "\<not> mode_is_dir (fm_mode demo_meta)" "\<not> mode_is_symlink (fm_mode demo_meta)"
    by (simp_all add: demo_att_def cdc_avg_def demo_meta_def mode_is_dir_def mode_is_symlink_def)
  have u: "s3_usr demo_s3 (s3_key demo_s3 (fm_rel demo_meta))" using relay_demo_paths(2) by (simp add: demo_meta_def)
  have g: "s3_key demo_s3 ''g'' \<noteq> s3_key demo_s3 ''f''" "s3_cnt demo_s3 demo_mem (s3_key demo_s3 ''f'') = Some [9]" by code_simp+
  have h: "el_hash demo_el = (\<lambda>b. b)" by (simp add: demo_el_def)
  have d: "es_dst demo_far = client_backend demo_client demo_cj demo_hj demo_backend" "es_src demo_far = demo_backend"
    by (simp_all add: demo_far_def)
  from remote_copy_verified [OF demo_served [folded h] demo_store [folded h d(2)] disjI1 [OF d(1)] m u u t(1)] t g show ?thesis
    by (auto simp: demo_meta_def demo_far_engine_def demo_el_def)
qed

text \<open>
  C39. What a remote client has read to its end, on a connection that is still up then, is the file as the remote store
  holds it.
\<close>
theorem remote_read_sound:
  assumes "served_store B cnt nm usr opn H C J via" and "readable_store B cnt nm usr opn H" and "usr (nm (via rel))"
    and "Client_OpenRead C J B rel R = (Inr x, R')" and "rm_down R' = None" and "rd_ok x"
  shows "cnt (hs_store (rm_peer R)) (nm (via rel)) = Some (rd_content x)"
proof -
  from served_store.open_up [OF assms(1,4-6)] obtain rr t' where
    o': "tr_open B (via rel) (hs_store (rm_peer R)) = (Inr rr, t')" "rd_content x = rd_content rr" by blast
  from readable_store.open_reads [OF assms(2) o'(1) assms(3) readable_store.open_ok [OF assms(2) o'(1)]] o'(2) show ?thesis by simp
qed

theorem remote_read_sound_witness:
  "\<exists>x R'. Client_OpenRead demo_cj demo_hj demo_backend ''f'' demo_remote = (Inr x, R') \<and> rd_content x = [9] \<and>
     s3_cnt demo_s3 demo_mem (s3_key demo_s3 ''f'') = Some (rd_content x)"
proof -
  have "(case Client_OpenRead demo_cj demo_hj demo_backend ''f'' demo_remote of (Inr x, R') \<Rightarrow> x = [Rd [9] None] \<and> rm_down R' = None | _ \<Rightarrow> False)"
    by code_simp
  then obtain R' where o': "Client_OpenRead demo_cj demo_hj demo_backend ''f'' demo_remote = (Inr [Rd [9] None], R')" "rm_down R' = None"
    by (auto split: prod.splits sum.splits)
  have "s3_cnt demo_s3 (hs_store (rm_peer demo_remote)) (s3_key demo_s3 ''f'') = Some (rd_content [Rd [9] None])"
    by (rule remote_read_sound [OF demo_served demo_store relay_demo_paths(2) o']) simp
  with o'(1) show ?thesis by (simp add: demo_remote_def demo_peer_def)
qed

text \<open>
  C40. A connection that is closed between two frames of a file is taken for the end of the file: the reader delivers the
  blocks so far and no error, although the reply that ends a file never came.
\<close>
theorem remote_read_cut:
  assumes "rd_ok r" and "rd_content r = concat (map frame (map (Pair MsgReadData) bs))" and "\<forall>b \<in> set bs. length b \<le> maxMessageBytes"
  shows "read_all (locked_reads C r) = (concat bs, None) \<and> read_all (remote_reads C r) = (concat bs, None)"
  using locked_reads_cut [OF assms] remote_reads_cut [OF assms] rd_blocks_all [of bs] by simp_all

theorem remote_read_cut_witness:
  "read_all (locked_reads demo_cj [Rd [8, 0, 0, 0, 2, 7, 7] None]) = ([7, 7], None)"
proof -
  have "frame (MsgReadData, [7, 7]) = [8, 0, 0, 0, 2, 7, 7]" by code_simp
  then show ?thesis
    using remote_read_cut [of "[Rd [8, 0, 0, 0, 2, 7, 7] None]" "[[7, 7]]" demo_cj] by (simp add: maxMessageBytes_def)
qed

text \<open>
  A write session holds the mutex of its client exactly as long as it is open: any other call would wait until the
  commit succeeds or the session is aborted, and an abort always gives the mutex back.
\<close>
theorem session_holds_lock:
  assumes "Client_BeginWrite C J B rel n R = (Inr w, R1)" and "run_ops (Client_step c C J B) as (w, R1) = ((w', R'), es)"
  shows "rm_locked R' = (\<not> cw_committed w') \<and> (SAbort \<in> set as \<longrightarrow> \<not> rm_locked R') \<and>
    (rm_locked R' \<longrightarrow> Client_Stat C J B p R' = (Inl blocks, R') \<and> Client_OpenRead C J B p R' = (Inl blocks, R') \<and>
      Client_BeginWrite C J B p m R' = (Inl blocks, R'))"
  using holds_run [OF assms(2) holds_begin [OF assms(1)]] aborted_run [OF assms(2)]
  by (auto simp: holds_def Client_Stat_def Client_OpenRead_def Client_BeginWrite_def locked_call_def)

theorem session_holds_lock_witness:
  "\<exists>w R1 R'. Client_BeginWrite demo_cj demo_hj demo_backend ''f'' 1 demo_remote = (Inr w, R1) \<and> rm_locked R1 \<and>
     Client_Stat demo_cj demo_hj demo_backend ''f'' R1 = (Inl blocks, R1) \<and>
     snd (fst (Client_step demo_client demo_cj demo_hj demo_backend SAbort (w, R1))) = R' \<and> \<not> rm_locked R'"
proof -
  have "(case Client_BeginWrite demo_cj demo_hj demo_backend ''f'' 1 demo_remote of (Inr w, R1) \<Rightarrow> \<not> cw_committed w | _ \<Rightarrow> False)" by code_simp
  then obtain w R1 where b: "Client_BeginWrite demo_cj demo_hj demo_backend ''f'' 1 demo_remote = (Inr w, R1)" "\<not> cw_committed w"
    by (auto split: prod.splits sum.splits)
  obtain w' R' e where s: "Client_step demo_client demo_cj demo_hj demo_backend SAbort (w, R1) = ((w', R'), e)" by (metis prod.exhaust)
  have "run_ops (Client_step demo_client demo_cj demo_hj demo_backend) [SAbort] (w, R1) = ((w', R'), [e])" using s by simp
  note f = session_holds_lock [OF b(1) this, of "''f''" 1]
  have "run_ops (Client_step demo_client demo_cj demo_hj demo_backend) [] (w, R1) = ((w, R1), [])" by simp
  note o' = session_holds_lock [OF b(1) this, of "''f''" 1]
  from f o' b s show ?thesis by auto
qed

end
