(* ===== verification/Nfs.thy ===== *)
theory Nfs
  imports Transport Endpoint "HOL-Library.AList"
begin

text \<open>
  The NFS backend (\<open>internal/transport/nfs/nfs.go\<close>, \<open>rename.go\<close>) over the calls of the NFS client library,
  which is code outside the repository: every operation takes them as a record of functions. A file
  handle of the protocol is a text, an open file a number. The outcomes of \<open>ctx.Err()\<close> are a script in
  the state, so that a job may be cancelled between any two calls.
\<close>

section \<open>The client library\<close>

record nfs_attr =
  na_size :: int
  na_mod :: int

text \<open>A directory entry: its name, whether it is a directory, its size and the seconds of its modification time.\<close>

record nfs_entry =
  ne_name :: string
  ne_dir :: bool
  ne_size :: u64
  ne_secs :: u32

text \<open>
  A mounted export. \<open>nt_stream\<close> is what the reads of an open file deliver from where it stands.
  \<open>nt_rename\<close> is \<open>Call\<close> with the arguments of RENAME: the reply, and the status word read off it.
\<close>

record 'x nfs_api =
  nt_readdir :: "string \<Rightarrow> 'x \<Rightarrow> nfs_entry list res \<times> 'x"
  nt_lookup :: "string \<Rightarrow> 'x \<Rightarrow> (nfs_attr \<times> string) res \<times> 'x"
  nt_open :: "string \<Rightarrow> 'x \<Rightarrow> nat res \<times> 'x"
  nt_create :: "string \<Rightarrow> 'x \<Rightarrow> nat res \<times> 'x"
  nt_seek :: "nat \<Rightarrow> int \<Rightarrow> 'x \<Rightarrow> goerr option \<times> 'x"
  nt_write :: "nat \<Rightarrow> bytes \<Rightarrow> 'x \<Rightarrow> goerr option \<times> 'x"
  nt_stream :: "nat \<Rightarrow> 'x \<Rightarrow> reader \<times> 'x"
  nt_close :: "nat \<Rightarrow> 'x \<Rightarrow> goerr option \<times> 'x"
  nt_remove :: "string \<Rightarrow> 'x \<Rightarrow> goerr option \<times> 'x"
  nt_mkdir :: "string \<Rightarrow> 'x \<Rightarrow> goerr option \<times> 'x"
  nt_rename :: "string \<times> string \<Rightarrow> string \<times> string \<Rightarrow> 'x \<Rightarrow> u32 res res \<times> 'x"
  nt_status :: "u32 \<Rightarrow> goerr option"

record 'x nfs_mount =
  nm_dial :: "string \<Rightarrow> 'x \<Rightarrow> goerr option \<times> 'x"
  nm_mount :: "string \<Rightarrow> 'x \<Rightarrow> 'x nfs_api res \<times> 'x"
  nm_unmount :: "'x \<Rightarrow> 'x"
  nm_close :: "'x \<Rightarrow> goerr option \<times> 'x"

record 'x nfs_transport =
  nf_ep :: endpoint
  nf_target :: "'x nfs_api"
  nf_export :: string
  nf_base :: string

record 'x nfs_world =
  nx_srv :: 'x
  nx_ctx :: "goerr option list"

definition nfs_ctx :: "'x nfs_world \<Rightarrow> goerr option \<times> 'x nfs_world" where
  "nfs_ctx w = (case nx_ctx w of [] \<Rightarrow> (None, w) | c # cs \<Rightarrow> (c, w\<lparr>nx_ctx := cs\<rparr>))"

definition nfs_call :: "('x \<Rightarrow> 'r \<times> 'x) \<Rightarrow> 'x nfs_world \<Rightarrow> 'r \<times> 'x nfs_world" where
  "nfs_call f w = (case f (nx_srv w) of (r, x) \<Rightarrow> (r, w\<lparr>nx_srv := x\<rparr>))"

section \<open>Exports and the base directory\<close>

definition splitExportCandidates :: "string \<Rightarrow> string list" where
  "splitExportCandidates pathStr =
     (let full = trim_both CHR ''/'' pathStr; parts = split_on CHR ''/'' full in
      if full = '''' then []
      else map (\<lambda>i. CHR ''/'' # join_with ''/'' (take i parts)) (rev [1..<Suc (length parts)]))"

definition baseAfterExport :: "string \<Rightarrow> string \<Rightarrow> string" where
  "baseAfterExport pathStr export0 =
     (let full = CHR ''/'' # trim_both CHR ''/'' pathStr;
          export = Clean (CHR ''/'' # trim_both CHR ''/'' export0) in
      if full = export then ''''
      else if \<not> HasPrefix full (export @ ''/'') then ''''
      else TrimPrefix full (export @ ''/''))"

text \<open>\<open>mkdirMount\<close>: each prefix of the path, from the outermost; a directory that appears meanwhile is as good.\<close>

fun mkdir_parts :: "'x nfs_api \<Rightarrow> string \<Rightarrow> string list \<Rightarrow> 'x nfs_world \<Rightarrow> goerr option \<times> 'x nfs_world" where
  "mkdir_parts T cur [] w = (None, w)"
| "mkdir_parts T cur (p # ps) w =
     (if p = '''' then mkdir_parts T cur ps w
      else
        let cur' = (if cur = '''' then p else cur @ ''/'' @ p) in
        (case nfs_call (nt_lookup T cur') w of
           (Inr _, w1) \<Rightarrow> mkdir_parts T cur' ps w1
         | (Inl _, w1) \<Rightarrow>
             (case nfs_call (nt_mkdir T cur') w1 of
                (None, w2) \<Rightarrow> mkdir_parts T cur' ps w2
              | (Some e, w2) \<Rightarrow>
                  (case nfs_call (nt_lookup T cur') w2 of
                     (Inl _, w3) \<Rightarrow> (Some e, w3)
                   | (Inr _, w3) \<Rightarrow> mkdir_parts T cur' ps w3))))"

definition mkdirMount :: "'x nfs_api \<Rightarrow> string \<Rightarrow> 'x nfs_world \<Rightarrow> goerr option \<times> 'x nfs_world" where
  "mkdirMount T mountRel w =
     (if mountRel = '''' \<or> mountRel = ''.'' then (None, w)
      else mkdir_parts T '''' (split_on CHR ''/'' mountRel) w)"

definition ensureBase :: "'x nfs_transport \<Rightarrow> 'x nfs_world \<Rightarrow> goerr option \<times> 'x nfs_world" where
  "ensureBase t w = (if nf_base t = '''' then (None, w) else mkdirMount (nf_target t) (nf_base t) w)"

definition nfs_close :: "'x nfs_mount \<Rightarrow> 'x nfs_world \<Rightarrow> goerr option \<times> 'x nfs_world" where
  "nfs_close M w = nfs_call (nm_close M) (w\<lparr>nx_srv := nm_unmount M (nx_srv w)\<rparr>)"

text \<open>\<open>New\<close> tries the candidates from the longest; \<open>lastErr\<close> is the error of the one tried before.\<close>

fun try_exports ::
  "'x nfs_mount \<Rightarrow> string list \<Rightarrow> goerr option \<Rightarrow> 'x nfs_world
     \<Rightarrow> (goerr + goerr option + 'x nfs_api \<times> string) \<times> 'x nfs_world" where
  "try_exports M [] lastErr w = (Inr (Inl lastErr), w)"
| "try_exports M (c # cs) lastErr w =
     (case nfs_ctx w of
        (Some e, w1) \<Rightarrow> (Inl e, snd (nfs_call (nm_close M) w1))
      | (None, w1) \<Rightarrow>
          (case nfs_call (nm_mount M c) w1 of
             (Inl e, w2) \<Rightarrow> try_exports M cs (Some e) w2
           | (Inr T, w2) \<Rightarrow> (Inr (Inr (T, c)), w2)))"

text \<open>
  The numeric identity of the credentials, \<open>authUnixUID\<close> and \<open>authUnixGID\<close>: what \<open>Getuid\<close> or \<open>Getgid\<close> gives, and \<open>nobody\<close> where the system has none;
  on Windows it is always \<open>nobody\<close>.
\<close>

definition authUnixUID :: "int \<Rightarrow> u32" where
  "authUnixUID uid = (if uid < 0 then 65534 else word_of_int uid)"

definition authUnixGID :: "int \<Rightarrow> u32" where
  "authUnixGID gid = (if gid < 0 then 65534 else word_of_int gid)"

definition authUnix_windows :: u32 where "authUnix_windows = 65534"

text \<open>Nobody is taken for the superuser who is not.\<close>

lemma authUnixUID_root: "- (2 ^ 31) \<le> uid \<Longrightarrow> uid < 2 ^ 32 \<Longrightarrow> authUnixUID uid = 0 \<longleftrightarrow> uid = 0"
  by (auto simp: authUnixUID_def word_of_int_eq_0_iff dest: zdvd_imp_le)

definition nfs_New :: "'x nfs_mount \<Rightarrow> endpoint \<Rightarrow> 'x nfs_world \<Rightarrow> 'x nfs_transport res \<times> 'x nfs_world" where
  "nfs_New M ep w =
     (case nfs_ctx w of
        (Some e, w1) \<Rightarrow> (Inl e, w1)
      | (None, w1) \<Rightarrow>
          let candidates = splitExportCandidates (ep_path ep) in
          if ep_host ep = '''' then (Inl (Msg ''nfs: missing host''), w1)
          else if ep_port ep \<noteq> '''' \<and> ep_port ep \<noteq> ''2049''
          then (Inl (Msg ''nfs: custom port %q not supported (client uses portmapper on host)''), w1)
          else if candidates = [] then (Inl (Msg ''nfs: export path required (nfs://host/export[/subdir])''), w1)
          else (case nfs_call (nm_dial M (ep_host ep)) w1 of
                  (Some e, w2) \<Rightarrow> (Inl (Wrap ''nfs dial mount (experimental NFSv3/AUTH_SYS): %w'' e), w2)
                | (None, w2) \<Rightarrow>
                    (case try_exports M candidates None w2 of
                       (Inl e, w3) \<Rightarrow> (Inl e, w3)
                     | (Inr (Inl lastErr), w3) \<Rightarrow>
                         (Inl (Wrap ''nfs mount %q: %w''
                            (case lastErr of None \<Rightarrow> Msg ''no export matched'' | Some e \<Rightarrow> e)),
                          snd (nfs_call (nm_close M) w3))
                     | (Inr (Inr (T, export)), w3) \<Rightarrow>
                         let tr = \<lparr>nf_ep = ep, nf_target = T, nf_export = export,
                                   nf_base = baseAfterExport (ep_path ep) export\<rparr> in
                         (case ensureBase tr w3 of
                            (Some e, w4) \<Rightarrow> (Inl e, snd (nfs_close M w4))
                          | (None, w4) \<Rightarrow> (Inr tr, w4)))))"

definition nfs_caps :: caps where
  "nfs_caps = \<lparr>SupportsDelta = True, SupportsMultiplex = False, SupportsResume = True, SupportsReuseChunk = True\<rparr>"

definition nfs_root :: "'x nfs_transport \<Rightarrow> string" where
  "nfs_root t = ep_raw (nf_ep t)"

definition joinBase :: "'x nfs_transport \<Rightarrow> string \<Rightarrow> string res" where
  "joinBase t rel0 =
     (let rel1 = TrimPrefix (Clean (CHR ''/'' # rel0)) ''/''; rel = (if rel1 = ''.'' then '''' else rel1) in
      if Contains rel ''..'' then Inl (Msg ''nfs: invalid path %q'')
      else if nf_base t = '''' then Inr rel
      else if rel = '''' then Inr (nf_base t)
      else Inr (nf_base t @ ''/'' @ rel))"

definition userRel :: "'x nfs_transport \<Rightarrow> string \<Rightarrow> string" where
  "userRel t mountRel =
     (if nf_base t = '''' then mountRel
      else if mountRel = nf_base t then ''''
      else if HasPrefix mountRel (nf_base t @ ''/'') then TrimPrefix mountRel (nf_base t @ ''/'')
      else mountRel)"

section \<open>Listing and single files\<close>

fun nfs_matchExclude :: "string \<Rightarrow> string list \<Rightarrow> bool" where
  "nfs_matchExclude rel [] = False"
| "nfs_matchExclude rel (p # ps) = (glob_match p rel \<or> nfs_matchExclude rel ps)"

text \<open>
  What \<open>walkDir\<close> does with one entry: nothing, descend, or list it. The recursion is a list of what is
  left to do, a directory to read or an entry of one, as a server may show directories without end.
\<close>

datatype nfs_visit = NSkip | NDescend string | NFile file_meta

definition nfs_visit :: "'x nfs_transport \<Rightarrow> string list \<Rightarrow> string \<Rightarrow> nfs_entry \<Rightarrow> nfs_visit" where
  "nfs_visit t exclude dir e =
     (let name = ne_name e; mountRel = (if dir \<noteq> '''' then dir @ ''/'' @ name else name); rel = userRel t mountRel in
      if name = ''.'' \<or> name = ''..'' \<or> name = ''.quiksync.tmp'' then NSkip
      else if rel = '''' then NSkip
      else if HasPrefix rel ''.quiksync/'' \<or> HasPrefix (BasePath rel) ''.quiksync'' then NSkip
      else if nfs_matchExclude rel exclude then NSkip
      else if ne_dir e then NDescend mountRel
      else NFile \<lparr>fm_rel = rel, fm_size = i64_of_u64 (ne_size e), fm_mod = uint (ne_secs e) * 1000000000, fm_mode = 420\<rparr>)"

datatype nfs_work = WDir string | WEntry string nfs_entry

partial_function (option) nfs_walk_loop ::
  "'x nfs_transport \<Rightarrow> string list \<Rightarrow> nfs_work list \<Rightarrow> file_meta list \<Rightarrow> 'x nfs_world
     \<Rightarrow> (file_meta list \<times> goerr option \<times> 'x nfs_world) option" where
  "nfs_walk_loop t exclude work out w =
     (case work of
        [] \<Rightarrow> Some (out, None, w)
      | WDir d # ws \<Rightarrow>
          (case nfs_call (nt_readdir (nf_target t) d) w of
             (Inl e, w1) \<Rightarrow> Some (out, Some e, w1)
           | (Inr es, w1) \<Rightarrow> nfs_walk_loop t exclude (map (WEntry d) es @ ws) out w1)
      | WEntry d e # ws \<Rightarrow>
          (case nfs_visit t exclude d e of
             NSkip \<Rightarrow> nfs_walk_loop t exclude ws out w
           | NDescend p \<Rightarrow> nfs_walk_loop t exclude (WDir p # ws) out w
           | NFile m \<Rightarrow> nfs_walk_loop t exclude ws (out @ [m]) w))"

declare nfs_walk_loop.simps [code]

definition nfs_walk ::
  "'x nfs_transport \<Rightarrow> string list \<Rightarrow> 'x nfs_world \<Rightarrow> (file_meta list \<times> goerr option \<times> 'x nfs_world) option" where
  "nfs_walk t exclude w =
     (case nfs_ctx w of
        (Some e, w1) \<Rightarrow> Some ([], Some e, w1)
      | (None, w1) \<Rightarrow> nfs_walk_loop t exclude [WDir (nf_base t)] [] w1)"

text \<open>The common beginning of the operations: the context, then the path inside the mount.\<close>

definition nfs_at :: "'x nfs_transport \<Rightarrow> string \<Rightarrow> 'x nfs_world \<Rightarrow> string res \<times> 'x nfs_world" where
  "nfs_at t rel w = (case nfs_ctx w of (Some e, w1) \<Rightarrow> (Inl e, w1) | (None, w1) \<Rightarrow> (joinBase t rel, w1))"

definition nfs_stat :: "'x nfs_transport \<Rightarrow> string \<Rightarrow> 'x nfs_world \<Rightarrow> file_meta res \<times> 'x nfs_world" where
  "nfs_stat t rel w =
     (case nfs_at t rel w of
        (Inl e, w1) \<Rightarrow> (Inl e, w1)
      | (Inr mountRel, w1) \<Rightarrow>
          (case nfs_call (nt_lookup (nf_target t) mountRel) w1 of
             (Inl e, w2) \<Rightarrow> (Inl e, w2)
           | (Inr (fi, _), w2) \<Rightarrow> (Inr \<lparr>fm_rel = rel, fm_size = na_size fi, fm_mod = na_mod fi, fm_mode = 420\<rparr>, w2)))"

definition nfs_open :: "'x nfs_transport \<Rightarrow> string \<Rightarrow> 'x nfs_world \<Rightarrow> nat res \<times> 'x nfs_world" where
  "nfs_open t rel w =
     (case nfs_at t rel w of
        (Inl e, w1) \<Rightarrow> (Inl e, w1)
      | (Inr mountRel, w1) \<Rightarrow> nfs_call (nt_open (nf_target t) mountRel) w1)"

definition nfs_remove :: "'x nfs_transport \<Rightarrow> string \<Rightarrow> 'x nfs_world \<Rightarrow> goerr option \<times> 'x nfs_world" where
  "nfs_remove t rel w =
     (case nfs_at t rel w of
        (Inl e, w1) \<Rightarrow> (Some e, w1)
      | (Inr mountRel, w1) \<Rightarrow> nfs_call (nt_remove (nf_target t) mountRel) w1)"

definition nfs_MkdirAll :: "'x nfs_transport \<Rightarrow> string \<Rightarrow> 'x nfs_world \<Rightarrow> goerr option \<times> 'x nfs_world" where
  "nfs_MkdirAll t rel w =
     (case nfs_at t rel w of
        (Inl e, w1) \<Rightarrow> (Some e, w1)
      | (Inr mountRel, w1) \<Rightarrow> mkdirMount (nf_target t) mountRel w1)"

text \<open>\<open>GetSignature\<close> chunks with the default options; a file that cannot be opened has the empty signature.\<close>

definition nfs_signature ::
  "(bytes \<Rightarrow> digest) \<Rightarrow> 'x nfs_transport \<Rightarrow> string \<Rightarrow> 'x nfs_world \<Rightarrow> signature res option \<times> 'x nfs_world" where
  "nfs_signature H t rel w =
     (case nfs_open t rel w of
        (Inl e, w1) \<Rightarrow> (Some (Inr empty_signature), w1)
      | (Inr f, w1) \<Rightarrow>
          (case nfs_stat t rel w1 of
             (Inl e, w2) \<Rightarrow> (Some (Inl e), snd (nfs_call (nt_close (nf_target t) f) w2))
           | (Inr st, w2) \<Rightarrow>
               (case nfs_call (nt_stream (nf_target t) f) w2 of (r, w3) \<Rightarrow>
                  (ChunkReader H r (fm_size st) \<lparr>o_avg = 0, o_min = 0, o_max = 0, o_keep = False\<rparr>,
                   snd (nfs_call (nt_close (nf_target t) f) w3)))))"

section \<open>RENAME\<close>

definition splitNFSPath :: "string \<Rightarrow> string \<times> string" where
  "splitNFSPath p0 =
     (let p = TrimPrefix (Clean (CHR ''/'' # trim_both CHR ''/'' p0)) ''/''; dir = DirPath p in
      if p = '''' \<or> p = ''.'' then ('''', '''')
      else (if dir = ''.'' then '''' else dir, BasePath p))"

definition nfs_rename :: "'x nfs_api \<Rightarrow> string \<Rightarrow> string \<Rightarrow> 'x nfs_world \<Rightarrow> goerr option \<times> 'x nfs_world" where
  "nfs_rename T fromRel toRel w =
     (let (fromDir, fromName) = splitNFSPath fromRel; (toDir, toName) = splitNFSPath toRel in
      if fromName = '''' \<or> toName = '''' \<or> fromName = ''.'' \<or> toName = ''.''
      then (Some (Msg ''nfs rename: invalid paths %q -> %q''), w)
      else (case nfs_call (nt_lookup T fromDir) w of
              (Inl e, w1) \<Rightarrow> (Some (Wrap ''nfs rename lookup from dir: %w'' e), w1)
            | (Inr (_, fromFH), w1) \<Rightarrow>
                (case nfs_call (nt_lookup T toDir) w1 of
                   (Inl e, w2) \<Rightarrow> (Some (Wrap ''nfs rename lookup to dir: %w'' e), w2)
                 | (Inr (_, toFH), w2) \<Rightarrow>
                     (case nfs_call (nt_rename T (fromFH, fromName) (toFH, toName)) w2 of
                        (Inl e, w3) \<Rightarrow> (Some (Wrap ''nfs rename: %w'' e), w3)
                      | (Inr (Inl e), w3) \<Rightarrow> (Some e, w3)
                      | (Inr (Inr status), w3) \<Rightarrow> (nt_status T status, w3)))))"

section \<open>The write session\<close>

record nfs_session =
  nw_userRel :: string
  nw_mountRel :: string
  nw_tmpRel :: string
  nw_staging :: "nat option"
  nw_old :: "nat option"
  nw_oldSize :: int
  nw_oldMod :: int
  nw_size :: int
  nw_committed :: bool

text \<open>\<open>rnd\<close> is the outcome of \<open>rand.Read\<close>.\<close>

definition uniquePartialName :: "bytes res \<Rightarrow> string res" where
  "uniquePartialName rnd = (case rnd of Inl e \<Rightarrow> Inl e | Inr b \<Rightarrow> Inr (digest_string b @ ''.partial''))"

text \<open>The file that is there already, to reuse chunks of: it is opened when it can be looked up and opened.\<close>

definition nfs_old :: "'x nfs_transport \<Rightarrow> nfs_session \<Rightarrow> 'x nfs_world \<Rightarrow> nfs_session \<times> 'x nfs_world" where
  "nfs_old t ws w =
     (case nfs_stat t (nw_userRel ws) w of
        (Inl e, w1) \<Rightarrow> (ws, w1)
      | (Inr st, w1) \<Rightarrow>
          (case nfs_call (nt_open (nf_target t) (nw_mountRel ws)) w1 of
             (Inl e, w2) \<Rightarrow> (ws, w2)
           | (Inr old, w2) \<Rightarrow> (ws\<lparr>nw_old := Some old, nw_oldSize := fm_size st, nw_oldMod := fm_mod st\<rparr>, w2)))"

definition nfs_begin ::
  "'x nfs_transport \<Rightarrow> bytes res \<Rightarrow> string \<Rightarrow> int \<Rightarrow> 'x nfs_world \<Rightarrow> nfs_session res \<times> 'x nfs_world" where
  "nfs_begin t rnd rel sz w =
     (case nfs_at t rel w of
        (Inl e, w1) \<Rightarrow> (Inl e, w1)
      | (Inr mountRel, w1) \<Rightarrow>
          (case (let dir = DirPath rel in if dir \<noteq> ''.'' \<and> dir \<noteq> '''' then nfs_MkdirAll t dir w1 else (None, w1)) of
             (Some e, w2) \<Rightarrow> (Inl e, w2)
           | (None, w2) \<Rightarrow>
               (case nfs_MkdirAll t ''.quiksync.tmp'' w2 of
                  (Some e, w3) \<Rightarrow> (Inl e, w3)
                | (None, w3) \<Rightarrow>
                    (case uniquePartialName rnd of
                       Inl e \<Rightarrow> (Inl e, w3)
                     | Inr name \<Rightarrow>
                         (case joinBase t (''.quiksync.tmp'' @ ''/'' @ name) of
                            Inl e \<Rightarrow> (Inl e, w3)
                          | Inr tmpRel \<Rightarrow>
                              (case nfs_call (nt_create (nf_target t) tmpRel) w3 of
                                 (Inl e, w4) \<Rightarrow> (Inl (Wrap ''nfs staging create: %w'' e), w4)
                               | (Inr staging, w4) \<Rightarrow>
                                   (case nfs_old t \<lparr>nw_userRel = rel, nw_mountRel = mountRel, nw_tmpRel = tmpRel,
                                        nw_staging = Some staging, nw_old = None, nw_oldSize = 0, nw_oldMod = 0,
                                        nw_size = sz, nw_committed = False\<rparr> w4 of
                                      (ws, w5) \<Rightarrow> (Inr ws, w5))))))))"

text \<open>\<open>Seek\<close> and \<open>Write\<close> on the staging file.\<close>

definition nfs_write_at :: "'x nfs_api \<Rightarrow> nat \<Rightarrow> u64 \<Rightarrow> bytes \<Rightarrow> 'x nfs_world \<Rightarrow> goerr option \<times> 'x nfs_world" where
  "nfs_write_at T f offset b w =
     (case nfs_call (nt_seek T f (i64_of_u64 offset)) w of
        (Some e, w1) \<Rightarrow> (Some e, w1)
      | (None, w1) \<Rightarrow> nfs_call (nt_write T f b) w1)"

definition nfs_WriteChunk ::
  "codec_lib \<Rightarrow> 'x nfs_transport \<Rightarrow> u64 \<Rightarrow> codec \<Rightarrow> int \<Rightarrow> bytes \<Rightarrow> nfs_session \<times> 'x nfs_world
     \<Rightarrow> (nfs_session \<times> 'x nfs_world) \<times> goerr option" where
  "nfs_WriteChunk L t offset cdc uncompressedLen data sw =
     (let (s, w) = sw in
      case nfs_ctx w of
        (Some e, w1) \<Rightarrow> ((s, w1), Some e)
      | (None, w1) \<Rightarrow>
          if nw_committed s then ((s, w1), Some (Msg ''write after commit''))
          else (case nw_staging s of
                  None \<Rightarrow> ((s, w1), Some (Msg ''write: no staging file''))
                | Some f \<Rightarrow>
                    (case Decode L cdc data uncompressedLen of
                       Inl e \<Rightarrow> ((s, w1), Some e)
                     | Inr raw \<Rightarrow>
                         (case ValidateWriteRange offset (int (length raw)) (nw_size s) of
                            Inl e \<Rightarrow> ((s, w1), Some e)
                          | Inr _ \<Rightarrow> (case nfs_write_at (nf_target t) f offset raw w1 of (e, w2) \<Rightarrow> ((s, w2), e))))))"

text \<open>
  A session that has dropped its staging file has dropped the old one too, so the last access is never
  to a missing file.
\<close>

definition nfs_ReuseChunk ::
  "(bytes \<Rightarrow> digest) \<Rightarrow> 'x nfs_transport \<Rightarrow> u64 \<Rightarrow> u64 \<Rightarrow> digest \<Rightarrow> int \<Rightarrow> nfs_session \<times> 'x nfs_world
     \<Rightarrow> (nfs_session \<times> 'x nfs_world) \<times> goerr option" where
  "nfs_ReuseChunk H t newOffset oldOffset dg len sw =
     (let (s, w) = sw; T = nf_target t in
      case nfs_ctx w of
        (Some e, w1) \<Rightarrow> ((s, w1), Some e)
      | (None, w1) \<Rightarrow>
          if nw_committed s then ((s, w1), Some (Msg ''reuse after commit''))
          else (case nw_old s of
                  None \<Rightarrow> ((s, w1), Some (Msg ''reuse: no existing file''))
                | Some old \<Rightarrow>
                    (case nfs_stat t (nw_userRel s) w1 of
                       (Inl e, w2) \<Rightarrow> ((s, w2), Some (Wrap ''reuse TOCTOU: %w'' e))
                     | (Inr st, w2) \<Rightarrow>
                         if fm_size st \<noteq> nw_oldSize s \<or> fm_mod st \<noteq> nw_oldMod s
                         then ((s, w2), Some (Msg ''reuse TOCTOU: dest changed''))
                         else (case ValidateReuseRange oldOffset len (nw_oldSize s) of
                                 Inl e \<Rightarrow> ((s, w2), Some e)
                               | Inr _ \<Rightarrow>
                                   (case ValidateWriteRange newOffset len (nw_size s) of
                                      Inl e \<Rightarrow> ((s, w2), Some e)
                                    | Inr _ \<Rightarrow>
                                        (case nfs_call (nt_seek T old (i64_of_u64 oldOffset)) w2 of
                                           (Some e, w3) \<Rightarrow> ((s, w3), Some e)
                                         | (None, w3) \<Rightarrow>
                                             (case nfs_call (nt_stream T old) w3 of
                                                (r, w4) \<Rightarrow>
                                                  (case read_full r (nat len) of
                                                     (piece, Some e, _) \<Rightarrow> ((s, w4), Some (Wrap ''reuse read: %w'' e))
                                                   | (piece, None, _) \<Rightarrow>
                                                       if H piece \<noteq> dg then ((s, w4), Some (Msg ''reuse digest mismatch''))
                                                       else (case nw_staging s of
                                                               None \<Rightarrow> ((s, w4), Some (Msg ''invalid argument''))
                                                             | Some f \<Rightarrow>
                                                                 (case nfs_write_at T f newOffset piece w4 of
                                                                    (e, w5) \<Rightarrow> ((s, w5), e)))))))))))"

definition close_old :: "'x nfs_api \<Rightarrow> nfs_session \<times> 'x nfs_world \<Rightarrow> nfs_session \<times> 'x nfs_world" where
  "close_old T sw =
     (let (s, w) = sw in
      case nw_old s of
        None \<Rightarrow> (s, w)
      | Some f \<Rightarrow> (s\<lparr>nw_old := None\<rparr>, snd (nfs_call (nt_close T f) w)))"

definition nfs_Commit ::
  "(bytes \<Rightarrow> digest) \<Rightarrow> 'x nfs_transport \<Rightarrow> digest \<Rightarrow> u32 \<Rightarrow> int option \<Rightarrow> nfs_session \<times> 'x nfs_world
     \<Rightarrow> (nfs_session \<times> 'x nfs_world) \<times> goerr option" where
  "nfs_Commit H t expected mode modTime sw =
     (let (s, w) = sw; T = nf_target t in
      case nfs_ctx w of
        (Some e, w1) \<Rightarrow> ((s, w1), Some e)
      | (None, w1) \<Rightarrow>
          if nw_committed s then ((s, w1), None)
          else (case nw_staging s of
                  None \<Rightarrow> ((s, w1), Some (Msg ''commit: no staging file''))
                | Some f \<Rightarrow>
                    (case nfs_call (nt_seek T f 0) w1 of
                       (Some e, w2) \<Rightarrow> ((s, w2), Some e)
                     | (None, w2) \<Rightarrow>
                         (case nfs_call (nt_stream T f) w2 of
                            (r, w3) \<Rightarrow>
                              (case HashFile H r of
                                 Inl e \<Rightarrow> ((s, w3), Some e)
                               | Inr (got, _) \<Rightarrow>
                                   if got \<noteq> expected then ((s, w3), Some (Msg ''digest mismatch: got %s want %s''))
                                   else (case nfs_call (nt_close T f) w3 of
                                           (Some e, w4) \<Rightarrow> ((s, w4), Some e)
                                         | (None, w4) \<Rightarrow>
                                             (case close_old T (s\<lparr>nw_staging := None\<rparr>, w4) of
                                                (s5, w5) \<Rightarrow>
                                                  (case nfs_rename T (nw_tmpRel s5) (nw_mountRel s5) w5 of
                                                     (Some e, w6) \<Rightarrow> ((s5, w6), Some e)
                                                   | (None, w6) \<Rightarrow> ((s5\<lparr>nw_committed := True\<rparr>, w6), None)))))))))"

definition nfs_Abort :: "'x nfs_transport \<Rightarrow> nfs_session \<times> 'x nfs_world \<Rightarrow> (nfs_session \<times> 'x nfs_world) \<times> goerr option" where
  "nfs_Abort t sw =
     (let (s, w) = sw; T = nf_target t in
      if nw_committed s then ((s, w), None)
      else
        let (s1, w1) = (case nw_staging s of
                          None \<Rightarrow> (s, w)
                        | Some f \<Rightarrow> (s\<lparr>nw_staging := None\<rparr>, snd (nfs_call (nt_close T f) w)));
            (s2, w2) = close_old T (s1, w1)
        in ((s2, snd (nfs_call (nt_remove T (nw_tmpRel s2)) w2)), None))"

definition nfs_step ::
  "(bytes \<Rightarrow> digest) \<Rightarrow> codec_lib \<Rightarrow> 'x nfs_transport \<Rightarrow> session_op \<Rightarrow> nfs_session \<times> 'x nfs_world
     \<Rightarrow> (nfs_session \<times> 'x nfs_world) \<times> goerr option" where
  "nfs_step H L t a sw =
     (case a of
        SWrite off cdc len data \<Rightarrow> nfs_WriteChunk L t off cdc len data sw
      | SReuse new old dg len \<Rightarrow> nfs_ReuseChunk H t new old dg len sw
      | SCommit d mode mt \<Rightarrow> nfs_Commit H t d mode mt sw
      | SAbort \<Rightarrow> nfs_Abort t sw)"

section \<open>Paths inside the mount\<close>

definition nfs_path :: "string \<Rightarrow> bool" where
  "nfs_path p \<longleftrightarrow> (\<exists>cs. names cs \<and> p = join_with ''/'' cs)"

definition sub_path :: "string \<Rightarrow> string \<Rightarrow> string" where
  "sub_path d n = (if d = '''' then n else d @ ''/'' @ n)"

lemma names_split: "names cs \<Longrightarrow> cs \<noteq> [] \<Longrightarrow> split_on CHR ''/'' (join_with ''/'' cs) = cs"
  by (intro split_join) (auto simp: names_def is_name_def)

lemma join_names_Nil [simp]: "names cs \<Longrightarrow> join_with ''/'' cs = '''' \<longleftrightarrow> cs = []"
  by (cases cs; cases "tl cs") (auto simp: is_name_def)

lemma join_names_hd: "names cs \<Longrightarrow> join_with ''/'' cs \<noteq> CHR ''/'' # s"
  by (cases cs; cases "tl cs"; cases "hd cs") (auto simp: is_name_def)

lemma Clean_slash: "names cs \<Longrightarrow> Clean (CHR ''/'' # join_with ''/'' cs) = CHR ''/'' # join_with ''/'' cs"
  using Clean_abs_of [of cs] by (simp add: abs_of_def)

lemma Clean_slash_path: "\<exists>cs. names cs \<and> Clean (CHR ''/'' # rel) = CHR ''/'' # join_with ''/'' cs"
  using Clean_abs [of "CHR ''/'' # rel"] by (auto simp: IsAbs_Cons abs_of_def)

lemma TrimPrefix_slash [simp]: "TrimPrefix (CHR ''/'' # s) ''/'' = s"
  by (simp add: TrimPrefix_def HasPrefix_def)

lemma trim_right_last: "s \<noteq> [] \<Longrightarrow> last s \<noteq> c \<Longrightarrow> trim_right c s = s"
  by (cases s rule: rev_cases) (auto simp: trim_right_def)

lemma is_name_last: "is_name n \<Longrightarrow> last n \<noteq> CHR ''/''"
  unfolding is_name_def by (metis last_in_set)

lemma join_snoc: "cs \<noteq> [] \<Longrightarrow> join_with sep (cs @ [n]) = join_with sep cs @ sep @ n"
  using join_with_append [of cs "[n]" sep] by simp

lemma trim_both_names:
  assumes "names cs"
  shows "trim_both CHR ''/'' (join_with ''/'' cs) = join_with ''/'' cs"
proof (cases cs rule: rev_cases)
  case (snoc ds n)
  have n: "n \<noteq> []" "last n \<noteq> CHR ''/''" using assms snoc is_name_last [of n] by (auto simp: is_name_def)
  let ?p = "join_with ''/'' cs"
  have "?p \<noteq> [] \<and> last ?p \<noteq> CHR ''/''" using n snoc by (cases "ds = []") (auto simp: join_snoc)
  moreover have "trim_left CHR ''/'' ?p = ?p"
    using join_names_hd [OF assms] by (cases ?p) (auto simp: trim_left_def)
  ultimately show ?thesis by (simp add: trim_both_def trim_right_last)
qed (simp add: trim_both_def trim_left_def trim_right_def)

lemma last_index_none: "c \<notin> set s \<Longrightarrow> last_index s c = None"
  by (induction s) auto

lemma last_index_append: "c \<notin> set t \<Longrightarrow> last_index (s @ c # t) c = Some (length s)"
  by (induction s) (auto simp: last_index_none)

lemma IsAbs_join_names: "names cs \<Longrightarrow> \<not> IsAbs (join_with ''/'' cs @ s) \<or> cs = []"
  using join_names_hd [of cs] join_names_Nil [of cs] by (cases "join_with ''/'' cs") (auto simp: IsAbs_Cons)

lemma DirPath_snoc:
  assumes "names cs" and "is_name n"
  shows "DirPath (sub_path (join_with ''/'' cs) n) = (if cs = [] then ''.'' else join_with ''/'' cs)"
proof -
  have n: "CHR ''/'' \<notin> set n" using assms(2) by (simp add: is_name_def)
  show ?thesis
  proof (cases "cs = []")
    case True
    then show ?thesis using n by (simp add: sub_path_def DirPath_def last_index_none Clean_def IsAbs_def HasPrefix_def)
  next
    case False
    let ?p = "join_with ''/'' cs"
    have "split_on CHR ''/'' (?p @ ''/'') = cs @ ['''']"
      using split_on_append_gen [of "CHR ''/''" ?p "[]"] names_split [OF assms(1) False] by simp
    moreover have "\<not> IsAbs (?p @ ''/'')" using IsAbs_join_names [OF assms(1)] False by blast
    ultimately have "Clean (?p @ ''/'') = ?p"
      using clean_comps_append [of "[]" cs False "['''']"] assms(1) False by (simp add: Clean_def Let_def)
    moreover have "last_index (?p @ CHR ''/'' # n) CHR ''/'' = Some (length ?p)" by (rule last_index_append [OF n])
    ultimately show ?thesis using False assms(1) by (simp add: sub_path_def DirPath_def)
  qed
qed

lemma BasePath_snoc:
  assumes "names cs" and "is_name n"
  shows "BasePath (sub_path (join_with ''/'' cs) n) = n"
proof -
  have n: "n \<noteq> []" "CHR ''/'' \<notin> set n" "last n \<noteq> CHR ''/''" using assms(2) is_name_last [of n] by (auto simp: is_name_def)
  let ?p = "sub_path (join_with ''/'' cs) n"
  have "split_on CHR ''/'' ?p = (if cs = [] then [] else cs) @ [n]"
    using n(2) split_on_append_gen [of "CHR ''/''" "join_with ''/'' cs" n] names_split [OF assms(1)] assms(1)
    by (auto simp: sub_path_def split_on_no_occ)
  moreover have "?p \<noteq> []" "trim_right CHR ''/'' ?p = ?p"
    using n by (auto simp: sub_path_def intro!: trim_right_last)
  ultimately show ?thesis by (simp add: BasePath_def Let_def)
qed

lemma splitNFSPath_names:
  assumes "names cs" and "is_name n"
  shows "splitNFSPath (sub_path (join_with ''/'' cs) n) = (join_with ''/'' cs, n)"
proof -
  let ?p = "sub_path (join_with ''/'' cs) n"
  have p: "?p = join_with ''/'' (cs @ [n])" using assms(1) by (auto simp: sub_path_def join_snoc)
  have N: "names (cs @ [n])" using assms by simp
  have "TrimPrefix (Clean (CHR ''/'' # trim_both CHR ''/'' ?p)) ''/'' = ?p"
    unfolding p trim_both_names [OF N] Clean_slash [OF N] by simp
  moreover have "?p \<noteq> ''''" unfolding p using N join_names_Nil [of "cs @ [n]"] by blast
  moreover have "?p \<noteq> ''.''"
  proof
    assume "?p = ''.''"
    then have "split_on CHR ''/'' ?p = [''.'']" by simp
    moreover have "split_on CHR ''/'' ?p = cs @ [n]" unfolding p using N by (intro names_split) auto
    ultimately show False using assms(2) by (auto simp: is_name_def)
  qed
  moreover have "join_with ''/'' cs \<noteq> ''.''"
  proof
    assume e: "join_with ''/'' cs = ''.''"
    then have "cs \<noteq> []" by auto
    from names_split [OF assms(1) this] e have "cs = [''.'']" by simp
    with assms(1) show False by (simp add: is_name_def)
  qed
  ultimately show ?thesis
    using DirPath_snoc [OF assms] BasePath_snoc [OF assms] by (auto simp: splitNFSPath_def Let_def)
qed

lemma nfs_path_snoc:
  assumes "nfs_path p" and "p \<noteq> ''''"
  shows "\<exists>cs n. names cs \<and> is_name n \<and> p = sub_path (join_with ''/'' cs) n"
proof -
  obtain cs where cs: "names cs" "p = join_with ''/'' cs" using assms(1) by (auto simp: nfs_path_def)
  then obtain ds n where "cs = ds @ [n]" using assms(2) by (cases cs rule: rev_cases) auto
  then show ?thesis using cs by (intro exI [of _ ds] exI [of _ n]) (auto simp: sub_path_def join_snoc)
qed

lemma nfs_path_names [intro]: "names cs \<Longrightarrow> nfs_path (join_with ''/'' cs)"
  by (auto simp: nfs_path_def)

text \<open>The path of the components \<open>cs\<close> below a base directory.\<close>

definition below :: "string \<Rightarrow> string list \<Rightarrow> string" where
  "below b cs = (if b = '''' then join_with ''/'' cs else if cs = [] then b else b @ ''/'' @ join_with ''/'' cs)"

lemma nfs_path_below: "nfs_path b \<Longrightarrow> names cs \<Longrightarrow> nfs_path (below b cs)"
proof -
  assume b: "nfs_path b" and cs: "names cs"
  then obtain bs where bs: "names bs" "b = join_with ''/'' bs" by (auto simp: nfs_path_def)
  then have "below b cs = join_with ''/'' (bs @ cs)"
    by (cases "bs = []"; cases "cs = []") (auto simp: below_def join_with_append)
  then show ?thesis using bs(1) cs by auto
qed

lemma below_inject:
  assumes "nfs_path b" "names cs" "names ds"
  shows "below b cs = below b ds \<longleftrightarrow> cs = ds"
proof -
  obtain bs where bs: "names bs" "b = join_with ''/'' bs" using assms(1) by (auto simp: nfs_path_def)
  have "below b as = join_with ''/'' (bs @ as)" if "names as" for as
    using bs that by (cases "bs = []"; cases "as = []") (auto simp: below_def join_with_append)
  with assms bs(1) abs_of_inject [of "bs @ cs" "bs @ ds"] show ?thesis by (simp add: abs_of_def)
qed

lemma dotdot_join:
  "Contains (join_with ''/'' cs) ''..'' \<longleftrightarrow> (\<exists>c \<in> set cs. Contains c ''..'')"
proof (induction "''/''" cs rule: join_with.induct)
  case (3 x y ys)
  have slash: "Contains (a @ CHR ''/'' # b) ''..'' \<longleftrightarrow> Contains a ''..'' \<or> Contains b ''..''" for a b
  proof -
    have "Contains (a @ CHR ''/'' # b) ''..'' \<Longrightarrow> Contains a ''..'' \<or> Contains b ''..''"
    proof (induction a)
      case (Cons x a)
      then show ?case by (cases a) (auto simp: Contains_def HasPrefix_def split: if_splits)
    qed (auto simp: Contains_def HasPrefix_def)
    moreover have "Contains a ''..'' \<or> Contains b ''..'' \<Longrightarrow> Contains (a @ CHR ''/'' # b) ''..''"
      unfolding Contains_iff by (metis append.assoc append_Cons)
    ultimately show ?thesis by blast
  qed
  show ?case using 3 by (simp add: slash)
qed (simp_all add: Contains_def HasPrefix_def)

lemma joinBase_names:
  assumes "names cs"
  shows "joinBase t (join_with ''/'' cs) =
    (if \<exists>c \<in> set cs. Contains c ''..'' then Inl (Msg ''nfs: invalid path %q'') else Inr (below (nf_base t) cs))"
proof -
  have "join_with ''/'' cs \<noteq> ''.''"
  proof
    assume e: "join_with ''/'' cs = ''.''"
    then have "cs \<noteq> []" by auto
    from names_split [OF assms this] e have "cs = [''.'']" by simp
    with assms show False by (simp add: is_name_def)
  qed
  then show ?thesis using assms
    by (auto simp: joinBase_def Clean_slash below_def dotdot_join Let_def)
qed

lemma joinBase_Clean: "\<exists>cs. names cs \<and> joinBase t rel = joinBase t (join_with ''/'' cs)"
proof -
  obtain cs where "names cs" "Clean (CHR ''/'' # rel) = CHR ''/'' # join_with ''/'' cs"
    using Clean_slash_path by blast
  then show ?thesis by (intro exI [of _ cs]) (simp add: joinBase_def Clean_slash)
qed

lemma joinBase_below: "joinBase t rel = Inr p \<Longrightarrow> \<exists>cs. names cs \<and> p = below (nf_base t) cs"
  using joinBase_Clean [of t rel] by (elim exE conjE) (auto simp: joinBase_names split: if_splits)

text \<open>The base that \<open>New\<close> computes is what follows the export, when the path has no odd components.\<close>

lemma baseAfterExport_names:
  assumes "names (es @ bs)" and "es \<noteq> []"
  shows "baseAfterExport (abs_of (es @ bs)) (abs_of es) = join_with ''/'' bs"
    and "abs_of es \<in> set (splitExportCandidates (abs_of (es @ bs)))"
proof -
  have tl: "trim_both CHR ''/'' (abs_of cs) = join_with ''/'' cs" if "names cs" for cs
    using trim_both_names [OF that] by (simp add: abs_of_def trim_both_def trim_left_def)
  have N: "names es" "names bs" using assms(1) by auto
  have ne: "join_with ''/'' es \<noteq> []" using N(1) assms(2) by simp
  show "baseAfterExport (abs_of (es @ bs)) (abs_of es) = join_with ''/'' bs"
  proof (cases "bs = []")
    case True
    then show ?thesis using N by (simp add: baseAfterExport_def tl Clean_slash)
  next
    case False
    then have "join_with ''/'' (es @ bs) = join_with ''/'' es @ ''/'' @ join_with ''/'' bs"
      using assms(2) by (intro join_with_append)
    then show ?thesis using N tl [OF assms(1)] tl [OF N(1)]
      by (simp add: baseAfterExport_def Clean_slash HasPrefix_def TrimPrefix_def)
  qed
  have "split_on CHR ''/'' (join_with ''/'' (es @ bs)) = es @ bs" using assms by (intro names_split) auto
  then have "splitExportCandidates (abs_of (es @ bs)) =
      map (\<lambda>i. CHR ''/'' # join_with ''/'' (take i (es @ bs))) (rev [1..<Suc (length (es @ bs))])"
    using assms join_names_Nil [OF assms(1)] by (simp add: splitExportCandidates_def tl [OF assms(1)] Let_def)
  moreover have "length es \<in> set (rev [1..<Suc (length (es @ bs))])" using assms(2) by (cases es) (auto simp del: upt_Suc)
  ultimately show "abs_of es \<in> set (splitExportCandidates (abs_of (es @ bs)))"
    by (auto simp: abs_of_def image_iff intro!: bexI [of _ "length es"])
qed

section \<open>What a server promises\<close>

text \<open>
  \<open>fil x p\<close> is the content of the file with path \<open>p\<close>, \<open>bnd x f\<close> the path under which an open file is named
  and \<open>dirh x h\<close> the directory of a handle. Only RENAME and REMOVE take a name away from an open file, a call that
  fails may have been executed, and a stream that ends at the end of the file has delivered all of it.
\<close>

definition kept :: "('x \<Rightarrow> 'k \<Rightarrow> string option) \<Rightarrow> 'x \<Rightarrow> 'x \<Rightarrow> bool" where
  "kept b x x' \<longleftrightarrow> (\<forall>k p. b x k = Some p \<longrightarrow> b x' k = Some p)"

locale nfs_server =
  fixes T :: "'x nfs_api"
    and fil :: "'x \<Rightarrow> string \<Rightarrow> bytes option"
    and bnd :: "'x \<Rightarrow> nat \<Rightarrow> string option"
    and dirh :: "'x \<Rightarrow> string \<Rightarrow> string option"
  assumes readdir: "nt_readdir T p x = (l, x') \<Longrightarrow> fil x' = fil x \<and> kept bnd x x'"
    and lookup: "nt_lookup T p x = (a, x') \<Longrightarrow> fil x' = fil x \<and> kept bnd x x' \<and> kept dirh x x'"
    and handle: "nt_lookup T p x = (Inr (fi, h), x') \<Longrightarrow> nfs_path p \<Longrightarrow> dirh x' h = Some p"
    and open_keeps: "nt_open T p x = (ro, x') \<Longrightarrow> fil x' = fil x \<and> kept bnd x x'"
    and open_bnd: "nt_open T p x = (Inr f, x') \<Longrightarrow> nfs_path p \<Longrightarrow> bnd x' f = Some p"
    and create: "nt_create T p x = (ro, x') \<Longrightarrow> nfs_path p \<Longrightarrow> (\<forall>q. q \<noteq> p \<longrightarrow> fil x' q = fil x q) \<and> kept bnd x x'"
    and create_bnd: "nt_create T p x = (Inr f, x') \<Longrightarrow> nfs_path p \<Longrightarrow> bnd x' f = Some p"
    and seek: "nt_seek T f m x = (e, x') \<Longrightarrow> fil x' = fil x \<and> kept bnd x x'"
    and writes_at: "nt_write T f b x = (e, x') \<Longrightarrow> bnd x f = Some p \<Longrightarrow> (\<forall>q. q \<noteq> p \<longrightarrow> fil x' q = fil x q) \<and> kept bnd x x'"
    and stream: "nt_stream T f x = (rd, x') \<Longrightarrow> fil x' = fil x \<and> kept bnd x x'"
    and reads: "nt_seek T f 0 x = (None, x1) \<Longrightarrow> nt_stream T f x1 = (rd, x2) \<Longrightarrow> rd_error rd = EOF \<Longrightarrow> bnd x f = Some p \<Longrightarrow>
      fil x p = Some (rd_content rd)"
    and close: "nt_close T f x = (e, x') \<Longrightarrow> fil x' = fil x \<and> (\<forall>g p. bnd x g = Some p \<and> (g \<noteq> f \<or> e \<noteq> None) \<longrightarrow> bnd x' g = Some p)"
    and remove: "nt_remove T p x = (e, x') \<Longrightarrow> nfs_path p \<Longrightarrow> q \<noteq> p \<Longrightarrow> fil x' q = fil x q"
    and mkdir: "nt_mkdir T p x = (e, x') \<Longrightarrow> fil x' = fil x \<and> kept bnd x x'"
    and rename: "nt_rename T (h, n) (h', n') x = (rr, x') \<Longrightarrow> dirh x h = Some d \<Longrightarrow> dirh x h' = Some d' \<Longrightarrow>
      is_name n \<Longrightarrow> is_name n' \<Longrightarrow> sub_path d n \<noteq> sub_path d' n' \<Longrightarrow>
      fil x' = (fil x)(sub_path d' n' := fil x (sub_path d n), sub_path d n := None) \<or>
      fil x' = fil x \<and> (\<forall>st. rr = Inr (Inr st) \<longrightarrow> nt_status T st \<noteq> None)"

text \<open>The state of a session that keeps its promise, and what a reader of its destination sees.\<close>

definition nfs_ok :: "('x \<Rightarrow> nat \<Rightarrow> string option) \<Rightarrow> nfs_session \<times> 'x nfs_world \<Rightarrow> bool" where
  "nfs_ok bnd sw \<longleftrightarrow>
     (let (s, w) = sw in
      nfs_path (nw_tmpRel s) \<and> nfs_path (nw_mountRel s) \<and> nw_tmpRel s \<noteq> '''' \<and> nw_tmpRel s \<noteq> nw_mountRel s \<and>
      (\<forall>f. nw_staging s = Some f \<longrightarrow> bnd (nx_srv w) f = Some (nw_tmpRel s)) \<and>
      (\<forall>f. nw_old s = Some f \<longrightarrow> bnd (nx_srv w) f = Some (nw_mountRel s)))"

definition nfs_open_at :: "('x \<Rightarrow> nat \<Rightarrow> string option) \<Rightarrow> string \<Rightarrow> nfs_session \<times> 'x nfs_world \<Rightarrow> bool" where
  "nfs_open_at bnd p sw \<longleftrightarrow> nfs_ok bnd sw \<and> nw_mountRel (fst sw) = p"

definition nfs_shown :: "('x \<Rightarrow> string \<Rightarrow> bytes option) \<Rightarrow> string \<Rightarrow> nfs_session \<times> 'x nfs_world \<Rightarrow> bytes option" where
  "nfs_shown fil p sw = fil (nx_srv (snd sw)) p"

lemma kept_refl [simp]: "kept b x x"
  by (simp add: kept_def)

lemma kept_trans [trans]: "kept b x y \<Longrightarrow> kept b y z \<Longrightarrow> kept b x z"
  by (simp add: kept_def)

lemma nfs_ctx_srv: "nfs_ctx w = (c, w') \<Longrightarrow> nx_srv w' = nx_srv w"
  by (auto simp: nfs_ctx_def split: list.splits)

lemma nfs_callE:
  assumes "nfs_call f w = (r, w')"
  obtains x where "f (nx_srv w) = (r, x)" "nx_srv w' = x"
  using assms by (auto simp: nfs_call_def split: prod.splits)

text \<open>From one world to another, only the file \<open>p\<close> may have changed, or none, and every open file keeps its name.\<close>

definition only_at ::
  "('x \<Rightarrow> string \<Rightarrow> bytes option) \<Rightarrow> ('x \<Rightarrow> nat \<Rightarrow> string option) \<Rightarrow> string option \<Rightarrow> 'x nfs_world \<Rightarrow> 'x nfs_world \<Rightarrow> bool" where
  "only_at fil bnd P w w' \<longleftrightarrow>
     (\<forall>q. P \<noteq> Some q \<longrightarrow> fil (nx_srv w') q = fil (nx_srv w) q) \<and> kept bnd (nx_srv w) (nx_srv w')"

lemma only_at_refl [simp]: "nx_srv w' = nx_srv w \<Longrightarrow> only_at fil bnd P w w'"
  by (simp add: only_at_def)

lemma only_at_trans: "only_at fil bnd P w w1 \<Longrightarrow> only_at fil bnd P w1 w2 \<Longrightarrow> only_at fil bnd P w w2"
  by (auto simp: only_at_def intro: kept_trans)

lemma only_at_none: "only_at fil bnd None w w' \<Longrightarrow> only_at fil bnd P w w'"
  by (simp add: only_at_def)

context nfs_server
begin

abbreviation still :: "'x nfs_world \<Rightarrow> 'x nfs_world \<Rightarrow> bool" where
  "still \<equiv> only_at fil bnd None"

lemma still_trans: "still w w1 \<Longrightarrow> still w1 w2 \<Longrightarrow> still w w2"
  by (rule only_at_trans)

lemma call_still:
  "nfs_call (nt_readdir T p) w = (l, w') \<Longrightarrow> still w w'"
  "nfs_call (nt_lookup T p) w = (a, w') \<Longrightarrow> still w w'"
  "nfs_call (nt_open T p) w = (r, w') \<Longrightarrow> still w w'"
  "nfs_call (nt_seek T f n) w = (e, w') \<Longrightarrow> still w w'"
  "nfs_call (nt_stream T f) w = (rd, w') \<Longrightarrow> still w w'"
  "nfs_call (nt_mkdir T p) w = (e, w') \<Longrightarrow> still w w'"
  by (auto simp: only_at_def elim!: nfs_callE dest: readdir lookup open_keeps seek stream mkdir)

lemma ctx_still: "nfs_ctx w = (c, w') \<Longrightarrow> still w w'"
  by (simp add: nfs_ctx_srv)

lemma mkdir_parts_still: "mkdir_parts T cur ps w = (e, w') \<Longrightarrow> still w w'"
proof (induction ps arbitrary: cur w)
  case (Cons p ps)
  then show ?case
    by (auto simp: Let_def split: if_splits prod.splits sum.splits option.splits
        dest!: call_still(2,6) Cons.IH intro: still_trans)
qed simp

lemma mkdirMount_still: "mkdirMount T p w = (e, w') \<Longrightarrow> still w w'"
  by (auto simp: mkdirMount_def split: if_splits dest: mkdir_parts_still)

lemma at_still: "nfs_at t rel w = (r, w') \<Longrightarrow> still w w'"
  by (auto simp: nfs_at_def split: prod.splits option.splits dest: ctx_still)

lemma MkdirAll_still:
  assumes "nf_target t = T" and "nfs_MkdirAll t rel w = (e, w')"
  shows "still w w'"
  using assms(2) unfolding nfs_MkdirAll_def assms(1)
  by (auto split: prod.splits sum.splits dest!: at_still mkdirMount_still intro: still_trans)

lemma stat_still:
  assumes "nf_target t = T" and "nfs_stat t rel w = (r, w')"
  shows "still w w'"
  using assms(2) unfolding nfs_stat_def assms(1)
  by (auto split: prod.splits sum.splits dest!: at_still call_still(2) intro: still_trans)

lemma open_still:
  assumes "nf_target t = T" and "nfs_open t rel w = (r, w')"
  shows "still w w'"
  using assms(2) unfolding nfs_open_def assms(1)
  by (auto split: prod.splits sum.splits dest!: at_still call_still(3) intro: still_trans)

lemma write_at_only:
  assumes "nfs_write_at T f off b w = (e, w')" and "bnd (nx_srv w) f = Some p"
  shows "only_at fil bnd (Some p) w w'"
proof -
  obtain e1 w1 where s: "nfs_call (nt_seek T f (i64_of_u64 off)) w = (e1, w1)" by force
  have k: "still w w1" by (rule call_still(4) [OF s])
  then have b: "bnd (nx_srv w1) f = Some p" using assms(2) by (simp add: only_at_def kept_def)
  show ?thesis
  proof (cases e1)
    case None
    then have "nfs_call (nt_write T f b) w1 = (e, w')" using assms(1) s by (simp add: nfs_write_at_def)
    then have "only_at fil bnd (Some p) w1 w'"
      using b by (auto simp: only_at_def elim!: nfs_callE dest: writes_at)
    then show ?thesis using only_at_none [OF k] by (rule only_at_trans [rotated])
  next
    case (Some x)
    then show ?thesis using assms(1) s only_at_none [OF k] by (simp add: nfs_write_at_def)
  qed
qed

lemma rename_effect:
  assumes "nfs_rename T p q w = (e, w')" and p: "nfs_path p" "p \<noteq> ''''" and q: "nfs_path q" and ne: "p \<noteq> q"
  shows "fil (nx_srv w') = (fil (nx_srv w))(q := fil (nx_srv w) p, p := None) \<or> fil (nx_srv w') = fil (nx_srv w) \<and> e \<noteq> None"
proof (cases "q = ''''")
  case True
  have "splitNFSPath '''' = ('''', '''')"
    by (simp add: splitNFSPath_def Let_def trim_both_def trim_left_def trim_right_def Clean_def IsAbs_def HasPrefix_def TrimPrefix_def)
  then show ?thesis using assms(1) True by (auto simp: nfs_rename_def split: prod.splits)
next
  case False
  obtain cs n where cs: "names cs" "is_name n" "p = sub_path (join_with ''/'' cs) n" using nfs_path_snoc [OF p] by blast
  obtain ds m where ds: "names ds" "is_name m" "q = sub_path (join_with ''/'' ds) m" using nfs_path_snoc [OF q False] by blast
  let ?d = "join_with ''/'' cs" and ?d' = "join_with ''/'' ds"
  obtain r1 w1 where c1: "nfs_call (nt_lookup T ?d) w = (r1, w1)" by force
  obtain r2 w2 where c2: "nfs_call (nt_lookup T ?d') w1 = (r2, w2)" by force
  have k1: "fil (nx_srv w1) = fil (nx_srv w)" using call_still(2) [OF c1] by (auto simp: only_at_def)
  have k: "fil (nx_srv w2) = fil (nx_srv w)" using call_still(2) [OF c2] k1 by (auto simp: only_at_def)
  have k2: "kept dirh (nx_srv w1) (nx_srv w2)" using c2 by (auto elim!: nfs_callE dest: lookup)
  have nm: "n \<noteq> ''''" "n \<noteq> ''.''" "m \<noteq> ''''" "m \<noteq> ''.''" using cs(2) ds(2) by (auto simp: is_name_def)
  note st = splitNFSPath_names [OF cs(1,2), folded cs(3)] splitNFSPath_names [OF ds(1,2), folded ds(3)]
  consider e1 where "r1 = Inl e1" | e2 v where "r1 = Inr v" "r2 = Inl e2"
    | a1 h a2 h' where "r1 = Inr (a1, h)" "r2 = Inr (a2, h')"
    by (cases r1; cases r2) auto
  then show ?thesis
  proof cases
    case 3
    have "dirh (nx_srv w1) h = Some ?d" "dirh (nx_srv w2) h' = Some ?d'"
      using c1 c2 3 cs(1) ds(1) by (auto elim!: nfs_callE intro!: handle nfs_path_names)
    then have hh: "dirh (nx_srv w2) h = Some ?d" "dirh (nx_srv w2) h' = Some ?d'" using k2 by (auto simp: kept_def)
    obtain rr w3 where c3: "nfs_call (nt_rename T (h, n) (h', m)) w2 = (rr, w3)" by force
    have "fil (nx_srv w3) = (fil (nx_srv w))(q := fil (nx_srv w) p, p := None) \<or>
        fil (nx_srv w3) = fil (nx_srv w) \<and> (\<forall>st. rr = Inr (Inr st) \<longrightarrow> nt_status T st \<noteq> None)"
      using c3 rename [OF _ hh cs(2) ds(2)] ne cs(3) ds(3) k by (auto elim!: nfs_callE)
    moreover have "w' = w3 \<and> ((\<forall>st. rr = Inr (Inr st) \<longrightarrow> nt_status T st \<noteq> None) \<longrightarrow> e \<noteq> None)"
      using assms(1) c1 c2 c3 3 nm st by (auto simp: nfs_rename_def split: sum.splits)
    ultimately show ?thesis by auto
  qed (use assms(1) c1 c2 nm st k k1 in \<open>auto simp: nfs_rename_def split: prod.splits\<close>)
qed

lemma close_effect:
  "nfs_call (nt_close T f) w = (e, w') \<Longrightarrow> fil (nx_srv w') = fil (nx_srv w) \<and>
     (\<forall>g p. bnd (nx_srv w) g = Some p \<and> (g \<noteq> f \<or> e \<noteq> None) \<longrightarrow> bnd (nx_srv w') g = Some p)"
  by (auto elim!: nfs_callE dest!: close)

lemma close_old_effect:
  "close_old T (s, w) = (s', w') \<Longrightarrow> s' = s\<lparr>nw_old := None\<rparr> \<and> fil (nx_srv w') = fil (nx_srv w)"
  using close_effect [of _ w, OF prod.collapse [symmetric]] by (auto simp: close_old_def split: option.splits)

lemma ok_mono:
  assumes "nfs_ok bnd (s, w)" and "kept bnd (nx_srv w) (nx_srv w')"
  shows "nfs_ok bnd (s, w')"
  using assms by (auto simp: nfs_ok_def kept_def)

lemma ok_still: "nfs_ok bnd (s, w) \<Longrightarrow> only_at fil bnd P w w' \<Longrightarrow> nfs_ok bnd (s, w')"
  by (erule ok_mono) (simp add: only_at_def)

lemma ok_staging: "nfs_ok bnd (s, w) \<Longrightarrow> nw_staging s = Some f \<Longrightarrow> bnd (nx_srv w) f = Some (nw_tmpRel s)"
  by (simp add: nfs_ok_def)

text \<open>The operations that write: the session stays as it is and only the staging file changes.\<close>

lemma WriteChunk_effect:
  assumes T: "nf_target t = T" and "nfs_WriteChunk L t off c n d (s, w) = ((s', w'), e)" and ok: "nfs_ok bnd (s, w)"
  shows "s' = s \<and> only_at fil bnd (Some (nw_tmpRel s)) w w'"
proof -
  obtain ce w1 where c: "nfs_ctx w = (ce, w1)" by force
  note k = only_at_none [OF ctx_still [OF c]]
  show ?thesis
    using assms(2) c k unfolding nfs_WriteChunk_def T
    by (auto simp: Let_def split: option.splits if_splits sum.splits prod.splits
        dest!: write_at_only [OF _ ok_staging [OF ok_still [OF ok k]]] intro: only_at_trans)
qed

lemma ReuseChunk_effect:
  assumes T: "nf_target t = T" and "nfs_ReuseChunk H t new old dg n (s, w) = ((s', w'), e)" and ok: "nfs_ok bnd (s, w)"
  shows "s' = s \<and> only_at fil bnd (Some (nw_tmpRel s)) w w'"
proof -
  have fin: "only_at fil bnd (Some (nw_tmpRel s)) w w'"
    if "nfs_write_at T f off b w2 = (x, w')" "nw_staging s = Some f" "still w w2" for w2 f off b x
    using write_at_only [OF that(1) ok_staging [OF ok_still [OF ok that(3)] that(2)]] only_at_none [OF that(3)]
    by (rule only_at_trans [rotated])
  have s: "s' = s"
    using assms(2) unfolding nfs_ReuseChunk_def by (auto simp: Let_def split: option.splits if_splits sum.splits prod.splits)
  then show ?thesis
    using assms(2) [unfolded s] unfolding nfs_ReuseChunk_def T
    by (auto simp: Let_def split: option.splits if_splits sum.splits prod.splits
        dest!: ctx_still stat_still [OF T] call_still(4,5) intro: only_at_none)
      (meson fin only_at_none still_trans)+
qed

lemma Commit_effect:
  assumes T: "nf_target t = T" and st: "nfs_Commit H t d m mt (s, w) = ((s', w'), e)" and ok: "nfs_ok bnd (s, w)"
  shows "nfs_ok bnd (s', w') \<and> nw_mountRel s' = nw_mountRel s \<and>
    (\<forall>q. q \<noteq> nw_mountRel s \<longrightarrow> q \<noteq> nw_tmpRel s \<longrightarrow> fil (nx_srv w') q = fil (nx_srv w) q) \<and>
    (fil (nx_srv w') (nw_mountRel s) = fil (nx_srv w) (nw_mountRel s) \<and> (e = None \<longrightarrow> nw_committed s) \<or>
     (\<exists>c. fil (nx_srv w') (nw_mountRel s) = Some c \<and> H c = d))"
proof -
  obtain ce w1 where c1: "nfs_ctx w = (ce, w1)" by force
  note k1 = ctx_still [OF c1] and ok1 = ok_still [OF ok ctx_still [OF c1]]
  show ?thesis
  proof (cases "ce \<noteq> None \<or> nw_committed s \<or> nw_staging s = None")
    case True
    then show ?thesis using st c1 ok1 k1
      by (auto simp: nfs_Commit_def Let_def only_at_def split: option.splits if_splits)
  next
    case False
    then obtain f where f: "ce = None" "\<not> nw_committed s" "nw_staging s = Some f" by blast
    obtain e2 w2 where c2: "nfs_call (nt_seek T f 0) w1 = (e2, w2)" by force
    obtain r w3 where c3: "nfs_call (nt_stream T f) w2 = (r, w3)" by force
    obtain e4 w4 where c4: "nfs_call (nt_close T f) w3 = (e4, w4)" by force
    obtain s5 w5 where c5: "close_old T (s\<lparr>nw_staging := None\<rparr>, w4) = (s5, w5)" by force
    obtain e6 w6 where c6: "nfs_rename T (nw_tmpRel s5) (nw_mountRel s5) w5 = (e6, w6)" by force
    have k3: "still w w2" "still w w3" using k1 call_still(4) [OF c2] call_still(5) [OF c3] by (auto intro: still_trans)
    note ok3 = ok_still [OF ok k3(1)] ok_still [OF ok k3(2)]
    have k4: "fil (nx_srv w4) = fil (nx_srv w)" and ok4: "e4 \<noteq> None \<Longrightarrow> nfs_ok bnd (s, w4)"
      using close_effect [OF c4] k3(2) ok3(2) by (auto simp: only_at_def nfs_ok_def)
    note s5 = close_old_effect [OF c5]
    consider "e2 \<noteq> None" | "e2 = None" "\<forall>n. HashFile H r \<noteq> Inr (d, n)"
      | n where "e2 = None" "HashFile H r = Inr (d, n)" "e4 \<noteq> None"
      | n where "e2 = None" "HashFile H r = Inr (d, n)" "e4 = None" by blast
    then show ?thesis
    proof cases
      case 1
      then show ?thesis using st c1 c2 f k3 ok3
        by (auto simp: nfs_Commit_def T only_at_def)
    next
      case 2
      then show ?thesis using st c1 c2 c3 f k3 ok3
        by (auto simp: nfs_Commit_def T only_at_def split: sum.splits prod.splits if_splits)
    next
      case 3
      then show ?thesis using st c1 c2 c3 c4 f k3 k4 ok4
        by (auto simp: nfs_Commit_def T only_at_def split: option.splits)
    next
      case 4
      have "rd_error r = EOF" "H (rd_content r) = d"
        using 4(2) by (auto simp: HashFile_def read_all_eq split: if_splits)
      moreover have "bnd (nx_srv w1) f = Some (nw_tmpRel s)" by (rule ok_staging [OF ok1 f(3)])
      ultimately have "fil (nx_srv w1) (nw_tmpRel s) = Some (rd_content r)"
        using c2 c3 4(1) reads by (auto elim!: nfs_callE)
      then have src: "fil (nx_srv w5) (nw_tmpRel s) = Some (rd_content r)" and k5: "fil (nx_srv w5) = fil (nx_srv w)"
        using k1 k4 s5 by (auto simp: only_at_def)
      have sn: "nw_tmpRel s5 = nw_tmpRel s" "nw_mountRel s5 = nw_mountRel s" using s5 by auto
      have P: "nfs_path (nw_tmpRel s)" "nfs_path (nw_mountRel s)" "nw_tmpRel s \<noteq> ''''" "nw_tmpRel s \<noteq> nw_mountRel s"
        using ok by (auto simp: nfs_ok_def)
      note R = rename_effect [OF c6 [unfolded sn] P(1,3,2,4)]
      have "w' = w6 \<and> e = e6 \<and> (s' = s5 \<or> s' = s5\<lparr>nw_committed := True\<rparr>)"
        using st c1 c2 c3 c4 c5 c6 f 4 by (auto simp: nfs_Commit_def T split: option.splits)
      moreover have "nfs_ok bnd (s5, w6)" "nfs_ok bnd (s5\<lparr>nw_committed := True\<rparr>, w6)"
        using P s5 by (auto simp: nfs_ok_def)
      ultimately show ?thesis using R src k5 sn P(4) \<open>H (rd_content r) = d\<close> by auto
    qed
  qed
qed

lemma Abort_effect:
  assumes T: "nf_target t = T" and st: "nfs_Abort t (s, w) = ((s', w'), e)" and ok: "nfs_ok bnd (s, w)"
  shows "nfs_ok bnd (s', w') \<and> nw_mountRel s' = nw_mountRel s \<and> (\<forall>q. q \<noteq> nw_tmpRel s \<longrightarrow> fil (nx_srv w') q = fil (nx_srv w) q)"
proof (cases "nw_committed s")
  case True
  then show ?thesis using st ok by (simp add: nfs_Abort_def)
next
  case False
  define sw1 where "sw1 = (case nw_staging s of None \<Rightarrow> (s, w) | Some f \<Rightarrow> (s\<lparr>nw_staging := None\<rparr>, snd (nfs_call (nt_close T f) w)))"
  obtain s1 w1 where p1: "sw1 = (s1, w1)" by force
  obtain s2 w2 where p2: "close_old T (s1, w1) = (s2, w2)" by force
  obtain e3 w3 where p3: "nfs_call (nt_remove T (nw_tmpRel s2)) w2 = (e3, w3)" by force
  have 1: "s1 = s\<lparr>nw_staging := None\<rparr> \<and> fil (nx_srv w1) = fil (nx_srv w)"
    using p1 close_effect [OF prod.collapse [symmetric]] by (auto simp: sw1_def split: option.splits)
  note 2 = close_old_effect [OF p2]
  have P: "nfs_path (nw_tmpRel s)" using ok by (simp add: nfs_ok_def)
  have "\<forall>q. q \<noteq> nw_tmpRel s \<longrightarrow> fil (nx_srv w3) q = fil (nx_srv w2) q"
    using p3 1 2 P by (auto elim!: nfs_callE dest: remove)
  moreover have "s' = s2 \<and> w' = w3"
    using st False p1 p2 p3 unfolding nfs_Abort_def sw1_def by (auto simp: T Let_def)
  ultimately show ?thesis using 1 2 ok by (auto simp: nfs_ok_def)
qed

end

sublocale nfs_server \<subseteq> nfs_staged: staged_write "nfs_step H L (t\<lparr>nf_target := T\<rparr>)" "nfs_open_at bnd p" "nfs_shown fil p" H
  for H L p and t :: "'x nfs_transport"
proof
  fix sw a sw' e
  let ?t = "t\<lparr>nf_target := T\<rparr>"
  assume at0: "nfs_open_at bnd p sw" and st: "nfs_step H L ?t a sw = (sw', e)"
  obtain s w s' w' where sw: "sw = (s, w)" "sw' = (s', w')" by (cases sw, cases sw') auto
  have T: "nf_target ?t = T" by simp
  have ok: "nfs_ok bnd sw" and p: "nw_mountRel s = p" using at0 sw by (auto simp: nfs_open_at_def)
  have ne: "nw_tmpRel s \<noteq> nw_mountRel s" using ok sw by (simp add: nfs_ok_def)
  have "nfs_ok bnd (s', w') \<and> nw_mountRel s' = nw_mountRel s \<and>
    (commits a = None \<longrightarrow> fil (nx_srv w') (nw_mountRel s) = fil (nx_srv w) (nw_mountRel s)) \<and>
    (\<forall>d. commits a = Some d \<longrightarrow> fil (nx_srv w') (nw_mountRel s) = fil (nx_srv w) (nw_mountRel s) \<or>
       (\<exists>c. fil (nx_srv w') (nw_mountRel s) = Some c \<and> H c = d))"
  proof (cases a)
    case (SWrite off c n d)
    then have e: "nfs_WriteChunk L ?t off c n d (s, w) = ((s', w'), e)" using st sw by (simp add: nfs_step_def)
    note WriteChunk_effect [OF T e ok [unfolded sw(1)]]
    then show ?thesis using ok_still [OF ok [unfolded sw(1)], of "Some (nw_tmpRel s)" w'] SWrite ne by (auto simp: only_at_def)
  next
    case (SReuse new old dg n)
    then have e: "nfs_ReuseChunk H ?t new old dg n (s, w) = ((s', w'), e)" using st sw by (simp add: nfs_step_def)
    note ReuseChunk_effect [OF T e ok [unfolded sw(1)]]
    then show ?thesis using ok_still [OF ok [unfolded sw(1)], of "Some (nw_tmpRel s)" w'] SReuse ne by (auto simp: only_at_def)
  next
    case (SCommit d m mt)
    then have e: "nfs_Commit H ?t d m mt (s, w) = ((s', w'), e)" using st sw by (simp add: nfs_step_def)
    from Commit_effect [OF T e ok [unfolded sw(1)]] show ?thesis using SCommit by auto
  next
    case SAbort
    then have e: "nfs_Abort ?t (s, w) = ((s', w'), e)" using st sw by (simp add: nfs_step_def)
    from Abort_effect [OF T e ok [unfolded sw(1)]] show ?thesis using SAbort ne by auto
  qed
  then show "nfs_open_at bnd p sw'"
    and "commits a = None \<Longrightarrow> nfs_shown fil p sw' = nfs_shown fil p sw"
    and "\<And>d. commits a = Some d \<Longrightarrow> nfs_shown fil p sw' = nfs_shown fil p sw \<or> (\<exists>c. nfs_shown fil p sw' = Some c \<and> H c = d)"
    using sw p by (auto simp: nfs_shown_def nfs_open_at_def)
qed

section \<open>A server in memory\<close>

text \<open>
  A server that keeps the laws: files by path, directories, and for each open file its path and
  position. The file handle of a directory is its path.
\<close>

record nfs_mem =
  nv_files :: "(string \<times> bytes) list"
  nv_dirs :: "string list"
  nv_open :: "(string \<times> nat) option list"
  nv_now :: int

definition nv_fil :: "nfs_mem \<Rightarrow> string \<Rightarrow> bytes option" where
  "nv_fil x = map_of (nv_files x)"

definition nv_handle :: "nfs_mem \<Rightarrow> nat \<Rightarrow> (string \<times> nat) option" where
  "nv_handle x f = (if f < length (nv_open x) then nv_open x ! f else None)"

definition nv_bnd :: "nfs_mem \<Rightarrow> nat \<Rightarrow> string option" where
  "nv_bnd x f = map_option fst (nv_handle x f)"

definition nv_dirh :: "nfs_mem \<Rightarrow> string \<Rightarrow> string option" where
  "nv_dirh x h = Some h"

definition nv_isdir :: "nfs_mem \<Rightarrow> string \<Rightarrow> bool" where
  "nv_isdir x p \<longleftrightarrow> p = '''' \<or> p \<in> set (nv_dirs x)"

definition nv_readdir :: "string \<Rightarrow> nfs_mem \<Rightarrow> nfs_entry list res \<times> nfs_mem" where
  "nv_readdir d x =
     (if nv_isdir x d
      then (Inr (map (\<lambda>p. \<lparr>ne_name = snd (splitNFSPath p), ne_dir = True, ne_size = 0, ne_secs = 0\<rparr>)
                   (filter (\<lambda>p. fst (splitNFSPath p) = d) (nv_dirs x)) @
                 map (\<lambda>(p, c). \<lparr>ne_name = snd (splitNFSPath p), ne_dir = False, ne_size = word_of_nat (length c), ne_secs = 0\<rparr>)
                   (filter (\<lambda>(p, c). fst (splitNFSPath p) = d) (nv_files x))), x)
      else (Inl NotExist, x))"

definition nv_lookup :: "string \<Rightarrow> nfs_mem \<Rightarrow> (nfs_attr \<times> string) res \<times> nfs_mem" where
  "nv_lookup p x =
     (case nv_fil x p of
        Some c \<Rightarrow> (Inr (\<lparr>na_size = int (length c), na_mod = nv_now x\<rparr>, p), x)
      | None \<Rightarrow> if nv_isdir x p then (Inr (\<lparr>na_size = 0, na_mod = nv_now x\<rparr>, p), x) else (Inl NotExist, x))"

definition nv_new :: "string \<Rightarrow> nfs_mem \<Rightarrow> nat res \<times> nfs_mem" where
  "nv_new p x = (Inr (length (nv_open x)), x\<lparr>nv_open := nv_open x @ [Some (p, 0)]\<rparr>)"

definition nv_opened :: "string \<Rightarrow> nfs_mem \<Rightarrow> nat res \<times> nfs_mem" where
  "nv_opened p x = (if nv_fil x p = None then (Inl NotExist, x) else nv_new p x)"

definition nv_create :: "string \<Rightarrow> nfs_mem \<Rightarrow> nat res \<times> nfs_mem" where
  "nv_create p x =
     (if \<not> nv_isdir x (fst (splitNFSPath p)) then (Inl NotExist, x)
      else if nv_fil x p = None then nv_new p (x\<lparr>nv_files := AList.update p [] (nv_files x)\<rparr>)
      else nv_new p x)"

definition nv_seek :: "nat \<Rightarrow> int \<Rightarrow> nfs_mem \<Rightarrow> goerr option \<times> nfs_mem" where
  "nv_seek f n x =
     (case nv_handle x f of
        None \<Rightarrow> (Some (Msg ''file closed''), x)
      | Some (p, _) \<Rightarrow>
          if n < 0 then (Some (Msg ''negative offset''), x)
          else (None, x\<lparr>nv_open := (nv_open x)[f := Some (p, nat n)]\<rparr>))"

definition nv_write :: "nat \<Rightarrow> bytes \<Rightarrow> nfs_mem \<Rightarrow> goerr option \<times> nfs_mem" where
  "nv_write f b x =
     (case nv_handle x f of
        None \<Rightarrow> (Some (Msg ''file closed''), x)
      | Some (p, i) \<Rightarrow>
          (case nv_fil x p of
             None \<Rightarrow> (Some (Msg ''NFS3ERR_STALE''), x)
           | Some c \<Rightarrow> (None, x\<lparr>nv_files := AList.update p (write_at c i b) (nv_files x),
                               nv_open := (nv_open x)[f := Some (p, i + length b)]\<rparr>)))"

definition nv_stream :: "nat \<Rightarrow> nfs_mem \<Rightarrow> reader \<times> nfs_mem" where
  "nv_stream f x =
     (case nv_handle x f of
        None \<Rightarrow> ([Rd [] (Some (Msg ''file closed''))], x)
      | Some (p, i) \<Rightarrow>
          (case nv_fil x p of
             None \<Rightarrow> ([Rd [] (Some (Msg ''NFS3ERR_STALE''))], x)
           | Some c \<Rightarrow> (file_reader (drop i c), x\<lparr>nv_open := (nv_open x)[f := Some (p, length c)]\<rparr>)))"

definition nv_close :: "nat \<Rightarrow> nfs_mem \<Rightarrow> goerr option \<times> nfs_mem" where
  "nv_close f x =
     (if nv_handle x f = None then (Some (Msg ''file closed''), x) else (None, x\<lparr>nv_open := (nv_open x)[f := None]\<rparr>))"

definition nv_remove :: "string \<Rightarrow> nfs_mem \<Rightarrow> goerr option \<times> nfs_mem" where
  "nv_remove p x = (if nv_fil x p = None then (Some NotExist, x) else (None, x\<lparr>nv_files := AList.delete p (nv_files x)\<rparr>))"

definition nv_mkdir :: "string \<Rightarrow> nfs_mem \<Rightarrow> goerr option \<times> nfs_mem" where
  "nv_mkdir p x =
     (if nv_isdir x p \<or> nv_fil x p \<noteq> None then (Some (Msg ''NFS3ERR_EXIST''), x)
      else if \<not> nv_isdir x (fst (splitNFSPath p)) then (Some NotExist, x)
      else (None, x\<lparr>nv_dirs := p # nv_dirs x\<rparr>))"

definition nv_rename :: "string \<times> string \<Rightarrow> string \<times> string \<Rightarrow> nfs_mem \<Rightarrow> u32 res res \<times> nfs_mem" where
  "nv_rename src dst x =
     (let p = sub_path (fst src) (snd src); q = sub_path (fst dst) (snd dst) in
      case nv_fil x p of
        None \<Rightarrow> (Inr (Inr 2), x)
      | Some c \<Rightarrow> (Inr (Inr 0), x\<lparr>nv_files := AList.update q c (AList.delete p (nv_files x))\<rparr>))"

definition nv_status :: "u32 \<Rightarrow> goerr option" where
  "nv_status st = (if st = 0 then None else Some (Msg ''NFS3ERR''))"

definition nfs_mem_api :: "nfs_mem nfs_api" where
  "nfs_mem_api = \<lparr>nt_readdir = nv_readdir, nt_lookup = nv_lookup, nt_open = nv_opened, nt_create = nv_create, nt_seek = nv_seek,
     nt_write = nv_write, nt_stream = nv_stream, nt_close = nv_close, nt_remove = nv_remove, nt_mkdir = nv_mkdir,
     nt_rename = nv_rename, nt_status = nv_status\<rparr>"

lemmas nv_state = nv_fil_def nv_bnd_def nv_handle_def kept_def

interpretation nmem: nfs_server nfs_mem_api nv_fil nv_bnd nv_dirh
proof
  fix x x' x1 x2 :: nfs_mem and p q h n h' n' d d' :: string and f and m :: int and b :: bytes and e :: "goerr option"
    and ro :: "nat res" and fi :: nfs_attr and rd :: reader and rr :: "u32 res res"
  show "nt_open nfs_mem_api p x = (ro, x') \<Longrightarrow> nv_fil x' = nv_fil x \<and> kept nv_bnd x x'"
    by (auto simp: nfs_mem_api_def nv_opened_def nv_new_def nv_state nth_append split: if_splits)
  show "nt_open nfs_mem_api p x = (Inr f, x') \<Longrightarrow> nfs_path p \<Longrightarrow> nv_bnd x' f = Some p"
    by (auto simp: nfs_mem_api_def nv_opened_def nv_new_def nv_state split: if_splits)
  show "nt_create nfs_mem_api p x = (ro, x') \<Longrightarrow> nfs_path p \<Longrightarrow> (\<forall>q. q \<noteq> p \<longrightarrow> nv_fil x' q = nv_fil x q) \<and> kept nv_bnd x x'"
    by (auto simp: nfs_mem_api_def nv_create_def nv_new_def nv_state nth_append update_conv' split: if_splits)
  show "nt_create nfs_mem_api p x = (Inr f, x') \<Longrightarrow> nfs_path p \<Longrightarrow> nv_bnd x' f = Some p"
    by (auto simp: nfs_mem_api_def nv_create_def nv_new_def nv_state split: if_splits)
  show "nt_seek nfs_mem_api f m x = (e, x') \<Longrightarrow> nv_fil x' = nv_fil x \<and> kept nv_bnd x x'"
    by (auto simp: nfs_mem_api_def nv_seek_def nv_state nth_list_update split: if_splits option.splits)
  show "nt_write nfs_mem_api f b x = (e, x') \<Longrightarrow> nv_bnd x f = Some p \<Longrightarrow>
      (\<forall>q. q \<noteq> p \<longrightarrow> nv_fil x' q = nv_fil x q) \<and> kept nv_bnd x x'"
    by (auto simp: nfs_mem_api_def nv_write_def nv_state nth_list_update update_conv' split: if_splits option.splits)
  show "nt_stream nfs_mem_api f x = (rd, x') \<Longrightarrow> nv_fil x' = nv_fil x \<and> kept nv_bnd x x'"
    by (auto simp: nfs_mem_api_def nv_stream_def nv_state nth_list_update split: if_splits option.splits)
  show "nt_seek nfs_mem_api f 0 x = (None, x1) \<Longrightarrow> nt_stream nfs_mem_api f x1 = (rd, x2) \<Longrightarrow> rd_error rd = EOF \<Longrightarrow>
      nv_bnd x f = Some p \<Longrightarrow> nv_fil x p = Some (rd_content rd)"
    by (auto simp: nfs_mem_api_def nv_seek_def nv_stream_def nv_state split: if_splits option.splits)
  show "nt_close nfs_mem_api f x = (e, x') \<Longrightarrow> nv_fil x' = nv_fil x \<and>
      (\<forall>g p. nv_bnd x g = Some p \<and> (g \<noteq> f \<or> e \<noteq> None) \<longrightarrow> nv_bnd x' g = Some p)"
    by (auto simp: nfs_mem_api_def nv_close_def nv_state nth_list_update split: if_splits)
  show "nt_remove nfs_mem_api p x = (e, x') \<Longrightarrow> nfs_path p \<Longrightarrow> q \<noteq> p \<Longrightarrow> nv_fil x' q = nv_fil x q"
    by (auto simp: nfs_mem_api_def nv_remove_def nv_state delete_conv' split: if_splits)
  show "nt_rename nfs_mem_api (h, n) (h', n') x = (rr, x') \<Longrightarrow> nv_dirh x h = Some d \<Longrightarrow> nv_dirh x h' = Some d' \<Longrightarrow>
      is_name n \<Longrightarrow> is_name n' \<Longrightarrow> sub_path d n \<noteq> sub_path d' n' \<Longrightarrow>
      nv_fil x' = (nv_fil x)(sub_path d' n' := nv_fil x (sub_path d n), sub_path d n := None) \<or>
      nv_fil x' = nv_fil x \<and> (\<forall>st. rr = Inr (Inr st) \<longrightarrow> nt_status nfs_mem_api st \<noteq> None)"
    by (auto simp: nfs_mem_api_def nv_rename_def nv_status_def nv_dirh_def nv_fil_def Let_def update_conv' delete_conv' fun_eq_iff
        split: option.splits)
qed (auto simp: nfs_mem_api_def nv_readdir_def nv_lookup_def nv_mkdir_def nv_dirh_def nv_state split: if_splits option.splits)

section \<open>A session as \<open>BeginWrite\<close> opens it\<close>

lemma hexdigit_name: "n < 16 \<Longrightarrow> hexdigits ! n \<noteq> CHR ''/''"
proof -
  have "CHR ''/'' \<notin> set hexdigits" "length hexdigits = 16" by (simp_all add: hexdigits_def)
  then show "n < 16 \<Longrightarrow> hexdigits ! n \<noteq> CHR ''/''" by (metis nth_mem)
qed

lemma partial_name:
  assumes "uniquePartialName rnd = Inr n"
  shows "is_name n"
proof -
  obtain b where n: "n = digest_string b @ ''.partial''" using assms by (auto simp: uniquePartialName_def split: sum.splits)
  have "CHR ''/'' \<notin> set (digest_string b)"
    using hexdigit_name [OF nibbles(1)] hexdigit_name [OF nibbles(2)] by (fastforce simp: digest_string_def)
  then show ?thesis by (auto simp: n is_name_def Cons_eq_append_conv append_eq_Cons_conv)
qed

context nfs_server
begin

lemma old_effect:
  assumes T: "nf_target t = T" and "nfs_old t s w = (s', w')" and "nfs_path (nw_mountRel s)"
  shows "still w w' \<and> (\<exists>r m n. s' = s\<lparr>nw_old := r, nw_oldSize := m, nw_oldMod := n\<rparr> \<and>
    (r = nw_old s \<or> (\<exists>f. r = Some f \<and> bnd (nx_srv w') f = Some (nw_mountRel s))))"
proof -
  obtain r1 w1 where c1: "nfs_stat t (nw_userRel s) w = (r1, w1)" by force
  obtain r2 w2 where c2: "nfs_call (nt_open T (nw_mountRel s)) w1 = (r2, w2)" by force
  note k1 = stat_still [OF T c1] and k2 = call_still(3) [OF c2]
  have b: "r2 = Inr f \<Longrightarrow> bnd (nx_srv w2) f = Some (nw_mountRel s)" for f
    using c2 assms(3) by (auto elim!: nfs_callE dest: open_bnd)
  have same: "\<exists>m n. s = s\<lparr>nw_old := nw_old s, nw_oldSize := m, nw_oldMod := n\<rparr>"
    by (intro exI [of _ "nw_oldSize s"] exI [of _ "nw_oldMod s"]) simp
  consider x where "r1 = Inl x" | v x where "r1 = Inr v" "r2 = Inl x" | v f where "r1 = Inr v" "r2 = Inr f"
    by (cases r1; cases r2) auto
  then show ?thesis
  proof cases
    case 1
    then have "s' = s" "w' = w1" using assms(2) c1 by (auto simp: nfs_old_def)
    then show ?thesis using k1 same by blast
  next
    case 2
    then have "s' = s" "w' = w2" using assms(2) c1 c2 by (auto simp: nfs_old_def T)
    then show ?thesis using still_trans [OF k1 k2] same by blast
  next
    case 3
    then have "s' = s\<lparr>nw_old := Some f, nw_oldSize := fm_size v, nw_oldMod := fm_mod v\<rparr>" "w' = w2"
      using assms(2) c1 c2 by (auto simp: nfs_old_def T)
    then show ?thesis using still_trans [OF k1 k2] b [OF 3(2)] by blast
  qed
qed

lemma begin_ok:
  assumes T: "nf_target t = T" and base: "nfs_path (nf_base t)" and b: "nfs_begin t rnd rel n w = (Inr s, w')"
    and dest: "\<And>m. joinBase t rel \<noteq> Inr (below (nf_base t) [''.quiksync.tmp'', m])"
  shows "nfs_ok bnd (s, w') \<and> joinBase t rel = Inr (nw_mountRel s) \<and> nw_userRel s = rel \<and> \<not> nw_committed s \<and>
    fil (nx_srv w') (nw_mountRel s) = fil (nx_srv w) (nw_mountRel s)"
proof -
  obtain r1 w1 where c1: "nfs_at t rel w = (r1, w1)" by force
  from b c1 obtain mnt where m: "r1 = Inr mnt" by (cases r1) (auto simp: nfs_begin_def)
  then have j: "joinBase t rel = Inr mnt" using c1 by (auto simp: nfs_at_def split: prod.splits option.splits)
  define mk where "mk = (let dir = DirPath rel in if dir \<noteq> ''.'' \<and> dir \<noteq> '''' then nfs_MkdirAll t dir w1 else (None, w1))"
  obtain e2 w2 where c2: "mk = (e2, w2)" by force
  obtain e3 w3 where c3: "nfs_MkdirAll t ''.quiksync.tmp'' w2 = (e3, w3)" by force
  from b c1 m c2 c3 obtain nm tmp where nm: "e2 = None" "e3 = None" "uniquePartialName rnd = Inr nm"
      "joinBase t (''.quiksync.tmp'' @ ''/'' @ nm) = Inr tmp"
    unfolding nfs_begin_def mk_def by (auto split: option.splits sum.splits)
  obtain r4 w4 where c4: "nfs_call (nt_create T tmp) w3 = (r4, w4)" by force
  from b c1 m c2 c3 nm c4 obtain f where r4: "r4 = Inr f"
    unfolding nfs_begin_def mk_def by (auto simp: T split: sum.splits)
  define s0 where "s0 = \<lparr>nw_userRel = rel, nw_mountRel = mnt, nw_tmpRel = tmp, nw_staging = Some f, nw_old = None,
      nw_oldSize = 0, nw_oldMod = 0, nw_size = n, nw_committed = False\<rparr>"
  from b c1 m c2 c3 nm c4 r4 have c5: "nfs_old t s0 w4 = (s, w')"
    unfolding nfs_begin_def mk_def s0_def by (auto simp: T split: prod.splits)
  have N: "names [''.quiksync.tmp'', nm]" using partial_name [OF nm(3)] by (simp add: is_name_def)
  have tmp: "tmp = below (nf_base t) [''.quiksync.tmp'', nm]"
    using nm(4) joinBase_names [OF N, of t] by (auto split: if_splits)
  have P: "nfs_path tmp" "tmp \<noteq> ''''" "nfs_path mnt" "tmp \<noteq> mnt"
    using nfs_path_below [OF base] N joinBase_below [OF j] dest [of nm] j
    by (auto simp: tmp below_def)
  have k2: "still w1 w2" using c2 MkdirAll_still [OF T] by (auto simp: mk_def Let_def split: if_splits)
  have k3: "still w w3" using at_still [OF c1] k2 MkdirAll_still [OF T c3] by (blast intro: still_trans)
  have k4: "only_at fil bnd (Some tmp) w w4" "bnd (nx_srv w4) f = Some tmp"
    using c4 r4 k3 P(1) create [of tmp "nx_srv w3"] create_bnd [of tmp "nx_srv w3"]
    by (auto simp: only_at_def elim!: nfs_callE intro: kept_trans)
  have "still w4 w' \<and> (\<exists>r m n. s = s0\<lparr>nw_old := r, nw_oldSize := m, nw_oldMod := n\<rparr> \<and>
      (r = None \<or> (\<exists>f. r = Some f \<and> bnd (nx_srv w') f = Some mnt)))"
    using old_effect [OF T c5] P(3) by (auto simp: s0_def)
  then show ?thesis
    using k4 P j by (auto simp: nfs_ok_def only_at_def kept_def s0_def)
qed

lemma own_target: "nf_target t = T \<Longrightarrow> t\<lparr>nf_target := T\<rparr> = t"
  by (cases t) auto

lemma write_never_partial:
  assumes "nf_target t = T" and "nfs_open_at bnd p (s, w)" and "run_ops (nfs_step H L t) ops (s, w) = (sw, es)"
  shows "nfs_shown fil p sw = nfs_shown fil p (s, w) \<or>
    (\<exists>a \<in> set ops. \<exists>d c. commits a = Some d \<and> nfs_shown fil p sw = Some c \<and> H c = d)"
  using nfs_staged.never_partial [of p "(s, w)" H L t] assms(2,3) by (simp add: own_target [OF assms(1)])

lemma commit_published:
  assumes "nf_target t = T" and "nfs_open_at bnd p (s, w)" and "run_ops (nfs_step H L t) ops (s, w) = (sw, es)"
    and "nfs_step H L t (SCommit d m mt) sw = (sw', None)" and "\<not> nw_committed (fst sw)"
  shows "\<exists>c. nfs_shown fil p sw' = Some c \<and> H c = d"
proof -
  have o: "nfs_open_at bnd p sw"
    using nfs_staged.run_ok [of p "(s, w)" H L t] assms(2,3) by (simp add: own_target [OF assms(1)])
  obtain s1 w1 s2 w2 where sw: "sw = (s1, w1)" "sw' = (s2, w2)" by force
  have "nfs_Commit H t d m mt (s1, w1) = ((s2, w2), None)" using assms(4) by (simp add: nfs_step_def sw)
  from Commit_effect [OF assms(1) this] o assms(5) show ?thesis
    by (auto simp: sw nfs_open_at_def nfs_shown_def)
qed

end

text \<open>A server with a mounted export, a file below the base directory, and a session on it.\<close>

definition demo_nfs :: "nfs_mem nfs_transport" where
  "demo_nfs = \<lparr>nf_ep = \<lparr>ep_scheme = ''nfs'', ep_user = [], ep_host = ''nas'', ep_port = [], ep_path = ''/export/b'', ep_raw = ''nfs://nas/export/b''\<rparr>,
     nf_target = nfs_mem_api, nf_export = ''/export'', nf_base = ''b''\<rparr>"

definition demo_nfs_world :: "nfs_mem nfs_world" where
  "demo_nfs_world = \<lparr>nx_srv = \<lparr>nv_files = [(''b/f'', [9])], nv_dirs = [''b''], nv_open = [], nv_now = 5\<rparr>, nx_ctx = []\<rparr>"

definition demo_nfs_begin :: "nfs_session \<times> nfs_mem nfs_world" where
  "demo_nfs_begin = (case nfs_begin demo_nfs (Inr [1, 2]) ''f'' 2 demo_nfs_world of (r, w) \<Rightarrow> (projr r, w))"

lemma demo_nfs_begin_ok:
  "nfs_begin demo_nfs (Inr [1, 2]) ''f'' 2 demo_nfs_world = (Inr (fst demo_nfs_begin), snd demo_nfs_begin)"
proof -
  have "\<not> isl (fst (nfs_begin demo_nfs (Inr [1, 2]) ''f'' 2 demo_nfs_world))" by code_simp
  then show ?thesis
    by (cases "nfs_begin demo_nfs (Inr [1, 2]) ''f'' 2 demo_nfs_world") (auto simp: demo_nfs_begin_def isl_def)
qed

section \<open>Properties\<close>

text \<open>
  A path handed to the backend never leaves the base directory: \<open>joinBase\<close> returns the base followed by proper
  names, whatever it is given, and for a list of names it returns exactly those, unless one of them
  contains two consecutive dots, which it refuses although \<open>a..b\<close> is an ordinary file name.
\<close>
theorem joinBase_exact:
  "(\<forall>rel p. joinBase t rel = Inr p \<longrightarrow> (\<exists>cs. names cs \<and> p = below (nf_base t) cs)) \<and>
   (\<forall>cs. names cs \<longrightarrow> joinBase t (join_with ''/'' cs) =
      (if \<exists>c \<in> set cs. Contains c ''..'' then Inl (Msg ''nfs: invalid path %q'') else Inr (below (nf_base t) cs)))"
  using joinBase_below [of t] joinBase_names [of _ t] by blast

theorem joinBase_exact_witness:
  "(\<exists>cs. names cs \<and> ''b/x'' = below ''b'' cs) \<and> joinBase demo_nfs ''a..b'' = Inl (Msg ''nfs: invalid path %q'')"
proof -
  have "joinBase demo_nfs ''../../x'' = Inr ''b/x''" "nf_base demo_nfs = ''b''" "Contains ''a..b'' ''..''" by code_simp+
  moreover have "names [''a..b'']" by (simp add: is_name_def)
  ultimately show ?thesis
    using conjunct1 [OF joinBase_exact [of demo_nfs], THEN spec, THEN spec, of "''../../x''" "''b/x''"]
      conjunct2 [OF joinBase_exact [of demo_nfs], THEN spec, of "[''a..b'']"] by simp
qed

text \<open>
  C16. Over any server that keeps the laws, whatever calls are made on a session and wherever they
  fail or are cancelled, the destination shows what it showed before \<open>BeginWrite\<close> or content whose digest a
  commit was asked for; and a commit that returns no error has published such content.
\<close>
theorem nfs_write_never_partial:
  assumes "nfs_server (nf_target t) fil bnd dirh" and "nfs_path (nf_base t)"
    and "nfs_begin t rnd rel n w = (Inr s, w1)" and "joinBase t rel = Inr p"
    and "\<And>m. p \<noteq> below (nf_base t) [''.quiksync.tmp'', m]"
    and "run_ops (nfs_step H L t) ops (s, w1) = (sw, es)"
  shows "(nfs_shown fil p sw = fil (nx_srv w) p \<or>
      (\<exists>a \<in> set ops. \<exists>d c. commits a = Some d \<and> nfs_shown fil p sw = Some c \<and> H c = d)) \<and>
    (\<forall>d m mt sw'. nfs_step H L t (SCommit d m mt) sw = (sw', None) \<longrightarrow> nw_committed (fst sw) \<or>
      (\<exists>c. nfs_shown fil p sw' = Some c \<and> H c = d))"
proof -
  have b: "nfs_ok bnd (s, w1) \<and> joinBase t rel = Inr (nw_mountRel s) \<and> fil (nx_srv w1) (nw_mountRel s) = fil (nx_srv w) (nw_mountRel s)"
    using nfs_server.begin_ok [OF assms(1) refl assms(2,3)] assms(4,5) by simp
  then have o: "nfs_open_at bnd p (s, w1)" using assms(4) by (simp add: nfs_open_at_def)
  have "nfs_shown fil p (s, w1) = fil (nx_srv w) p" using b assms(4) by (simp add: nfs_shown_def)
  with nfs_server.write_never_partial [OF assms(1) refl o assms(6)] nfs_server.commit_published [OF assms(1) refl o assms(6)]
  show ?thesis by metis
qed

theorem nfs_write_never_partial_witness:
  "let ops = [SWrite 0 CodecNone 2 [1, 2], SCommit [7] 0 None, SCommit [1, 2] 0 None];
       r = run_ops (nfs_step (\<lambda>b. b) demo_lib demo_nfs) ops demo_nfs_begin
   in snd r = [None, Some (Msg ''digest mismatch: got %s want %s''), None] \<and> nfs_shown nv_fil ''b/f'' (fst r) = Some [1, 2] \<and>
      (nfs_shown nv_fil ''b/f'' (fst r) = nv_fil (nx_srv demo_nfs_world) ''b/f'' \<or>
       (\<exists>a \<in> set ops. \<exists>d c. commits a = Some d \<and> nfs_shown nv_fil ''b/f'' (fst r) = Some c \<and> c = d))"
proof -
  let ?ops = "[SWrite 0 CodecNone 2 [1, 2], SCommit [7] 0 None, SCommit [1, 2] 0 None]"
  let ?r = "run_ops (nfs_step (\<lambda>b. b) demo_lib demo_nfs) ?ops demo_nfs_begin"
  have "(case ?r of (sw, es) \<Rightarrow> es = [None, Some (Msg ''digest mismatch: got %s want %s''), None]
      \<and> nfs_shown nv_fil ''b/f'' sw = Some [1, 2])" by code_simp
  then have v: "snd ?r = [None, Some (Msg ''digest mismatch: got %s want %s''), None]" "nfs_shown nv_fil ''b/f'' (fst ?r) = Some [1, 2]"
    unfolding split_beta by (rule conjunct1, rule conjunct2)
  have "joinBase demo_nfs ''f'' = Inr ''b/f''" by code_simp
  then have d: "nf_target demo_nfs = nfs_mem_api" "nf_base demo_nfs = ''b''" "joinBase demo_nfs ''f'' = Inr ''b/f''"
    by (simp_all add: demo_nfs_def)
  have n: "names [''b'']" "names [''f'']" by (simp_all add: is_name_def)
  have b: "nfs_path (nf_base demo_nfs)" using nfs_path_names [OF n(1)] d(2) by simp
  have p: "''b/f'' \<noteq> below (nf_base demo_nfs) [''.quiksync.tmp'', m]" for m by (simp add: d(2) below_def)
  have r: "run_ops (nfs_step (\<lambda>b. b) demo_lib demo_nfs) ?ops (fst demo_nfs_begin, snd demo_nfs_begin) = (fst ?r, snd ?r)"
    by (simp only: prod.collapse)
  have s: "nfs_server (nf_target demo_nfs) nv_fil nv_bnd nv_dirh" using nmem.nfs_server_axioms by (simp add: d(1))
  note conjunct1 [OF nfs_write_never_partial [OF s b demo_nfs_begin_ok d(3) p r]]
  with v show ?thesis unfolding Let_def by blast
qed

end
