(* ===== verification/Pinning.thy ===== *)
theory Pinning
  imports Chunk GoPath Journal
begin

text \<open>
  Who is at the other end: trust on first use of the daemon's certificate
  (\<open>internal/transport/daemon/tofu.go\<close>), one client and several at once, and the host keys and private keys of the
  native ssh client (\<open>internal/transport/ssh/native.go\<close>). SHA-256, X.509 and the ssh library are parameters; a system call
  takes its outcome from a list, \<open>Some (n, e)\<close> being the failure \<open>e\<close> after \<open>n\<close> bytes.
\<close>

section \<open>Certificates\<close>

text \<open>\<open>env\<close> is \<open>QUIKSYNC_CONFIG\<close>, \<open>userdir\<close> the outcome of \<open>os.UserConfigDir\<close>.\<close>

definition tofu_configDir :: "string \<Rightarrow> string res \<Rightarrow> string res" where
  "tofu_configDir env userdir =
     (if env \<noteq> '''' then Inr env
      else case userdir of Inl e \<Rightarrow> Inl e | Inr home \<Rightarrow> Inr (PathJoin [home, ''quiksync'']))"

definition certPaths :: "string res \<Rightarrow> (string \<times> string) res" where
  "certPaths dir =
     (case dir of Inl e \<Rightarrow> Inl e | Inr d \<Rightarrow> Inr (PathJoin [d, ''daemon.crt''], PathJoin [d, ''daemon.key'']))"

definition pin_name :: "string \<Rightarrow> string" where
  "pin_name hostport = map (\<lambda>c. if job_char c then c else CHR ''_'') hostport"

definition pinPath :: "string res \<Rightarrow> string \<Rightarrow> string res" where
  "pinPath dir hostport =
     (case dir of Inl e \<Rightarrow> Inl e | Inr d \<Rightarrow> Inr (PathJoin [d, ''pins'', pin_name hostport @ ''.pin'']))"

definition fingerprint :: "(bytes \<Rightarrow> bytes) \<Rightarrow> bytes \<Rightarrow> string" where
  "fingerprint sha raw = digest_string (sha raw)"

text \<open>
  \<open>load\<close> is \<open>tls.LoadX509KeyPair\<close>, \<open>gen\<close> the generated material with its PEM texts; the files are written in a
  file system \<open>'d\<close>.
\<close>

record ('c, 'd) cert_lib =
  ct_load :: "string \<Rightarrow> string \<Rightarrow> 'd \<Rightarrow> 'c res"
  ct_exists :: "string \<Rightarrow> 'd \<Rightarrow> bool"
  ct_gen :: "('c \<times> bytes \<times> bytes) res"
  ct_mkdir :: "string \<Rightarrow> 'd \<Rightarrow> goerr option \<times> 'd"
  ct_write :: "string \<Rightarrow> bytes \<Rightarrow> nat \<Rightarrow> 'd \<Rightarrow> goerr option \<times> 'd"

definition loadOrCreatePinnedTLS :: "('c, 'd) cert_lib \<Rightarrow> string res \<Rightarrow> string \<Rightarrow> string \<Rightarrow> 'd \<Rightarrow> 'c res \<times> 'd" where
  "loadOrCreatePinnedTLS K dir certFile keyFile d =
     (if certFile \<noteq> '''' \<and> keyFile \<noteq> '''' then (ct_load K certFile keyFile d, d)
      else case certPaths dir of
        Inl e \<Rightarrow> (Inl e, d)
      | Inr (cFile, kFile) \<Rightarrow>
          if ct_exists K cFile d then (ct_load K cFile kFile d, d)
          else (case ct_gen K of
                  Inl e \<Rightarrow> (Inl e, d)
                | Inr (conf, certPEM, keyPEM) \<Rightarrow>
                    (case ct_mkdir K (DirPath cFile) d of
                       (Some e, d1) \<Rightarrow> (Inl e, d1)
                     | (None, d1) \<Rightarrow>
                         (case ct_write K cFile certPEM 420 d1 of
                            (Some e, d2) \<Rightarrow> (Inl e, d2)
                          | (None, d2) \<Rightarrow>
                              (case ct_write K kFile keyPEM 384 d2 of
                                 (Some e, d3) \<Rightarrow> (Inl e, d3)
                               | (None, d3) \<Rightarrow> (Inr conf, d3))))))"

section \<open>Trust on first use\<close>

type_synonym outcome = "(nat \<times> goerr) option"

definition next_outcome :: "outcome list \<Rightarrow> outcome \<times> outcome list" where
  "next_outcome os = (case os of [] \<Rightarrow> (None, []) | x # xs \<Rightarrow> (x, xs))"

definition pin_mismatch :: goerr where
  "pin_mismatch = Msg ''TOFU pin mismatch for %s: got %s want %s (delete pin or use --insecure)''"

definition pin_check :: "string \<Rightarrow> string \<Rightarrow> goerr option" where
  "pin_check fp stored = (if TrimSpace stored \<noteq> fp then Some pin_mismatch else None)"

definition newline :: string where "newline = [CHR 0x0A]"

text \<open>Writing the pin into the file just created, and closing it.\<close>

definition pin_write :: "string \<Rightarrow> outcome list \<Rightarrow> goerr option \<times> string option" where
  "pin_write fp os =
     (case next_outcome os of
        (Some (n, werr), os1) \<Rightarrow> (Some werr, Some (take n (fp @ newline)))
      | (None, os1) \<Rightarrow> (map_option snd (fst (next_outcome os1)), Some (fp @ newline)))"

text \<open>The part of \<open>verifyTOFU\<close> after the fingerprint; the pin file is its content, or \<open>None\<close>.\<close>

definition tofu_verify :: "string \<Rightarrow> outcome list \<Rightarrow> string option \<Rightarrow> goerr option \<times> string option" where
  "tofu_verify fp os pin =
     (case next_outcome os of (r0, os1) \<Rightarrow>
      case (case r0 of Some (n, e) \<Rightarrow> Inl e | None \<Rightarrow> (case pin of None \<Rightarrow> Inl NotExist | Some s \<Rightarrow> Inr s)) of
        Inr stored \<Rightarrow> (pin_check fp stored, pin)
      | Inl e \<Rightarrow>
          if e \<noteq> NotExist then (Some e, pin)
          else (case next_outcome os1 of
                  (Some (n, e), os2) \<Rightarrow> (Some e, pin)
                | (None, os2) \<Rightarrow>
                    (case next_outcome os2 of
                       (Some (n, e), os3) \<Rightarrow> (Some e, pin)
                     | (None, os3) \<Rightarrow>
                         (case pin of
                            None \<Rightarrow> pin_write fp os3
                          | Some s \<Rightarrow>
                              (case next_outcome os3 of
                                 (Some (n, e), os4) \<Rightarrow> (Some e, pin)
                               | (None, os4) \<Rightarrow> (pin_check fp s, pin))))))"

definition verifyTOFU ::
  "(bytes \<Rightarrow> bytes) \<Rightarrow> string res \<Rightarrow> string \<Rightarrow> bool \<Rightarrow> bytes list \<Rightarrow> outcome list \<Rightarrow> string option \<Rightarrow> goerr option \<times> string option" where
  "verifyTOFU sha dir hostport insecure certs os pin =
     (case certs of
        [] \<Rightarrow> (Some (Msg ''no peer certificate''), pin)
      | c # cs \<Rightarrow>
          if insecure then (None, pin)
          else case pinPath dir hostport of
            Inl e \<Rightarrow> (Some e, pin)
          | Inr path \<Rightarrow> tofu_verify (fingerprint sha c) os pin)"

section \<open>Several clients\<close>

text \<open>
  Where a client stands between two system calls, and one call with its outcome. The creation of the
  file is exclusive, but it is another call that writes the pin.
\<close>

datatype tofu_pc = TRead | TMkdir | TCreate | TReread | TWrite | TClose "goerr option" | TDone "goerr option"

fun tofu_call :: "string \<Rightarrow> outcome \<Rightarrow> tofu_pc \<Rightarrow> string option \<Rightarrow> tofu_pc \<times> string option" where
  "tofu_call fp (Some (n, e)) TRead pin = (if e = NotExist then TMkdir else TDone (Some e), pin)"
| "tofu_call fp None TRead pin = (case pin of None \<Rightarrow> TMkdir | Some s \<Rightarrow> TDone (pin_check fp s), pin)"
| "tofu_call fp (Some (n, e)) TMkdir pin = (TDone (Some e), pin)"
| "tofu_call fp None TMkdir pin = (TCreate, pin)"
| "tofu_call fp (Some (n, e)) TCreate pin = (TDone (Some e), pin)"
| "tofu_call fp None TCreate pin = (case pin of None \<Rightarrow> (TWrite, Some []) | Some s \<Rightarrow> (TReread, pin))"
| "tofu_call fp (Some (n, e)) TReread pin = (TDone (Some e), pin)"
| "tofu_call fp None TReread pin = (case pin of None \<Rightarrow> TDone (Some NotExist) | Some s \<Rightarrow> TDone (pin_check fp s), pin)"
| "tofu_call fp (Some (n, e)) TWrite pin = (TClose (Some e), Some (take n (fp @ newline)))"
| "tofu_call fp None TWrite pin = (TClose None, Some (fp @ newline))"
| "tofu_call fp oc (TClose werr) pin = (TDone (case werr of Some e \<Rightarrow> Some e | None \<Rightarrow> map_option snd oc), pin)"
| "tofu_call fp oc (TDone r) pin = (TDone r, pin)"

fun tofu_alone :: "nat \<Rightarrow> string \<Rightarrow> outcome list \<Rightarrow> tofu_pc \<Rightarrow> string option \<Rightarrow> tofu_pc \<times> string option" where
  "tofu_alone 0 fp os pc pin = (pc, pin)"
| "tofu_alone (Suc n) fp os pc pin =
     (case next_outcome os of (oc, os') \<Rightarrow> (case tofu_call fp oc pc pin of (pc', pin') \<Rightarrow> tofu_alone n fp os' pc' pin'))"

text \<open>A client that is not disturbed ends after at most five calls, as \<open>verifyTOFU\<close> does.\<close>

lemma tofu_alone_done [simp]: "tofu_alone n fp os (TDone r) pin = (TDone r, pin)"
  by (induction n arbitrary: os) (auto split: prod.splits)

lemma tofu_alone_verify:
  "tofu_alone 5 fp os TRead pin = (case tofu_verify fp os pin of (e, pin') \<Rightarrow> (TDone e, pin'))"
  by (auto simp: numeral_eq_Suc tofu_verify_def pin_write_def next_outcome_def split: list.splits option.splits prod.splits)

record tofu_sys =
  ts_pc :: "nat \<Rightarrow> tofu_pc"
  ts_pin :: "string option"

inductive tofu_step :: "(nat \<Rightarrow> string) \<Rightarrow> tofu_sys \<Rightarrow> tofu_sys \<Rightarrow> bool" for fps where
  t_call: "tofu_call (fps i) oc (ts_pc s i) (ts_pin s) = (pc, pin) \<Longrightarrow>
    tofu_step fps s \<lparr>ts_pc = (ts_pc s)(i := pc), ts_pin = pin\<rparr>"

inductive tofu_reach :: "(nat \<Rightarrow> string) \<Rightarrow> string option \<Rightarrow> tofu_sys \<Rightarrow> bool" for fps p0 where
  t_init: "tofu_reach fps p0 \<lparr>ts_pc = (\<lambda>i. TRead), ts_pin = p0\<rparr>"
| t_step: "tofu_reach fps p0 s \<Longrightarrow> tofu_step fps s s' \<Longrightarrow> tofu_reach fps p0 s'"

inductive_cases tofu_stepE: "tofu_step fps s s'"

text \<open>A fingerprint: 64 characters and no white space.\<close>

definition fp_ok :: "string \<Rightarrow> bool" where
  "fp_ok fp \<longleftrightarrow> length fp = 64 \<and> (\<forall>c \<in> set fp. c \<notin> set space_chars)"

definition writing :: "tofu_pc \<Rightarrow> bool" where
  "writing pc \<longleftrightarrow> pc = TWrite \<or> (\<exists>e. pc = TClose e)"

definition accepted :: "tofu_pc \<Rightarrow> bool" where
  "accepted pc \<longleftrightarrow> pc = TDone None"

text \<open>
  With a pin there is no writer. Without one, nobody is accepted before the file exists, and then it
  has one creator, whose fingerprint is what the file holds as far as it is written.
\<close>

definition tofu_inv :: "(nat \<Rightarrow> string) \<Rightarrow> string option \<Rightarrow> tofu_sys \<Rightarrow> bool" where
  "tofu_inv fps p0 s \<longleftrightarrow>
     (case p0 of
        Some c \<Rightarrow> ts_pin s = Some c \<and> (\<forall>i. \<not> writing (ts_pc s i) \<and> (accepted (ts_pc s i) \<longrightarrow> TrimSpace c = fps i))
      | None \<Rightarrow>
          ts_pin s = None \<and> (\<forall>i. \<not> writing (ts_pc s i) \<and> \<not> accepted (ts_pc s i)) \<or>
          (\<exists>w k. ts_pin s = Some (take k (fps w @ newline)) \<and> (\<forall>i. i \<noteq> w \<longrightarrow> \<not> writing (ts_pc s i)) \<and>
             (\<forall>i. accepted (ts_pc s i) \<longrightarrow> fps i = fps w)))"

lemma dropWhile_clean: "\<forall>c \<in> set s. \<not> P c \<Longrightarrow> dropWhile P s = s"
  by (cases s) auto

lemma TrimSpace_clean: "\<forall>c \<in> set s. c \<notin> set space_chars \<Longrightarrow> TrimSpace s = s"
  by (simp add: TrimSpace_def dropWhile_clean)

lemma TrimSpace_newline: "\<forall>c \<in> set s. c \<notin> set space_chars \<Longrightarrow> s \<noteq> [] \<Longrightarrow> TrimSpace (s @ newline) = s"
  by (cases s) (auto simp: TrimSpace_def newline_def dropWhile_clean dropWhile_append space_chars_def)

lemma partial_pin:
  assumes "fp_ok f" and "fp_ok g" and "TrimSpace (take k (f @ newline)) = g"
  shows "f = g"
proof -
  have c: "\<forall>c \<in> set f. c \<notin> set space_chars" "length f = 64" "length g = 64" using assms by (auto simp: fp_ok_def)
  consider "k < 64" | "k = 64" | "k > 64" by linarith
  then show ?thesis
  proof cases
    case 1
    have "take k (f @ newline) = take k f" using 1 c by simp
    moreover have "TrimSpace (take k f) = take k f" using c(1) by (intro TrimSpace_clean) (auto dest: in_set_takeD)
    ultimately have "length g = k" using assms(3) 1 c by auto
    then show ?thesis using c 1 by simp
  next
    case 2
    then show ?thesis using assms(3) c TrimSpace_clean [OF c(1)] by simp
  next
    case 3
    then have "take k (f @ newline) = f @ newline" using c by (simp add: newline_def)
    then show ?thesis using assms(3) c TrimSpace_newline [OF c(1)] by fastforce
  qed
qed

lemma pin_check_None [simp]: "pin_check fp s = None \<longleftrightarrow> TrimSpace s = fp"
  by (simp add: pin_check_def)

lemma pc_simps [simp]:
  "writing TWrite" "writing (TClose e)" "\<not> writing TRead" "\<not> writing TMkdir" "\<not> writing TCreate" "\<not> writing TReread" "\<not> writing (TDone r)"
  "accepted (TDone r) \<longleftrightarrow> r = None" "\<not> accepted TRead" "\<not> accepted TMkdir" "\<not> accepted TCreate" "\<not> accepted TReread"
  "\<not> accepted TWrite" "\<not> accepted (TClose e)"
  by (simp_all add: writing_def accepted_def)

text \<open>What a call does, by what it finds.\<close>

lemma call_reader:
  assumes "tofu_call fp oc pc (Some c) = (pc', pin')" and "\<not> writing pc"
  shows "pin' = Some c \<and> \<not> writing pc' \<and> (accepted pc' \<longrightarrow> accepted pc \<or> TrimSpace c = fp)"
  using assms by (cases "(fp, oc, pc, Some c)" rule: tofu_call.cases) (auto split: if_splits option.splits)

lemma call_absent:
  assumes "tofu_call fp oc pc None = (pc', pin')" and "\<not> writing pc" and "\<not> accepted pc"
  shows "\<not> accepted pc' \<and> (pin' = None \<and> \<not> writing pc' \<or> pin' = Some [])"
  using assms by (cases "(fp, oc, pc, None :: string option)" rule: tofu_call.cases) (auto split: if_splits option.splits)

lemma call_writer:
  assumes "tofu_call fp oc pc (Some (take k (fp @ newline))) = (pc', pin')" and "writing pc"
  shows "\<exists>n. pin' = Some (take n (fp @ newline))"
proof -
  have "\<exists>n. fp @ newline = take n (fp @ newline)" by (intro exI [of _ "length (fp @ newline)"]) simp
  then show ?thesis using assms
    by (cases "(fp, oc, pc, Some (take k (fp @ newline)))" rule: tofu_call.cases) (auto split: if_splits option.splits)
qed

lemma pin_step_inv:
  assumes fp: "\<And>i. fp_ok (fps i)" and inv: "tofu_inv fps p0 s" and st: "tofu_step fps s s'"
  shows "tofu_inv fps p0 s'"
proof -
  obtain i oc pc pin where c: "tofu_call (fps i) oc (ts_pc s i) (ts_pin s) = (pc, pin)"
    and s': "s' = \<lparr>ts_pc = (ts_pc s)(i := pc), ts_pin = pin\<rparr>"
    using st by (rule tofu_stepE) blast
  show ?thesis
  proof (cases p0)
    case (Some x)
    then have p: "ts_pin s = Some x" "\<And>j. \<not> writing (ts_pc s j) \<and> (accepted (ts_pc s j) \<longrightarrow> TrimSpace x = fps j)"
      using inv by (auto simp: tofu_inv_def)
    from call_reader [OF c [unfolded p(1)]] p(2) show ?thesis by (auto simp: tofu_inv_def Some s')
  next
    case None
    then consider (absent) "ts_pin s = None" "\<And>j. \<not> writing (ts_pc s j) \<and> \<not> accepted (ts_pc s j)"
      | (created) w k where "ts_pin s = Some (take k (fps w @ newline))" "\<And>j. j \<noteq> w \<Longrightarrow> \<not> writing (ts_pc s j)"
          "\<And>j. accepted (ts_pc s j) \<Longrightarrow> fps j = fps w"
      using inv unfolding tofu_inv_def by auto
    then show ?thesis
    proof cases
      case absent
      from call_absent [OF c [unfolded absent(1)]] absent(2)
      have na: "\<not> accepted pc" and "pin = None \<and> \<not> writing pc \<or> pin = Some (take 0 (fps i @ newline))" by auto
      then consider "pin = None" "\<not> writing pc" | "pin = Some (take 0 (fps i @ newline))" by blast
      then show ?thesis
      proof cases
        case 1
        then show ?thesis using absent(2) None na by (simp add: tofu_inv_def s')
      next
        case 2
        have "tofu_inv fps None s'"
          unfolding tofu_inv_def option.case s' by (intro disjI2 exI [of _ i] exI [of _ 0]) (use 2 absent(2) na in auto)
        then show ?thesis using None by simp
      qed
    next
      case created
      have pin: "\<exists>n. pin = Some (take n (fps w @ newline))" and wr: "i \<noteq> w \<Longrightarrow> \<not> writing pc"
        and acc: "accepted pc \<Longrightarrow> fps i = fps w"
      proof -
        show "\<exists>n. pin = Some (take n (fps w @ newline))"
        proof (cases "writing (ts_pc s i)")
          case True
          then have "i = w" using created(2) by blast
          then show ?thesis using call_writer [of "fps w" oc "ts_pc s i" k pc pin] c created(1) True by simp
        qed (use call_reader [OF c [unfolded created(1)]] in blast)
        show "\<not> writing pc" if "i \<noteq> w" using call_reader [OF c [unfolded created(1)] created(2) [OF that]] by blast
        show "fps i = fps w" if a: "accepted pc"
        proof (cases "i = w")
          case False
          from call_reader [OF c [unfolded created(1)] created(2) [OF False]] a
          have "accepted (ts_pc s i) \<or> TrimSpace (take k (fps w @ newline)) = fps i" by blast
          then show ?thesis using created(3) partial_pin [OF fp fp] by metis
        qed simp
      qed
      then obtain n where "pin = Some (take n (fps w @ newline))" by blast
      then have "tofu_inv fps None s'"
        unfolding tofu_inv_def option.case s'
        by (intro disjI2 exI [of _ w] exI [of _ n]) (use created(2,3) wr acc in auto)
      then show ?thesis using None by simp
    qed
  qed
qed

lemma reach_inv: "tofu_reach fps p0 s \<Longrightarrow> (\<And>i. fp_ok (fps i)) \<Longrightarrow> tofu_inv fps p0 s"
proof (induction rule: tofu_reach.induct)
  case t_init
  then show ?case by (simp add: tofu_inv_def split: option.split)
next
  case (t_step s s')
  then show ?case using pin_step_inv by blast
qed

lemma reach_call:
  assumes "tofu_reach fps p0 \<lparr>ts_pc = f, ts_pin = p\<rparr>" and "tofu_call (fps i) oc (f i) p = (pc, pin)"
  shows "tofu_reach fps p0 \<lparr>ts_pc = f(i := pc), ts_pin = pin\<rparr>"
  using tofu_reach.t_step [OF assms(1) tofu_step.t_call [of fps i oc]] assms(2) by simp

lemma fingerprint_ok: "length (sha raw) = 32 \<Longrightarrow> fp_ok (fingerprint sha raw)"
proof -
  assume l: "length (sha raw) = 32"
  have "\<forall>c \<in> set hexdigits. c \<notin> set space_chars" by (simp add: hexdigits_def space_chars_def)
  moreover have "length hexdigits = 16" by (simp add: hexdigits_def)
  ultimately have h: "n < 16 \<Longrightarrow> hexdigits ! n \<notin> set space_chars" for n by simp
  have "length (digest_string d) = 2 * length d" for d :: digest by (induction d) (auto simp: digest_string_def)
  then show ?thesis
    using l h [OF nibbles(1)] h [OF nibbles(2)] by (auto simp: fp_ok_def fingerprint_def digest_string_def)
qed

text \<open>A second client that comes between the creation and the write finds an empty pin and is turned away.\<close>

lemma tofu_race_rejects:
  "\<exists>s :: tofu_sys. tofu_reach (\<lambda>i. fp) None s \<and> (fp \<noteq> '''' \<longrightarrow> ts_pc s 1 = TDone (Some pin_mismatch))"
proof -
  let ?f1 = "(\<lambda>i :: nat. TRead)(0 := TMkdir)" and ?f2 = "(\<lambda>i :: nat. TRead)(0 := TMkdir, 0 := TCreate)"
  have 1: "tofu_reach (\<lambda>i. fp) None \<lparr>ts_pc = ?f1, ts_pin = None\<rparr>" by (rule reach_call [OF tofu_reach.t_init, where oc = None]) simp
  have 2: "tofu_reach (\<lambda>i. fp) None \<lparr>ts_pc = ?f2, ts_pin = None\<rparr>" by (rule reach_call [OF 1, where oc = None]) simp
  have 3: "tofu_reach (\<lambda>i. fp) None \<lparr>ts_pc = ?f2(0 := TWrite), ts_pin = Some []\<rparr>" by (rule reach_call [OF 2, where oc = None]) simp
  have 4: "tofu_reach (\<lambda>i. fp) None \<lparr>ts_pc = ?f2(0 := TWrite, 1 := TDone (pin_check fp [])), ts_pin = Some []\<rparr>"
    by (rule reach_call [OF 3, where oc = None]) simp
  show ?thesis by (rule exI, rule conjI, rule 4) (simp add: pin_check_def TrimSpace_def)
qed

section \<open>The native ssh client\<close>

definition useNativeSSH :: "bool \<Rightarrow> string \<Rightarrow> bool" where
  "useNativeSSH preferNative env \<longleftrightarrow> preferNative \<or> env \<in> {''1'', ''true'', ''yes''}"

definition sshInsecureHostKey :: "string \<Rightarrow> bool" where
  "sshInsecureHostKey env \<longleftrightarrow> env \<in> {''1'', ''true'', ''yes''}"

text \<open>The keys that can be read and parsed, in their order.\<close>

definition nativeAuthMethods :: "string res \<Rightarrow> (string \<Rightarrow> bytes res) \<Rightarrow> (bytes \<Rightarrow> 'k res) \<Rightarrow> 'k list res" where
  "nativeAuthMethods home rd parse =
     (let signers = (case home of
            Inl e \<Rightarrow> []
          | Inr h \<Rightarrow> List.map_filter (\<lambda>name. case rd (PathJoin [h, ''.ssh'', name]) of
              Inl e \<Rightarrow> None
            | Inr key \<Rightarrow> (case parse key of Inl e \<Rightarrow> None | Inr s \<Rightarrow> Some s)) [''id_ed25519'', ''id_ecdsa'', ''id_rsa''])
      in if signers = [] then Inl (Msg ''ssh: no usable private keys in ~/.ssh/id_*'') else Inr signers)"

text \<open>What \<open>knownhosts\<close> answers: the key is known, the host is not, or anything else.\<close>

datatype host_answer = HKnown | HUnknown goerr | HOther goerr

text \<open>The callback: an unknown host is accepted once its line has been asked to be appended, whatever comes of it.\<close>

definition host_key_callback :: "host_answer \<Rightarrow> outcome list \<Rightarrow> string \<Rightarrow> string \<Rightarrow> goerr option \<times> string" where
  "host_key_callback a os line file =
     (case a of
        HKnown \<Rightarrow> (None, file)
      | HOther e \<Rightarrow> (Some e, file)
      | HUnknown e \<Rightarrow>
          (case next_outcome os of
             (Some (n, openErr), os1) \<Rightarrow> (Some e, file)
           | (None, os1) \<Rightarrow>
               (case fst (next_outcome os1) of
                  Some (n, werr) \<Rightarrow> (None, file @ take n (line @ newline))
                | None \<Rightarrow> (None, file @ line @ newline))))"

text \<open>\<open>nativeHostKeyCallback\<close> up to the callback: \<open>stat\<close>, \<open>mkdir\<close>, \<open>create\<close> and \<open>new\<close> are outcomes of their calls.\<close>

datatype host_keys = HAny | HFile string

definition nativeHostKeyCallback ::
  "string \<Rightarrow> string res \<Rightarrow> goerr option \<Rightarrow> goerr option \<Rightarrow> goerr option \<Rightarrow> goerr option \<Rightarrow> host_keys res" where
  "nativeHostKeyCallback env home mkdir stat create new =
     (if sshInsecureHostKey env then Inr HAny
      else case home of
        Inl e \<Rightarrow> Inl (Wrap ''ssh: cannot resolve home for known_hosts (set QUIKSYNC_SSH_INSECURE=1 for labs): %w'' e)
      | Inr h \<Rightarrow>
          (case mkdir of
             Some e \<Rightarrow> Inl (Wrap ''ssh: create ~/.ssh: %w'' e)
           | None \<Rightarrow>
               (case (case stat of
                        None \<Rightarrow> None
                      | Some e \<Rightarrow> if e \<noteq> NotExist then Some (Wrap ''ssh: known_hosts: %w'' e)
                                  else map_option (Wrap ''ssh: create known_hosts: %w'') create) of
                  Some e \<Rightarrow> Inl e
                | None \<Rightarrow>
                    (case new of
                       Some e \<Rightarrow> Inl (Wrap ''known_hosts: %w'' e)
                     | None \<Rightarrow> Inr (HFile (PathJoin [PathJoin [h, ''.ssh''], ''known_hosts''])))))) "

text \<open>
  \<open>dialNativeContext\<close>: what is dialled, and what of the dialling goroutine's result reaches the caller. When
  the context is done first, the connection that may still be made is closed.
\<close>

definition native_user :: "(string \<Rightarrow> string) \<Rightarrow> string \<Rightarrow> string" where
  "native_user env user = (if user \<noteq> '''' then user else if env ''USER'' \<noteq> '''' then env ''USER'' else env ''USERNAME'')"

definition JoinHostPort :: "string \<Rightarrow> string \<Rightarrow> string" where
  "JoinHostPort host port =
     (if Contains host '':'' then ''['' @ host @ '']:'' @ port else host @ '':'' @ port)"

record ('c, 's, 'x) ssh_lib =
  sl_dial :: "string \<Rightarrow> string \<Rightarrow> host_keys \<Rightarrow> 'x \<Rightarrow> 'c res \<times> 'x"
  sl_session :: "'c \<Rightarrow> 'x \<Rightarrow> 's res \<times> 'x"
  sl_close_client :: "'c \<Rightarrow> 'x \<Rightarrow> 'x"
  sl_close_session :: "'s \<Rightarrow> 'x \<Rightarrow> 'x"

definition native_connect :: "('c, 's, 'x) ssh_lib \<Rightarrow> string \<Rightarrow> string \<Rightarrow> host_keys \<Rightarrow> 'x \<Rightarrow> ('c \<times> 's) res \<times> 'x" where
  "native_connect S addr user hk x =
     (case sl_dial S addr user hk x of
        (Inl e, x1) \<Rightarrow> (Inl (Wrap ''ssh dial %s: %w'' e), x1)
      | (Inr c, x1) \<Rightarrow>
          (case sl_session S c x1 of
             (Inl e, x2) \<Rightarrow> (Inl (Wrap ''ssh session: %w'' e), sl_close_client S c x2)
           | (Inr s, x2) \<Rightarrow> (Inr (c, s), x2)))"

definition dialNativeContext ::
  "('c, 's, 'x) ssh_lib \<Rightarrow> (string \<Rightarrow> string) \<Rightarrow> 'k list res \<Rightarrow> host_keys res \<Rightarrow> goerr option \<Rightarrow> string \<Rightarrow> string \<Rightarrow> string \<Rightarrow> 'x
     \<Rightarrow> ('c \<times> 's) res \<times> 'x" where
  "dialNativeContext S env auth hostKeys done user host port x =
     (case auth of
        Inl e \<Rightarrow> (Inl e, x)
      | Inr signers \<Rightarrow>
          (case hostKeys of
             Inl e \<Rightarrow> (Inl e, x)
           | Inr hk \<Rightarrow>
               (case native_connect S (JoinHostPort host (if port = '''' then ''22'' else port)) (native_user env user) hk x of
                  (r, x1) \<Rightarrow>
                    (case done of
                       None \<Rightarrow> (r, x1)
                     | Some e \<Rightarrow>
                         (Inl e, case r of Inl _ \<Rightarrow> x1 | Inr (c, s) \<Rightarrow> sl_close_client S c (sl_close_session S s x1))))))"

text \<open>A host whose key has changed is never accepted, and nothing is written.\<close>

lemma changed_key_rejected: "host_key_callback (HOther e) os line file = (Some e, file)"
  by (simp add: host_key_callback_def)

lemma unknown_host_pinned:
  "host_key_callback (HUnknown e) [] line file = (None, file @ line @ newline)"
  by (simp add: host_key_callback_def next_outcome_def)

section \<open>Properties\<close>

text \<open>
  C33. However many clients connect to a host for the first time at once, and wherever their system calls fail, all
  that are accepted have seen the same certificate, by its fingerprint; and where a pin existed before, it is the pinned one.
\<close>
theorem tofu_single_peer:
  assumes "tofu_reach fps p0 s" and "\<And>i. fps i = fingerprint sha (raw i)" and "\<And>b. length (sha b) = 32"
    and "ts_pc s i = TDone None" and "ts_pc s j = TDone None"
  shows "fingerprint sha (raw i) = fingerprint sha (raw j) \<and>
    (case p0 of None \<Rightarrow> True | Some c \<Rightarrow> fingerprint sha (raw i) = TrimSpace c)"
proof -
  have "tofu_inv fps p0 s" by (rule reach_inv [OF assms(1)]) (simp add: assms(2,3) fingerprint_ok)
  moreover have "accepted (ts_pc s i)" "accepted (ts_pc s j)" using assms(4,5) by simp_all
  ultimately show ?thesis unfolding tofu_inv_def assms(2) [symmetric] by (cases p0) (auto, metis)
qed

definition demo_sum :: "bytes \<Rightarrow> bytes" where "demo_sum b = replicate 32 (hd b)"

theorem tofu_single_peer_witness:
  "\<exists>s. tofu_reach (\<lambda>i. fingerprint demo_sum [7]) (Some (fingerprint demo_sum [7] @ newline)) s \<and>
     ts_pc s 0 = TDone None \<and> ts_pc s 1 = TDone None \<and> ts_pin s = Some (fingerprint demo_sum [7] @ newline) \<and>
     fingerprint demo_sum [7] = TrimSpace (fingerprint demo_sum [7] @ newline)"
proof -
  let ?fp = "fingerprint demo_sum [7]"
  let ?p = "?fp @ newline"
  have ok: "fp_ok ?fp" by (rule fingerprint_ok) (simp add: demo_sum_def)
  then have "?fp \<noteq> []" "\<forall>c \<in> set ?fp. c \<notin> set space_chars" by (auto simp: fp_ok_def)
  then have t: "TrimSpace ?p = ?fp" by (simp add: TrimSpace_newline)
  have 1: "tofu_reach (\<lambda>i. ?fp) (Some ?p) \<lparr>ts_pc = (\<lambda>i. TRead)(0 := TDone None), ts_pin = Some ?p\<rparr>"
    by (rule reach_call [OF tofu_reach.t_init, where oc = None]) (simp add: t)
  have 2: "tofu_reach (\<lambda>i. ?fp) (Some ?p) \<lparr>ts_pc = (\<lambda>i. TRead)(0 := TDone None, 1 := TDone None), ts_pin = Some ?p\<rparr>"
    by (rule reach_call [OF 1, where oc = None]) (simp add: t)
  have l: "length (demo_sum b) = 32" for b by (simp add: demo_sum_def)
  let ?s = "\<lparr>ts_pc = (\<lambda>i. TRead)(0 := TDone None, 1 := TDone None), ts_pin = Some ?p\<rparr>"
  have d: "ts_pc ?s 0 = TDone None" "ts_pc ?s 1 = TDone None" "ts_pin ?s = Some ?p" by simp_all
  have e: "?fp = TrimSpace ?p" using conjunct2 [OF tofu_single_peer [OF 2 refl l d(1,2)]] by simp
  show ?thesis by (intro exI [of _ ?s] conjI 2 d e)
qed

end
