(* ===== verification/Serve.thy ===== *)
theory Serve
  imports RemoteJob Endpoint Pinning
begin

text \<open>
  The daemon (\<open>Serve\<close>, \<open>handleConn\<close> and the dialling in \<open>internal/transport/daemon/quic.go\<close>, \<open>internal/cli/serve.go\<close>) and the
  signal client that dials it (\<open>internal/relay/signal_quic.go\<close>). The QUIC library is a parameter: an accepted
  connection is the list of its streams, each of which runs a helper session.
\<close>

section \<open>Addresses\<close>

text \<open>\<open>net.SplitHostPort\<close>; \<open>net.ParseIP\<close> is a parameter that yields the 4 or 16 bytes of an address.\<close>

definition SplitHostPort :: "string \<Rightarrow> (string \<times> string) res" where
  "SplitHostPort hp =
     (case last_index hp CHR '':'' of
        None \<Rightarrow> Inl (Msg ''missing port in address'')
      | Some i \<Rightarrow>
          if HasPrefix hp ''['' then
            (case str_index hp '']'' of
               None \<Rightarrow> Inl (Msg ''missing ']' in address'')
             | Some end \<Rightarrow>
                 if end + 1 = length hp then Inl (Msg ''missing port in address'')
                 else if end + 1 \<noteq> i
                 then Inl (Msg (if hp ! (end + 1) = CHR '':'' then ''too many colons in address'' else ''missing port in address''))
                 else if CHR ''['' \<in> set (drop 1 hp) then Inl (Msg ''unexpected '[' in address'')
                 else if CHR '']'' \<in> set (drop (end + 1) hp) then Inl (Msg ''unexpected ']' in address'')
                 else Inr (drop 1 (take end hp), drop (i + 1) hp))
          else if CHR '':'' \<in> set (take i hp) then Inl (Msg ''too many colons in address'')
          else if CHR ''['' \<in> set hp then Inl (Msg ''unexpected '[' in address'')
          else if CHR '']'' \<in> set hp then Inl (Msg ''unexpected ']' in address'')
          else Inr (take i hp, drop (i + 1) hp))"

text \<open>\<open>IP.IsLoopback\<close>, where an IPv4 address may be written as an IPv6 one.\<close>

definition IsLoopback :: "bytes \<Rightarrow> bool" where
  "IsLoopback ip =
     (if length ip = 4 then hd ip = 127
      else if length ip = 16 \<and> take 12 ip = replicate 10 0 @ [255, 255] then ip ! 12 = 127
      else ip = replicate 15 0 @ [1])"

definition IsLoopbackListen :: "(string \<Rightarrow> bytes option) \<Rightarrow> string \<Rightarrow> bool" where
  "IsLoopbackListen parse_ip listen =
     (case SplitHostPort listen of
        Inl e \<Rightarrow> False
      | Inr (host0, _) \<Rightarrow>
          let host = TrimSpace host0 in
          if host = '''' then False
          else if host = ''localhost'' then True
          else case parse_ip host of None \<Rightarrow> False | Some ip \<Rightarrow> IsLoopback ip)"

section \<open>Serving\<close>

record serve_config =
  sv_listen :: string
  sv_cert :: string
  sv_key :: string
  sv_root :: string
  sv_token :: string
  sv_noauth :: bool

definition serve_guard :: "(string \<Rightarrow> bytes option) \<Rightarrow> serve_config \<Rightarrow> goerr option" where
  "serve_guard parse_ip cfg =
     (if sv_token cfg = '''' \<and> \<not> IsLoopbackListen parse_ip (sv_listen cfg)
      then Some (Msg ''non-loopback listen %q requires --auth-token'')
      else if sv_token cfg = '''' \<and> \<not> sv_noauth cfg
      then Some (Msg ''serve requires --auth-token (or QUIKSYNC_AUTH_TOKEN), or --allow-no-auth for labs'')
      else None)"

text \<open>
  A stream as the server meets it: what it reads, what it can write, and what its rounds meet. One connection
  runs at most 64 streams at a time, one after the other as they end; a panic ends its stream only.
\<close>

record serve_stream =
  ss_in :: reader
  ss_out :: writer
  ss_rounds :: "(goerr option \<times> helper_env) list"
  ss_reg :: relay_reg

definition maxConcurrentStreams :: nat where "maxConcurrentStreams = 64"

definition serve_options :: "serve_config \<Rightarrow> helper_options" where
  "serve_options cfg = \<lparr>ho_root = sv_root cfg, ho_token = sv_token cfg\<rparr>"

type_synonym ('t, 'w) session_result = "(goerr option \<times> writer \<times> (string \<times> ('t, 'w) helper) option) option"

definition handle_stream ::
  "(string \<Rightarrow> bytes) \<Rightarrow> helper_json \<Rightarrow> (string \<Rightarrow> (('t, 'w) backend \<times> 't) res) \<Rightarrow> string \<Rightarrow> serve_config \<Rightarrow> serve_stream
     \<Rightarrow> ('t, 'w) session_result" where
  "handle_stream sha J open_root env_root cfg s =
     RunRemoteHelper sha J open_root env_root (serve_options cfg) (ss_rounds s) (ss_in s) (ss_out s) (ss_reg s)"

text \<open>The accept loop, until accepting fails: the error it ends with, and what came of every stream.\<close>

definition handleConn ::
  "(string \<Rightarrow> bytes) \<Rightarrow> helper_json \<Rightarrow> (string \<Rightarrow> (('t, 'w) backend \<times> 't) res) \<Rightarrow> string \<Rightarrow> serve_config \<Rightarrow> serve_stream list
     \<Rightarrow> ('t, 'w) session_result list" where
  "handleConn sha J open_root env_root cfg conn = map (handle_stream sha J open_root env_root cfg) conn"

definition ServeDaemon ::
  "(string \<Rightarrow> bytes) \<Rightarrow> helper_json \<Rightarrow> (string \<Rightarrow> (('t, 'w) backend \<times> 't) res) \<Rightarrow> string \<Rightarrow> (string \<Rightarrow> bytes option) \<Rightarrow> serve_config
     \<Rightarrow> 'c res \<Rightarrow> goerr option \<Rightarrow> serve_stream list list \<Rightarrow> goerr \<Rightarrow> goerr \<times> ('t, 'w) session_result list" where
  "ServeDaemon sha J open_root env_root parse_ip cfg tls listen_err conns accept_err =
     (case serve_guard parse_ip cfg of
        Some e \<Rightarrow> (e, [])
      | None \<Rightarrow>
          (case tls of
             Inl e \<Rightarrow> (e, [])
           | Inr conf \<Rightarrow>
               (case listen_err of
                  Some e \<Rightarrow> (e, [])
                | None \<Rightarrow> (accept_err, concat (map (handleConn sha J open_root env_root cfg) conns)))))"

text \<open>\<open>serve\<close> and \<open>remote-helper\<close> of the command line; \<open>env\<close> is \<open>QUIKSYNC_AUTH_TOKEN\<close>.\<close>

definition serve_flags :: "string \<Rightarrow> serve_config \<Rightarrow> serve_config" where
  "serve_flags env f = f\<lparr>sv_token := (if sv_token f = '''' then env else sv_token f)\<rparr>"

definition remote_helper_options :: "string \<Rightarrow> helper_options" where
  "remote_helper_options env = \<lparr>ho_root = '''', ho_token = env\<rparr>"

section \<open>The signal client\<close>

text \<open>
  What a peer offers once it has been dialled. \<open>dl_quic\<close> and \<open>dl_ssh\<close> dial, \<open>dl_notify\<close> and \<open>dl_wait\<close> are the calls of the client, the
  same for both, and \<open>dl_close\<close> closes it.
\<close>

record ('c, 'x) signal_dial =
  dl_quic :: "endpoint \<Rightarrow> bool \<Rightarrow> string \<Rightarrow> 'x \<Rightarrow> 'c res \<times> 'x"
  dl_ssh :: "endpoint \<Rightarrow> 'x \<Rightarrow> 'c res \<times> 'x"
  dl_notify :: "relay_notify \<Rightarrow> 'c \<Rightarrow> 'x \<Rightarrow> goerr option \<times> 'x"
  dl_wait :: "relay_notify \<Rightarrow> 'c \<Rightarrow> 'x \<Rightarrow> relay_notify res \<times> 'x"
  dl_close :: "'c \<Rightarrow> 'x \<Rightarrow> 'x"

record signal_client =
  sg_endpoint :: endpoint
  sg_insecure :: bool
  sg_token :: string

definition signal_open :: "('c, 'x) signal_dial \<Rightarrow> signal_client \<Rightarrow> 'x \<Rightarrow> 'c res \<times> 'x" where
  "signal_open D q x =
     (if ep_scheme (sg_endpoint q) = ''quiksync'' then dl_quic D (sg_endpoint q) (sg_insecure q) (sg_token q) x
      else if ep_scheme (sg_endpoint q) = ''ssh'' then dl_ssh D (sg_endpoint q) x
      else (Inl (Msg ''signal endpoint must be quiksync:// or ssh''), x))"

definition signal_Notify :: "('c, 'x) signal_dial \<Rightarrow> signal_client \<Rightarrow> string \<Rightarrow> notify_meta \<Rightarrow> 'x \<Rightarrow> goerr option \<times> 'x" where
  "signal_Notify D q jobID m x =
     (case signal_open D q x of
        (Inl e, x1) \<Rightarrow> (Some e, x1)
      | (Inr c, x1) \<Rightarrow>
          (case dl_notify D \<lparr>rn_job = n_job m, rn_via = n_via m, rn_generation = n_generation m\<rparr> c x1 of
             (e, x2) \<Rightarrow> (e, dl_close D c x2)))"

definition signal_Wait :: "('c, 'x) signal_dial \<Rightarrow> signal_client \<Rightarrow> string \<Rightarrow> 'x \<Rightarrow> notify_meta res \<times> 'x" where
  "signal_Wait D q jobID x =
     (case signal_open D q x of
        (Inl e, x1) \<Rightarrow> (Inl e, x1)
      | (Inr c, x1) \<Rightarrow>
          (case dl_wait D \<lparr>rn_job = jobID, rn_via = '''', rn_generation = 0\<rparr> c x1 of
             (Inl e, x2) \<Rightarrow> (Inl e, dl_close D c x2)
           | (Inr m, x2) \<Rightarrow>
               (Inr \<lparr>n_job = rn_job m, n_via = rn_via m, n_generation = rn_generation m\<rparr>, dl_close D c x2)))"

text \<open>The calls of the client of \<open>Remote\<close> on a connection, as the signal client makes them.\<close>

definition client_signal ::
  "client_json \<Rightarrow> helper_json \<Rightarrow> ('t, 'w) backend \<Rightarrow> goerr option
     \<Rightarrow> (endpoint \<Rightarrow> bool \<Rightarrow> string \<Rightarrow> ('t, 'w) remote \<Rightarrow> client res \<times> ('t, 'w) remote)
     \<Rightarrow> (endpoint \<Rightarrow> ('t, 'w) remote \<Rightarrow> client res \<times> ('t, 'w) remote) \<Rightarrow> (client, ('t, 'w) remote) signal_dial" where
  "client_signal C J B ctx dq ds =
     \<lparr>dl_quic = dq, dl_ssh = ds, dl_notify = (\<lambda>m c R. Client_RelayNotify C J B ctx m R),
      dl_wait = (\<lambda>m c R. Client_RelayWait C J B ctx m R), dl_close = (\<lambda>c R. Client_Close C J B R)\<rparr>"

section \<open>Lemmas\<close>

lemma guard_passed:
  "serve_guard parse_ip cfg = None \<longleftrightarrow>
     sv_token cfg \<noteq> '''' \<or> sv_noauth cfg \<and> IsLoopbackListen parse_ip (sv_listen cfg)"
  by (simp add: serve_guard_def)

lemma serve_result:
  assumes "snd (ServeDaemon sha J op env parse_ip cfg tls le conns ae) = rs" and "x \<in> set rs"
  shows "serve_guard parse_ip cfg = None \<and> (\<exists>s \<in> set (concat conns). x = handle_stream sha J op env cfg s)"
proof -
  have g: "serve_guard parse_ip cfg = None" and "rs = concat (map (handleConn sha J op env cfg) conns)"
    using assms by (auto simp: ServeDaemon_def split: option.splits sum.splits)
  then have "x \<in> handle_stream sha J op env cfg ` set (concat conns)" using assms(2) by (force simp: handleConn_def)
  with g show ?thesis by blast
qed

text \<open>An empty host means every interface, which is not loopback.\<close>

lemma all_interfaces: "\<not> IsLoopbackListen parse_ip (CHR '':'' # port)"
proof -
  have "last_index (CHR '':'' # port) CHR '':'' = Some 0 \<or> (\<exists>i. last_index (CHR '':'' # port) CHR '':'' = Some (Suc i))"
    by (simp split: option.splits)
  then consider "last_index (CHR '':'' # port) CHR '':'' = Some 0" | i where "last_index (CHR '':'' # port) CHR '':'' = Some (Suc i)"
    by blast
  then show ?thesis
    by cases (auto simp: IsLoopbackListen_def SplitHostPort_def HasPrefix_def TrimSpace_def)
qed

section \<open>Properties\<close>

text \<open>
  C34. A daemon that has let a stream to its root has a token, or listens on a loopback address and was told to do
  without; the stream's hello had a token of the same hash if there is one; and the root is the daemon's own.
\<close>
theorem serve_authenticated:
  assumes "ServeDaemon sha J open_root env_root parse_ip cfg tls listen_err conns accept_err = (e, rs)"
    and "Some (e', w', Some (dir, st)) \<in> set rs"
  shows "(sv_token cfg \<noteq> '''' \<or> sv_noauth cfg \<and> IsLoopbackListen parse_ip (sv_listen cfg)) \<and>
    (\<exists>s p h r1. s \<in> set (concat conns) \<and> ReadMsg (ss_in s) = (Inr (MsgHello, p), r1) \<and> hd_hello J p = Inr h \<and>
       (sv_token cfg = '''' \<or> sha (hello_token h) = sha (sv_token cfg)) \<and> (sv_root cfg = '''' \<or> dir = sv_root cfg))"
proof -
  obtain s where g: "serve_guard parse_ip cfg = None" and s: "s \<in> set (concat conns)"
    "handle_stream sha J open_root env_root cfg s = Some (e', w', Some (dir, st))"
    using serve_result [of sha J open_root env_root parse_ip cfg tls listen_err conns accept_err rs, OF _ assms(2)] assms(1)
    by (metis snd_conv)
  from session_opened [OF s(2) [unfolded handle_stream_def]] s(1) g show ?thesis
    unfolding guard_passed serve_options_def by auto
qed

definition demo_serve :: serve_config where
  "demo_serve = \<lparr>sv_listen = ''0.0.0.0:4242'', sv_cert = [], sv_key = [], sv_root = ''/srv'', sv_token = ''t'', sv_noauth = False\<rparr>"

definition demo_streams :: "serve_stream list list" where
  "demo_streams = [[\<lparr>ss_in = [Rd [1, 0, 0, 0, 1, 1] None], ss_out = \<lparr>w_out = [], w_script = []\<rparr>,
     ss_rounds = [(None, calm_env), (None, calm_env)], ss_reg = \<lparr>rr_waiters = Map.empty, rr_pending = []\<rparr>\<rparr>]]"

definition demo_daemon :: "serve_config \<Rightarrow> goerr \<times> (memory s3_world, s3_session) session_result list" where
  "demo_daemon cfg = ServeDaemon demo_token demo_hj demo_open [] (\<lambda>h. None) cfg (Inr ()) None demo_streams Canceled"

theorem serve_authenticated_witness:
  "(\<exists>e w st s p h r1. Some (e, w, Some (''/srv'', st)) \<in> set (snd (demo_daemon demo_serve)) \<and> s \<in> set (concat demo_streams) \<and>
     ReadMsg (ss_in s) = (Inr (MsgHello, p), r1) \<and> hd_hello demo_hj p = Inr h \<and> demo_token (hello_token h) = demo_token ''t'') \<and>
   demo_daemon (demo_serve\<lparr>sv_token := [], sv_noauth := True\<rparr>) = (Msg ''non-loopback listen %q requires --auth-token'', [])"
proof -
  have g: "serve_guard (\<lambda>h. None) demo_serve = None" by (simp add: guard_passed demo_serve_def)
  have "case snd (demo_daemon demo_serve) of Some (e, w, Some (d, st)) # rs \<Rightarrow> d = ''/srv'' | _ \<Rightarrow> False" by code_simp
  then obtain e w st rs where r: "snd (demo_daemon demo_serve) = Some (e, w, Some (''/srv'', st)) # rs"
    by (auto split: list.splits option.splits)
  then obtain e0 where d: "demo_daemon demo_serve = (e0, Some (e, w, Some (''/srv'', st)) # rs)"
    by (cases "demo_daemon demo_serve") auto
  have m: "Some (e, w, Some (''/srv'', st)) \<in> set (snd (demo_daemon demo_serve))" using r by simp
  have t: "sv_token demo_serve = ''t''" by (simp add: demo_serve_def)
  have n: "demo_daemon (demo_serve\<lparr>sv_token := [], sv_noauth := True\<rparr>) = (Msg ''non-loopback listen %q requires --auth-token'', [])"
  proof -
    have "\<not> IsLoopbackListen (\<lambda>h. None) ''0.0.0.0:4242''" by code_simp
    then show ?thesis by (simp add: demo_daemon_def ServeDaemon_def serve_guard_def demo_serve_def)
  qed
  from serve_authenticated [OF d [unfolded demo_daemon_def], of e w "''/srv''" st] m n show ?thesis
    unfolding t by auto
qed

end
