(* ===== verification/Connections.thy ===== *)
theory Connections
  imports Remote Pinning
begin

text \<open>
  Making and closing the connections that the client of \<open>Remote\<close> works on: \<open>New\<close> and \<open>Close\<close> of \<open>internal/transport/ssh/ssh.go\<close>, with the
  choice between the native client and a child process and the pipes of both, and \<open>DialOpts\<close> of \<open>internal/transport/daemon/quic.go\<close> with the
  pinning of the certificate. The calls of \<open>os/exec\<close>, of the ssh library and of the QUIC library take their outcomes from a script, and
  the state holds the handles that are open.
\<close>

section \<open>Handles\<close>

text \<open>
  The reading ends of a native session have no handle of their own: they are its channel, and go with it. The pipes of a child
  process are closed by a \<open>Start\<close> that fails, and by \<open>Wait\<close>.
\<close>

datatype conn_handle = HClient | HSession | HStdin | HStdout | HStderr | HChild | HConn | HStream

record conn_world =
  sw_open :: "conn_handle list"
  sw_script :: "goerr option list"
  sw_started :: "string list list"

definition ask :: "conn_world \<Rightarrow> goerr option \<times> conn_world" where
  "ask w = (case sw_script w of [] \<Rightarrow> (None, w) | e # es \<Rightarrow> (e, w\<lparr>sw_script := es\<rparr>))"

definition gain :: "conn_handle \<Rightarrow> conn_world \<Rightarrow> conn_world" where
  "gain h w = w\<lparr>sw_open := h # sw_open w\<rparr>"

definition shut :: "conn_handle \<Rightarrow> conn_world \<Rightarrow> conn_world" where
  "shut h w = w\<lparr>sw_open := removeAll h (sw_open w)\<rparr>"

definition started :: "string list \<Rightarrow> conn_world \<Rightarrow> conn_world" where
  "started argv w = w\<lparr>sw_started := argv # sw_started w\<rparr>"

text \<open>The calls that \<open>dialNativeContext\<close> makes, on this state.\<close>

definition native_lib :: "(unit, unit, conn_world) ssh_lib" where
  "native_lib =
     \<lparr>sl_dial = (\<lambda>addr user hk w. case ask w of (Some e, w1) \<Rightarrow> (Inl e, w1) | (None, w1) \<Rightarrow> (Inr (), gain HClient w1)),
      sl_session = (\<lambda>c w. case ask w of (Some e, w1) \<Rightarrow> (Inl e, w1) | (None, w1) \<Rightarrow> (Inr (), gain HSession w1)),
      sl_close_client = (\<lambda>c. shut HClient), sl_close_session = (\<lambda>s. shut HSession)\<rparr>"

section \<open>Starting\<close>

text \<open>Which of the fields \<open>session\<close>, \<open>client\<close> and \<open>cmd\<close> are set.\<close>

record ssh_transport =
  tp_session :: bool
  tp_client :: bool
  tp_cmd :: bool

text \<open>What \<open>dialNativeContext\<close> finds: the environment, the keys, the host keys, and the context's end, if it ends first.\<close>

record 'k ssh_env =
  se_env :: "string \<Rightarrow> string"
  se_auth :: "'k list res"
  se_hosts :: "host_keys res"
  se_done :: "goerr option"

text \<open>What is started: the words of the child process, or the command of the session.\<close>

definition native_argv :: "string list" where "native_argv = [''quiksync remote-helper'']"
definition exec_argv :: "endpoint \<Rightarrow> string list" where "exec_argv ep = ''ssh'' # execArgs ep"

definition newNative :: "'k ssh_env \<Rightarrow> endpoint \<Rightarrow> conn_world \<Rightarrow> ssh_transport res \<times> conn_world" where
  "newNative v ep w =
     (case dialNativeContext native_lib (se_env v) (se_auth v) (se_hosts v) (se_done v) (ep_user ep) (ep_host ep) (ep_port ep) w of
        (Inl e, w1) \<Rightarrow> (Inl e, w1)
      | (Inr _, w1) \<Rightarrow>
          (case ask w1 of
             (Some e, w2) \<Rightarrow> (Inl e, shut HClient (shut HSession w2))
           | (None, w2) \<Rightarrow>
               (case ask (gain HStdin w2) of
                  (Some e, w3) \<Rightarrow> (Inl e, shut HClient (shut HSession (shut HStdin w3)))
                | (None, w3) \<Rightarrow>
                    (case ask w3 of
                       (Some e, w4) \<Rightarrow> (Inl e, shut HClient (shut HSession (shut HStdin w4)))
                     | (None, w4) \<Rightarrow>
                         (case ask w4 of
                            (Some e, w5) \<Rightarrow>
                              (Inl (Wrap ''ssh start remote-helper: %w'' e), shut HClient (shut HSession (shut HStdin w5)))
                          | (None, w5) \<Rightarrow>
                              (Inr \<lparr>tp_session = True, tp_client = True, tp_cmd = False\<rparr>,
                               started native_argv w5))))))"

definition newExec :: "endpoint \<Rightarrow> conn_world \<Rightarrow> ssh_transport res \<times> conn_world" where
  "newExec ep w =
     (case ask w of
        (Some e, w1) \<Rightarrow> (Inl e, w1)
      | (None, w1) \<Rightarrow>
          (case ask (gain HStdin w1) of
             (Some e, w2) \<Rightarrow> (Inl e, w2)
           | (None, w2) \<Rightarrow>
               (case ask (gain HStdout w2) of
                  (Some e, w3) \<Rightarrow> (Inl e, w3)
                | (None, w3) \<Rightarrow>
                    (case ask (gain HStderr w3) of
                       (Some e, w4) \<Rightarrow> (Inl (Wrap ''ssh start: %w'' e), shut HStdin (shut HStdout (shut HStderr w4)))
                     | (None, w4) \<Rightarrow>
                         (Inr \<lparr>tp_session = False, tp_client = False, tp_cmd = True\<rparr>,
                          started (exec_argv ep) (gain HChild w4))))))"

section \<open>Closing\<close>

definition close_handles :: "ssh_transport \<Rightarrow> conn_world \<Rightarrow> goerr option \<times> ssh_transport \<times> conn_world" where
  "close_handles t w =
     (let w1 = shut HStdout (shut HStdin w);
          w2 = (if tp_session t then shut HSession w1 else w1);
          (e3, w3) = (if tp_client t then (case ask w2 of (e, w') \<Rightarrow> (e, shut HClient w')) else (None, w2));
          (e4, w4) = (if tp_cmd t then (case ask w3 of (e, w') \<Rightarrow> (e, shut HStderr (shut HChild w'))) else (e3, w3))
      in (e4, \<lparr>tp_session = False, tp_client = False, tp_cmd = False\<rparr>, w4))"

text \<open>\<open>Close\<close> says goodbye only when no session or reader holds the mutex; what waits on the pipes then fails.\<close>

definition ssh_Close ::
  "client_json \<Rightarrow> helper_json \<Rightarrow> ('t, 'w) backend \<Rightarrow> ssh_transport \<Rightarrow> conn_world \<Rightarrow> ('t, 'w) remote
     \<Rightarrow> goerr option \<times> ssh_transport \<times> conn_world \<times> ('t, 'w) remote" where
  "ssh_Close C J B t w R =
     (let R1 = (if \<not> rm_locked R then snd (exchange J B MsgBye (Inr []) R) else R)
      in case close_handles t w of
           (e, t1, w1) \<Rightarrow> (e, t1, w1, R1\<lparr>rm_peer := end_session B (rm_peer R1), rm_down := Some EOF\<rparr>))"

section \<open>New\<close>

text \<open>\<open>New\<close> with what the helper at the other end answers, \<open>ssh_New\<close>; \<open>native\<close> is \<open>useNativeSSH()\<close>.\<close>

definition ssh_start :: "bool \<Rightarrow> 'k ssh_env \<Rightarrow> endpoint \<Rightarrow> 'c res \<Rightarrow> conn_world \<Rightarrow> (ssh_transport \<times> 'c) res \<times> conn_world" where
  "ssh_start native v ep hello w =
     (case (if native then newNative v ep w else newExec ep w) of
        (Inl e, w1) \<Rightarrow> (Inl e, w1)
      | (Inr t, w1) \<Rightarrow>
          (case hello of
             Inl e \<Rightarrow> (case close_handles t w1 of (_, _, w2) \<Rightarrow> (Inl e, w2))
           | Inr c \<Rightarrow> (Inr (t, c), w1)))"

definition ssh_connection ::
  "bool \<Rightarrow> string \<Rightarrow> 'k ssh_env \<Rightarrow> endpoint \<Rightarrow> client_json \<Rightarrow> (string \<Rightarrow> bytes) \<Rightarrow> helper_json \<Rightarrow> (string \<Rightarrow> (('t, 'w) backend \<times> 't) res)
     \<Rightarrow> string \<Rightarrow> helper_options \<Rightarrow> link_io \<Rightarrow> relay_reg \<Rightarrow> conn_world
     \<Rightarrow> (ssh_transport \<times> client \<times> (('t, 'w) backend \<times> ('t, 'w) remote) option) res \<times> conn_world" where
  "ssh_connection prefer env v ep C sha J open_root env_root sopts io reg w =
     ssh_start (useNativeSSH prefer env) v ep (ssh_New C (ep_path ep) sha J open_root env_root sopts io reg) w"

section \<open>Over QUIC\<close>

text \<open>
  \<open>DialOpts\<close>: a connection comes to be when the network gives it and its certificates pass \<open>verifyTOFU\<close>, which the TLS handshake calls; then
  the one stream is opened. \<open>hello\<close> is what \<open>DialOpts\<close> of \<open>Remote\<close> makes of the helper's answer.
\<close>

record tls_peer =
  tl_sha :: "bytes \<Rightarrow> bytes"
  tl_dir :: "string res"
  tl_certs :: "bytes list"
  tl_calls :: "outcome list"

definition quic_connect :: "tls_peer \<Rightarrow> bool \<Rightarrow> endpoint \<Rightarrow> string option \<Rightarrow> conn_world \<Rightarrow> (goerr option \<times> string option) \<times> conn_world" where
  "quic_connect p insecure ep pin w =
     (case ask w of
        (Some e, w1) \<Rightarrow> ((Some e, pin), w1)
      | (None, w1) \<Rightarrow>
          (case verifyTOFU (tl_sha p) (tl_dir p) (JoinHostPort (ep_host ep) (ep_port ep)) insecure (tl_certs p) (tl_calls p) pin of
             (Some e, pin1) \<Rightarrow> ((Some e, pin1), w1)
           | (None, pin1) \<Rightarrow>
               (case ask (gain HConn w1) of
                  (Some e, w2) \<Rightarrow> ((Some e, pin1), shut HConn w2)
                | (None, w2) \<Rightarrow> ((None, pin1), gain HStream w2))))"

definition quic_close :: "conn_world \<Rightarrow> goerr option \<times> conn_world" where
  "quic_close w = (case ask (shut HStream w) of (e, w1) \<Rightarrow> (e, shut HConn w1))"

definition quic_start ::
  "tls_peer \<Rightarrow> bool \<Rightarrow> endpoint \<Rightarrow> 'c res \<Rightarrow> string option \<Rightarrow> conn_world \<Rightarrow> ('c res \<times> string option) \<times> conn_world" where
  "quic_start p insecure ep hello pin w =
     (case quic_connect p insecure ep pin w of
        ((Some e, pin1), w1) \<Rightarrow> ((Inl e, pin1), w1)
      | ((None, pin1), w1) \<Rightarrow>
          (case hello of
             Inl e \<Rightarrow> ((Inl e, pin1), snd (quic_close w1))
           | Inr c \<Rightarrow> ((Inr c, pin1), w1)))"

definition quic_connection ::
  "tls_peer \<Rightarrow> bool \<Rightarrow> endpoint \<Rightarrow> string \<Rightarrow> client_json \<Rightarrow> (string \<Rightarrow> bytes) \<Rightarrow> helper_json \<Rightarrow> (string \<Rightarrow> (('t, 'w) backend \<times> 't) res)
     \<Rightarrow> string \<Rightarrow> helper_options \<Rightarrow> link_io \<Rightarrow> relay_reg \<Rightarrow> string option \<Rightarrow> conn_world
     \<Rightarrow> ((client \<times> (('t, 'w) backend \<times> ('t, 'w) remote) option) res \<times> string option) \<times> conn_world" where
  "quic_connection p insecure ep token C sha J open_root env_root sopts io reg pin w =
     quic_start p insecure ep (DialOpts C (ep_path ep) token sha J open_root env_root sopts io reg) pin w"

text \<open>\<open>Dial\<close> is \<open>DialOpts\<close> with no options: the certificate is checked, and there is no token.\<close>

definition quic_Dial ::
  "tls_peer \<Rightarrow> endpoint \<Rightarrow> client_json \<Rightarrow> (string \<Rightarrow> bytes) \<Rightarrow> helper_json \<Rightarrow> (string \<Rightarrow> (('t, 'w) backend \<times> 't) res)
     \<Rightarrow> string \<Rightarrow> helper_options \<Rightarrow> link_io \<Rightarrow> relay_reg \<Rightarrow> string option \<Rightarrow> conn_world
     \<Rightarrow> ((client \<times> (('t, 'w) backend \<times> ('t, 'w) remote) option) res \<times> string option) \<times> conn_world" where
  "quic_Dial p ep C sha J open_root env_root sopts io reg pin w =
     quic_connection p False ep '''' C sha J open_root env_root sopts io reg pin w"

section \<open>Lemmas\<close>

lemma ask_open: "ask w = (e, w') \<Longrightarrow> sw_open w' = sw_open w"
  by (auto simp: ask_def split: list.splits)

lemma open_simps [simp]:
  "sw_open (gain h w) = h # sw_open w" "sw_open (shut h w) = removeAll h (sw_open w)" "sw_open (started a w) = sw_open w"
  by (simp_all add: gain_def shut_def started_def)

lemma dial_open:
  assumes "dialNativeContext native_lib env auth hk done user host port w = (r, w')" and "sw_open w = []"
  shows "sw_open w' = (case r of Inl _ \<Rightarrow> [] | Inr _ \<Rightarrow> [HSession, HClient])"
  using assms by (auto simp: dialNativeContext_def native_connect_def native_lib_def split: sum.splits prod.splits option.splits dest!: ask_open)

lemma newNative_open:
  assumes "newNative v ep w = (r, w')" and "sw_open w = []"
  shows "case r of Inl _ \<Rightarrow> sw_open w' = []
    | Inr t \<Rightarrow> sw_open w' = [HStdin, HSession, HClient] \<and> tp_session t \<and> tp_client t \<and> \<not> tp_cmd t"
proof -
  obtain x w1 where x: "dialNativeContext native_lib (se_env v) (se_auth v) (se_hosts v) (se_done v) (ep_user ep) (ep_host ep) (ep_port ep) w
      = (x, w1)" by force
  show ?thesis
  proof (cases x)
    case (Inl e)
    with dial_open [OF x assms(2)] assms(1) x show ?thesis by (auto simp: newNative_def)
  next
    case (Inr c)
    with dial_open [OF x assms(2)] have "sw_open w1 = [HSession, HClient]" by simp
    with assms(1) x Inr show ?thesis by (auto simp: newNative_def split: prod.splits option.splits dest!: ask_open)
  qed
qed

lemma newExec_open:
  assumes "newExec ep w = (r, w')" and "sw_open w = []"
  shows "case r of Inl _ \<Rightarrow> set (sw_open w') \<subseteq> {HStdin, HStdout}
    | Inr t \<Rightarrow> sw_open w' = [HChild, HStderr, HStdout, HStdin] \<and> \<not> tp_session t \<and> \<not> tp_client t \<and> tp_cmd t"
  using assms by (auto simp: newExec_def split: prod.splits option.splits dest!: ask_open)

text \<open>When a pipe cannot be made, those made before it stay open.\<close>

lemma newExec_leaks: "newExec ep \<lparr>sw_open = [], sw_script = [None, Some e], sw_started = []\<rparr> =
    (Inl e, \<lparr>sw_open = [HStdin], sw_script = [], sw_started = []\<rparr>)"
  by (simp add: newExec_def ask_def gain_def)

lemma close_handles_open:
  assumes "close_handles t w = (e, t', w')"
    and "sw_open w = [HStdin, HSession, HClient] \<and> tp_session t \<and> tp_client t \<and> \<not> tp_cmd t \<or>
      sw_open w = [HChild, HStderr, HStdout, HStdin] \<and> \<not> tp_session t \<and> \<not> tp_client t \<and> tp_cmd t"
  shows "sw_open w' = []"
  using assms by (auto simp: close_handles_def Let_def split: prod.splits if_splits dest!: ask_open)

text \<open>A second \<open>Close\<close> waits for nothing and returns no error.\<close>

lemma close_handles_twice: "close_handles t w = (e, t', w') \<Longrightarrow> close_handles t' w' = (None, t', shut HStdout (shut HStdin w'))"
proof -
  assume "close_handles t w = (e, t', w')"
  then have "t' = \<lparr>tp_session = False, tp_client = False, tp_cmd = False\<rparr>"
    unfolding close_handles_def Let_def split_def by (simp only: prod.inject)
  then show ?thesis by (simp add: close_handles_def Let_def)
qed

lemma ssh_start_open:
  assumes "ssh_start native v ep hello w = (r, w')" and "sw_open w = []"
  shows "case r of Inl _ \<Rightarrow> set (sw_open w') \<subseteq> (if native then {} else {HStdin, HStdout})
    | Inr (t, c) \<Rightarrow> hello = Inr c \<and> sw_open (snd (snd (close_handles t w'))) = []"
proof -
  obtain x w1 where x: "(if native then newNative v ep w else newExec ep w) = (x, w1)" by force
  show ?thesis
  proof (cases x)
    case (Inl e)
    with x newNative_open [of v ep w x w1] newExec_open [of ep w x w1] assms show ?thesis
      by (auto simp: ssh_start_def split: if_splits)
  next
    case (Inr t)
    obtain e t' w2 where c: "close_handles t w1 = (e, t', w2)" by (metis prod.exhaust)
    have "sw_open w2 = []"
      using Inr x newNative_open [of v ep w x w1] newExec_open [of ep w x w1] assms(2)
      by (intro close_handles_open [OF c]) (auto split: if_splits)
    with Inr x c assms(1) show ?thesis by (auto simp: ssh_start_def split: sum.splits)
  qed
qed

text \<open>The user's text starts no option of the child process: all that stands before \<open>--\<close> is fixed but the value of \<open>-p\<close>.\<close>

lemma execArgs_options:
  "execArgs ep = [''-T'', ''-o'', ''BatchMode=yes''] @ (if ep_port ep \<noteq> '''' then [''-p'', ep_port ep] else []) @
     [''--'', (if ep_user ep \<noteq> '''' then ep_user ep @ ''@'' @ ep_host ep else ep_host ep), ''quiksync'', ''remote-helper'']"
  unfolding execArgs_def Let_def append_assoc by (rule refl)

lemma started_argv:
  assumes "ssh_start native v ep hello w = (r, w')" and "sw_started w = []"
  shows "set (sw_started w') \<subseteq> {native_argv, exec_argv ep}"
proof -
  have k: "sw_started (gain h u) = sw_started u" "sw_started (shut h u) = sw_started u" "sw_started (started a u) = a # sw_started u" for h u a
    by (simp_all add: gain_def shut_def started_def)
  have q: "ask u = (e, u') \<Longrightarrow> sw_started u' = sw_started u" for u e u'
    by (auto simp: ask_def split: list.splits)
  have d: "dialNativeContext native_lib a b c d' e f g u = (x, u') \<Longrightarrow> sw_started u' = sw_started u" for a b c d' e f g u x u'
    by (auto simp: dialNativeContext_def native_connect_def native_lib_def k split: sum.splits prod.splits option.splits dest!: q)
  have n: "newNative v ep w = (x, u) \<Longrightarrow> set (sw_started u) \<subseteq> {native_argv}" for x u
    using assms(2) by (auto simp: newNative_def k split: sum.splits prod.splits option.splits dest!: q d)
  have x: "newExec ep w = (y, u) \<Longrightarrow> set (sw_started u) \<subseteq> {exec_argv ep}" for y u
    using assms(2) by (auto simp: newExec_def k split: prod.splits option.splits dest!: q)
  have c: "close_handles t u = (e, t', u') \<Longrightarrow> sw_started u' = sw_started u" for t u e t' u'
    by (auto simp: close_handles_def Let_def k split: prod.splits if_splits dest!: q)
  obtain y w1 where y: "(if native then newNative v ep w else newExec ep w) = (y, w1)" by force
  then have "set (sw_started w1) \<subseteq> {native_argv, exec_argv ep}"
    using n x by (auto split: if_splits)
  moreover have "sw_started w' = sw_started w1"
    using assms(1) y by (auto simp: ssh_start_def split: sum.splits prod.splits dest: c)
  ultimately show ?thesis by simp
qed

text \<open>A client that \<open>DialOpts\<close> gives has seen a certificate that passed, and an error leaves nothing open.\<close>

lemma quic_start_open:
  assumes "quic_start p insecure ep hello pin w = ((r, pin'), w')" and "sw_open w = []"
  shows "case r of Inl _ \<Rightarrow> sw_open w' = []
    | Inr c \<Rightarrow> hello = Inr c \<and> sw_open w' = [HStream, HConn] \<and> sw_open (snd (quic_close w')) = [] \<and>
        verifyTOFU (tl_sha p) (tl_dir p) (JoinHostPort (ep_host ep) (ep_port ep)) insecure (tl_certs p) (tl_calls p) pin = (None, pin')"
proof -
  have c: "sw_open u = [HStream, HConn] \<Longrightarrow> sw_open (snd (quic_close u)) = []" for u
    by (auto simp: quic_close_def split: prod.splits dest!: ask_open)
  have k: "quic_connect p insecure ep pin w = ((e, pin1), w1) \<Longrightarrow> sw_open w1 = (if e = None then [HStream, HConn] else []) \<and>
      (e = None \<longrightarrow> verifyTOFU (tl_sha p) (tl_dir p) (JoinHostPort (ep_host ep) (ep_port ep)) insecure (tl_certs p) (tl_calls p) pin = (None, pin1))"
    for e pin1 w1
    using assms(2) by (auto simp: quic_connect_def split: prod.splits option.splits dest!: ask_open)
  obtain e pin1 w1 where q: "quic_connect p insecure ep pin w = ((e, pin1), w1)" by (metis prod.exhaust)
  from assms(1) q k [OF q] c [of w1] show ?thesis
    by (auto simp: quic_start_def split: option.splits sum.splits)
qed

end
