(* ===== verification/Flags.thy ===== *)
theory Flags
  imports Cli Serve
begin

text \<open>
  The declarations of commands and flags (\<open>internal/cli/root.go\<close> and the constructors of the commands), and the way from the
  arguments of the process to a command of \<open>Cli\<close> or \<open>Serve\<close>. A flag is bound to a field of its command's flags, as \<open>BoolVar\<close> and its
  kin bind a variable; reading the arguments is cobra's and pflag's, a parameter with the laws \<open>cobra_laws\<close>.
\<close>

section \<open>Declaring a flag\<close>

datatype flag_value = VBool bool | VInt int | VStr string | VList "string list"

record 'f flag =
  flg_name :: string
  flg_short :: string
  flg_default :: flag_value
  flg_set :: "flag_value \<Rightarrow> 'f \<Rightarrow> 'f"

definition BoolVarP :: "((bool \<Rightarrow> bool) \<Rightarrow> 'f \<Rightarrow> 'f) \<Rightarrow> string \<Rightarrow> string \<Rightarrow> bool \<Rightarrow> 'f flag" where
  "BoolVarP upd name short d =
     \<lparr>flg_name = name, flg_short = short, flg_default = VBool d, flg_set = (\<lambda>v. case v of VBool b \<Rightarrow> upd (\<lambda>_. b) | _ \<Rightarrow> id)\<rparr>"

definition BoolVar :: "((bool \<Rightarrow> bool) \<Rightarrow> 'f \<Rightarrow> 'f) \<Rightarrow> string \<Rightarrow> bool \<Rightarrow> 'f flag" where
  "BoolVar upd name = BoolVarP upd name ''''"

text \<open>Integers and durations; a duration is its nanoseconds.\<close>

definition IntVar :: "((int \<Rightarrow> int) \<Rightarrow> 'f \<Rightarrow> 'f) \<Rightarrow> string \<Rightarrow> int \<Rightarrow> 'f flag" where
  "IntVar upd name d =
     \<lparr>flg_name = name, flg_short = '''', flg_default = VInt d, flg_set = (\<lambda>v. case v of VInt n \<Rightarrow> upd (\<lambda>_. n) | _ \<Rightarrow> id)\<rparr>"

definition StringVar :: "((string \<Rightarrow> string) \<Rightarrow> 'f \<Rightarrow> 'f) \<Rightarrow> string \<Rightarrow> string \<Rightarrow> 'f flag" where
  "StringVar upd name d =
     \<lparr>flg_name = name, flg_short = '''', flg_default = VStr d, flg_set = (\<lambda>v. case v of VStr s \<Rightarrow> upd (\<lambda>_. s) | _ \<Rightarrow> id)\<rparr>"

definition StringSliceVar :: "((string list \<Rightarrow> string list) \<Rightarrow> 'f \<Rightarrow> 'f) \<Rightarrow> string \<Rightarrow> 'f flag" where
  "StringSliceVar upd name =
     \<lparr>flg_name = name, flg_short = '''', flg_default = VList [], flg_set = (\<lambda>v. case v of VList l \<Rightarrow> upd (\<lambda>_. l) | _ \<Rightarrow> id)\<rparr>"

text \<open>Declaring the flags sets the variables to the defaults; what the arguments say is set over them, in their order.\<close>

definition flag_defaults :: "'f flag list \<Rightarrow> 'f \<Rightarrow> 'f" where
  "flag_defaults fs z = fold (\<lambda>d. flg_set d (flg_default d)) fs z"

definition flag_assign :: "'f flag list \<Rightarrow> (string \<times> flag_value) \<Rightarrow> 'f \<Rightarrow> 'f" where
  "flag_assign fs a f = (case find (\<lambda>d. flg_name d = fst a) fs of None \<Rightarrow> f | Some d \<Rightarrow> flg_set d (snd a) f)"

definition flags_of :: "'f flag list \<Rightarrow> 'f \<Rightarrow> (string \<times> flag_value) list \<Rightarrow> 'f" where
  "flags_of fs z vs = fold (flag_assign fs) vs (flag_defaults fs z)"

section \<open>The flags of each command\<close>

definition zero_transfer :: transfer_flags where
  "zero_transfer = \<lparr>tf_resume = False, tf_dry = False, tf_exclude = [], tf_checksum = False, tf_stable = 0, tf_bw = 0,
     tf_skip_unstable = False, tf_attempts = 0, tf_auto = False, tf_streams = 0, tf_compress = '''', tf_chunk = '''', tf_profile = '''',
     tf_delete = False, tf_insecure = False, tf_token = '''', tf_job = '''', tf_log = '''', tf_nolog = False,
     tf_s3_endpoint = '''', tf_s3_region = ''''\<rparr>"

definition commonTransferFlags :: "transfer_flags flag list" where
  "commonTransferFlags =
     [BoolVar tf_resume_update ''resume'' True, BoolVar tf_dry_update ''dry-run'' False, StringSliceVar tf_exclude_update ''exclude'',
      BoolVar tf_checksum_update ''checksum'' False, IntVar tf_stable_update ''stable-window'' 0, IntVar tf_bw_update ''bwlimit'' 0,
      BoolVar tf_skip_unstable_update ''skip-unstable'' False, IntVar tf_attempts_update ''max-file-attempts'' 5,
      BoolVar tf_auto_update ''auto'' True, IntVar tf_streams_update ''streams'' 0, StringVar tf_compress_update ''compress'' ''auto'',
      StringVar tf_chunk_update ''chunk-size'' '''', StringVar tf_profile_update ''profile'' '''',
      BoolVar tf_insecure_update ''insecure'' False, StringVar tf_token_update ''auth-token'' '''',
      StringVar tf_job_update ''job-id'' ''default'', StringVar tf_log_update ''log-file'' '''', BoolVar tf_nolog_update ''no-log'' False,
      StringVar tf_s3_endpoint_update ''s3-endpoint'' '''', StringVar tf_s3_region_update ''s3-region'' '''']"

definition copy_flags :: "transfer_flags flag list" where "copy_flags = commonTransferFlags"

definition sync_flags :: "transfer_flags flag list" where
  "sync_flags = commonTransferFlags @ [BoolVar tf_delete_update ''delete'' False]"

record verify_flags =
  vy_exclude :: "string list"
  vy_s3_endpoint :: string
  vy_s3_region :: string
  vy_insecure :: bool
  vy_token :: string

definition zero_verify :: verify_flags where
  "zero_verify = \<lparr>vy_exclude = [], vy_s3_endpoint = '''', vy_s3_region = '''', vy_insecure = False, vy_token = ''''\<rparr>"

definition verify_decls :: "verify_flags flag list" where
  "verify_decls =
     [StringSliceVar vy_exclude_update ''exclude'', StringVar vy_s3_endpoint_update ''s3-endpoint'' '''',
      StringVar vy_s3_region_update ''s3-region'' '''', BoolVar vy_insecure_update ''insecure'' False,
      StringVar vy_token_update ''auth-token'' '''']"

definition zero_relay :: relay_flags where
  "zero_relay = \<lparr>rf_via = '''', rf_signal = '''', rf_job = '''', rf_token = '''', rf_s3_endpoint = '''', rf_s3_region = '''',
     rf_insecure = False, rf_ttl = 0, rf_wait = 0, rf_exclude = [], rf_chunk = '''', rf_force = False\<rparr>"

definition send_flags :: "relay_flags flag list" where
  "send_flags =
     [StringVar rf_via_update ''via'' '''', StringVar rf_signal_update ''signal'' '''', StringVar rf_job_update ''job-id'' ''default'',
      IntVar rf_ttl_update ''ttl'' 86400000000000, StringSliceVar rf_exclude_update ''exclude'', StringVar rf_chunk_update ''chunk-size'' '''',
      BoolVar rf_insecure_update ''insecure'' False, StringVar rf_token_update ''auth-token'' '''',
      StringVar rf_s3_endpoint_update ''s3-endpoint'' '''', StringVar rf_s3_region_update ''s3-region'' '''']"

definition recv_flags :: "relay_flags flag list" where
  "recv_flags =
     [StringVar rf_via_update ''via'' '''', StringVar rf_signal_update ''signal'' '''', StringVar rf_job_update ''job-id'' ''default'',
      IntVar rf_wait_update ''wait'' 1800000000000, BoolVar rf_insecure_update ''insecure'' False, StringVar rf_token_update ''auth-token'' '''',
      StringVar rf_s3_endpoint_update ''s3-endpoint'' '''', StringVar rf_s3_region_update ''s3-region'' '''']"

definition gc_flags :: "relay_flags flag list" where
  "gc_flags =
     [StringVar rf_via_update ''via'' '''', StringVar rf_job_update ''job-id'' ''default'', BoolVar rf_force_update ''force'' False,
      StringVar rf_s3_endpoint_update ''s3-endpoint'' '''', StringVar rf_s3_region_update ''s3-region'' '''']"

definition zero_serve :: serve_config where
  "zero_serve = \<lparr>sv_listen = '''', sv_cert = '''', sv_key = '''', sv_root = '''', sv_token = '''', sv_noauth = False\<rparr>"

definition serve_decls :: "serve_config flag list" where
  "serve_decls =
     [StringVar sv_listen_update ''listen'' ''127.0.0.1:4242'', StringVar sv_cert_update ''cert'' '''', StringVar sv_key_update ''key'' '''',
      StringVar sv_root_update ''root'' ''.'', StringVar sv_token_update ''auth-token'' '''', BoolVar sv_noauth_update ''allow-no-auth'' False]"

definition root_flags :: "bool flag list" where
  "root_flags = [BoolVarP (\<lambda>u. u) ''verbose'' ''v'' False]"

section \<open>The commands\<close>

text \<open>A command as cobra sees it: its name, how many arguments it takes, its flags with the kinds of their values, and those required.\<close>

record command =
  cmd_name :: string
  cmd_args :: "nat option"
  cmd_flags :: "(string \<times> string \<times> flag_value) list"
  cmd_required :: "string list"

definition decls :: "'f flag list \<Rightarrow> (string \<times> string \<times> flag_value) list" where
  "decls fs = map (\<lambda>d. (flg_name d, flg_short d, flg_default d)) fs"

definition newRoot :: "command list" where
  "newRoot =
     map (\<lambda>c. c\<lparr>cmd_flags := cmd_flags c @ decls root_flags\<rparr>)
       [\<lparr>cmd_name = ''copy'', cmd_args = Some 2, cmd_flags = decls copy_flags, cmd_required = []\<rparr>,
        \<lparr>cmd_name = ''sync'', cmd_args = Some 2, cmd_flags = decls sync_flags, cmd_required = []\<rparr>,
        \<lparr>cmd_name = ''verify'', cmd_args = Some 2, cmd_flags = decls verify_decls, cmd_required = []\<rparr>,
        \<lparr>cmd_name = ''serve'', cmd_args = None, cmd_flags = decls serve_decls, cmd_required = []\<rparr>,
        \<lparr>cmd_name = ''remote-helper'', cmd_args = None, cmd_flags = [], cmd_required = []\<rparr>,
        \<lparr>cmd_name = ''send'', cmd_args = Some 1, cmd_flags = decls send_flags, cmd_required = [''via'']\<rparr>,
        \<lparr>cmd_name = ''recv'', cmd_args = Some 1, cmd_flags = decls recv_flags, cmd_required = [''via'']\<rparr>,
        \<lparr>cmd_name = ''relay gc'', cmd_args = None, cmd_flags = decls gc_flags, cmd_required = [''via'']\<rparr>]"

text \<open>
  What cobra makes of the arguments: an error, a text to print (help, version), or a command with the values set and its arguments. A
  repeated list flag is one value with all its items.
\<close>

datatype parsed = PHelp | PRun string "(string \<times> flag_value) list" "string list"

text \<open>What the commands call; \<open>us_help\<close> is \<open>RunRemoteHelperOpts\<close> on the standard streams.\<close>

record ('b, 'x) cli_uses =
  us_env :: cli_env
  us_run :: "cli_config \<Rightarrow> 'x \<Rightarrow> (stats \<times> goerr option) \<times> 'x"
  us_verify :: "string \<Rightarrow> string \<Rightarrow> open_options \<Rightarrow> string list \<Rightarrow> 'x \<Rightarrow> string list res \<times> 'x"
  us_back :: "('b, 'x) cli_backends"
  us_send :: "send_options \<Rightarrow> (endpoint \<times> bool \<times> string) option \<Rightarrow> 'b \<Rightarrow> 'b \<Rightarrow> 'x \<Rightarrow> goerr option \<times> 'x"
  us_recv :: "string \<Rightarrow> int \<Rightarrow> (endpoint \<times> bool \<times> string) option \<Rightarrow> 'b \<Rightarrow> 'b \<Rightarrow> 'x \<Rightarrow> goerr option \<times> 'x"
  us_gc :: "string \<Rightarrow> bool \<Rightarrow> 'b \<Rightarrow> 'x \<Rightarrow> goerr option \<times> 'x"
  us_serve :: "serve_config \<Rightarrow> 'x \<Rightarrow> goerr option \<times> 'x"
  us_helper :: "helper_options \<Rightarrow> 'x \<Rightarrow> goerr option \<times> 'x"

fun arg :: "nat \<Rightarrow> string list \<Rightarrow> string" where
  "arg n [] = ''''"
| "arg 0 (a # as) = a"
| "arg (Suc n) (a # as) = arg n as"

definition run_command :: "('b, 'x) cli_uses \<Rightarrow> string \<Rightarrow> (string \<times> flag_value) list \<Rightarrow> string list \<Rightarrow> 'x \<Rightarrow> goerr option \<times> 'x" where
  "run_command u name vs args x =
     (let v = us_env u; env = cv_env v ''QUIKSYNC_AUTH_TOKEN''; verbose = flags_of root_flags False vs in
      if name = ''copy'' then transfer_cmd v verbose (us_run u) (flags_of copy_flags zero_transfer vs) False (arg 0 args) (arg 1 args) x
      else if name = ''sync'' then transfer_cmd v verbose (us_run u) (flags_of sync_flags zero_transfer vs) True (arg 0 args) (arg 1 args) x
      else if name = ''verify'' then
        (let f = flags_of verify_decls zero_verify vs in
         verify_cmd v (us_verify u) (vy_insecure f) (vy_token f) (vy_s3_endpoint f) (vy_s3_region f) (vy_exclude f) (arg 0 args) (arg 1 args) x)
      else if name = ''serve'' then us_serve u (serve_flags env (flags_of serve_decls zero_serve vs)) x
      else if name = ''remote-helper'' then us_helper u (remote_helper_options env) x
      else if name = ''send'' then send_cmd v (us_back u) (us_send u) (flags_of send_flags zero_relay vs) (arg 0 args) x
      else if name = ''recv'' then recv_cmd v (us_back u) (us_recv u) (flags_of recv_flags zero_relay vs) (arg 0 args) x
      else gc_cmd v (us_back u) (us_gc u) (flags_of gc_flags zero_relay vs) x)"

definition ExecuteArgs :: "(command list \<Rightarrow> string list \<Rightarrow> parsed res) \<Rightarrow> ('b, 'x) cli_uses \<Rightarrow> string list \<Rightarrow> 'x \<Rightarrow> goerr option \<times> 'x" where
  "ExecuteArgs cobra u as x =
     (case cobra newRoot as of
        Inl e \<Rightarrow> (Some e, x)
      | Inr PHelp \<Rightarrow> (None, x)
      | Inr (PRun name vs args) \<Rightarrow> run_command u name vs args x)"

text \<open>The exit status of the process.\<close>

definition main_status :: "goerr option \<times> 'x \<Rightarrow> nat" where
  "main_status r = (case fst r of None \<Rightarrow> 0 | Some e \<Rightarrow> 1)"

section \<open>What is documented of cobra and pflag\<close>

definition same_kind :: "flag_value \<Rightarrow> flag_value \<Rightarrow> bool" where
  "same_kind a b \<longleftrightarrow> (case (a, b) of (VBool _, VBool _) \<Rightarrow> True | (VInt _, VInt _) \<Rightarrow> True | (VStr _, VStr _) \<Rightarrow> True
     | (VList _, VList _) \<Rightarrow> True | _ \<Rightarrow> False)"

definition set_ok :: "command \<Rightarrow> string \<times> flag_value \<Rightarrow> bool" where
  "set_ok c a \<longleftrightarrow> (\<exists>s d. (fst a, s, d) \<in> set (cmd_flags c) \<and> same_kind d (snd a))"

text \<open>
  A command that is run is one of the list, has the arguments it asks for and its required flags, and only flags it declares, with values
  of their kind. An unknown flag of a command is an error: here a last word
  \<open>--name\<close> after words that are no flags or carry their value in them.
\<close>

definition plain_word :: "string \<Rightarrow> bool" where
  "plain_word w \<longleftrightarrow> \<not> HasPrefix w ''-'' \<or> (HasPrefix w ''--'' \<and> CHR ''='' \<in> set w)"

definition cobra_laws :: "(command list \<Rightarrow> string list \<Rightarrow> parsed res) \<Rightarrow> bool" where
  "cobra_laws cobra \<longleftrightarrow>
     (\<forall>cs as name vs args. cobra cs as = Inr (PRun name vs args) \<longrightarrow>
        (\<exists>c \<in> set cs. cmd_name c = name \<and> list_all (set_ok c) vs \<and> (\<forall>k. cmd_args c = Some k \<longrightarrow> length args = k) \<and>
           set (cmd_required c) \<subseteq> fst ` set vs)) \<and>
     (\<forall>cs as n. n \<notin> {'''', ''help'', ''version''} \<longrightarrow> CHR ''='' \<notin> set n \<longrightarrow> as \<noteq> [] \<longrightarrow> hd as \<in> cmd_name ` set cs \<longrightarrow> list_all plain_word as \<longrightarrow>
        (\<forall>c \<in> set cs. n \<notin> fst ` set (cmd_flags c)) \<longrightarrow> isl (cobra cs (as @ [''--'' @ n])))"

text \<open>A reader of the arguments that knows \<open>copy SRC DEST\<close> only keeps the laws.\<close>

definition demo_cobra :: "command list \<Rightarrow> string list \<Rightarrow> parsed res" where
  "demo_cobra cs as =
     (if length as = 3 \<and> arg 0 as = ''copy'' \<and> \<not> HasPrefix (arg 2 as) ''-'' \<and>
         list_ex (\<lambda>c. cmd_name c = ''copy'' \<and> cmd_args c = Some 2 \<and> cmd_required c = []) cs
      then Inr (PRun ''copy'' [] (tl as)) else Inl (Msg ''usage''))"

lemma arg_last: "length as = n \<Longrightarrow> arg n (as @ [w]) = w"
  by (induction as arbitrary: n) auto

lemma demo_cobra_laws: "cobra_laws demo_cobra"
proof -
  have "isl (demo_cobra cs (as @ [''--'' @ n]))" for cs as n
    using arg_last [of as 2 "''--'' @ n"] by (auto simp: demo_cobra_def HasPrefix_def)
  moreover have "\<exists>c \<in> set cs. cmd_name c = name \<and> list_all (set_ok c) vs \<and> (\<forall>k. cmd_args c = Some k \<longrightarrow> length args = k) \<and>
      set (cmd_required c) \<subseteq> fst ` set vs" if r: "demo_cobra cs as = Inr (PRun name vs args)" for cs as name vs args
  proof -
    from r have "list_ex (\<lambda>c. cmd_name c = ''copy'' \<and> cmd_args c = Some 2 \<and> cmd_required c = []) cs" "name = ''copy''" "vs = []" "length args = 2"
      by (auto simp: demo_cobra_def split: if_splits)
    then show ?thesis by (auto simp: list_ex_iff)
  qed
  ultimately show ?thesis unfolding cobra_laws_def by blast
qed

section \<open>Lemmas on the declarations\<close>

lemmas var_defs = BoolVar_def BoolVarP_def IntVar_def StringVar_def StringSliceVar_def

lemmas decl_defs = copy_flags_def sync_flags_def commonTransferFlags_def verify_decls_def send_flags_def recv_flags_def gc_flags_def
  serve_decls_def root_flags_def

text \<open>No command declares a flag or a shorthand twice, or takes those that cobra adds, which would make the program panic at its start.\<close>

lemma newRoot_distinct:
  "list_all (\<lambda>c. distinct ([''help'', ''version''] @ map fst (cmd_flags c)) \<and>
     distinct (''h'' # filter (\<lambda>s. s \<noteq> '''') (map (fst \<circ> snd) (cmd_flags c))) \<and> set (cmd_required c) \<subseteq> fst ` set (cmd_flags c)) newRoot"
  "distinct (map cmd_name newRoot)"
  by (simp_all add: newRoot_def decls_def decl_defs var_defs)

text \<open>The configuration of a command without flags.\<close>

lemma copy_defaults:
  "flags_of copy_flags zero_transfer [] = zero_transfer\<lparr>tf_resume := True, tf_attempts := 5, tf_auto := True, tf_compress := ''auto'', tf_job := ''default''\<rparr>"
  by (simp add: flags_of_def flag_defaults_def zero_transfer_def decl_defs var_defs)

text \<open>The flags of \<open>copy\<close> and \<open>sync\<close> in the table of \<open>README.md\<close>: all but one are declared.\<close>

definition readme_flags :: "string list" where
  "readme_flags = [''auto'', ''no-auto'', ''streams'', ''compress'', ''chunk-size'', ''bwlimit'', ''stable-window'', ''resume'', ''checksum'',
     ''skip-unstable'', ''exclude'', ''delete'', ''insecure'', ''log-file'', ''no-log'']"

lemma readme_flags_declared: "filter (\<lambda>n. n \<notin> set (map flg_name sync_flags)) readme_flags = [''no-auto'']"
  by (simp add: readme_flags_def decl_defs var_defs)

lemma cobra_unknown:
  "cobra_laws cobra \<Longrightarrow> n \<notin> {'''', ''help'', ''version''} \<Longrightarrow> CHR ''='' \<notin> set n \<Longrightarrow> as \<noteq> [] \<Longrightarrow> hd as \<in> cmd_name ` set cs \<Longrightarrow>
   list_all plain_word as \<Longrightarrow> \<forall>c \<in> set cs. n \<notin> fst ` set (cmd_flags c) \<Longrightarrow> isl (cobra cs (as @ [''--'' @ n]))"
  unfolding cobra_laws_def by blast

text \<open>The example of \<open>README.md\<close> that turns tuning off is refused before anything is done.\<close>

lemma no_auto_rejected:
  assumes "cobra_laws cobra"
  shows "main_status (ExecuteArgs cobra u [''copy'', ''./src'', ''./dst'', ''--streams=8'', ''--no-auto''] x) = 1 \<and>
    snd (ExecuteArgs cobra u [''copy'', ''./src'', ''./dst'', ''--streams=8'', ''--no-auto''] x) = x"
proof -
  have n: "\<forall>c \<in> set newRoot. ''no-auto'' \<notin> fst ` set (cmd_flags c)"
    by (simp add: newRoot_def decls_def decl_defs var_defs)
  have h: "hd [''copy'', ''./src'', ''./dst'', ''--streams=8''] \<in> cmd_name ` set newRoot"
    by (simp add: newRoot_def)
  have p: "list_all plain_word [''copy'', ''./src'', ''./dst'', ''--streams=8'']"
    by (simp add: plain_word_def HasPrefix_def)
  have "isl (cobra newRoot ([''copy'', ''./src'', ''./dst'', ''--streams=8''] @ [''--'' @ ''no-auto'']))"
    by (rule cobra_unknown [OF assms _ _ _ h p n]) simp_all
  then show ?thesis
    by (auto simp: ExecuteArgs_def main_status_def isl_def)
qed

text \<open>A flag keeps its value when no flag of the list sets it.\<close>

lemma common_keep_delete: "d \<in> set commonTransferFlags \<Longrightarrow> tf_delete (flg_set d v f) = tf_delete f"
proof -
  have "list_all (\<lambda>d. \<forall>v f. tf_delete (flg_set d v f) = tf_delete f) commonTransferFlags"
    by (simp add: commonTransferFlags_def var_defs split: flag_value.split)
  then show "d \<in> set commonTransferFlags \<Longrightarrow> ?thesis" by (simp add: list_all_iff)
qed

lemma flag_assign_cases: "flag_assign fs a f = f \<or> (\<exists>d \<in> set fs. flg_name d = fst a \<and> flag_assign fs a f = flg_set d (snd a) f)"
  by (auto simp: flag_assign_def find_Some_iff split: option.split)

lemma flag_assign_delete:
  "tf_delete (flag_assign sync_flags a f) \<Longrightarrow> tf_delete f \<or> a = (''delete'', VBool True)"
  "tf_delete (flag_assign copy_flags a f) \<Longrightarrow> tf_delete f"
proof -
  have v: "tf_delete (flg_set (BoolVar tf_delete_update n b) v f) \<Longrightarrow> tf_delete f \<or> v = VBool True" for n b v
    by (auto simp: BoolVar_def BoolVarP_def split: flag_value.splits)
  have n: "flg_name (BoolVar tf_delete_update n b) = n" for n b by (simp add: BoolVar_def BoolVarP_def)
  show "tf_delete (flag_assign sync_flags a f) \<Longrightarrow> tf_delete f \<or> a = (''delete'', VBool True)"
    using flag_assign_cases [of sync_flags a f] by (cases a) (auto simp: sync_flags_def common_keep_delete n dest: v)
  show "tf_delete (flag_assign copy_flags a f) \<Longrightarrow> tf_delete f"
    using flag_assign_cases [of copy_flags a f] by (auto simp: copy_flags_def common_keep_delete)
qed

lemma flags_of_delete:
  "tf_delete (flags_of sync_flags zero_transfer vs) \<Longrightarrow> (''delete'', VBool True) \<in> set vs"
  "\<not> tf_delete (flags_of copy_flags zero_transfer vs)"
proof -
  have s: "tf_delete (fold (flag_assign sync_flags) vs f) \<Longrightarrow> tf_delete f \<or> (''delete'', VBool True) \<in> set vs" for f
    by (induction vs arbitrary: f) (auto dest: flag_assign_delete(1))
  have c: "tf_delete (fold (flag_assign copy_flags) vs f) \<Longrightarrow> tf_delete f" for f
    by (induction vs arbitrary: f) (auto dest: flag_assign_delete(2))
  have z: "\<not> tf_delete (flag_defaults sync_flags zero_transfer)" "\<not> tf_delete (flag_defaults copy_flags zero_transfer)"
    by (simp_all add: flag_defaults_def zero_transfer_def decl_defs var_defs)
  show "tf_delete (flags_of sync_flags zero_transfer vs) \<Longrightarrow> (''delete'', VBool True) \<in> set vs"
    using s z(1) unfolding flags_of_def by blast
  show "\<not> tf_delete (flags_of copy_flags zero_transfer vs)"
    using c z(2) unfolding flags_of_def by blast
qed

section \<open>Properties\<close>

text \<open>Whether the command is \<open>sync\<close> and \<open>--delete\<close> is given.\<close>

definition asked :: "parsed res \<Rightarrow> bool" where
  "asked p = (case p of Inr (PRun name vs args) \<Rightarrow> name = ''sync'' \<and> (''delete'', VBool True) \<in> set vs | _ \<Rightarrow> False)"

text \<open>
  C29. Only \<open>sync\<close> with \<open>--delete\<close> runs a job that may delete: whatever the arguments are, and however they are read, an engine that does
  anything else, \<open>r\<close>, when it is given a configuration that deletes and was not asked to is not told apart from the real one.
\<close>
theorem delete_only_on_request:
  "ExecuteArgs cobra (u\<lparr>us_run := (\<lambda>cfg. if cf_delete cfg \<and> \<not> asked (cobra newRoot as) then r cfg else us_run u cfg)\<rparr>) as x = ExecuteArgs cobra u as x"
proof (cases "cobra newRoot as")
  case (Inr p)
  show ?thesis
  proof (cases p)
    case (PRun name vs args)
    have b: "buildConfig v vb src dest f sy = Inr cfg \<Longrightarrow> cf_delete cfg = tf_delete f" for v vb src dest f sy cfg
      by (auto simp: buildConfig_def Let_def split: sum.splits if_splits)
    have t: "transfer_cmd v vb (\<lambda>cfg. if cf_delete cfg \<and> \<not> q then r cfg else us_run u cfg) f sy s d x = transfer_cmd v vb (us_run u) f sy s d x"
      if "tf_delete f \<longrightarrow> q" for v vb f sy s d q
      using that by (auto simp: transfer_cmd_def dest: b split: sum.split)
    show ?thesis
      using t [of _ "(''delete'', VBool True) \<in> set vs"] t [of _ False] Inr PRun flags_of_delete [of vs]
      by (simp add: ExecuteArgs_def run_command_def asked_def Let_def)
  qed (simp add: ExecuteArgs_def Inr)
qed (simp add: ExecuteArgs_def)

end
