(* ===== verification/Spec2Isabelle.thy ===== *)
theory Spec2Isabelle
  imports Chunk Delta ReuseRange SafePath Compress Protocol Journal IndexCache Progress FsMeta Local Transport S3 S3Store Relay RelayJob Endpoint RelaySignal Engine EngineJob Workers WorkersJob JobRun Helper Remote RemoteJob Nfs Autotune Limiter Cli Pinning Serve Connections Flags
begin

text \<open>
  A verification library for quiksync, a one-way file synchroniser written in Go (the sources are below
  \<open>internal/\<close>). A job walks a source tree, cuts each file into content-defined chunks, plans which of them
  the destination already has, sends the rest through a staged write and publishes the file when its digest is right.
  Source and destination are backends behind one interface: a local directory, an S3 bucket, or a remote helper
  that is reached over QUIC or ssh and speaks a framed protocol. A relay stores a job in a third backend for a
  receiver that comes later.

  Shared vocabulary. \<open>Prelude\<close>: machine integers as words, byte strings, errors as values (\<open>goerr\<close>, and \<open>'a res\<close> for a
  result or an error). \<open>GoStr\<close>, \<open>GoPath\<close>, \<open>GoIO\<close>: what the sources use of \<open>strings\<close>, \<open>path\<close>, \<open>path/filepath\<close> and \<open>io\<close>. A reader is
  the script of what its calls to \<open>Read\<close> return, so every fragmentation and every error of a stream is an
  input; a writer is what it has accepted and the script of its failures.

  Theories and code.
    \<^item> \<open>Chunk\<close>: \<open>chunk/chunk.go\<close>. The gear hash, \<open>StreamChunks\<close> with its buffer, \<open>ChunkReader\<close>, the encoding of signatures. The cut
      points are refined to a function of the content, so the stream's fragmentation does not matter.
    \<^item> \<open>Delta\<close>: \<open>delta/delta.go\<close>. \<open>Diff\<close> and \<open>NeedsTransfer\<close>; executing a plan rebuilds the source.
    \<^item> \<open>ReuseRange\<close>: \<open>transport/reuse.go\<close>, on 64-bit words with their wrap-around.
    \<^item> \<open>SafePath\<close>: \<open>transport/safepath.go\<close>, \<open>open_confined*.go\<close>. Lexical confinement, and opening component by component in a file
      tree with symbolic links.
    \<^item> \<open>Compress\<close>: \<open>compress/compress.go\<close>, for any codec library that inverts itself.
    \<^item> \<open>Protocol\<close>: \<open>protocol/protocol.go\<close>. Message types, framing, versions.
    \<^item> \<open>Journal\<close>, \<open>IndexCache\<close>, \<open>Progress\<close>: \<open>journal/journal.go\<close>, \<open>index/cache.go\<close>, \<open>progress/progress.go\<close>. The state that survives a job; the
      locale \<open>safe_name\<close> says that the file names made of job ids stay in their directory.
    \<^item> \<open>FsMeta\<close>: \<open>fsmeta/walk.go\<close>. Exclude globs and the walk.
    \<^item> \<open>WriteSession\<close>, \<open>Transport\<close>: the interfaces of \<open>transport/transport.go\<close>. The locales \<open>staged_write\<close> and \<open>write_session\<close> are the
      contract of a staged write; \<open>store\<close>, \<open>detached_store\<close> and \<open>readable_store\<close> that of a backend: what each call may change,
      and that a first commit publishes content of the digest it was given.
    \<^item> \<open>Local\<close>: \<open>transport/local/local.go\<close>. Staging files, the rename and its cross-device fallback, on a disk with handles and faults.
    \<^item> \<open>S3\<close>, \<open>S3Store\<close>: \<open>transport/s3/s3.go\<close> and \<open>memory.go\<close>. The calls of the API are a parameter with the laws \<open>s3_store\<close>; the
      in-process store of \<open>memory.go\<close> is an interpretation, and the backend over it interprets \<open>store\<close>.
    \<^item> \<open>Endpoint\<close>: \<open>transport/parse.go\<close>, \<open>transport/factory/factory.go\<close>. Endpoint texts and the backend they choose.
    \<^item> \<open>Relay\<close>, \<open>RelayJob\<close>: \<open>relay/relay.go\<close>. \<open>Send\<close>, \<open>Recv\<close>, \<open>GC\<close>, leases and the waiting, over any stores.
    \<^item> \<open>RelaySignal\<close>: \<open>transport/daemon/relay_signal.go\<close>. The wake-up registry as a step relation of waiting and waking goroutines.
    \<^item> \<open>Engine\<close>, \<open>EngineJob\<close>: \<open>engine/engine.go\<close>. One transfer in two passes, its retries, the job, deletion and \<open>Verify\<close>, over any stores.
    \<^item> \<open>Workers\<close>, \<open>WorkersJob\<close>: the goroutines of \<open>Run\<close> in \<open>engine/engine.go\<close>. Their calls of the shared backends interleave in a step
      relation; the locale \<open>shared_store\<close> is the contract of a backend that several sessions use at once, and the sequential loop
      of \<open>Engine\<close> is shown to be a run of one worker.
    \<^item> \<open>JobRun\<close>: \<open>Run\<close>, \<open>Verify\<close>, \<open>VerifyFiltered\<close> and \<open>progressTicker\<close> in \<open>engine/engine.go\<close>. Opening and closing of what a job uses, with
      every handle closed on every way out, what is reported, and the loop of \<open>EngineJob\<close> with the tuner between the files.
    \<^item> \<open>Helper\<close>: \<open>transport/daemon/helper.go\<close>. The server of the protocol: hello, every message, the loop, on the bytes of its stream.
    \<^item> \<open>Remote\<close>, \<open>RemoteJob\<close>: \<open>transport/daemon/quic.go\<close> and \<open>transport/ssh/ssh.go\<close>. The client of the helper as a backend. Request and reply
      go through the framing of both sides, on a connection that may break at any byte; what breaks stays broken.

    \<^item> \<open>Nfs\<close>: \<open>transport/nfs/nfs.go\<close>, \<open>rename.go\<close>. The backend over an NFS client library, whose calls are a parameter with the laws
      \<open>nfs_server\<close>; a server in memory is an interpretation. The locale gives the contract of a staged write (\<open>sublocale\<close>).
    \<^item> \<open>Autotune\<close>, \<open>Limiter\<close>: \<open>autotune/autotune.go\<close>, \<open>transfer/limiter.go\<close>. The tuner for any float arithmetic; the token bucket pass by pass,
      under any interleaving of the workers that share it, with the bytes it lets through in arithmetic that rounds (the locale \<open>rounded\<close>,
      interpreted for exact arithmetic and for a mantissa of 53 bits).
    \<^item> \<open>Cli\<close>: \<open>cli/*.go\<close>. Sizes, the configuration made of the flags, and what the commands do up to the calls they make.
    \<^item> \<open>Pinning\<close>: \<open>transport/daemon/tofu.go\<close>, \<open>transport/ssh/native.go\<close>. Trust on first use as a step relation of clients that race for the
      first pin, and the native ssh dialer.
    \<^item> \<open>Serve\<close>: \<open>Serve\<close> and \<open>handleConn\<close> of \<open>transport/daemon/quic.go\<close>, \<open>cli/serve.go\<close>, \<open>relay/signal_quic.go\<close>. Who may reach the helper, and
      the client of the wake-up messages.
    \<^item> \<open>Connections\<close>: \<open>New\<close> and \<open>Close\<close> of \<open>transport/ssh/ssh.go\<close>, \<open>DialOpts\<close> of \<open>quic.go\<close>. How the connections of \<open>Remote\<close> come to be and end, with
      the handles that are open; a failing \<open>New\<close> or \<open>DialOpts\<close> leaves none, but for the pipes of a child process that was never started.
    \<^item> \<open>Flags\<close>: \<open>cli/root.go\<close>, \<open>cmd/quiksync/main.go\<close>. Every command and flag with its default, and the way from the arguments to a command.

  How the parts meet. \<open>Local\<close> and \<open>S3\<close> interpret the session contracts, \<open>S3Store\<close> the store contract. The locale \<open>served_store\<close> is a
  helper over a detached store with what JSON does to the requests; it gives \<open>store\<close> again for the client
  (\<open>sublocale\<close>), so that everything proved of the engine and the relay over a store holds over a remote one. A remote
  store is not a \<open>readable_store\<close>: a connection that is closed between two frames looks like the end of a file.

  What the lemmas show. Per component: the behaviour of each operation on every branch, the invariant it keeps,
  and the reference function it is equal to. Across components: a copy, local or remote, changes no other file and
  ends, when it reports success, in content with the digest of the source; a relay job delivers what was sent; a receiver
  whose manifest cannot be staged has touched nothing outside its staging directory; a helper changes only files
  that it was asked to write or remove, as long as it is asked for none of the paths its backend reserves. Some properties state what the code does where that is not what was meant; they
  are the findings of the manifest.

  Bounds and fuel. Loops over data are recursive functions with measures. Loops that may run forever are
  \<open>partial_function (option)\<close> (chunking a reader that never ends, walking pages of a listing that never ends) and their results are
  theorems about \<open>Some\<close>. The helper's loop and the relay's waiting run over a list of rounds, one for each message or wake-up; the theorems hold
  for every list.

  Parameters. BLAKE3 and SHA-256, the lz4 and zstd codecs, the text of JSON, \<open>url.Parse\<close>, the S3 and NFS clients, the QUIC and ssh connections, cobra, float arithmetic,
  clocks and contexts are arguments of the definitions that use them. Hypotheses about them are named where they are made.

  Not modelled. The lines commands print and their help, making X.509 certificates, the goroutines that accept QUIC streams, and the Windows
  calls of path confinement, which are calls of their libraries. The streams of a connection are taken one after the other, and each
  request has a reply stream of its own. Strings are bytes; upper case and white space are those of ASCII, while globs match UTF-8 runes.
\<close>

end
